(* ===== verification/Prelude.thy ===== *)
theory Prelude
  imports Main "HOL-Library.Word"
begin

text \<open>
  Shared vocabulary of the development: machine integers and byte strings, Rust's
  \<open>Result\<close> and panics as values, the error-propagating sequencing of pure and of stateful
  code, the standard library's checked and saturating arithmetic, little- and big-endian
  byte layouts, decimal printing, and the generic lemmas the component theories rely on.
\<close>

unbundle bit_operations_syntax

named_theorems res_simps \<open>rewriting of error-propagating sequences\<close>
named_theorems byte_simps \<open>lengths and inverses of byte layouts\<close>

section \<open>Machine integers, bytes\<close>

type_synonym u8 = "8 word"
type_synonym u16 = "16 word"
type_synonym u32 = "32 word"
type_synonym u64 = "64 word"
type_synonym bytes = "u8 list"

section \<open>Results\<close>

text \<open>
  \<open>Err m\<close> is the \<open>Err(String)\<close> a function returns, with its message; \<open>Panic m\<close> is a
  panic (a failed assertion, an \<open>unwrap\<close> on an error, an index out of range).
\<close>

datatype error = Err string | Panic string

type_synonym 'a res = "error + 'a"

text \<open>\<open>attempt m k\<close> is \<open>let x = m?; k x\<close>.\<close>

definition attempt :: "'e + 'a \<Rightarrow> ('a \<Rightarrow> 'e + 'b) \<Rightarrow> 'e + 'b" where
  "attempt m k = (case m of Inl e \<Rightarrow> Inl e | Inr x \<Rightarrow> k x)"

text \<open>\<open>guard b m\<close> is \<open>if !b { return Err(m) }\<close>.\<close>

definition guard :: "bool \<Rightarrow> string \<Rightarrow> unit res" where
  "guard b m = (if b then Inr () else Inl (Err m))"

definition ok_or :: "'a option \<Rightarrow> string \<Rightarrow> 'a res" where
  "ok_or v m = (case v of None \<Rightarrow> Inl (Err m) | Some x \<Rightarrow> Inr x)"

definition unwrap :: "'a option \<Rightarrow> 'a res" where
  "unwrap v = (case v of None \<Rightarrow> Inl (Panic ''called unwrap on an error'') | Some x \<Rightarrow> Inr x)"

text \<open>\<open>map_err\<close> rewrites the message of a returned error; a panic is not caught.\<close>

definition map_err :: "(string \<Rightarrow> string) \<Rightarrow> 'a res \<Rightarrow> 'a res" where
  "map_err f r = (case r of Inl (Err m) \<Rightarrow> Inl (Err (f m)) | Inl (Panic m) \<Rightarrow> Inl (Panic m)
                          | Inr x \<Rightarrow> Inr x)"

fun map_res :: "('a \<Rightarrow> 'b res) \<Rightarrow> 'a list \<Rightarrow> 'b list res" where
  "map_res f [] = Inr []"
| "map_res f (x # xs) = attempt (f x) (\<lambda>y. attempt (map_res f xs) (\<lambda>ys. Inr (y # ys)))"

lemma attempt_simps [simp, res_simps]:
  "attempt (Inl e) k = Inl e" "attempt (Inr x) k = k x"
  by (simp_all add: attempt_def)

lemma guard_simps [simp, res_simps]:
  "guard True m = Inr ()" "guard False m = Inl (Err m)"
  by (simp_all add: guard_def)

lemma ok_or_simps [simp, res_simps]:
  "ok_or None m = Inl (Err m)" "ok_or (Some x) m = Inr x"
  by (simp_all add: ok_or_def)

lemma unwrap_simps [simp, res_simps]: "unwrap (Some x) = Inr x"
  by (simp add: unwrap_def)

lemma attempt_eq_Inr [res_simps]:
  "attempt m k = Inr y \<longleftrightarrow> (\<exists>x. m = Inr x \<and> k x = Inr y)"
  by (cases m) simp_all

lemma guard_eq_Inr [res_simps]: "guard b m = Inr u \<longleftrightarrow> b"
  by (simp add: guard_def)

lemma ok_or_eq_Inr [res_simps]: "ok_or v m = Inr x \<longleftrightarrow> v = Some x"
  by (cases v) simp_all

lemma map_err_eq_Inr [simp, res_simps]: "map_err f r = Inr x \<longleftrightarrow> r = Inr x"
  by (auto simp: map_err_def split: sum.splits error.splits)

lemma map_err_Inr [simp]: "map_err f (Inr x) = Inr x"
  by (simp add: map_err_def)

lemma attempt_Inr_right: "attempt m Inr = m"
  by (cases m) simp_all

lemma map_res_Inr: "(\<And>x. x \<in> set xs \<Longrightarrow> f x = Inr (g x)) \<Longrightarrow> map_res f xs = Inr (map g xs)"
  by (induction xs) simp_all

lemma map_res_length: "map_res f xs = Inr ys \<Longrightarrow> length ys = length xs"
  by (induction xs arbitrary: ys) (auto simp: res_simps)

section \<open>Stateful code\<close>

text \<open>
  A method on \<open>&mut self\<close> that returns a \<open>Result\<close> maps a state to the result and the state
  after the call; the state of a failing call is the one its writes have left behind.
\<close>

type_synonym ('s, 'a) action = "'s \<Rightarrow> 'a res \<times> 's"

definition bind_act :: "('s, 'a) action \<Rightarrow> ('a \<Rightarrow> ('s, 'b) action) \<Rightarrow> ('s, 'b) action" where
  "bind_act m k s = (case m s of (Inl e, s') \<Rightarrow> (Inl e, s') | (Inr x, s') \<Rightarrow> k x s')"

definition ret_act :: "'a \<Rightarrow> ('s, 'a) action" where
  "ret_act x s = (Inr x, s)"

text \<open>A read-only call that may fail.\<close>

definition read_act :: "('s \<Rightarrow> 'a res) \<Rightarrow> ('s, 'a) action" where
  "read_act f s = (f s, s)"

text \<open>A write that cannot fail.\<close>

definition write_act :: "('s \<Rightarrow> 's) \<Rightarrow> ('s, unit) action" where
  "write_act f s = (Inr (), f s)"

fun each_act :: "('a \<Rightarrow> ('s, unit) action) \<Rightarrow> 'a list \<Rightarrow> ('s, unit) action" where
  "each_act f [] = ret_act ()"
| "each_act f (x # xs) = bind_act (f x) (\<lambda>_. each_act f xs)"

lemma bind_act_Inl: "m s = (Inl e, s') \<Longrightarrow> bind_act m k s = (Inl e, s')"
  by (simp add: bind_act_def)

lemma bind_act_Inr: "m s = (Inr x, s') \<Longrightarrow> bind_act m k s = k x s'"
  by (simp add: bind_act_def)

lemma ret_act_apply [simp]: "ret_act x s = (Inr x, s)"
  by (simp add: ret_act_def)

lemma read_act_apply [simp]: "read_act f s = (f s, s)"
  by (simp add: read_act_def)

lemma write_act_apply [simp]: "write_act f s = (Inr (), f s)"
  by (simp add: write_act_def)

lemma bind_read_act:
  "bind_act (read_act f) k s = (case f s of Inl e \<Rightarrow> (Inl e, s) | Inr x \<Rightarrow> k x s)"
  by (cases "f s") (simp_all add: bind_act_def)

lemma bind_act_cases:
  assumes "bind_act m k s = (r, s')"
  obtains (fail) e where "m s = (Inl e, s')" "r = Inl e"
    | (go) x s1 where "m s = (Inr x, s1)" "k x s1 = (r, s')"
  using assms by (auto simp: bind_act_def split: prod.splits sum.splits)

section \<open>Standard-library arithmetic\<close>

definition checked_add :: "'a::len word \<Rightarrow> 'a word \<Rightarrow> 'a word option" where
  "checked_add a b = (if unat a + unat b < 2 ^ LENGTH('a) then Some (a + b) else None)"

definition saturating_add :: "'a::len word \<Rightarrow> 'a word \<Rightarrow> 'a word" where
  "saturating_add a b = (if unat a + unat b < 2 ^ LENGTH('a) then a + b else - 1)"

definition saturating_sub :: "'a::len word \<Rightarrow> 'a word \<Rightarrow> 'a word" where
  "saturating_sub a b = (if b \<le> a then a - b else 0)"

definition saturating_mul :: "'a::len word \<Rightarrow> 'a word \<Rightarrow> 'a word" where
  "saturating_mul a b = (if unat a * unat b < 2 ^ LENGTH('a) then a * b else - 1)"

lemma unat_add_no_wrap:
  fixes a b :: "'a::len word"
  shows "unat a + unat b < 2 ^ LENGTH('a) \<Longrightarrow> unat (a + b) = unat a + unat b"
  by (simp add: unat_word_ariths)

lemma unat_mult_no_wrap:
  fixes a b :: "'a::len word"
  shows "unat a * unat b < 2 ^ LENGTH('a) \<Longrightarrow> unat (a * b) = unat a * unat b"
  by (simp add: unat_word_ariths)

lemma unat_of_nat_small: "n < 2 ^ LENGTH('a) \<Longrightarrow> unat (word_of_nat n :: 'a::len word) = n"
  by (simp add: unat_of_nat)

lemma checked_add_Some:
  "checked_add a b = Some c \<longleftrightarrow> unat a + unat b < 2 ^ LENGTH('a) \<and> c = a + b"
  for a b c :: "'a::len word"
  by (auto simp: checked_add_def)

lemma checked_add_unat: "checked_add a b = Some c \<Longrightarrow> unat c = unat a + unat b"
  for a b c :: "'a::len word"
  by (simp add: checked_add_Some unat_add_no_wrap)

lemma checked_add_None:
  "checked_add a b = None \<longleftrightarrow> 2 ^ LENGTH('a) \<le> unat a + unat b"
  for a b :: "'a::len word"
  by (auto simp: checked_add_def)

lemma unat_sub_le: "b \<le> a \<Longrightarrow> unat (a - b) = unat a - unat b"
  for a b :: "'a::len word"
  by (simp add: unat_sub)

section \<open>Byte layouts of integers\<close>

text \<open>
  \<open>to_le n w\<close> are the \<open>n\<close> low bytes of \<open>w\<close>, least significant first
  (\<open>to_le_bytes\<close> when \<open>n\<close> is the width); \<open>from_le\<close> is \<open>from_le_bytes\<close>.
\<close>

primrec to_le :: "nat \<Rightarrow> 'a::len word \<Rightarrow> bytes" where
  "to_le 0 w = []"
| "to_le (Suc n) w = ucast w # to_le n (drop_bit 8 w)"

primrec from_le :: "bytes \<Rightarrow> 'a::len word" where
  "from_le [] = 0"
| "from_le (b # bs) = ucast b OR push_bit 8 (from_le bs)"

definition to_be :: "nat \<Rightarrow> 'a::len word \<Rightarrow> bytes" where
  "to_be n w = rev (to_le n w)"

definition from_be :: "bytes \<Rightarrow> 'a::len word" where
  "from_be bs = from_le (rev bs)"

lemma length_to_le [simp, byte_simps]: "length (to_le n w) = n"
  by (induction n arbitrary: w) simp_all

lemma length_to_be [simp, byte_simps]: "length (to_be n w) = n"
  by (simp add: to_be_def)

lemma from_le_to_le_bits: "from_le (to_le n w) = take_bit (8 * n) w"
proof (induction n arbitrary: w)
  case 0
  show ?case by simp
next
  case (Suc n)
  show ?case
    by (rule bit_word_eqI) (auto simp: Suc bit_simps)
qed

lemma from_le_to_le [byte_simps]:
  fixes w :: "'a::len word"
  assumes "LENGTH('a) \<le> 8 * n"
  shows "from_le (to_le n w) = w"
proof -
  have "take_bit (8 * n) w = w"
    using assms by (intro bit_word_eqI) (auto simp: bit_simps dest: bit_imp_le_length)
  then show ?thesis by (simp add: from_le_to_le_bits)
qed

lemma from_le_u64 [simp]: "from_le (to_le 8 (w :: u64)) = w"
  by (simp add: from_le_to_le)

lemma from_le_u32 [simp]: "from_le (to_le 4 (w :: u32)) = w"
  by (simp add: from_le_to_le)

lemma from_le_u16 [simp]: "from_le (to_le 2 (w :: u16)) = w"
  by (simp add: from_le_to_le)

lemma from_be_to_be [byte_simps]:
  "LENGTH('a) \<le> 8 * n \<Longrightarrow> from_be (to_be n (w :: 'a::len word)) = w"
  by (simp add: from_be_def to_be_def from_le_to_le)

lemma from_le_bit_high: "8 * length bs \<le> i \<Longrightarrow> \<not> bit (from_le bs :: 'a::len word) i"
proof (induction bs arbitrary: i)
  case Nil
  then show ?case by simp
next
  case (Cons b bs)
  then have "\<not> bit (from_le bs :: 'a word) (i - 8)" by simp
  moreover have "\<not> bit b i" using Cons.prems by (auto dest: bit_imp_le_length)
  ultimately show ?case by (auto simp: bit_simps)
qed

lemma to_le_from_le:
  assumes "8 * length bs \<le> LENGTH('a)"
  shows "to_le (length bs) (from_le bs :: 'a::len word) = bs"
  using assms
proof (induction bs)
  case Nil
  show ?case by simp
next
  case (Cons b bs)
  let ?w = "from_le bs :: 'a word"
  have hd: "ucast (ucast b OR push_bit 8 ?w) = b"
    using Cons.prems by (intro bit_word_eqI) (auto simp: bit_simps)
  have "drop_bit 8 (ucast b OR push_bit 8 ?w) = ?w"
  proof (rule bit_word_eqI)
    fix n
    assume n: "n < LENGTH('a)"
    have "\<not> bit b (8 + n)" by (auto dest: bit_imp_le_length)
    moreover have "bit ?w n \<Longrightarrow> 8 + n < LENGTH('a)"
      using Cons.prems from_le_bit_high [of bs n] by (cases "8 * length bs \<le> n") auto
    ultimately show "bit (drop_bit 8 (ucast b OR push_bit 8 ?w)) n = bit ?w n"
      using n by (auto simp: bit_simps)
  qed
  then show ?case using hd Cons by simp
qed

lemma to_le_from_le_n:
  "length bs = n \<Longrightarrow> 8 * n \<le> LENGTH('a) \<Longrightarrow> to_le n (from_le bs :: 'a::len word) = bs"
  using to_le_from_le by blast

lemma to_le_inject:
  fixes w v :: "'a::len word"
  assumes "LENGTH('a) \<le> 8 * n"
  shows "to_le n w = to_le n v \<longleftrightarrow> w = v"
  using assms from_le_to_le by metis

section \<open>Printing numbers\<close>

definition digit_char :: "nat \<Rightarrow> char" where
  "digit_char d = char_of (if d < 10 then 48 + d else 87 + d)"

definition char_digit :: "char \<Rightarrow> nat" where
  "char_digit c = (let n = of_char c in if n < 87 then n - 48 else n - 87)"

lemma char_digit_digit_char: "d < 16 \<Longrightarrow> char_digit (digit_char d) = d"
  by (simp add: digit_char_def char_digit_def Let_def)

text \<open>The digits of a number in base \<open>b\<close>, most significant first, as \<open>format!\<close> prints them.\<close>

fun show_base :: "nat \<Rightarrow> nat \<Rightarrow> string" where
  "show_base b n =
     (if b \<le> 1 \<or> n < b then [digit_char n]
      else show_base b (n div b) @ [digit_char (n mod b)])"

declare show_base.simps [simp del]

abbreviation show_nat :: "nat \<Rightarrow> string" where
  "show_nat \<equiv> show_base 10"

abbreviation show_word :: "'a::len word \<Rightarrow> string" where
  "show_word w \<equiv> show_nat (unat w)"

text \<open>\<open>{:0Nx}\<close>: lower-case hexadecimal, padded with zeros to at least \<open>N\<close> digits.\<close>

definition fmt_hex :: "nat \<Rightarrow> nat \<Rightarrow> string" where
  "fmt_hex width n = (let ds = show_base 16 n in replicate (width - length ds) (CHR ''0'') @ ds)"

definition read_base :: "nat \<Rightarrow> string \<Rightarrow> nat" where
  "read_base b s = foldl (\<lambda>acc c. b * acc + char_digit c) 0 s"

lemma read_base_show_base:
  assumes "1 < b" "b \<le> 16"
  shows "read_base b (show_base b n) = n"
proof (induction n rule: less_induct)
  case (less n)
  show ?case
  proof (cases "n < b")
    case True
    then show ?thesis
      using assms by (subst show_base.simps) (simp add: read_base_def char_digit_digit_char)
  next
    case False
    have "n mod b < 16" using assms by (meson less_le_trans mod_less_divisor order_less_trans zero_less_one)
    moreover have "read_base b (show_base b (n div b)) = n div b"
      using False assms by (intro less) simp
    ultimately show ?thesis
      using assms False
      by (subst show_base.simps) (simp add: read_base_def char_digit_digit_char)
  qed
qed

lemma read_base_zeros: "read_base b (replicate k (CHR ''0'') @ ds) = read_base b ds"
proof -
  have "foldl (\<lambda>acc c. b * acc + char_digit c) 0 (replicate k (CHR ''0'')) = 0"
    by (induction k) (simp_all add: char_digit_def)
  then show ?thesis by (simp add: read_base_def)
qed

lemma read_fmt_hex: "read_base 16 (fmt_hex w n) = n"
  by (simp add: fmt_hex_def Let_def read_base_zeros read_base_show_base)

lemma fmt_hex_inject [simp]: "fmt_hex w n = fmt_hex w m \<longleftrightarrow> n = m"
  by (metis read_fmt_hex)

section \<open>Lists\<close>

text \<open>\<open>xs[a..b]\<close>\<close>

definition slice :: "nat \<Rightarrow> nat \<Rightarrow> 'a list \<Rightarrow> 'a list" where
  "slice a b xs = take (b - a) (drop a xs)"

lemma length_slice [simp]: "b \<le> length xs \<Longrightarrow> length (slice a b xs) = b - a"
  by (simp add: slice_def)

lemma slice_skip [simp]:
  "length xs \<le> a \<Longrightarrow> slice a b (xs @ ys) = slice (a - length xs) (b - length xs) ys"
  by (simp add: slice_def)

lemma slice_here [simp]: "length xs = n \<Longrightarrow> slice 0 n (xs @ ys) = xs" "length xs = n \<Longrightarrow> slice 0 n xs = xs"
  by (simp_all add: slice_def)

lemma slice_Cons [simp]: "0 < a \<Longrightarrow> slice a b (x # xs) = slice (a - 1) (b - 1) xs"
  by (cases a) (simp_all add: slice_def)

lemma slice_split: "a \<le> b \<Longrightarrow> b \<le> c \<Longrightarrow> slice a b xs @ slice b c xs = slice a c xs"
  by (auto simp: slice_def take_add add.commute dest!: le_Suc_ex)

lemma slice_all: "slice 0 (length xs) xs = xs"
  by (simp add: slice_def)

lemma concat_equal_length_inject:
  assumes "list_all2 (\<lambda>x y. length x = length y) xs ys"
  shows "concat xs = concat ys \<longleftrightarrow> xs = ys"
  using assms by (induction rule: list_all2_induct) auto

end
