(* ===== verification/Codec.thy ===== *)
theory Codec
  imports Strings
begin

text \<open>
  The structures the sources derive \<open>BinWriter\<close> and \<open>NomReader\<close> for, as a type of layouts
  and a type of structures: byte fields of a fixed size (\<open>sized = n, bytes\<close>), byte fields with
  a length prefix and a bound (\<open>dynamic = n, bytes\<close>), lists with a byte-length prefix, strings
  with a bound, single bytes, optional fields, structures of fields, and tagged unions with
  one-byte tags. \<open>fits\<close> says that a structure has the shape of a layout and keeps its bounds.
  The codec of the layouts is third-party code and a parameter of the model; the executable
  codec at the end of the theory shows that what is assumed of it can hold.
\<close>

section \<open>Layouts and structures\<close>

datatype schema = Sized nat | Dynamic nat | DynList "nat option" schema | Text nat | Byte
  | Optional schema | Struct "schema list" | Tagged "u8 list" "schema list"

datatype wire = WBytes bytes | WList "wire list" | WText string | WByte u8
  | WNone | WSome wire | WFields "wire list" | WTag u8 wire

fun wire_size :: "schema \<Rightarrow> wire \<Rightarrow> nat"
  and fields_size :: "schema list \<Rightarrow> wire list \<Rightarrow> nat"
  and items_size :: "schema \<Rightarrow> wire list \<Rightarrow> nat"
  and variant_size :: "u8 list \<Rightarrow> schema list \<Rightarrow> u8 \<Rightarrow> wire \<Rightarrow> nat" where
  "wire_size (Sized n) w = n"
| "wire_size (Dynamic m) w = (case w of WBytes b \<Rightarrow> 4 + length b | _ \<Rightarrow> 0)"
| "wire_size (DynList m s) w = (case w of WList vs \<Rightarrow> 4 + items_size s vs | _ \<Rightarrow> 0)"
| "wire_size (Text m) w = (case w of WText t \<Rightarrow> 4 + length t | _ \<Rightarrow> 0)"
| "wire_size Byte w = 1"
| "wire_size (Optional s) w = (case w of WSome v \<Rightarrow> 1 + wire_size s v | _ \<Rightarrow> 1)"
| "wire_size (Struct ss) w = (case w of WFields vs \<Rightarrow> fields_size ss vs | _ \<Rightarrow> 0)"
| "wire_size (Tagged ts ss) w = (case w of WTag t v \<Rightarrow> 1 + variant_size ts ss t v | _ \<Rightarrow> 0)"
| "fields_size [] vs = 0"
| "fields_size (s # ss) vs = (case vs of v # vs' \<Rightarrow> wire_size s v + fields_size ss vs' | [] \<Rightarrow> 0)"
| "items_size s [] = 0"
| "items_size s (v # vs) = wire_size s v + items_size s vs"
| "variant_size ts [] t v = 0"
| "variant_size ts (s # ss) t v =
     (case ts of t' # ts' \<Rightarrow> if t = t' then wire_size s v else variant_size ts' ss t v | [] \<Rightarrow> 0)"

definition within :: "nat option \<Rightarrow> nat \<Rightarrow> bool" where
  "within bound n \<longleftrightarrow> n < 2 ^ 32 \<and> (case bound of None \<Rightarrow> True | Some m \<Rightarrow> n \<le> m)"

fun fits :: "schema \<Rightarrow> wire \<Rightarrow> bool"
  and fits_all :: "schema list \<Rightarrow> wire list \<Rightarrow> bool"
  and fits_each :: "schema \<Rightarrow> wire list \<Rightarrow> bool"
  and fits_variant :: "u8 list \<Rightarrow> schema list \<Rightarrow> u8 \<Rightarrow> wire \<Rightarrow> bool" where
  "fits (Sized n) w \<longleftrightarrow> (case w of WBytes b \<Rightarrow> length b = n | _ \<Rightarrow> False)"
| "fits (Dynamic m) w \<longleftrightarrow> (case w of WBytes b \<Rightarrow> within (Some m) (length b) | _ \<Rightarrow> False)"
| "fits (DynList m s) w \<longleftrightarrow> (case w of WList vs \<Rightarrow> fits_each s vs \<and> within m (items_size s vs) | _ \<Rightarrow> False)"
| "fits (Text m) w \<longleftrightarrow>
     (case w of WText t \<Rightarrow> within (Some m) (length t) \<and> utf8_valid (as_bytes t) | _ \<Rightarrow> False)"
| "fits Byte w \<longleftrightarrow> (case w of WByte b \<Rightarrow> True | _ \<Rightarrow> False)"
| "fits (Optional s) w \<longleftrightarrow> (case w of WNone \<Rightarrow> True | WSome v \<Rightarrow> fits s v | _ \<Rightarrow> False)"
| "fits (Struct ss) w \<longleftrightarrow> (case w of WFields vs \<Rightarrow> fits_all ss vs | _ \<Rightarrow> False)"
| "fits (Tagged ts ss) w \<longleftrightarrow> (case w of WTag t v \<Rightarrow> fits_variant ts ss t v | _ \<Rightarrow> False)"
| "fits_all [] vs \<longleftrightarrow> vs = []"
| "fits_all (s # ss) vs \<longleftrightarrow> (case vs of v # vs' \<Rightarrow> fits s v \<and> fits_all ss vs' | [] \<Rightarrow> False)"
| "fits_each s [] \<longleftrightarrow> True"
| "fits_each s (v # vs) \<longleftrightarrow> fits s v \<and> 0 < wire_size s v \<and> fits_each s vs"
| "fits_variant ts [] t v \<longleftrightarrow> False"
| "fits_variant ts (s # ss) t v \<longleftrightarrow>
     (case ts of t' # ts' \<Rightarrow> if t = t' then fits s v else fits_variant ts' ss t v | [] \<Rightarrow> False)"

section \<open>A codec\<close>

fun raw_of :: "schema \<Rightarrow> wire \<Rightarrow> bytes"
  and raw_all :: "schema list \<Rightarrow> wire list \<Rightarrow> bytes"
  and raw_each :: "schema \<Rightarrow> wire list \<Rightarrow> bytes"
  and raw_variant :: "u8 list \<Rightarrow> schema list \<Rightarrow> u8 \<Rightarrow> wire \<Rightarrow> bytes" where
  "raw_of (Sized n) w = (case w of WBytes b \<Rightarrow> b | _ \<Rightarrow> [])"
| "raw_of (Dynamic m) w = (case w of WBytes b \<Rightarrow> to_be 4 (word_of_nat (length b) :: u32) @ b | _ \<Rightarrow> [])"
| "raw_of (DynList m s) w =
     (case w of WList vs \<Rightarrow> to_be 4 (word_of_nat (items_size s vs) :: u32) @ raw_each s vs | _ \<Rightarrow> [])"
| "raw_of (Text m) w = (case w of WText t \<Rightarrow> to_be 4 (word_of_nat (length t) :: u32) @ as_bytes t | _ \<Rightarrow> [])"
| "raw_of Byte w = (case w of WByte b \<Rightarrow> [b] | _ \<Rightarrow> [])"
| "raw_of (Optional s) w = (case w of WNone \<Rightarrow> [0] | WSome v \<Rightarrow> 0xFF # raw_of s v | _ \<Rightarrow> [])"
| "raw_of (Struct ss) w = (case w of WFields vs \<Rightarrow> raw_all ss vs | _ \<Rightarrow> [])"
| "raw_of (Tagged ts ss) w = (case w of WTag t v \<Rightarrow> t # raw_variant ts ss t v | _ \<Rightarrow> [])"
| "raw_all [] vs = []"
| "raw_all (s # ss) vs = (case vs of v # vs' \<Rightarrow> raw_of s v @ raw_all ss vs' | [] \<Rightarrow> [])"
| "raw_each s [] = []"
| "raw_each s (v # vs) = raw_of s v @ raw_each s vs"
| "raw_variant ts [] t v = []"
| "raw_variant ts (s # ss) t v =
     (case ts of t' # ts' \<Rightarrow> if t = t' then raw_of s v else raw_variant ts' ss t v | [] \<Rightarrow> [])"

definition concat_write :: "schema \<Rightarrow> wire \<Rightarrow> bytes option" where
  "concat_write s v = (if fits s v then Some (raw_of s v) else None)"

text \<open>The bytes after a length prefix, and the rest.\<close>

definition split_dynamic :: "nat option \<Rightarrow> bytes \<Rightarrow> (bytes \<times> bytes) option" where
  "split_dynamic m bs =
     (let n = unat (from_be (take 4 bs) :: u32); body = drop 4 bs in
      if 4 \<le> length bs \<and> within m n \<and> n \<le> length body then Some (take n body, drop n body) else None)"

function split_read :: "schema \<Rightarrow> bytes \<Rightarrow> (bytes \<times> wire) option"
  and read_all :: "schema list \<Rightarrow> bytes \<Rightarrow> (bytes \<times> wire list) option"
  and read_each :: "schema \<Rightarrow> nat \<Rightarrow> bytes \<Rightarrow> wire list option"
  and read_variant :: "u8 list \<Rightarrow> schema list \<Rightarrow> u8 \<Rightarrow> bytes \<Rightarrow> (bytes \<times> wire) option" where
  "split_read (Sized n) bs = (if n \<le> length bs then Some (drop n bs, WBytes (take n bs)) else None)"
| "split_read (Dynamic m) bs = map_option (\<lambda>(b, rest). (rest, WBytes b)) (split_dynamic (Some m) bs)"
| "split_read (DynList m s) bs =
     (case split_dynamic m bs of None \<Rightarrow> None
      | Some (b, rest) \<Rightarrow> map_option (\<lambda>vs. (rest, WList vs)) (read_each s (length b) b))"
| "split_read (Text m) bs =
     (case split_dynamic (Some m) bs of None \<Rightarrow> None
      | Some (b, rest) \<Rightarrow> if utf8_valid b then Some (rest, WText (bytes_str b)) else None)"
| "split_read Byte bs = (case bs of [] \<Rightarrow> None | b # rest \<Rightarrow> Some (rest, WByte b))"
| "split_read (Optional s) bs =
     (case bs of [] \<Rightarrow> None
      | b # rest \<Rightarrow> if b = 0 then Some (rest, WNone)
          else if b = 0xFF then map_option (\<lambda>(r, v). (r, WSome v)) (split_read s rest) else None)"
| "split_read (Struct ss) bs = map_option (\<lambda>(rest, vs). (rest, WFields vs)) (read_all ss bs)"
| "split_read (Tagged ts ss) bs =
     (case bs of [] \<Rightarrow> None
      | t # rest \<Rightarrow> map_option (\<lambda>(r, v). (r, WTag t v)) (read_variant ts ss t rest))"
| "read_all [] bs = Some (bs, [])"
| "read_all (s # ss) bs =
     (case split_read s bs of None \<Rightarrow> None
      | Some (rest, v) \<Rightarrow> map_option (\<lambda>(rest', vs). (rest', v # vs)) (read_all ss rest))"
| "read_each s 0 bs = (if bs = [] then Some [] else None)"
| "read_each s (Suc k) bs =
     (if bs = [] then Some []
      else case split_read s bs of None \<Rightarrow> None
           | Some (rest, v) \<Rightarrow>
               if length rest < length bs then map_option ((#) v) (read_each s k rest) else None)"
| "read_variant (t' # ts) (s # ss) t bs = (if t = t' then split_read s bs else read_variant ts ss t bs)"
| "read_variant [] ss t bs = None"
| "read_variant (t' # ts) [] t bs = None"
  by pat_completeness auto
termination
  by (relation "measures [\<lambda>x. case x of Inl (Inl (s, _)) \<Rightarrow> 2 * size s | Inl (Inr (ss, _)) \<Rightarrow> 2 * size_list size ss + 1
                   | Inr (Inl (s, _, _)) \<Rightarrow> 2 * size s + 1 | Inr (Inr (_, ss, _, _)) \<Rightarrow> 2 * size_list size ss + 1,
                 \<lambda>x. case x of Inr (Inl (_, k, _)) \<Rightarrow> k | _ \<Rightarrow> 0]") auto

lemma split_dynamic_append:
  "within m (length b) \<Longrightarrow> split_dynamic m (to_be 4 (word_of_nat (length b) :: u32) @ b @ rest) = Some (b, rest)"
  by (simp add: split_dynamic_def Let_def from_be_to_be unat_of_nat_small within_def)

lemma split_dynamic_Some:
  assumes "split_dynamic m bs = Some (b, rest)"
  shows "within m (length b) \<and> bs = to_be 4 (word_of_nat (length b) :: u32) @ b @ rest"
proof -
  let ?n = "from_be (take 4 bs) :: u32"
  have l: "4 \<le> length bs" "within m (unat ?n)" "unat ?n \<le> length (drop 4 bs)"
    "b = take (unat ?n) (drop 4 bs)" "rest = drop (unat ?n) (drop 4 bs)"
    using assms by (auto simp: split_dynamic_def Let_def split: if_splits)
  then have len: "length b = unat ?n" by simp
  have "to_be 4 ?n = take 4 bs"
    using l(1) to_le_from_le_n [where 'a = 32, of "rev (take 4 bs)" 4] by (simp add: to_be_def from_be_def)
  moreover have "b @ rest = drop 4 bs" unfolding l(4,5) by (rule append_take_drop_id)
  ultimately show ?thesis using l(2) len by simp
qed

lemma length_raw:
  "fits s v \<Longrightarrow> length (raw_of s v) = wire_size s v"
  "fits_all ss vs \<Longrightarrow> length (raw_all ss vs) = fields_size ss vs"
  "fits_each s ws \<Longrightarrow> length (raw_each s ws) = items_size s ws"
  "fits_variant ts ss t v \<Longrightarrow> length (raw_variant ts ss t v) = variant_size ts ss t v"
  by (induction s v and ss vs and s ws and ts ss t v rule: fits_fits_all_fits_each_fits_variant.induct)
     (auto split: wire.splits list.splits if_splits)

lemma read_each_step:
  assumes "0 < length b" "split_read s (b @ r) = Some (r, v)" "length b + length r \<le> k"
    and "\<And>k. length r \<le> k \<Longrightarrow> read_each s k r = Some vs"
  shows "read_each s k (b @ r) = Some (v # vs)"
proof -
  obtain k' where "k = Suc k'" using assms(1,3) by (cases k) auto
  moreover from this have "length r \<le> k'" using assms(1,3) by (cases b) auto
  ultimately show ?thesis using assms(1,2,4) by simp
qed

lemma read_each_Nil [simp]: "read_each s k [] = Some []"
  by (cases k) simp_all

lemma raw_nonempty: "fits s v \<Longrightarrow> 0 < wire_size s v \<Longrightarrow> raw_of s v \<noteq> []"
  using length_raw(1) [of s v] by auto

lemma raw_read:
  "fits s v \<Longrightarrow> split_read s (raw_of s v @ rest) = Some (rest, v)"
  "fits_all ss vs \<Longrightarrow> read_all ss (raw_all ss vs @ rest) = Some (rest, vs)"
  "fits_each s ws \<Longrightarrow> length (raw_each s ws) \<le> k \<Longrightarrow> read_each s k (raw_each s ws) = Some ws"
  "fits_variant ts ss t v \<Longrightarrow> read_variant ts ss t (raw_variant ts ss t v @ rest) = Some (rest, v)"
proof (induction s v and ss vs and s ws and ts ss t v arbitrary: rest and rest and k and rest
    rule: fits_fits_all_fits_each_fits_variant.induct)
  case (2 m w)
  then show ?case by (auto simp: split_dynamic_append split: wire.splits)
next
  case (3 m s w)
  then obtain vs where w: "w = WList vs" "fits_each s vs" "within m (items_size s vs)" by (auto split: wire.splits)
  then have "length (raw_each s vs) = items_size s vs" by (simp add: length_raw)
  then show ?case using 3 w split_dynamic_append [of m "raw_each s vs" rest] by simp
next
  case (4 m w)
  then obtain t where w: "w = WText t" "within (Some m) (length t)" "utf8_valid (as_bytes t)" by (auto split: wire.splits)
  then show ?case using split_dynamic_append [of "Some m" "as_bytes t" rest] by simp
qed (auto simp: length_raw raw_nonempty split: wire.splits list.splits if_splits intro!: read_each_step)

lemma split_read_raw:
  "split_read s bs = Some (rest, v) \<Longrightarrow> fits s v \<and> bs = raw_of s v @ rest"
  "read_all ss bs = Some (rest, vs) \<Longrightarrow> fits_all ss vs \<and> bs = raw_all ss vs @ rest"
  "read_each s k bs = Some ws \<Longrightarrow> fits_each s ws \<and> bs = raw_each s ws"
  "read_variant ts ss t bs = Some (rest, v) \<Longrightarrow> fits_variant ts ss t v \<and> bs = raw_variant ts ss t v @ rest"
proof (induction s bs and ss bs and s k bs and ts ss t bs arbitrary: rest v and rest vs and ws and rest v
    rule: split_read_read_all_read_each_read_variant.induct)
  case (2 m bs)
  then show ?case by (auto dest: split_dynamic_Some)
next
  case (3 m s bs)
  then obtain b vs where b: "split_dynamic m bs = Some (b, rest)" "read_each s (length b) b = Some vs" "v = WList vs"
    by (auto split: option.splits)
  with 3(1) have "fits_each s vs \<and> b = raw_each s vs" by auto
  with b split_dynamic_Some [OF b(1)] show ?case by (auto simp: length_raw)
next
  case (4 m bs)
  then show ?case
    by (auto split: option.splits if_splits dest!: split_dynamic_Some simp: length_bytes_str)
next
  case (12 s k bs)
  show ?case
  proof (cases "bs = []")
    case False
    with 12(3) obtain r w ws' where r: "split_read s bs = Some (r, w)" "length r < length bs"
      "read_each s k r = Some ws'" "ws = w # ws'"
      by (auto split: option.splits if_splits)
    with 12(1,2) False have "fits s w \<and> bs = raw_of s w @ r" "fits_each s ws' \<and> r = raw_each s ws'" by auto
    then show ?thesis using r length_raw(1) [of s w] by auto
  qed (use 12 in auto)
qed (auto split: option.splits if_splits list.splits)


section \<open>Shapes\<close>

lemma fits_Sized: "fits (Sized n) w \<longleftrightarrow> (\<exists>b. w = WBytes b \<and> length b = n)"
  by (cases w) simp_all

lemma fits_Dynamic: "fits (Dynamic m) w \<longleftrightarrow> (\<exists>b. w = WBytes b \<and> within (Some m) (length b))"
  by (cases w) simp_all

lemma fits_DynList: "fits (DynList k s) w \<longleftrightarrow> (\<exists>vs. w = WList vs \<and> fits_each s vs \<and> within k (items_size s vs))"
  by (cases w) simp_all

lemma fits_Text: "fits (Text m) w \<longleftrightarrow> (\<exists>t. w = WText t \<and> within (Some m) (length t) \<and> utf8_valid (as_bytes t))"
  by (cases w) simp_all

lemma fits_Byte: "fits Byte w \<longleftrightarrow> (\<exists>b. w = WByte b)"
  by (cases w) simp_all

lemma fits_Optional: "fits (Optional s) w \<longleftrightarrow> w = WNone \<or> (\<exists>v. w = WSome v \<and> fits s v)"
  by (cases w) simp_all

lemma fits_Struct: "fits (Struct ss) w \<longleftrightarrow> (\<exists>vs. w = WFields vs \<and> fits_all ss vs)"
  by (cases w) simp_all

lemma fits_Tagged: "fits (Tagged ts ss) w \<longleftrightarrow> (\<exists>t v. w = WTag t v \<and> fits_variant ts ss t v)"
  by (cases w) simp_all

lemma fits_all_Cons: "fits_all (s # ss) vs \<longleftrightarrow> (\<exists>v vs'. vs = v # vs' \<and> fits s v \<and> fits_all ss vs')"
  by (cases vs) simp_all

lemmas fits_simps = fits_Sized fits_Dynamic fits_DynList fits_Text fits_Byte fits_Optional fits_Struct
  fits_Tagged fits_all_Cons

declare fits.simps [simp del] fits_all.simps(2) [simp del]

lemma fits_here [simp]:
  "fits (Sized n) (WBytes b) \<longleftrightarrow> length b = n"
  "fits (Dynamic m) (WBytes b) \<longleftrightarrow> within (Some m) (length b)"
  "fits (DynList k s) (WList vs) \<longleftrightarrow> fits_each s vs \<and> within k (items_size s vs)"
  "fits (Text m) (WText t) \<longleftrightarrow> within (Some m) (length t) \<and> utf8_valid (as_bytes t)"
  "fits Byte (WByte u)"
  "fits (Optional s) WNone" "fits (Optional s) (WSome v) \<longleftrightarrow> fits s v"
  "fits (Struct ss) (WFields vs) \<longleftrightarrow> fits_all ss vs"
  "fits (Tagged ts ss) (WTag g v) \<longleftrightarrow> fits_variant ts ss g v"
  "fits_all (s # ss) (v # vs) \<longleftrightarrow> fits s v \<and> fits_all ss vs" "\<not> fits_all (s # ss) []"
  by (simp_all add: fits_simps)

end
