(* ===== verification/External.thy ===== *)
theory External
  imports Codec
begin

text \<open>
  The code outside the repository that the core calls, as parameters: BLAKE2s
  (\<open>blake2s_simd\<close>), hexadecimal text (\<open>hex\<close>), Tezos addresses
  (\<open>tezos_smart_rollup_encoding\<close>), ChaCha20-Poly1305 and ML-KEM-768, the binary codec that
  \<open>tezos_data_encoding\<close> derives for the structures described by the layouts of \<open>Codec\<close>, and
  the width of \<open>usize\<close> on the compilation target. The documented behaviour the theorems rely on is
  stated as predicates on the parameters; an executable instance shows that they can hold.
\<close>

section \<open>Parameters\<close>

text \<open>A Tezos contract address, as far as the sources look inside one.\<close>

datatype tezos_contract = Implicit bytes | Originated bytes

record ext =
  blake2s_digest :: "bytes option \<Rightarrow> bytes \<Rightarrow> bytes"
  hex_encode :: "bytes \<Rightarrow> string"
  hex_decode :: "string \<Rightarrow> bytes option"
  contract_from_b58check :: "string \<Rightarrow> tezos_contract option"
  aead_encrypt :: "bytes \<Rightarrow> bytes \<Rightarrow> bytes \<Rightarrow> bytes option"
  aead_decrypt :: "bytes \<Rightarrow> bytes \<Rightarrow> bytes \<Rightarrow> bytes option"
  kem_keygen :: "bytes \<Rightarrow> bytes \<times> bytes"
  kem_encapsulate :: "bytes \<Rightarrow> bytes \<Rightarrow> bytes \<times> bytes"
  kem_decapsulate :: "bytes \<Rightarrow> bytes \<Rightarrow> bytes option"
  tze_write :: "schema \<Rightarrow> wire \<Rightarrow> bytes option"
  tze_read :: "schema \<Rightarrow> bytes \<Rightarrow> (bytes \<times> wire) option"
  usize_bits :: nat

text \<open>BLAKE2s with \<open>hash_length(32)\<close> returns 32 bytes.\<close>

definition blake_laws :: "'x ext_scheme \<Rightarrow> bool" where
  "blake_laws X \<longleftrightarrow> (\<forall>p d. length (blake2s_digest X p d) = 32)"

text \<open>\<open>hex::encode\<close> writes two digits per byte and \<open>hex::decode\<close> reads them back.\<close>

definition hex_laws :: "'x ext_scheme \<Rightarrow> bool" where
  "hex_laws X \<longleftrightarrow>
     (\<forall>bs. hex_decode X (hex_encode X bs) = Some bs \<and> length (hex_encode X bs) = 2 * length bs)"

text \<open>
  Authenticated encryption with a 32-byte key and a 12-byte nonce: encryption succeeds, adds
  a 16-byte tag, and decryption under the same key and nonce gives the plaintext back.
\<close>

definition aead_laws :: "'x ext_scheme \<Rightarrow> bool" where
  "aead_laws X \<longleftrightarrow>
     (\<forall>k n p. length k = 32 \<longrightarrow> length n = 12 \<longrightarrow>
        (\<exists>c. aead_encrypt X k n p = Some c \<and> length c = length p + 16
             \<and> aead_decrypt X k n c = Some p))"

text \<open>
  Encapsulation under the key pair of a seed produces a 1088-byte ciphertext that
  decapsulates to the shared secret.
\<close>

definition kem_laws :: "'x ext_scheme \<Rightarrow> bool" where
  "kem_laws X \<longleftrightarrow>
     (\<forall>seed m ek dk ct ss. kem_keygen X seed = (ek, dk) \<longrightarrow> kem_encapsulate X ek m = (ct, ss) \<longrightarrow>
        length ct = 1088 \<and> kem_decapsulate X dk ct = Some ss)"

text \<open>
  A structure within its declared bounds is written, and is read back from any input that
  starts with these bytes; one that exceeds a bound is not written; what is read is within its
  bounds and is what the consumed bytes are the writing of.
\<close>

definition tze_laws :: "'x ext_scheme \<Rightarrow> bool" where
  "tze_laws X \<longleftrightarrow>
     (\<forall>s v. fits s v \<longrightarrow>
        (\<exists>b. tze_write X s v = Some b \<and> length b = wire_size s v
             \<and> (\<forall>rest. tze_read X s (b @ rest) = Some (rest, v))))
     \<and> (\<forall>s v. \<not> fits s v \<longrightarrow> tze_write X s v = None)
     \<and> (\<forall>s bs rest v. tze_read X s bs = Some (rest, v) \<longrightarrow>
          fits s v \<and> (\<exists>b. tze_write X s v = Some b \<and> bs = b @ rest))"

lemma blake_lawsD [simp, byte_simps]: "blake_laws X \<Longrightarrow> length (blake2s_digest X p d) = 32"
  by (simp add: blake_laws_def)

lemma hex_decode_encode [simp]: "hex_laws X \<Longrightarrow> hex_decode X (hex_encode X bs) = Some bs"
  by (simp add: hex_laws_def)

lemma length_hex_encode [simp, byte_simps]:
  "hex_laws X \<Longrightarrow> length (hex_encode X bs) = 2 * length bs"
  by (simp add: hex_laws_def)

lemma hex_encode_inject [simp]: "hex_laws X \<Longrightarrow> hex_encode X a = hex_encode X b \<longleftrightarrow> a = b"
  by (metis hex_decode_encode option.inject)

section \<open>An executable instance\<close>

text \<open>
  \<open>sample_ext\<close> instantiates the parameters with simple executable functions that have the
  documented behaviour: a mixing function of 32-byte chunks for BLAKE2s, lower-case
  hexadecimal text, addresses that start with \<open>KT1\<close> or \<open>tz\<close>, a tag of zeros for the
  cipher, a message-recovery encapsulation, a 64-bit target, and the codec \<open>concat_write\<close>.
\<close>

function mix_chunks :: "bytes \<Rightarrow> bytes \<Rightarrow> bytes" where
  "mix_chunks acc d =
     (if d = [] then acc
      else mix_chunks (map2 (\<lambda>x y. 3 * x + y) acc (take 32 (d @ replicate 32 0))) (drop 32 d))"
  by pat_completeness auto
termination
  by (relation "measure (\<lambda>(acc, d). length d)") auto

declare mix_chunks.simps [simp del]

fun hex_of_byte :: "u8 \<Rightarrow> string" where
  "hex_of_byte b = [digit_char (unat b div 16), digit_char (unat b mod 16)]"

definition hex_val :: "char \<Rightarrow> nat option" where
  "hex_val c = (if c \<in> set ''0123456789abcdef'' then Some (char_digit c) else None)"

fun unhex :: "string \<Rightarrow> bytes option" where
  "unhex [] = Some []"
| "unhex [c] = None"
| "unhex (c # d # s) =
     (case (hex_val c, hex_val d, unhex s) of
        (Some x, Some y, Some bs) \<Rightarrow> Some (word_of_nat (16 * x + y) # bs)
      | _ \<Rightarrow> None)"

definition sample_ext :: ext where
  "sample_ext = \<lparr>
     blake2s_digest = (\<lambda>p d. mix_chunks (replicate 32 (case p of None \<Rightarrow> 1 | Some q \<Rightarrow> sum_list q)) d),
     hex_encode = (\<lambda>bs. concat (map hex_of_byte bs)),
     hex_decode = unhex,
     contract_from_b58check = (\<lambda>s. if take 3 s = ''KT1'' then Some (Originated (as_bytes s))
                                   else if take 2 s = ''tz'' then Some (Implicit (as_bytes s)) else None),
     aead_encrypt = (\<lambda>k n p. Some (p @ replicate 16 0)),
     aead_decrypt = (\<lambda>k n c. if 16 \<le> length c \<and> drop (length c - 16) c = replicate 16 0
                             then Some (take (length c - 16) c) else None),
     kem_keygen = (\<lambda>seed. (seed, seed)),
     kem_encapsulate = (\<lambda>ek m. (take 1088 (m @ replicate 1088 0), take 32 (m @ replicate 32 0))),
     kem_decapsulate = (\<lambda>dk ct. Some (take 32 (ct @ replicate 32 0))),
     tze_write = concat_write,
     tze_read = split_read,
     usize_bits = 64\<rparr>"

lemma length_mix_chunks: "length acc = 32 \<Longrightarrow> length (mix_chunks acc d) = 32"
proof (induction acc d rule: mix_chunks.induct)
  case (1 acc d)
  then show ?case by (subst mix_chunks.simps) simp
qed

lemma hex_val_digit: "x < 16 \<Longrightarrow> hex_val (digit_char x) = Some x"
proof -
  have "\<forall>x \<in> set [0..<16]. hex_val (digit_char x) = Some x" by code_simp
  then show "x < 16 \<Longrightarrow> hex_val (digit_char x) = Some x" by simp
qed

lemma unhex_hex: "unhex (concat (map hex_of_byte bs)) = Some bs"
proof (induction bs)
  case Nil
  show ?case by simp
next
  case (Cons b bs)
  have "unat b < 256" using unsigned_less [of b] by simp
  moreover have "unat b div 16 < 16" using \<open>unat b < 256\<close> by simp
  ultimately show ?case using Cons by (simp add: hex_val_digit)
qed

lemma sample_blake_laws: "blake_laws sample_ext"
  by (simp add: blake_laws_def sample_ext_def length_mix_chunks)

lemma sample_hex_laws: "hex_laws sample_ext"
proof -
  have "length (concat (map hex_of_byte bs)) = 2 * length bs" for bs
    by (induction bs) simp_all
  then show ?thesis by (simp add: hex_laws_def sample_ext_def unhex_hex)
qed

lemma sample_aead_laws: "aead_laws sample_ext"
  by (simp add: aead_laws_def sample_ext_def)

lemma sample_kem_laws: "kem_laws sample_ext"
proof -
  have "take 32 (take 1088 (m @ replicate 1088 0) @ replicate 32 0) = take 32 (m @ replicate 32 (0::u8))" for m
    by (cases "length m \<le> 32") (auto simp: min_def)
  moreover have "length (take 1088 (m @ replicate 1088 (0::u8))) = 1088" for m
    by (simp add: min_def)
  ultimately show ?thesis by (simp add: kem_laws_def sample_ext_def del: take_append length_take)
qed

lemma sample_tze_laws: "tze_laws sample_ext"
  unfolding tze_laws_def sample_ext_def ext.select_convs
  using raw_read(1) split_read_raw(1) length_raw(1) by (auto simp: concat_write_def)

lemmas sample_laws = sample_blake_laws sample_hex_laws sample_aead_laws sample_kem_laws sample_tze_laws

end
