(* ===== verification/Hashing.thy ===== *)
theory Hashing
  imports External
begin

text \<open>
  Field elements, the personalised BLAKE2s wrappers and everything derived from them in
  \<open>core/src/lib.rs\<close>: commitments, nullifiers, sighashes, deposit pool keys, the key
  hierarchy. The lemmas show that every derived value is a 251-bit field element, that the
  textual keys are canonical, and that sighashes bind all of their fields as long as the
  hash does not collide on the inputs that were actually hashed.
\<close>

section \<open>Constants and field elements\<close>

type_synonym felt = bytes

definition ZERO :: felt where
  "ZERO = replicate 32 0"

definition DETECT_K :: nat where "DETECT_K = 10"
definition ML_KEM768_CIPHERTEXT_BYTES :: nat where "ML_KEM768_CIPHERTEXT_BYTES = 1088"
definition NOTE_AEAD_NONCE_BYTES :: nat where "NOTE_AEAD_NONCE_BYTES = 12"
definition MEMO_SIZE :: nat where "MEMO_SIZE = 1024"
definition ENCRYPTED_NOTE_BYTES :: nat where "ENCRYPTED_NOTE_BYTES = 8 + 32 + MEMO_SIZE + 16"
definition OUTGOING_RECOVERY_PLAINTEXT_BYTES :: nat where
  "OUTGOING_RECOVERY_PLAINTEXT_BYTES = 1 + 8 + (5 * 32)"
definition OUTGOING_RECOVERY_CT_BYTES :: nat where
  "OUTGOING_RECOVERY_CT_BYTES = OUTGOING_RECOVERY_PLAINTEXT_BYTES + 16"
definition MAX_VALID_ROOTS :: nat where "MAX_VALID_ROOTS = 4096"
definition MIN_TX_FEE :: u64 where "MIN_TX_FEE = 100000"
definition BASE_PRIVATE_TXS_PER_LEVEL :: u64 where "BASE_PRIVATE_TXS_PER_LEVEL = 2"
definition MAX_DYNAMIC_FEE_STEP :: u32 where "MAX_DYNAMIC_FEE_STEP = 6"
definition DEPTH :: nat where "DEPTH = 48"

definition is_felt :: "bytes \<Rightarrow> bool" where
  "is_felt f \<longleftrightarrow> length f = 32"

text \<open>A value below \<open>2^251\<close> in little-endian order.\<close>

definition is_felt251 :: "bytes \<Rightarrow> bool" where
  "is_felt251 f \<longleftrightarrow> length f = 32 \<and> f ! 31 \<le> 7"

lemma length_ZERO [simp]: "length ZERO = 32"
  by (simp add: ZERO_def)

lemma is_felt_ZERO [simp]: "is_felt ZERO"
  by (simp add: is_felt_def)

lemma is_felt251_felt: "is_felt251 f \<Longrightarrow> is_felt f"
  by (simp add: is_felt251_def is_felt_def)

section \<open>BLAKE2s wrappers\<close>

text \<open>\<open>out[31] &= 0x07\<close>\<close>

definition trunc251 :: "bytes \<Rightarrow> felt" where
  "trunc251 d = d[31 := d ! 31 AND 7]"

definition random_felt :: "bytes \<Rightarrow> felt" where
  "random_felt rng = trunc251 rng"

definition blake2s :: "'x ext_scheme \<Rightarrow> string \<Rightarrow> bytes \<Rightarrow> felt" where
  "blake2s X personal d = trunc251 (blake2s_digest X (Some (as_bytes personal)) d)"

definition blake2s_generic :: "'x ext_scheme \<Rightarrow> bytes \<Rightarrow> felt" where
  "blake2s_generic X d = trunc251 (blake2s_digest X None d)"

definition hash :: "'x ext_scheme \<Rightarrow> bytes \<Rightarrow> felt" where
  "hash X d = blake2s_generic X d"

text \<open>Feeding the parts one by one hashes their concatenation.\<close>

definition blake2s_parts :: "'x ext_scheme \<Rightarrow> felt list \<Rightarrow> felt" where
  "blake2s_parts X parts = trunc251 (blake2s_digest X None (concat parts))"

definition blake2s_parts_personalized :: "'x ext_scheme \<Rightarrow> string \<Rightarrow> felt list \<Rightarrow> felt" where
  "blake2s_parts_personalized X personal parts =
     trunc251 (blake2s_digest X (Some (as_bytes personal)) (concat parts))"

definition hash_two :: "'x ext_scheme \<Rightarrow> felt \<Rightarrow> felt \<Rightarrow> felt" where
  "hash_two X a b = hash X (a @ b)"

definition hash_merkle :: "'x ext_scheme \<Rightarrow> felt \<Rightarrow> felt \<Rightarrow> felt" where
  "hash_merkle X a b = blake2s X ''mrklSP__'' (a @ b)"

definition hash_commit_raw :: "'x ext_scheme \<Rightarrow> bytes \<Rightarrow> felt" where
  "hash_commit_raw X d = blake2s X ''cmmtSP__'' d"

definition derive_rcm :: "'x ext_scheme \<Rightarrow> felt \<Rightarrow> felt" where
  "derive_rcm X rseed = hash_two X (hash X (ZERO[0 := 0x6D, 1 := 0x63, 2 := 0x72])) rseed"

section \<open>Integers as field elements\<close>

definition u64_to_felt :: "u64 \<Rightarrow> felt" where
  "u64_to_felt v = to_le 8 v @ replicate 24 0"

definition felt_to_u64 :: "felt \<Rightarrow> u64 res" where
  "felt_to_u64 f =
     (if \<exists>b \<in> set (drop 8 f). b \<noteq> 0 then Inl (Err ''felt does not fit in u64'')
      else Inr (from_le (take 8 f)))"

definition felt_to_usize :: "'x ext_scheme \<Rightarrow> felt \<Rightarrow> nat res" where
  "felt_to_usize X f =
     attempt (felt_to_u64 f) (\<lambda>v.
       if unat v < 2 ^ usize_bits X then Inr (unat v)
       else Inl (Err ''felt does not fit in usize''))"

definition felt_from_u32 :: "u32 \<Rightarrow> felt" where
  "felt_from_u32 v = to_le 4 v @ replicate 28 0"

definition felt_tag :: "bytes \<Rightarrow> felt" where
  "felt_tag s =
     (let val = foldl (\<lambda>val b. push_bit 8 val OR ucast b) (0 :: 128 word) s
      in to_le 16 val @ replicate 16 0)"

section \<open>Notes and sighashes\<close>

definition derive_nk_spend :: "'x ext_scheme \<Rightarrow> felt \<Rightarrow> felt \<Rightarrow> felt" where
  "derive_nk_spend X nk d_j = blake2s X ''nkspSP__'' (nk @ d_j)"

definition derive_nk_tag :: "'x ext_scheme \<Rightarrow> felt \<Rightarrow> felt" where
  "derive_nk_tag X nk_spend = blake2s X ''nktgSP__'' nk_spend"

definition owner_tag :: "'x ext_scheme \<Rightarrow> felt \<Rightarrow> felt \<Rightarrow> felt \<Rightarrow> felt" where
  "owner_tag X auth_root auth_pub_seed nk_tag =
     blake2s_parts_personalized X ''ownrSP__'' [auth_root, auth_pub_seed, nk_tag]"

definition commit :: "'x ext_scheme \<Rightarrow> felt \<Rightarrow> u64 \<Rightarrow> felt \<Rightarrow> felt \<Rightarrow> felt" where
  "commit X d_j v rcm otag = hash_commit_raw X (d_j @ to_le 8 v @ replicate 24 0 @ rcm @ otag)"

definition nullifier :: "'x ext_scheme \<Rightarrow> felt \<Rightarrow> felt \<Rightarrow> u64 \<Rightarrow> felt" where
  "nullifier X nk_spend cm pos =
     (let cm_pos = blake2s X ''nulfSP__'' (cm @ to_le 8 pos @ replicate 24 0)
      in blake2s X ''nulfSP__'' (nk_spend @ cm_pos))"

definition sighash_fold :: "'x ext_scheme \<Rightarrow> felt \<Rightarrow> felt \<Rightarrow> felt" where
  "sighash_fold X a b = blake2s X ''sighSP__'' (a @ b)"

definition default_auth_domain :: "'x ext_scheme \<Rightarrow> felt" where
  "default_auth_domain X = hash X (as_bytes ''tzel-auth-domain-local-dev-v1'')"

definition type_tag :: "u8 \<Rightarrow> felt" where
  "type_tag t = ZERO[0 := t]"

definition deposit_pubkey_hash :: "'x ext_scheme \<Rightarrow> felt \<Rightarrow> felt \<Rightarrow> felt \<Rightarrow> felt \<Rightarrow> felt" where
  "deposit_pubkey_hash X auth_domain auth_root auth_pub_seed blind =
     (let h = sighash_fold X (type_tag 0x04) auth_domain;
          h = sighash_fold X h auth_root;
          h = sighash_fold X h auth_pub_seed;
          h = sighash_fold X h blind
      in h)"

definition shield_sighash ::
  "'x ext_scheme \<Rightarrow> felt \<Rightarrow> felt \<Rightarrow> u64 \<Rightarrow> u64 \<Rightarrow> u64 \<Rightarrow> felt \<Rightarrow> felt \<Rightarrow> felt \<Rightarrow> felt \<Rightarrow> felt" where
  "shield_sighash X auth_domain pubkey_hash v fee producer_fee cm_recipient cm_producer
       memo_ct_hash_recipient memo_ct_hash_producer =
     (let h = sighash_fold X (type_tag 0x03) auth_domain;
          h = sighash_fold X h pubkey_hash;
          h = sighash_fold X h (u64_to_felt v);
          h = sighash_fold X h (u64_to_felt fee);
          h = sighash_fold X h (u64_to_felt producer_fee);
          h = sighash_fold X h cm_recipient;
          h = sighash_fold X h cm_producer;
          h = sighash_fold X h memo_ct_hash_recipient;
          h = sighash_fold X h memo_ct_hash_producer
      in h)"

definition transfer_sighash ::
  "'x ext_scheme \<Rightarrow> felt \<Rightarrow> felt \<Rightarrow> felt list \<Rightarrow> u64 \<Rightarrow> felt \<Rightarrow> felt \<Rightarrow> felt \<Rightarrow> felt \<Rightarrow> felt \<Rightarrow> felt
   \<Rightarrow> felt" where
  "transfer_sighash X auth_domain root nullifiers fee cm_1 cm_2 cm_3 mh_1 mh_2 mh_3 =
     (let sh = sighash_fold X (type_tag 0x01) auth_domain;
          sh = sighash_fold X sh root;
          sh = foldl (sighash_fold X) sh nullifiers;
          sh = sighash_fold X sh (u64_to_felt fee);
          sh = sighash_fold X sh cm_1;
          sh = sighash_fold X sh cm_2;
          sh = sighash_fold X sh cm_3;
          sh = sighash_fold X sh mh_1;
          sh = sighash_fold X sh mh_2;
          sh = sighash_fold X sh mh_3
      in sh)"

definition unshield_sighash ::
  "'x ext_scheme \<Rightarrow> felt \<Rightarrow> felt \<Rightarrow> felt list \<Rightarrow> u64 \<Rightarrow> u64 \<Rightarrow> felt \<Rightarrow> felt \<Rightarrow> felt \<Rightarrow> felt \<Rightarrow> felt
   \<Rightarrow> felt" where
  "unshield_sighash X auth_domain root nullifiers v_pub fee recipient cm_change mh_change
       cm_fee mh_fee =
     (let sh = sighash_fold X (type_tag 0x02) auth_domain;
          sh = sighash_fold X sh root;
          sh = foldl (sighash_fold X) sh nullifiers;
          sh = sighash_fold X sh (u64_to_felt v_pub);
          sh = sighash_fold X sh (u64_to_felt fee);
          sh = sighash_fold X sh recipient;
          sh = sighash_fold X sh cm_change;
          sh = sighash_fold X sh mh_change;
          sh = sighash_fold X sh cm_fee;
          sh = sighash_fold X sh mh_fee
      in sh)"

section \<open>Textual keys\<close>

definition DEPOSIT_RECIPIENT_PREFIX :: string where
  "DEPOSIT_RECIPIENT_PREFIX = ''deposit:''"

definition PUBLIC_BALANCE_KEY_PREFIX :: string where
  "PUBLIC_BALANCE_KEY_PREFIX = ''public:''"

definition deposit_recipient_string :: "'x ext_scheme \<Rightarrow> felt \<Rightarrow> string" where
  "deposit_recipient_string X pubkey_hash = DEPOSIT_RECIPIENT_PREFIX @ hex_encode X pubkey_hash"

definition parse_deposit_recipient_pubkey_hash :: "'x ext_scheme \<Rightarrow> string \<Rightarrow> felt res" where
  "parse_deposit_recipient_pubkey_hash X s =
     attempt (ok_or (strip_prefix DEPOSIT_RECIPIENT_PREFIX s)
                (''deposit recipient must start with '' @ [CHR 0x27] @ ''deposit:'' @ [CHR 0x27])) (\<lambda>hex_id.
     attempt (guard (length hex_id = 64) ''deposit recipient must be deposit:<32-byte hex>'') (\<lambda>_.
     attempt (ok_or (hex_decode X hex_id) ''deposit recipient hex is invalid'') (\<lambda>bs.
     attempt (guard (\<not> (length bs \<noteq> 32 \<or> hex_encode X bs \<noteq> hex_id))
                ''deposit recipient hex must be canonical lowercase'') (\<lambda>_.
     Inr bs))))"

definition is_deposit_recipient_string :: "'x ext_scheme \<Rightarrow> string \<Rightarrow> bool" where
  "is_deposit_recipient_string X s \<longleftrightarrow>
     (case parse_deposit_recipient_pubkey_hash X s of Inl e \<Rightarrow> False | Inr f \<Rightarrow> True)"

definition public_balance_key :: "string \<Rightarrow> string \<Rightarrow> string res" where
  "public_balance_key owner label =
     attempt (guard (owner \<noteq> []) ''public balance owner must not be empty'') (\<lambda>_.
     attempt (guard (label \<noteq> []) ''public balance label must not be empty'') (\<lambda>_.
     Inr (PUBLIC_BALANCE_KEY_PREFIX @ owner @ '':'' @ label)))"

definition parse_public_balance_key :: "string \<Rightarrow> (string \<times> string) option" where
  "parse_public_balance_key s =
     (case strip_prefix PUBLIC_BALANCE_KEY_PREFIX s of None \<Rightarrow> None
      | Some rest \<Rightarrow>
        (case split_once (CHR '':'') rest of None \<Rightarrow> None
         | Some (owner, label) \<Rightarrow>
             if owner = [] \<or> label = [] then None else Some (owner, label)))"

definition validate_l1_withdrawal_recipient :: "'x ext_scheme \<Rightarrow> string \<Rightarrow> string res" where
  "validate_l1_withdrawal_recipient X s =
     (let s' = trim s in
      attempt (guard (s' \<noteq> []) ''L1 withdrawal recipient must not be empty'') (\<lambda>_.
      case contract_from_b58check X s' of
        None \<Rightarrow> Inl (Err (''invalid L1 withdrawal recipient: '' @ s'))
      | Some _ \<Rightarrow> Inr s'))"

definition short :: "'x ext_scheme \<Rightarrow> felt \<Rightarrow> string" where
  "short X f = hex_encode X (take 4 f)"

section \<open>Key hierarchy\<close>

definition tag_dsk :: felt where
  "tag_dsk = felt_tag (as_bytes ''dsk'')"

record account =
  acc_nk :: felt
  acc_ask_base :: felt
  acc_incoming_seed :: felt
  acc_outgoing_seed :: felt

definition derive_account :: "'x ext_scheme \<Rightarrow> felt \<Rightarrow> account" where
  "derive_account X master_sk =
     (let spend_seed = hash_two X (felt_tag (as_bytes ''spend'')) master_sk
      in \<lparr>acc_nk = hash_two X (felt_tag (as_bytes ''nk'')) spend_seed,
          acc_ask_base = hash_two X (felt_tag (as_bytes ''ask'')) spend_seed,
          acc_incoming_seed = hash_two X (felt_tag (as_bytes ''incoming'')) master_sk,
          acc_outgoing_seed = hash_two X (felt_tag (as_bytes ''outgoing'')) master_sk\<rparr>)"

definition derive_address :: "'x ext_scheme \<Rightarrow> felt \<Rightarrow> u32 \<Rightarrow> felt" where
  "derive_address X incoming_seed j =
     (let dsk = hash_two X tag_dsk incoming_seed in hash_two X dsk (felt_from_u32 j))"

definition derive_ask :: "'x ext_scheme \<Rightarrow> felt \<Rightarrow> u32 \<Rightarrow> felt" where
  "derive_ask X ask_base j = hash_two X ask_base (felt_from_u32 j)"

definition kem_keygen_from_seed :: "'x ext_scheme \<Rightarrow> bytes \<Rightarrow> bytes \<times> bytes" where
  "kem_keygen_from_seed X seed = kem_keygen X seed"

definition derive_view_root :: "'x ext_scheme \<Rightarrow> felt \<Rightarrow> felt" where
  "derive_view_root X incoming_seed = hash_two X (felt_tag (as_bytes ''view'')) incoming_seed"

definition derive_detect_root :: "'x ext_scheme \<Rightarrow> felt \<Rightarrow> felt" where
  "derive_detect_root X incoming_seed =
     (let view_root = derive_view_root X incoming_seed
      in hash_two X (felt_tag (as_bytes ''detect'')) view_root)"

definition derive_kem_view_seed :: "'x ext_scheme \<Rightarrow> felt \<Rightarrow> u32 \<Rightarrow> bytes" where
  "derive_kem_view_seed X incoming_seed j =
     (let view_seed = derive_view_root X incoming_seed;
          h1 = hash_two X (felt_tag (as_bytes ''mlkem-v'')) view_seed;
          h2 = hash_two X h1 (felt_from_u32 j);
          h3 = hash_two X (felt_tag (as_bytes ''mlkem-v2'')) h2
      in h2 @ h3)"

definition derive_kem_detect_seed :: "'x ext_scheme \<Rightarrow> felt \<Rightarrow> u32 \<Rightarrow> bytes" where
  "derive_kem_detect_seed X incoming_seed j =
     (let det_seed = derive_detect_root X incoming_seed;
          h1 = hash_two X (felt_tag (as_bytes ''mlkem-d'')) det_seed;
          h2 = hash_two X h1 (felt_from_u32 j);
          h3 = hash_two X (felt_tag (as_bytes ''mlkem-d2'')) h2
      in h2 @ h3)"

definition derive_kem_keys :: "'x ext_scheme \<Rightarrow> felt \<Rightarrow> u32 \<Rightarrow> bytes \<times> bytes \<times> bytes \<times> bytes" where
  "derive_kem_keys X incoming_seed j =
     (let sv = derive_kem_view_seed X incoming_seed j;
          sd = derive_kem_detect_seed X incoming_seed j;
          (ek_v, dk_v) = kem_keygen_from_seed X sv;
          (ek_d, dk_d) = kem_keygen_from_seed X sd
      in (ek_v, dk_v, ek_d, dk_d))"

definition derive_kem_detect_keys_from_root :: "'x ext_scheme \<Rightarrow> felt \<Rightarrow> u32 \<Rightarrow> bytes \<times> bytes" where
  "derive_kem_detect_keys_from_root X detect_root j =
     (let h1 = hash_two X (felt_tag (as_bytes ''mlkem-d'')) detect_root;
          h2 = hash_two X h1 (felt_from_u32 j);
          h3 = hash_two X (felt_tag (as_bytes ''mlkem-d2'')) h2
      in kem_keygen_from_seed X (h2 @ h3))"

section \<open>Every derived value is a 251-bit field element\<close>

lemma length_trunc251 [simp]: "length (trunc251 d) = length d"
  by (simp add: trunc251_def)

lemma and_7_le: "(b :: u8) AND 7 \<le> 7"
  by (rule word_and_le1)

lemma is_felt251_trunc251: "length d = 32 \<Longrightarrow> is_felt251 (trunc251 d)"
  by (simp add: is_felt251_def trunc251_def and_7_le)

lemmas hash_wrapper_defs =
  blake2s_def blake2s_generic_def hash_def blake2s_parts_def blake2s_parts_personalized_def
  hash_two_def hash_merkle_def hash_commit_raw_def sighash_fold_def

lemma blake2s_felt251 [simp]: "blake_laws X \<Longrightarrow> is_felt251 (blake2s X p d)"
  by (simp add: blake2s_def is_felt251_trunc251)

lemma hash_felt251 [simp]: "blake_laws X \<Longrightarrow> is_felt251 (hash X d)"
  by (simp add: hash_def blake2s_generic_def is_felt251_trunc251)

lemma hash_two_felt251 [simp]: "blake_laws X \<Longrightarrow> is_felt251 (hash_two X a b)"
  by (simp add: hash_two_def)

lemma hash_merkle_felt251 [simp]: "blake_laws X \<Longrightarrow> is_felt251 (hash_merkle X a b)"
  by (simp add: hash_merkle_def)

lemma sighash_fold_felt251 [simp]: "blake_laws X \<Longrightarrow> is_felt251 (sighash_fold X a b)"
  by (simp add: sighash_fold_def)

lemma parts_felt251 [simp]:
  "blake_laws X \<Longrightarrow> is_felt251 (blake2s_parts X ps)"
  "blake_laws X \<Longrightarrow> is_felt251 (blake2s_parts_personalized X p ps)"
  by (simp_all add: blake2s_parts_def blake2s_parts_personalized_def is_felt251_trunc251)

lemma length_hashes [simp, byte_simps]:
  assumes "blake_laws X"
  shows "length (blake2s X p d) = 32" "length (hash X d) = 32" "length (hash_two X a b) = 32"
    "length (hash_merkle X a b) = 32" "length (sighash_fold X a b) = 32"
    "length (blake2s_parts X ps) = 32" "length (blake2s_parts_personalized X p ps) = 32"
  using assms by (simp_all add: hash_wrapper_defs)

lemma length_felt_layouts [simp, byte_simps]:
  "length (u64_to_felt v) = 32" "length (felt_from_u32 j) = 32" "length (felt_tag s) = 32"
  "length (type_tag t) = 32"
  by (simp_all add: u64_to_felt_def felt_from_u32_def felt_tag_def type_tag_def Let_def)

section \<open>Round trips of integers and textual keys\<close>

lemma u64_to_felt_inject [simp]: "u64_to_felt a = u64_to_felt b \<longleftrightarrow> a = b"
  by (simp add: u64_to_felt_def to_le_inject)

lemma all_zero_replicate: "(\<forall>b \<in> set xs. b = 0) \<longleftrightarrow> xs = replicate (length xs) 0"
  by (metis in_set_replicate replicate_length_same)

lemma felt_to_u64_iff:
  assumes "is_felt f"
  shows "felt_to_u64 f = Inr v \<longleftrightarrow> f = u64_to_felt v"
proof
  assume "felt_to_u64 f = Inr v"
  then have z: "\<forall>b \<in> set (drop 8 f). b = 0" and v: "v = from_le (take 8 f)"
    by (auto simp: felt_to_u64_def split: if_splits)
  have "drop 8 f = replicate 24 0"
    using z assms by (simp add: all_zero_replicate is_felt_def)
  moreover have "to_le 8 v = take 8 f"
    using assms to_le_from_le [of "take 8 f", where 'a = 64] by (simp add: v is_felt_def)
  ultimately show "f = u64_to_felt v"
    by (metis append_take_drop_id u64_to_felt_def)
next
  assume "f = u64_to_felt v"
  then show "felt_to_u64 f = Inr v"
    by (simp add: felt_to_u64_def u64_to_felt_def)
qed

lemma parse_deposit_recipient_iff:
  assumes "hex_laws X"
  shows "parse_deposit_recipient_pubkey_hash X s = Inr h
         \<longleftrightarrow> is_felt h \<and> s = deposit_recipient_string X h"
  using assms
  by (auto simp: parse_deposit_recipient_pubkey_hash_def deposit_recipient_string_def res_simps
      strip_prefix_Some is_felt_def)

lemma is_deposit_recipient_iff:
  assumes "hex_laws X"
  shows "is_deposit_recipient_string X s \<longleftrightarrow> (\<exists>h. is_felt h \<and> s = deposit_recipient_string X h)"
proof -
  have "is_deposit_recipient_string X s
        \<longleftrightarrow> (\<exists>h. parse_deposit_recipient_pubkey_hash X s = Inr h)"
    by (simp add: is_deposit_recipient_string_def split: sum.split)
  then show ?thesis using parse_deposit_recipient_iff [OF assms] by simp
qed

lemma deposit_recipient_inject:
  "hex_laws X \<Longrightarrow> deposit_recipient_string X a = deposit_recipient_string X b \<longleftrightarrow> a = b"
  by (simp add: deposit_recipient_string_def)

lemma public_balance_key_roundtrip:
  assumes "public_balance_key owner label = Inr k" "CHR '':'' \<notin> set owner"
  shows "parse_public_balance_key k = Some (owner, label)"
  using assms
  by (auto simp: public_balance_key_def parse_public_balance_key_def res_simps split_once_append)

lemma parse_public_balance_key_sound:
  assumes "parse_public_balance_key k = Some (owner, label)"
  shows "public_balance_key owner label = Inr k"
  using assms
  by (auto simp: public_balance_key_def parse_public_balance_key_def strip_prefix_Some
      split: option.splits if_splits dest!: split_once_Some)

section \<open>Chained hashes bind their inputs\<close>

text \<open>
  A sighash is a left fold of \<open>sighash_fold\<close> over a list of field elements, from a type tag.
  \<open>chain_inputs\<close> lists the byte strings hashed on the way.
\<close>

fun chain_inputs :: "'x ext_scheme \<Rightarrow> felt \<Rightarrow> felt list \<Rightarrow> bytes list" where
  "chain_inputs X t [] = []"
| "chain_inputs X t (x # xs) = (t @ x) # chain_inputs X (sighash_fold X t x) xs"

definition chain_collision_free :: "'x ext_scheme \<Rightarrow> bytes set \<Rightarrow> bool" where
  "chain_collision_free X D \<longleftrightarrow>
     inj_on (blake2s X ''sighSP__'') D
     \<and> (\<forall>d \<in> D. \<forall>t \<in> {1, 2, 3, 4}. blake2s X ''sighSP__'' d \<noteq> type_tag t)"

lemma chain_inputs_snoc:
  "chain_inputs X t (xs @ [x]) = chain_inputs X t xs @ [foldl (sighash_fold X) t xs @ x]"
  by (induction xs arbitrary: t) simp_all

lemma length_chain:
  "blake_laws X \<Longrightarrow> is_felt t \<Longrightarrow> length (foldl (sighash_fold X) t xs) = 32"
  by (induction xs arbitrary: t) (simp_all add: is_felt_def)

lemma chain_snoc:
  "foldl (sighash_fold X) t (xs @ [x]) = blake2s X ''sighSP__'' (foldl (sighash_fold X) t xs @ x)"
  by (simp only: foldl_append foldl.simps sighash_fold_def)

lemma chain_not_tag:
  assumes "chain_collision_free X D" "set (chain_inputs X t (xs @ [x])) \<subseteq> D" "c \<in> {1, 2, 3, 4}"
  shows "foldl (sighash_fold X) t (xs @ [x]) \<noteq> type_tag c"
  using assms unfolding chain_snoc chain_collision_free_def chain_inputs_snoc by fastforce

lemma chain_step_inject:
  assumes "chain_collision_free X D"
    and "set (chain_inputs X t (xs @ [x])) \<subseteq> D" "set (chain_inputs X t' (ys @ [y])) \<subseteq> D"
    and "foldl (sighash_fold X) t (xs @ [x]) = foldl (sighash_fold X) t' (ys @ [y])"
  shows "foldl (sighash_fold X) t xs @ x = foldl (sighash_fold X) t' ys @ y"
proof (rule inj_onD)
  show "inj_on (blake2s X ''sighSP__'') D"
    using assms(1) by (simp add: chain_collision_free_def)
qed (use assms(2-4) in \<open>simp_all add: chain_snoc chain_inputs_snoc del: foldl_append\<close>)

lemma type_tag_inject: "type_tag t = type_tag t' \<longleftrightarrow> t = t'"
  by (simp add: type_tag_def ZERO_def numeral_eq_Suc)

lemma chain_inject:
  assumes X: "blake_laws X" and t: "t \<in> {1, 2, 3, 4}" "t' \<in> {1, 2, 3, 4}"
    and D: "chain_collision_free X D"
    and "set (chain_inputs X (type_tag t) xs) \<subseteq> D" "set (chain_inputs X (type_tag t') ys) \<subseteq> D"
    and "foldl (sighash_fold X) (type_tag t) xs = foldl (sighash_fold X) (type_tag t') ys"
  shows "t = t' \<and> xs = ys"
  using assms(5-)
proof (induction xs arbitrary: ys rule: rev_induct)
  case Nil
  show ?case
  proof (cases ys rule: rev_cases)
    case Nil
    with Nil.prems show ?thesis by (simp add: type_tag_inject)
  next
    case (snoc ys' y)
    with Nil.prems chain_not_tag [OF D _ t(1), of "type_tag t'" ys' y] show ?thesis by simp
  qed
next
  case (snoc x xs)
  show ?case
  proof (cases ys rule: rev_cases)
    case Nil
    with snoc.prems chain_not_tag [OF D snoc.prems(1) t(2)] show ?thesis by simp
  next
    case ys: (snoc ys' y)
    let ?a = "foldl (sighash_fold X) (type_tag t) xs"
    let ?b = "foldl (sighash_fold X) (type_tag t') ys'"
    have "?a @ x = ?b @ y"
      using snoc.prems ys by (intro chain_step_inject [OF D]) simp_all
    moreover have "length ?a = 32" "length ?b = 32"
      using X by (simp_all add: length_chain is_felt_def)
    ultimately have eq: "?a = ?b" "x = y" by simp_all
    have "t = t' \<and> xs = ys'"
      using snoc.prems ys eq by (intro snoc.IH) (auto simp: chain_inputs_snoc)
    then show ?thesis using ys eq by simp
  qed
qed

text \<open>The three sighashes and the pool key, as chains.\<close>

definition transfer_fields ::
  "felt \<Rightarrow> felt \<Rightarrow> felt list \<Rightarrow> u64 \<Rightarrow> felt list \<Rightarrow> felt list" where
  "transfer_fields auth_domain root nfs fee outs =
     [auth_domain, root] @ nfs @ [u64_to_felt fee] @ outs"

definition unshield_fields ::
  "felt \<Rightarrow> felt \<Rightarrow> felt list \<Rightarrow> u64 \<Rightarrow> u64 \<Rightarrow> felt list \<Rightarrow> felt list" where
  "unshield_fields auth_domain root nfs v_pub fee outs =
     [auth_domain, root] @ nfs @ [u64_to_felt v_pub, u64_to_felt fee] @ outs"

definition shield_fields ::
  "felt \<Rightarrow> felt \<Rightarrow> u64 \<Rightarrow> u64 \<Rightarrow> u64 \<Rightarrow> felt list \<Rightarrow> felt list" where
  "shield_fields auth_domain pubkey_hash v fee producer_fee outs =
     [auth_domain, pubkey_hash, u64_to_felt v, u64_to_felt fee, u64_to_felt producer_fee] @ outs"

lemma transfer_sighash_chain:
  "transfer_sighash X ad root nfs fee c1 c2 c3 m1 m2 m3 =
     foldl (sighash_fold X) (type_tag 1) (transfer_fields ad root nfs fee [c1, c2, c3, m1, m2, m3])"
  by (simp add: transfer_sighash_def transfer_fields_def Let_def)

lemma unshield_sighash_chain:
  "unshield_sighash X ad root nfs v fee rcp cc mc cf mf =
     foldl (sighash_fold X) (type_tag 2) (unshield_fields ad root nfs v fee [rcp, cc, mc, cf, mf])"
  by (simp add: unshield_sighash_def unshield_fields_def Let_def)

lemma shield_sighash_chain:
  "shield_sighash X ad pk v fee pf c1 c2 m1 m2 =
     foldl (sighash_fold X) (type_tag 3) (shield_fields ad pk v fee pf [c1, c2, m1, m2])"
  by (simp add: shield_sighash_def shield_fields_def Let_def)

lemma deposit_pubkey_hash_chain:
  "deposit_pubkey_hash X ad ar ps bl = foldl (sighash_fold X) (type_tag 4) [ad, ar, ps, bl]"
  by (simp add: deposit_pubkey_hash_def Let_def)

text \<open>
  \<open>counting_ext\<close> hashes a string to its first byte plus 16: an instance that is
  collision free on the inputs of several chains at once.
\<close>

definition counting_ext :: ext where
  "counting_ext = sample_ext\<lparr>blake2s_digest := \<lambda>p d. (hd (d @ [0]) + 16) # replicate 31 0\<rparr>"

lemma counting_blake_laws: "blake_laws counting_ext"
  by (simp add: blake_laws_def counting_ext_def)

lemma counting_blake2s: "blake2s counting_ext p (a # d) = (a + 16) # replicate 31 0"
  by (simp add: blake2s_def counting_ext_def trunc251_def numeral_eq_Suc)

lemma counting_heads:
  "map hd (chain_inputs counting_ext (a # ts) xs) = map (\<lambda>i. a + 16 * word_of_nat i) [0..<length xs]"
proof (induction xs arbitrary: a ts)
  case Nil
  show ?case by simp
next
  case (Cons x xs)
  have "sighash_fold counting_ext (a # ts) x = (a + 16) # replicate 31 0"
    by (simp add: sighash_fold_def counting_blake2s)
  then show ?case
    by (simp add: Cons upt_conv_Cons algebra_simps del: upt_Suc flip: map_Suc_upt)
qed

lemma chain_inputs_Cons: "d \<in> set (chain_inputs counting_ext (a # ts) xs) \<Longrightarrow> \<exists>b bs. d = b # bs"
proof (induction xs arbitrary: a ts)
  case (Cons x xs)
  then show ?case by (auto simp: sighash_fold_def counting_blake2s)
qed simp

definition counting_line :: "u8 \<times> felt list \<Rightarrow> u8 list" where
  "counting_line j = map (\<lambda>i. fst j + 16 * word_of_nat i) [0..<length (snd j)]"

definition counting_inputs :: "(u8 \<times> felt list) list \<Rightarrow> bytes list" where
  "counting_inputs js = concat (map (\<lambda>(t, xs). chain_inputs counting_ext (type_tag t) xs) js)"

lemma type_tag_Cons: "type_tag t = t # replicate 31 0"
  by (simp add: type_tag_def ZERO_def numeral_eq_Suc)

lemma counting_inputs_heads: "map hd (counting_inputs js) = concat (map counting_line js)"
  by (induction js) (auto simp: counting_inputs_def counting_line_def type_tag_Cons counting_heads)

lemma counting_collision_free:
  assumes "distinct (concat (map counting_line js))"
    and "\<forall>h \<in> set (concat (map counting_line js)). h + 16 \<notin> {1, 2, 3, 4}"
  shows "chain_collision_free counting_ext (set (counting_inputs js))"
proof -
  have hash: "blake2s counting_ext p d = (hd d + 16) # replicate 31 0"
    if "d \<in> set (counting_inputs js)" for d p
    using that by (auto simp: counting_inputs_def type_tag_Cons counting_blake2s dest!: chain_inputs_Cons)
  have "inj_on hd (set (counting_inputs js))"
    using assms(1) by (simp add: distinct_map flip: counting_inputs_heads)
  moreover have "hd d + 16 \<notin> {1, 2, 3, 4}" if "d \<in> set (counting_inputs js)" for d
    using assms(2) that by (auto simp flip: counting_inputs_heads)
  ultimately show ?thesis
    unfolding chain_collision_free_def by (auto simp: inj_on_def hash type_tag_Cons)
qed

lemmas sighash_field_defs = transfer_fields_def unshield_fields_def shield_fields_def

section \<open>Properties\<close>

text \<open>
  A recipient string is accepted exactly when it is the canonical text of a 32-byte pool
  key, and it is parsed to that key; so two pools never share a recipient string and an
  upper-case or re-encoded variant is refused.
\<close>

theorem deposit_recipient_canonical:
  assumes "hex_laws X"
  shows "parse_deposit_recipient_pubkey_hash X s = Inr h
         \<longleftrightarrow> is_felt h \<and> s = deposit_recipient_string X h"
  using assms by (rule parse_deposit_recipient_iff)

theorem deposit_recipient_canonical_witness:
  "parse_deposit_recipient_pubkey_hash sample_ext
     (deposit_recipient_string sample_ext (replicate 32 0xAB)) = Inr (replicate 32 0xAB)"
  using deposit_recipient_canonical [OF sample_hex_laws] by (simp add: is_felt_def)

text \<open>
  C36: the transfer sighash binds every public field of the transfer, the number of
  nullifiers included: two transfers with the same sighash agree on all of them, unless
  BLAKE2s collides on two of the strings hashed while computing the two sighashes or maps
  one of them to a type tag.
\<close>

theorem transfer_sighash_binding:
  assumes "blake_laws X"
    and "chain_collision_free X
           (set (chain_inputs X (type_tag 1) (transfer_fields ad root nfs fee [c1, c2, c3, m1, m2, m3]))
          \<union> set (chain_inputs X (type_tag 1) (transfer_fields ad' root' nfs' fee' [c1', c2', c3', m1', m2', m3'])))"
    and "transfer_sighash X ad root nfs fee c1 c2 c3 m1 m2 m3
         = transfer_sighash X ad' root' nfs' fee' c1' c2' c3' m1' m2' m3'"
  shows "ad = ad' \<and> root = root' \<and> nfs = nfs' \<and> fee = fee'
         \<and> [c1, c2, c3, m1, m2, m3] = [c1', c2', c3', m1', m2', m3']"
proof -
  have "transfer_fields ad root nfs fee [c1, c2, c3, m1, m2, m3]
        = transfer_fields ad' root' nfs' fee' [c1', c2', c3', m1', m2', m3']"
    using assms(3) chain_inject [OF assms(1) _ _ assms(2), of 1 1] by (simp add: transfer_sighash_chain)
  then show ?thesis by (simp add: transfer_fields_def)
qed

theorem transfer_sighash_binding_witness:
  "chain_collision_free counting_ext (set (chain_inputs counting_ext (type_tag 1)
     (transfer_fields ZERO ZERO [ZERO] 7 [ZERO, ZERO, ZERO, ZERO, ZERO, ZERO])))
   \<and> [ZERO] = [ZERO] \<and> (7 :: u64) = 7"
proof -
  let ?T = "transfer_fields ZERO ZERO [ZERO] 7 [ZERO, ZERO, ZERO, ZERO, ZERO, ZERO]"
  have "chain_collision_free counting_ext (set (counting_inputs [(1, ?T)]))"
    by (rule counting_collision_free) (simp_all add: counting_line_def sighash_field_defs upt_conv_Cons)
  then have cf: "chain_collision_free counting_ext
     (set (chain_inputs counting_ext (type_tag 1) ?T) \<union> set (chain_inputs counting_ext (type_tag 1) ?T))"
    by (simp add: counting_inputs_def)
  show ?thesis
    using cf transfer_sighash_binding [OF counting_blake_laws cf refl] by simp
qed

text \<open>
  The circuit-type tag separates the sighashes: a transfer, an unshield and a shield
  never have the same sighash, under the same condition on BLAKE2s.
\<close>

theorem sighash_domain_separation:
  assumes "blake_laws X"
    and "chain_collision_free X
           (set (chain_inputs X (type_tag 1) (transfer_fields ad root nfs fee [c1, c2, c3, m1, m2, m3]))
          \<union> set (chain_inputs X (type_tag 2) (unshield_fields ad' root' nfs' v' fee' [rcp, cc, mc, cf, mf]))
          \<union> set (chain_inputs X (type_tag 3) (shield_fields ad'' pk v'' fee'' pf [d1, d2, n1, n2])))"
  shows "distinct [transfer_sighash X ad root nfs fee c1 c2 c3 m1 m2 m3,
                   unshield_sighash X ad' root' nfs' v' fee' rcp cc mc cf mf,
                   shield_sighash X ad'' pk v'' fee'' pf d1 d2 n1 n2]"
proof -
  let ?T = "transfer_fields ad root nfs fee [c1, c2, c3, m1, m2, m3]"
  let ?U = "unshield_fields ad' root' nfs' v' fee' [rcp, cc, mc, cf, mf]"
  let ?S = "shield_fields ad'' pk v'' fee'' pf [d1, d2, n1, n2]"
  note inject = chain_inject [OF assms(1) _ _ assms(2)]
  show ?thesis
    using inject [of 1 2 ?T ?U] inject [of 1 3 ?T ?S] inject [of 2 3 ?U ?S]
    by (auto simp: transfer_sighash_chain unshield_sighash_chain shield_sighash_chain)
qed

theorem sighash_domain_separation_witness:
  "transfer_sighash counting_ext ZERO ZERO [ZERO] 7 ZERO ZERO ZERO ZERO ZERO ZERO
     \<noteq> unshield_sighash counting_ext ZERO ZERO [ZERO] 7 8 ZERO ZERO ZERO ZERO ZERO"
proof -
  let ?T = "transfer_fields ZERO ZERO [ZERO] 7 [ZERO, ZERO, ZERO, ZERO, ZERO, ZERO]"
  let ?U = "unshield_fields ZERO ZERO [ZERO] 7 8 [ZERO, ZERO, ZERO, ZERO, ZERO]"
  let ?S = "shield_fields ZERO ZERO 1 2 3 [ZERO, ZERO, ZERO, ZERO]"
  have "chain_collision_free counting_ext (set (counting_inputs [(1, ?T), (2, ?U), (3, ?S)]))"
    by (rule counting_collision_free) (simp_all add: counting_line_def sighash_field_defs upt_conv_Cons)
  then have "chain_collision_free counting_ext
     (set (chain_inputs counting_ext (type_tag 1) ?T) \<union> set (chain_inputs counting_ext (type_tag 2) ?U)
        \<union> set (chain_inputs counting_ext (type_tag 3) ?S))"
    by (simp add: counting_inputs_def Un_assoc)
  then show ?thesis
    using sighash_domain_separation [OF counting_blake_laws] by (metis distinct_length_2_or_more)
qed

text \<open>
  A watch-only holder of the detection root derives the same detection key pair for an
  address as the holder of the incoming seed does.
\<close>

theorem detect_keys_from_root_agree:
  "derive_kem_detect_keys_from_root X (derive_detect_root X incoming_seed) j
   = (let (ek_v, dk_v, ek_d, dk_d) = derive_kem_keys X incoming_seed j in (ek_d, dk_d))"
  by (simp add: derive_kem_detect_keys_from_root_def derive_kem_keys_def derive_kem_detect_seed_def
      Let_def split: prod.split)

end
