(* ===== verification/Merkle.thy ===== *)
theory Merkle
  imports Hashing
begin

text \<open>
  The note-commitment tree: the in-memory \<open>MerkleTree\<close> of \<open>core/src/lib.rs\<close>, which
  recomputes whole levels, and the append-only frontier of the rollup kernel
  (\<open>tezos/rollup-kernel/src/lib.rs\<close>), which keeps one node per level. Both are shown to
  compute the root of the same abstract complete binary tree; authentication paths
  reconstruct that root, and no other leaf does unless the hash collides on the pairs that
  were hashed.
\<close>

section \<open>The in-memory tree\<close>

record merkle_tree =
  mt_leaves :: "felt list"
  mt_zero_hashes :: "felt list"

primrec zero_hash_list :: "'x ext_scheme \<Rightarrow> nat \<Rightarrow> felt list" where
  "zero_hash_list X 0 = [ZERO]"
| "zero_hash_list X (Suc n) =
     (let z = zero_hash_list X n in z @ [hash_merkle X (z ! n) (z ! n)])"

definition merkle_new :: "'x ext_scheme \<Rightarrow> merkle_tree" where
  "merkle_new X = \<lparr>mt_leaves = [], mt_zero_hashes = zero_hash_list X DEPTH\<rparr>"

definition merkle_from_leaves :: "'x ext_scheme \<Rightarrow> felt list \<Rightarrow> merkle_tree" where
  "merkle_from_leaves X leaves = (merkle_new X)\<lparr>mt_leaves := leaves\<rparr>"

text \<open>\<open>(1u64 << DEPTH) as usize\<close> truncates to the target's pointer width.\<close>

definition merkle_append :: "'x ext_scheme \<Rightarrow> felt \<Rightarrow> (merkle_tree, nat) action" where
  "merkle_append X leaf t =
     (let i = length (mt_leaves t) in
      if i < 2 ^ DEPTH mod 2 ^ usize_bits X
      then (Inr i, t\<lparr>mt_leaves := mt_leaves t @ [leaf]\<rparr>)
      else (Inl (Panic (''Merkle tree full: 2^'' @ show_nat DEPTH @ '' leaves'')), t))"

text \<open>
  The inner loop of \<open>compute_level\<close> and \<open>auth_path\<close>: hash the level pairwise from index
  \<open>i\<close>, padding with the zero hash; an empty level still gives one parent.
\<close>

function parent_level :: "'x ext_scheme \<Rightarrow> felt \<Rightarrow> felt list \<Rightarrow> nat \<Rightarrow> felt list" where
  "parent_level X zero level i =
     (let left = (if i < length level then level ! i else zero);
          right = (if i + 1 < length level then level ! (i + 1) else zero);
          parent = hash_merkle X left right
      in if i + 2 \<ge> length level then [parent]
         else parent # parent_level X zero level (i + 2))"
  by pat_completeness auto
termination
  by (relation "measure (\<lambda>(X, zero, level, i). length level - i)") auto

declare parent_level.simps [simp del]

function compute_level :: "'x ext_scheme \<Rightarrow> felt list \<Rightarrow> nat \<Rightarrow> felt list \<Rightarrow> felt" where
  "compute_level X zero_hashes depth level =
     (if DEPTH \<le> depth
      then (case level of [] \<Rightarrow> zero_hashes ! DEPTH | x # _ \<Rightarrow> x)
      else compute_level X zero_hashes (depth + 1) (parent_level X (zero_hashes ! depth) level 0))"
  by pat_completeness auto
termination
  by (relation "measure (\<lambda>(X, zs, depth, level). DEPTH - depth)") auto

declare compute_level.simps [simp del]

definition merkle_root :: "'x ext_scheme \<Rightarrow> merkle_tree \<Rightarrow> felt" where
  "merkle_root X t = compute_level X (mt_zero_hashes t) 0 (mt_leaves t)"

fun auth_path_loop ::
  "'x ext_scheme \<Rightarrow> felt list \<Rightarrow> nat list \<Rightarrow> felt list \<Rightarrow> felt list \<Rightarrow> nat \<Rightarrow> felt list \<times> felt" where
  "auth_path_loop X zero_hashes [] level siblings idx = (siblings, level ! 0)"
| "auth_path_loop X zero_hashes (d # ds) level siblings idx =
     (let sib_idx = idx XOR 1;
          sibling = (if sib_idx < length level then level ! sib_idx else zero_hashes ! d)
      in auth_path_loop X zero_hashes ds (parent_level X (zero_hashes ! d) level 0)
           (siblings @ [sibling]) (idx div 2))"

definition auth_path :: "'x ext_scheme \<Rightarrow> merkle_tree \<Rightarrow> nat \<Rightarrow> felt list \<times> felt" where
  "auth_path X t index =
     auth_path_loop X (mt_zero_hashes t) [0..<DEPTH] (mt_leaves t) [] index"

fun recompute_root_from_path :: "'x ext_scheme \<Rightarrow> felt \<Rightarrow> nat \<Rightarrow> felt list \<Rightarrow> felt" where
  "recompute_root_from_path X current idx [] = current"
| "recompute_root_from_path X current idx (sib # siblings) =
     recompute_root_from_path X
       (if idx mod 2 = 0 then hash_merkle X current sib else hash_merkle X sib current)
       (idx div 2) siblings"

section \<open>The frontier of the rollup kernel\<close>

fun assert_frontier_loop :: "felt option list \<Rightarrow> nat \<Rightarrow> nat list \<Rightarrow> nat \<Rightarrow> unit res" where
  "assert_frontier_loop branches tree_size [] bits = Inr ()"
| "assert_frontier_loop branches tree_size (level # levels) bits =
     (if bits mod 2 = 1 \<and> branches ! level = None
      then Inl (Err (''corrupted Merkle frontier: tree_size '' @ show_nat tree_size @
             '' requires live left child at level '' @ show_nat level @
             '' but durable slot is empty''))
      else assert_frontier_loop branches tree_size levels (bits div 2))"

definition assert_frontier_matches_tree_size :: "felt option list \<Rightarrow> nat \<Rightarrow> unit res" where
  "assert_frontier_matches_tree_size branches tree_size =
     assert_frontier_loop branches tree_size [0..<DEPTH] tree_size"

fun frontier_loop ::
  "'x ext_scheme \<Rightarrow> felt list \<Rightarrow> nat list \<Rightarrow> felt option list \<Rightarrow> felt \<Rightarrow> nat
   \<Rightarrow> (felt \<times> felt option list) res" where
  "frontier_loop X zero_hashes [] branches current index = Inr (current, branches)"
| "frontier_loop X zero_hashes (level # levels) branches current index =
     (if index mod 2 = 0 then
        frontier_loop X zero_hashes levels (branches[level := Some current])
          (hash_merkle X current (zero_hashes ! level)) (index div 2)
      else
        attempt (ok_or (branches ! level) (''missing Merkle frontier at level '' @ show_nat level))
          (\<lambda>left. frontier_loop X zero_hashes levels branches (hash_merkle X left current)
                    (index div 2)))"

text \<open>Returns the new root and the updated branches.\<close>

definition simulate_frontier_append ::
  "'x ext_scheme \<Rightarrow> felt list \<Rightarrow> felt option list \<Rightarrow> nat \<Rightarrow> felt \<Rightarrow> (felt \<times> felt option list) res" where
  "simulate_frontier_append X zero_hashes branches start_index cm =
     frontier_loop X zero_hashes [0..<DEPTH] branches cm start_index"

section \<open>The abstract tree\<close>

text \<open>
  \<open>node h f l i\<close> is node \<open>i\<close> of level \<open>l\<close> of the complete binary tree over the leaves
  \<open>f 0, f 1, \<dots>\<close>; \<open>zhash h l\<close> is a node of level \<open>l\<close> over zero leaves only.
\<close>

primrec node :: "(felt \<Rightarrow> felt \<Rightarrow> felt) \<Rightarrow> (nat \<Rightarrow> felt) \<Rightarrow> nat \<Rightarrow> nat \<Rightarrow> felt" where
  "node h f 0 i = f i"
| "node h f (Suc l) i = h (node h f l (2 * i)) (node h f l (2 * i + 1))"

primrec zhash :: "(felt \<Rightarrow> felt \<Rightarrow> felt) \<Rightarrow> nat \<Rightarrow> felt" where
  "zhash h 0 = ZERO"
| "zhash h (Suc l) = h (zhash h l) (zhash h l)"

definition leaf_at :: "felt list \<Rightarrow> nat \<Rightarrow> felt" where
  "leaf_at ls i = (if i < length ls then ls ! i else ZERO)"

definition tree_root :: "'x ext_scheme \<Rightarrow> felt list \<Rightarrow> felt" where
  "tree_root X ls = node (hash_merkle X) (leaf_at ls) DEPTH 0"

lemma length_zero_hash_list [simp]: "length (zero_hash_list X n) = Suc n"
  by (induction n) (simp_all add: Let_def)

lemma zero_hash_list_nth: "l \<le> n \<Longrightarrow> zero_hash_list X n ! l = zhash (hash_merkle X) l"
  by (induction n arbitrary: l) (auto simp: Let_def nth_append le_Suc_eq)

lemma node_cong:
  "(\<And>j. i * 2 ^ l \<le> j \<Longrightarrow> j < (i + 1) * 2 ^ l \<Longrightarrow> f j = g j) \<Longrightarrow> node h f l i = node h g l i"
proof (induction l arbitrary: i)
  case 0
  then show ?case by simp
next
  case (Suc l)
  have "node h f l (2 * i) = node h g l (2 * i)"
    by (rule Suc.IH) (auto intro!: Suc.prems simp: algebra_simps)
  moreover have "node h f l (2 * i + 1) = node h g l (2 * i + 1)"
    by (rule Suc.IH) (auto intro!: Suc.prems simp: algebra_simps)
  ultimately show ?case by simp
qed

lemma node_zero: "node h (\<lambda>_. ZERO) l i = zhash h l"
  by (induction l arbitrary: i) simp_all

lemma node_beyond: "length ls \<le> i * 2 ^ l \<Longrightarrow> node h (leaf_at ls) l i = zhash h l"
  using node_cong [of i l "leaf_at ls" "\<lambda>_. ZERO" h] by (simp add: leaf_at_def node_zero)

lemma node_append:
  "(i + 1) * 2 ^ l \<le> length ls \<Longrightarrow> node h (leaf_at (ls @ xs)) l i = node h (leaf_at ls) l i"
  by (rule node_cong) (auto simp: leaf_at_def nth_append)

lemma tree_root_felt:
  assumes "blake_laws X"
  shows "is_felt (tree_root X ls)"
proof -
  have "DEPTH = Suc 47" by (simp add: DEPTH_def)
  then show ?thesis using assms unfolding tree_root_def is_felt_def by (metis node.simps(2) length_hashes(4))
qed

section \<open>Levels of the in-memory tree\<close>

definition level_at :: "felt \<Rightarrow> felt list \<Rightarrow> nat \<Rightarrow> felt" where
  "level_at z level i = (if i < length level then level ! i else z)"

text \<open>A list holds level \<open>l\<close> of the tree over \<open>f\<close>, padded with the zero hash of the level.\<close>

definition is_level :: "'x ext_scheme \<Rightarrow> (nat \<Rightarrow> felt) \<Rightarrow> nat \<Rightarrow> felt list \<Rightarrow> bool" where
  "is_level X f l level \<longleftrightarrow>
     (\<forall>i. level_at (zhash (hash_merkle X) l) level i = node (hash_merkle X) f l i)"

lemma parent_level_nonempty: "parent_level X z level i \<noteq> []"
  by (subst parent_level.simps) (simp add: Let_def)

lemma parent_level_length:
  "length (parent_level X z level i) = max 1 ((length level - i + 1) div 2)"
proof (induction X z level i rule: parent_level.induct)
  case (1 X z level i)
  show ?case
  proof (cases "i + 2 \<ge> length level")
    case True
    then show ?thesis by (subst parent_level.simps) (auto simp: Let_def max_def)
  next
    case False
    with 1 show ?thesis by (subst parent_level.simps) (auto simp: Let_def max_def)
  qed
qed

lemma parent_level_nth:
  "k < length (parent_level X z level i) \<Longrightarrow>
   parent_level X z level i ! k
     = hash_merkle X (level_at z level (i + 2 * k)) (level_at z level (i + 2 * k + 1))"
proof (induction X z level i arbitrary: k rule: parent_level.induct)
  case (1 X z level i)
  show ?case
  proof (cases "i + 2 \<ge> length level")
    case True
    with "1.prems" show ?thesis
      by (simp add: parent_level.simps [of X z level i] Let_def level_at_def)
  next
    case False
    with "1.prems" "1.IH" [OF refl refl refl] show ?thesis
      by (cases k) (simp_all add: parent_level.simps [of X z level i] Let_def level_at_def)
  qed
qed

lemma parent_level_is_level:
  assumes "is_level X f l level"
  shows "is_level X f (Suc l) (parent_level X (zhash (hash_merkle X) l) level 0)"
  unfolding is_level_def
proof
  fix i
  let ?z = "zhash (hash_merkle X) l"
  let ?ps = "parent_level X ?z level 0"
  show "level_at (zhash (hash_merkle X) (Suc l)) ?ps i = node (hash_merkle X) f (Suc l) i"
  proof (cases "i < length ?ps")
    case True
    then show ?thesis
      using assms parent_level_nth [OF True] by (simp add: level_at_def [of _ ?ps] is_level_def)
  next
    case False
    then have "length level \<le> 2 * i"
      by (auto simp: parent_level_length)
    then have "level_at ?z level (2 * i) = ?z" "level_at ?z level (2 * i + 1) = ?z"
      by (simp_all add: level_at_def)
    then have "node (hash_merkle X) f l (2 * i) = ?z" "node (hash_merkle X) f l (2 * i + 1) = ?z"
      using assms unfolding is_level_def by metis+
    then show ?thesis using False by (simp add: level_at_def)
  qed
qed

lemma leaves_is_level: "is_level X (leaf_at ls) 0 ls"
  by (simp add: is_level_def level_at_def leaf_at_def)

lemma compute_level_node:
  assumes "is_level X f depth level" "depth \<le> DEPTH"
  shows "compute_level X (zero_hash_list X DEPTH) depth level = node (hash_merkle X) f DEPTH 0"
  using assms
proof (induction X "zero_hash_list X DEPTH" depth level rule: compute_level.induct)
  case (1 X depth level)
  show ?case
  proof (cases "DEPTH \<le> depth")
    case True
    with "1.prems" have "depth = DEPTH" by simp
    moreover have "level_at (zhash (hash_merkle X) DEPTH) level 0 = node (hash_merkle X) f DEPTH 0"
      using "1.prems" \<open>depth = DEPTH\<close> by (simp add: is_level_def)
    ultimately show ?thesis
      by (subst compute_level.simps) (auto simp: level_at_def zero_hash_list_nth split: list.split)
  next
    case False
    then have "is_level X f (Suc depth) (parent_level X (zero_hash_list X DEPTH ! depth) level 0)"
      using "1.prems" by (simp add: zero_hash_list_nth parent_level_is_level)
    then show ?thesis
      using False "1.hyps" by (subst compute_level.simps) simp
  qed
qed

lemma merkle_root_tree_root:
  "mt_zero_hashes t = zero_hash_list X DEPTH \<Longrightarrow> merkle_root X t = tree_root X (mt_leaves t)"
  by (simp add: merkle_root_def tree_root_def compute_level_node leaves_is_level)

section \<open>Authentication paths\<close>

definition sibling_at :: "'x ext_scheme \<Rightarrow> (nat \<Rightarrow> felt) \<Rightarrow> nat \<Rightarrow> nat \<Rightarrow> felt" where
  "sibling_at X f index d = node (hash_merkle X) f d (index div 2 ^ d XOR 1)"

lemma div_pow_Suc: "(i :: nat) div 2 ^ Suc d = i div 2 ^ d div 2"
  by (simp only: power_Suc2 div_mult2_eq)

lemma auth_path_loop_correct:
  assumes "is_level X f d level" "d \<le> n" "idx = index div 2 ^ d" "0 < n - d \<or> level \<noteq> []"
  shows "auth_path_loop X (zero_hash_list X n) [d..<n] level sibs idx
         = (sibs @ map (sibling_at X f index) [d..<n], node (hash_merkle X) f n 0)"
  using assms
proof (induction "n - d" arbitrary: d level sibs idx)
  case 0
  then have "d = n" "level \<noteq> []" by simp_all
  with 0 have "level_at (zhash (hash_merkle X) n) level 0 = node (hash_merkle X) f n 0"
    by (simp add: is_level_def)
  then show ?case using \<open>d = n\<close> \<open>level \<noteq> []\<close> by (simp add: level_at_def)
next
  case (Suc k)
  then have d: "d < n" by simp
  let ?z = "zhash (hash_merkle X) d"
  let ?s = "if idx XOR 1 < length level then level ! (idx XOR 1) else zero_hash_list X n ! d"
  have z: "zero_hash_list X n ! d = ?z" using d by (simp add: zero_hash_list_nth)
  have "level_at ?z level (idx XOR 1) = sibling_at X f index d"
    using Suc.prems by (simp add: is_level_def sibling_at_def)
  then have s: "?s = sibling_at X f index d" by (auto simp: level_at_def z)
  have "auth_path_loop X (zero_hash_list X n) [Suc d..<n] (parent_level X ?z level 0)
          (sibs @ [?s]) (idx div 2)
        = ((sibs @ [?s]) @ map (sibling_at X f index) [Suc d..<n], node (hash_merkle X) f n 0)"
    using Suc.hyps(2) Suc.prems d
    by (intro Suc.hyps(1)) (simp_all add: parent_level_is_level parent_level_nonempty div_pow_Suc del: power_Suc)
  then show ?case using d unfolding upt_conv_Cons [OF d] auth_path_loop.simps Let_def z [symmetric] s
    by simp
qed

lemma auth_path_correct:
  assumes "mt_zero_hashes t = zero_hash_list X DEPTH"
  shows "auth_path X t index
         = (map (sibling_at X (leaf_at (mt_leaves t)) index) [0..<DEPTH], tree_root X (mt_leaves t))"
  using auth_path_loop_correct [OF leaves_is_level, of DEPTH index index "mt_leaves t" X "[]"] assms
  by (simp add: auth_path_def tree_root_def DEPTH_def)

lemma xor_one_even: "(i :: nat) mod 2 = 0 \<Longrightarrow> i XOR Suc 0 = i + 1"
  by (simp add: xor_Suc_0_eq even_iff_mod_2_eq_zero)

lemma xor_one_odd: "(i :: nat) mod 2 = Suc 0 \<Longrightarrow> i XOR Suc 0 = i - 1"
proof -
  assume "i mod 2 = Suc 0"
  then have "i = Suc (2 * (i div 2))" by presburger
  then obtain k where "i = Suc (2 * k)" by blast
  then show "i XOR Suc 0 = i - 1" by (simp add: xor_Suc_0_eq)
qed

lemma double_half: "(i :: nat) mod 2 = 0 \<Longrightarrow> 2 * (i div 2) = i" "i mod 2 \<noteq> 0 \<Longrightarrow> 2 * (i div 2) = i - 1"
  "i mod 2 \<noteq> 0 \<Longrightarrow> Suc (2 * (i div 2)) = i"
  by presburger+

lemma recompute_siblings:
  "recompute_root_from_path X (node (hash_merkle X) f d (index div 2 ^ d)) (index div 2 ^ d)
     (map (sibling_at X f index) [d..<d + k])
   = node (hash_merkle X) f (d + k) (index div 2 ^ (d + k))"
proof (induction k arbitrary: d)
  case 0
  show ?case by simp
next
  case (Suc k)
  let ?i = "index div 2 ^ d"
  have "(if ?i mod 2 = 0
         then hash_merkle X (node (hash_merkle X) f d ?i) (sibling_at X f index d)
         else hash_merkle X (sibling_at X f index d) (node (hash_merkle X) f d ?i))
        = node (hash_merkle X) f (Suc d) (index div 2 ^ Suc d)"
  proof (cases "?i mod 2 = 0")
    case True
    note double_half(1) [OF this]
    then show ?thesis using True by (simp add: sibling_at_def xor_one_even div_pow_Suc del: power_Suc)
  next
    case False
    note double_half(2,3) [OF this]
    moreover have "?i mod 2 = 1" using False by simp
    ultimately show ?thesis using False by (simp add: sibling_at_def xor_one_odd div_pow_Suc del: power_Suc)
  qed
  then show ?case
    using Suc [of "Suc d"] by (simp add: upt_conv_Cons div_pow_Suc del: power_Suc upt_Suc)
qed

text \<open>
  The recomputation hashes one pair per level. \<open>path_pairs\<close> lists the pairs of a given path,
  \<open>tree_pairs\<close> those on the way from a leaf of the tree to the root.
\<close>

fun path_pairs :: "'x ext_scheme \<Rightarrow> felt \<Rightarrow> nat \<Rightarrow> felt list \<Rightarrow> (felt \<times> felt) list" where
  "path_pairs X current idx [] = []"
| "path_pairs X current idx (sib # sibs) =
     (let lr = (if idx mod 2 = 0 then (current, sib) else (sib, current))
      in lr # path_pairs X (hash_merkle X (fst lr) (snd lr)) (idx div 2) sibs)"

definition tree_pairs :: "'x ext_scheme \<Rightarrow> (nat \<Rightarrow> felt) \<Rightarrow> nat \<Rightarrow> (felt \<times> felt) list" where
  "tree_pairs X f index =
     path_pairs X (f index) index (map (sibling_at X f index) [0..<DEPTH])"

definition pair_collision_free :: "'x ext_scheme \<Rightarrow> (felt \<times> felt) set \<Rightarrow> bool" where
  "pair_collision_free X P \<longleftrightarrow> inj_on (\<lambda>(a, b). hash_merkle X a b) P"

lemma recompute_snoc:
  "recompute_root_from_path X cur idx (sibs @ [s]) =
     (let c = recompute_root_from_path X cur idx sibs
      in if idx div 2 ^ length sibs mod 2 = 0 then hash_merkle X c s else hash_merkle X s c)"
  by (induction sibs arbitrary: cur idx) (simp_all add: Let_def div_mult2_eq)

lemma path_pairs_snoc:
  "path_pairs X cur idx (sibs @ [s]) = path_pairs X cur idx sibs @
     [let c = recompute_root_from_path X cur idx sibs
      in if idx div 2 ^ length sibs mod 2 = 0 then (c, s) else (s, c)]"
  by (induction sibs arbitrary: cur idx) (simp_all add: Let_def div_mult2_eq)

lemma recompute_inject:
  assumes "pair_collision_free X (set (path_pairs X c idx xs) \<union> set (path_pairs X c' idx ys))"
    and "length xs = length ys"
    and "recompute_root_from_path X c idx xs = recompute_root_from_path X c' idx ys"
  shows "c = c' \<and> xs = ys"
  using assms
proof (induction xs arbitrary: ys rule: rev_induct)
  case Nil
  then show ?case by simp
next
  case (snoc x xs)
  then obtain ys' y where ys: "ys = ys' @ [y]" by (cases ys rule: rev_cases) auto
  let ?a = "recompute_root_from_path X c idx xs" and ?b = "recompute_root_from_path X c' idx ys'"
  let ?P = "set (path_pairs X c idx (xs @ [x])) \<union> set (path_pairs X c' idx (ys' @ [y]))"
  let ?e = "idx div 2 ^ length xs mod 2 = 0"
  have len: "length xs = length ys'" using snoc.prems(2) ys by simp
  have inj: "inj_on (\<lambda>(a, b). hash_merkle X a b) ?P"
    using snoc.prems(1) ys by (simp add: pair_collision_free_def)
  have "(if ?e then (?a, x) else (x, ?a)) = (if ?e then (?b, y) else (y, ?b))"
    using inj_onD [OF inj, of "if ?e then (?a, x) else (x, ?a)" "if ?e then (?b, y) else (y, ?b)"]
      snoc.prems(3) ys len
    by (auto simp: recompute_snoc path_pairs_snoc Let_def split: if_splits)
  then have eq: "?a = ?b" "x = y" by (simp_all split: if_splits)
  have "pair_collision_free X (set (path_pairs X c idx xs) \<union> set (path_pairs X c' idx ys'))"
    using inj unfolding pair_collision_free_def path_pairs_snoc by (rule inj_on_subset) auto
  with snoc.IH [OF _ len] eq ys show ?case by simp
qed

section \<open>The frontier tracks the tree\<close>

definition frontier_ok :: "'x ext_scheme \<Rightarrow> felt list \<Rightarrow> felt option list \<Rightarrow> bool" where
  "frontier_ok X ls branches \<longleftrightarrow> length branches = DEPTH \<and>
     (\<forall>l < DEPTH. length ls div 2 ^ l mod 2 = 1 \<longrightarrow>
        branches ! l = Some (node (hash_merkle X) (leaf_at ls) l (length ls div 2 ^ l - 1)))"

text \<open>The branches after appending a leaf: the levels from \<open>d\<close> on whose node is a left child change.\<close>

definition frontier_update ::
  "'x ext_scheme \<Rightarrow> felt list \<Rightarrow> nat \<Rightarrow> nat \<Rightarrow> felt option list \<Rightarrow> felt option list" where
  "frontier_update X ls n d branches =
     map (\<lambda>l. if d \<le> l \<and> n div 2 ^ l mod 2 = 0
              then Some (node (hash_merkle X) (leaf_at ls) l (n div 2 ^ l)) else branches ! l)
       [0..<length branches]"

lemma frontier_update_step:
  assumes "d < length branches"
  shows "n div 2 ^ d mod 2 = 0 \<Longrightarrow>
           frontier_update X ls n (Suc d)
             (branches[d := Some (node (hash_merkle X) (leaf_at ls) d (n div 2 ^ d))])
           = frontier_update X ls n d branches"
    and "n div 2 ^ d mod 2 \<noteq> 0 \<Longrightarrow>
           frontier_update X ls n (Suc d) branches = frontier_update X ls n d branches"
  using assms by (auto simp: frontier_update_def nth_list_update not_less_eq_eq le_antisym)

lemma node_last_right: "length ls div 2 ^ l = i \<Longrightarrow> node h (leaf_at (ls @ [c])) l (i + 1) = zhash h l"
proof (rule node_beyond)
  assume i: "length ls div 2 ^ l = i"
  have "length ls < (i + 1) * 2 ^ l"
    using i dividend_less_div_times [of "2 ^ l" "length ls"] by (simp add: algebra_simps)
  then show "length (ls @ [c]) \<le> (i + 1) * 2 ^ l" by simp
qed

lemma node_old_left:
  assumes "length ls div 2 ^ l = Suc i"
  shows "node h (leaf_at (ls @ xs)) l i = node h (leaf_at ls) l i"
proof (rule node_append)
  have "length ls div 2 ^ l * 2 ^ l \<le> length ls" by simp
  then show "(i + 1) * 2 ^ l \<le> length ls" using assms by simp
qed

lemma frontier_loop_correct:
  fixes ls cm X
  defines "f \<equiv> leaf_at (ls @ [cm])" and "n \<equiv> length ls"
  assumes "d \<le> DEPTH" "length branches = DEPTH"
    and "\<forall>l. d \<le> l \<and> l < DEPTH \<longrightarrow> n div 2 ^ l mod 2 = 1 \<longrightarrow>
           branches ! l = Some (node (hash_merkle X) (leaf_at ls) l (n div 2 ^ l - 1))"
  shows "frontier_loop X (zero_hash_list X DEPTH) [d..<DEPTH] branches
           (node (hash_merkle X) f d (n div 2 ^ d)) (n div 2 ^ d)
         = Inr (node (hash_merkle X) f DEPTH (n div 2 ^ DEPTH),
                frontier_update X (ls @ [cm]) n d branches)"
  using assms(3-)
proof (induction "DEPTH - d" arbitrary: d branches)
  case 0
  then have "d = DEPTH" by simp
  moreover have "frontier_update X (ls @ [cm]) n DEPTH branches = branches"
    using 0 by (intro nth_equalityI) (simp_all add: frontier_update_def)
  ultimately show ?case by simp
next
  case (Suc k)
  let ?h = "hash_merkle X" and ?i = "n div 2 ^ d"
  from Suc have d: "d < DEPTH" by simp
  have zh: "zero_hash_list X DEPTH ! d = zhash ?h d" using d by (simp add: zero_hash_list_nth)
  note IH = Suc.hyps(1) [of "Suc d"]
  show ?case
  proof (cases "?i mod 2 = 0")
    case True
    let ?b = "branches[d := Some (node ?h f d ?i)]"
    have up: "?h (node ?h f d ?i) (zhash ?h d) = node ?h f (Suc d) (n div 2 ^ Suc d)"
      using double_half(1) [OF True] node_last_right [of ls d ?i ?h cm]
      by (simp add: div_pow_Suc n_def f_def del: power_Suc)
    have "frontier_loop X (zero_hash_list X DEPTH) [Suc d..<DEPTH] ?b
            (node ?h f (Suc d) (n div 2 ^ Suc d)) (n div 2 ^ Suc d)
          = Inr (node ?h f DEPTH (n div 2 ^ DEPTH), frontier_update X (ls @ [cm]) n (Suc d) ?b)"
      using Suc.prems Suc.hyps(2) d by (intro IH) auto
    then show ?thesis
      using True d Suc.prems(2) up zh frontier_update_step(1) [of d branches n X "ls @ [cm]"]
      by (simp add: upt_conv_Cons f_def div_pow_Suc del: power_Suc upt_Suc node.simps)
  next
    case False
    then have b: "branches ! d = Some (node ?h (leaf_at ls) d (?i - 1))"
      using Suc.prems(3) d by simp
    have old: "node ?h (leaf_at ls) d (?i - 1) = node ?h f d (?i - 1)"
      using node_old_left [of ls d "?i - 1" ?h "[cm]"] False by (simp add: n_def f_def)
    have up: "?h (node ?h f d (?i - 1)) (node ?h f d ?i) = node ?h f (Suc d) (n div 2 ^ Suc d)"
      using double_half(2,3) [OF False] by (simp add: div_pow_Suc del: power_Suc)
    have "frontier_loop X (zero_hash_list X DEPTH) [Suc d..<DEPTH] branches
            (node ?h f (Suc d) (n div 2 ^ Suc d)) (n div 2 ^ Suc d)
          = Inr (node ?h f DEPTH (n div 2 ^ DEPTH), frontier_update X (ls @ [cm]) n (Suc d) branches)"
      using Suc.prems Suc.hyps(2) d by (intro IH) auto
    then show ?thesis
      using False d Suc.prems(2) up b old frontier_update_step(2) [of d branches n X "ls @ [cm]"]
      by (simp add: upt_conv_Cons div_pow_Suc del: power_Suc upt_Suc node.simps)
  qed
qed

lemma Suc_div_pow:
  "Suc n div 2 ^ l = n div 2 ^ l \<or> Suc n div 2 ^ l = Suc (n div 2 ^ l)"
  by (simp add: div_Suc)

lemma frontier_update_ok:
  assumes "frontier_ok X ls branches"
  shows "frontier_ok X (ls @ [cm]) (frontier_update X (ls @ [cm]) (length ls) 0 branches)"
  unfolding frontier_ok_def
proof (intro conjI allI impI)
  show "length (frontier_update X (ls @ [cm]) (length ls) 0 branches) = DEPTH"
    using assms by (simp add: frontier_update_def frontier_ok_def)
  fix l
  let ?h = "hash_merkle X" and ?n = "length ls" and ?m = "length (ls @ [cm])"
  assume l: "l < DEPTH" and odd: "?m div 2 ^ l mod 2 = 1"
  have u: "frontier_update X (ls @ [cm]) ?n 0 branches ! l
           = (if ?n div 2 ^ l mod 2 = 0 then Some (node ?h (leaf_at (ls @ [cm])) l (?n div 2 ^ l))
              else branches ! l)"
    using l assms by (simp add: frontier_update_def frontier_ok_def)
  show "frontier_update X (ls @ [cm]) ?n 0 branches ! l
        = Some (node ?h (leaf_at (ls @ [cm])) l (?m div 2 ^ l - 1))"
  proof (cases "?m div 2 ^ l = ?n div 2 ^ l")
    case True
    then have "?n div 2 ^ l mod 2 = 1" using odd by simp
    moreover from this have "node ?h (leaf_at (ls @ [cm])) l (?n div 2 ^ l - 1)
        = node ?h (leaf_at ls) l (?n div 2 ^ l - 1)"
      by (intro node_old_left) (cases "?n div 2 ^ l"; simp)
    ultimately show ?thesis using u True assms l by (simp add: frontier_ok_def)
  next
    case False
    then have s: "?m div 2 ^ l = Suc (?n div 2 ^ l)" using Suc_div_pow [of ?n l] by simp
    then have "?n div 2 ^ l mod 2 = 0" using odd unfolding s by (simp add: mod_Suc split: if_splits)
    then show ?thesis using u s by simp
  qed
qed

lemma simulate_frontier_append_correct:
  assumes "frontier_ok X ls branches" "length ls < 2 ^ DEPTH"
  shows "\<exists>branches'. simulate_frontier_append X (zero_hash_list X DEPTH) branches (length ls) cm
                     = Inr (tree_root X (ls @ [cm]), branches')
                   \<and> frontier_ok X (ls @ [cm]) branches'"
proof -
  have "node (hash_merkle X) (leaf_at (ls @ [cm])) 0 (length ls div 2 ^ 0) = cm"
    by (simp add: leaf_at_def)
  then have "simulate_frontier_append X (zero_hash_list X DEPTH) branches (length ls) cm
        = Inr (tree_root X (ls @ [cm]), frontier_update X (ls @ [cm]) (length ls) 0 branches)"
    using frontier_loop_correct [of 0 branches ls X cm] assms
    by (simp add: simulate_frontier_append_def tree_root_def frontier_ok_def del: node.simps)
  then show ?thesis using frontier_update_ok [OF assms(1)] by blast
qed

lemma assert_frontier_loop_Inr:
  "assert_frontier_loop branches n [d..<D] (n div 2 ^ d) = Inr ()
   \<longleftrightarrow> (\<forall>l. d \<le> l \<and> l < D \<longrightarrow> n div 2 ^ l mod 2 = 1 \<longrightarrow> branches ! l \<noteq> None)"
proof (induction "D - d" arbitrary: d)
  case 0
  then show ?case by simp
next
  case (Suc k)
  then have d: "d < D" by simp
  have "(\<forall>l. d \<le> l \<and> l < D \<longrightarrow> P l) \<longleftrightarrow> P d \<and> (\<forall>l. Suc d \<le> l \<and> l < D \<longrightarrow> P l)" for P
    using d by (metis Suc_leD Suc_leI le_antisym not_less_eq_eq order_refl)
  with Suc.hyps(1) [of "Suc d"] Suc.hyps(2) d show ?case
    by (simp add: upt_conv_Cons div_pow_Suc del: power_Suc upt_Suc)
qed

text \<open>
  \<open>stepping_ext\<close> hashes a string to its first byte plus one: collision free on the pairs of
  the leftmost path.
\<close>

definition stepping_ext :: ext where
  "stepping_ext = sample_ext\<lparr>blake2s_digest := \<lambda>p d. (hd (d @ [0]) + 1) # replicate 31 0\<rparr>"

lemma stepping_hash_merkle: "hash_merkle stepping_ext (a # as) b = (a + 1) # replicate 31 0"
  by (simp add: hash_merkle_def blake2s_def stepping_ext_def trunc251_def numeral_eq_Suc)

lemma stepping_path_pairs:
  "map (hd \<circ> fst) (path_pairs stepping_ext (a # as) 0 sibs) = map (\<lambda>i. a + word_of_nat i) [0..<length sibs]
   \<and> (\<forall>p \<in> set (path_pairs stepping_ext (a # as) 0 sibs). fst p \<noteq> [])"
proof (induction sibs arbitrary: a as)
  case Nil
  show ?case by simp
next
  case (Cons s sibs)
  show ?case
    using Cons [of "a + 1" "replicate 31 0"]
    by (simp add: stepping_hash_merkle upt_conv_Cons algebra_simps comp_def del: upt_Suc flip: map_Suc_upt)
qed

lemma stepping_collision_free:
  assumes "length sibs \<le> DEPTH"
  shows "pair_collision_free stepping_ext (set (path_pairs stepping_ext (0 # as) 0 sibs))"
proof -
  let ?P = "path_pairs stepping_ext (0 # as) 0 sibs"
  have "inj_on (\<lambda>i. word_of_nat i :: u8) {0..<length sibs}"
    using assms by (intro inj_onI) (auto simp: DEPTH_def word_of_nat_eq_iff take_bit_eq_mod)
  then have "distinct (map (hd \<circ> fst) ?P)"
    using stepping_path_pairs [of 0 as sibs] by (simp add: distinct_map)
  then have inj: "inj_on (hd \<circ> fst) (set ?P)" by (simp only: distinct_map)
  have "hash_merkle stepping_ext (fst p) (snd p) = (hd (fst p) + 1) # replicate 31 0" if "p \<in> set ?P" for p
    using that stepping_path_pairs [of 0 as sibs] by (cases "fst p") (auto simp: stepping_hash_merkle)
  then have "p = q" if "p \<in> set ?P" "q \<in> set ?P"
      "hash_merkle stepping_ext (fst p) (snd p) = hash_merkle stepping_ext (fst q) (snd q)" for p q
    using that inj_onD [OF inj, of p q] by simp
  then show ?thesis unfolding pair_collision_free_def by (intro inj_onI) (simp add: case_prod_beta)
qed

section \<open>Properties\<close>

text \<open>
  The root of a tree built from any leaves is the root of the complete binary tree of
  depth \<open>DEPTH\<close> over these leaves padded with zeros, and \<open>auth_path\<close> returns \<open>DEPTH\<close> siblings
  that take the leaf at any position to this root.
\<close>

theorem auth_path_reconstructs_root:
  "\<exists>siblings. auth_path X (merkle_from_leaves X leaves) index
                 = (siblings, merkle_root X (merkle_from_leaves X leaves))
     \<and> length siblings = DEPTH
     \<and> merkle_root X (merkle_from_leaves X leaves) = tree_root X leaves
     \<and> (index < 2 ^ DEPTH \<longrightarrow>
          recompute_root_from_path X (leaf_at leaves index) index siblings = tree_root X leaves)"
proof -
  let ?t = "merkle_from_leaves X leaves"
  have t: "mt_zero_hashes ?t = zero_hash_list X DEPTH" "mt_leaves ?t = leaves"
    by (simp_all add: merkle_from_leaves_def merkle_new_def)
  have "index < 2 ^ DEPTH \<longrightarrow>
      recompute_root_from_path X (leaf_at leaves index) index
        (map (sibling_at X (leaf_at leaves) index) [0..<DEPTH]) = tree_root X leaves"
    using recompute_siblings [of X "leaf_at leaves" 0 index DEPTH] by (simp add: tree_root_def)
  then show ?thesis
    using t by (simp add: auth_path_correct merkle_root_tree_root)
qed

theorem auth_path_reconstructs_root_witness:
  "recompute_root_from_path sample_ext [7] 1
     (fst (auth_path sample_ext (merkle_from_leaves sample_ext [[5], [7]]) 1)) = tree_root sample_ext [[5], [7]]"
  using auth_path_reconstructs_root [of sample_ext "[[5], [7]]" 1] by (auto simp: leaf_at_def DEPTH_def)

text \<open>
  C33: an authentication path is sound: a path of \<open>DEPTH\<close> siblings that takes a value to the
  root of the tree at some position starts from the leaf of that position and is the path
  \<open>auth_path\<close> returns, unless the node hash collides on the pairs hashed along the two paths.
\<close>

theorem auth_path_sound:
  assumes "pair_collision_free X
             (set (path_pairs X leaf index siblings) \<union> set (tree_pairs X (leaf_at leaves) index))"
    and "index < 2 ^ DEPTH" "length siblings = DEPTH"
    and "recompute_root_from_path X leaf index siblings = merkle_root X (merkle_from_leaves X leaves)"
  shows "leaf = leaf_at leaves index
         \<and> siblings = fst (auth_path X (merkle_from_leaves X leaves) index)"
proof -
  let ?t = "merkle_from_leaves X leaves" and ?f = "leaf_at leaves"
  let ?s = "map (sibling_at X ?f index) [0..<DEPTH]"
  have t: "mt_zero_hashes ?t = zero_hash_list X DEPTH" "mt_leaves ?t = leaves"
    by (simp_all add: merkle_from_leaves_def merkle_new_def)
  have "recompute_root_from_path X (?f index) index ?s = merkle_root X ?t"
    using recompute_siblings [of X ?f 0 index DEPTH] assms(2) t
    by (simp add: merkle_root_tree_root tree_root_def)
  then have "leaf = ?f index \<and> siblings = ?s"
    using assms by (intro recompute_inject [of X _ index]) (simp_all add: tree_pairs_def)
  then show ?thesis using t by (simp add: auth_path_correct)
qed

theorem auth_path_sound_witness:
  "leaf_at [] 0 = ZERO
   \<and> fst (auth_path stepping_ext (merkle_from_leaves stepping_ext []) 0)
       = map (sibling_at stepping_ext (leaf_at []) 0) [0..<DEPTH]"
proof -
  let ?X = stepping_ext and ?s = "map (sibling_at stepping_ext (leaf_at []) 0) [0..<DEPTH]"
  have z: "ZERO = 0 # replicate 31 0" by (simp add: ZERO_def numeral_eq_Suc)
  have cf: "pair_collision_free ?X (set (path_pairs ?X ZERO 0 ?s) \<union> set (tree_pairs ?X (leaf_at []) 0))"
    using stepping_collision_free [of ?s "replicate 31 0"] by (simp add: tree_pairs_def leaf_at_def z)
  have "recompute_root_from_path ?X ZERO 0 ?s = merkle_root ?X (merkle_from_leaves ?X [])"
    using recompute_siblings [of ?X "leaf_at []" 0 0 DEPTH]
    by (simp add: merkle_root_tree_root tree_root_def leaf_at_def merkle_from_leaves_def merkle_new_def)
  from auth_path_sound [OF cf _ _ this] show ?thesis by simp
qed

text \<open>
  C32: the kernel's frontier agrees with the tree. From branches that hold the left siblings
  of the next free position, appending a commitment succeeds as long as the tree is not full,
  returns the root of the tree with the commitment appended (the root the in-memory tree
  computes), and leaves branches that again hold the left siblings of the next position.
\<close>

theorem frontier_append_refines_tree:
  assumes "frontier_ok X leaves branches" "length leaves < 2 ^ DEPTH"
  shows "\<exists>branches'. simulate_frontier_append X (zero_hash_list X DEPTH) branches (length leaves) cm
                     = Inr (merkle_root X (merkle_from_leaves X (leaves @ [cm])), branches')
                   \<and> frontier_ok X (leaves @ [cm]) branches'"
  using simulate_frontier_append_correct [OF assms]
  by (simp add: merkle_root_tree_root merkle_from_leaves_def merkle_new_def)

theorem frontier_append_refines_tree_witness:
  "\<exists>branches'. simulate_frontier_append sample_ext (zero_hash_list sample_ext DEPTH)
                (replicate DEPTH None) 0 [9]
              = Inr (merkle_root sample_ext (merkle_from_leaves sample_ext [[9]]), branches')"
  using frontier_append_refines_tree [of sample_ext "[]" "replicate DEPTH None" "[9]"]
  by (auto simp: frontier_ok_def DEPTH_def)

end
