(* ===== verification/Wots.thy ===== *)
theory Wots
  imports Hashing
begin

text \<open>
  The one-time signatures and the authentication key tree of \<open>core/src/lib.rs\<close>: WOTS+ digits
  with checksum, hash chains, the L-tree compression of a public key in its two
  implementations, signing and verification, and the XMSS tree with its paths.
\<close>

section \<open>WOTS+\<close>

definition AUTH_DEPTH :: nat where "AUTH_DEPTH = 16"
definition AUTH_TREE_SIZE :: nat where "AUTH_TREE_SIZE = 2 ^ AUTH_DEPTH"
definition WOTS_W :: nat where "WOTS_W = 4"
definition WOTS_CHAINS :: nat where "WOTS_CHAINS = 133"
definition TAG_XMSS_CHAIN_U64 :: u64 where "TAG_XMSS_CHAIN_U64 = 0x0068632D73736D78"
definition TAG_XMSS_LTREE_U64 :: u64 where "TAG_XMSS_LTREE_U64 = 0x00746C2D73736D78"
definition TAG_XMSS_TREE_U64 :: u64 where "TAG_XMSS_TREE_U64 = 0x0072742D73736D78"

definition auth_key_seed :: "'x ext_scheme \<Rightarrow> felt \<Rightarrow> u32 \<Rightarrow> felt" where
  "auth_key_seed X ask_j key_idx =
     blake2s_parts X [felt_tag (as_bytes ''xmss-sk''), ask_j, felt_from_u32 key_idx]"

definition derive_auth_pub_seed :: "'x ext_scheme \<Rightarrow> felt \<Rightarrow> felt" where
  "derive_auth_pub_seed X ask_j = blake2s_parts X [felt_tag (as_bytes ''xmss-ps''), ask_j]"

definition wots_sk_chain :: "'x ext_scheme \<Rightarrow> felt \<Rightarrow> u32 \<Rightarrow> u32 \<Rightarrow> felt" where
  "wots_sk_chain X ask_j key_idx chain_idx =
     (let root = auth_key_seed X ask_j key_idx in hash_two X root (felt_from_u32 chain_idx))"

text \<open>Bytes 24 to 31 are zero, so masking byte 31 changes nothing, as in the source.\<close>

definition pack_adrs :: "u64 \<Rightarrow> u32 \<Rightarrow> u32 \<Rightarrow> u32 \<Rightarrow> u32 \<Rightarrow> felt" where
  "pack_adrs tag key_idx a b c =
     (let out = to_le 8 tag @ to_le 4 key_idx @ to_le 4 a @ to_le 4 b @ to_le 4 c @ replicate 8 0
      in out[31 := out ! 31 AND 0x07])"

definition hash1_wots :: "'x ext_scheme \<Rightarrow> felt \<Rightarrow> felt" where
  "hash1_wots X d = blake2s X ''wotsSP__'' d"

definition hash_chain :: "'x ext_scheme \<Rightarrow> felt \<Rightarrow> nat \<Rightarrow> felt" where
  "hash_chain X x n = (hash1_wots X ^^ n) x"

text \<open>The digits pushed by \<open>n\<close> rounds of \<open>push(b & 3); b >>= 2\<close>, on a byte and on a \<open>usize\<close>.\<close>

primrec byte_digits :: "nat \<Rightarrow> u8 \<Rightarrow> nat list" where
  "byte_digits 0 b = []"
| "byte_digits (Suc n) b = unat (b AND 3) # byte_digits n (drop_bit 2 b)"

primrec cs_digits :: "nat \<Rightarrow> nat \<Rightarrow> nat list" where
  "cs_digits 0 cs = []"
| "cs_digits (Suc n) cs = (cs AND 3) # cs_digits n (drop_bit 2 cs)"

definition wots_digits :: "felt \<Rightarrow> u32 list" where
  "wots_digits msg_hash =
     (let digits = concat (map (byte_digits 4) msg_hash);
          checksum = sum_list (map (\<lambda>d. WOTS_W - 1 - d) digits)
      in map word_of_nat (take WOTS_CHAINS (digits @ cs_digits 5 checksum)))"

definition xmss_chain_step :: "'x ext_scheme \<Rightarrow> felt \<Rightarrow> felt \<Rightarrow> u32 \<Rightarrow> u32 \<Rightarrow> u32 \<Rightarrow> felt" where
  "xmss_chain_step X x pub_seed key_idx chain_idx step =
     (let adrs = pack_adrs TAG_XMSS_CHAIN_U64 key_idx chain_idx step 0
      in blake2s_parts X [pub_seed, adrs, x])"

definition xmss_hash_chain ::
  "'x ext_scheme \<Rightarrow> felt \<Rightarrow> felt \<Rightarrow> u32 \<Rightarrow> u32 \<Rightarrow> nat \<Rightarrow> nat \<Rightarrow> felt" where
  "xmss_hash_chain X x pub_seed key_idx chain_idx start steps =
     foldl (\<lambda>current step. xmss_chain_step X current pub_seed key_idx chain_idx (word_of_nat step))
       x [start..<start + steps]"

definition xmss_node_hash ::
  "'x ext_scheme \<Rightarrow> felt \<Rightarrow> u64 \<Rightarrow> u32 \<Rightarrow> u32 \<Rightarrow> u32 \<Rightarrow> felt \<Rightarrow> felt \<Rightarrow> felt" where
  "xmss_node_hash X pub_seed tag key_idx level node_idx left right =
     (let adrs = pack_adrs tag key_idx level node_idx 0
      in blake2s_parts X [pub_seed, adrs, left, right])"

definition xmss_ltree_node_hash ::
  "'x ext_scheme \<Rightarrow> felt \<Rightarrow> u32 \<Rightarrow> u32 \<Rightarrow> u32 \<Rightarrow> felt \<Rightarrow> felt \<Rightarrow> felt" where
  "xmss_ltree_node_hash X pub_seed key_idx level node_idx left right =
     xmss_node_hash X pub_seed TAG_XMSS_LTREE_U64 key_idx level node_idx left right"

definition xmss_tree_node_hash ::
  "'x ext_scheme \<Rightarrow> felt \<Rightarrow> u32 \<Rightarrow> u32 \<Rightarrow> felt \<Rightarrow> felt \<Rightarrow> felt" where
  "xmss_tree_node_hash X pub_seed level node_idx left right =
     xmss_node_hash X pub_seed TAG_XMSS_TREE_U64 0 level node_idx left right"

definition wots_pk :: "'x ext_scheme \<Rightarrow> felt \<Rightarrow> u32 \<Rightarrow> felt list" where
  "wots_pk X ask_j key_idx =
     (let pub_seed = derive_auth_pub_seed X ask_j
      in map (\<lambda>j. let sk = wots_sk_chain X ask_j key_idx (word_of_nat j)
                  in xmss_hash_chain X sk pub_seed key_idx (word_of_nat j) 0 (WOTS_W - 1))
           [0..<WOTS_CHAINS])"

text \<open>One pass over \<open>current.chunks(2)\<close>.\<close>

fun ltree_level :: "(u32 \<Rightarrow> felt \<Rightarrow> felt \<Rightarrow> felt) \<Rightarrow> u32 \<Rightarrow> felt list \<Rightarrow> felt list" where
  "ltree_level h node_idx [] = []"
| "ltree_level h node_idx [x] = [x]"
| "ltree_level h node_idx (x # y # zs) = h node_idx x y # ltree_level h (node_idx + 1) zs"

lemma length_ltree_level: "length (ltree_level h k xs) = (length xs + 1) div 2"
  by (induction h k xs rule: ltree_level.induct) simp_all

function wots_pk_to_leaf_loop :: "'x ext_scheme \<Rightarrow> felt \<Rightarrow> u32 \<Rightarrow> u32 \<Rightarrow> felt list \<Rightarrow> felt res" where
  "wots_pk_to_leaf_loop X pub_seed key_idx level current =
     (if 1 < length current
      then wots_pk_to_leaf_loop X pub_seed key_idx (level + 1)
             (ltree_level (xmss_ltree_node_hash X pub_seed key_idx level) 0 current)
      else case current of [] \<Rightarrow> Inl (Panic ''index out of bounds'') | x # _ \<Rightarrow> Inr x)"
  by pat_completeness auto
termination
  by (relation "measure (\<lambda>(X, ps, k, level, current). length current)")
     (auto simp: length_ltree_level)

declare wots_pk_to_leaf_loop.simps [simp del]

definition wots_pk_to_leaf :: "'x ext_scheme \<Rightarrow> felt \<Rightarrow> u32 \<Rightarrow> felt list \<Rightarrow> felt res" where
  "wots_pk_to_leaf X pub_seed key_idx pk = wots_pk_to_leaf_loop X pub_seed key_idx 0 pk"

text \<open>The in-place variant: the inner loop overwrites the front of the array it reads.\<close>

function inplace_level ::
  "(u32 \<Rightarrow> felt \<Rightarrow> felt \<Rightarrow> felt) \<Rightarrow> nat \<Rightarrow> felt list \<Rightarrow> nat \<Rightarrow> nat \<Rightarrow> u32 \<Rightarrow> felt list \<times> nat" where
  "inplace_level h len current wr rd node_idx =
     (if rd < len then
        (if rd + 1 = len
         then inplace_level h len (current[wr := current ! rd]) (wr + 1) (rd + 2) node_idx
         else inplace_level h len
                (current[wr := h node_idx (current ! rd) (current ! (rd + 1))])
                (wr + 1) (rd + 2) (node_idx + 1))
      else (current, wr))"
  by pat_completeness auto
termination
  by (relation "measure (\<lambda>(h, len, current, wr, rd, k). len - rd)") auto

declare inplace_level.simps [simp del]

lemma snd_inplace_level:
  "snd (inplace_level h len current wr rd k) = wr + (len - rd + 1) div 2"
proof (induction h len current wr rd k rule: inplace_level.induct)
  case (1 h len current wr rd k)
  then show ?case by (subst inplace_level.simps) auto
qed

function inplace_loop :: "'x ext_scheme \<Rightarrow> felt \<Rightarrow> u32 \<Rightarrow> u32 \<Rightarrow> nat \<Rightarrow> felt list \<Rightarrow> felt" where
  "inplace_loop X pub_seed key_idx level len current =
     (if 1 < len then
        let r = inplace_level (xmss_ltree_node_hash X pub_seed key_idx level) len current 0 0 0
        in inplace_loop X pub_seed key_idx (level + 1) (snd r) (fst r)
      else current ! 0)"
  by pat_completeness auto
termination
  by (relation "measure (\<lambda>(X, ps, k, level, len, current). len)") (auto simp: snd_inplace_level)

declare inplace_loop.simps [simp del]

definition auth_leaf_hash_with_pub_seed :: "'x ext_scheme \<Rightarrow> felt \<Rightarrow> felt \<Rightarrow> u32 \<Rightarrow> felt" where
  "auth_leaf_hash_with_pub_seed X ask_j pub_seed key_idx =
     (let current = map (\<lambda>chain_idx.
            let sk = wots_sk_chain X ask_j key_idx (word_of_nat chain_idx)
            in xmss_hash_chain X sk pub_seed key_idx (word_of_nat chain_idx) 0 (WOTS_W - 1))
            [0..<WOTS_CHAINS]
      in inplace_loop X pub_seed key_idx 0 WOTS_CHAINS current)"

definition auth_leaf_hash :: "'x ext_scheme \<Rightarrow> felt \<Rightarrow> u32 \<Rightarrow> felt" where
  "auth_leaf_hash X ask_j key_idx =
     auth_leaf_hash_with_pub_seed X ask_j (derive_auth_pub_seed X ask_j) key_idx"

definition wots_sign :: "'x ext_scheme \<Rightarrow> felt \<Rightarrow> u32 \<Rightarrow> felt \<Rightarrow> felt list \<times> felt list \<times> u32 list" where
  "wots_sign X ask_j key_idx msg_hash =
     (let pub_seed = derive_auth_pub_seed X ask_j;
          digits = wots_digits msg_hash;
          sig = map (\<lambda>j. let sk = wots_sk_chain X ask_j key_idx (word_of_nat j)
                         in xmss_hash_chain X sk pub_seed key_idx (word_of_nat j) 0 (unat (digits ! j)))
                  [0..<WOTS_CHAINS];
          pk = wots_pk X ask_j key_idx
      in (sig, pk, digits))"

definition recover_wots_pk :: "'x ext_scheme \<Rightarrow> felt \<Rightarrow> felt \<Rightarrow> u32 \<Rightarrow> felt list \<Rightarrow> felt list" where
  "recover_wots_pk X msg_hash pub_seed key_idx sig =
     (let digits = wots_digits msg_hash
      in map (\<lambda>(chain_idx, (sig_part, digit)).
                xmss_hash_chain X sig_part pub_seed key_idx (word_of_nat chain_idx)
                  (unat digit) ((WOTS_W - 1) - unat digit))
           (enumerate 0 (zip sig digits)))"

definition verify_wots_signature_against_leaf ::
  "'x ext_scheme \<Rightarrow> felt \<Rightarrow> felt \<Rightarrow> u32 \<Rightarrow> felt list \<Rightarrow> felt \<Rightarrow> unit res" where
  "verify_wots_signature_against_leaf X msg_hash pub_seed key_idx sig expected_leaf =
     attempt (guard (length sig = WOTS_CHAINS)
       (''bad WOTS signature length: got '' @ show_nat (length sig) @ '', expected '' @ show_nat WOTS_CHAINS))
     (\<lambda>_. let recovered_pk = recover_wots_pk X msg_hash pub_seed key_idx sig in
     attempt (wots_pk_to_leaf X pub_seed key_idx recovered_pk) (\<lambda>recovered_leaf.
     guard (recovered_leaf = expected_leaf) ''configuration signature verification failed''))"

section \<open>The authentication tree\<close>

text \<open>
  \<open>trap\<close> is the condition on the two environment variables under which a full rebuild
  panics. Addition on \<open>u32\<close> wraps as in a release build; the positions of a tree are far
  below the bound.
\<close>

definition assert_full_xmss_rebuild_allowed :: "bool \<Rightarrow> string \<Rightarrow> unit res" where
  "assert_full_xmss_rebuild_allowed trap op =
     (if trap then Inl (Panic (''unexpected full depth-'' @ show_nat AUTH_DEPTH @ '' XMSS rebuild via '' @ op))
      else Inr ())"

fun xmss_subtree_root :: "'x ext_scheme \<Rightarrow> bool \<Rightarrow> felt \<Rightarrow> felt \<Rightarrow> u32 \<Rightarrow> nat \<Rightarrow> felt res" where
  "xmss_subtree_root X trap ask_j pub_seed start height =
     attempt (if height = AUTH_DEPTH \<and> start = 0
              then assert_full_xmss_rebuild_allowed trap ''xmss_subtree_root'' else Inr ()) (\<lambda>_.
     if height = 0 then wots_pk_to_leaf X pub_seed start (wots_pk X ask_j start)
     else
       let split = push_bit (height - 1) 1 in
       attempt (xmss_subtree_root X trap ask_j pub_seed start (height - 1)) (\<lambda>left.
       attempt (xmss_subtree_root X trap ask_j pub_seed (start + split) (height - 1)) (\<lambda>right.
       Inr (xmss_tree_node_hash X pub_seed (word_of_nat (height - 1)) (drop_bit height start) left right))))"

declare xmss_subtree_root.simps [simp del]

fun xmss_root_and_path_inner ::
  "'x ext_scheme \<Rightarrow> bool \<Rightarrow> felt \<Rightarrow> felt \<Rightarrow> u32 \<Rightarrow> nat \<Rightarrow> u32 \<Rightarrow> (felt \<times> felt list option) res" where
  "xmss_root_and_path_inner X trap ask_j pub_seed start height target =
     attempt (if height = AUTH_DEPTH \<and> start = 0
              then assert_full_xmss_rebuild_allowed trap ''xmss_root_and_path_inner'' else Inr ()) (\<lambda>_.
     if height = 0 then
       attempt (wots_pk_to_leaf X pub_seed start (wots_pk X ask_j start)) (\<lambda>leaf.
       Inr (leaf, if start = target then Some [] else None))
     else
       let split = push_bit (height - 1) 1; mid = start + split in
       attempt (if target < mid
                then xmss_root_and_path_inner X trap ask_j pub_seed start (height - 1) target
                else attempt (xmss_subtree_root X trap ask_j pub_seed start (height - 1)) (\<lambda>l. Inr (l, None)))
         (\<lambda>(left, left_path).
       attempt (if mid \<le> target
                then xmss_root_and_path_inner X trap ask_j pub_seed mid (height - 1) target
                else attempt (xmss_subtree_root X trap ask_j pub_seed mid (height - 1)) (\<lambda>r. Inr (r, None)))
         (\<lambda>(right, right_path).
       let root = xmss_tree_node_hash X pub_seed (word_of_nat (height - 1)) (drop_bit height start) left right;
           path = (case left_path of Some path \<Rightarrow> Some (path @ [right])
                   | None \<Rightarrow> (case right_path of Some path \<Rightarrow> Some (path @ [left]) | None \<Rightarrow> None))
       in Inr (root, path))))"

declare xmss_root_and_path_inner.simps [simp del]

definition build_auth_tree :: "'x ext_scheme \<Rightarrow> bool \<Rightarrow> felt \<Rightarrow> felt res" where
  "build_auth_tree X trap ask_j =
     attempt (assert_full_xmss_rebuild_allowed trap ''build_auth_tree'') (\<lambda>_.
     xmss_subtree_root X trap ask_j (derive_auth_pub_seed X ask_j) 0 AUTH_DEPTH)"

definition auth_root_and_path :: "'x ext_scheme \<Rightarrow> bool \<Rightarrow> felt \<Rightarrow> nat \<Rightarrow> (felt \<times> felt list) res" where
  "auth_root_and_path X trap ask_j index =
     attempt (assert_full_xmss_rebuild_allowed trap ''auth_root_and_path'') (\<lambda>_.
     attempt (xmss_root_and_path_inner X trap ask_j (derive_auth_pub_seed X ask_j) 0 AUTH_DEPTH
                (word_of_nat index)) (\<lambda>(root, path).
     case path of None \<Rightarrow> Inl (Panic ''target leaf must be within auth tree'')
     | Some p \<Rightarrow> Inr (root, p)))"

definition auth_tree_path :: "'x ext_scheme \<Rightarrow> bool \<Rightarrow> felt \<Rightarrow> nat \<Rightarrow> felt list res" where
  "auth_tree_path X trap ask_j index =
     attempt (assert_full_xmss_rebuild_allowed trap ''auth_tree_path'') (\<lambda>_.
     attempt (xmss_root_and_path_inner X trap ask_j (derive_auth_pub_seed X ask_j) 0 AUTH_DEPTH
                (word_of_nat index)) (\<lambda>(root, path).
     case path of None \<Rightarrow> Inl (Panic ''target leaf must be within auth tree'')
     | Some p \<Rightarrow> Inr p))"

section \<open>Digits\<close>

lemma and3_nat: "(n :: nat) AND 3 = n mod 4"
  using take_bit_eq_mask [of 2 n] by (simp add: take_bit_eq_mod mask_eq_exp_minus_1)

lemma length_byte_digits [simp]: "length (byte_digits n b) = n"
  by (induction n arbitrary: b) simp_all

lemma length_cs_digits [simp]: "length (cs_digits n c) = n"
  by (induction n arbitrary: c) simp_all

lemma unat_and3: "unat ((b :: u8) AND 3) = unat b mod 4"
  by (simp add: unsigned_and_eq and3_nat)

lemma byte_digits_bound: "d \<in> set (byte_digits n b) \<Longrightarrow> d < 4"
  by (induction n arbitrary: b) (auto simp: unat_and3)

lemma cs_digits_bound: "d \<in> set (cs_digits n c) \<Longrightarrow> d < 4"
  by (induction n arbitrary: c) (auto simp: and3_nat)

lemma cs_digits_mono:
  assumes "list_all2 (\<le>) (cs_digits n c) (cs_digits n c')" "c < 4 ^ n" "c' < 4 ^ n"
  shows "c \<le> c'"
  using assms
proof (induction n arbitrary: c c')
  case 0
  then show ?case by simp
next
  case (Suc n)
  then have "c div 4 \<le> c' div 4" "c mod 4 \<le> c' mod 4"
    by (simp_all add: and3_nat drop_bit_eq_div less_mult_imp_div_less mult.commute)
  then show ?case using div_mult_mod_eq [of c 4] div_mult_mod_eq [of c' 4] by linarith
qed

lemma byte_digits_value: "unat b < 4 ^ n \<Longrightarrow> unat b = foldr (\<lambda>d v. 4 * v + d) (byte_digits n b) 0"
proof (induction n arbitrary: b)
  case 0
  then show ?case by simp
next
  case (Suc n)
  have d: "unat (drop_bit 2 b) = unat b div 4" unfolding unat_drop_bit_eq by (simp add: drop_bit_eq_div)
  then have "unat (drop_bit 2 b) = foldr (\<lambda>d v. 4 * v + d) (byte_digits n (drop_bit 2 b)) 0"
    using Suc.prems by (intro Suc.IH) (simp add: less_mult_imp_div_less mult.commute)
  then show ?case using d div_mult_mod_eq [of "unat b" 4] by (simp add: unat_and3 mult.commute)
qed

lemma byte_digits_inject: "byte_digits 4 b = byte_digits 4 b' \<longleftrightarrow> b = b'"
proof
  assume "byte_digits 4 b = byte_digits 4 b'"
  moreover have "unat b < 4 ^ 4" "unat b' < 4 ^ 4"
    using unsigned_less [of b] unsigned_less [of b'] by simp_all
  ultimately have "unat b = unat b'" by (metis byte_digits_value)
  then show "b = b'" by (simp add: word_unat_eq_iff)
qed simp

definition msg_digits :: "felt \<Rightarrow> nat list" where
  "msg_digits m = concat (map (byte_digits 4) m)"

definition wots_checksum :: "felt \<Rightarrow> nat" where
  "wots_checksum m = sum_list (map (\<lambda>d. 3 - d) (msg_digits m))"

lemma length_msg_digits [simp]: "length (msg_digits m) = 4 * length m"
  by (induction m) (simp_all add: msg_digits_def)

lemma msg_digits_bound: "d \<in> set (msg_digits m) \<Longrightarrow> d < 4"
  by (auto simp: msg_digits_def dest: byte_digits_bound)

lemma msg_digits_inject: "length m = length m' \<Longrightarrow> msg_digits m = msg_digits m' \<longleftrightarrow> m = m'"
proof -
  assume len: "length m = length m'"
  then have "list_all2 (\<lambda>x y. length x = length y) (map (byte_digits 4) m) (map (byte_digits 4) m')"
    by (simp add: list_all2_conv_all_nth)
  then have "msg_digits m = msg_digits m' \<longleftrightarrow> map (byte_digits 4) m = map (byte_digits 4) m'"
    unfolding msg_digits_def by (rule concat_equal_length_inject)
  also have "\<dots> \<longleftrightarrow> m = m'" by (rule inj_map_eq_map) (simp add: inj_def byte_digits_inject)
  finally show ?thesis .
qed

lemma wots_checksum_bound: "wots_checksum m \<le> 12 * length m"
proof -
  have "sum_list (map (\<lambda>d. 3 - d) ds) \<le> 3 * length ds" for ds :: "nat list"
    by (induction ds) simp_all
  from this [of "msg_digits m"] show ?thesis by (simp add: wots_checksum_def)
qed

lemma wots_digits_unat:
  assumes "length m = 32"
  shows "map unat (wots_digits m) = msg_digits m @ cs_digits 5 (wots_checksum m)"
proof -
  have "unat (word_of_nat d :: u32) = d" if "d < 4" for d
    using that by (simp add: unat_of_nat)
  then have "map (unat \<circ> (word_of_nat :: nat \<Rightarrow> u32)) ds = ds" if "\<forall>d \<in> set ds. d < 4" for ds
    using that by (induction ds) simp_all
  moreover have "\<forall>d \<in> set (msg_digits m @ cs_digits 5 (wots_checksum m)). d < 4"
    by (auto dest: msg_digits_bound cs_digits_bound)
  moreover have "take WOTS_CHAINS (msg_digits m @ cs_digits 5 (wots_checksum m))
                 = msg_digits m @ cs_digits 5 (wots_checksum m)"
    using assms by (simp add: WOTS_CHAINS_def)
  moreover have "map unat (wots_digits m) = map (unat \<circ> (word_of_nat :: nat \<Rightarrow> u32))
      (take WOTS_CHAINS (msg_digits m @ cs_digits 5 (wots_checksum m)))"
    by (simp add: wots_digits_def Let_def WOTS_W_def msg_digits_def wots_checksum_def)
  ultimately show ?thesis by presburger
qed

lemma wots_digits_length:
  assumes "length m = 32"
  shows "length (wots_digits m) = WOTS_CHAINS"
  using arg_cong [OF wots_digits_unat [OF assms], of length] assms by (simp add: WOTS_CHAINS_def)

lemma wots_digits_bound:
  assumes "length m = 32" "j < WOTS_CHAINS"
  shows "unat (wots_digits m ! j) < 4"
proof -
  have "unat (wots_digits m ! j) \<in> set (map unat (wots_digits m))"
    using assms wots_digits_length by simp
  then show ?thesis
    unfolding wots_digits_unat [OF assms(1)] by (auto dest: msg_digits_bound cs_digits_bound)
qed

lemma dominated_sum:
  assumes "list_all2 (\<le>) xs ys" "\<forall>y \<in> set ys. y < 4"
  shows "sum_list (map (\<lambda>d. 3 - d) ys) \<le> sum_list (map (\<lambda>d. 3 - d) (xs :: nat list))
         \<and> (sum_list (map (\<lambda>d. 3 - d) xs) = sum_list (map (\<lambda>d. 3 - d) ys) \<longrightarrow> xs = ys)"
  using assms by (induction rule: list_all2_induct) auto

text \<open>The checksum: no message's digits are all at most another message's.\<close>

lemma wots_digits_incomparable:
  assumes "length m = 32" "length m' = 32" "\<forall>j < WOTS_CHAINS. wots_digits m ! j \<le> wots_digits m' ! j"
  shows "m = m'"
proof -
  have "list_all2 (\<le>) (map unat (wots_digits m)) (map unat (wots_digits m'))"
    using assms by (simp add: list_all2_conv_all_nth wots_digits_length word_le_nat_alt)
  then have le: "list_all2 (\<le>) (msg_digits m) (msg_digits m')"
    "list_all2 (\<le>) (cs_digits 5 (wots_checksum m)) (cs_digits 5 (wots_checksum m'))"
    using assms by (simp_all add: wots_digits_unat list_all2_append)
  have "wots_checksum m \<le> wots_checksum m'"
    using wots_checksum_bound [of m] wots_checksum_bound [of m'] assms
    by (intro cs_digits_mono [OF le(2)]) simp_all
  moreover have "\<forall>y \<in> set (msg_digits m'). y < 4" by (auto dest: msg_digits_bound)
  note dominated_sum [OF le(1) this]
  ultimately have "msg_digits m = msg_digits m'" by (simp add: wots_checksum_def)
  then show ?thesis using assms by (simp add: msg_digits_inject)
qed

section \<open>Chains, signatures\<close>

lemma xmss_hash_chain_compose:
  "xmss_hash_chain X (xmss_hash_chain X x ps k c s a) ps k c (s + a) b = xmss_hash_chain X x ps k c s (a + b)"
proof -
  have "[s..<s + (a + b)] = [s..<s + a] @ [s + a..<s + a + b]"
    using upt_add_eq_append [of s "s + a" b] by (simp add: add.assoc)
  then show ?thesis by (simp add: xmss_hash_chain_def)
qed

lemma recover_wots_pk_nth:
  assumes "length m = 32" "length sig = WOTS_CHAINS"
  shows "length (recover_wots_pk X m ps k sig) = WOTS_CHAINS"
    and "j < WOTS_CHAINS \<Longrightarrow> recover_wots_pk X m ps k sig ! j
         = xmss_hash_chain X (sig ! j) ps k (word_of_nat j) (unat (wots_digits m ! j))
             (3 - unat (wots_digits m ! j))"
  using assms
  by (simp_all add: recover_wots_pk_def Let_def wots_digits_length nth_enumerate_eq WOTS_W_def)

lemma wots_sign_nth:
  shows "length (fst (wots_sign X ask_j k m)) = WOTS_CHAINS"
    and "j < WOTS_CHAINS \<Longrightarrow> fst (wots_sign X ask_j k m) ! j
         = xmss_hash_chain X (wots_sk_chain X ask_j k (word_of_nat j)) (derive_auth_pub_seed X ask_j) k
             (word_of_nat j) 0 (unat (wots_digits m ! j))"
  by (simp_all add: wots_sign_def Let_def)

lemma recover_wots_sign:
  assumes "length m = 32"
  shows "recover_wots_pk X m (derive_auth_pub_seed X ask_j) k (fst (wots_sign X ask_j k m)) = wots_pk X ask_j k"
proof (rule nth_equalityI)
  let ?r = "recover_wots_pk X m (derive_auth_pub_seed X ask_j) k (fst (wots_sign X ask_j k m))"
  note rec = recover_wots_pk_nth [OF assms wots_sign_nth(1) [of X ask_j k m]]
  show "length ?r = length (wots_pk X ask_j k)"
    by (simp add: rec wots_pk_def Let_def)
  fix j
  assume "j < length ?r"
  then have j: "j < WOTS_CHAINS" by (simp add: rec)
  then have "unat (wots_digits m ! j) + (3 - unat (wots_digits m ! j)) = 3"
    using wots_digits_bound [OF assms j] by simp
  moreover note xmss_hash_chain_compose [of X _ _ k _ 0 "unat (wots_digits m ! j)" "3 - unat (wots_digits m ! j)"]
  ultimately show "?r ! j = wots_pk X ask_j k ! j"
    using j by (simp add: rec wots_sign_nth wots_pk_def Let_def WOTS_W_def)
qed

section \<open>The two L-tree implementations agree\<close>

lemma inplace_level_correct:
  assumes "wr \<le> rd" "len \<le> length current"
  shows "let (current', wr') = inplace_level h len current wr rd k
         in length current' = length current
            \<and> take wr' current' = take wr current @ ltree_level h k (drop rd (take len current))"
  using assms
proof (induction h len current wr rd k rule: inplace_level.induct)
  case (1 h len current wr rd k)
  consider "len \<le> rd" | "rd + 1 = len" | "rd + 1 < len" by linarith
  then show ?case
  proof cases
    case 1
    then show ?thesis by (subst inplace_level.simps) simp
  next
    case 2
    with "1.prems" have "drop rd (take len current) = [current ! rd]"
      by (simp add: take_Suc_conv_app_nth flip: 2)
    with 2 "1.prems" show ?thesis
      by (simp add: inplace_level.simps [of h len current] inplace_level.simps [of h len _ "Suc wr" "Suc len"]
          take_Suc_conv_app_nth)
  next
    case 3
    let ?c = "current[wr := h k (current ! rd) (current ! (rd + 1))]"
    have "drop rd (take len current) = current ! rd # current ! (rd + 1) # drop (rd + 2) (take len current)"
      using 3 "1.prems" by (simp add: Cons_nth_drop_Suc [symmetric] del: drop_take)
    moreover have "drop (rd + 2) (take len ?c) = drop (rd + 2) (take len current)"
      using "1.prems" by (simp add: take_update_swap)
    moreover have "take (wr + 1) ?c = take wr current @ [h k (current ! rd) (current ! (rd + 1))]"
      using 3 "1.prems" by (simp add: take_Suc_conv_app_nth)
    moreover have "let (c', w') = inplace_level h len ?c (wr + 1) (rd + 2) (k + 1)
         in length c' = length ?c
            \<and> take w' c' = take (wr + 1) ?c @ ltree_level h (k + 1) (drop (rd + 2) (take len ?c))"
      using 3 "1.prems" by (intro "1.IH"(2)) simp_all
    ultimately show ?thesis
      using 3 by (simp add: inplace_level.simps [of h len current] case_prod_beta Let_def)
  qed
qed

lemma inplace_loop_leaf:
  assumes "0 < len" "len \<le> length current"
  shows "wots_pk_to_leaf_loop X ps k level (take len current) = Inr (inplace_loop X ps k level len current)"
  using assms
proof (induction X ps k level len current rule: inplace_loop.induct)
  case (1 X ps k level len current)
  show ?case
  proof (cases "1 < len")
    case True
    let ?r = "inplace_level (xmss_ltree_node_hash X ps k level) len current 0 0 0"
    have "take (snd ?r) (fst ?r) = ltree_level (xmss_ltree_node_hash X ps k level) 0 (take len current)"
      "length (fst ?r) = length current"
      using inplace_level_correct [of 0 0 len current "xmss_ltree_node_hash X ps k level" 0] "1.prems"
      by (simp_all add: case_prod_beta Let_def)
    moreover have "wots_pk_to_leaf_loop X ps k (level + 1) (take (snd ?r) (fst ?r))
        = Inr (inplace_loop X ps k (level + 1) (snd ?r) (fst ?r))"
      using True "1.prems" calculation
      by (intro "1.IH") (simp_all add: snd_inplace_level)
    ultimately show ?thesis
      using True "1.prems"
      by (simp add: wots_pk_to_leaf_loop.simps [of X ps k level] inplace_loop.simps [of X ps k level] Let_def)
  next
    case False
    with "1.prems" have "len = 1" by simp
    with "1.prems" show ?thesis
      by (cases current) (simp_all add: wots_pk_to_leaf_loop.simps [of X ps k level] inplace_loop.simps [of X ps k level])
  qed
qed

lemma auth_leaf_hash_leaf:
  "wots_pk_to_leaf X (derive_auth_pub_seed X ask_j) k (wots_pk X ask_j k) = Inr (auth_leaf_hash X ask_j k)"
proof -
  have len: "length (wots_pk X ask_j k) = WOTS_CHAINS" by (simp add: wots_pk_def Let_def)
  have "auth_leaf_hash X ask_j k
        = inplace_loop X (derive_auth_pub_seed X ask_j) k 0 WOTS_CHAINS (wots_pk X ask_j k)"
    by (simp only: auth_leaf_hash_def auth_leaf_hash_with_pub_seed_def wots_pk_def Let_def)
  moreover have "0 < WOTS_CHAINS" by (simp add: WOTS_CHAINS_def)
  note inplace_loop_leaf [OF this, of "wots_pk X ask_j k"]
  ultimately show ?thesis by (simp add: wots_pk_to_leaf_def len)
qed

section \<open>The tree and its paths\<close>

text \<open>\<open>xmss_node h i\<close> is node \<open>i\<close> of height \<open>h\<close> of the tree over the key leaves.\<close>

primrec xmss_node :: "'x ext_scheme \<Rightarrow> felt \<Rightarrow> nat \<Rightarrow> nat \<Rightarrow> felt" where
  "xmss_node X ask_j 0 i = auth_leaf_hash X ask_j (word_of_nat i)"
| "xmss_node X ask_j (Suc h) i =
     xmss_tree_node_hash X (derive_auth_pub_seed X ask_j) (word_of_nat h) (word_of_nat i)
       (xmss_node X ask_j h (2 * i)) (xmss_node X ask_j h (2 * i + 1))"

text \<open>Climbing a path from a leaf, as a verifier does.\<close>

fun xmss_climb :: "'x ext_scheme \<Rightarrow> felt \<Rightarrow> nat \<Rightarrow> nat \<Rightarrow> felt \<Rightarrow> felt list \<Rightarrow> felt" where
  "xmss_climb X pub_seed level idx current [] = current"
| "xmss_climb X pub_seed level idx current (sib # path) =
     xmss_climb X pub_seed (level + 1) (idx div 2)
       (if idx mod 2 = 0
        then xmss_tree_node_hash X pub_seed (word_of_nat level) (word_of_nat (idx div 2)) current sib
        else xmss_tree_node_hash X pub_seed (word_of_nat level) (word_of_nat (idx div 2)) sib current)
       path"

lemma xmss_climb_append:
  "xmss_climb X ps level idx c (p @ q)
   = xmss_climb X ps (level + length p) (idx div 2 ^ length p) (xmss_climb X ps level idx c p) q"
  by (induction p arbitrary: level idx c) (simp_all add: div_mult2_eq)

text \<open>The authentication path of leaf \<open>t\<close> below height \<open>h\<close>: the siblings of its ancestors.\<close>

definition sibling :: "nat \<Rightarrow> nat" where
  "sibling i = (if even i then i + 1 else i - 1)"

definition xmss_path :: "'x ext_scheme \<Rightarrow> felt \<Rightarrow> nat \<Rightarrow> nat \<Rightarrow> felt list" where
  "xmss_path X ask_j h t = map (\<lambda>l. xmss_node X ask_j l (sibling (t div 2 ^ l))) [0..<h]"

lemma length_xmss_path [simp]: "length (xmss_path X ask_j h t) = h"
  by (simp add: xmss_path_def)

lemma xmss_path_Suc:
  "xmss_path X ask_j (Suc h) t = xmss_path X ask_j h t @ [xmss_node X ask_j h (sibling (t div 2 ^ h))]"
  by (simp add: xmss_path_def)

text \<open>Aligned positions as 32-bit words.\<close>

lemma aligned_words:
  assumes "(i + 1) * 2 ^ Suc h \<le> 2 ^ 32"
  shows "(word_of_nat (i * 2 ^ Suc h) :: u32) = word_of_nat (2 * i * 2 ^ h)"
    and "(word_of_nat (i * 2 ^ Suc h) :: u32) + push_bit h 1 = word_of_nat ((2 * i + 1) * 2 ^ h)"
    and "drop_bit (Suc h) (word_of_nat (i * 2 ^ Suc h) :: u32) = word_of_nat i"
proof -
  show "(word_of_nat (i * 2 ^ Suc h) :: u32) = word_of_nat (2 * i * 2 ^ h)"
    by (simp add: ac_simps)
  show "(word_of_nat (i * 2 ^ Suc h) :: u32) + push_bit h 1 = word_of_nat ((2 * i + 1) * 2 ^ h)"
    by (simp add: push_bit_eq_mult algebra_simps)
  have lt: "i * 2 ^ Suc h < 2 ^ 32"
  proof -
    have "i * 2 ^ Suc h < (i + 1) * 2 ^ Suc h" by simp
    with assms show ?thesis by linarith
  qed
  then have u1: "unat (word_of_nat (i * 2 ^ Suc h) :: u32) = i * 2 ^ Suc h"
    by (intro unat_of_nat_small) simp
  have u2: "unat (word_of_nat i :: u32) = i"
  proof -
    have "i \<le> i * 2 ^ Suc h" by simp
    then have "i < 2 ^ 32" using lt by linarith
    then show ?thesis by (intro unat_of_nat_small) simp
  qed
  show "drop_bit (Suc h) (word_of_nat (i * 2 ^ Suc h) :: u32) = word_of_nat i"
    unfolding word_unat_eq_iff unat_drop_bit_eq u1 u2 by (simp add: drop_bit_eq_div)
qed

lemma aligned_children:
  assumes "(i + 1) * 2 ^ Suc h \<le> 2 ^ 32"
  shows "(2 * i + 1) * 2 ^ h \<le> (2 :: nat) ^ 32" "(2 * i + 1 + 1) * 2 ^ h \<le> (2 :: nat) ^ 32"
  using assms by (simp_all add: algebra_simps)

lemma xmss_subtree_root_node:
  assumes "(i + 1) * 2 ^ h \<le> 2 ^ 32"
  shows "xmss_subtree_root X False ask_j (derive_auth_pub_seed X ask_j) (word_of_nat (i * 2 ^ h)) h
         = Inr (xmss_node X ask_j h i)"
  using assms
proof (induction h arbitrary: i)
  case 0
  then show ?case
    by (subst xmss_subtree_root.simps) (simp add: auth_leaf_hash_leaf AUTH_DEPTH_def)
next
  case (Suc h)
  note w = aligned_words [OF Suc.prems]
  have l: "xmss_subtree_root X False ask_j (derive_auth_pub_seed X ask_j) (word_of_nat (i * 2 ^ Suc h)) h
      = Inr (xmss_node X ask_j h (2 * i))"
    using Suc.IH [of "2 * i"] aligned_children [OF Suc.prems] by (simp only: w(1))
  have r: "xmss_subtree_root X False ask_j (derive_auth_pub_seed X ask_j)
        (word_of_nat (i * 2 ^ Suc h) + push_bit h 1) h = Inr (xmss_node X ask_j h (2 * i + 1))"
    using Suc.IH [of "2 * i + 1"] aligned_children [OF Suc.prems] by (simp only: w(2))
  show ?case
    by (subst xmss_subtree_root.simps)
       (simp only: assert_full_xmss_rebuild_allowed_def Let_def diff_Suc_1 l r w(3) attempt_simps
          nat.simps if_False if_cancel xmss_node.simps)
qed

lemma allowed_without_trap: "assert_full_xmss_rebuild_allowed False op = Inr ()"
  by (simp add: assert_full_xmss_rebuild_allowed_def)

lemma xmss_root_and_path_step:
  "xmss_root_and_path_inner X False ask_j ps start (Suc h) target =
     (let mid = start + push_bit h 1;
          top = xmss_tree_node_hash X ps (word_of_nat h) (drop_bit (Suc h) start)
      in if target < mid
         then attempt (xmss_root_and_path_inner X False ask_j ps start h target) (\<lambda>(left, path).
              attempt (xmss_subtree_root X False ask_j ps mid h) (\<lambda>right.
              Inr (top left right, map_option (\<lambda>p. p @ [right]) path)))
         else attempt (xmss_subtree_root X False ask_j ps start h) (\<lambda>left.
              attempt (xmss_root_and_path_inner X False ask_j ps mid h target) (\<lambda>(right, path).
              Inr (top left right, map_option (\<lambda>p. p @ [left]) path))))"
  unfolding xmss_root_and_path_inner.simps [of X False ask_j ps start "Suc h"] allowed_without_trap
    if_cancel attempt_simps diff_Suc_1 Let_def
  by (cases "target < start + push_bit h 1")
     (auto simp: not_le [symmetric] attempt_def split: sum.split option.split)

lemma xmss_root_and_path_correct:
  assumes "(i + 1) * 2 ^ h \<le> 2 ^ 32" "i * 2 ^ h \<le> t" "t < (i + 1) * 2 ^ h"
  shows "xmss_root_and_path_inner X False ask_j (derive_auth_pub_seed X ask_j)
           (word_of_nat (i * 2 ^ h)) h (word_of_nat t)
         = Inr (xmss_node X ask_j h i, Some (xmss_path X ask_j h t))"
  using assms
proof (induction h arbitrary: i)
  case 0
  then have "t = i" by simp
  then show ?case
    by (subst xmss_root_and_path_inner.simps) (simp add: auth_leaf_hash_leaf AUTH_DEPTH_def xmss_path_def)
next
  case (Suc h)
  let ?ps = "derive_auth_pub_seed X ask_j"
  define s m where "s = i * 2 ^ Suc h" and "m = (2 * i + 1) * 2 ^ h"
  note w = aligned_words [OF Suc.prems(1), folded s_def m_def]
    and bounds = aligned_children [OF Suc.prems(1)]
  have range: "s \<le> t" "t < (2 * i + 2) * 2 ^ h" "s = 2 * i * 2 ^ h"
    using Suc.prems by (simp_all add: s_def)
  have t: "(word_of_nat t :: u32) < word_of_nat m \<longleftrightarrow> t < m"
  proof -
    have "m < (2 * i + 1 + 1) * 2 ^ h" by (simp add: m_def)
    then have m: "m < 2 ^ 32" using bounds(2) by linarith
    have "t < 2 ^ 32" using Suc.prems by linarith
    then show ?thesis using m by (simp add: word_less_nat_alt unat_of_nat_small)
  qed
  have l: "xmss_subtree_root X False ask_j ?ps (word_of_nat s) h = Inr (xmss_node X ask_j h (2 * i))"
    unfolding range(3) by (rule xmss_subtree_root_node [OF bounds(1)])
  have r: "xmss_subtree_root X False ask_j ?ps (word_of_nat m) h = Inr (xmss_node X ask_j h (2 * i + 1))"
    unfolding m_def by (rule xmss_subtree_root_node [OF bounds(2)])
  show ?case
  proof (cases "t < m")
    case True
    have idx: "t div 2 ^ h = 2 * i"
      using True range by (intro div_nat_eqI) (simp_all add: algebra_simps m_def)
    have "xmss_root_and_path_inner X False ask_j ?ps (word_of_nat s) h (word_of_nat t)
          = Inr (xmss_node X ask_j h (2 * i), Some (xmss_path X ask_j h t))"
      using Suc.IH [OF bounds(1)] True range by (simp add: m_def)
    then show ?thesis
      using True r idx unfolding s_def [symmetric]
      by (simp add: xmss_root_and_path_step Let_def w(2,3) t xmss_path_Suc sibling_def del: push_bit_of_1)
  next
    case False
    have idx: "t div 2 ^ h = 2 * i + 1"
      using False range by (intro div_nat_eqI) (simp_all add: algebra_simps m_def)
    have "xmss_root_and_path_inner X False ask_j ?ps (word_of_nat m) h (word_of_nat t)
          = Inr (xmss_node X ask_j h (2 * i + 1), Some (xmss_path X ask_j h t))"
      using Suc.IH [OF bounds(2)] False range by (simp add: m_def not_less)
    then show ?thesis
      using False l idx unfolding s_def [symmetric]
      by (simp add: xmss_root_and_path_step Let_def w(2,3) t xmss_path_Suc sibling_def del: push_bit_of_1)
  qed
qed

text \<open>The siblings take the leaf to the node above it.\<close>

lemma xmss_climb_path:
  "xmss_climb X (derive_auth_pub_seed X ask_j) 0 t (auth_leaf_hash X ask_j (word_of_nat t)) (xmss_path X ask_j h t)
   = xmss_node X ask_j h (t div 2 ^ h)"
proof (induction h)
  case 0
  then show ?case by (simp add: xmss_path_def)
next
  case (Suc h)
  define i where "i = t div 2 ^ h"
  have up: "t div 2 ^ Suc h = i div 2" by (simp only: i_def power_Suc2 div_mult2_eq)
  have step: "xmss_climb X (derive_auth_pub_seed X ask_j) 0 t (auth_leaf_hash X ask_j (word_of_nat t))
      (xmss_path X ask_j (Suc h) t)
    = xmss_climb X (derive_auth_pub_seed X ask_j) h i (xmss_node X ask_j h i)
        [xmss_node X ask_j h (sibling i)]"
    using Suc.IH by (simp add: xmss_path_Suc xmss_climb_append i_def)
  consider q where "i = 2 * q" | q where "i = 2 * q + 1" by (meson evenE oddE)
  then show ?case unfolding step up by cases (simp_all add: sibling_def)
qed

lemma path_within_tree:
  assumes "index < AUTH_TREE_SIZE"
  shows "xmss_root_and_path_inner X False ask_j (derive_auth_pub_seed X ask_j) 0 AUTH_DEPTH
           (word_of_nat index) = Inr (xmss_node X ask_j AUTH_DEPTH 0, Some (xmss_path X ask_j AUTH_DEPTH index))"
  using xmss_root_and_path_correct [of 0 AUTH_DEPTH index X ask_j] assms
  by (simp add: AUTH_TREE_SIZE_def AUTH_DEPTH_def)

lemma climb_within_tree:
  assumes "index < AUTH_TREE_SIZE"
  shows "xmss_climb X (derive_auth_pub_seed X ask_j) 0 index (auth_leaf_hash X ask_j (word_of_nat index))
           (xmss_path X ask_j AUTH_DEPTH index) = xmss_node X ask_j AUTH_DEPTH 0"
  using assms by (simp add: xmss_climb_path AUTH_TREE_SIZE_def)

lemma build_auth_tree_node: "build_auth_tree X False ask_j = Inr (xmss_node X ask_j AUTH_DEPTH 0)"
  using xmss_subtree_root_node [of 0 AUTH_DEPTH X ask_j]
  by (simp add: build_auth_tree_def allowed_without_trap AUTH_DEPTH_def)

lemma auth_root_and_path_eq:
  assumes "index < AUTH_TREE_SIZE"
  shows "auth_root_and_path X False ask_j index
         = Inr (xmss_node X ask_j AUTH_DEPTH 0, xmss_path X ask_j AUTH_DEPTH index)"
  by (simp add: auth_root_and_path_def allowed_without_trap path_within_tree [OF assms])

section \<open>Properties\<close>

text \<open>
  C34: WOTS digits are well formed and the checksum does its work: a 32-byte message gives 133
  digits below the chain parameter, and of two different messages each has a digit that is
  strictly greater than the other's, so that knowing the chain values that sign one message
  never gives all chain values of another by hashing forward.
\<close>

theorem wots_checksum_blocks_forward_hashing:
  assumes "is_felt m" "is_felt m'" "m \<noteq> m'"
  shows "length (wots_digits m) = WOTS_CHAINS
         \<and> (\<forall>j < WOTS_CHAINS. unat (wots_digits m ! j) < WOTS_W)
         \<and> (\<exists>j < WOTS_CHAINS. wots_digits m' ! j < wots_digits m ! j)"
proof (intro conjI allI impI)
  show "length (wots_digits m) = WOTS_CHAINS"
    using assms by (simp add: wots_digits_length is_felt_def)
  show "unat (wots_digits m ! j) < WOTS_W" if "j < WOTS_CHAINS" for j
    using assms that by (simp add: wots_digits_bound is_felt_def WOTS_W_def)
  show "\<exists>j < WOTS_CHAINS. wots_digits m' ! j < wots_digits m ! j"
    using assms wots_digits_incomparable [of m m'] by (meson is_felt_def not_less)
qed

theorem wots_checksum_blocks_forward_hashing_witness:
  "\<exists>j < WOTS_CHAINS. wots_digits (type_tag 1) ! j < wots_digits ZERO ! j"
  using wots_checksum_blocks_forward_hashing [of ZERO "type_tag 1"]
  by (simp add: is_felt_def type_tag_def ZERO_def numeral_eq_Suc)

text \<open>
  C35: signing and verification fit together: a signature made with a key verifies, for every
  32-byte message and key index, against the leaf that \<open>auth_leaf_hash\<close> computes in place for
  that key index.
\<close>

theorem wots_sign_verifies:
  assumes "is_felt msg_hash"
  shows "verify_wots_signature_against_leaf X msg_hash (derive_auth_pub_seed X ask_j) key_idx
           (fst (wots_sign X ask_j key_idx msg_hash)) (auth_leaf_hash X ask_j key_idx) = Inr ()"
  using assms recover_wots_sign [of msg_hash X ask_j key_idx]
  by (simp add: verify_wots_signature_against_leaf_def wots_sign_nth(1) auth_leaf_hash_leaf is_felt_def)

theorem wots_sign_verifies_witness:
  "verify_wots_signature_against_leaf sample_ext ZERO (derive_auth_pub_seed sample_ext ZERO) 3
     (fst (wots_sign sample_ext ZERO 3 ZERO)) (auth_leaf_hash sample_ext ZERO 3) = Inr ()"
  using wots_sign_verifies [of ZERO] by simp

text \<open>
  The in-place L-tree of \<open>auth_leaf_hash_with_pub_seed\<close>, which overwrites the array it
  reads, computes the same leaf as the allocating \<open>wots_pk_to_leaf\<close> on the public key.
\<close>

theorem inplace_ltree_equals_reference:
  "wots_pk_to_leaf X (derive_auth_pub_seed X ask_j) key_idx (wots_pk X ask_j key_idx)
   = Inr (auth_leaf_hash_with_pub_seed X ask_j (derive_auth_pub_seed X ask_j) key_idx)"
  using auth_leaf_hash_leaf by (simp add: auth_leaf_hash_def)

text \<open>
  The root and path of a key index inside the tree: the root is the one \<open>build_auth_tree\<close>
  computes, and the path has one sibling per level and takes the key's leaf to that root.
\<close>

theorem auth_path_authenticates_leaf:
  assumes "index < AUTH_TREE_SIZE"
  shows "\<exists>root path. auth_root_and_path X False ask_j index = Inr (root, path)
           \<and> auth_tree_path X False ask_j index = Inr path
           \<and> build_auth_tree X False ask_j = Inr root
           \<and> length path = AUTH_DEPTH
           \<and> xmss_climb X (derive_auth_pub_seed X ask_j) 0 index
                (auth_leaf_hash X ask_j (word_of_nat index)) path = root"
  by (simp add: auth_root_and_path_eq [OF assms] auth_tree_path_def allowed_without_trap
      path_within_tree [OF assms] climb_within_tree [OF assms] build_auth_tree_node)

theorem auth_path_authenticates_leaf_witness:
  "\<exists>root path. auth_root_and_path sample_ext False ZERO 65535 = Inr (root, path)
     \<and> build_auth_tree sample_ext False ZERO = Inr root"
  using auth_path_authenticates_leaf [of 65535 sample_ext ZERO]
  by (auto simp: AUTH_TREE_SIZE_def AUTH_DEPTH_def)

end
