(* ===== verification/Notes.thy ===== *)
theory Notes
  imports Hashing
begin

text \<open>
  Encrypted notes (\<open>core/src/lib.rs\<close>): the outgoing-recovery plaintext and its byte layout,
  sealing and opening of notes, detection, and the hash that binds a note to a proof.
\<close>

section \<open>Outgoing recovery\<close>

datatype outgoing_note_role =
  ShieldOutput | ProducerFee | TransferRecipient | TransferChange | UnshieldChange

primrec role_as_u8 :: "outgoing_note_role \<Rightarrow> u8" where
  "role_as_u8 ShieldOutput = 1"
| "role_as_u8 ProducerFee = 2"
| "role_as_u8 TransferRecipient = 3"
| "role_as_u8 TransferChange = 4"
| "role_as_u8 UnshieldChange = 5"

definition role_from_u8 :: "u8 \<Rightarrow> outgoing_note_role option" where
  "role_from_u8 b =
     (if b = 1 then Some ShieldOutput
      else if b = 2 then Some ProducerFee
      else if b = 3 then Some TransferRecipient
      else if b = 4 then Some TransferChange
      else if b = 5 then Some UnshieldChange
      else None)"

primrec role_as_str :: "outgoing_note_role \<Rightarrow> string" where
  "role_as_str ShieldOutput = ''shield_output''"
| "role_as_str ProducerFee = ''producer_fee''"
| "role_as_str TransferRecipient = ''transfer_recipient''"
| "role_as_str TransferChange = ''transfer_change''"
| "role_as_str UnshieldChange = ''unshield_change''"

record outgoing_recovery_plaintext =
  or_role :: outgoing_note_role
  or_value :: u64
  or_rseed :: felt
  or_d_j :: felt
  or_auth_root :: felt
  or_auth_pub_seed :: felt
  or_nk_tag :: felt

definition or_commitment :: "'x ext_scheme \<Rightarrow> outgoing_recovery_plaintext \<Rightarrow> felt" where
  "or_commitment X p =
     (let rcm = derive_rcm X (or_rseed p);
          owner = owner_tag X (or_auth_root p) (or_auth_pub_seed p) (or_nk_tag p)
      in commit X (or_d_j p) (or_value p) rcm owner)"

definition or_encode :: "outgoing_recovery_plaintext \<Rightarrow> bytes" where
  "or_encode p =
     [role_as_u8 (or_role p)] @ to_le 8 (or_value p) @ or_rseed p @ or_d_j p @ or_auth_root p
       @ or_auth_pub_seed p @ or_nk_tag p"

definition or_decode :: "bytes \<Rightarrow> outgoing_recovery_plaintext option" where
  "or_decode bs =
     (if length bs \<noteq> OUTGOING_RECOVERY_PLAINTEXT_BYTES then None
      else case role_from_u8 (bs ! 0) of None \<Rightarrow> None
      | Some role \<Rightarrow>
          Some \<lparr>or_role = role, or_value = from_le (slice 1 9 bs), or_rseed = slice 9 41 bs,
                or_d_j = slice 41 73 bs, or_auth_root = slice 73 105 bs,
                or_auth_pub_seed = slice 105 137 bs, or_nk_tag = slice 137 169 bs\<rparr>)"

definition empty_outgoing_recovery_ct :: bytes where
  "empty_outgoing_recovery_ct = replicate OUTGOING_RECOVERY_CT_BYTES 0"

definition derive_outgoing_recovery_key :: "'x ext_scheme \<Rightarrow> felt \<Rightarrow> felt \<Rightarrow> felt" where
  "derive_outgoing_recovery_key X outgoing_seed cm =
     blake2s_parts_personalized X ''ovkKSP__'' [outgoing_seed, cm]"

definition derive_outgoing_recovery_nonce :: "'x ext_scheme \<Rightarrow> felt \<Rightarrow> felt \<Rightarrow> bytes" where
  "derive_outgoing_recovery_nonce X key cm =
     take NOTE_AEAD_NONCE_BYTES (blake2s_parts_personalized X ''ovkNSP__'' [key, cm])"

definition derive_note_aead_nonce :: "'x ext_scheme \<Rightarrow> felt \<Rightarrow> bytes \<Rightarrow> bytes" where
  "derive_note_aead_nonce X aead_key plaintext =
     take NOTE_AEAD_NONCE_BYTES (blake2s X ''mnonSP__'' (aead_key @ plaintext))"

definition encrypt_outgoing_recovery ::
  "'x ext_scheme \<Rightarrow> felt \<Rightarrow> felt \<Rightarrow> outgoing_recovery_plaintext \<Rightarrow> bytes res" where
  "encrypt_outgoing_recovery X outgoing_seed cm plaintext =
     (let key = derive_outgoing_recovery_key X outgoing_seed cm;
          nonce = derive_outgoing_recovery_nonce X key cm
      in unwrap (aead_encrypt X key nonce (or_encode plaintext)))"

definition decrypt_outgoing_recovery ::
  "'x ext_scheme \<Rightarrow> felt \<Rightarrow> felt \<Rightarrow> bytes \<Rightarrow> outgoing_recovery_plaintext option" where
  "decrypt_outgoing_recovery X outgoing_seed cm outgoing_ct =
     (if length outgoing_ct \<noteq> OUTGOING_RECOVERY_CT_BYTES then None
      else
        let key = derive_outgoing_recovery_key X outgoing_seed cm;
            nonce = derive_outgoing_recovery_nonce X key cm
        in case aead_decrypt X key nonce outgoing_ct of None \<Rightarrow> None
           | Some plaintext \<Rightarrow> or_decode plaintext)"

section \<open>Encrypted notes\<close>

record encrypted_note =
  en_ct_d :: bytes
  en_tag :: u16
  en_ct_v :: bytes
  en_nonce :: bytes
  en_encrypted_data :: bytes
  en_outgoing_ct :: bytes

definition bad_length :: "string \<Rightarrow> nat \<Rightarrow> nat \<Rightarrow> string" where
  "bad_length field got expected =
     ''bad '' @ field @ '' length: got '' @ show_nat got @ '' bytes, expected '' @ show_nat expected"

definition note_validate :: "encrypted_note \<Rightarrow> unit res" where
  "note_validate n =
     attempt (guard (length (en_ct_d n) = ML_KEM768_CIPHERTEXT_BYTES)
                (bad_length ''ct_d'' (length (en_ct_d n)) ML_KEM768_CIPHERTEXT_BYTES)) (\<lambda>_.
     attempt (guard (length (en_ct_v n) = ML_KEM768_CIPHERTEXT_BYTES)
                (bad_length ''ct_v'' (length (en_ct_v n)) ML_KEM768_CIPHERTEXT_BYTES)) (\<lambda>_.
     attempt (guard (length (en_nonce n) = NOTE_AEAD_NONCE_BYTES)
                (bad_length ''nonce'' (length (en_nonce n)) NOTE_AEAD_NONCE_BYTES)) (\<lambda>_.
     attempt (guard (length (en_encrypted_data n) = ENCRYPTED_NOTE_BYTES)
                (bad_length ''encrypted_data'' (length (en_encrypted_data n)) ENCRYPTED_NOTE_BYTES)) (\<lambda>_.
     attempt (guard (length (en_outgoing_ct n) = OUTGOING_RECOVERY_CT_BYTES)
                (bad_length ''outgoing_ct'' (length (en_outgoing_ct n)) OUTGOING_RECOVERY_CT_BYTES)) (\<lambda>_.
     guard (unat (en_tag n) < 2 ^ DETECT_K)
       (''bad detection tag: got '' @ show_word (en_tag n) @ '', expected low '' @ show_nat DETECT_K
        @ '' bits only''))))))"

definition memo_ct_hash :: "'x ext_scheme \<Rightarrow> encrypted_note \<Rightarrow> felt" where
  "memo_ct_hash X enc =
     blake2s X ''memoSP__''
       (en_ct_d enc @ to_le 2 (en_tag enc) @ en_ct_v enc @ en_nonce enc @ en_encrypted_data enc
        @ en_outgoing_ct enc)"

text \<open>\<open>u16::from_le_bytes([h[0], h[1]]) & ((1 << DETECT_K) - 1)\<close>\<close>

definition detection_tag :: "'x ext_scheme \<Rightarrow> bytes \<Rightarrow> u16" where
  "detection_tag X ss = from_le (take 2 (hash X ss)) AND mask DETECT_K"

definition pad_memo :: "bytes option \<Rightarrow> bytes" where
  "pad_memo user_memo =
     (case user_memo of
        Some m \<Rightarrow> (let len = min (length m) MEMO_SIZE in take len m @ replicate (MEMO_SIZE - len) 0)
      | None \<Rightarrow> 0xF6 # replicate (MEMO_SIZE - 1) 0)"

definition encrypt_note_deterministic ::
  "'x ext_scheme \<Rightarrow> u64 \<Rightarrow> felt \<Rightarrow> bytes option \<Rightarrow> bytes \<Rightarrow> bytes \<Rightarrow> bytes \<Rightarrow> bytes \<Rightarrow> encrypted_note res" where
  "encrypt_note_deterministic X v rseed user_memo ek_v ek_d detect_ephemeral view_ephemeral =
     (let (ct_d, ss_d) = kem_encapsulate X ek_d detect_ephemeral;
          note_tag = detection_tag X ss_d;
          plaintext = to_le 8 v @ rseed @ pad_memo user_memo;
          (ct_v, ss_v) = kem_encapsulate X ek_v view_ephemeral;
          key = hash X ss_v;
          nonce = derive_note_aead_nonce X key plaintext
      in attempt (unwrap (aead_encrypt X key nonce plaintext)) (\<lambda>encrypted_data.
         Inr \<lparr>en_ct_d = ct_d, en_tag = note_tag, en_ct_v = ct_v, en_nonce = nonce,
              en_encrypted_data = encrypted_data, en_outgoing_ct = empty_outgoing_recovery_ct\<rparr>))"

text \<open>
  \<open>encrypt_note\<close> draws the two ephemeral seeds from the random source and repeats the same
  body; on the \<open>wasm32\<close> target it panics.
\<close>

definition encrypt_note ::
  "'x ext_scheme \<Rightarrow> bool \<Rightarrow> bytes \<Rightarrow> bytes \<Rightarrow> u64 \<Rightarrow> felt \<Rightarrow> bytes option \<Rightarrow> bytes \<Rightarrow> bytes
   \<Rightarrow> encrypted_note res" where
  "encrypt_note X wasm32 detect_random view_random v rseed user_memo ek_v ek_d =
     (if wasm32
      then Inl (Panic ''encrypt_note is not available on wasm32; use client-provided shield notes'')
      else encrypt_note_deterministic X v rseed user_memo ek_v ek_d detect_random view_random)"

definition ct_eq_u16 :: "u16 \<Rightarrow> u16 \<Rightarrow> bool" where
  "ct_eq_u16 a b =
     (let x = a XOR b;
          diff = (0 :: u8);
          diff = diff OR ucast x;
          diff = diff OR ucast (drop_bit 8 x)
      in diff = 0)"

definition detect :: "'x ext_scheme \<Rightarrow> encrypted_note \<Rightarrow> bytes \<Rightarrow> bool res" where
  "detect X enc dk_d =
     (if length (en_ct_d enc) \<noteq> ML_KEM768_CIPHERTEXT_BYTES then Inr False
      else attempt (unwrap (kem_decapsulate X dk_d (en_ct_d enc))) (\<lambda>ss.
           Inr (ct_eq_u16 (detection_tag X ss) (en_tag enc))))"

definition decrypt_memo :: "'x ext_scheme \<Rightarrow> encrypted_note \<Rightarrow> bytes \<Rightarrow> (u64 \<times> felt \<times> bytes) option res" where
  "decrypt_memo X enc dk_v =
     (if length (en_ct_v enc) \<noteq> ML_KEM768_CIPHERTEXT_BYTES then Inr None
      else case kem_decapsulate X dk_v (en_ct_v enc) of None \<Rightarrow> Inr None
      | Some ss \<Rightarrow>
          let key = hash X ss in
          if length (en_nonce enc) \<noteq> NOTE_AEAD_NONCE_BYTES
          then Inl (Panic ''nonce slice has the wrong length'')
          else case aead_decrypt X key (en_nonce enc) (en_encrypted_data enc) of None \<Rightarrow> Inr None
          | Some pt \<Rightarrow>
              if length pt \<noteq> 8 + 32 + MEMO_SIZE then Inr None
              else Inr (Some (from_le (take 8 pt), slice 8 40 pt, drop 40 pt)))"

section \<open>Byte layout of the recovery plaintext\<close>

definition or_ok :: "outgoing_recovery_plaintext \<Rightarrow> bool" where
  "or_ok p \<longleftrightarrow> is_felt (or_rseed p) \<and> is_felt (or_d_j p) \<and> is_felt (or_auth_root p)
     \<and> is_felt (or_auth_pub_seed p) \<and> is_felt (or_nk_tag p)"

lemma role_from_as [simp]: "role_from_u8 (role_as_u8 r) = Some r"
  by (cases r) (simp_all add: role_from_u8_def)

lemma role_as_from: "role_from_u8 b = Some r \<Longrightarrow> role_as_u8 r = b"
  by (auto simp: role_from_u8_def split: if_splits)

lemma length_or_encode: "or_ok p \<Longrightarrow> length (or_encode p) = OUTGOING_RECOVERY_PLAINTEXT_BYTES"
  by (simp add: or_ok_def is_felt_def or_encode_def OUTGOING_RECOVERY_PLAINTEXT_BYTES_def)

lemma or_decode_encode:
  assumes "or_ok p"
  shows "or_decode (or_encode p) = Some p"
  using assms length_or_encode [OF assms]
  by (cases p) (simp add: or_decode_def or_ok_def is_felt_def, simp add: or_encode_def)

lemma or_encode_decode:
  assumes "or_decode bs = Some p"
  shows "or_encode p = bs \<and> or_ok p"
proof -
  from assms obtain r where len: "length bs = 169" and r: "role_from_u8 (bs ! 0) = Some r"
    and p: "p = \<lparr>or_role = r, or_value = from_le (slice 1 9 bs), or_rseed = slice 9 41 bs,
                or_d_j = slice 41 73 bs, or_auth_root = slice 73 105 bs,
                or_auth_pub_seed = slice 105 137 bs, or_nk_tag = slice 137 169 bs\<rparr>"
    by (auto simp: or_decode_def OUTGOING_RECOVERY_PLAINTEXT_BYTES_def split: if_splits option.splits)
  have "to_le 8 (from_le (slice 1 9 bs) :: u64) = slice 1 9 bs"
    using to_le_from_le [of "slice 1 9 bs", where 'a = 64] len by simp
  moreover have "[role_as_u8 r] = slice 0 1 bs"
    using len role_as_from [OF r] by (cases bs) (simp_all add: slice_def)
  moreover have "slice 0 169 bs = bs" using len by simp
  ultimately show ?thesis
    using len by (simp add: p or_encode_def or_ok_def is_felt_def slice_split)
qed

section \<open>Sealed notes\<close>

lemma ct_eq_u16_eq: "ct_eq_u16 a b \<longleftrightarrow> a = b"
proof -
  have "ct_eq_u16 a b \<longleftrightarrow> (ucast (a XOR b) :: u8) = 0 \<and> (ucast (drop_bit 8 (a XOR b)) :: u8) = 0"
    by (simp add: ct_eq_u16_def Let_def or_eq_0_iff)
  also have "\<dots> \<longleftrightarrow> to_le 2 (a XOR b) = to_le 2 (0 :: u16)"
    by (simp add: numeral_eq_Suc)
  also have "\<dots> \<longleftrightarrow> a XOR b = 0"
    by (rule to_le_inject) simp
  also have "\<dots> \<longleftrightarrow> a = b" by (simp add: bit_eq_iff bit_xor_iff)
  finally show ?thesis .
qed

lemma detection_tag_bound: "unat (detection_tag X ss) < 2 ^ DETECT_K"
proof -
  have "detection_tag X ss \<le> mask DETECT_K"
    unfolding detection_tag_def by (rule word_and_le1)
  then have "unat (detection_tag X ss) \<le> unat (mask DETECT_K :: u16)"
    by (simp add: word_le_nat_alt)
  also have "\<dots> < 2 ^ DETECT_K" by (simp add: DETECT_K_def mask_eq_exp_minus_1)
  finally show ?thesis .
qed

lemma length_pad_memo [simp]: "length (pad_memo m) = MEMO_SIZE"
  by (auto simp: pad_memo_def MEMO_SIZE_def Let_def split: option.split)

lemma aead_lawsD:
  assumes "aead_laws X" "length k = 32" "length n = 12"
  obtains c where "aead_encrypt X k n p = Some c" "length c = length p + 16" "aead_decrypt X k n c = Some p"
  using assms unfolding aead_laws_def by blast

lemmas note_sizes = ML_KEM768_CIPHERTEXT_BYTES_def NOTE_AEAD_NONCE_BYTES_def ENCRYPTED_NOTE_BYTES_def
  MEMO_SIZE_def OUTGOING_RECOVERY_CT_BYTES_def OUTGOING_RECOVERY_PLAINTEXT_BYTES_def

lemma note_validate_iff:
  "note_validate n = Inr () \<longleftrightarrow>
     length (en_ct_d n) = 1088 \<and> length (en_ct_v n) = 1088 \<and> length (en_nonce n) = 12
     \<and> length (en_encrypted_data n) = 1080 \<and> length (en_outgoing_ct n) = 185 \<and> unat (en_tag n) < 1024"
  by (auto simp: note_validate_def res_simps note_sizes DETECT_K_def)

lemma length_nonces [simp]:
  assumes "blake_laws X"
  shows "length (derive_note_aead_nonce X k p) = 12" "length (derive_outgoing_recovery_nonce X k cm) = 12"
  using assms by (simp_all add: derive_note_aead_nonce_def derive_outgoing_recovery_nonce_def note_sizes)

lemma sealed_note_opens:
  assumes X: "blake_laws X" "aead_laws X" "kem_laws X" and "is_felt rseed"
    and keys: "kem_keygen X sv = (ek_v, dk_v)" "kem_keygen X sd = (ek_d, dk_d)"
  obtains enc where
    "encrypt_note_deterministic X v rseed user_memo ek_v ek_d de ve = Inr enc"
    "note_validate enc = Inr ()"
    "detect X enc dk_d = Inr True"
    "decrypt_memo X enc dk_v = Inr (Some (v, rseed, pad_memo user_memo))"
proof -
  obtain ct_d ss_d ct_v ss_v where e: "kem_encapsulate X ek_d de = (ct_d, ss_d)"
    "kem_encapsulate X ek_v ve = (ct_v, ss_v)" by fastforce
  then have d: "length ct_d = 1088" "kem_decapsulate X dk_d ct_d = Some ss_d"
    "length ct_v = 1088" "kem_decapsulate X dk_v ct_v = Some ss_v"
    using X(3) keys unfolding kem_laws_def by blast+
  let ?pt = "to_le 8 v @ rseed @ pad_memo user_memo"
  let ?n = "derive_note_aead_nonce X (hash X ss_v) ?pt"
  obtain c where c: "aead_encrypt X (hash X ss_v) ?n ?pt = Some c" "length c = length ?pt + 16"
    "aead_decrypt X (hash X ss_v) ?n c = Some ?pt"
    using X by (elim aead_lawsD [of X "hash X ss_v" ?n ?pt]) simp_all
  let ?enc = "\<lparr>en_ct_d = ct_d, en_tag = detection_tag X ss_d, en_ct_v = ct_v, en_nonce = ?n,
                en_encrypted_data = c, en_outgoing_ct = empty_outgoing_recovery_ct\<rparr>"
  show ?thesis
  proof (rule that [of ?enc])
    show "encrypt_note_deterministic X v rseed user_memo ek_v ek_d de ve = Inr ?enc"
      using e c by (simp add: encrypt_note_deterministic_def Let_def)
    show "note_validate ?enc = Inr ()"
      using X d c detection_tag_bound [of X ss_d] assms(4)
      by (simp add: note_validate_iff is_felt_def empty_outgoing_recovery_ct_def note_sizes DETECT_K_def)
    show "detect X ?enc dk_d = Inr True"
      using d by (simp add: detect_def ct_eq_u16_eq note_sizes)
    show "decrypt_memo X ?enc dk_v = Inr (Some (v, rseed, pad_memo user_memo))"
      using X d c assms(4) by (simp add: decrypt_memo_def is_felt_def note_sizes slice_def)
  qed
qed

text \<open>The bytes hashed for a note determine it once its lengths are those \<open>note_validate\<close> checks.\<close>

definition note_bytes :: "encrypted_note \<Rightarrow> bytes" where
  "note_bytes n = en_ct_d n @ to_le 2 (en_tag n) @ en_ct_v n @ en_nonce n @ en_encrypted_data n
     @ en_outgoing_ct n"

lemma note_bytes_inject:
  assumes "note_validate a = Inr ()" "note_validate b = Inr ()" "note_bytes a = note_bytes b"
  shows "a = b"
  using assms
  by (cases a; cases b) (simp add: note_validate_iff note_bytes_def to_le_inject)

definition sample_note :: encrypted_note where
  "sample_note = \<lparr>en_ct_d = replicate 1088 1, en_tag = 1023, en_ct_v = replicate 1088 2,
     en_nonce = replicate 12 3, en_encrypted_data = replicate 1080 4, en_outgoing_ct = replicate 185 0\<rparr>"

lemma sample_note_valid: "note_validate sample_note = Inr ()"
  unfolding note_validate_iff sample_note_def encrypted_note.select_convs length_replicate by simp

section \<open>Properties\<close>

text \<open>
  The byte layout of the outgoing-recovery plaintext is a bijection between well-formed
  records and the 169-byte strings whose first byte is a role: decoding inverts encoding, and
  whatever decodes is the encoding of its decoding.
\<close>

theorem outgoing_recovery_layout_roundtrip:
  "or_decode bs = Some p \<longleftrightarrow> or_ok p \<and> or_encode p = bs"
  using or_decode_encode or_encode_decode by blast

text \<open>
  An outgoing-recovery ciphertext has the fixed size that \<open>EncryptedNote::validate\<close>
  requires and decrypts, under the same seed and commitment, to the plaintext it was made
  from.
\<close>

theorem outgoing_recovery_decrypts:
  assumes "blake_laws X" "aead_laws X" "or_ok p"
  shows "\<exists>ct. encrypt_outgoing_recovery X outgoing_seed cm p = Inr ct
              \<and> length ct = OUTGOING_RECOVERY_CT_BYTES
              \<and> decrypt_outgoing_recovery X outgoing_seed cm ct = Some p"
proof -
  let ?k = "derive_outgoing_recovery_key X outgoing_seed cm"
  have "length ?k = 32" "length (derive_outgoing_recovery_nonce X ?k cm) = 12"
    using assms(1) by (simp_all add: derive_outgoing_recovery_key_def)
  then obtain c where "aead_encrypt X ?k (derive_outgoing_recovery_nonce X ?k cm) (or_encode p) = Some c"
    "length c = length (or_encode p) + 16"
    "aead_decrypt X ?k (derive_outgoing_recovery_nonce X ?k cm) c = Some (or_encode p)"
    by (rule aead_lawsD [OF assms(2)])
  then show ?thesis
    using assms length_or_encode [of p] or_decode_encode [of p]
    by (simp add: encrypt_outgoing_recovery_def decrypt_outgoing_recovery_def Let_def
        OUTGOING_RECOVERY_CT_BYTES_def)
qed

theorem outgoing_recovery_decrypts_witness:
  "\<exists>ct. encrypt_outgoing_recovery sample_ext ZERO ZERO
          \<lparr>or_role = TransferChange, or_value = 5, or_rseed = ZERO, or_d_j = ZERO, or_auth_root = ZERO,
           or_auth_pub_seed = ZERO, or_nk_tag = ZERO\<rparr> = Inr ct
        \<and> length ct = OUTGOING_RECOVERY_CT_BYTES"
  using outgoing_recovery_decrypts [OF sample_blake_laws sample_aead_laws,
      of "\<lparr>or_role = TransferChange, or_value = 5, or_rseed = ZERO, or_d_j = ZERO, or_auth_root = ZERO,
           or_auth_pub_seed = ZERO, or_nk_tag = ZERO\<rparr>" ZERO ZERO]
  by (auto simp: or_ok_def)

text \<open>
  A note sealed to an address passes \<open>validate\<close>, is detected with the address's detection
  key, and opens with its viewing key to the amount, the seed and the memo padded (or cut) to
  the memo size.
\<close>

theorem encrypted_note_roundtrip:
  assumes "blake_laws X" "aead_laws X" "kem_laws X" "is_felt rseed"
    and "kem_keygen_from_seed X seed_v = (ek_v, dk_v)" "kem_keygen_from_seed X seed_d = (ek_d, dk_d)"
  shows "\<exists>enc. encrypt_note_deterministic X v rseed user_memo ek_v ek_d de ve = Inr enc
           \<and> note_validate enc = Inr ()
           \<and> detect X enc dk_d = Inr True
           \<and> decrypt_memo X enc dk_v = Inr (Some (v, rseed, pad_memo user_memo))"
  using assms by (metis kem_keygen_from_seed_def sealed_note_opens)

theorem encrypted_note_roundtrip_witness:
  "\<exists>enc. encrypt_note_deterministic sample_ext 42 ZERO (Some [1, 2]) [7] [8] [] [] = Inr enc
     \<and> note_validate enc = Inr ()"
  using encrypted_note_roundtrip [OF sample_blake_laws sample_aead_laws sample_kem_laws is_felt_ZERO,
      of "[7]" "[7]" "[7]" "[8]" "[8]" "[8]" 42 "Some [1, 2]" "[]" "[]"]
  by (auto simp: kem_keygen_from_seed_def sample_ext_def)

text \<open>
  C37: the memo hash binds the whole encrypted note: two notes that pass \<open>validate\<close> and have the
  same memo hash are equal, unless BLAKE2s collides on the two strings that were hashed.
\<close>

theorem memo_ct_hash_binding:
  assumes "note_validate a = Inr ()" "note_validate b = Inr ()"
    and "inj_on (blake2s X ''memoSP__'') {note_bytes a, note_bytes b}"
    and "memo_ct_hash X a = memo_ct_hash X b"
  shows "a = b"
  using assms by (intro note_bytes_inject) (auto simp: memo_ct_hash_def note_bytes_def dest: inj_onD)

theorem memo_ct_hash_binding_witness:
  "note_validate sample_note = Inr () \<and> sample_note = sample_note"
  using memo_ct_hash_binding [OF sample_note_valid sample_note_valid, of sample_ext] sample_note_valid
  by simp


end
