(* ===== verification/Outputs.thy ===== *)
theory Outputs
  imports Notes
begin

text \<open>
  Proof outputs (\<open>core/src/lib.rs\<close>): the privacy bootloader's output preimage, the circuit
  program hashes, and the extraction of a transition's public outputs.
\<close>

datatype tx_proof =
    TrustMeBro
  | Stark bytes "felt list"

record bootloader_task_output =
  bt_program_hash :: felt
  bt_public_outputs :: "felt list"

definition parse_single_task_output_preimage ::
  "'x ext_scheme \<Rightarrow> felt list \<Rightarrow> bootloader_task_output res" where
  "parse_single_task_output_preimage X output_preimage =
     attempt (guard (\<not> length output_preimage < 3) ''output_preimage too short for bootloader prefix'') (\<lambda>_.
     attempt (map_err (\<lambda>_. ''invalid bootloader task count'') (felt_to_usize X (output_preimage ! 0))) (\<lambda>n_tasks.
     attempt (guard (n_tasks = 1) (''expected exactly 1 bootloader task, got '' @ show_nat n_tasks)) (\<lambda>_.
     attempt (map_err (\<lambda>_. ''invalid bootloader task output size'') (felt_to_usize X (output_preimage ! 1)))
       (\<lambda>task_output_size.
     attempt (guard (\<not> task_output_size < 2)
       (''bootloader task output too short: '' @ show_nat task_output_size @ '' < 2'')) (\<lambda>_.
     attempt (guard (1 + task_output_size < 2 ^ usize_bits X) ''bootloader task output size overflow'') (\<lambda>_.
     let expected_total_len = 1 + task_output_size in
     attempt (guard (length output_preimage = expected_total_len)
       (''output_preimage length mismatch: '' @ show_nat (length output_preimage) @ '' != ''
        @ show_nat expected_total_len)) (\<lambda>_.
     Inr \<lparr>bt_program_hash = output_preimage ! 2, bt_public_outputs = drop 3 output_preimage\<rparr>)))))))"

definition validate_single_task_program_hash ::
  "'x ext_scheme \<Rightarrow> felt list \<Rightarrow> felt \<Rightarrow> felt list res" where
  "validate_single_task_program_hash X output_preimage expected_program_hash =
     attempt (parse_single_task_output_preimage X output_preimage) (\<lambda>parsed.
     attempt (guard (bt_program_hash parsed = expected_program_hash)
       (''unexpected circuit program hash: got '' @ hex_encode X (bt_program_hash parsed) @ '', expected ''
        @ hex_encode X expected_program_hash)) (\<lambda>_.
     Inr (bt_public_outputs parsed)))"

definition parse_cairo_array_public_outputs :: "'x ext_scheme \<Rightarrow> felt list \<Rightarrow> felt list res" where
  "parse_cairo_array_public_outputs X task_public_outputs =
     (case task_public_outputs of
        [] \<Rightarrow> Inl (Err ''bootloader public output array missing length'')
      | len_felt # public_outputs \<Rightarrow>
          attempt (map_err (\<lambda>_. ''invalid public output array length'') (felt_to_usize X len_felt)) (\<lambda>declared_len.
          attempt (guard (declared_len = length public_outputs)
            (''public output array length mismatch: '' @ show_nat declared_len @ '' != ''
             @ show_nat (length public_outputs))) (\<lambda>_.
          Inr public_outputs)))"

definition transition_public_outputs :: "'x ext_scheme \<Rightarrow> felt list \<Rightarrow> nat \<Rightarrow> felt list res" where
  "transition_public_outputs X output_preimage expected_output_len =
     attempt (case parse_single_task_output_preimage X output_preimage of
                Inr parsed \<Rightarrow> parse_cairo_array_public_outputs X (bt_public_outputs parsed)
              | Inl _ \<Rightarrow> Inr output_preimage) (\<lambda>public_outputs.
     attempt (guard (length public_outputs = expected_output_len)
       (''public output length mismatch: '' @ show_nat (length public_outputs) @ '' != ''
        @ show_nat expected_output_len)) (\<lambda>_.
     Inr public_outputs))"

record program_hashes =
  ph_shield :: felt
  ph_transfer :: felt
  ph_unshield :: felt

datatype circuit_kind = Shield | Transfer | Unshield

primrec circuit_name :: "circuit_kind \<Rightarrow> string" where
  "circuit_name Shield = ''shield''"
| "circuit_name Transfer = ''transfer''"
| "circuit_name Unshield = ''unshield''"

primrec executable_filename :: "circuit_kind \<Rightarrow> string" where
  "executable_filename Shield = ''run_shield.executable.json''"
| "executable_filename Transfer = ''run_transfer.executable.json''"
| "executable_filename Unshield = ''run_unshield.executable.json''"

primrec expected_program_hash :: "circuit_kind \<Rightarrow> program_hashes \<Rightarrow> felt" where
  "expected_program_hash Shield hashes = ph_shield hashes"
| "expected_program_hash Transfer hashes = ph_transfer hashes"
| "expected_program_hash Unshield hashes = ph_unshield hashes"

section \<open>Shape of accepted preimages\<close>

lemma felt_to_usize_iff:
  assumes "is_felt f"
  shows "felt_to_usize X f = Inr n
         \<longleftrightarrow> n < 2 ^ usize_bits X \<and> n < 2 ^ 64 \<and> f = u64_to_felt (word_of_nat n)"
proof -
  have "n < 2 ^ 64 \<Longrightarrow> unat (word_of_nat n :: u64) = n" by (simp add: unat_of_nat_small)
  moreover have "unat (v :: u64) < 2 ^ 64" for v using unsigned_less [of v] by simp
  moreover have "word_of_nat (unat v) = v" for v :: u64 by simp
  ultimately show ?thesis
    using assms by (auto simp: felt_to_usize_def res_simps felt_to_u64_iff split: if_splits)
qed

text \<open>A well-formed preimage: one task, its size, the program hash, an array with its length.\<close>

definition bootloader_layout :: "felt \<Rightarrow> felt list \<Rightarrow> felt list" where
  "bootloader_layout program_hash outputs =
     [u64_to_felt 1, u64_to_felt (word_of_nat (length outputs + 3)), program_hash,
      u64_to_felt (word_of_nat (length outputs))] @ outputs"

lemma parse_single_task_iff:
  assumes "\<forall>f \<in> set pre. is_felt f"
  shows "parse_single_task_output_preimage X pre = Inr r \<longleftrightarrow>
     3 \<le> length pre \<and> length pre < 2 ^ usize_bits X \<and> length pre \<le> 2 ^ 64
     \<and> pre ! 0 = u64_to_felt 1 \<and> pre ! 1 = u64_to_felt (word_of_nat (length pre - 1))
     \<and> r = \<lparr>bt_program_hash = pre ! 2, bt_public_outputs = drop 3 pre\<rparr>"
proof (cases "3 \<le> length pre")
  case True
  then have "pre ! 0 \<in> set pre" "pre ! 1 \<in> set pre" by (auto intro: nth_mem)
  then have f: "is_felt (pre ! 0)" "is_felt (pre ! 1)" using assms by simp_all
  have u: "1 < (2 :: nat) ^ usize_bits X" if "length pre < 2 ^ usize_bits X" using that True by linarith
  have "parse_single_task_output_preimage X pre = Inr r \<longleftrightarrow>
     felt_to_usize X (pre ! 0) = Inr 1 \<and> felt_to_usize X (pre ! 1) = Inr (length pre - 1)
     \<and> length pre < 2 ^ usize_bits X \<and> r = \<lparr>bt_program_hash = pre ! 2, bt_public_outputs = drop 3 pre\<rparr>"
    using True by (auto simp: parse_single_task_output_preimage_def res_simps Let_def)
  also have "\<dots> \<longleftrightarrow> length pre < 2 ^ usize_bits X \<and> length pre \<le> 2 ^ 64
     \<and> pre ! 0 = u64_to_felt 1 \<and> pre ! 1 = u64_to_felt (word_of_nat (length pre - 1))
     \<and> r = \<lparr>bt_program_hash = pre ! 2, bt_public_outputs = drop 3 pre\<rparr>"
    unfolding felt_to_usize_iff [OF f(1)] felt_to_usize_iff [OF f(2)] using u True by auto
  finally show ?thesis using True by simp
next
  case False
  then show ?thesis by (simp add: parse_single_task_output_preimage_def)
qed

lemma parse_cairo_array_iff:
  assumes "\<forall>f \<in> set xs. is_felt f"
  shows "parse_cairo_array_public_outputs X xs = Inr outs \<longleftrightarrow>
     xs = u64_to_felt (word_of_nat (length outs)) # outs
     \<and> length outs < 2 ^ usize_bits X \<and> length outs < 2 ^ 64"
  using assms
  by (cases xs) (auto simp: parse_cairo_array_public_outputs_def res_simps felt_to_usize_iff)

lemma bootloader_layout_parses:
  assumes "is_felt ph" "\<forall>f \<in> set outs. is_felt f"
    and "length outs + 4 < 2 ^ usize_bits X" "length outs + 4 \<le> 2 ^ 64"
  shows "transition_public_outputs X (bootloader_layout ph outs) (length outs) = Inr outs"
    and "validate_single_task_program_hash X (bootloader_layout ph outs) ph
         = Inr (u64_to_felt (word_of_nat (length outs)) # outs)"
proof -
  let ?pre = "bootloader_layout ph outs"
  have felts: "\<forall>f \<in> set ?pre. is_felt f"
    using assms by (auto simp: bootloader_layout_def is_felt_def)
  have len: "length ?pre = length outs + 4" by (simp add: bootloader_layout_def)
  have tail: "drop 3 ?pre = u64_to_felt (word_of_nat (length outs)) # outs"
    by (simp add: bootloader_layout_def)
  have "parse_single_task_output_preimage X ?pre
        = Inr \<lparr>bt_program_hash = ph, bt_public_outputs = u64_to_felt (word_of_nat (length outs)) # outs\<rparr>"
    unfolding parse_single_task_iff [OF felts] len tail using assms
    by (simp add: bootloader_layout_def)
  moreover have "parse_cairo_array_public_outputs X (u64_to_felt (word_of_nat (length outs)) # outs) = Inr outs"
    using assms by (subst parse_cairo_array_iff) (auto simp: is_felt_def)
  ultimately show "transition_public_outputs X ?pre (length outs) = Inr outs"
    and "validate_single_task_program_hash X ?pre ph = Inr (u64_to_felt (word_of_nat (length outs)) # outs)"
    by (simp_all add: transition_public_outputs_def validate_single_task_program_hash_def)
qed

lemma transition_public_outputs_length:
  "transition_public_outputs X pre n = Inr outs \<Longrightarrow> length outs = n"
  by (auto simp: transition_public_outputs_def res_simps)

lemma list_of_length_ge3: "3 \<le> length xs \<Longrightarrow> xs = [xs ! 0, xs ! 1, xs ! 2] @ drop 3 xs"
  by (cases xs; cases "tl xs"; cases "tl (tl xs)") (auto simp: numeral_eq_Suc)

section \<open>Properties\<close>

text \<open>
  What the transition check reads from a proof's output preimage. Outputs are accepted only
  when the preimage is the bootloader layout of exactly one task whose array has the declared
  length, or when the preimage is not a single-task preimage at all and is itself the list of
  outputs; in both cases there are exactly as many outputs as the circuit has.
\<close>

theorem transition_public_outputs_shape:
  assumes "\<forall>f \<in> set pre. is_felt f" "transition_public_outputs X pre n = Inr outs"
  shows "length outs = n \<and>
     ((\<exists>ph. pre = bootloader_layout ph outs)
      \<or> (outs = pre \<and> \<not> (\<exists>r. parse_single_task_output_preimage X pre = Inr r)))"
proof (cases "parse_single_task_output_preimage X pre")
  case (Inl e)
  then show ?thesis using assms by (auto simp: transition_public_outputs_def res_simps)
next
  case (Inr r)
  then have p: "3 \<le> length pre" "pre ! 0 = u64_to_felt 1" "pre ! 1 = u64_to_felt (word_of_nat (length pre - 1))"
    "bt_public_outputs r = drop 3 pre"
    by (auto simp: parse_single_task_iff [OF assms(1)])
  have "\<forall>f \<in> set (drop 3 pre). is_felt f" using assms(1) by (auto dest: in_set_dropD)
  moreover have "parse_cairo_array_public_outputs X (drop 3 pre) = Inr outs" "length outs = n"
    using assms(2) Inr p(4) by (auto simp: transition_public_outputs_def res_simps)
  ultimately have d: "drop 3 pre = u64_to_felt (word_of_nat (length outs)) # outs"
    by (simp add: parse_cairo_array_iff)
  then have "length pre - 1 = length outs + 3"
    using p(1) d by (metis Suc_diff_le add.commute diff_Suc_1 diff_diff_left length_Cons length_drop
        le_add_diff_inverse numeral_3_eq_3 plus_1_eq_Suc add_Suc_right)
  then have "pre = bootloader_layout (pre ! 2) outs"
    using list_of_length_ge3 [OF p(1)] p(2,3) d by (simp add: bootloader_layout_def)
  then show ?thesis using \<open>length outs = n\<close> by blast
qed

theorem transition_public_outputs_shape_witness:
  "\<exists>ph. bootloader_layout ZERO [type_tag 7, type_tag 8] = bootloader_layout ph [type_tag 7, type_tag 8]"
proof -
  let ?outs = "[type_tag 7, type_tag 8]" and ?pre = "bootloader_layout ZERO [type_tag 7, type_tag 8]"
  have parsed: "transition_public_outputs sample_ext ?pre (length ?outs) = Inr ?outs"
    by (rule bootloader_layout_parses) (auto simp: is_felt_def sample_ext_def)
  have felts: "\<forall>f \<in> set ?pre. is_felt f" by (simp add: bootloader_layout_def is_felt_def)
  have "?outs \<noteq> ?pre" by (simp add: bootloader_layout_def)
  with transition_public_outputs_shape [OF felts parsed] show ?thesis by blast
qed

end
