(* ===== verification/LedgerState.thy ===== *)
theory LedgerState
  imports Outputs Merkle
begin

text \<open>
  The ledger transitions of \<open>core/src/lib.rs\<close>: the requests, the \<open>LedgerState\<close> interface as a
  record of operations on a state, and the generic \<open>apply_deposit\<close>, \<open>apply_shield\<close>,
  \<open>apply_transfer\<close> and \<open>apply_unshield\<close>, whole, over that interface. The locale
  \<open>ledger_state\<close> states what an implementation of the interface promises; inside it every
  transition is shown to fail without a trace or to perform a step of an abstract ledger.
\<close>

section \<open>Requests\<close>

record shield_req =
  sr_pubkey_hash :: felt
  sr_fee :: u64
  sr_v :: u64
  sr_producer_fee :: u64
  sr_proof :: tx_proof
  sr_client_cm :: felt
  sr_client_enc :: encrypted_note
  sr_producer_cm :: felt
  sr_producer_enc :: encrypted_note

record shield_resp =
  ss_cm :: felt
  ss_index :: nat
  ss_producer_cm :: felt
  ss_producer_index :: nat

record transfer_req =
  tr_root :: felt
  tr_nullifiers :: "felt list"
  tr_fee :: u64
  tr_cm_1 :: felt
  tr_cm_2 :: felt
  tr_cm_3 :: felt
  tr_enc_1 :: encrypted_note
  tr_enc_2 :: encrypted_note
  tr_enc_3 :: encrypted_note
  tr_proof :: tx_proof

record transfer_resp =
  ts_index_1 :: nat
  ts_index_2 :: nat
  ts_index_3 :: nat

record unshield_req =
  ur_root :: felt
  ur_nullifiers :: "felt list"
  ur_v_pub :: u64
  ur_fee :: u64
  ur_recipient :: string
  ur_cm_change :: felt
  ur_enc_change :: "encrypted_note option"
  ur_cm_fee :: felt
  ur_enc_fee :: encrypted_note
  ur_proof :: tx_proof

record unshield_resp =
  us_change_index :: "nat option"
  us_producer_index :: nat

record prepared_shield =
  ps_pubkey_hash :: felt
  ps_debit :: u64
  ps_client_cm :: felt
  ps_client_enc :: encrypted_note
  ps_producer_cm :: felt
  ps_producer_enc :: encrypted_note

record prepared_unshield =
  pu_change_note :: "(felt \<times> encrypted_note) option"
  pu_producer_note :: "felt \<times> encrypted_note"
  pu_nullifiers :: "felt list"
  pu_recipient :: string
  pu_amount :: u64

record withdrawal_record =
  wr_recipient :: string
  wr_amount :: u64

section \<open>The interface\<close>

record 's ledger_ops =
  op_auth_domain :: "'s \<Rightarrow> felt res"
  op_required_tx_fee :: "'s \<Rightarrow> u64 res"
  op_has_valid_root :: "'s \<Rightarrow> felt \<Rightarrow> bool res"
  op_has_nullifier :: "'s \<Rightarrow> felt \<Rightarrow> bool res"
  op_insert_nullifier :: "felt \<Rightarrow> ('s, unit) action"
  op_ensure_note_capacity :: "'s \<Rightarrow> nat \<Rightarrow> unit res"
  op_append_note :: "felt \<Rightarrow> encrypted_note \<Rightarrow> ('s, nat) action"
  op_snapshot_root :: "('s, unit) action"
  op_enqueue_withdrawal :: "string \<Rightarrow> u64 \<Rightarrow> ('s, nat) action"
  op_note_private_tx_applied :: "'s \<Rightarrow> 's"
  op_deposit_balance :: "'s \<Rightarrow> felt \<Rightarrow> u64 option res"
  op_credit_deposit :: "felt \<Rightarrow> u64 \<Rightarrow> ('s, unit) action"
  op_debit_deposit :: "felt \<Rightarrow> u64 \<Rightarrow> ('s, unit) action"
  op_has_applied_shield :: "'s \<Rightarrow> felt \<Rightarrow> bool res"
  op_mark_applied_shield :: "felt \<Rightarrow> ('s, unit) action"

section \<open>Fees\<close>

definition default_required_tx_fee :: u64 where
  "default_required_tx_fee = MIN_TX_FEE"

definition required_tx_fee_for_private_tx_count :: "u64 \<Rightarrow> u64" where
  "required_tx_fee_for_private_tx_count accepted_private_txs_in_level =
     (let step = min (saturating_sub accepted_private_txs_in_level
                        (saturating_sub BASE_PRIVATE_TXS_PER_LEVEL 1))
                     (ucast MAX_DYNAMIC_FEE_STEP)
      in saturating_mul MIN_TX_FEE (push_bit (unat step) 1))"

section \<open>Deposits and shields\<close>

definition apply_deposit ::
  "'x ext_scheme \<Rightarrow> 's ledger_ops \<Rightarrow> string \<Rightarrow> u64 \<Rightarrow> ('s, unit) action" where
  "apply_deposit X ops recipient amount =
     bind_act (read_act (\<lambda>_. parse_deposit_recipient_pubkey_hash X recipient)) (\<lambda>pubkey_hash.
     op_credit_deposit ops pubkey_hash amount)"

definition fee_below_minimum :: "u64 \<Rightarrow> u64 \<Rightarrow> string" where
  "fee_below_minimum fee required = ''fee below minimum: '' @ show_word fee @ '' < '' @ show_word required"

definition check_shield_outputs ::
  "'x ext_scheme \<Rightarrow> felt \<Rightarrow> shield_req \<Rightarrow> felt \<Rightarrow> felt \<Rightarrow> unit res" where
  "check_shield_outputs X auth_domain req mh_recipient mh_producer =
     (case sr_proof req of
        TrustMeBro \<Rightarrow> Inr ()
      | Stark proof_bytes preimage \<Rightarrow>
          attempt (transition_public_outputs X preimage 9) (\<lambda>outs.
          attempt (guard (length outs = 9)
            (''shield public output length mismatch: '' @ show_nat (length outs) @ '' != 9'')) (\<lambda>_.
          attempt (guard (outs ! 0 = auth_domain) ''proof auth_domain mismatch'') (\<lambda>_.
          attempt (guard (outs ! 1 = sr_pubkey_hash req) ''proof pubkey_hash mismatch'') (\<lambda>_.
          attempt (guard (outs ! 2 = u64_to_felt (sr_v req)) ''proof note value mismatch'') (\<lambda>_.
          attempt (guard (outs ! 3 = u64_to_felt (sr_fee req)) ''proof fee mismatch'') (\<lambda>_.
          attempt (guard (outs ! 4 = u64_to_felt (sr_producer_fee req)) ''proof producer_fee mismatch'') (\<lambda>_.
          attempt (guard (outs ! 5 = sr_client_cm req) ''proof cm mismatch'') (\<lambda>_.
          attempt (guard (outs ! 6 = sr_producer_cm req) ''proof producer_cm mismatch'') (\<lambda>_.
          attempt (guard (outs ! 7 = mh_recipient) ''proof memo_ct_hash mismatch'') (\<lambda>_.
          guard (outs ! 8 = mh_producer) ''proof producer memo_ct_hash mismatch'')))))))))))"

definition prepare_shield ::
  "'x ext_scheme \<Rightarrow> 's ledger_ops \<Rightarrow> 's \<Rightarrow> shield_req \<Rightarrow> prepared_shield res" where
  "prepare_shield X ops state req =
     attempt (op_required_tx_fee ops state) (\<lambda>required_fee.
     attempt (guard (\<not> sr_fee req < required_fee) (fee_below_minimum (sr_fee req) required_fee)) (\<lambda>_.
     attempt (guard (sr_producer_fee req \<noteq> 0) ''producer fee must be greater than zero'') (\<lambda>_.
     attempt (guard (sr_client_cm req \<noteq> ZERO) ''shield requires non-zero client_cm'') (\<lambda>_.
     attempt (guard (sr_producer_cm req \<noteq> ZERO) ''shield requires non-zero producer_cm'') (\<lambda>_.
     attempt (op_has_applied_shield ops state (sr_client_cm req)) (\<lambda>applied.
     attempt (guard (\<not> applied)
       (''shield replay: cm '' @ hex_encode X (sr_client_cm req) @ '' already applied'')) (\<lambda>_.
     attempt (map_err (\<lambda>e. ''invalid client encrypted note: '' @ e) (note_validate (sr_client_enc req))) (\<lambda>_.
     attempt (map_err (\<lambda>e. ''invalid producer encrypted note: '' @ e) (note_validate (sr_producer_enc req))) (\<lambda>_.
     attempt (op_auth_domain ops state) (\<lambda>auth_domain.
     let mh_recipient = memo_ct_hash X (sr_client_enc req);
         mh_producer = memo_ct_hash X (sr_producer_enc req) in
     attempt (ok_or (case checked_add (sr_v req) (sr_fee req) of None \<Rightarrow> None
                     | Some x \<Rightarrow> checked_add x (sr_producer_fee req)) ''shield debit overflow'') (\<lambda>debit.
     attempt (op_deposit_balance ops state (sr_pubkey_hash req)) (\<lambda>pool.
     attempt (ok_or pool (''no deposit pool for pubkey_hash '' @ hex_encode X (sr_pubkey_hash req)
       @ ''; submit an L1 bridge deposit first'')) (\<lambda>pool_balance.
     attempt (guard (\<not> pool_balance < debit)
       (''deposit pool balance ('' @ show_word pool_balance @ '') too small for v + fee + producer_fee (''
        @ show_word debit @ '')'')) (\<lambda>_.
     attempt (check_shield_outputs X auth_domain req mh_recipient mh_producer) (\<lambda>_.
     attempt (op_ensure_note_capacity ops state 2) (\<lambda>_.
     Inr \<lparr>ps_pubkey_hash = sr_pubkey_hash req, ps_debit = debit, ps_client_cm = sr_client_cm req,
          ps_client_enc = sr_client_enc req, ps_producer_cm = sr_producer_cm req,
          ps_producer_enc = sr_producer_enc req\<rparr>))))))))))))))))"

definition commit_prepared_shield ::
  "'s ledger_ops \<Rightarrow> prepared_shield \<Rightarrow> ('s, shield_resp) action" where
  "commit_prepared_shield ops prepared =
     bind_act (op_debit_deposit ops (ps_pubkey_hash prepared) (ps_debit prepared)) (\<lambda>_.
     bind_act (op_mark_applied_shield ops (ps_client_cm prepared)) (\<lambda>_.
     bind_act (op_append_note ops (ps_client_cm prepared) (ps_client_enc prepared)) (\<lambda>index.
     bind_act (op_append_note ops (ps_producer_cm prepared) (ps_producer_enc prepared)) (\<lambda>producer_index.
     bind_act (op_snapshot_root ops) (\<lambda>_.
     bind_act (write_act (op_note_private_tx_applied ops)) (\<lambda>_.
     ret_act \<lparr>ss_cm = ps_client_cm prepared, ss_index = index,
              ss_producer_cm = ps_producer_cm prepared, ss_producer_index = producer_index\<rparr>))))))"

definition apply_shield ::
  "'x ext_scheme \<Rightarrow> 's ledger_ops \<Rightarrow> shield_req \<Rightarrow> ('s, shield_resp) action" where
  "apply_shield X ops req =
     bind_act (read_act (\<lambda>s. prepare_shield X ops s req)) (\<lambda>prepared. commit_prepared_shield ops prepared)"

section \<open>Transfers\<close>

text \<open>The loops over the nullifiers: none spent, no two equal, all in the proof's outputs.\<close>

fun check_unspent :: "'x ext_scheme \<Rightarrow> 's ledger_ops \<Rightarrow> 's \<Rightarrow> felt list \<Rightarrow> unit res" where
  "check_unspent X ops state [] = Inr ()"
| "check_unspent X ops state (nf # nfs) =
     attempt (op_has_nullifier ops state nf) (\<lambda>spent.
     attempt (guard (\<not> spent) (''nullifier '' @ short X nf @ '' already spent'')) (\<lambda>_.
     check_unspent X ops state nfs))"

definition has_duplicate :: "felt list \<Rightarrow> bool" where
  "has_duplicate nfs =
     (let n = length nfs
      in list_ex (\<lambda>i. list_ex (\<lambda>j. nfs ! i = nfs ! j) [i + 1..<n]) [0..<n])"

fun check_output_nullifiers :: "felt list \<Rightarrow> nat \<Rightarrow> felt list \<Rightarrow> unit res" where
  "check_output_nullifiers tail i [] = Inr ()"
| "check_output_nullifiers tail i (nf # nfs) =
     attempt (guard (tail ! (2 + i) = nf) (''proof nullifier '' @ show_nat i @ '' mismatch'')) (\<lambda>_.
     check_output_nullifiers tail (i + 1) nfs)"

definition note_tampered :: "string \<Rightarrow> string" where
  "note_tampered which =
     ''proof memo_ct_hash_'' @ which @ '' mismatch '' @ bytes_str [0xE2, 0x80, 0x94] @ '' encrypted note tampered''"

definition check_transfer_outputs ::
  "'x ext_scheme \<Rightarrow> 's ledger_ops \<Rightarrow> 's \<Rightarrow> transfer_req \<Rightarrow> unit res" where
  "check_transfer_outputs X ops state req =
     (case tr_proof req of
        TrustMeBro \<Rightarrow> Inr ()
      | Stark proof_bytes preimage \<Rightarrow>
          let n = length (tr_nullifiers req); fee_pos = 2 + n; cm1_pos = fee_pos + 1 in
          attempt (transition_public_outputs X preimage (2 + n + 7)) (\<lambda>tail.
          attempt (op_auth_domain ops state) (\<lambda>auth_domain.
          attempt (guard (tail ! 0 = auth_domain) ''proof auth_domain mismatch'') (\<lambda>_.
          attempt (guard (tail ! 1 = tr_root req) ''proof root mismatch'') (\<lambda>_.
          attempt (check_output_nullifiers tail 0 (tr_nullifiers req)) (\<lambda>_.
          attempt (guard (tail ! fee_pos = u64_to_felt (tr_fee req)) ''proof fee mismatch'') (\<lambda>_.
          attempt (guard (tail ! cm1_pos = tr_cm_1 req) ''proof cm_1 mismatch'') (\<lambda>_.
          attempt (guard (tail ! (cm1_pos + 1) = tr_cm_2 req) ''proof cm_2 mismatch'') (\<lambda>_.
          attempt (guard (tail ! (cm1_pos + 2) = tr_cm_3 req) ''proof cm_3 mismatch'') (\<lambda>_.
          attempt (guard (tail ! (cm1_pos + 3) = memo_ct_hash X (tr_enc_1 req)) (note_tampered ''1'')) (\<lambda>_.
          attempt (guard (tail ! (cm1_pos + 4) = memo_ct_hash X (tr_enc_2 req)) (note_tampered ''2'')) (\<lambda>_.
          guard (tail ! (cm1_pos + 5) = memo_ct_hash X (tr_enc_3 req)) (note_tampered ''3'')))))))))))))"

text \<open>Everything \<open>apply_transfer\<close> does before its first write.\<close>

definition check_transfer ::
  "'x ext_scheme \<Rightarrow> 's ledger_ops \<Rightarrow> 's \<Rightarrow> transfer_req \<Rightarrow> unit res" where
  "check_transfer X ops state req =
     attempt (op_required_tx_fee ops state) (\<lambda>required_fee.
     attempt (guard (\<not> tr_fee req < required_fee) (fee_below_minimum (tr_fee req) required_fee)) (\<lambda>_.
     let n = length (tr_nullifiers req) in
     attempt (guard (\<not> (n = 0 \<or> 7 < n)) ''bad nullifier count'') (\<lambda>_.
     attempt (map_err (\<lambda>e. ''invalid output note 1: '' @ e) (note_validate (tr_enc_1 req))) (\<lambda>_.
     attempt (map_err (\<lambda>e. ''invalid output note 2: '' @ e) (note_validate (tr_enc_2 req))) (\<lambda>_.
     attempt (map_err (\<lambda>e. ''invalid output note 3: '' @ e) (note_validate (tr_enc_3 req))) (\<lambda>_.
     attempt (op_has_valid_root ops state (tr_root req)) (\<lambda>valid.
     attempt (guard valid ''invalid root'') (\<lambda>_.
     attempt (check_unspent X ops state (tr_nullifiers req)) (\<lambda>_.
     attempt (guard (\<not> has_duplicate (tr_nullifiers req)) ''duplicate nullifier'') (\<lambda>_.
     attempt (check_transfer_outputs X ops state req) (\<lambda>_.
     op_ensure_note_capacity ops state 3)))))))))))"

definition apply_transfer ::
  "'x ext_scheme \<Rightarrow> 's ledger_ops \<Rightarrow> transfer_req \<Rightarrow> ('s, transfer_resp) action" where
  "apply_transfer X ops req =
     bind_act (read_act (\<lambda>s. check_transfer X ops s req)) (\<lambda>_.
     bind_act (op_append_note ops (tr_cm_1 req) (tr_enc_1 req)) (\<lambda>index_1.
     bind_act (op_append_note ops (tr_cm_2 req) (tr_enc_2 req)) (\<lambda>index_2.
     bind_act (op_append_note ops (tr_cm_3 req) (tr_enc_3 req)) (\<lambda>index_3.
     bind_act (each_act (op_insert_nullifier ops) (tr_nullifiers req)) (\<lambda>_.
     bind_act (op_snapshot_root ops) (\<lambda>_.
     bind_act (write_act (op_note_private_tx_applied ops)) (\<lambda>_.
     ret_act \<lparr>ts_index_1 = index_1, ts_index_2 = index_2, ts_index_3 = index_3\<rparr>)))))))"

section \<open>Unshields\<close>

definition check_unshield_outputs ::
  "'x ext_scheme \<Rightarrow> 's ledger_ops \<Rightarrow> 's \<Rightarrow> unshield_req \<Rightarrow> string \<Rightarrow> unit res" where
  "check_unshield_outputs X ops state req recipient =
     (case ur_proof req of
        TrustMeBro \<Rightarrow> Inr ()
      | Stark proof_bytes preimage \<Rightarrow>
          let n = length (ur_nullifiers req) in
          attempt (transition_public_outputs X preimage (2 + n + 7)) (\<lambda>tail.
          attempt (op_auth_domain ops state) (\<lambda>auth_domain.
          attempt (guard (tail ! 0 = auth_domain) ''proof auth_domain mismatch'') (\<lambda>_.
          attempt (guard (tail ! 1 = ur_root req) ''proof root mismatch'') (\<lambda>_.
          attempt (check_output_nullifiers tail 0 (ur_nullifiers req)) (\<lambda>_.
          attempt (guard (tail ! (2 + n) = u64_to_felt (ur_v_pub req)) ''proof v_pub mismatch'') (\<lambda>_.
          attempt (guard (tail ! (3 + n) = u64_to_felt (ur_fee req)) ''proof fee mismatch'') (\<lambda>_.
          attempt (guard (tail ! (4 + n) = hash X (as_bytes recipient)) ''proof recipient mismatch'') (\<lambda>_.
          attempt (guard (tail ! (5 + n) = ur_cm_change req) ''proof cm_change mismatch'') (\<lambda>_.
          attempt (case ur_enc_change req of
                     Some enc \<Rightarrow> guard (tail ! (6 + n) = memo_ct_hash X enc) ''proof memo_ct_hash_change mismatch''
                   | None \<Rightarrow> guard (tail ! (6 + n) = ZERO)
                               ''proof memo_ct_hash_change should be 0 when no change'') (\<lambda>_.
          attempt (guard (tail ! (7 + n) = ur_cm_fee req) ''proof cm_fee mismatch'') (\<lambda>_.
          guard (tail ! (8 + n) = memo_ct_hash X (ur_enc_fee req)) ''proof memo_ct_hash_fee mismatch''))))))))))))"

definition prepare_unshield ::
  "'x ext_scheme \<Rightarrow> 's ledger_ops \<Rightarrow> 's \<Rightarrow> unshield_req \<Rightarrow> prepared_unshield res" where
  "prepare_unshield X ops state req =
     attempt (validate_l1_withdrawal_recipient X (ur_recipient req)) (\<lambda>recipient.
     attempt (op_required_tx_fee ops state) (\<lambda>required_fee.
     attempt (guard (\<not> ur_fee req < required_fee) (fee_below_minimum (ur_fee req) required_fee)) (\<lambda>_.
     let n = length (ur_nullifiers req) in
     attempt (guard (\<not> (n = 0 \<or> 7 < n)) ''bad nullifier count'') (\<lambda>_.
     attempt (case (ur_cm_change req = ZERO, ur_enc_change req) of
                (True, Some _) \<Rightarrow> Inl (Err ''change note data provided with zero cm_change'')
              | (False, Some enc) \<Rightarrow> map_err (\<lambda>e. ''invalid change note: '' @ e) (note_validate enc)
              | _ \<Rightarrow> Inr ()) (\<lambda>_.
     attempt (map_err (\<lambda>e. ''invalid producer fee note: '' @ e) (note_validate (ur_enc_fee req))) (\<lambda>_.
     attempt (guard (ur_cm_fee req \<noteq> ZERO) ''producer fee note must have non-zero commitment'') (\<lambda>_.
     attempt (op_has_valid_root ops state (ur_root req)) (\<lambda>valid.
     attempt (guard valid ''invalid root'') (\<lambda>_.
     attempt (check_unspent X ops state (ur_nullifiers req)) (\<lambda>_.
     attempt (guard (\<not> has_duplicate (ur_nullifiers req)) ''duplicate nullifier'') (\<lambda>_.
     attempt (check_unshield_outputs X ops state req recipient) (\<lambda>_.
     let additional_notes = (if ur_cm_change req \<noteq> ZERO then 1 else 0) + 1 in
     attempt (op_ensure_note_capacity ops state additional_notes) (\<lambda>_.
     attempt (if ur_cm_change req \<noteq> ZERO
              then attempt (ok_or (ur_enc_change req) ''change cm without encrypted note'') (\<lambda>enc.
                   Inr (Some (ur_cm_change req, enc)))
              else Inr None) (\<lambda>change_note.
     Inr \<lparr>pu_change_note = change_note, pu_producer_note = (ur_cm_fee req, ur_enc_fee req),
          pu_nullifiers = ur_nullifiers req, pu_recipient = recipient, pu_amount = ur_v_pub req\<rparr>))))))))))))))"

definition append_change_note ::
  "'s ledger_ops \<Rightarrow> (felt \<times> encrypted_note) option \<Rightarrow> ('s, nat option) action" where
  "append_change_note ops change_note =
     (case change_note of
        Some (cm, enc) \<Rightarrow> bind_act (op_append_note ops cm enc) (\<lambda>i. ret_act (Some i))
      | None \<Rightarrow> ret_act None)"

definition commit_prepared_unshield ::
  "'s ledger_ops \<Rightarrow> prepared_unshield \<Rightarrow> ('s, unshield_resp) action" where
  "commit_prepared_unshield ops prepared =
     bind_act (op_enqueue_withdrawal ops (pu_recipient prepared) (pu_amount prepared)) (\<lambda>_.
     bind_act (append_change_note ops (pu_change_note prepared)) (\<lambda>change_index.
     bind_act (each_act (op_insert_nullifier ops) (pu_nullifiers prepared)) (\<lambda>_.
     bind_act (op_append_note ops (fst (pu_producer_note prepared)) (snd (pu_producer_note prepared)))
       (\<lambda>producer_index.
     bind_act (op_snapshot_root ops) (\<lambda>_.
     bind_act (write_act (op_note_private_tx_applied ops)) (\<lambda>_.
     ret_act \<lparr>us_change_index = change_index, us_producer_index = producer_index\<rparr>))))))"

definition apply_unshield ::
  "'x ext_scheme \<Rightarrow> 's ledger_ops \<Rightarrow> unshield_req \<Rightarrow> ('s, unshield_resp) action" where
  "apply_unshield X ops req =
     bind_act (read_act (\<lambda>s. prepare_unshield X ops s req)) (\<lambda>prepared. commit_prepared_unshield ops prepared)"

section \<open>Properties\<close>

text \<open>
  The congestion fee. The required fee is the minimum fee doubled for every private
  transaction of the level beyond the first, at most six times; it never saturates or wraps,
  and it is monotone in the number of accepted transactions.
\<close>

theorem required_fee_schedule:
  "unat (required_tx_fee_for_private_tx_count n) = 100000 * 2 ^ min (unat n - 1) 6
   \<and> (m \<le> n \<longrightarrow> required_tx_fee_for_private_tx_count m \<le> required_tx_fee_for_private_tx_count n)"
proof -
  have fee: "unat (required_tx_fee_for_private_tx_count k) = 100000 * 2 ^ min (unat k - 1) 6" for k
  proof -
    let ?s = "min (saturating_sub k 1) 6"
    have s: "unat ?s = min (unat k - 1) 6"
      by (auto simp: min_def saturating_sub_def word_le_nat_alt unat_sub_le split: if_splits)
    have "unat ?s \<le> 6" using s by simp
    then have p: "(2 :: nat) ^ unat ?s \<le> 2 ^ 6" by (intro power_increasing) simp_all
    then have "unat (push_bit (unat ?s) 1 :: u64) = 2 ^ unat ?s"
      by (simp only: unsigned_push_bit_eq unsigned_1) (simp add: push_bit_eq_mult take_bit_eq_mod)
    then show ?thesis
      using p s
      by (simp add: required_tx_fee_for_private_tx_count_def Let_def BASE_PRIVATE_TXS_PER_LEVEL_def
          MAX_DYNAMIC_FEE_STEP_def MIN_TX_FEE_def saturating_mul_def unat_mult_no_wrap saturating_sub_def [of 2])
  qed
  have "m \<le> n \<Longrightarrow> min (unat m - 1) 6 \<le> min (unat n - 1) 6" by (simp add: word_le_nat_alt)
  then show ?thesis by (simp add: fee word_le_nat_alt)
qed

theorem required_fee_schedule_witness:
  "required_tx_fee_for_private_tx_count 1 \<le> required_tx_fee_for_private_tx_count 9"
  using required_fee_schedule [of 9 1] by simp

end
