(* ===== verification/LedgerSpec.thy ===== *)
theory LedgerSpec
  imports LedgerState
begin

text \<open>
  What the ledger promises, independently of how its state is stored: an abstract ledger, its
  step relation, the trace invariants (per-pool conservation of deposits, no nullifier spent
  twice, no shield replayed, every accepted root is the root of a prefix of the notes), and the
  locale \<open>ledger_state\<close> through which every implementation of the interface inherits them.
\<close>

section \<open>The abstract ledger\<close>

record abs_ledger =
  al_domain :: felt
  al_fee :: u64
  al_notes :: "(felt \<times> encrypted_note) list"
  al_nullifiers :: "felt set"
  al_roots :: "felt set"
  al_withdrawals :: "withdrawal_record list"
  al_balance :: "felt \<Rightarrow> nat"
  al_shields :: "felt set"

datatype tx =
    TxDeposit string u64
  | TxShield shield_req
  | TxTransfer transfer_req
  | TxUnshield unshield_req

text \<open>The public outputs a proof must have committed to.\<close>

definition shield_outputs :: "'x ext_scheme \<Rightarrow> felt \<Rightarrow> shield_req \<Rightarrow> felt list" where
  "shield_outputs X ad req =
     [ad, sr_pubkey_hash req, u64_to_felt (sr_v req), u64_to_felt (sr_fee req),
      u64_to_felt (sr_producer_fee req), sr_client_cm req, sr_producer_cm req,
      memo_ct_hash X (sr_client_enc req), memo_ct_hash X (sr_producer_enc req)]"

definition transfer_outputs :: "'x ext_scheme \<Rightarrow> felt \<Rightarrow> transfer_req \<Rightarrow> felt list" where
  "transfer_outputs X ad req =
     [ad, tr_root req] @ tr_nullifiers req @
     [u64_to_felt (tr_fee req), tr_cm_1 req, tr_cm_2 req, tr_cm_3 req,
      memo_ct_hash X (tr_enc_1 req), memo_ct_hash X (tr_enc_2 req), memo_ct_hash X (tr_enc_3 req)]"

definition unshield_outputs :: "'x ext_scheme \<Rightarrow> felt \<Rightarrow> unshield_req \<Rightarrow> string \<Rightarrow> felt list" where
  "unshield_outputs X ad req recipient =
     [ad, ur_root req] @ ur_nullifiers req @
     [u64_to_felt (ur_v_pub req), u64_to_felt (ur_fee req), hash X (as_bytes recipient),
      ur_cm_change req, (case ur_enc_change req of Some enc \<Rightarrow> memo_ct_hash X enc | None \<Rightarrow> ZERO),
      ur_cm_fee req, memo_ct_hash X (ur_enc_fee req)]"

definition proof_binds :: "'x ext_scheme \<Rightarrow> tx_proof \<Rightarrow> felt list \<Rightarrow> bool" where
  "proof_binds X pf outs =
     (case pf of TrustMeBro \<Rightarrow> True
      | Stark _ preimage \<Rightarrow> transition_public_outputs X preimage (length outs) = Inr outs)"

definition shield_debit :: "shield_req \<Rightarrow> nat" where
  "shield_debit req = unat (sr_v req) + unat (sr_fee req) + unat (sr_producer_fee req)"

definition shield_ok :: "'x ext_scheme \<Rightarrow> abs_ledger \<Rightarrow> shield_req \<Rightarrow> bool" where
  "shield_ok X a req \<longleftrightarrow>
     al_fee a \<le> sr_fee req \<and> sr_producer_fee req \<noteq> 0
     \<and> sr_client_cm req \<noteq> ZERO \<and> sr_producer_cm req \<noteq> ZERO
     \<and> sr_client_cm req \<notin> al_shields a
     \<and> note_validate (sr_client_enc req) = Inr () \<and> note_validate (sr_producer_enc req) = Inr ()
     \<and> shield_debit req < 2 ^ 64 \<and> shield_debit req \<le> al_balance a (sr_pubkey_hash req)
     \<and> proof_binds X (sr_proof req) (shield_outputs X (al_domain a) req)
     \<and> length (al_notes a) + 2 \<le> 2 ^ DEPTH"

definition spend_ok :: "abs_ledger \<Rightarrow> u64 \<Rightarrow> felt \<Rightarrow> felt list \<Rightarrow> bool" where
  "spend_ok a fee root nfs \<longleftrightarrow>
     al_fee a \<le> fee \<and> nfs \<noteq> [] \<and> length nfs \<le> 7 \<and> root \<in> al_roots a
     \<and> distinct nfs \<and> set nfs \<inter> al_nullifiers a = {}"

definition transfer_ok :: "'x ext_scheme \<Rightarrow> abs_ledger \<Rightarrow> transfer_req \<Rightarrow> bool" where
  "transfer_ok X a req \<longleftrightarrow>
     spend_ok a (tr_fee req) (tr_root req) (tr_nullifiers req)
     \<and> note_validate (tr_enc_1 req) = Inr () \<and> note_validate (tr_enc_2 req) = Inr ()
     \<and> note_validate (tr_enc_3 req) = Inr ()
     \<and> proof_binds X (tr_proof req) (transfer_outputs X (al_domain a) req)
     \<and> length (al_notes a) + 3 \<le> 2 ^ DEPTH"

definition change_notes :: "unshield_req \<Rightarrow> (felt \<times> encrypted_note) list" where
  "change_notes req =
     (case ur_enc_change req of Some enc \<Rightarrow> [(ur_cm_change req, enc)] | None \<Rightarrow> [])"

definition unshield_ok :: "'x ext_scheme \<Rightarrow> abs_ledger \<Rightarrow> unshield_req \<Rightarrow> string \<Rightarrow> bool" where
  "unshield_ok X a req recipient \<longleftrightarrow>
     validate_l1_withdrawal_recipient X (ur_recipient req) = Inr recipient
     \<and> spend_ok a (ur_fee req) (ur_root req) (ur_nullifiers req)
     \<and> (ur_cm_change req = ZERO \<longleftrightarrow> ur_enc_change req = None)
     \<and> (\<forall>(cm, enc) \<in> set (change_notes req). note_validate enc = Inr ())
     \<and> note_validate (ur_enc_fee req) = Inr () \<and> ur_cm_fee req \<noteq> ZERO
     \<and> proof_binds X (ur_proof req) (unshield_outputs X (al_domain a) req recipient)
     \<and> length (al_notes a) + length (change_notes req) + 1 \<le> 2 ^ DEPTH"

text \<open>
  A step of a private transaction records the root of the extended tree; an implementation may
  forget older roots, and the fee may change.
\<close>

definition roots_step :: "'x ext_scheme \<Rightarrow> (felt \<times> encrypted_note) list \<Rightarrow> felt set \<Rightarrow> felt set \<Rightarrow> bool" where
  "roots_step X notes old new \<longleftrightarrow>
     tree_root X (map fst notes) \<in> new \<and> new \<subseteq> insert (tree_root X (map fst notes)) old"

inductive al_step :: "'x ext_scheme \<Rightarrow> abs_ledger \<Rightarrow> tx \<Rightarrow> abs_ledger \<Rightarrow> bool" for X where
  deposit:
    "parse_deposit_recipient_pubkey_hash X recipient = Inr k \<Longrightarrow>
     al_balance a k + unat amount < 2 ^ 64 \<Longrightarrow>
     al_step X a (TxDeposit recipient amount)
       (a\<lparr>al_balance := (al_balance a)(k := al_balance a k + unat amount)\<rparr>)"
| shield:
    "shield_ok X a req \<Longrightarrow>
     notes = al_notes a @ [(sr_client_cm req, sr_client_enc req), (sr_producer_cm req, sr_producer_enc req)] \<Longrightarrow>
     roots_step X notes (al_roots a) roots \<Longrightarrow>
     al_step X a (TxShield req)
       (a\<lparr>al_balance := (al_balance a)(sr_pubkey_hash req := al_balance a (sr_pubkey_hash req) - shield_debit req),
          al_shields := insert (sr_client_cm req) (al_shields a),
          al_notes := notes, al_roots := roots, al_fee := fee\<rparr>)"
| transfer:
    "transfer_ok X a req \<Longrightarrow>
     notes = al_notes a @ [(tr_cm_1 req, tr_enc_1 req), (tr_cm_2 req, tr_enc_2 req), (tr_cm_3 req, tr_enc_3 req)] \<Longrightarrow>
     roots_step X notes (al_roots a) roots \<Longrightarrow>
     al_step X a (TxTransfer req)
       (a\<lparr>al_nullifiers := al_nullifiers a \<union> set (tr_nullifiers req),
          al_notes := notes, al_roots := roots, al_fee := fee\<rparr>)"
| unshield:
    "unshield_ok X a req recipient \<Longrightarrow>
     notes = al_notes a @ change_notes req @ [(ur_cm_fee req, ur_enc_fee req)] \<Longrightarrow>
     roots_step X notes (al_roots a) roots \<Longrightarrow>
     al_step X a (TxUnshield req)
       (a\<lparr>al_withdrawals := al_withdrawals a @ [\<lparr>wr_recipient = recipient, wr_amount = ur_v_pub req\<rparr>],
          al_nullifiers := al_nullifiers a \<union> set (ur_nullifiers req),
          al_notes := notes, al_roots := roots, al_fee := fee\<rparr>)"

inductive_cases al_step_depositE: "al_step X a (TxDeposit recipient amount) b"
inductive_cases al_step_shieldE: "al_step X a (TxShield req) b"
inductive_cases al_step_transferE: "al_step X a (TxTransfer req) b"
inductive_cases al_step_unshieldE: "al_step X a (TxUnshield req) b"

text \<open>Sequences of accepted transactions.\<close>

inductive al_run :: "'x ext_scheme \<Rightarrow> abs_ledger \<Rightarrow> tx list \<Rightarrow> abs_ledger \<Rightarrow> bool" for X where
  al_run_Nil: "al_run X a [] a"
| al_run_Snoc: "al_run X a txs b \<Longrightarrow> al_step X b t c \<Longrightarrow> al_run X a (txs @ [t]) c"

section \<open>Trace invariants\<close>

fun tx_nullifiers :: "tx \<Rightarrow> felt list" where
  "tx_nullifiers (TxTransfer req) = tr_nullifiers req"
| "tx_nullifiers (TxUnshield req) = ur_nullifiers req"
| "tx_nullifiers _ = []"

fun tx_shield_cms :: "tx \<Rightarrow> felt list" where
  "tx_shield_cms (TxShield req) = [sr_client_cm req]"
| "tx_shield_cms _ = []"

fun tx_credit :: "'x ext_scheme \<Rightarrow> felt \<Rightarrow> tx \<Rightarrow> nat" where
  "tx_credit X k (TxDeposit recipient amount) =
     (if parse_deposit_recipient_pubkey_hash X recipient = Inr k then unat amount else 0)"
| "tx_credit X k _ = 0"

fun tx_debit :: "felt \<Rightarrow> tx \<Rightarrow> nat" where
  "tx_debit k (TxShield req) = (if sr_pubkey_hash req = k then shield_debit req else 0)"
| "tx_debit k _ = 0"

fun tx_withdrawal :: "tx \<Rightarrow> u64 list" where
  "tx_withdrawal (TxUnshield req) = [ur_v_pub req]"
| "tx_withdrawal _ = []"

fun tx_notes :: "tx \<Rightarrow> (felt \<times> encrypted_note) list" where
  "tx_notes (TxShield req) = [(sr_client_cm req, sr_client_enc req), (sr_producer_cm req, sr_producer_enc req)]"
| "tx_notes (TxTransfer req) =
     [(tr_cm_1 req, tr_enc_1 req), (tr_cm_2 req, tr_enc_2 req), (tr_cm_3 req, tr_enc_3 req)]"
| "tx_notes (TxUnshield req) = change_notes req @ [(ur_cm_fee req, ur_enc_fee req)]"
| "tx_notes (TxDeposit _ _) = []"

text \<open>One induction for all: how each component of the ledger is determined by the trace.\<close>

lemma al_run_components:
  assumes "al_run X a txs b"
  shows "al_notes b = al_notes a @ concat (map tx_notes txs)"
    and "al_nullifiers b = al_nullifiers a \<union> set (concat (map tx_nullifiers txs))"
    and "al_shields b = al_shields a \<union> set (concat (map tx_shield_cms txs))"
    and "map wr_amount (al_withdrawals b) = map wr_amount (al_withdrawals a) @ concat (map tx_withdrawal txs)"
    and "al_domain b = al_domain a"
  using assms by (induction rule: al_run.induct) (auto elim!: al_step.cases)

lemma al_run_conserves:
  assumes "al_run X a txs b"
  shows "al_balance a k + sum_list (map (tx_credit X k) txs) = al_balance b k + sum_list (map (tx_debit k) txs)"
  using assms
proof (induction rule: al_run.induct)
  case (al_run_Snoc a txs b t c)
  from al_run_Snoc.hyps(2) have "al_balance b k + tx_credit X k t = al_balance c k + tx_debit k t"
    by cases (auto simp: shield_ok_def)
  with al_run_Snoc.IH show ?case by simp
qed simp

lemma al_run_bounded:
  assumes "al_run X a txs b" "\<forall>k. al_balance a k < 2 ^ 64"
  shows "al_balance b k < 2 ^ 64"
  using assms
proof (induction arbitrary: k rule: al_run.induct)
  case (al_run_Snoc a txs b t c)
  from al_run_Snoc.hyps(2) al_run_Snoc.IH [OF al_run_Snoc.prems] show ?case
    by cases (auto intro: le_less_trans [OF diff_le_self])
qed simp

lemma al_run_no_double_spend:
  assumes "al_run X a txs b"
  shows "distinct (concat (map tx_nullifiers txs)) \<and> set (concat (map tx_nullifiers txs)) \<inter> al_nullifiers a = {}"
  using assms
proof (induction rule: al_run.induct)
  case (al_run_Snoc a txs b t c)
  have "distinct (tx_nullifiers t) \<and> set (tx_nullifiers t) \<inter> al_nullifiers b = {}"
    using al_run_Snoc.hyps(2) by cases (auto simp: transfer_ok_def unshield_ok_def spend_ok_def)
  with al_run_Snoc.IH al_run_components(2) [OF al_run_Snoc.hyps(1)] show ?case by auto
qed simp

lemma al_run_no_shield_replay:
  assumes "al_run X a txs b"
  shows "distinct (concat (map tx_shield_cms txs)) \<and> set (concat (map tx_shield_cms txs)) \<inter> al_shields a = {}"
  using assms
proof (induction rule: al_run.induct)
  case (al_run_Snoc a txs b t c)
  have "distinct (tx_shield_cms t) \<and> set (tx_shield_cms t) \<inter> al_shields b = {}"
    using al_run_Snoc.hyps(2) by cases (auto simp: shield_ok_def)
  with al_run_Snoc.IH al_run_components(3) [OF al_run_Snoc.hyps(1)] show ?case by auto
qed simp

text \<open>Every valid root was the root of the tree at some earlier time.\<close>

definition historic_roots :: "'x ext_scheme \<Rightarrow> abs_ledger \<Rightarrow> bool" where
  "historic_roots X a \<longleftrightarrow>
     (\<forall>r \<in> al_roots a. \<exists>n \<le> length (al_notes a). r = tree_root X (map fst (take n (al_notes a))))"

lemma historic_roots_extend:
  assumes "historic_roots X a" "roots_step X (al_notes a @ new) (al_roots a) roots"
    and "al_notes b = al_notes a @ new" "al_roots b = roots"
  shows "historic_roots X b"
  unfolding historic_roots_def
proof
  fix r
  assume "r \<in> al_roots b"
  then consider "r = tree_root X (map fst (al_notes b))" | "r \<in> al_roots a"
    using assms by (auto simp: roots_step_def)
  then show "\<exists>n \<le> length (al_notes b). r = tree_root X (map fst (take n (al_notes b)))"
  proof cases
    case 1
    then show ?thesis by (intro exI [of _ "length (al_notes b)"]) simp
  next
    case 2
    then obtain n where "n \<le> length (al_notes a)" "r = tree_root X (map fst (take n (al_notes a)))"
      using assms(1) by (auto simp: historic_roots_def)
    then show ?thesis using assms(3) by (intro exI [of _ n]) simp
  qed
qed

lemma al_step_historic: "al_step X a t b \<Longrightarrow> historic_roots X a \<Longrightarrow> historic_roots X b"
proof (induction rule: al_step.induct)
  case (deposit recipient k a amount)
  then show ?case by (simp add: historic_roots_def)
qed (force intro: historic_roots_extend)+

lemma al_run_historic: "al_run X a txs b \<Longrightarrow> historic_roots X a \<Longrightarrow> historic_roots X b"
  by (induction rule: al_run.induct) (auto dest: al_step_historic)

section \<open>The contract of the interface\<close>

text \<open>
  The requests carry 32-byte field elements: their Rust types are fixed-size arrays.
\<close>

fun tx_typed :: "tx \<Rightarrow> bool" where
  "tx_typed (TxDeposit _ _) \<longleftrightarrow> True"
| "tx_typed (TxShield req) \<longleftrightarrow> is_felt (sr_pubkey_hash req) \<and> is_felt (sr_client_cm req) \<and> is_felt (sr_producer_cm req)"
| "tx_typed (TxTransfer req) \<longleftrightarrow> is_felt (tr_root req) \<and> (\<forall>nf \<in> set (tr_nullifiers req). is_felt nf)
     \<and> is_felt (tr_cm_1 req) \<and> is_felt (tr_cm_2 req) \<and> is_felt (tr_cm_3 req)"
| "tx_typed (TxUnshield req) \<longleftrightarrow> is_felt (ur_root req) \<and> (\<forall>nf \<in> set (ur_nullifiers req). is_felt nf)
     \<and> is_felt (ur_cm_change req) \<and> is_felt (ur_cm_fee req)"

text \<open>
  \<open>inv\<close> is the well-formedness of a state and \<open>abs\<close> the ledger it represents. Queries answer
  from that ledger; writes change exactly their part of it. An append is promised to succeed
  below the capacity of the tree, a debit when the pool has been seen to hold the amount, a
  credit when it does not overflow. Appends and withdrawals return the index they wrote to:
  \<open>wfits\<close> says which indices the implementation can count and return.
\<close>

locale ledger_state =
  fixes X :: "'x ext_scheme"
    and ops :: "'s ledger_ops"
    and inv :: "'s \<Rightarrow> bool"
    and abs :: "'s \<Rightarrow> abs_ledger"
    and wfits :: "nat \<Rightarrow> bool"
  assumes auth_domain_law: "inv s \<Longrightarrow> op_auth_domain ops s = Inr (al_domain (abs s))"
    and required_fee_law: "inv s \<Longrightarrow> op_required_tx_fee ops s = Inr (al_fee (abs s))"
    and valid_root_law: "inv s \<Longrightarrow> is_felt r \<Longrightarrow> op_has_valid_root ops s r = Inr (r \<in> al_roots (abs s))"
    and has_nullifier_law: "inv s \<Longrightarrow> is_felt nf \<Longrightarrow> op_has_nullifier ops s nf = Inr (nf \<in> al_nullifiers (abs s))"
    and insert_nullifier_law: "inv s \<Longrightarrow> is_felt nf \<Longrightarrow>
      \<exists>s'. op_insert_nullifier ops nf s = (Inr (), s') \<and> inv s'
           \<and> abs s' = (abs s)\<lparr>al_nullifiers := insert nf (al_nullifiers (abs s))\<rparr>"
    and capacity_law: "inv s \<Longrightarrow> op_ensure_note_capacity ops s n = Inr ()
      \<longleftrightarrow> length (al_notes (abs s)) + n \<le> 2 ^ DEPTH"
    and append_law: "inv s \<Longrightarrow> is_felt cm \<Longrightarrow> note_validate enc = Inr () \<Longrightarrow> length (al_notes (abs s)) < 2 ^ DEPTH \<Longrightarrow>
      wfits (length (al_notes (abs s))) \<Longrightarrow>
      \<exists>s'. op_append_note ops cm enc s = (Inr (length (al_notes (abs s))), s') \<and> inv s'
           \<and> abs s' = (abs s)\<lparr>al_notes := al_notes (abs s) @ [(cm, enc)]\<rparr>"
    and snapshot_law: "inv s \<Longrightarrow>
      \<exists>s' roots. op_snapshot_root ops s = (Inr (), s') \<and> inv s'
           \<and> abs s' = (abs s)\<lparr>al_roots := roots\<rparr> \<and> roots_step X (al_notes (abs s)) (al_roots (abs s)) roots"
    and enqueue_law: "inv s \<Longrightarrow> wfits (length (al_withdrawals (abs s))) \<Longrightarrow> validate_l1_withdrawal_recipient X raw = Inr rcp \<Longrightarrow>
      \<exists>s'. op_enqueue_withdrawal ops rcp amt s = (Inr (length (al_withdrawals (abs s))), s') \<and> inv s'
           \<and> abs s' = (abs s)\<lparr>al_withdrawals := al_withdrawals (abs s) @ [\<lparr>wr_recipient = rcp, wr_amount = amt\<rparr>]\<rparr>"
    and tx_applied_law: "inv s \<Longrightarrow> inv (op_note_private_tx_applied ops s)
           \<and> (\<exists>fee. abs (op_note_private_tx_applied ops s) = (abs s)\<lparr>al_fee := fee\<rparr>)"
    and balance_law: "inv s \<Longrightarrow> is_felt k \<Longrightarrow>
      \<exists>b. op_deposit_balance ops s k = Inr b
          \<and> al_balance (abs s) k = (case b of None \<Rightarrow> 0 | Some w \<Rightarrow> unat w)"
    and credit_law: "inv s \<Longrightarrow> is_felt k \<Longrightarrow> al_balance (abs s) k + unat amt < 2 ^ 64 \<Longrightarrow>
      \<exists>s'. op_credit_deposit ops k amt s = (Inr (), s') \<and> inv s'
           \<and> abs s' = (abs s)\<lparr>al_balance := (al_balance (abs s))(k := al_balance (abs s) k + unat amt)\<rparr>"
    and credit_overflow_law: "inv s \<Longrightarrow> is_felt k \<Longrightarrow> 2 ^ 64 \<le> al_balance (abs s) k + unat amt \<Longrightarrow>
      \<exists>m. op_credit_deposit ops k amt s = (Inl (Err m), s)"
    and debit_law: "inv s \<Longrightarrow> is_felt k \<Longrightarrow> op_deposit_balance ops s k = Inr (Some b) \<Longrightarrow> amt \<le> b \<Longrightarrow>
      \<exists>s'. op_debit_deposit ops k amt s = (Inr (), s') \<and> inv s'
           \<and> abs s' = (abs s)\<lparr>al_balance := (al_balance (abs s))(k := al_balance (abs s) k - unat amt)\<rparr>"
    and applied_shield_law: "inv s \<Longrightarrow> is_felt c \<Longrightarrow> op_has_applied_shield ops s c = Inr (c \<in> al_shields (abs s))"
    and mark_shield_law: "inv s \<Longrightarrow> is_felt c \<Longrightarrow>
      \<exists>s'. op_mark_applied_shield ops c s = (Inr (), s') \<and> inv s'
           \<and> abs s' = (abs s)\<lparr>al_shields := insert c (al_shields (abs s))\<rparr>"

section \<open>Facts on the pure checks\<close>

lemma has_duplicate_iff: "has_duplicate nfs \<longleftrightarrow> \<not> distinct nfs"
proof -
  have "has_duplicate nfs \<longleftrightarrow> (\<exists>i j. i < j \<and> j < length nfs \<and> nfs ! i = nfs ! j)"
    by (simp add: has_duplicate_def list_ex_iff Let_def Bex_def Suc_le_eq) (meson less_trans)
  also have "\<dots> \<longleftrightarrow> \<not> distinct nfs"
  proof
    assume "\<not> distinct nfs"
    then obtain i j where "i < length nfs" "j < length nfs" "i \<noteq> j" "nfs ! i = nfs ! j"
      by (auto simp: distinct_conv_nth)
    then show "\<exists>i j. i < j \<and> j < length nfs \<and> nfs ! i = nfs ! j"
      by (metis linorder_neqE_nat)
  qed (auto simp: nth_eq_iff_index_eq)
  finally show ?thesis .
qed

lemma check_output_nullifiers_iff:
  "length tail \<ge> 2 + i + length nfs \<Longrightarrow>
   check_output_nullifiers tail i nfs = Inr () \<longleftrightarrow> slice (2 + i) (2 + i + length nfs) tail = nfs"
proof (induction nfs arbitrary: i)
  case Nil
  then show ?case by (simp add: slice_def)
next
  case (Cons nf nfs)
  have "slice (2 + i) (2 + i + length (nf # nfs)) tail
        = tail ! (2 + i) # slice (2 + Suc i) (2 + Suc i + length nfs) tail"
    using Cons.prems by (simp add: slice_def Cons_nth_drop_Suc [symmetric])
  with Cons.IH [of "Suc i"] Cons.prems show ?case by (auto simp: res_simps)
qed

lemma outputs_cases:
  fixes tail :: "felt list"
  assumes "length tail = 2 + n + 7"
  obtains a b ns c0 c1 c2 c3 c4 c5 c6
    where "tail = a # b # ns @ [c0, c1, c2, c3, c4, c5, c6]" "length ns = n"
proof -
  obtain a b rest where t: "tail = a # b # rest" "length rest = n + 7"
    using assms by (cases tail; cases "tl tail") auto
  have seven: "length xs = 7 \<Longrightarrow> \<exists>c0 c1 c2 c3 c4 c5 c6. xs = [c0, c1, c2, c3, c4, c5, c6]" for xs :: "felt list"
    by (auto simp: length_Suc_conv numeral_eq_Suc)
  have "length (drop n rest) = 7" using t by simp
  from seven [OF this] obtain c0 c1 c2 c3 c4 c5 c6 where "drop n rest = [c0, c1, c2, c3, c4, c5, c6]"
    by blast
  with t have "tail = a # b # take n rest @ [c0, c1, c2, c3, c4, c5, c6]"
    by (metis append_take_drop_id)
  with t show ?thesis by (intro that [of a b "take n rest" c0 c1 c2 c3 c4 c5 c6]) simp_all
qed

lemma check_output_nullifiers_layout:
  assumes "length ns = length nfs"
  shows "check_output_nullifiers (a # b # ns @ cs) 0 nfs = Inr () \<longleftrightarrow> ns = nfs"
  using check_output_nullifiers_iff [of 0 nfs "a # b # ns @ cs"] assms
  by (simp add: slice_def)

lemma layout_pos:
  assumes "length ns = n" "i = 2 + n + k"
  shows "(a # b # ns @ cs) ! i = cs ! k"
  using assms by (simp add: nth_append)

lemma check_shield_outputs_iff:
  "check_shield_outputs X ad req (memo_ct_hash X (sr_client_enc req)) (memo_ct_hash X (sr_producer_enc req)) = Inr ()
   \<longleftrightarrow> proof_binds X (sr_proof req) (shield_outputs X ad req)"
proof (cases "sr_proof req")
  case TrustMeBro
  then show ?thesis by (simp add: check_shield_outputs_def proof_binds_def)
next
  case (Stark pb pre)
  show ?thesis
  proof (cases "transition_public_outputs X pre 9")
    case (Inl e)
    moreover have "length (shield_outputs X ad req) = 9" by (simp add: shield_outputs_def)
    ultimately show ?thesis using Stark by (simp add: check_shield_outputs_def proof_binds_def)
  next
    case (Inr outs)
    then have "length outs = 9" by (rule transition_public_outputs_length)
    then obtain a0 a1 a2 a3 a4 a5 a6 a7 a8 where "outs = [a0, a1, a2, a3, a4, a5, a6, a7, a8]"
      by (auto simp: length_Suc_conv numeral_eq_Suc)
    then show ?thesis
      using Stark Inr by (auto simp: check_shield_outputs_def proof_binds_def shield_outputs_def res_simps numeral_eq_Suc)
  qed
qed

lemma check_transfer_outputs_iff:
  assumes "op_auth_domain ops s = Inr ad"
  shows "check_transfer_outputs X ops s req = Inr () \<longleftrightarrow> proof_binds X (tr_proof req) (transfer_outputs X ad req)"
proof (cases "tr_proof req")
  case TrustMeBro
  then show ?thesis by (simp add: check_transfer_outputs_def proof_binds_def)
next
  case (Stark pb pre)
  let ?n = "length (tr_nullifiers req)"
  have len: "length (transfer_outputs X ad req) = 2 + ?n + 7" by (simp add: transfer_outputs_def)
  show ?thesis
  proof (cases "transition_public_outputs X pre (2 + ?n + 7)")
    case (Inl e)
    then show ?thesis
      using Stark len by (simp add: check_transfer_outputs_def proof_binds_def Let_def del: add_2_eq_Suc)
  next
    case (Inr tail)
    then obtain a b ns c0 c1 c2 c3 c4 c5 c6
      where t: "tail = a # b # ns @ [c0, c1, c2, c3, c4, c5, c6]" "length ns = ?n"
      by (rule outputs_cases [OF transition_public_outputs_length])
    have "proof_binds X (tr_proof req) (transfer_outputs X ad req) \<longleftrightarrow> tail = transfer_outputs X ad req"
      using Stark Inr len by (simp add: proof_binds_def)
    also have "\<dots> \<longleftrightarrow> [a, b] @ ns @ [c0, c1, c2, c3, c4, c5, c6] = transfer_outputs X ad req"
      by (simp add: t)
    also have "\<dots> \<longleftrightarrow> check_transfer_outputs X ops s req = Inr ()"
    proof -
      note at = layout_pos [OF t(2), of _ _ a b "[c0, c1, c2, c3, c4, c5, c6]", folded t(1)]
      have pos: "tail ! 0 = a" "tail ! 1 = b"
        "tail ! (2 + ?n) = c0" "tail ! (2 + ?n + 1) = c1" "tail ! (2 + ?n + 1 + 1) = c2"
        "tail ! (2 + ?n + 1 + 2) = c3" "tail ! (2 + ?n + 1 + 3) = c4" "tail ! (2 + ?n + 1 + 4) = c5"
        "tail ! (2 + ?n + 1 + 5) = c6"
        using at [of "2 + ?n" 0] at [of "2 + ?n + 1" 1] at [of "2 + ?n + 1 + 1" 2] at [of "2 + ?n + 1 + 2" 3] at [of "2 + ?n + 1 + 3" 4] at [of "2 + ?n + 1 + 4" 5] at [of "2 + ?n + 1 + 5" 6]
        by (simp_all add: t(1))
      note nf = check_output_nullifiers_layout [OF t(2), of a b, folded t(1)]
      show ?thesis
        unfolding check_transfer_outputs_def Stark tx_proof.case Let_def Inr attempt_simps assms pos
        using nf t(2) by (auto simp: res_simps transfer_outputs_def t(1))
    qed
    finally show ?thesis by simp
  qed
qed

lemma check_unshield_outputs_iff:
  assumes "op_auth_domain ops s = Inr ad"
  shows "check_unshield_outputs X ops s req rcp = Inr ()
         \<longleftrightarrow> proof_binds X (ur_proof req) (unshield_outputs X ad req rcp)"
proof (cases "ur_proof req")
  case TrustMeBro
  then show ?thesis by (simp add: check_unshield_outputs_def proof_binds_def)
next
  case (Stark pb pre)
  let ?n = "length (ur_nullifiers req)"
  have len: "length (unshield_outputs X ad req rcp) = 2 + ?n + 7" by (simp add: unshield_outputs_def)
  show ?thesis
  proof (cases "transition_public_outputs X pre (2 + ?n + 7)")
    case (Inl e)
    then show ?thesis
      using Stark len by (simp add: check_unshield_outputs_def proof_binds_def Let_def del: add_2_eq_Suc)
  next
    case (Inr tail)
    then obtain a b ns c0 c1 c2 c3 c4 c5 c6
      where t: "tail = a # b # ns @ [c0, c1, c2, c3, c4, c5, c6]" "length ns = ?n"
      by (rule outputs_cases [OF transition_public_outputs_length])
    have "proof_binds X (ur_proof req) (unshield_outputs X ad req rcp) \<longleftrightarrow> tail = unshield_outputs X ad req rcp"
      using Stark Inr len by (simp add: proof_binds_def)
    also have "\<dots> \<longleftrightarrow> [a, b] @ ns @ [c0, c1, c2, c3, c4, c5, c6] = unshield_outputs X ad req rcp"
      by (simp add: t)
    also have "\<dots> \<longleftrightarrow> check_unshield_outputs X ops s req rcp = Inr ()"
    proof -
      note at = layout_pos [OF t(2), of _ _ a b "[c0, c1, c2, c3, c4, c5, c6]", folded t(1)]
      have pos: "tail ! 0 = a" "tail ! 1 = b"
        "tail ! (2 + ?n) = c0" "tail ! (3 + ?n) = c1" "tail ! (4 + ?n) = c2"
        "tail ! (5 + ?n) = c3" "tail ! (6 + ?n) = c4" "tail ! (7 + ?n) = c5"
        "tail ! (8 + ?n) = c6"
        using at [of "2 + ?n" 0] at [of "3 + ?n" 1] at [of "4 + ?n" 2] at [of "5 + ?n" 3] at [of "6 + ?n" 4] at [of "7 + ?n" 5] at [of "8 + ?n" 6]
        by (simp_all add: t(1))
      note nf = check_output_nullifiers_layout [OF t(2), of a b, folded t(1)]
      show ?thesis
        unfolding check_unshield_outputs_def Stark tx_proof.case Let_def Inr attempt_simps assms pos
        using nf t(2) by (cases "ur_enc_change req") (auto simp: res_simps unshield_outputs_def t(1))
    qed
    finally show ?thesis by simp
  qed
qed

section \<open>Sequences of requests\<close>

text \<open>A request is accepted when its transition returns \<open>Ok\<close>.\<close>

definition accepted :: "'a res \<times> 's \<Rightarrow> bool \<times> 's" where
  "accepted r = (case fst r of Inl _ \<Rightarrow> False | Inr _ \<Rightarrow> True, snd r)"

fun apply_tx :: "'x ext_scheme \<Rightarrow> 's ledger_ops \<Rightarrow> tx \<Rightarrow> 's \<Rightarrow> bool \<times> 's" where
  "apply_tx X ops (TxDeposit recipient amount) s = accepted (apply_deposit X ops recipient amount s)"
| "apply_tx X ops (TxShield req) s = accepted (apply_shield X ops req s)"
| "apply_tx X ops (TxTransfer req) s = accepted (apply_transfer X ops req s)"
| "apply_tx X ops (TxUnshield req) s = accepted (apply_unshield X ops req s)"

text \<open>The accepted requests of a sequence, and the final state.\<close>

fun run_txs :: "'x ext_scheme \<Rightarrow> 's ledger_ops \<Rightarrow> tx list \<Rightarrow> 's \<Rightarrow> tx list \<times> 's" where
  "run_txs X ops [] s = ([], s)"
| "run_txs X ops (t # ts) s =
     (let (ok, s1) = apply_tx X ops t s; (acc, s2) = run_txs X ops ts s1
      in (if ok then t # acc else acc, s2))"

text \<open>The guard of a step, as a predicate on the abstract ledger.\<close>

fun tx_ok :: "'x ext_scheme \<Rightarrow> abs_ledger \<Rightarrow> tx \<Rightarrow> bool" where
  "tx_ok X a (TxDeposit recipient amount) \<longleftrightarrow>
     (\<exists>k. parse_deposit_recipient_pubkey_hash X recipient = Inr k \<and> al_balance a k + unat amount < 2 ^ 64)"
| "tx_ok X a (TxShield req) \<longleftrightarrow> shield_ok X a req"
| "tx_ok X a (TxTransfer req) \<longleftrightarrow> transfer_ok X a req"
| "tx_ok X a (TxUnshield req) \<longleftrightarrow> (\<exists>rcp. unshield_ok X a req rcp)"

lemma al_run_trans: "al_run X b ts c \<Longrightarrow> al_run X a txs b \<Longrightarrow> al_run X a (txs @ ts) c"
proof (induction rule: al_run.induct)
  case (al_run_Snoc b ts c t d)
  then show ?case using al_run.al_run_Snoc [of X a "txs @ ts" c t d] by simp
qed simp

lemma al_run_Cons: "al_step X a t b \<Longrightarrow> al_run X b ts c \<Longrightarrow> al_run X a (t # ts) c"
proof -
  assume "al_step X a t b" "al_run X b ts c"
  from al_run_trans [OF this(2) al_run_Snoc [OF al_run_Nil this(1)]] show ?thesis by simp
qed

text \<open>Room for the indices of \<open>k\<close> more transactions, each of which adds at most three notes and a withdrawal.\<close>

definition index_room :: "(nat \<Rightarrow> bool) \<Rightarrow> abs_ledger \<Rightarrow> nat \<Rightarrow> bool" where
  "index_room ok a k \<longleftrightarrow>
     (\<forall>n. n < length (al_notes a) + 3 * k \<or> n < length (al_withdrawals a) + k \<longrightarrow> ok n)"

lemma index_room_mono: "index_room ok a k \<Longrightarrow> m \<le> k \<Longrightarrow> index_room ok a m"
  by (auto simp: index_room_def)

lemma index_room_1:
  assumes "index_room ok a 1"
  shows "ok (length (al_withdrawals a))" "i < 3 \<Longrightarrow> ok (length (al_notes a) + i)"
    "ok (length (al_notes a))" "ok (Suc (length (al_notes a)))" "ok (Suc (Suc (length (al_notes a))))"
  using assms by (simp_all add: index_room_def)

lemma index_room_step:
  assumes "al_step X a t b" "index_room ok a (Suc k)"
  shows "index_room ok b k"
proof -
  have "length (al_withdrawals b) \<le> Suc (length (al_withdrawals a))"
    "length (al_notes b) \<le> length (al_notes a) + 3"
    using assms(1) by (induction rule: al_step.induct) (simp_all add: change_notes_def split: option.split)
  then show ?thesis using assms(2) by (auto simp: index_room_def)
qed

lemma index_room_all [simp]: "index_room (\<lambda>_. True) a k"
  by (simp add: index_room_def)

section \<open>Transitions of any implementation\<close>

context ledger_state
begin

lemma insert_nullifiers:
  assumes "inv s" "\<forall>nf \<in> set nfs. is_felt nf"
  shows "\<exists>s'. each_act (op_insert_nullifier ops) nfs s = (Inr (), s') \<and> inv s'
              \<and> abs s' = (abs s)\<lparr>al_nullifiers := al_nullifiers (abs s) \<union> set nfs\<rparr>"
  using assms
proof (induction nfs arbitrary: s)
  case Nil
  then show ?case by simp
next
  case (Cons nf nfs)
  then obtain s1 where s1: "op_insert_nullifier ops nf s = (Inr (), s1)" "inv s1"
    "abs s1 = (abs s)\<lparr>al_nullifiers := insert nf (al_nullifiers (abs s))\<rparr>"
    using insert_nullifier_law [of s nf] by auto
  with Cons.IH [of s1] Cons.prems obtain s2 where
    "each_act (op_insert_nullifier ops) nfs s1 = (Inr (), s2)" "inv s2"
    "abs s2 = (abs s1)\<lparr>al_nullifiers := al_nullifiers (abs s1) \<union> set nfs\<rparr>" by auto
  then show ?case using s1 by (simp add: bind_act_def)
qed

lemma finish_tx:
  assumes "inv s"
  shows "\<exists>s' roots fee. bind_act (op_snapshot_root ops) (\<lambda>_.
             bind_act (write_act (op_note_private_tx_applied ops)) (\<lambda>_. ret_act r)) s = (Inr r, s')
           \<and> inv s' \<and> abs s' = (abs s)\<lparr>al_roots := roots, al_fee := fee\<rparr>
           \<and> roots_step X (al_notes (abs s)) (al_roots (abs s)) roots"
proof -
  obtain s1 roots where s1: "op_snapshot_root ops s = (Inr (), s1)" "inv s1"
    "abs s1 = (abs s)\<lparr>al_roots := roots\<rparr>" "roots_step X (al_notes (abs s)) (al_roots (abs s)) roots"
    using snapshot_law [OF assms] by blast
  moreover obtain fee where "inv (op_note_private_tx_applied ops s1)"
    "abs (op_note_private_tx_applied ops s1) = (abs s1)\<lparr>al_fee := fee\<rparr>"
    using tx_applied_law [OF s1(2)] by blast
  ultimately show ?thesis by (auto simp: bind_act_def)
qed

text \<open>Acceptance of a request is exactly the abstract guard.\<close>

lemma check_unspent_iff:
  assumes "inv s" "\<forall>nf \<in> set nfs. is_felt nf"
  shows "check_unspent X ops s nfs = Inr () \<longleftrightarrow> set nfs \<inter> al_nullifiers (abs s) = {}"
  using assms(2) by (induction nfs) (auto simp: has_nullifier_law [OF assms(1)] res_simps)

lemma check_transfer_iff:
  assumes "inv s" "tx_typed (TxTransfer req)"
  shows "check_transfer X ops s req = Inr () \<longleftrightarrow> transfer_ok X (abs s) req"
  using assms
  by (auto simp: check_transfer_def transfer_ok_def spend_ok_def res_simps Let_def required_fee_law
      valid_root_law check_unspent_iff has_duplicate_iff capacity_law auth_domain_law not_less
      check_transfer_outputs_iff [OF auth_domain_law])

lemma shield_debit_word:
  "(case checked_add (sr_v req) (sr_fee req) of None \<Rightarrow> None | Some x \<Rightarrow> checked_add x (sr_producer_fee req)) = Some d
   \<longleftrightarrow> shield_debit req < 2 ^ 64 \<and> unat d = shield_debit req"
proof (cases "unat (sr_v req) + unat (sr_fee req) < 2 ^ 64")
  case True
  then have x: "checked_add (sr_v req) (sr_fee req) = Some (sr_v req + sr_fee req)"
    "unat (sr_v req + sr_fee req) = unat (sr_v req) + unat (sr_fee req)"
    by (simp_all add: checked_add_def unat_add_no_wrap)
  show ?thesis
    unfolding x(1) option.case checked_add_Some x(2) shield_debit_def
    using x(2) unat_add_no_wrap [of "sr_v req + sr_fee req" "sr_producer_fee req"]
    by (auto simp: word_unat_eq_iff)
next
  case False
  then show ?thesis by (simp add: checked_add_def shield_debit_def)
qed

lemma prepare_shield_iff:
  assumes "inv s" "tx_typed (TxShield req)"
  shows "prepare_shield X ops s req = Inr p \<longleftrightarrow>
     shield_ok X (abs s) req
     \<and> p = \<lparr>ps_pubkey_hash = sr_pubkey_hash req, ps_debit = word_of_nat (shield_debit req),
            ps_client_cm = sr_client_cm req, ps_client_enc = sr_client_enc req,
            ps_producer_cm = sr_producer_cm req, ps_producer_enc = sr_producer_enc req\<rparr>"
proof -
  obtain b where b: "op_deposit_balance ops s (sr_pubkey_hash req) = Inr b"
    "al_balance (abs s) (sr_pubkey_hash req) = (case b of None \<Rightarrow> 0 | Some w \<Rightarrow> unat w)"
    using balance_law assms by fastforce
  have pos: "sr_producer_fee req \<noteq> 0 \<Longrightarrow> 0 < shield_debit req"
    by (simp add: shield_debit_def unat_gt_0)
  have d: "shield_debit req < 2 ^ 64 \<Longrightarrow> unat d = shield_debit req \<longleftrightarrow> d = word_of_nat (shield_debit req)"
    for d :: u64
    by (auto simp: word_unat_eq_iff unat_of_nat_small)
  show ?thesis
    using assms b pos
    by (cases b)
       (auto simp: prepare_shield_def shield_ok_def res_simps Let_def required_fee_law applied_shield_law
          auth_domain_law capacity_law check_shield_outputs_iff shield_debit_word d not_less
          word_le_nat_alt unat_of_nat_small)
qed

lemma prepare_unshield_iff:
  assumes "inv s" "tx_typed (TxUnshield req)"
  shows "prepare_unshield X ops s req = Inr p \<longleftrightarrow>
     unshield_ok X (abs s) req (pu_recipient p)
     \<and> p = \<lparr>pu_change_note = map_option (\<lambda>enc. (ur_cm_change req, enc)) (ur_enc_change req),
            pu_producer_note = (ur_cm_fee req, ur_enc_fee req), pu_nullifiers = ur_nullifiers req,
            pu_recipient = pu_recipient p, pu_amount = ur_v_pub req\<rparr>"
  using assms
  by (cases "ur_enc_change req"; cases "ur_cm_change req = ZERO")
     (auto simp: prepare_unshield_def unshield_ok_def spend_ok_def res_simps Let_def required_fee_law
        valid_root_law check_unspent_iff has_duplicate_iff capacity_law auth_domain_law not_less
        check_unshield_outputs_iff [OF auth_domain_law] change_notes_def)

lemma append_step:
  assumes "inv s" "is_felt cm" "note_validate enc = Inr ()" "length (al_notes (abs s)) < 2 ^ DEPTH"
    and "wfits (length (al_notes (abs s)))"
  obtains s' where "op_append_note ops cm enc s = (Inr (length (al_notes (abs s))), s')" "inv s'"
    "abs s' = (abs s)\<lparr>al_notes := al_notes (abs s) @ [(cm, enc)]\<rparr>"
  using append_law [OF assms] by blast

lemma apply_shield_step:
  assumes s: "inv s" "tx_typed (TxShield req)" and ok: "shield_ok X (abs s) req"
    and room: "index_room wfits (abs s) 1"
  shows "\<exists>s'. apply_shield X ops req s =
      (Inr \<lparr>ss_cm = sr_client_cm req, ss_index = length (al_notes (abs s)),
            ss_producer_cm = sr_producer_cm req, ss_producer_index = length (al_notes (abs s)) + 1\<rparr>, s')
     \<and> inv s' \<and> al_step X (abs s) (TxShield req) (abs s')"
proof -
  let ?k = "sr_pubkey_hash req" and ?d = "word_of_nat (shield_debit req) :: u64"
  have d: "unat ?d = shield_debit req" using ok by (simp add: shield_ok_def unat_of_nat_small)
  have typed: "is_felt ?k" "is_felt (sr_client_cm req)" "is_felt (sr_producer_cm req)" using s by simp_all
  have valid: "note_validate (sr_client_enc req) = Inr ()" "note_validate (sr_producer_enc req) = Inr ()"
    and cap: "length (al_notes (abs s)) + 2 \<le> 2 ^ DEPTH"
    using ok by (simp_all add: shield_ok_def)
  obtain ob where ob: "op_deposit_balance ops s ?k = Inr ob"
    "al_balance (abs s) ?k = (case ob of None \<Rightarrow> 0 | Some w \<Rightarrow> unat w)"
    using balance_law [OF s(1) typed(1)] by blast
  have "0 < shield_debit req" using ok by (simp add: shield_ok_def shield_debit_def unat_gt_0)
  then obtain b where b: "ob = Some b" "?d \<le> b"
    using ob ok d by (cases ob) (auto simp: shield_ok_def word_le_nat_alt)
  obtain s1 where s1: "op_debit_deposit ops ?k ?d s = (Inr (), s1)" "inv s1"
    "abs s1 = (abs s)\<lparr>al_balance := (al_balance (abs s))(?k := al_balance (abs s) ?k - shield_debit req)\<rparr>"
    using debit_law [OF s(1) typed(1)] ob(1) b d by metis
  obtain s2 where s2: "op_mark_applied_shield ops (sr_client_cm req) s1 = (Inr (), s2)" "inv s2"
    "abs s2 = (abs s1)\<lparr>al_shields := insert (sr_client_cm req) (al_shields (abs s1))\<rparr>"
    using mark_shield_law [OF s1(2) typed(2)] by blast
  obtain s3 where s3: "op_append_note ops (sr_client_cm req) (sr_client_enc req) s2 = (Inr (length (al_notes (abs s2))), s3)"
    "inv s3" "abs s3 = (abs s2)\<lparr>al_notes := al_notes (abs s2) @ [(sr_client_cm req, sr_client_enc req)]\<rparr>"
    using append_step [OF s2(2) typed(2) valid(1)] cap s1(3) s2(3) index_room_1 [OF room] by auto
  obtain s4 where s4: "op_append_note ops (sr_producer_cm req) (sr_producer_enc req) s3 = (Inr (length (al_notes (abs s3))), s4)"
    "inv s4" "abs s4 = (abs s3)\<lparr>al_notes := al_notes (abs s3) @ [(sr_producer_cm req, sr_producer_enc req)]\<rparr>"
    using append_step [OF s3(2) typed(3) valid(2)] cap s1(3) s2(3) s3(3) index_room_1 [OF room] by auto
  let ?r = "\<lparr>ss_cm = sr_client_cm req, ss_index = length (al_notes (abs s)),
            ss_producer_cm = sr_producer_cm req, ss_producer_index = length (al_notes (abs s)) + 1\<rparr>"
  obtain s5 roots fee where s5: "bind_act (op_snapshot_root ops) (\<lambda>_.
             bind_act (write_act (op_note_private_tx_applied ops)) (\<lambda>_. ret_act ?r)) s4 = (Inr ?r, s5)"
    "inv s5" "abs s5 = (abs s4)\<lparr>al_roots := roots, al_fee := fee\<rparr>"
    "roots_step X (al_notes (abs s4)) (al_roots (abs s4)) roots"
    using finish_tx [OF s4(2)] by metis
  have "prepare_shield X ops s req = Inr \<lparr>ps_pubkey_hash = ?k, ps_debit = ?d,
      ps_client_cm = sr_client_cm req, ps_client_enc = sr_client_enc req,
      ps_producer_cm = sr_producer_cm req, ps_producer_enc = sr_producer_enc req\<rparr>"
    using ok by (simp add: prepare_shield_iff [OF s])
  then have "apply_shield X ops req s = (Inr ?r, s5)"
    using s1 s2 s3 s4 s5(1)
    by (simp add: apply_shield_def commit_prepared_shield_def bind_act_def)
  moreover have "al_step X (abs s) (TxShield req) (abs s5)"
    using al_step.shield [OF ok refl, of roots fee] s1(3) s2(3) s3(3) s4(3) s5(3,4) by simp
  ultimately show ?thesis using s5(2) by blast
qed

lemma apply_transfer_step:
  assumes s: "inv s" "tx_typed (TxTransfer req)" and ok: "transfer_ok X (abs s) req"
    and room: "index_room wfits (abs s) 1"
  shows "\<exists>s'. apply_transfer X ops req s =
      (Inr \<lparr>ts_index_1 = length (al_notes (abs s)), ts_index_2 = length (al_notes (abs s)) + 1,
            ts_index_3 = length (al_notes (abs s)) + 2\<rparr>, s')
     \<and> inv s' \<and> al_step X (abs s) (TxTransfer req) (abs s')"
proof -
  have typed: "is_felt (tr_cm_1 req)" "is_felt (tr_cm_2 req)" "is_felt (tr_cm_3 req)"
    "\<forall>nf \<in> set (tr_nullifiers req). is_felt nf" using s by simp_all
  have valid: "note_validate (tr_enc_1 req) = Inr ()" "note_validate (tr_enc_2 req) = Inr ()"
    "note_validate (tr_enc_3 req) = Inr ()" and cap: "length (al_notes (abs s)) + 3 \<le> 2 ^ DEPTH"
    using ok by (simp_all add: transfer_ok_def)
  obtain s1 where s1: "op_append_note ops (tr_cm_1 req) (tr_enc_1 req) s = (Inr (length (al_notes (abs s))), s1)"
    "inv s1" "abs s1 = (abs s)\<lparr>al_notes := al_notes (abs s) @ [(tr_cm_1 req, tr_enc_1 req)]\<rparr>"
    using append_step [OF s(1) typed(1) valid(1)] cap index_room_1 [OF room] by auto
  obtain s2 where s2: "op_append_note ops (tr_cm_2 req) (tr_enc_2 req) s1 = (Inr (length (al_notes (abs s1))), s2)"
    "inv s2" "abs s2 = (abs s1)\<lparr>al_notes := al_notes (abs s1) @ [(tr_cm_2 req, tr_enc_2 req)]\<rparr>"
    using append_step [OF s1(2) typed(2) valid(2)] cap s1(3) index_room_1 [OF room] by auto
  obtain s3 where s3: "op_append_note ops (tr_cm_3 req) (tr_enc_3 req) s2 = (Inr (length (al_notes (abs s2))), s3)"
    "inv s3" "abs s3 = (abs s2)\<lparr>al_notes := al_notes (abs s2) @ [(tr_cm_3 req, tr_enc_3 req)]\<rparr>"
    using append_step [OF s2(2) typed(3) valid(3)] cap s1(3) s2(3) index_room_1 [OF room] by auto
  obtain s4 where s4: "each_act (op_insert_nullifier ops) (tr_nullifiers req) s3 = (Inr (), s4)" "inv s4"
    "abs s4 = (abs s3)\<lparr>al_nullifiers := al_nullifiers (abs s3) \<union> set (tr_nullifiers req)\<rparr>"
    using insert_nullifiers [OF s3(2) typed(4)] by blast
  let ?r = "\<lparr>ts_index_1 = length (al_notes (abs s)), ts_index_2 = length (al_notes (abs s)) + 1,
            ts_index_3 = length (al_notes (abs s)) + 2\<rparr>"
  obtain s5 roots fee where s5: "bind_act (op_snapshot_root ops) (\<lambda>_.
             bind_act (write_act (op_note_private_tx_applied ops)) (\<lambda>_. ret_act ?r)) s4 = (Inr ?r, s5)"
    "inv s5" "abs s5 = (abs s4)\<lparr>al_roots := roots, al_fee := fee\<rparr>"
    "roots_step X (al_notes (abs s4)) (al_roots (abs s4)) roots"
    using finish_tx [OF s4(2)] by metis
  have "apply_transfer X ops req s = (Inr ?r, s5)"
    using check_transfer_iff [OF s] ok s1 s2 s3 s4 s5(1)
    by (simp add: apply_transfer_def bind_act_def)
  moreover have "abs s5 = (abs s)\<lparr>al_nullifiers := al_nullifiers (abs s) \<union> set (tr_nullifiers req),
      al_notes := al_notes (abs s4), al_roots := roots, al_fee := fee\<rparr>"
    using s1(3) s2(3) s3(3) s4(3) s5(3) by (intro abs_ledger.equality) simp_all
  then have "al_step X (abs s) (TxTransfer req) (abs s5)"
    using s1(3) s2(3) s3(3) s4(3) s5(4) by (simp only:) (rule al_step.transfer [OF ok], simp_all)
  ultimately show ?thesis using s5(2) by blast
qed

lemma append_change_step:
  assumes "inv s" "\<forall>x \<in> set_option c. is_felt (fst x) \<and> note_validate (snd x) = Inr ()"
    and "length (al_notes (abs s)) < 2 ^ DEPTH" "wfits (length (al_notes (abs s)))"
  obtains s' where
    "append_change_note ops c s = (Inr (map_option (\<lambda>_. length (al_notes (abs s))) c), s')" "inv s'"
    "abs s' = (abs s)\<lparr>al_notes := al_notes (abs s) @ (case c of None \<Rightarrow> [] | Some x \<Rightarrow> [x])\<rparr>"
proof (cases c)
  case None
  then show ?thesis using assms(1) by (intro that [of s]) (simp_all add: append_change_note_def)
next
  case (Some x)
  obtain s' where "op_append_note ops (fst x) (snd x) s = (Inr (length (al_notes (abs s))), s')" "inv s'"
    "abs s' = (abs s)\<lparr>al_notes := al_notes (abs s) @ [(fst x, snd x)]\<rparr>"
    using append_step [OF assms(1), of "fst x" "snd x"] assms Some by auto
  then show ?thesis
    using Some by (intro that [of s']) (auto simp: append_change_note_def bind_act_def split: prod.split)
qed

lemma apply_unshield_step:
  assumes s: "inv s" "tx_typed (TxUnshield req)" and ok: "unshield_ok X (abs s) req rcp"
    and room: "index_room wfits (abs s) 1"
  shows "\<exists>s' resp. apply_unshield X ops req s = (Inr resp, s')
     \<and> us_change_index resp = map_option (\<lambda>_. length (al_notes (abs s))) (ur_enc_change req)
     \<and> us_producer_index resp = length (al_notes (abs s)) + length (change_notes req)
     \<and> inv s' \<and> al_step X (abs s) (TxUnshield req) (abs s')"
proof -
  let ?c = "map_option (\<lambda>enc. (ur_cm_change req, enc)) (ur_enc_change req)"
  have typed: "\<forall>nf \<in> set (ur_nullifiers req). is_felt nf" "is_felt (ur_cm_change req)" "is_felt (ur_cm_fee req)"
    using s by simp_all
  have c: "(case ?c of None \<Rightarrow> [] | Some x \<Rightarrow> [x]) = change_notes req"
    by (cases "ur_enc_change req") (simp_all add: change_notes_def)
  have valid: "\<forall>x \<in> set_option ?c. is_felt (fst x) \<and> note_validate (snd x) = Inr ()"
    "note_validate (ur_enc_fee req) = Inr ()"
    and cap: "length (al_notes (abs s)) + length (change_notes req) + 1 \<le> 2 ^ DEPTH"
    and rcp: "validate_l1_withdrawal_recipient X (ur_recipient req) = Inr rcp"
    using ok typed by (auto simp: unshield_ok_def change_notes_def)
  have fit: "wfits (length (al_notes (abs s)) + length (change_notes req))"
    using index_room_1(2) [OF room, of "length (change_notes req)"] by (simp add: change_notes_def split: option.splits)
  obtain s1 where s1: "op_enqueue_withdrawal ops rcp (ur_v_pub req) s = (Inr (length (al_withdrawals (abs s))), s1)"
    "inv s1" "abs s1 = (abs s)\<lparr>al_withdrawals := al_withdrawals (abs s) @ [\<lparr>wr_recipient = rcp, wr_amount = ur_v_pub req\<rparr>]\<rparr>"
    using enqueue_law [OF s(1) index_room_1(1) [OF room] rcp] by blast
  obtain s2 where s2: "append_change_note ops ?c s1 = (Inr (map_option (\<lambda>_. length (al_notes (abs s1))) ?c), s2)"
    "inv s2" "abs s2 = (abs s1)\<lparr>al_notes := al_notes (abs s1) @ change_notes req\<rparr>"
    using append_change_step [OF s1(2) valid(1)] cap s1(3) index_room_1 [OF room] unfolding c by auto
  obtain s3 where s3: "each_act (op_insert_nullifier ops) (ur_nullifiers req) s2 = (Inr (), s3)" "inv s3"
    "abs s3 = (abs s2)\<lparr>al_nullifiers := al_nullifiers (abs s2) \<union> set (ur_nullifiers req)\<rparr>"
    using insert_nullifiers [OF s2(2) typed(1)] by blast
  obtain s4 where s4: "op_append_note ops (ur_cm_fee req) (ur_enc_fee req) s3 = (Inr (length (al_notes (abs s3))), s4)"
    "inv s4" "abs s4 = (abs s3)\<lparr>al_notes := al_notes (abs s3) @ [(ur_cm_fee req, ur_enc_fee req)]\<rparr>"
    using append_step [OF s3(2) typed(3) valid(2)] cap s1(3) s2(3) s3(3) fit by auto
  let ?r = "\<lparr>us_change_index = map_option (\<lambda>_. length (al_notes (abs s1))) ?c,
             us_producer_index = length (al_notes (abs s3))\<rparr>"
  obtain s5 roots fee where s5: "bind_act (op_snapshot_root ops) (\<lambda>_.
             bind_act (write_act (op_note_private_tx_applied ops)) (\<lambda>_. ret_act ?r)) s4 = (Inr ?r, s5)"
    "inv s5" "abs s5 = (abs s4)\<lparr>al_roots := roots, al_fee := fee\<rparr>"
    "roots_step X (al_notes (abs s4)) (al_roots (abs s4)) roots"
    using finish_tx [OF s4(2)] by metis
  have "prepare_unshield X ops s req = Inr \<lparr>pu_change_note = ?c, pu_producer_note = (ur_cm_fee req, ur_enc_fee req),
      pu_nullifiers = ur_nullifiers req, pu_recipient = rcp, pu_amount = ur_v_pub req\<rparr>"
    using ok by (simp add: prepare_unshield_iff [OF s])
  then have "apply_unshield X ops req s = (Inr ?r, s5)"
    using s1 s2 s3 s4 s5(1) by (simp add: apply_unshield_def commit_prepared_unshield_def bind_act_def)
  moreover have "abs s5 = (abs s)\<lparr>
      al_withdrawals := al_withdrawals (abs s) @ [\<lparr>wr_recipient = rcp, wr_amount = ur_v_pub req\<rparr>],
      al_nullifiers := al_nullifiers (abs s) \<union> set (ur_nullifiers req),
      al_notes := al_notes (abs s4), al_roots := roots, al_fee := fee\<rparr>"
    using s1(3) s2(3) s3(3) s4(3) s5(3) by (intro abs_ledger.equality) simp_all
  then have "al_step X (abs s) (TxUnshield req) (abs s5)"
    using s1(3) s2(3) s3(3) s4(3) s5(4) by (simp only:) (rule al_step.unshield [OF ok], simp_all)
  ultimately show ?thesis
    using s5(2) s1(3) s2(3) s3(3) by (intro exI [of _ s5] exI [of _ ?r]) (simp add: option.map_comp comp_def)
qed

lemma deposit_recipient_felt: "parse_deposit_recipient_pubkey_hash X r = Inr k \<Longrightarrow> is_felt k"
  by (auto simp: parse_deposit_recipient_pubkey_hash_def res_simps is_felt_def)

lemma apply_deposit_step:
  assumes "inv s" "parse_deposit_recipient_pubkey_hash X recipient = Inr k"
    and "al_balance (abs s) k + unat amount < 2 ^ 64"
  shows "\<exists>s'. apply_deposit X ops recipient amount s = (Inr (), s') \<and> inv s'
     \<and> al_step X (abs s) (TxDeposit recipient amount) (abs s')"
proof -
  obtain s' where "op_credit_deposit ops k amount s = (Inr (), s')" "inv s'"
    "abs s' = (abs s)\<lparr>al_balance := (al_balance (abs s))(k := al_balance (abs s) k + unat amount)\<rparr>"
    using credit_law [OF assms(1) deposit_recipient_felt [OF assms(2)] assms(3)] by blast
  then show ?thesis
    using assms(2) al_step.deposit [OF assms(2,3)] by (simp add: apply_deposit_def bind_act_def)
qed

text \<open>The whole contract of a transition: what it accepts, what it does, and that it fails without a trace.\<close>

lemma apply_tx_cases:
  assumes "inv s" "tx_typed t" "index_room wfits (abs s) 1"
  shows "if tx_ok X (abs s) t
         then \<exists>s'. apply_tx X ops t s = (True, s') \<and> inv s' \<and> al_step X (abs s) t (abs s')
         else apply_tx X ops t s = (False, s)"
proof (cases t)
  case (TxDeposit recipient amount)
  show ?thesis
  proof (cases "tx_ok X (abs s) t")
    case True
    then show ?thesis
      using apply_deposit_step [OF assms(1), of recipient _ amount] TxDeposit by (force simp: accepted_def)
  next
    case False
    have "\<exists>e. apply_deposit X ops recipient amount s = (Inl e, s)"
    proof (cases "parse_deposit_recipient_pubkey_hash X recipient")
      case (Inr k)
      then have "\<exists>m. op_credit_deposit ops k amount s = (Inl (Err m), s)"
        using False TxDeposit by (intro credit_overflow_law [OF assms(1)]) (auto dest: deposit_recipient_felt)
      then show ?thesis using Inr by (auto simp: apply_deposit_def bind_act_def)
    qed (simp add: apply_deposit_def bind_act_def)
    then show ?thesis using False TxDeposit by (auto simp: accepted_def)
  qed
next
  case (TxShield req)
  show ?thesis
  proof (cases "prepare_shield X ops s req")
    case (Inl e)
    then have "\<not> shield_ok X (abs s) req" using prepare_shield_iff [of s req] assms TxShield by auto
    then show ?thesis using Inl TxShield by (simp add: apply_shield_def bind_act_def accepted_def)
  next
    case (Inr p)
    then have ok: "shield_ok X (abs s) req" using prepare_shield_iff [of s req p] assms TxShield by auto
    then show ?thesis using apply_shield_step [OF assms(1) _ ok] assms TxShield by (auto simp: accepted_def)
  qed
next
  case (TxTransfer req)
  show ?thesis
  proof (cases "check_transfer X ops s req")
    case (Inl e)
    then have "\<not> transfer_ok X (abs s) req" using check_transfer_iff [of s req] assms TxTransfer by auto
    then show ?thesis using Inl TxTransfer by (simp add: apply_transfer_def bind_act_def accepted_def)
  next
    case (Inr u)
    then have ok: "transfer_ok X (abs s) req" using check_transfer_iff [of s req] assms TxTransfer by auto
    then show ?thesis using apply_transfer_step [OF assms(1) _ ok] assms TxTransfer by (auto simp: accepted_def)
  qed
next
  case (TxUnshield req)
  show ?thesis
  proof (cases "prepare_unshield X ops s req")
    case (Inl e)
    then have "\<not> (\<exists>rcp. unshield_ok X (abs s) req rcp)"
      using prepare_unshield_iff [of s req] assms TxUnshield
      by (metis prepared_unshield.select_convs(4) sum.distinct(1))
    then show ?thesis using Inl TxUnshield by (simp add: apply_unshield_def bind_act_def accepted_def)
  next
    case (Inr p)
    then have ok: "unshield_ok X (abs s) req (pu_recipient p)"
      using prepare_unshield_iff [of s req p] assms TxUnshield by auto
    then show ?thesis using apply_unshield_step [OF assms(1) _ ok] assms TxUnshield by (auto simp: accepted_def)
  qed
qed

lemma run_txs_refines:
  assumes "inv s" "\<forall>t \<in> set txs. tx_typed t" "index_room wfits (abs s) (length txs)"
    and "run_txs X ops txs s = (acc, s')"
  shows "inv s' \<and> al_run X (abs s) acc (abs s')"
  using assms
proof (induction txs arbitrary: s acc)
  case Nil
  then show ?case by (simp add: al_run_Nil)
next
  case (Cons t ts)
  define acc' where "acc' = fst (run_txs X ops ts (snd (apply_tx X ops t s)))"
  have rec: "run_txs X ops ts (snd (apply_tx X ops t s)) = (acc', s')"
    "acc = (if fst (apply_tx X ops t s) then t # acc' else acc')"
    using Cons.prems(4) by (auto simp: acc'_def case_prod_beta Let_def)
  have fits: "index_room wfits (abs s) 1" using Cons.prems(3) by (rule index_room_mono) simp
  note step = apply_tx_cases [OF Cons.prems(1) _ fits, of t]
  show ?case
  proof (cases "tx_ok X (abs s) t")
    case True
    then obtain s1 where s1: "apply_tx X ops t s = (True, s1)" "inv s1" "al_step X (abs s) t (abs s1)"
      using step Cons.prems(2) by auto
    have "index_room wfits (abs s1) (length ts)"
      using Cons.prems(3) by (intro index_room_step [OF s1(3)]) simp
    then have "inv s' \<and> al_run X (abs s1) acc' (abs s')"
      using Cons.IH [of s1 acc'] Cons.prems(2) s1 rec by simp
    then show ?thesis using al_run_Cons [OF s1(3)] rec s1(1) by simp
  next
    case False
    have "index_room wfits (abs s) (length ts)" using Cons.prems(3) by (rule index_room_mono) simp
    then show ?thesis using False step Cons.IH [of s acc'] Cons.prems(1,2) rec by auto
  qed
qed

end

end
