(* ===== verification/Ledger.thy ===== *)
theory Ledger
  imports LedgerSpec
begin

text \<open>
  The in-memory ledger of \<open>core/src/lib.rs\<close> (\<open>Ledger\<close> and \<open>impl LedgerState for Ledger\<close>), with
  its bounded history of valid roots. It is an implementation of the \<open>ledger_state\<close> contract,
  so that the transitions and the trace invariants hold of it.
\<close>

record ledger =
  lg_auth_domain :: felt
  lg_tree :: merkle_tree
  lg_nullifiers :: "felt set"
  lg_valid_roots :: "felt set"
  lg_root_history :: "felt list"
  lg_memos :: "(felt \<times> encrypted_note) list"
  lg_withdrawals :: "withdrawal_record list"
  lg_deposit_balances :: "felt \<rightharpoonup> u64"
  lg_applied_shield_cms :: "felt set"

definition ledger_with_auth_domain :: "'x ext_scheme \<Rightarrow> felt \<Rightarrow> ledger" where
  "ledger_with_auth_domain X auth_domain =
     (let tree = merkle_new X; root = merkle_root X tree
      in \<lparr>lg_auth_domain = auth_domain, lg_tree = tree, lg_nullifiers = {}, lg_valid_roots = {root},
          lg_root_history = [root], lg_memos = [], lg_withdrawals = [],
          lg_deposit_balances = Map.empty, lg_applied_shield_cms = {}\<rparr>)"

definition ledger_new :: "'x ext_scheme \<Rightarrow> ledger" where
  "ledger_new X = ledger_with_auth_domain X (default_auth_domain X)"

text \<open>The eviction loop: while the history is too long, pop the oldest root and forget it.\<close>

fun evict_roots :: "nat \<Rightarrow> felt list \<Rightarrow> felt set \<Rightarrow> felt list \<times> felt set" where
  "evict_roots max_valid_roots [] roots = ([], roots)"
| "evict_roots max_valid_roots (oldest # history) roots =
     (if length (oldest # history) > max_valid_roots
      then evict_roots max_valid_roots history (roots - {oldest})
      else (oldest # history, roots))"

definition record_valid_root_with_limit :: "felt \<Rightarrow> nat \<Rightarrow> ledger \<Rightarrow> ledger" where
  "record_valid_root_with_limit root max_valid_roots l =
     (if root \<in> lg_valid_roots l then
        (if lg_root_history l = [] then l\<lparr>lg_root_history := [root]\<rparr> else l)
      else
        let (history, roots) = evict_roots max_valid_roots (lg_root_history l @ [root])
                                 (insert root (lg_valid_roots l))
        in l\<lparr>lg_valid_roots := roots, lg_root_history := history\<rparr>)"

definition snapshot_root_local :: "'x ext_scheme \<Rightarrow> ledger \<Rightarrow> ledger" where
  "snapshot_root_local X l =
     record_valid_root_with_limit (merkle_root X (lg_tree l)) MAX_VALID_ROOTS l"

definition post_note_local :: "felt \<Rightarrow> encrypted_note \<Rightarrow> ledger \<Rightarrow> ledger" where
  "post_note_local cm enc l = l\<lparr>lg_memos := lg_memos l @ [(cm, enc)]\<rparr>"

section \<open>The interface\<close>

definition mem_ensure_note_capacity :: "'x ext_scheme \<Rightarrow> ledger \<Rightarrow> nat \<Rightarrow> unit res" where
  "mem_ensure_note_capacity X l additional =
     attempt (guard (DEPTH < usize_bits X)
       (''Merkle tree capacity exceeds usize for depth '' @ show_nat DEPTH)) (\<lambda>_.
     let limit = 2 ^ DEPTH; next_size = length (mt_leaves (lg_tree l)) + additional in
     attempt (guard (next_size < 2 ^ usize_bits X) ''Merkle tree size overflow'') (\<lambda>_.
     guard (\<not> next_size > limit) (''Merkle tree full: 2^'' @ show_nat DEPTH @ '' leaves'')))"

definition mem_append_note :: "'x ext_scheme \<Rightarrow> felt \<Rightarrow> encrypted_note \<Rightarrow> (ledger, nat) action" where
  "mem_append_note X cm enc l =
     (case merkle_append X cm (lg_tree l) of
        (Inl e, t) \<Rightarrow> (Inl e, l\<lparr>lg_tree := t\<rparr>)
      | (Inr index, t) \<Rightarrow> (Inr index, post_note_local cm enc (l\<lparr>lg_tree := t\<rparr>)))"

definition mem_enqueue_withdrawal :: "string \<Rightarrow> u64 \<Rightarrow> (ledger, nat) action" where
  "mem_enqueue_withdrawal recipient amount l =
     (Inr (length (lg_withdrawals l)),
      l\<lparr>lg_withdrawals := lg_withdrawals l @ [\<lparr>wr_recipient = recipient, wr_amount = amount\<rparr>]\<rparr>)"

text \<open>\<open>entry(..).or_insert(0)\<close> happens before the checked addition.\<close>

definition mem_credit_deposit :: "felt \<Rightarrow> u64 \<Rightarrow> (ledger, unit) action" where
  "mem_credit_deposit pubkey_hash amount l =
     (let entry = (case lg_deposit_balances l pubkey_hash of None \<Rightarrow> 0 | Some b \<Rightarrow> b);
          l1 = l\<lparr>lg_deposit_balances := (lg_deposit_balances l)(pubkey_hash \<mapsto> entry)\<rparr>
      in case checked_add entry amount of
           None \<Rightarrow> (Inl (Err ''deposit balance overflow''), l1)
         | Some b \<Rightarrow> (Inr (), l1\<lparr>lg_deposit_balances := (lg_deposit_balances l1)(pubkey_hash \<mapsto> b)\<rparr>))"

definition mem_debit_deposit :: "'x ext_scheme \<Rightarrow> felt \<Rightarrow> u64 \<Rightarrow> (ledger, unit) action" where
  "mem_debit_deposit X pubkey_hash amount l =
     (case lg_deposit_balances l pubkey_hash of
        None \<Rightarrow> (Inl (Err (''deposit pool '' @ hex_encode X pubkey_hash @ '' does not exist'')), l)
      | Some balance \<Rightarrow>
          if balance < amount
          then (Inl (Err (''deposit pool '' @ hex_encode X pubkey_hash @ '' balance '' @ show_word balance
                  @ '' too small to debit '' @ show_word amount)), l)
          else if balance - amount = 0
          then (Inr (), l\<lparr>lg_deposit_balances := (lg_deposit_balances l)(pubkey_hash := None)\<rparr>)
          else (Inr (), l\<lparr>lg_deposit_balances := (lg_deposit_balances l)(pubkey_hash \<mapsto> balance - amount)\<rparr>))"

definition mem_ops :: "'x ext_scheme \<Rightarrow> ledger ledger_ops" where
  "mem_ops X = \<lparr>
     op_auth_domain = (\<lambda>l. Inr (lg_auth_domain l)),
     op_required_tx_fee = (\<lambda>l. Inr MIN_TX_FEE),
     op_has_valid_root = (\<lambda>l root. Inr (root \<in> lg_valid_roots l)),
     op_has_nullifier = (\<lambda>l nf. Inr (nf \<in> lg_nullifiers l)),
     op_insert_nullifier = (\<lambda>nf l. (Inr (), l\<lparr>lg_nullifiers := insert nf (lg_nullifiers l)\<rparr>)),
     op_ensure_note_capacity = mem_ensure_note_capacity X,
     op_append_note = mem_append_note X,
     op_snapshot_root = write_act (snapshot_root_local X),
     op_enqueue_withdrawal = mem_enqueue_withdrawal,
     op_note_private_tx_applied = (\<lambda>l. l),
     op_deposit_balance = (\<lambda>l k. Inr (lg_deposit_balances l k)),
     op_credit_deposit = mem_credit_deposit,
     op_debit_deposit = mem_debit_deposit X,
     op_has_applied_shield = (\<lambda>l cm. Inr (cm \<in> lg_applied_shield_cms l)),
     op_mark_applied_shield = (\<lambda>cm l. (Inr (), l\<lparr>lg_applied_shield_cms := insert cm (lg_applied_shield_cms l)\<rparr>))\<rparr>"

definition ledger_deposit :: "'x ext_scheme \<Rightarrow> string \<Rightarrow> u64 \<Rightarrow> (ledger, unit) action" where
  "ledger_deposit X recipient amount = apply_deposit X (mem_ops X) recipient amount"

definition ledger_shield :: "'x ext_scheme \<Rightarrow> shield_req \<Rightarrow> (ledger, shield_resp) action" where
  "ledger_shield X req = apply_shield X (mem_ops X) req"

definition ledger_transfer :: "'x ext_scheme \<Rightarrow> transfer_req \<Rightarrow> (ledger, transfer_resp) action" where
  "ledger_transfer X req = apply_transfer X (mem_ops X) req"

definition ledger_unshield :: "'x ext_scheme \<Rightarrow> unshield_req \<Rightarrow> (ledger, unshield_resp) action" where
  "ledger_unshield X req = apply_unshield X (mem_ops X) req"

section \<open>Well-formed ledgers\<close>

text \<open>
  The valid roots are exactly the roots in the history, which has no repetitions and at most
  \<open>MAX_VALID_ROOTS\<close> entries; the memos go with the leaves of the tree; a \<open>usize\<close> can index the
  tree.
\<close>

definition mem_inv :: "'x ext_scheme \<Rightarrow> ledger \<Rightarrow> bool" where
  "mem_inv X l \<longleftrightarrow>
     DEPTH < usize_bits X
     \<and> lg_valid_roots l = set (lg_root_history l) \<and> distinct (lg_root_history l)
     \<and> lg_root_history l \<noteq> [] \<and> length (lg_root_history l) \<le> MAX_VALID_ROOTS
     \<and> mt_zero_hashes (lg_tree l) = zero_hash_list X DEPTH
     \<and> mt_leaves (lg_tree l) = map fst (lg_memos l) \<and> length (lg_memos l) \<le> 2 ^ DEPTH"

definition mem_abs :: "ledger \<Rightarrow> abs_ledger" where
  "mem_abs l = \<lparr>al_domain = lg_auth_domain l, al_fee = MIN_TX_FEE, al_notes = lg_memos l,
     al_nullifiers = lg_nullifiers l, al_roots = lg_valid_roots l, al_withdrawals = lg_withdrawals l,
     al_balance = (\<lambda>k. case lg_deposit_balances l k of None \<Rightarrow> 0 | Some w \<Rightarrow> unat w),
     al_shields = lg_applied_shield_cms l\<rparr>"

lemma evict_roots_short: "length h \<le> n \<Longrightarrow> evict_roots n h roots = (h, roots)"
  by (cases h) auto

lemma record_valid_root:
  assumes "lg_valid_roots l = set (lg_root_history l)" "distinct (lg_root_history l)"
    and "lg_root_history l \<noteq> []" "length (lg_root_history l) \<le> n"
  shows "\<exists>h. record_valid_root_with_limit root n l = l\<lparr>lg_valid_roots := set h, lg_root_history := h\<rparr>
             \<and> root \<in> set h \<and> set h \<subseteq> insert root (lg_valid_roots l)
             \<and> distinct h \<and> h \<noteq> [] \<and> length h \<le> n"
proof (cases "root \<in> lg_valid_roots l")
  case True
  then have "record_valid_root_with_limit root n l = l"
    using assms(3) by (simp add: record_valid_root_with_limit_def)
  moreover have "l = l\<lparr>lg_valid_roots := set (lg_root_history l), lg_root_history := lg_root_history l\<rparr>"
    using assms(1) by (intro ledger.equality) simp_all
  ultimately show ?thesis using True assms by (intro exI [of _ "lg_root_history l"]) auto
next
  case new: False
  show ?thesis
  proof (cases "length (lg_root_history l) = n")
    case False
    then have "evict_roots n (lg_root_history l @ [root]) (insert root (lg_valid_roots l))
        = (lg_root_history l @ [root], insert root (lg_valid_roots l))"
      using assms by (intro evict_roots_short) simp
    then show ?thesis
      using new assms False by (intro exI [of _ "lg_root_history l @ [root]"])
        (auto simp: record_valid_root_with_limit_def Let_def insert_commute)
  next
    case True
    obtain r h where h: "lg_root_history l = r # h" using assms(3) by (cases "lg_root_history l") auto
    have "evict_roots n (lg_root_history l @ [root]) (insert root (lg_valid_roots l))
        = (h @ [root], insert root (lg_valid_roots l) - {r})"
      using True h by (simp add: evict_roots_short)
    moreover have "insert root (lg_valid_roots l) - {r} = set (h @ [root])"
      using new assms(1,2) h by auto
    ultimately have "record_valid_root_with_limit root n l
        = l\<lparr>lg_valid_roots := set (h @ [root]), lg_root_history := h @ [root]\<rparr>"
      using new by (simp add: record_valid_root_with_limit_def)
    moreover have "root \<notin> set h" "distinct h" "set h \<subseteq> lg_valid_roots l" "length h < n"
      using new assms h True by auto
    ultimately show ?thesis by (intro exI [of _ "h @ [root]"]) auto
  qed
qed

lemmas mem_defs = mem_inv_def mem_abs_def mem_ops_def

lemma mem_append:
  assumes "mem_inv X l" "length (lg_memos l) < 2 ^ DEPTH"
  shows "mem_append_note X cm enc l =
    (Inr (length (lg_memos l)),
     l\<lparr>lg_tree := lg_tree l\<lparr>mt_leaves := mt_leaves (lg_tree l) @ [cm]\<rparr>, lg_memos := lg_memos l @ [(cm, enc)]\<rparr>)"
proof -
  have "(2 :: nat) ^ DEPTH < 2 ^ usize_bits X" using assms(1) by (simp add: mem_inv_def)
  then have "(2 :: nat) ^ DEPTH mod 2 ^ usize_bits X = 2 ^ DEPTH" by simp
  then show ?thesis
    using assms by (simp add: mem_append_note_def merkle_append_def mem_inv_def post_note_local_def Let_def)
qed

lemma mem_capacity:
  assumes "mem_inv X l"
  shows "mem_ensure_note_capacity X l n = Inr () \<longleftrightarrow> length (lg_memos l) + n \<le> 2 ^ DEPTH"
proof -
  have "(2 :: nat) ^ DEPTH < 2 ^ usize_bits X" using assms by (simp add: mem_inv_def)
  then have "m \<le> 2 ^ DEPTH \<Longrightarrow> m < 2 ^ usize_bits X" for m :: nat by linarith
  then show ?thesis
    using assms by (auto simp: mem_ensure_note_capacity_def mem_inv_def res_simps Let_def)
qed

lemma mem_snapshot:
  assumes "mem_inv X l"
  shows "\<exists>h. snapshot_root_local X l = l\<lparr>lg_valid_roots := set h, lg_root_history := h\<rparr>
      \<and> mem_inv X (l\<lparr>lg_valid_roots := set h, lg_root_history := h\<rparr>)
      \<and> roots_step X (lg_memos l) (lg_valid_roots l) (set h)"
proof -
  have "merkle_root X (lg_tree l) = tree_root X (map fst (lg_memos l))"
    using assms by (simp add: mem_inv_def merkle_root_tree_root)
  then show ?thesis
    using record_valid_root [of l MAX_VALID_ROOTS "merkle_root X (lg_tree l)"] assms
    by (auto simp: snapshot_root_local_def mem_inv_def roots_step_def)
qed

lemma mem_credit:
  "mem_credit_deposit k amt l =
     (let b = (case lg_deposit_balances l k of None \<Rightarrow> 0 | Some w \<Rightarrow> w) in
      if unat b + unat amt < 2 ^ 64
      then (Inr (), l\<lparr>lg_deposit_balances := (lg_deposit_balances l)(k \<mapsto> b + amt)\<rparr>)
      else (Inl (Err ''deposit balance overflow''), l))"
proof -
  have "lg_deposit_balances l k = None \<Longrightarrow> unat (0 :: u64) + unat amt < 2 ^ 64"
    using unsigned_less [of amt] by simp
  moreover have "lg_deposit_balances l k = Some w \<Longrightarrow> l\<lparr>lg_deposit_balances := (lg_deposit_balances l)(k \<mapsto> w)\<rparr> = l" for w
    by (intro ledger.equality) (auto simp: map_upd_triv)
  ultimately show ?thesis
    by (auto simp: mem_credit_deposit_def checked_add_def Let_def split: option.split)
qed

interpretation mem: ledger_state X "mem_ops X" "mem_inv X" mem_abs "\<lambda>_. True"
  for X :: "'x ext_scheme"
proof
  fix l :: ledger and k :: felt and amt :: u64
  assume l: "mem_inv X l"
  show "\<exists>b. op_deposit_balance (mem_ops X) l k = Inr b
      \<and> al_balance (mem_abs l) k = (case b of None \<Rightarrow> 0 | Some w \<Rightarrow> unat w)"
    by (simp add: mem_defs)
  show "\<exists>l'. op_credit_deposit (mem_ops X) k amt l = (Inr (), l') \<and> mem_inv X l'
      \<and> mem_abs l' = (mem_abs l)\<lparr>al_balance := (al_balance (mem_abs l))(k := al_balance (mem_abs l) k + unat amt)\<rparr>"
    if "al_balance (mem_abs l) k + unat amt < 2 ^ 64"
    using that l
    by (auto simp: mem_defs mem_credit Let_def fun_eq_iff unat_add_no_wrap split: option.splits)
  show "\<exists>m. op_credit_deposit (mem_ops X) k amt l = (Inl (Err m), l)"
    if "2 ^ 64 \<le> al_balance (mem_abs l) k + unat amt"
    using that by (auto simp: mem_defs mem_credit Let_def split: option.splits)
  show "\<exists>l'. op_debit_deposit (mem_ops X) k amt l = (Inr (), l') \<and> mem_inv X l'
      \<and> mem_abs l' = (mem_abs l)\<lparr>al_balance := (al_balance (mem_abs l))(k := al_balance (mem_abs l) k - unat amt)\<rparr>"
    if "op_deposit_balance (mem_ops X) l k = Inr (Some b)" "amt \<le> b" for b
  proof (cases "b - amt = 0")
    case True
    then have "unat b - unat amt = 0" using that(2) unat_sub_le by (metis unat_0)
    then show ?thesis using that l True by (auto simp: mem_defs mem_debit_deposit_def fun_eq_iff)
  next
    case False
    then show ?thesis
      using that l unat_sub_le [OF that(2)] by (auto simp: mem_defs mem_debit_deposit_def fun_eq_iff)
  qed
next
  fix l :: ledger
  assume l: "mem_inv X l"
  show "\<exists>l' roots. op_snapshot_root (mem_ops X) l = (Inr (), l') \<and> mem_inv X l'
      \<and> mem_abs l' = (mem_abs l)\<lparr>al_roots := roots\<rparr>
      \<and> roots_step X (al_notes (mem_abs l)) (al_roots (mem_abs l)) roots"
    using mem_snapshot [OF l] by (auto simp: mem_ops_def mem_abs_def)
  show "mem_inv X (op_note_private_tx_applied (mem_ops X) l)
      \<and> (\<exists>fee. mem_abs (op_note_private_tx_applied (mem_ops X) l) = (mem_abs l)\<lparr>al_fee := fee\<rparr>)"
    using l by (auto simp: mem_ops_def mem_abs_def)
next
  fix l :: ledger and cm :: felt and enc :: encrypted_note
  assume "mem_inv X l" "length (al_notes (mem_abs l)) < 2 ^ DEPTH"
  then show "\<exists>l'. op_append_note (mem_ops X) cm enc l = (Inr (length (al_notes (mem_abs l))), l') \<and> mem_inv X l'
      \<and> mem_abs l' = (mem_abs l)\<lparr>al_notes := al_notes (mem_abs l) @ [(cm, enc)]\<rparr>"
    using mem_append [of X l cm enc] by (simp add: mem_defs)
qed (auto simp: mem_ops_def mem_abs_def mem_inv_def mem_enqueue_withdrawal_def mem_capacity)

lemma mem_inv_new: "DEPTH < usize_bits X \<Longrightarrow> mem_inv X (ledger_with_auth_domain X ad)"
  by (simp add: mem_inv_def ledger_with_auth_domain_def merkle_new_def MAX_VALID_ROOTS_def Let_def)

lemma mem_new_historic: "historic_roots X (mem_abs (ledger_with_auth_domain X ad))"
  by (simp add: historic_roots_def mem_abs_def ledger_with_auth_domain_def Let_def merkle_root_tree_root
      merkle_new_def)

lemma mem_run:
  assumes "DEPTH < usize_bits X" "\<forall>t \<in> set txs. tx_typed t"
    and "run_txs X (mem_ops X) txs (ledger_with_auth_domain X ad) = (acc, l)"
  shows "mem_inv X l \<and> al_run X (mem_abs (ledger_with_auth_domain X ad)) acc (mem_abs l)"
  using assms by (intro mem.run_txs_refines) (auto simp: mem_inv_new)

section \<open>A sample run\<close>

text \<open>
  A transfer against the root of the empty tree, the same transfer again, a deposit, a deposit
  to a malformed recipient, a shield from the pool, and the same shield again.
\<close>

definition sample_transfer :: tx where
  "sample_transfer = TxTransfer \<lparr>tr_root = tree_root sample_ext [], tr_nullifiers = [ZERO], tr_fee = MIN_TX_FEE,
     tr_cm_1 = ZERO, tr_cm_2 = ZERO, tr_cm_3 = ZERO, tr_enc_1 = sample_note, tr_enc_2 = sample_note,
     tr_enc_3 = sample_note, tr_proof = TrustMeBro\<rparr>"

definition sample_deposit :: tx where
  "sample_deposit = TxDeposit (deposit_recipient_string sample_ext ZERO) 500000"

definition sample_malformed :: tx where
  "sample_malformed = TxDeposit ''nonsense'' 7"

definition sample_shield :: tx where
  "sample_shield = TxShield \<lparr>sr_pubkey_hash = ZERO, sr_fee = MIN_TX_FEE, sr_v = 1000, sr_producer_fee = 1,
     sr_proof = TrustMeBro, sr_client_cm = type_tag 1, sr_client_enc = sample_note,
     sr_producer_cm = type_tag 2, sr_producer_enc = sample_note\<rparr>"

lemma sample_usize: "DEPTH < usize_bits sample_ext"
  by (simp add: DEPTH_def sample_ext_def)

lemma sample_inv: "mem_inv sample_ext (ledger_with_auth_domain sample_ext ZERO)"
  by (rule mem_inv_new [OF sample_usize])

lemma sample_root_felt: "is_felt (tree_root sample_ext [])"
  by (rule tree_root_felt [OF sample_blake_laws])

lemma type_tag_ZERO: "type_tag t = ZERO \<longleftrightarrow> t = 0"
proof -
  have "type_tag 0 = ZERO" by (simp add: type_tag_def ZERO_def list_update_same_conv)
  then show ?thesis using type_tag_inject [of t 0] by simp
qed

lemma sample_typed: "\<forall>t \<in> {sample_transfer, sample_deposit, sample_malformed, sample_shield}. tx_typed t"
  using sample_root_felt
  by (simp add: sample_transfer_def sample_deposit_def sample_malformed_def sample_shield_def is_felt_def)

lemma sample_deposit_ok:
  "tx_ok sample_ext a sample_deposit \<longleftrightarrow> al_balance a ZERO + 500000 < 2 ^ 64"
  using deposit_recipient_inject [OF sample_hex_laws]
  by (auto simp: sample_deposit_def parse_deposit_recipient_iff [OF sample_hex_laws])

lemma sample_malformed_bad: "\<not> tx_ok sample_ext a sample_malformed"
  by (simp add: sample_malformed_def parse_deposit_recipient_iff [OF sample_hex_laws]
      deposit_recipient_string_def DEPOSIT_RECIPIENT_PREFIX_def)

lemma sample_shield_ok:
  "al_fee a = MIN_TX_FEE \<Longrightarrow> length (al_notes a) + 2 \<le> 2 ^ DEPTH \<Longrightarrow>
   tx_ok sample_ext a sample_shield \<longleftrightarrow> type_tag 1 \<notin> al_shields a \<and> 101001 \<le> al_balance a ZERO"
  by (auto simp: sample_shield_def shield_ok_def sample_note_valid proof_binds_def shield_debit_def
      MIN_TX_FEE_def type_tag_ZERO)

lemma sample_transfer_ok:
  "al_fee a = MIN_TX_FEE \<Longrightarrow> length (al_notes a) + 3 \<le> 2 ^ DEPTH \<Longrightarrow>
   tx_ok sample_ext a sample_transfer \<longleftrightarrow> tree_root sample_ext [] \<in> al_roots a \<and> ZERO \<notin> al_nullifiers a"
  by (auto simp: sample_transfer_def transfer_ok_def spend_ok_def sample_note_valid proof_binds_def)

definition sample_txs :: "tx list" where
  "sample_txs = [sample_transfer, sample_transfer, sample_deposit, sample_malformed, sample_shield, sample_shield]"

lemma sample_step:
  assumes "mem_inv sample_ext l" "t \<in> {sample_transfer, sample_deposit, sample_malformed, sample_shield}"
  shows "tx_ok sample_ext (mem_abs l) t \<Longrightarrow>
           \<exists>l'. apply_tx sample_ext (mem_ops sample_ext) t l = (True, l') \<and> mem_inv sample_ext l'
                \<and> al_step sample_ext (mem_abs l) t (mem_abs l')"
    and "\<not> tx_ok sample_ext (mem_abs l) t \<Longrightarrow> apply_tx sample_ext (mem_ops sample_ext) t l = (False, l)"
  using mem.apply_tx_cases [OF assms(1), of t] assms(2) sample_typed by auto

lemma sample_run:
  obtains l where "run_txs sample_ext (mem_ops sample_ext) sample_txs (ledger_with_auth_domain sample_ext ZERO)
     = ([sample_transfer, sample_deposit, sample_shield], l)"
proof -
  let ?l0 = "ledger_with_auth_domain sample_ext ZERO"
  note defs = sample_transfer_def sample_deposit_def sample_shield_def
  have fee: "al_fee (mem_abs l) = MIN_TX_FEE" for l by (simp add: mem_abs_def)
  have a0: "al_roots (mem_abs ?l0) = {tree_root sample_ext []}" "al_nullifiers (mem_abs ?l0) = {}"
    "al_notes (mem_abs ?l0) = []" "al_balance (mem_abs ?l0) ZERO = 0" "al_shields (mem_abs ?l0) = {}"
    by (simp_all add: mem_abs_def ledger_with_auth_domain_def Let_def merkle_root_tree_root merkle_new_def)
  have "tx_ok sample_ext (mem_abs ?l0) sample_transfer"
    using a0 by (simp add: sample_transfer_ok fee DEPTH_def)
  then obtain l1 where l1: "apply_tx sample_ext (mem_ops sample_ext) sample_transfer ?l0 = (True, l1)"
    "mem_inv sample_ext l1" "al_step sample_ext (mem_abs ?l0) sample_transfer (mem_abs l1)"
    using sample_step(1) [OF sample_inv] by blast
  have a1: "al_nullifiers (mem_abs l1) = {ZERO}" "length (al_notes (mem_abs l1)) = 3"
    "al_balance (mem_abs l1) ZERO = 0" "al_shields (mem_abs l1) = {}"
    using l1(3) a0 unfolding defs by (auto elim!: al_step_transferE)
  have again: "apply_tx sample_ext (mem_ops sample_ext) sample_transfer l1 = (False, l1)"
    using a1 by (intro sample_step(2) [OF l1(2)]) (simp_all add: sample_transfer_ok fee DEPTH_def)
  have "tx_ok sample_ext (mem_abs l1) sample_deposit" using a1 by (simp add: sample_deposit_ok)
  then obtain l2 where l2: "apply_tx sample_ext (mem_ops sample_ext) sample_deposit l1 = (True, l2)"
    "mem_inv sample_ext l2" "al_step sample_ext (mem_abs l1) sample_deposit (mem_abs l2)"
    using sample_step(1) [OF l1(2)] by blast
  have a2: "length (al_notes (mem_abs l2)) = 3" "al_balance (mem_abs l2) ZERO = 500000" "al_shields (mem_abs l2) = {}"
    using l2(3) a1 deposit_recipient_inject [OF sample_hex_laws] unfolding defs
    by (auto elim!: al_step_depositE simp: parse_deposit_recipient_iff [OF sample_hex_laws])
  have malformed: "apply_tx sample_ext (mem_ops sample_ext) sample_malformed l2 = (False, l2)"
    by (rule sample_step(2) [OF l2(2) _ sample_malformed_bad]) simp
  have "tx_ok sample_ext (mem_abs l2) sample_shield" using a2 by (simp add: sample_shield_ok fee DEPTH_def)
  then obtain l3 where l3: "apply_tx sample_ext (mem_ops sample_ext) sample_shield l2 = (True, l3)"
    "mem_inv sample_ext l3" "al_step sample_ext (mem_abs l2) sample_shield (mem_abs l3)"
    using sample_step(1) [OF l2(2)] by blast
  have "length (al_notes (mem_abs l3)) = 5" "type_tag 1 \<in> al_shields (mem_abs l3)"
    using l3(3) a2 unfolding defs by (auto elim!: al_step_shieldE)
  then have "apply_tx sample_ext (mem_ops sample_ext) sample_shield l3 = (False, l3)"
    by (intro sample_step(2) [OF l3(2)]) (simp_all add: sample_shield_ok fee DEPTH_def)
  then show ?thesis
    using l1 again l2 malformed l3 by (intro that [of l3]) (simp add: sample_txs_def)
qed

lemma sample_txs_typed: "\<forall>t \<in> set sample_txs. tx_typed t"
  using sample_typed by (simp add: sample_txs_def)

section \<open>Properties\<close>

text \<open>
  C1: every transition of the in-memory ledger refines the abstract ledger. On a well-formed
  ledger a deposit, shield, transfer or unshield is accepted exactly when the abstract guard
  holds; then it performs the abstract step and keeps the ledger well formed, and otherwise it
  returns an error and leaves the ledger exactly as it was.
\<close>

theorem ledger_transition_refines:
  assumes "mem_inv X l" "tx_typed t"
  shows "if tx_ok X (mem_abs l) t
         then \<exists>l'. apply_tx X (mem_ops X) t l = (True, l') \<and> mem_inv X l' \<and> al_step X (mem_abs l) t (mem_abs l')
         else apply_tx X (mem_ops X) t l = (False, l)"
  using mem.apply_tx_cases [OF assms] by simp

theorem ledger_transition_refines_witness:
  "\<exists>l'. apply_tx sample_ext (mem_ops sample_ext) sample_deposit (ledger_with_auth_domain sample_ext ZERO)
        = (True, l') \<and> mem_inv sample_ext l'"
proof -
  have "tx_ok sample_ext (mem_abs (ledger_with_auth_domain sample_ext ZERO)) sample_deposit"
    by (simp add: sample_deposit_ok mem_abs_def ledger_with_auth_domain_def Let_def)
  then show ?thesis
    using ledger_transition_refines [OF sample_inv, of sample_deposit] sample_typed by auto
qed

text \<open>
  C3: conservation of deposits. From an empty ledger, after any sequence of requests, accepted
  or not, the balance of every deposit pool is what was deposited into it minus what the
  accepted shields drained from it (amount, fee and producer fee), as numbers without
  wrap-around, and it fits in 64 bits.
\<close>

theorem ledger_conserves_deposits:
  assumes "DEPTH < usize_bits X" "\<forall>t \<in> set txs. tx_typed t"
    and "run_txs X (mem_ops X) txs (ledger_with_auth_domain X ad) = (acc, l)"
  shows "sum_list (map (tx_credit X k) acc) = al_balance (mem_abs l) k + sum_list (map (tx_debit k) acc)
         \<and> al_balance (mem_abs l) k < 2 ^ 64"
proof -
  have run: "al_run X (mem_abs (ledger_with_auth_domain X ad)) acc (mem_abs l)" using mem_run [OF assms] by simp
  have zero: "al_balance (mem_abs (ledger_with_auth_domain X ad)) k' = 0" for k'
    by (simp add: mem_abs_def ledger_with_auth_domain_def Let_def)
  show ?thesis
    using al_run_conserves [OF run, of k] al_run_bounded [OF run, of k] by (simp add: zero)
qed

theorem ledger_conserves_deposits_witness:
  "\<exists>l. run_txs sample_ext (mem_ops sample_ext) sample_txs (ledger_with_auth_domain sample_ext ZERO)
         = ([sample_transfer, sample_deposit, sample_shield], l)
       \<and> al_balance (mem_abs l) ZERO + 101001 = 500000"
proof -
  obtain l where l: "run_txs sample_ext (mem_ops sample_ext) sample_txs (ledger_with_auth_domain sample_ext ZERO)
     = ([sample_transfer, sample_deposit, sample_shield], l)" by (rule sample_run)
  from ledger_conserves_deposits [OF sample_usize sample_txs_typed l, of ZERO] l show ?thesis
    by (auto simp: sample_transfer_def sample_deposit_def sample_shield_def shield_debit_def MIN_TX_FEE_def
        parse_deposit_recipient_iff [OF sample_hex_laws])
qed

text \<open>
  C2: no double spend. After any sequence of requests from an empty ledger, the nullifiers of
  all accepted transfers and unshields are pairwise different, within and across requests, and
  they are exactly the recorded nullifiers.
\<close>

theorem ledger_no_double_spend:
  assumes "DEPTH < usize_bits X" "\<forall>t \<in> set txs. tx_typed t"
    and "run_txs X (mem_ops X) txs (ledger_with_auth_domain X ad) = (acc, l)"
  shows "distinct (concat (map tx_nullifiers acc)) \<and> lg_nullifiers l = set (concat (map tx_nullifiers acc))"
proof -
  have run: "al_run X (mem_abs (ledger_with_auth_domain X ad)) acc (mem_abs l)" using mem_run [OF assms] by simp
  have "al_nullifiers (mem_abs (ledger_with_auth_domain X ad)) = {}"
    by (simp add: mem_abs_def ledger_with_auth_domain_def Let_def)
  moreover have "al_nullifiers (mem_abs l) = lg_nullifiers l" by (simp add: mem_abs_def)
  ultimately show ?thesis
    using al_run_no_double_spend [OF run] al_run_components(2) [OF run] by simp
qed

theorem ledger_no_double_spend_witness:
  "\<exists>l. run_txs sample_ext (mem_ops sample_ext) sample_txs (ledger_with_auth_domain sample_ext ZERO)
         = ([sample_transfer, sample_deposit, sample_shield], l)
       \<and> lg_nullifiers l = {ZERO}"
proof -
  obtain l where l: "run_txs sample_ext (mem_ops sample_ext) sample_txs (ledger_with_auth_domain sample_ext ZERO)
     = ([sample_transfer, sample_deposit, sample_shield], l)" by (rule sample_run)
  from ledger_no_double_spend [OF sample_usize sample_txs_typed l] l show ?thesis
    by (auto simp: sample_transfer_def sample_deposit_def sample_shield_def)
qed

text \<open>
  No shield is replayed. After any sequence of requests from an empty ledger, the client
  commitments of all accepted shields are pairwise different, so a proof that was applied once
  is never applied again after its pool is topped up.
\<close>

theorem ledger_no_shield_replay:
  assumes "DEPTH < usize_bits X" "\<forall>t \<in> set txs. tx_typed t"
    and "run_txs X (mem_ops X) txs (ledger_with_auth_domain X ad) = (acc, l)"
  shows "distinct (concat (map tx_shield_cms acc)) \<and> lg_applied_shield_cms l = set (concat (map tx_shield_cms acc))"
proof -
  have run: "al_run X (mem_abs (ledger_with_auth_domain X ad)) acc (mem_abs l)" using mem_run [OF assms] by simp
  have "al_shields (mem_abs (ledger_with_auth_domain X ad)) = {}"
    by (simp add: mem_abs_def ledger_with_auth_domain_def Let_def)
  moreover have "al_shields (mem_abs l) = lg_applied_shield_cms l" by (simp add: mem_abs_def)
  ultimately show ?thesis
    using al_run_no_shield_replay [OF run] al_run_components(3) [OF run] by simp
qed

theorem ledger_no_shield_replay_witness:
  "\<exists>l. run_txs sample_ext (mem_ops sample_ext) sample_txs (ledger_with_auth_domain sample_ext ZERO)
         = ([sample_transfer, sample_deposit, sample_shield], l)
       \<and> lg_applied_shield_cms l = {type_tag 1}"
proof -
  obtain l where l: "run_txs sample_ext (mem_ops sample_ext) sample_txs (ledger_with_auth_domain sample_ext ZERO)
     = ([sample_transfer, sample_deposit, sample_shield], l)" by (rule sample_run)
  from ledger_no_shield_replay [OF sample_usize sample_txs_typed l] l show ?thesis
    by (auto simp: sample_transfer_def sample_deposit_def sample_shield_def)
qed

text \<open>
  C4: the tree of a reachable ledger holds exactly the notes of the accepted requests in order,
  a spend is only ever accepted against a root that the tree had at some time, and at most
  \<open>MAX_VALID_ROOTS\<close> roots are kept, the current one among them.
\<close>

theorem ledger_roots_are_historic:
  assumes "DEPTH < usize_bits X" "\<forall>t \<in> set txs. tx_typed t"
    and "run_txs X (mem_ops X) txs (ledger_with_auth_domain X ad) = (acc, l)"
  shows "lg_memos l = concat (map tx_notes acc)
    \<and> mt_leaves (lg_tree l) = map fst (lg_memos l)
    \<and> card (lg_valid_roots l) \<le> MAX_VALID_ROOTS
    \<and> (\<forall>r \<in> lg_valid_roots l. \<exists>n \<le> length (lg_memos l). r = tree_root X (take n (mt_leaves (lg_tree l))))"
proof -
  have run: "mem_inv X l" "al_run X (mem_abs (ledger_with_auth_domain X ad)) acc (mem_abs l)"
    using mem_run [OF assms] by simp_all
  have "al_notes (mem_abs (ledger_with_auth_domain X ad)) = []"
    by (simp add: mem_abs_def ledger_with_auth_domain_def Let_def)
  moreover have "al_notes (mem_abs l) = lg_memos l" by (simp add: mem_abs_def)
  ultimately have memos: "lg_memos l = concat (map tx_notes acc)"
    using al_run_components(1) [OF run(2)] by simp
  have "historic_roots X (mem_abs l)"
    by (rule al_run_historic [OF run(2) mem_new_historic])
  then have "\<forall>r \<in> lg_valid_roots l. \<exists>n \<le> length (lg_memos l). r = tree_root X (take n (map fst (lg_memos l)))"
    by (simp add: historic_roots_def mem_abs_def take_map)
  then show ?thesis
    using memos run(1) card_length [of "lg_root_history l"] by (auto simp: mem_inv_def)
qed

theorem ledger_roots_are_historic_witness:
  "\<exists>l. run_txs sample_ext (mem_ops sample_ext) sample_txs (ledger_with_auth_domain sample_ext ZERO)
         = ([sample_transfer, sample_deposit, sample_shield], l)
       \<and> mt_leaves (lg_tree l) = [ZERO, ZERO, ZERO, type_tag 1, type_tag 2]"
proof -
  obtain l where l: "run_txs sample_ext (mem_ops sample_ext) sample_txs (ledger_with_auth_domain sample_ext ZERO)
     = ([sample_transfer, sample_deposit, sample_shield], l)" by (rule sample_run)
  from ledger_roots_are_historic [OF sample_usize sample_txs_typed l] l show ?thesis
    by (auto simp: sample_transfer_def sample_deposit_def sample_shield_def)
qed

end
