(* ===== verification/Wire.thy ===== *)
theory Wire
  imports Notes
begin

text \<open>
  The canonical wire formats of \<open>core/src/canonical_wire.rs\<close>: payment addresses, encrypted
  notes, note memos and published notes, over the \<open>tezos_data_encoding\<close> codec. The text of the
  codec's own errors is not modelled. Every format is shown to be canonical: a byte string
  decodes exactly when it is the encoding of what it decodes to.
\<close>

section \<open>Fields\<close>

definition FELT252_BYTES :: nat where "FELT252_BYTES = 32"
definition ML_KEM768_ENCAPSULATION_KEY_BYTES :: nat where "ML_KEM768_ENCAPSULATION_KEY_BYTES = 1184"

definition wire_felt :: schema where "wire_felt = Struct [Sized FELT252_BYTES]"
definition wire_u64_le :: schema where "wire_u64_le = Struct [Sized 8]"
definition wire_u16_le :: schema where "wire_u16_le = Struct [Sized 2]"

definition wire_payment_address :: schema where
  "wire_payment_address =
     Struct [wire_felt, wire_felt, wire_felt, wire_felt,
             Sized ML_KEM768_ENCAPSULATION_KEY_BYTES, Sized ML_KEM768_ENCAPSULATION_KEY_BYTES]"

definition wire_encrypted_note :: schema where
  "wire_encrypted_note =
     Struct [Sized ML_KEM768_CIPHERTEXT_BYTES, wire_u16_le, Sized ML_KEM768_CIPHERTEXT_BYTES,
             Sized NOTE_AEAD_NONCE_BYTES, Sized ENCRYPTED_NOTE_BYTES, Sized OUTGOING_RECOVERY_CT_BYTES]"

definition wire_note_memo :: schema where
  "wire_note_memo = Struct [wire_u64_le, wire_felt, wire_encrypted_note]"

definition wire_published_note :: schema where
  "wire_published_note = Struct [wire_felt, wire_encrypted_note]"

definition felt_to_wire :: "felt \<Rightarrow> wire" where
  "felt_to_wire f = WFields [WBytes f]"

text \<open>A value of another shape cannot arise: the Rust types exclude it.\<close>

definition ill_typed :: "'a res" where
  "ill_typed = Inl (Panic ''ill-typed wire value'')"

definition wire_to_felt :: "wire \<Rightarrow> felt res" where
  "wire_to_felt w =
     (case w of WFields [WBytes b] \<Rightarrow>
        attempt (guard (length b = FELT252_BYTES)
          (''bad felt length: got '' @ show_nat (length b) @ '' bytes, expected '' @ show_nat FELT252_BYTES)) (\<lambda>_.
        Inr b)
      | _ \<Rightarrow> ill_typed)"

definition u64_to_wire :: "u64 \<Rightarrow> wire" where
  "u64_to_wire v = WFields [WBytes (to_le 8 v)]"

definition wire_to_u64 :: "wire \<Rightarrow> u64 res" where
  "wire_to_u64 w =
     (case w of WFields [WBytes b] \<Rightarrow>
        attempt (guard (length b = 8)
          (''bad u64 length: got '' @ show_nat (length b) @ '' bytes, expected 8'')) (\<lambda>_.
        Inr (from_le b))
      | _ \<Rightarrow> ill_typed)"

definition u16_to_wire :: "u16 \<Rightarrow> wire" where
  "u16_to_wire v = WFields [WBytes (to_le 2 v)]"

definition wire_to_u16 :: "wire \<Rightarrow> u16 res" where
  "wire_to_u16 w =
     (case w of WFields [WBytes b] \<Rightarrow>
        attempt (guard (length b = 2)
          (''bad u16 length: got '' @ show_nat (length b) @ '' bytes, expected 2'')) (\<lambda>_.
        Inr (from_le b))
      | _ \<Rightarrow> ill_typed)"

definition encode_tze :: "'x ext_scheme \<Rightarrow> schema \<Rightarrow> wire \<Rightarrow> bytes res" where
  "encode_tze X s w = ok_or (tze_write X s w) ''tezos_data_encoding write failed''"

definition decode_tze :: "'x ext_scheme \<Rightarrow> schema \<Rightarrow> bytes \<Rightarrow> wire res" where
  "decode_tze X s bs =
     attempt (ok_or (tze_read X s bs) ''tezos_data_encoding read failed'') (\<lambda>(rest, decoded).
     attempt (guard (rest = [])
       (''tezos_data_encoding decode left '' @ show_nat (length rest) @ '' trailing bytes'')) (\<lambda>_.
     Inr decoded))"

section \<open>Formats\<close>

record payment_address =
  pa_d_j :: felt
  pa_auth_root :: felt
  pa_auth_pub_seed :: felt
  pa_nk_tag :: felt
  pa_ek_v :: bytes
  pa_ek_d :: bytes

definition encode_payment_address :: "'x ext_scheme \<Rightarrow> payment_address \<Rightarrow> bytes res" where
  "encode_payment_address X addr =
     encode_tze X wire_payment_address
       (WFields [felt_to_wire (pa_d_j addr), felt_to_wire (pa_auth_root addr),
                 felt_to_wire (pa_auth_pub_seed addr), felt_to_wire (pa_nk_tag addr),
                 WBytes (pa_ek_v addr), WBytes (pa_ek_d addr)])"

definition decode_payment_address :: "'x ext_scheme \<Rightarrow> bytes \<Rightarrow> payment_address res" where
  "decode_payment_address X bs =
     attempt (decode_tze X wire_payment_address bs) (\<lambda>w.
     case w of WFields [w1, w2, w3, w4, WBytes ek_v, WBytes ek_d] \<Rightarrow>
       attempt (wire_to_felt w1) (\<lambda>d_j.
       attempt (wire_to_felt w2) (\<lambda>auth_root.
       attempt (wire_to_felt w3) (\<lambda>auth_pub_seed.
       attempt (wire_to_felt w4) (\<lambda>nk_tag.
       Inr \<lparr>pa_d_j = d_j, pa_auth_root = auth_root, pa_auth_pub_seed = auth_pub_seed,
            pa_nk_tag = nk_tag, pa_ek_v = ek_v, pa_ek_d = ek_d\<rparr>))))
     | _ \<Rightarrow> ill_typed)"

text \<open>The \<open>WireEncryptedNote\<close> of a note and the note of a \<open>WireEncryptedNote\<close>.\<close>

definition note_to_wire :: "encrypted_note \<Rightarrow> wire" where
  "note_to_wire enc =
     WFields [WBytes (en_ct_d enc), u16_to_wire (en_tag enc), WBytes (en_ct_v enc), WBytes (en_nonce enc),
              WBytes (en_encrypted_data enc), WBytes (en_outgoing_ct enc)]"

definition wire_to_note :: "wire \<Rightarrow> encrypted_note res" where
  "wire_to_note w =
     (case w of WFields [WBytes ct_d, wt, WBytes ct_v, WBytes nonce, WBytes encrypted_data, WBytes outgoing_ct] \<Rightarrow>
        attempt (wire_to_u16 wt) (\<lambda>note_tag.
        let enc = \<lparr>en_ct_d = ct_d, en_tag = note_tag, en_ct_v = ct_v, en_nonce = nonce,
                   en_encrypted_data = encrypted_data, en_outgoing_ct = outgoing_ct\<rparr> in
        attempt (note_validate enc) (\<lambda>_. Inr enc))
      | _ \<Rightarrow> ill_typed)"

definition encode_encrypted_note :: "'x ext_scheme \<Rightarrow> encrypted_note \<Rightarrow> bytes res" where
  "encode_encrypted_note X enc =
     attempt (note_validate enc) (\<lambda>_. encode_tze X wire_encrypted_note (note_to_wire enc))"

definition decode_encrypted_note :: "'x ext_scheme \<Rightarrow> bytes \<Rightarrow> encrypted_note res" where
  "decode_encrypted_note X bs = attempt (decode_tze X wire_encrypted_note bs) wire_to_note"

record note_memo =
  nm_index :: nat
  nm_cm :: felt
  nm_enc :: encrypted_note

definition encode_note_memo :: "'x ext_scheme \<Rightarrow> note_memo \<Rightarrow> bytes res" where
  "encode_note_memo X note =
     attempt (guard (nm_index note < 2 ^ 64)
       (''note index '' @ show_nat (nm_index note) @ '' does not fit in u64'')) (\<lambda>_.
     encode_tze X wire_note_memo
       (WFields [u64_to_wire (word_of_nat (nm_index note)), felt_to_wire (nm_cm note), note_to_wire (nm_enc note)]))"

definition decode_note_memo :: "'x ext_scheme \<Rightarrow> bytes \<Rightarrow> note_memo res" where
  "decode_note_memo X bs =
     attempt (decode_tze X wire_note_memo bs) (\<lambda>w.
     case w of WFields [wi, wc, wn] \<Rightarrow>
       attempt (wire_to_u64 wi) (\<lambda>v.
       attempt (guard (unat v < 2 ^ usize_bits X) ''note index does not fit in usize'') (\<lambda>_.
       attempt (wire_to_note wn) (\<lambda>enc.
       attempt (wire_to_felt wc) (\<lambda>cm.
       Inr \<lparr>nm_index = unat v, nm_cm = cm, nm_enc = enc\<rparr>))))
     | _ \<Rightarrow> ill_typed)"

definition encode_published_note :: "'x ext_scheme \<Rightarrow> felt \<Rightarrow> encrypted_note \<Rightarrow> bytes res" where
  "encode_published_note X cm enc =
     attempt (note_validate enc) (\<lambda>_.
     encode_tze X wire_published_note (WFields [felt_to_wire cm, note_to_wire enc]))"

definition decode_published_note :: "'x ext_scheme \<Rightarrow> bytes \<Rightarrow> (felt \<times> encrypted_note) res" where
  "decode_published_note X bs =
     attempt (decode_tze X wire_published_note bs) (\<lambda>w.
     case w of WFields [wc, wn] \<Rightarrow>
       attempt (wire_to_note wn) (\<lambda>enc.
       attempt (wire_to_felt wc) (\<lambda>cm.
       Inr (cm, enc)))
     | _ \<Rightarrow> ill_typed)"

section \<open>Canonicity\<close>

lemma decode_tze_iff:
  assumes "tze_laws X"
  shows "decode_tze X s bs = Inr w \<longleftrightarrow> fits s w \<and> encode_tze X s w = Inr bs"
proof
  assume "decode_tze X s bs = Inr w"
  then have "tze_read X s bs = Some ([], w)" by (auto simp: decode_tze_def res_simps)
  then show "fits s w \<and> encode_tze X s w = Inr bs"
    using assms unfolding tze_laws_def by (fastforce simp: encode_tze_def)
next
  assume w: "fits s w \<and> encode_tze X s w = Inr bs"
  then obtain b where b: "tze_write X s w = Some b" "\<And>rest. tze_read X s (b @ rest) = Some (rest, w)"
    using assms unfolding tze_laws_def by blast
  then have "tze_read X s bs = Some ([], w)" using w b(2) [of "[]"] by (simp add: encode_tze_def)
  then show "decode_tze X s bs = Inr w" by (simp add: decode_tze_def)
qed

lemma encode_tze_fits:
  assumes "tze_laws X" "fits s w"
  obtains b where "encode_tze X s w = Inr b" "length b = wire_size s w"
proof -
  obtain b where "tze_write X s w = Some b" "length b = wire_size s w"
    using assms unfolding tze_laws_def by blast
  then show ?thesis using that by (simp add: encode_tze_def)
qed

lemmas wire_schemas = wire_felt_def wire_u64_le_def wire_u16_le_def wire_payment_address_def
  wire_encrypted_note_def wire_note_memo_def wire_published_note_def FELT252_BYTES_def
  ML_KEM768_ENCAPSULATION_KEY_BYTES_def

lemma wire_to_felt_iff: "wire_to_felt w = Inr f \<longleftrightarrow> is_felt f \<and> w = felt_to_wire f"
  by (auto simp: wire_to_felt_def felt_to_wire_def ill_typed_def is_felt_def FELT252_BYTES_def res_simps
      split: wire.splits list.splits)

lemma fits_felt: "fits wire_felt w \<longleftrightarrow> (\<exists>f. is_felt f \<and> w = felt_to_wire f)"
  by (auto simp: wire_felt_def fits_simps felt_to_wire_def is_felt_def FELT252_BYTES_def)

lemma fits_felt_to_wire [simp]: "is_felt f \<Longrightarrow> fits wire_felt (felt_to_wire f)"
  by (auto simp: fits_felt)

lemma wire_to_u64_iff: "wire_to_u64 w = Inr v \<longleftrightarrow> w = u64_to_wire v"
proof
  assume "wire_to_u64 w = Inr v"
  then show "w = u64_to_wire v"
    by (auto simp: to_le_from_le_n wire_to_u64_def u64_to_wire_def ill_typed_def res_simps split: wire.splits list.splits)
qed (simp add: wire_to_u64_def u64_to_wire_def)

lemma wire_to_u16_iff: "wire_to_u16 w = Inr v \<longleftrightarrow> w = u16_to_wire v"
proof
  assume "wire_to_u16 w = Inr v"
  then show "w = u16_to_wire v"
    by (auto simp: to_le_from_le_n wire_to_u16_def u16_to_wire_def ill_typed_def res_simps split: wire.splits list.splits)
qed (simp add: wire_to_u16_def u16_to_wire_def)

lemma wire_to_note_iff: "wire_to_note w = Inr enc \<longleftrightarrow> note_validate enc = Inr () \<and> w = note_to_wire enc"
proof
  assume "wire_to_note w = Inr enc"
  then show "note_validate enc = Inr () \<and> w = note_to_wire enc"
    by (auto simp: wire_to_note_def note_to_wire_def ill_typed_def res_simps wire_to_u16_iff Let_def
        split: wire.splits list.splits)
next
  assume "note_validate enc = Inr () \<and> w = note_to_wire enc"
  then show "wire_to_note w = Inr enc"
    using iffD2 [OF wire_to_u16_iff refl, of "en_tag enc"]
    by (cases enc) (simp add: wire_to_note_def note_to_wire_def Let_def)
qed

lemma fits_note: "note_validate enc = Inr () \<Longrightarrow> fits wire_encrypted_note (note_to_wire enc)"
  by (simp add: note_validate_iff wire_encrypted_note_def note_to_wire_def wire_u16_le_def u16_to_wire_def note_sizes)

lemma published_note_iff:
  assumes "tze_laws X"
  shows "decode_published_note X bs = Inr (cm, enc) \<longleftrightarrow> is_felt cm \<and> encode_published_note X cm enc = Inr bs"
proof
  assume "decode_published_note X bs = Inr (cm, enc)"
  then obtain w where w: "decode_tze X wire_published_note bs = Inr w"
    and dec: "decode_published_note X bs = Inr (cm, enc)"
    by (auto simp: decode_published_note_def res_simps)
  then have "fits wire_published_note w" using assms by (simp add: decode_tze_iff)
  then obtain wc wn where "w = WFields [wc, wn]"
    by (auto simp: wire_published_note_def fits_Struct fits_all_Cons)
  then have "decode_tze X wire_published_note bs = Inr (WFields [wc, wn])"
    "wire_to_note wn = Inr enc" "wire_to_felt wc = Inr cm"
    using w dec by (auto simp: decode_published_note_def res_simps)
  then show "is_felt cm \<and> encode_published_note X cm enc = Inr bs"
    using assms by (simp add: decode_tze_iff wire_to_note_iff wire_to_felt_iff encode_published_note_def)
next
  assume a: "is_felt cm \<and> encode_published_note X cm enc = Inr bs"
  then have v: "note_validate enc = Inr ()" "encode_tze X wire_published_note (WFields [felt_to_wire cm, note_to_wire enc]) = Inr bs"
    by (auto simp: encode_published_note_def res_simps)
  have "fits wire_published_note (WFields [felt_to_wire cm, note_to_wire enc])"
    using a fits_note [OF v(1)] fits_felt by (auto simp: wire_published_note_def)
  then have "decode_tze X wire_published_note bs = Inr (WFields [felt_to_wire cm, note_to_wire enc])"
    using assms v by (simp add: decode_tze_iff)
  moreover have "wire_to_note (note_to_wire enc) = Inr enc" "wire_to_felt (felt_to_wire cm) = Inr cm"
    using a v by (simp_all add: wire_to_note_iff wire_to_felt_iff)
  ultimately show "decode_published_note X bs = Inr (cm, enc)"
    by (simp add: decode_published_note_def)
qed

lemma encode_published_note_ok:
  assumes "tze_laws X" "is_felt cm" "note_validate enc = Inr ()"
  obtains b where "encode_published_note X cm enc = Inr b" "length b = 3487"
proof -
  have f: "fits wire_published_note (WFields [felt_to_wire cm, note_to_wire enc])"
    using assms fits_note [OF assms(3)] fits_felt by (auto simp: wire_published_note_def)
  have "wire_size wire_published_note (WFields [felt_to_wire cm, note_to_wire enc]) = 3487"
    by (simp add: wire_schemas note_sizes felt_to_wire_def note_to_wire_def u16_to_wire_def)
  then show ?thesis
    using encode_tze_fits [OF assms(1) f] assms(3) that by (auto simp: encode_published_note_def)
qed

definition pa_ok :: "payment_address \<Rightarrow> bool" where
  "pa_ok a \<longleftrightarrow> is_felt (pa_d_j a) \<and> is_felt (pa_auth_root a) \<and> is_felt (pa_auth_pub_seed a) \<and> is_felt (pa_nk_tag a)
     \<and> length (pa_ek_v a) = ML_KEM768_ENCAPSULATION_KEY_BYTES \<and> length (pa_ek_d a) = ML_KEM768_ENCAPSULATION_KEY_BYTES"

section \<open>Properties\<close>

text \<open>
  The published form of a note is canonical: a byte string decodes to a commitment and a
  note exactly when it is their encoding. So nothing is accepted with trailing bytes, wrong
  sizes or an invalid note, and no two byte strings stand for the same note.
\<close>

theorem published_note_canonical:
  assumes "tze_laws X"
  shows "decode_published_note X bs = Inr (cm, enc) \<longleftrightarrow> is_felt cm \<and> encode_published_note X cm enc = Inr bs"
  using assms by (rule published_note_iff)

theorem published_note_canonical_witness:
  "\<exists>bs. encode_published_note sample_ext ZERO sample_note = Inr bs
        \<and> decode_published_note sample_ext bs = Inr (ZERO, sample_note)"
proof -
  obtain bs where "encode_published_note sample_ext ZERO sample_note = Inr bs"
    using encode_published_note_ok [OF sample_tze_laws is_felt_ZERO sample_note_valid] .
  with published_note_canonical [OF sample_tze_laws, of bs ZERO sample_note] show ?thesis by auto
qed

text \<open>
  Payment addresses are canonical on the wire: a byte string decodes to an address exactly
  when it is the encoding of an address with fields of the right sizes.
\<close>

theorem payment_address_canonical:
  assumes "tze_laws X"
  shows "decode_payment_address X bs = Inr a \<longleftrightarrow> pa_ok a \<and> encode_payment_address X a = Inr bs"
proof
  assume "decode_payment_address X bs = Inr a"
  then obtain wa where wa: "decode_tze X wire_payment_address bs = Inr wa"
    and dec: "decode_payment_address X bs = Inr a"
    by (auto simp: decode_payment_address_def res_simps)
  then have "fits wire_payment_address wa" using assms by (simp add: decode_tze_iff)
  then obtain w1 w2 w3 w4 ev ed where "wa = WFields [w1, w2, w3, w4, WBytes ev, WBytes ed]"
    by (auto simp: wire_payment_address_def fits_simps)
  then have d: "decode_tze X wire_payment_address bs = Inr (WFields [w1, w2, w3, w4, WBytes ev, WBytes ed])"
    and w: "wire_to_felt w1 = Inr (pa_d_j a)" "wire_to_felt w2 = Inr (pa_auth_root a)"
      "wire_to_felt w3 = Inr (pa_auth_pub_seed a)" "wire_to_felt w4 = Inr (pa_nk_tag a)"
      "pa_ek_v a = ev" "pa_ek_d a = ed"
    using wa dec by (auto simp: decode_payment_address_def res_simps)
  from d assms have "fits wire_payment_address (WFields [w1, w2, w3, w4, WBytes ev, WBytes ed])"
    "encode_tze X wire_payment_address (WFields [w1, w2, w3, w4, WBytes ev, WBytes ed]) = Inr bs"
    by (simp_all add: decode_tze_iff)
  with w show "pa_ok a \<and> encode_payment_address X a = Inr bs"
    by (simp add: pa_ok_def encode_payment_address_def wire_to_felt_iff wire_payment_address_def)
next
  assume a: "pa_ok a \<and> encode_payment_address X a = Inr bs"
  let ?w = "WFields [felt_to_wire (pa_d_j a), felt_to_wire (pa_auth_root a), felt_to_wire (pa_auth_pub_seed a),
     felt_to_wire (pa_nk_tag a), WBytes (pa_ek_v a), WBytes (pa_ek_d a)]"
  have "fits wire_payment_address ?w"
    using a fits_felt by (auto simp: pa_ok_def wire_payment_address_def)
  then have "decode_tze X wire_payment_address bs = Inr ?w"
    using a assms by (simp add: decode_tze_iff encode_payment_address_def)
  moreover have "is_felt f \<Longrightarrow> wire_to_felt (felt_to_wire f) = Inr f" for f by (simp add: wire_to_felt_iff)
  ultimately show "decode_payment_address X bs = Inr a"
    using a by (cases a) (simp add: decode_payment_address_def pa_ok_def)
qed

theorem payment_address_canonical_witness:
  "\<exists>bs. encode_payment_address sample_ext
           \<lparr>pa_d_j = ZERO, pa_auth_root = ZERO, pa_auth_pub_seed = ZERO, pa_nk_tag = ZERO,
            pa_ek_v = replicate ML_KEM768_ENCAPSULATION_KEY_BYTES 1,
            pa_ek_d = replicate ML_KEM768_ENCAPSULATION_KEY_BYTES 2\<rparr> = Inr bs
        \<and> (\<exists>a. decode_payment_address sample_ext bs = Inr a)"
proof -
  let ?a = "\<lparr>pa_d_j = ZERO, pa_auth_root = ZERO, pa_auth_pub_seed = ZERO, pa_nk_tag = ZERO,
            pa_ek_v = replicate ML_KEM768_ENCAPSULATION_KEY_BYTES 1,
            pa_ek_d = replicate ML_KEM768_ENCAPSULATION_KEY_BYTES 2\<rparr>"
  have "pa_ok ?a" by (simp add: pa_ok_def)
  moreover have "fits wire_payment_address (WFields [felt_to_wire ZERO, felt_to_wire ZERO, felt_to_wire ZERO,
     felt_to_wire ZERO, WBytes (pa_ek_v ?a), WBytes (pa_ek_d ?a)])"
    using is_felt_ZERO by (auto simp: wire_payment_address_def)
  then obtain bs where "encode_payment_address sample_ext ?a = Inr bs"
    by (auto simp: encode_payment_address_def elim: encode_tze_fits [OF sample_tze_laws])
  ultimately show ?thesis
    using payment_address_canonical [OF sample_tze_laws, of bs ?a] by blast
qed

text \<open>
  Note memos on the wire decode exactly when they are encodings, of memos whose index fits
  the target's \<open>usize\<close> and whose note is valid.
\<close>

theorem note_memo_canonical:
  assumes "tze_laws X"
  shows "decode_note_memo X bs = Inr n \<longleftrightarrow>
     is_felt (nm_cm n) \<and> note_validate (nm_enc n) = Inr () \<and> nm_index n < 2 ^ usize_bits X
     \<and> encode_note_memo X n = Inr bs"
proof
  assume "decode_note_memo X bs = Inr n"
  then obtain wm where wm: "decode_tze X wire_note_memo bs = Inr wm"
    and dec: "decode_note_memo X bs = Inr n"
    by (auto simp: decode_note_memo_def res_simps)
  then have "fits wire_note_memo wm" using assms by (simp add: decode_tze_iff)
  then obtain wi wc wn where "wm = WFields [wi, wc, wn]"
    by (auto simp: wire_note_memo_def fits_Struct fits_all_Cons)
  then obtain v where d: "decode_tze X wire_note_memo bs = Inr (WFields [wi, wc, wn])"
    and w: "wire_to_u64 wi = Inr v" "unat v < 2 ^ usize_bits X" "nm_index n = unat v"
      "wire_to_note wn = Inr (nm_enc n)" "wire_to_felt wc = Inr (nm_cm n)"
    using wm dec by (auto simp: decode_note_memo_def res_simps)
  moreover have "unat v < 2 ^ 64" using unsigned_less [of v] by simp
  ultimately show "is_felt (nm_cm n) \<and> note_validate (nm_enc n) = Inr () \<and> nm_index n < 2 ^ usize_bits X
     \<and> encode_note_memo X n = Inr bs"
    using assms by (simp add: decode_tze_iff wire_to_note_iff wire_to_felt_iff wire_to_u64_iff encode_note_memo_def)
next
  assume a: "is_felt (nm_cm n) \<and> note_validate (nm_enc n) = Inr () \<and> nm_index n < 2 ^ usize_bits X
     \<and> encode_note_memo X n = Inr bs"
  let ?v = "word_of_nat (nm_index n) :: u64"
  let ?w = "WFields [u64_to_wire ?v, felt_to_wire (nm_cm n), note_to_wire (nm_enc n)]"
  have v: "unat ?v = nm_index n" and e: "encode_tze X wire_note_memo ?w = Inr bs"
    using a by (auto simp: encode_note_memo_def res_simps unat_of_nat_small)
  have "fits wire_note_memo ?w"
    using a fits_note fits_felt by (auto simp: wire_note_memo_def wire_u64_le_def u64_to_wire_def)
  then have "decode_tze X wire_note_memo bs = Inr ?w" using assms e by (simp add: decode_tze_iff)
  moreover have "wire_to_u64 (u64_to_wire ?v) = Inr ?v" by (simp add: wire_to_u64_iff)
  moreover have "wire_to_note (note_to_wire (nm_enc n)) = Inr (nm_enc n)"
    "wire_to_felt (felt_to_wire (nm_cm n)) = Inr (nm_cm n)"
    using a by (simp_all add: wire_to_note_iff wire_to_felt_iff)
  ultimately show "decode_note_memo X bs = Inr n" using a v by (simp add: decode_note_memo_def)
qed

theorem note_memo_canonical_witness:
  "\<exists>bs. encode_note_memo sample_ext \<lparr>nm_index = 7, nm_cm = ZERO, nm_enc = sample_note\<rparr> = Inr bs
        \<and> decode_note_memo sample_ext bs = Inr \<lparr>nm_index = 7, nm_cm = ZERO, nm_enc = sample_note\<rparr>"
proof -
  let ?n = "\<lparr>nm_index = 7, nm_cm = ZERO, nm_enc = sample_note\<rparr>"
  have "fits wire_note_memo (WFields [u64_to_wire (word_of_nat 7), felt_to_wire ZERO, note_to_wire sample_note])"
    using fits_note [OF sample_note_valid] is_felt_ZERO
    by (auto simp: wire_note_memo_def wire_u64_le_def u64_to_wire_def)
  then obtain bs where "encode_note_memo sample_ext ?n = Inr bs"
    by (auto simp: encode_note_memo_def elim: encode_tze_fits [OF sample_tze_laws])
  then show ?thesis
    using note_memo_canonical [OF sample_tze_laws, of bs ?n] sample_note_valid by (auto simp: sample_ext_def)
qed

end
