(* ===== verification/Host.thy ===== *)
theory Host
  imports Wire LedgerSpec
begin

text \<open>
  The host of the rollup kernel (\<open>tezos/rollup-kernel/src/lib.rs\<close>): the \<open>Host\<close> interface and
  the layout of the durable store. The store maps paths to byte strings. What a host does on
  the other side of the interface is a parameter: what a path holds after a write, the address
  of the rollup, the revealed data-availability parameters and pages, and whether an output is
  accepted. \<open>overwriting\<close> is the behaviour the kernel and its tests count on, \<open>splicing\<close>
  the one the WebAssembly host function \<open>store_write\<close> at offset zero documents. Every path
  the kernel uses is the path of a structured key; the paths of different keys differ.
\<close>

section \<open>The host\<close>

type_synonym i32 = "32 word"

text \<open>A decimal number with its sign, as \<open>format!\<close> prints an \<open>i32\<close>.\<close>

definition show_i32 :: "i32 \<Rightarrow> string" where
  "show_i32 w = (if sint w < 0 then CHR ''-'' # show_nat (nat (- sint w)) else show_nat (nat (sint w)))"

record input_message =
  im_level :: i32
  im_id :: i32
  im_payload :: bytes

record dal_parameters =
  dp_number_of_slots :: u64
  dp_attestation_lag :: u64
  dp_slot_size :: u64
  dp_page_size :: u64

record host =
  h_inputs :: "input_message list"
  h_store :: "string \<Rightarrow> bytes option"
  h_outputs :: "bytes list"
  h_debug :: "string list"

record host_env = ext +
  put_content :: "bytes option \<Rightarrow> bytes \<Rightarrow> bytes"
  host_rollup_address :: bytes
  host_dal_parameters :: "dal_parameters res"
  host_dal_page :: "i32 \<Rightarrow> u8 \<Rightarrow> u16 \<Rightarrow> nat \<Rightarrow> bytes res"
  output_accepted :: "bytes list \<Rightarrow> bytes \<Rightarrow> bool"

definition overwriting :: "'x host_env_scheme \<Rightarrow> bool" where
  "overwriting E \<longleftrightarrow> (\<forall>old new. put_content E old new = new)"

definition splicing :: "'x host_env_scheme \<Rightarrow> bool" where
  "splicing E \<longleftrightarrow>
     (\<forall>old new. put_content E old new = new @ (case old of None \<Rightarrow> [] | Some b \<Rightarrow> drop (length new) b))"

definition next_input :: "host \<Rightarrow> input_message option \<times> host" where
  "next_input h = (case h_inputs h of [] \<Rightarrow> (None, h) | i # is \<Rightarrow> (Some i, h\<lparr>h_inputs := is\<rparr>))"

definition read_store :: "host \<Rightarrow> string \<Rightarrow> nat \<Rightarrow> bytes option" where
  "read_store h path max_bytes = map_option (take max_bytes) (h_store h path)"

definition write_store :: "'x host_env_scheme \<Rightarrow> string \<Rightarrow> bytes \<Rightarrow> host \<Rightarrow> host" where
  "write_store E path v h = h\<lparr>h_store := (h_store h)(path \<mapsto> put_content E (h_store h path) v)\<rparr>"

definition write_output :: "'x host_env_scheme \<Rightarrow> bytes \<Rightarrow> (host, unit) action" where
  "write_output E v h =
     (if output_accepted E (h_outputs h) v then (Inr (), h\<lparr>h_outputs := h_outputs h @ [v]\<rparr>)
      else (Inl (Err ''write_output failed''), h))"

definition write_debug :: "string \<Rightarrow> host \<Rightarrow> host" where
  "write_debug message h = h\<lparr>h_debug := h_debug h @ [message]\<rparr>"

section \<open>Constants and paths\<close>

definition MAX_INPUT_BYTES :: nat where "MAX_INPUT_BYTES = 16 * 1024"
definition MAX_LEDGER_STATE_BYTES :: nat where "MAX_LEDGER_STATE_BYTES = 4 * 1024 * 1024"
definition MAX_RESULT_ERROR_MESSAGE_BYTES :: nat where "MAX_RESULT_ERROR_MESSAGE_BYTES = 4096"
definition MAX_DAL_PAYLOAD_BYTES :: nat where "MAX_DAL_PAYLOAD_BYTES = 512 * 1024"
definition MAX_STORE_STRING_BYTES :: nat where "MAX_STORE_STRING_BYTES = 256"
definition MAX_STORE_BINARY_BYTES :: nat where "MAX_STORE_BINARY_BYTES = 1024"
definition MAX_STORED_INPUT_PAYLOAD_BYTES :: nat where "MAX_STORED_INPUT_PAYLOAD_BYTES = 2048"
definition MAX_NOTE_CHUNK_BYTES :: nat where "MAX_NOTE_CHUNK_BYTES = 1024"

definition PATH_RAW_INPUT_COUNT :: string where "PATH_RAW_INPUT_COUNT = ''/tzel/v1/stats/raw_input_count''"
definition PATH_RAW_INPUT_BYTES :: string where "PATH_RAW_INPUT_BYTES = ''/tzel/v1/stats/raw_input_bytes''"
definition PATH_LAST_INPUT_LEVEL :: string where "PATH_LAST_INPUT_LEVEL = ''/tzel/v1/state/last_input_level''"
definition PATH_LAST_INPUT_ID :: string where "PATH_LAST_INPUT_ID = ''/tzel/v1/state/last_input_id''"
definition PATH_LAST_INPUT_LEN :: string where "PATH_LAST_INPUT_LEN = ''/tzel/v1/state/last_input_len''"
definition PATH_LAST_INPUT_PAYLOAD :: string where "PATH_LAST_INPUT_PAYLOAD = ''/tzel/v1/state/last_input_payload''"
definition PATH_PRIVATE_TX_FEE_LEVEL :: string where "PATH_PRIVATE_TX_FEE_LEVEL = ''/tzel/v1/state/fees/private_tx_level''"
definition PATH_PRIVATE_TX_COUNT_IN_LEVEL :: string where
  "PATH_PRIVATE_TX_COUNT_IN_LEVEL = ''/tzel/v1/state/fees/private_tx_count_in_level''"
definition PATH_AUTH_DOMAIN :: string where "PATH_AUTH_DOMAIN = ''/tzel/v1/state/auth_domain''"
definition PATH_TREE_SIZE :: string where "PATH_TREE_SIZE = ''/tzel/v1/state/tree/size''"
definition PATH_TREE_ROOT :: string where "PATH_TREE_ROOT = ''/tzel/v1/state/tree/root''"
definition PATH_NULLIFIER_COUNT :: string where "PATH_NULLIFIER_COUNT = ''/tzel/v1/state/nullifiers/count''"
definition PATH_VALID_ROOT_COUNT :: string where "PATH_VALID_ROOT_COUNT = ''/tzel/v1/state/roots/count''"
definition PATH_WITHDRAWAL_COUNT :: string where "PATH_WITHDRAWAL_COUNT = ''/tzel/v1/state/withdrawals/count''"
definition PATH_BRIDGE_TICKETER :: string where "PATH_BRIDGE_TICKETER = ''/tzel/v1/state/bridge/ticketer''"
definition PATH_VERIFIER_CONFIG :: string where "PATH_VERIFIER_CONFIG = ''/tzel/v1/state/verifier_config.bin''"
definition PATH_LAST_RESULT :: string where "PATH_LAST_RESULT = ''/tzel/v1/state/last_result.bin''"
definition PATH_TREE_BRANCH_PREFIX :: string where "PATH_TREE_BRANCH_PREFIX = ''/tzel/v1/state/tree/branch/''"
definition PATH_NOTE_PREFIX :: string where "PATH_NOTE_PREFIX = ''/tzel/v1/state/notes/''"
definition PATH_NOTE_LEN_SUFFIX :: string where "PATH_NOTE_LEN_SUFFIX = ''/len''"
definition PATH_NOTE_CHUNK_PREFIX :: string where "PATH_NOTE_CHUNK_PREFIX = ''/chunk/''"
definition PATH_NULLIFIER_PREFIX :: string where "PATH_NULLIFIER_PREFIX = ''/tzel/v1/state/nullifiers/by-key/''"
definition PATH_NULLIFIER_INDEX_PREFIX :: string where "PATH_NULLIFIER_INDEX_PREFIX = ''/tzel/v1/state/nullifiers/index/''"
definition PATH_VALID_ROOT_PREFIX :: string where "PATH_VALID_ROOT_PREFIX = ''/tzel/v1/state/roots/by-key/''"
definition PATH_VALID_ROOT_INDEX_PREFIX :: string where "PATH_VALID_ROOT_INDEX_PREFIX = ''/tzel/v1/state/roots/index/''"
definition PATH_WITHDRAWAL_PREFIX :: string where "PATH_WITHDRAWAL_PREFIX = ''/tzel/v1/state/withdrawals/index/''"
definition PATH_DEPOSIT_BALANCE_PREFIX :: string where "PATH_DEPOSIT_BALANCE_PREFIX = ''/tzel/v1/state/deposits/balance/''"
definition PATH_APPLIED_SHIELD_PREFIX :: string where "PATH_APPLIED_SHIELD_PREFIX = ''/tzel/v1/state/shields/applied_cm/''"

definition indexed_path :: "string \<Rightarrow> u64 \<Rightarrow> string" where
  "indexed_path prefix index = prefix @ fmt_hex 16 (unat index)"

definition note_path :: "u64 \<Rightarrow> string" where
  "note_path index = indexed_path PATH_NOTE_PREFIX index"

definition note_length_path :: "u64 \<Rightarrow> string" where
  "note_length_path index = note_path index @ PATH_NOTE_LEN_SUFFIX"

definition note_chunk_path :: "u64 \<Rightarrow> nat \<Rightarrow> string" where
  "note_chunk_path index chunk_index = note_path index @ PATH_NOTE_CHUNK_PREFIX @ fmt_hex 8 chunk_index"

definition branch_path :: "nat \<Rightarrow> string" where
  "branch_path level = PATH_TREE_BRANCH_PREFIX @ fmt_hex 2 level"

definition root_marker_path :: "'x ext_scheme \<Rightarrow> felt \<Rightarrow> string" where
  "root_marker_path X root = PATH_VALID_ROOT_PREFIX @ hex_encode X root"

definition nullifier_path :: "'x ext_scheme \<Rightarrow> felt \<Rightarrow> string" where
  "nullifier_path X nf = PATH_NULLIFIER_PREFIX @ hex_encode X nf"

definition deposit_balance_path :: "'x ext_scheme \<Rightarrow> felt \<Rightarrow> string" where
  "deposit_balance_path X pubkey_hash = PATH_DEPOSIT_BALANCE_PREFIX @ hex_encode X pubkey_hash"

definition applied_shield_path :: "'x ext_scheme \<Rightarrow> felt \<Rightarrow> string" where
  "applied_shield_path X client_cm = PATH_APPLIED_SHIELD_PREFIX @ hex_encode X client_cm"

section \<open>Keys\<close>

datatype dkey =
  KRawInputCount | KRawInputBytes | KLastInputLevel | KLastInputId | KLastInputLen | KLastInputPayload
  | KPrivateTxFeeLevel | KPrivateTxCount | KAuthDomain | KTreeSize | KTreeRoot | KNullifierCount
  | KValidRootCount | KWithdrawalCount | KBridgeTicketer | KVerifierConfig | KLastResult
  | KBranch nat | KNote u64 | KNoteLen u64 | KNoteChunk u64 nat
  | KNullifier felt | KNullifierAt u64 | KRoot felt | KRootAt u64 | KWithdrawalAt u64
  | KBalance felt | KShield felt

fun path_of :: "'x ext_scheme \<Rightarrow> dkey \<Rightarrow> string" where
  "path_of X KRawInputCount = PATH_RAW_INPUT_COUNT"
| "path_of X KRawInputBytes = PATH_RAW_INPUT_BYTES"
| "path_of X KLastInputLevel = PATH_LAST_INPUT_LEVEL"
| "path_of X KLastInputId = PATH_LAST_INPUT_ID"
| "path_of X KLastInputLen = PATH_LAST_INPUT_LEN"
| "path_of X KLastInputPayload = PATH_LAST_INPUT_PAYLOAD"
| "path_of X KPrivateTxFeeLevel = PATH_PRIVATE_TX_FEE_LEVEL"
| "path_of X KPrivateTxCount = PATH_PRIVATE_TX_COUNT_IN_LEVEL"
| "path_of X KAuthDomain = PATH_AUTH_DOMAIN"
| "path_of X KTreeSize = PATH_TREE_SIZE"
| "path_of X KTreeRoot = PATH_TREE_ROOT"
| "path_of X KNullifierCount = PATH_NULLIFIER_COUNT"
| "path_of X KValidRootCount = PATH_VALID_ROOT_COUNT"
| "path_of X KWithdrawalCount = PATH_WITHDRAWAL_COUNT"
| "path_of X KBridgeTicketer = PATH_BRIDGE_TICKETER"
| "path_of X KVerifierConfig = PATH_VERIFIER_CONFIG"
| "path_of X KLastResult = PATH_LAST_RESULT"
| "path_of X (KBranch level) = branch_path level"
| "path_of X (KNote i) = note_path i"
| "path_of X (KNoteLen i) = note_length_path i"
| "path_of X (KNoteChunk i c) = note_chunk_path i c"
| "path_of X (KNullifier nf) = nullifier_path X nf"
| "path_of X (KNullifierAt i) = indexed_path PATH_NULLIFIER_INDEX_PREFIX i"
| "path_of X (KRoot r) = root_marker_path X r"
| "path_of X (KRootAt i) = indexed_path PATH_VALID_ROOT_INDEX_PREFIX i"
| "path_of X (KWithdrawalAt i) = indexed_path PATH_WITHDRAWAL_PREFIX i"
| "path_of X (KBalance k) = deposit_balance_path X k"
| "path_of X (KShield c) = applied_shield_path X c"

lemmas path_defs = PATH_RAW_INPUT_COUNT_def PATH_RAW_INPUT_BYTES_def PATH_LAST_INPUT_LEVEL_def
  PATH_LAST_INPUT_ID_def PATH_LAST_INPUT_LEN_def PATH_LAST_INPUT_PAYLOAD_def PATH_PRIVATE_TX_FEE_LEVEL_def
  PATH_PRIVATE_TX_COUNT_IN_LEVEL_def PATH_AUTH_DOMAIN_def PATH_TREE_SIZE_def PATH_TREE_ROOT_def
  PATH_NULLIFIER_COUNT_def PATH_VALID_ROOT_COUNT_def PATH_WITHDRAWAL_COUNT_def PATH_BRIDGE_TICKETER_def
  PATH_VERIFIER_CONFIG_def PATH_LAST_RESULT_def PATH_TREE_BRANCH_PREFIX_def PATH_NOTE_PREFIX_def
  PATH_NULLIFIER_PREFIX_def PATH_NULLIFIER_INDEX_PREFIX_def PATH_VALID_ROOT_PREFIX_def
  PATH_VALID_ROOT_INDEX_PREFIX_def PATH_WITHDRAWAL_PREFIX_def PATH_DEPOSIT_BALANCE_PREFIX_def
  PATH_APPLIED_SHIELD_PREFIX_def indexed_path_def note_path_def note_length_path_def note_chunk_path_def
  branch_path_def root_marker_path_def nullifier_path_def deposit_balance_path_def applied_shield_path_def
  PATH_NOTE_LEN_SUFFIX_def PATH_NOTE_CHUNK_PREFIX_def

lemma length_show_base: "n < b ^ Suc k \<Longrightarrow> length (show_base b n) \<le> Suc k"
proof (induction k arbitrary: n)
  case 0
  then show ?case by (simp add: show_base.simps)
next
  case (Suc k)
  then have "n div b < b ^ Suc k" by (simp add: less_mult_imp_div_less mult.commute)
  from Suc.IH [OF this] show ?case by (subst show_base.simps) simp
qed

lemma length_fmt_hex: "n < 16 ^ Suc k \<Longrightarrow> length (fmt_hex (Suc k) n) = Suc k"
  using length_show_base [of n 16 k] by (simp add: fmt_hex_def Let_def)

lemma length_fmt_hex_u64 [simp]: "length (fmt_hex 16 (unat (i :: u64))) = 16"
  using unsigned_less [of i] length_fmt_hex [of "unat i" 15] by simp

lemma fmt_hex_u64_append [simp]:
  "fmt_hex 16 (unat (i :: u64)) @ xs = fmt_hex 16 (unat (j :: u64)) @ ys \<longleftrightarrow> i = j \<and> xs = ys"
  by (auto simp: append_eq_append_conv word_unat_eq_iff)

lemma fmt_hex_u64_Cons [simp]:
  "fmt_hex 16 (unat (i :: u64)) @ x # xs \<noteq> fmt_hex 16 (unat (j :: u64))"
  "fmt_hex 16 (unat (j :: u64)) \<noteq> fmt_hex 16 (unat (i :: u64)) @ x # xs"
  by (metis append_Nil2 fmt_hex_u64_append list.distinct(1))+

lemma path_of_inject [simp]: "hex_laws X \<Longrightarrow> path_of X k = path_of X k' \<longleftrightarrow> k = k'"
  by (cases k; cases k'; simp add: path_defs word_unat_eq_iff)

declare path_of.simps [simp del]

section \<open>The store by keys\<close>

definition at_key :: "'x ext_scheme \<Rightarrow> host \<Rightarrow> dkey \<Rightarrow> bytes option" where
  "at_key X h k = h_store h (path_of X k)"

lemma read_store_key: "read_store h (path_of X k) n = map_option (take n) (at_key X h k)"
  by (simp add: read_store_def at_key_def)

lemma at_key_write:
  assumes "hex_laws E" "overwriting E"
  shows "at_key E (write_store E (path_of E k) v h) = (at_key E h)(k \<mapsto> v)"
  using assms by (auto simp: at_key_def write_store_def overwriting_def)

lemma write_store_fields [simp]:
  "h_inputs (write_store E p v h) = h_inputs h" "h_outputs (write_store E p v h) = h_outputs h"
  "h_debug (write_store E p v h) = h_debug h"
  by (simp_all add: write_store_def)

lemma at_key_write_debug [simp]: "at_key E (write_debug m h) = at_key E h"
  by (simp add: at_key_def write_debug_def fun_eq_iff)

section \<open>An instance\<close>

text \<open>
  \<open>sample_env\<close> extends the sample parameters with a host that overwrites, reveals one page of
  zeros and accepts every output.
\<close>

definition sample_env :: host_env where
  "sample_env = ext.extend sample_ext (host_env.fields (\<lambda>old new. new) (replicate 20 7)
     (Inr \<lparr>dp_number_of_slots = 32, dp_attestation_lag = 8, dp_slot_size = 126944, dp_page_size = 3967\<rparr>)
     (\<lambda>level slot page n. Inr (replicate n 0)) (\<lambda>outs v. True))"

lemma sample_env_sel [simp]:
  "blake2s_digest sample_env = blake2s_digest sample_ext" "hex_encode sample_env = hex_encode sample_ext"
  "hex_decode sample_env = hex_decode sample_ext" "usize_bits sample_env = usize_bits sample_ext"
  "tze_write sample_env = tze_write sample_ext" "tze_read sample_env = tze_read sample_ext"
  "contract_from_b58check sample_env = contract_from_b58check sample_ext"
  by (simp_all add: sample_env_def sample_ext_def ext.defs)

lemma sample_env_laws: "blake_laws sample_env" "hex_laws sample_env" "tze_laws sample_env" "overwriting sample_env"
  subgoal using sample_blake_laws unfolding blake_laws_def sample_env_sel .
  subgoal using sample_hex_laws unfolding hex_laws_def sample_env_sel .
  subgoal using sample_tze_laws unfolding tze_laws_def sample_env_sel .
  subgoal by (simp add: overwriting_def sample_env_def ext.defs host_env.defs)
  done

definition empty_host :: host where
  "empty_host = \<lparr>h_inputs = [], h_store = (\<lambda>_. None), h_outputs = [], h_debug = []\<rparr>"

section \<open>Properties\<close>

text \<open>
  The layout of the durable store has no collisions. Two paths the kernel builds, for
  statistics, configuration, tree, notes and their chunks, nullifiers, roots, withdrawals, pool
  balances and applied shields, are equal only when they are of the same kind and were built
  from the same index, chunk, level or field element.
\<close>

theorem durable_paths_disjoint:
  assumes "hex_laws X"
  shows "path_of X k = path_of X k' \<longleftrightarrow> k = k'"
  using assms by simp

theorem durable_paths_disjoint_witness:
  "path_of sample_ext (KNoteChunk 1 0) \<noteq> path_of sample_ext (KNoteLen 1)
   \<and> path_of sample_ext (KNullifier ZERO) \<noteq> path_of sample_ext (KRoot ZERO)"
  using durable_paths_disjoint [OF sample_hex_laws] by simp

end
