(* ===== verification/Durable.thy ===== *)
theory Durable
  imports Host
begin

text \<open>
  The durable ledger of the rollup kernel (\<open>DurableLedgerState\<close> in
  \<open>tezos/rollup-kernel/src/lib.rs\<close>): typed reads and writes of the store, the initialisation,
  the chunked storage of notes, the record codec of withdrawals, and the implementation of the
  ledger interface over the store. The Rust structure borrows the host and caches the hashes of
  the empty subtrees, a constant of the model; its operations are actions on the host. Counters
  of stored items grow by \<open>index + 1\<close> on \<open>u64\<close>, which wraps in the release profile the kernel
  is built with. A store in which the operations leave the keys consistent represents an
  abstract ledger, and the implementation satisfies the contract of the ledger interface.
\<close>

section \<open>Reads and writes\<close>

definition read_u64 :: "host \<Rightarrow> string \<Rightarrow> u64 option" where
  "read_u64 h path = (case read_store h path 8 of None \<Rightarrow> None
     | Some b \<Rightarrow> if length b \<noteq> 8 then None else Some (from_le b))"

definition read_u32 :: "host \<Rightarrow> string \<Rightarrow> u32 option" where
  "read_u32 h path = (case read_store h path 4 of None \<Rightarrow> None
     | Some b \<Rightarrow> if length b \<noteq> 4 then None else Some (from_le b))"

definition read_i32 :: "host \<Rightarrow> string \<Rightarrow> i32 option" where
  "read_i32 h path = (case read_store h path 4 of None \<Rightarrow> None
     | Some b \<Rightarrow> if length b \<noteq> 4 then None else Some (from_le b))"

definition increment_u64 :: "'x host_env_scheme \<Rightarrow> string \<Rightarrow> u64 \<Rightarrow> host \<Rightarrow> host" where
  "increment_u64 E path delta h =
     (let next = saturating_add (case read_u64 h path of None \<Rightarrow> 0 | Some v \<Rightarrow> v) delta
      in write_store E path (to_le 8 next) h)"

definition dl_read_u64 :: "host \<Rightarrow> string \<Rightarrow> u64 option res" where
  "dl_read_u64 h path =
     (case read_store h path 8 of
        None \<Rightarrow> Inr None
      | Some b \<Rightarrow> attempt (guard (length b = 8) (''bad u64 at '' @ path)) (\<lambda>_. Inr (Some (from_le b))))"

definition dl_write_u64 :: "'x host_env_scheme \<Rightarrow> string \<Rightarrow> u64 \<Rightarrow> host \<Rightarrow> host" where
  "dl_write_u64 E path v h = write_store E path (to_le 8 v) h"

definition read_felt :: "host \<Rightarrow> string \<Rightarrow> felt option res" where
  "read_felt h path =
     (case read_store h path 32 of
        None \<Rightarrow> Inr None
      | Some b \<Rightarrow> attempt (guard (length b = 32) (''bad felt at '' @ path)) (\<lambda>_. Inr (Some b)))"

definition write_felt :: "'x host_env_scheme \<Rightarrow> string \<Rightarrow> felt \<Rightarrow> host \<Rightarrow> host" where
  "write_felt E path v h = write_store E path v h"

definition read_string :: "host \<Rightarrow> string \<Rightarrow> nat \<Rightarrow> string option res" where
  "read_string h path max_bytes =
     (case read_store h path (min max_bytes MAX_STORE_STRING_BYTES) of
        None \<Rightarrow> Inr None
      | Some b \<Rightarrow> attempt (ok_or (from_utf8 b) (''invalid UTF-8 at '' @ path)) (\<lambda>s. Inr (Some s)))"

definition write_string :: "'x host_env_scheme \<Rightarrow> string \<Rightarrow> string \<Rightarrow> host \<Rightarrow> host" where
  "write_string E path v h = write_store E path (as_bytes v) h"

definition write_marker :: "'x host_env_scheme \<Rightarrow> string \<Rightarrow> host \<Rightarrow> host" where
  "write_marker E path h = write_store E path [1] h"

definition has_marker :: "host \<Rightarrow> string \<Rightarrow> bool" where
  "has_marker h path \<longleftrightarrow> read_store h path 1 \<noteq> None"

definition write_key_at_index :: "'x host_env_scheme \<Rightarrow> string \<Rightarrow> u64 \<Rightarrow> felt \<Rightarrow> host \<Rightarrow> host" where
  "write_key_at_index E prefix index key h = write_store E (indexed_path prefix index) key h"

definition encode_withdrawal_record :: "withdrawal_record \<Rightarrow> bytes" where
  "encode_withdrawal_record record =
     (let recipient = as_bytes (wr_recipient record)
      in to_le 8 (wr_amount record)
         @ to_le 4 (if length recipient < 2 ^ 32 then word_of_nat (length recipient) else (- 1 :: u32))
         @ recipient)"

definition decode_withdrawal_record :: "'x ext_scheme \<Rightarrow> bytes \<Rightarrow> withdrawal_record res" where
  "decode_withdrawal_record X b =
     attempt (guard (\<not> length b < 12) ''withdrawal record too short'') (\<lambda>_.
     let amount = from_le (slice 0 8 b);
         recipient_len = unat (from_le (slice 8 12 b) :: u32) mod 2 ^ usize_bits X in
     attempt (guard (length b = (12 + recipient_len) mod 2 ^ usize_bits X) ''withdrawal record length mismatch'') (\<lambda>_.
     attempt (ok_or (from_utf8 (drop 12 b)) ''withdrawal recipient is not UTF-8'') (\<lambda>recipient.
     Inr \<lparr>wr_recipient = recipient, wr_amount = amount\<rparr>)))"

definition write_withdrawal_at_index :: "'x host_env_scheme \<Rightarrow> u64 \<Rightarrow> withdrawal_record \<Rightarrow> host \<Rightarrow> host" where
  "write_withdrawal_at_index E index record h =
     write_store E (indexed_path PATH_WITHDRAWAL_PREFIX index) (encode_withdrawal_record record) h"

section \<open>Notes in chunks\<close>

text \<open>\<open>slice::chunks\<close>\<close>

function chunks :: "nat \<Rightarrow> 'a list \<Rightarrow> 'a list list" where
  "chunks n xs = (if xs = [] \<or> n = 0 then [] else take n xs # chunks n (drop n xs))"
  by pat_completeness auto
termination
  by (relation "measure (\<lambda>(n, xs). length xs)") auto

declare chunks.simps [simp del]

definition write_note_payload :: "'x host_env_scheme \<Rightarrow> u64 \<Rightarrow> bytes \<Rightarrow> host \<Rightarrow> host" where
  "write_note_payload E index encoded h =
     (if length encoded \<le> MAX_NOTE_CHUNK_BYTES then write_store E (note_path index) encoded h
      else fold (\<lambda>(chunk_index, chunk). write_store E (note_chunk_path index chunk_index) chunk)
             (enumerate 0 (chunks MAX_NOTE_CHUNK_BYTES encoded))
             (write_store E (note_length_path index) (to_le 8 (word_of_nat (length encoded) :: u64)) h))"

fun read_chunks :: "host \<Rightarrow> u64 \<Rightarrow> nat list \<Rightarrow> bytes option" where
  "read_chunks h index [] = Some []"
| "read_chunks h index (c # cs) =
     (case read_store h (note_chunk_path index c) MAX_NOTE_CHUNK_BYTES of
        None \<Rightarrow> None
      | Some chunk \<Rightarrow> map_option (\<lambda>rest. chunk @ rest) (read_chunks h index cs))"

text \<open>\<open>usize::div_ceil\<close>\<close>

definition div_ceil :: "nat \<Rightarrow> nat \<Rightarrow> nat" where
  "div_ceil a b = (if a mod b = 0 then a div b else a div b + 1)"

definition read_persisted_note :: "'x ext_scheme \<Rightarrow> host \<Rightarrow> u64 \<Rightarrow> bytes option" where
  "read_persisted_note X h index =
     (case read_store h (note_path index) MAX_LEDGER_STATE_BYTES of
        Some b \<Rightarrow> Some b
      | None \<Rightarrow>
          (case read_u64 h (note_length_path index) of
             None \<Rightarrow> None
           | Some len \<Rightarrow>
               let total_len = unat len in
               if \<not> total_len < 2 ^ usize_bits X then None
               else if MAX_LEDGER_STATE_BYTES < total_len then None
               else
                 (case read_chunks h index [0..<div_ceil total_len MAX_NOTE_CHUNK_BYTES] of
                    None \<Rightarrow> None
                  | Some b \<Rightarrow> if length b \<noteq> total_len then None else Some b)))"

section \<open>The ledger interface over the store\<close>

definition dur_auth_domain :: "host \<Rightarrow> felt res" where
  "dur_auth_domain h = attempt (read_felt h PATH_AUTH_DOMAIN) (\<lambda>v. ok_or v ''missing auth_domain'')"

definition current_private_tx_count_in_level :: "host \<Rightarrow> u64 res" where
  "current_private_tx_count_in_level h =
     (case read_i32 h PATH_LAST_INPUT_LEVEL of
        None \<Rightarrow> Inr 0
      | Some current_level \<Rightarrow>
          (case read_i32 h PATH_PRIVATE_TX_FEE_LEVEL of
             None \<Rightarrow> Inr 0
           | Some stored_level \<Rightarrow>
               if stored_level \<noteq> current_level then Inr 0
               else attempt (dl_read_u64 h PATH_PRIVATE_TX_COUNT_IN_LEVEL)
                      (\<lambda>v. Inr (case v of None \<Rightarrow> 0 | Some n \<Rightarrow> n))))"

definition dur_required_tx_fee :: "host \<Rightarrow> u64 res" where
  "dur_required_tx_fee h =
     attempt (current_private_tx_count_in_level h) (\<lambda>n. Inr (required_tx_fee_for_private_tx_count n))"

text \<open>\<open>self.read_u64(path)?.unwrap_or(0)\<close>\<close>

definition read_count :: "host \<Rightarrow> string \<Rightarrow> u64 res" where
  "read_count h path = attempt (dl_read_u64 h path) (\<lambda>v. Inr (case v of None \<Rightarrow> 0 | Some n \<Rightarrow> n))"

definition dur_insert_nullifier :: "'x host_env_scheme \<Rightarrow> felt \<Rightarrow> (host, unit) action" where
  "dur_insert_nullifier E nf h =
     (let path = nullifier_path E nf in
      if \<not> has_marker h path then
        bind_act (read_act (\<lambda>h. read_count h PATH_NULLIFIER_COUNT)) (\<lambda>index.
        bind_act (write_act (write_marker E path)) (\<lambda>_.
        bind_act (write_act (write_key_at_index E PATH_NULLIFIER_INDEX_PREFIX index nf)) (\<lambda>_.
        write_act (dl_write_u64 E PATH_NULLIFIER_COUNT (index + 1))))) h
      else (Inr (), h))"

definition merkle_full :: string where
  "merkle_full = ''Merkle tree full: 2^'' @ show_nat DEPTH @ '' leaves''"

definition dur_ensure_note_capacity :: "host \<Rightarrow> nat \<Rightarrow> unit res" where
  "dur_ensure_note_capacity h additional =
     attempt (read_count h PATH_TREE_SIZE) (\<lambda>count.
     attempt (guard (additional < 2 ^ 64) ''note capacity does not fit in u64'') (\<lambda>_.
     attempt (ok_or (checked_add count (word_of_nat additional)) ''Merkle tree size overflow'') (\<lambda>next.
     guard (\<not> push_bit DEPTH 1 < next) merkle_full)))"

fun dur_frontier_loop :: "'x host_env_scheme \<Rightarrow> nat list \<Rightarrow> felt \<Rightarrow> nat \<Rightarrow> (host, felt) action" where
  "dur_frontier_loop E [] current index = ret_act current"
| "dur_frontier_loop E (level # levels) current index =
     (if index mod 2 = 0 then
        bind_act (write_act (write_felt E (branch_path level) current)) (\<lambda>_.
        dur_frontier_loop E levels (hash_merkle E current (zero_hash_list E DEPTH ! level)) (index div 2))
      else
        bind_act (read_act (\<lambda>h. attempt (read_felt h (branch_path level))
                    (\<lambda>v. ok_or v (''missing Merkle frontier at level '' @ show_nat level)))) (\<lambda>left.
        dur_frontier_loop E levels (hash_merkle E left current) (index div 2)))"

definition dur_append_note :: "'x host_env_scheme \<Rightarrow> felt \<Rightarrow> encrypted_note \<Rightarrow> (host, nat) action" where
  "dur_append_note E cm enc =
     bind_act (read_act (\<lambda>h. read_count h PATH_TREE_SIZE)) (\<lambda>count.
     bind_act (read_act (\<lambda>_. guard (count < push_bit DEPTH 1) merkle_full)) (\<lambda>_.
     bind_act (read_act (\<lambda>_. encode_published_note E cm enc)) (\<lambda>encoded.
     bind_act (write_act (write_note_payload E count encoded)) (\<lambda>_.
     bind_act (dur_frontier_loop E [0..<DEPTH] cm (unat count)) (\<lambda>current.
     bind_act (write_act (write_felt E PATH_TREE_ROOT current)) (\<lambda>_.
     bind_act (write_act (dl_write_u64 E PATH_TREE_SIZE (count + 1))) (\<lambda>_.
     bind_act (read_act (\<lambda>_. guard (unat count < 2 ^ usize_bits E) ''note index does not fit in usize'')) (\<lambda>_.
     ret_act (unat count)))))))))"

definition dur_snapshot_root :: "'x host_env_scheme \<Rightarrow> (host, unit) action" where
  "dur_snapshot_root E =
     bind_act (read_act (\<lambda>h. attempt (read_felt h PATH_TREE_ROOT) (\<lambda>v. ok_or v ''missing tree root''))) (\<lambda>root.
     bind_act (read_act (\<lambda>h. Inr (has_marker h (root_marker_path E root)))) (\<lambda>known.
     if known then ret_act ()
     else
       bind_act (read_act (\<lambda>h. read_count h PATH_VALID_ROOT_COUNT)) (\<lambda>index.
       bind_act (write_act (write_marker E (root_marker_path E root))) (\<lambda>_.
       bind_act (write_act (write_key_at_index E PATH_VALID_ROOT_INDEX_PREFIX index root)) (\<lambda>_.
       write_act (dl_write_u64 E PATH_VALID_ROOT_COUNT (index + 1)))))))"

definition dur_enqueue_withdrawal :: "'x host_env_scheme \<Rightarrow> string \<Rightarrow> u64 \<Rightarrow> (host, nat) action" where
  "dur_enqueue_withdrawal E recipient amount =
     bind_act (read_act (\<lambda>h. read_count h PATH_WITHDRAWAL_COUNT)) (\<lambda>index.
     bind_act (write_act (write_withdrawal_at_index E index
                 \<lparr>wr_recipient = recipient, wr_amount = amount\<rparr>)) (\<lambda>_.
     bind_act (write_act (dl_write_u64 E PATH_WITHDRAWAL_COUNT (index + 1))) (\<lambda>_.
     bind_act (read_act (\<lambda>_. guard (unat index < 2 ^ usize_bits E) ''withdrawal index does not fit in usize'')) (\<lambda>_.
     ret_act (unat index)))))"

definition dur_note_private_tx_applied :: "'x host_env_scheme \<Rightarrow> host \<Rightarrow> host" where
  "dur_note_private_tx_applied E h =
     (case read_i32 h PATH_LAST_INPUT_LEVEL of
        None \<Rightarrow> h
      | Some current_level \<Rightarrow>
          let next = (case current_private_tx_count_in_level h of Inl _ \<Rightarrow> 0 | Inr n \<Rightarrow> n) + 1
          in write_store E PATH_PRIVATE_TX_COUNT_IN_LEVEL (to_le 8 next)
               (write_store E PATH_PRIVATE_TX_FEE_LEVEL (to_le 4 current_level) h))"

definition dur_deposit_balance :: "'x ext_scheme \<Rightarrow> host \<Rightarrow> felt \<Rightarrow> u64 option res" where
  "dur_deposit_balance X h pubkey_hash =
     (let path = deposit_balance_path X pubkey_hash in
      case read_store h path 8 of
        None \<Rightarrow> Inr None
      | Some b \<Rightarrow>
          if b = [] then Inr None
          else attempt (guard (length b = 8) (''bad u64 at '' @ path)) (\<lambda>_. Inr (Some (from_le b))))"

definition dur_credit_deposit :: "'x host_env_scheme \<Rightarrow> felt \<Rightarrow> u64 \<Rightarrow> (host, unit) action" where
  "dur_credit_deposit E pubkey_hash amount =
     (let path = deposit_balance_path E pubkey_hash in
      bind_act (read_act (\<lambda>h. case read_store h path 8 of
          None \<Rightarrow> Inr 0
        | Some b \<Rightarrow>
            if b = [] then Inr 0
            else attempt (guard (length b = 8) (''bad u64 at '' @ path)) (\<lambda>_. Inr (from_le b :: u64)))) (\<lambda>current.
      bind_act (read_act (\<lambda>_. ok_or (checked_add current amount) ''deposit balance overflow'')) (\<lambda>next.
      write_act (write_store E path (to_le 8 next)))))"

definition pool_missing :: "'x ext_scheme \<Rightarrow> felt \<Rightarrow> string" where
  "pool_missing X pubkey_hash = ''deposit pool '' @ hex_encode X pubkey_hash @ '' does not exist''"

definition dur_debit_deposit :: "'x host_env_scheme \<Rightarrow> felt \<Rightarrow> u64 \<Rightarrow> (host, unit) action" where
  "dur_debit_deposit E pubkey_hash amount =
     (let path = deposit_balance_path E pubkey_hash in
      bind_act (read_act (\<lambda>h. ok_or (read_store h path 8) (pool_missing E pubkey_hash))) (\<lambda>raw.
      bind_act (read_act (\<lambda>_. guard (raw \<noteq> []) (pool_missing E pubkey_hash))) (\<lambda>_.
      bind_act (read_act (\<lambda>_. guard (length raw = 8) (''bad u64 at '' @ path))) (\<lambda>_.
      let current = from_le raw :: u64 in
      bind_act (read_act (\<lambda>_. guard (\<not> current < amount)
        (''deposit pool '' @ hex_encode E pubkey_hash @ '' balance '' @ show_word current
         @ '' too small to debit '' @ show_word amount))) (\<lambda>_.
      let next = current - amount in
      if next = 0 then write_act (write_store E path [])
      else write_act (write_store E path (to_le 8 next)))))))"

definition dur_ops :: "'x host_env_scheme \<Rightarrow> host ledger_ops" where
  "dur_ops E = \<lparr>
     op_auth_domain = dur_auth_domain,
     op_required_tx_fee = dur_required_tx_fee,
     op_has_valid_root = (\<lambda>h root. Inr (has_marker h (root_marker_path E root))),
     op_has_nullifier = (\<lambda>h nf. Inr (has_marker h (nullifier_path E nf))),
     op_insert_nullifier = dur_insert_nullifier E,
     op_ensure_note_capacity = dur_ensure_note_capacity,
     op_append_note = dur_append_note E,
     op_snapshot_root = dur_snapshot_root E,
     op_enqueue_withdrawal = dur_enqueue_withdrawal E,
     op_note_private_tx_applied = dur_note_private_tx_applied E,
     op_deposit_balance = dur_deposit_balance E,
     op_credit_deposit = dur_credit_deposit E,
     op_debit_deposit = dur_debit_deposit E,
     op_has_applied_shield = (\<lambda>h client_cm. Inr (has_marker h (applied_shield_path E client_cm))),
     op_mark_applied_shield = (\<lambda>client_cm. write_act (write_marker E (applied_shield_path E client_cm)))\<rparr>"

section \<open>Initialisation\<close>

definition write_unless_present :: "string \<Rightarrow> nat \<Rightarrow> (host \<Rightarrow> host) \<Rightarrow> (host, unit) action" where
  "write_unless_present path n f h = (if read_store h path n = None then (Inr (), f h) else (Inr (), h))"

definition ensure_initialized :: "'x host_env_scheme \<Rightarrow> (host, unit) action" where
  "ensure_initialized E =
     bind_act (write_unless_present PATH_AUTH_DOMAIN 32 (write_felt E PATH_AUTH_DOMAIN (default_auth_domain E))) (\<lambda>_.
     bind_act (write_unless_present PATH_TREE_SIZE 8 (dl_write_u64 E PATH_TREE_SIZE 0)) (\<lambda>_.
     bind_act (write_unless_present PATH_TREE_ROOT 32 (write_felt E PATH_TREE_ROOT (zero_hash_list E DEPTH ! DEPTH))) (\<lambda>_.
     bind_act (write_unless_present PATH_NULLIFIER_COUNT 8 (dl_write_u64 E PATH_NULLIFIER_COUNT 0)) (\<lambda>_.
     bind_act (write_unless_present PATH_WITHDRAWAL_COUNT 8 (dl_write_u64 E PATH_WITHDRAWAL_COUNT 0)) (\<lambda>_.
     bind_act (read_act (\<lambda>h. Inr (read_store h PATH_VALID_ROOT_COUNT 8 = None))) (\<lambda>absent.
     if \<not> absent then ret_act ()
     else
       bind_act (read_act (\<lambda>h. attempt (read_felt h PATH_TREE_ROOT)
                   (\<lambda>v. Inr (case v of None \<Rightarrow> zero_hash_list E DEPTH ! DEPTH | Some r \<Rightarrow> r)))) (\<lambda>root.
       bind_act (write_act (write_marker E (root_marker_path E root))) (\<lambda>_.
       bind_act (write_act (write_key_at_index E PATH_VALID_ROOT_INDEX_PREFIX 0 root)) (\<lambda>_.
       write_act (dl_write_u64 E PATH_VALID_ROOT_COUNT 1))))))))))"


section \<open>What a store represents\<close>

text \<open>
  The representation is stated on the contents \<open>m\<close> of the keys. A counter is eight bytes; the
  notes are the published notes in the chunks of the indices below the size of the tree; a set is
  the field elements with a marker; a drained pool is an empty string.
\<close>

definition is_count :: "(dkey \<Rightarrow> bytes option) \<Rightarrow> dkey \<Rightarrow> bool" where
  "is_count m k \<longleftrightarrow> (\<exists>b. m k = Some b \<and> length b = 8)"

definition count_word :: "(dkey \<Rightarrow> bytes option) \<Rightarrow> dkey \<Rightarrow> u64" where
  "count_word m k = from_le (the (m k))"

definition note_chunks :: nat where "note_chunks = 4"

definition rep_bytes :: "(dkey \<Rightarrow> bytes option) \<Rightarrow> nat \<Rightarrow> bytes" where
  "rep_bytes m i = concat (map (\<lambda>c. the (m (KNoteChunk (word_of_nat i) c))) [0..<note_chunks])"

definition rep_notes :: "'x ext_scheme \<Rightarrow> (dkey \<Rightarrow> bytes option) \<Rightarrow> (felt \<times> encrypted_note) list" where
  "rep_notes X m = map (\<lambda>i. projr (decode_published_note X (rep_bytes m i))) [0..<unat (count_word m KTreeSize)]"

definition rep_branches :: "(dkey \<Rightarrow> bytes option) \<Rightarrow> felt option list" where
  "rep_branches m = map (\<lambda>l. m (KBranch l)) [0..<DEPTH]"

definition branches_typed :: "felt option list \<Rightarrow> bool" where
  "branches_typed bs \<longleftrightarrow> length bs = DEPTH \<and> (\<forall>l < DEPTH. \<forall>f. bs ! l = Some f \<longrightarrow> is_felt f)"

definition rep_level :: "(dkey \<Rightarrow> bytes option) \<Rightarrow> dkey \<Rightarrow> i32 option" where
  "rep_level m k = (case m k of None \<Rightarrow> None
     | Some b \<Rightarrow> if length (take 4 b) \<noteq> 4 then None else Some (from_le (take 4 b)))"

definition rep_private_txs :: "(dkey \<Rightarrow> bytes option) \<Rightarrow> u64" where
  "rep_private_txs m =
     (if rep_level m KLastInputLevel \<noteq> None \<and> rep_level m KPrivateTxFeeLevel = rep_level m KLastInputLevel
         \<and> m KPrivateTxCount \<noteq> None
      then count_word m KPrivateTxCount else 0)"

definition rep_withdrawal :: "bytes \<Rightarrow> withdrawal_record" where
  "rep_withdrawal b = \<lparr>wr_recipient = bytes_str (drop 12 b), wr_amount = from_le (slice 0 8 b)\<rparr>"

definition rep_balance :: "(dkey \<Rightarrow> bytes option) \<Rightarrow> felt \<Rightarrow> nat" where
  "rep_balance m k =
     (if \<not> is_felt k \<or> m (KBalance k) = None \<or> m (KBalance k) = Some [] then 0
      else unat (count_word m (KBalance k)))"

definition note_ok :: "'x ext_scheme \<Rightarrow> (dkey \<Rightarrow> bytes option) \<Rightarrow> nat \<Rightarrow> bool" where
  "note_ok X m i \<longleftrightarrow>
     m (KNote (word_of_nat i)) = None
     \<and> m (KNoteLen (word_of_nat i)) = Some (to_le 8 (word_of_nat (length (rep_bytes m i)) :: u64))
     \<and> (\<forall>c < note_chunks. m (KNoteChunk (word_of_nat i) c)
          = Some (take MAX_NOTE_CHUNK_BYTES (drop (c * MAX_NOTE_CHUNK_BYTES) (rep_bytes m i))))
     \<and> (\<exists>cm enc. is_felt cm \<and> encode_published_note X cm enc = Inr (rep_bytes m i))"

definition rep_ok :: "'x ext_scheme \<Rightarrow> (dkey \<Rightarrow> bytes option) \<Rightarrow> bool" where
  "rep_ok X m \<longleftrightarrow>
     (\<exists>d. m KAuthDomain = Some d \<and> is_felt d)
     \<and> is_count m KTreeSize \<and> is_count m KNullifierCount \<and> is_count m KValidRootCount \<and> is_count m KWithdrawalCount
     \<and> unat (count_word m KTreeSize) \<le> 2 ^ DEPTH
     \<and> (\<forall>i. m (KNote i) = None) \<and> (\<forall>i < unat (count_word m KTreeSize). note_ok X m i)
     \<and> branches_typed (rep_branches m) \<and> frontier_ok X (map fst (rep_notes X m)) (rep_branches m)
     \<and> m KTreeRoot = Some (tree_root X (map fst (rep_notes X m)))
     \<and> (\<forall>k. m (KBalance k) = None \<or> m (KBalance k) = Some [] \<or> is_count m (KBalance k))
     \<and> (m KPrivateTxCount = None \<or> is_count m KPrivateTxCount)"

definition rep_abs :: "'x ext_scheme \<Rightarrow> (dkey \<Rightarrow> bytes option) \<Rightarrow> abs_ledger" where
  "rep_abs X m = \<lparr>
     al_domain = the (m KAuthDomain),
     al_fee = required_tx_fee_for_private_tx_count (rep_private_txs m),
     al_notes = rep_notes X m,
     al_nullifiers = {nf. is_felt nf \<and> m (KNullifier nf) \<noteq> None},
     al_roots = {r. is_felt r \<and> m (KRoot r) \<noteq> None},
     al_withdrawals = map (\<lambda>i. rep_withdrawal (the (m (KWithdrawalAt (word_of_nat i)))))
                        [0..<unat (count_word m KWithdrawalCount)],
     al_balance = rep_balance m,
     al_shields = {c. is_felt c \<and> m (KShield c) \<noteq> None}\<rparr>"

definition durable_laws :: "'x host_env_scheme \<Rightarrow> bool" where
  "durable_laws E \<longleftrightarrow> blake_laws E \<and> hex_laws E \<and> tze_laws E \<and> overwriting E"

definition dur_inv :: "'x host_env_scheme \<Rightarrow> host \<Rightarrow> bool" where
  "dur_inv E h \<longleftrightarrow> durable_laws E \<and> rep_ok E (at_key E h)"

definition dur_abs :: "'x host_env_scheme \<Rightarrow> host \<Rightarrow> abs_ledger" where
  "dur_abs E h = rep_abs E (at_key E h)"

definition dur_index_fits :: "'x ext_scheme \<Rightarrow> nat \<Rightarrow> bool" where
  "dur_index_fits X n \<longleftrightarrow> n < 2 ^ usize_bits X \<and> n + 1 < 2 ^ 64"

section \<open>Reads and writes by keys\<close>

lemma at_key_writes:
  assumes "durable_laws E"
  shows "at_key E (write_store E (path_of E k) v h) = (at_key E h)(k \<mapsto> v)"
  using assms by (simp add: durable_laws_def at_key_write)

lemma has_marker_key: "has_marker h (path_of X k) \<longleftrightarrow> at_key X h k \<noteq> None"
  by (simp add: has_marker_def read_store_key)

lemma dl_read_u64_key:
  assumes "at_key X h k = None \<or> is_count (at_key X h) k"
  shows "dl_read_u64 h (path_of X k) = Inr (if at_key X h k = None then None else Some (count_word (at_key X h) k))"
  using assms by (auto simp: dl_read_u64_def read_store_key is_count_def count_word_def)

lemma read_count_key:
  "is_count (at_key X h) k \<Longrightarrow> read_count h (path_of X k) = Inr (count_word (at_key X h) k)"
  by (auto simp: read_count_def dl_read_u64_key) (simp add: is_count_def)

lemma read_i32_key: "read_i32 h (path_of X k) = rep_level (at_key X h) k"
  by (simp add: read_i32_def read_store_key rep_level_def split: option.split)

lemma read_felt_key:
  "at_key X h k = Some f \<Longrightarrow> is_felt f \<Longrightarrow> read_felt h (path_of X k) = Inr (Some f)"
  by (simp add: read_felt_def read_store_key is_felt_def)

lemma count_upd [simp]:
  "is_count (m(k \<mapsto> b)) k \<longleftrightarrow> length b = 8" "k' \<noteq> k \<Longrightarrow> is_count (m(k := x)) k' = is_count m k'"
  "count_word (m(k \<mapsto> b)) k = from_le b" "k' \<noteq> k \<Longrightarrow> count_word (m(k := x)) k' = count_word m k'"
  by (simp_all add: is_count_def count_word_def)


lemma word_of_nat_ne: "j < unat i \<Longrightarrow> word_of_nat j \<noteq> i" for i :: "'a::len word"
  by (metis mod_less_eq_dividend not_le unat_of_nat)

lemma to_le_8_ne [simp]: "to_le 8 w \<noteq> []"
  by (metis length_to_le list.size(3) zero_neq_numeral)

lemma rep_bytes_frame [simp]: "\<forall>i c. k \<noteq> KNoteChunk i c \<Longrightarrow> rep_bytes (m(k := x)) = rep_bytes m"
  by (metis (no_types, lifting) fun_upd_other rep_bytes_def ext)

lemma rep_frame [simp]:
  "\<forall>i c. k \<noteq> KNoteChunk i c \<Longrightarrow> k \<noteq> KTreeSize \<Longrightarrow> rep_notes X (m(k := x)) = rep_notes X m"
  "\<forall>l. k \<noteq> KBranch l \<Longrightarrow> rep_branches (m(k := x)) = rep_branches m"
  "k' \<noteq> k \<Longrightarrow> rep_level (m(k := x)) k' = rep_level m k'"
  "k \<noteq> KLastInputLevel \<Longrightarrow> k \<noteq> KPrivateTxFeeLevel \<Longrightarrow> k \<noteq> KPrivateTxCount \<Longrightarrow>
     rep_private_txs (m(k := x)) = rep_private_txs m"
  by (auto simp: rep_notes_def rep_branches_def rep_level_def rep_private_txs_def)

lemma rep_balance_frame [simp]: "\<forall>f. k \<noteq> KBalance f \<Longrightarrow> rep_balance (m(k := x)) = rep_balance m"
  by (auto simp: rep_balance_def fun_eq_iff count_word_def)

lemma note_ok_frame [simp]:
  assumes "\<forall>i c. k \<noteq> KNoteChunk i c" "\<forall>i. k \<noteq> KNote i" "\<forall>i. k \<noteq> KNoteLen i"
  shows "note_ok X (m(k := x)) j = note_ok X m j"
proof -
  have "(m(k := x)) (KNoteChunk i c) = m (KNoteChunk i c)" "(m(k := x)) (KNote i) = m (KNote i)"
    "(m(k := x)) (KNoteLen i) = m (KNoteLen i)" for i c
    using assms by (metis fun_upd_other)+
  then show ?thesis using assms(1) unfolding note_ok_def by simp
qed

text \<open>What the writing operations do to the keys.\<close>

lemma dur_insert_nullifier_keys:
  assumes "dur_inv E h" "at_key E h (KNullifier nf) = None"
  defines "i \<equiv> count_word (at_key E h) KNullifierCount"
  shows "\<exists>h'. dur_insert_nullifier E nf h = (Inr (), h')
     \<and> at_key E h' = (at_key E h)(KNullifier nf \<mapsto> [1], KNullifierAt i \<mapsto> nf, KNullifierCount \<mapsto> to_le 8 (i + 1))"
proof -
  note fold = path_of.simps [where X = E, symmetric]
  have laws: "durable_laws E" and cnt: "is_count (at_key E h) KNullifierCount"
    using assms(1) by (simp_all add: dur_inv_def rep_ok_def)
  show ?thesis
    using assms(2) cnt
    by (simp add: dur_insert_nullifier_def has_marker_key read_count_key write_marker_def write_key_at_index_def
        dl_write_u64_def fold Let_def bind_act_def at_key_writes [OF laws] i_def)
qed

lemma dur_insert_nullifier_law:
  assumes "dur_inv E h" "is_felt nf"
  shows "\<exists>h'. dur_insert_nullifier E nf h = (Inr (), h') \<and> dur_inv E h'
           \<and> dur_abs E h' = (dur_abs E h)\<lparr>al_nullifiers := insert nf (al_nullifiers (dur_abs E h))\<rparr>"
proof -
  note fold = path_of.simps [where X = E, symmetric]
  let ?m = "at_key E h"
  have laws: "durable_laws E" and ok: "rep_ok E ?m" using assms by (simp_all add: dur_inv_def)
  show ?thesis
  proof (cases "?m (KNullifier nf)")
    case (Some b)
    then have "dur_insert_nullifier E nf h = (Inr (), h)"
      by (simp add: dur_insert_nullifier_def has_marker_key fold Let_def)
    moreover have "dur_abs E h = (dur_abs E h)\<lparr>al_nullifiers := insert nf (al_nullifiers (dur_abs E h))\<rparr>"
      using Some assms(2) by (simp add: dur_abs_def rep_abs_def insert_absorb)
    ultimately show ?thesis using assms(1) by metis
  next
    case None
    define i where "i = count_word ?m KNullifierCount"
    obtain h' where "dur_insert_nullifier E nf h = (Inr (), h')
        \<and> at_key E h' = ?m(KNullifier nf \<mapsto> [1], KNullifierAt i \<mapsto> nf, KNullifierCount \<mapsto> to_le 8 (i + 1))"
      using dur_insert_nullifier_keys [OF assms(1) None] unfolding i_def by blast
    moreover from this have "rep_ok E (at_key E h')" using ok by (simp add: rep_ok_def)
    moreover have "rep_abs E (?m(KNullifier nf \<mapsto> [1], KNullifierAt i \<mapsto> nf, KNullifierCount \<mapsto> to_le 8 (i + 1)))
        = (rep_abs E ?m)\<lparr>al_nullifiers := insert nf (al_nullifiers (rep_abs E ?m))\<rparr>"
      using assms(2) by (auto simp: rep_abs_def)
    ultimately show ?thesis using laws by (auto simp: dur_inv_def dur_abs_def)
  qed
qed

definition mark_root_keys :: "felt \<Rightarrow> (dkey \<Rightarrow> bytes option) \<Rightarrow> dkey \<Rightarrow> bytes option" where
  "mark_root_keys r m =
     (let i = count_word m KValidRootCount
      in if m (KRoot r) \<noteq> None then m
         else m(KRoot r \<mapsto> [1], KRootAt i \<mapsto> r, KValidRootCount \<mapsto> to_le 8 (i + 1)))"

lemma dur_snapshot_keys:
  assumes "dur_inv E h"
  defines "r \<equiv> tree_root E (map fst (rep_notes E (at_key E h)))"
  shows "\<exists>h'. dur_snapshot_root E h = (Inr (), h') \<and> at_key E h' = mark_root_keys r (at_key E h)"
proof -
  note fold = path_of.simps [where X = E, symmetric]
  have laws: "durable_laws E" and ok: "rep_ok E (at_key E h)" using assms by (simp_all add: dur_inv_def)
  have r: "is_felt r" "at_key E h KTreeRoot = Some r" and cnt: "is_count (at_key E h) KValidRootCount"
    using laws ok by (simp_all add: r_def tree_root_felt durable_laws_def rep_ok_def)
  then show ?thesis
    by (simp add: dur_snapshot_root_def read_felt_key has_marker_key read_count_key write_marker_def mark_root_keys_def
        write_key_at_index_def dl_write_u64_def fold bind_act_def at_key_writes [OF laws] Let_def)
qed

lemma dur_snapshot_law:
  assumes "dur_inv E h"
  shows "\<exists>h' roots. dur_snapshot_root E h = (Inr (), h') \<and> dur_inv E h'
           \<and> dur_abs E h' = (dur_abs E h)\<lparr>al_roots := roots\<rparr>
           \<and> roots_step E (al_notes (dur_abs E h)) (al_roots (dur_abs E h)) roots"
proof -
  note fold = path_of.simps [where X = E, symmetric]
  let ?m = "at_key E h"
  have laws: "durable_laws E" and ok: "rep_ok E ?m" using assms by (simp_all add: dur_inv_def)
  define r where "r = tree_root E (map fst (rep_notes E ?m))"
  have r: "is_felt r" "?m KTreeRoot = Some r"
    using laws ok by (simp_all add: r_def tree_root_felt durable_laws_def rep_ok_def)
  obtain h' where run: "dur_snapshot_root E h = (Inr (), h') \<and> at_key E h' = mark_root_keys r ?m"
    using dur_snapshot_keys [OF assms] unfolding r_def by blast
  moreover from this have "rep_ok E (at_key E h')" using ok by (simp add: rep_ok_def mark_root_keys_def Let_def)
  moreover have "rep_abs E (at_key E h') = (rep_abs E ?m)\<lparr>al_roots := insert r (al_roots (rep_abs E ?m))\<rparr>"
    using run r by (auto simp: rep_abs_def mark_root_keys_def Let_def)
  moreover have "roots_step E (al_notes (rep_abs E ?m)) (al_roots (rep_abs E ?m)) (insert r (al_roots (rep_abs E ?m)))"
    by (simp add: roots_step_def r_def rep_abs_def)
  ultimately show ?thesis using laws by (auto simp: dur_inv_def dur_abs_def)
qed

lemma dur_enqueue_keys:
  assumes "dur_inv E h"
  defines "i \<equiv> count_word (at_key E h) KWithdrawalCount"
  assumes "dur_index_fits E (unat i)"
  shows "\<exists>h'. dur_enqueue_withdrawal E rcp amt h = (Inr (unat i), h')
     \<and> at_key E h' = (at_key E h)(KWithdrawalAt i \<mapsto> encode_withdrawal_record \<lparr>wr_recipient = rcp, wr_amount = amt\<rparr>,
                                  KWithdrawalCount \<mapsto> to_le 8 (i + 1))"
proof -
  note fold = path_of.simps [where X = E, symmetric]
  have laws: "durable_laws E" and ok: "rep_ok E (at_key E h)" using assms(1) by (simp_all add: dur_inv_def)
  then show ?thesis
    using assms(3)
    by (simp add: dur_enqueue_withdrawal_def read_count_key rep_ok_def write_withdrawal_at_index_def dur_index_fits_def
        dl_write_u64_def fold bind_act_def at_key_writes [OF laws] i_def [symmetric])
qed

lemma dur_enqueue_law:
  assumes "dur_inv E h" "dur_index_fits E (length (al_withdrawals (dur_abs E h)))"
  shows "\<exists>h'. dur_enqueue_withdrawal E rcp amt h = (Inr (length (al_withdrawals (dur_abs E h))), h') \<and> dur_inv E h'
           \<and> dur_abs E h' = (dur_abs E h)\<lparr>al_withdrawals := al_withdrawals (dur_abs E h) @ [\<lparr>wr_recipient = rcp, wr_amount = amt\<rparr>]\<rparr>"
proof -
  note fold = path_of.simps [where X = E, symmetric]
  let ?m = "at_key E h" and ?r = "\<lparr>wr_recipient = rcp, wr_amount = amt\<rparr>"
  have laws: "durable_laws E" and ok: "rep_ok E ?m" using assms by (simp_all add: dur_inv_def)
  define i where "i = count_word ?m KWithdrawalCount"
  have len: "length (al_withdrawals (dur_abs E h)) = unat i" by (simp add: dur_abs_def rep_abs_def i_def)
  have suc: "unat (i + 1) = Suc (unat i)"
    using assms(2) unat_add_no_wrap [of i 1] by (simp add: len dur_index_fits_def)
  have rec: "rep_withdrawal (encode_withdrawal_record ?r) = ?r"
    by (simp add: rep_withdrawal_def encode_withdrawal_record_def Let_def)
  obtain h' where run: "dur_enqueue_withdrawal E rcp amt h = (Inr (unat i), h')
      \<and> at_key E h' = ?m(KWithdrawalAt i \<mapsto> encode_withdrawal_record ?r, KWithdrawalCount \<mapsto> to_le 8 (i + 1))"
    using dur_enqueue_keys [OF assms(1), of rcp amt] assms(2) len unfolding i_def by auto
  moreover from this have "rep_ok E (at_key E h')" using ok by (simp add: rep_ok_def)
  moreover have "rep_abs E (at_key E h') = (rep_abs E ?m)\<lparr>al_withdrawals := al_withdrawals (rep_abs E ?m) @ [?r]\<rparr>"
    using run by (simp add: rep_abs_def suc rec word_of_nat_ne i_def [symmetric])
  ultimately show ?thesis using laws len by (auto simp: dur_inv_def dur_abs_def)
qed


lemma dur_tx_applied_law:
  assumes "dur_inv E h"
  shows "dur_inv E (dur_note_private_tx_applied E h)
     \<and> (\<exists>fee. dur_abs E (dur_note_private_tx_applied E h) = (dur_abs E h)\<lparr>al_fee := fee\<rparr>)"
proof -
  note fold = path_of.simps [where X = E, symmetric]
  let ?m = "at_key E h"
  have laws: "durable_laws E" and ok: "rep_ok E ?m" using assms by (simp_all add: dur_inv_def)
  show ?thesis
  proof (cases "rep_level ?m KLastInputLevel")
    case None
    then have "dur_note_private_tx_applied E h = h"
      by (simp add: dur_note_private_tx_applied_def read_i32_key fold)
    moreover have "dur_abs E h = (dur_abs E h)\<lparr>al_fee := al_fee (dur_abs E h)\<rparr>" by simp
    ultimately show ?thesis using assms by metis
  next
    case (Some l)
    define n where "n = (case current_private_tx_count_in_level h of Inl _ \<Rightarrow> 0 | Inr n \<Rightarrow> n) + 1"
    have at: "at_key E (dur_note_private_tx_applied E h)
        = ?m(KPrivateTxFeeLevel \<mapsto> to_le 4 l, KPrivateTxCount \<mapsto> to_le 8 n)"
      using Some by (simp add: dur_note_private_tx_applied_def read_i32_key fold at_key_writes [OF laws] n_def)
    then have "rep_ok E (at_key E (dur_note_private_tx_applied E h))" using ok by (simp add: rep_ok_def)
    moreover have "rep_abs E (at_key E (dur_note_private_tx_applied E h)) = (rep_abs E ?m)\<lparr>al_fee :=
        required_tx_fee_for_private_tx_count (rep_private_txs (at_key E (dur_note_private_tx_applied E h)))\<rparr>"
      using at by (simp add: rep_abs_def)
    ultimately show ?thesis using laws by (auto simp: dur_inv_def dur_abs_def)
  qed
qed

lemma dur_fee_law:
  assumes "dur_inv E h"
  shows "dur_required_tx_fee h = Inr (al_fee (dur_abs E h))"
proof -
  note fold = path_of.simps [where X = E, symmetric]
  have "at_key E h KPrivateTxCount = None \<or> is_count (at_key E h) KPrivateTxCount"
    using assms by (simp add: dur_inv_def rep_ok_def)
  then have "current_private_tx_count_in_level h = Inr (rep_private_txs (at_key E h))"
    by (auto simp: current_private_tx_count_in_level_def fold read_i32_key dl_read_u64_key rep_private_txs_def
        split: option.split)
  then show ?thesis by (simp add: dur_required_tx_fee_def dur_abs_def rep_abs_def)
qed

text \<open>Pools: absent, drained, or a balance of eight bytes.\<close>

lemma pool_cases:
  assumes "dur_inv E h"
  obtains "at_key E h (KBalance k) = None" | "at_key E h (KBalance k) = Some []"
    | b where "at_key E h (KBalance k) = Some (to_le 8 (b :: u64))"
proof -
  have "at_key E h (KBalance k) = None \<or> at_key E h (KBalance k) = Some [] \<or> is_count (at_key E h) (KBalance k)"
    using assms by (simp add: dur_inv_def rep_ok_def)
  moreover have "is_count (at_key E h) (KBalance k) \<Longrightarrow> \<exists>b. at_key E h (KBalance k) = Some (to_le 8 (b :: u64))"
    by (force simp: is_count_def intro: to_le_from_le_n [symmetric])
  ultimately show ?thesis using that by blast
qed

lemma put_balance:
  assumes "dur_inv E h" "is_felt k" "b = [] \<and> n = 0 \<or> (\<exists>w :: u64. b = to_le 8 w \<and> n = unat w)"
  shows "dur_inv E (write_store E (deposit_balance_path E k) b h)
     \<and> dur_abs E (write_store E (deposit_balance_path E k) b h) = (dur_abs E h)\<lparr>al_balance := (al_balance (dur_abs E h))(k := n)\<rparr>"
proof -
  note fold = path_of.simps [where X = E, symmetric]
  let ?m = "at_key E h" and ?h = "write_store E (deposit_balance_path E k) b h"
  have laws: "durable_laws E" and ok: "rep_ok E ?m" using assms by (simp_all add: dur_inv_def)
  have at: "at_key E ?h = ?m(KBalance k \<mapsto> b)" by (simp add: fold at_key_writes [OF laws])
  have len: "b = [] \<or> length b = 8" using assms(3) by auto
  then have "rep_ok E (at_key E ?h)"
    unfolding at using ok by (auto simp: rep_ok_def)
  moreover have "rep_balance (?m(KBalance k \<mapsto> b)) = (rep_balance ?m)(k := n)"
    using assms(2,3) by (auto simp: rep_balance_def fun_eq_iff count_word_def)
  then have "rep_abs E (at_key E ?h) = (rep_abs E ?m)\<lparr>al_balance := (al_balance (rep_abs E ?m))(k := n)\<rparr>"
    unfolding at by (simp add: rep_abs_def)
  ultimately show ?thesis using laws by (simp add: dur_inv_def dur_abs_def)
qed

lemma dur_balance_law:
  assumes "dur_inv E h" "is_felt k"
  shows "\<exists>b. dur_deposit_balance E h k = Inr b
          \<and> al_balance (dur_abs E h) k = (case b of None \<Rightarrow> 0 | Some w \<Rightarrow> unat w)"
proof -
  note fold = path_of.simps [where X = E, symmetric]
  show ?thesis
    using assms(2)
    by (rule_tac pool_cases [OF assms(1), of k])
       (auto simp: dur_deposit_balance_def fold read_store_key Let_def dur_abs_def rep_abs_def rep_balance_def count_word_def)
qed

lemma dur_credit_law:
  assumes "dur_inv E h" "is_felt k"
  shows "dur_credit_deposit E k amt h =
    (if al_balance (dur_abs E h) k + unat amt < 2 ^ 64
     then (Inr (), write_store E (deposit_balance_path E k)
             (to_le 8 (word_of_nat (al_balance (dur_abs E h) k) + amt)) h)
     else (Inl (Err ''deposit balance overflow''), h))"
proof -
  note fold = path_of.simps [where X = E, symmetric]
  have small: "unat amt < 2 ^ 64" using unsigned_less [of amt] by simp
  show ?thesis
    using assms(2) small
    by (rule_tac pool_cases [OF assms(1), of k])
       (auto simp: dur_credit_deposit_def fold read_store_key Let_def dur_abs_def rep_abs_def rep_balance_def
         count_word_def bind_act_def checked_add_def)
qed

lemma dur_debit_law:
  assumes "dur_inv E h" "is_felt k" "dur_deposit_balance E h k = Inr (Some b)" "amt \<le> b"
  shows "\<exists>h'. dur_debit_deposit E k amt h = (Inr (), h') \<and> dur_inv E h'
     \<and> dur_abs E h' = (dur_abs E h)\<lparr>al_balance := (al_balance (dur_abs E h))(k := al_balance (dur_abs E h) k - unat amt)\<rparr>"
proof -
  note fold = path_of.simps [where X = E, symmetric]
  have raw: "at_key E h (KBalance k) = Some (to_le 8 b)"
    using assms(3)
    by (rule_tac pool_cases [OF assms(1), of k]) (auto simp: dur_deposit_balance_def fold read_store_key Let_def)
  then have bal: "al_balance (dur_abs E h) k = unat b"
    using assms(2) by (simp add: dur_abs_def rep_abs_def rep_balance_def count_word_def)
  let ?b = "if b - amt = 0 then [] else to_le 8 (b - amt)"
  have "dur_debit_deposit E k amt h = (Inr (), write_store E (deposit_balance_path E k) ?b h)"
    using assms(4) raw
    by (simp add: dur_debit_deposit_def fold read_store_key Let_def bind_act_def not_less)
  moreover have "unat (b - amt) = unat b - unat amt" using assms(4) by (rule unat_sub_le)
  then have "?b = [] \<and> unat b - unat amt = 0 \<or> (\<exists>w :: u64. ?b = to_le 8 w \<and> unat b - unat amt = unat w)"
    by (auto split: if_splits)
  note put_balance [OF assms(1,2) this]
  ultimately show ?thesis by (simp add: bal)
qed


section \<open>Appending a note\<close>

lemma chunks_Nil [simp]: "chunks n [] = []"
  by (simp add: chunks.simps)

lemma concat_chunks: "0 < n \<Longrightarrow> concat (chunks n xs) = xs"
  by (induction n xs rule: chunks.induct) (subst chunks.simps, simp)

lemma length_chunks: "0 < n \<Longrightarrow> length (chunks n xs) = div_ceil (length xs) n"
proof (induction n xs rule: chunks.induct)
  case (1 n xs)
  show ?case
  proof (cases "xs = []")
    case False
    have "div_ceil (length xs) n = Suc (div_ceil (length xs - n) n)"
    proof (cases "length xs \<le> n")
      case True
      then show ?thesis using False by (auto simp: div_ceil_def le_less)
    next
      case le: False
      then show ?thesis
        using 1(2) by (simp add: div_ceil_def le_div_geq le_mod_geq)
    qed
    then show ?thesis using 1 False by (subst chunks.simps) simp
  qed (simp add: div_ceil_def)
qed

lemma nth_chunks: "c < length (chunks n xs) \<Longrightarrow> chunks n xs ! c = take n (drop (c * n) xs)"
proof (induction n xs arbitrary: c rule: chunks.induct)
  case (1 n xs)
  then have ne: "xs \<noteq> [] \<and> n \<noteq> 0" by (auto simp: chunks.simps [of n xs] split: if_splits)
  then have split: "chunks n xs = take n xs # chunks n (drop n xs)" by (subst chunks.simps) simp
  show ?case
  proof (cases c)
    case (Suc c')
    then show ?thesis using 1(1) [of c'] 1(2) ne by (simp add: split add.commute)
  qed (simp add: split)
qed

text \<open>The keys after the payload of note \<open>i\<close> has been written in chunks.\<close>

definition put_chunks :: "u64 \<Rightarrow> nat \<Rightarrow> bytes list \<Rightarrow> (dkey \<Rightarrow> bytes option) \<Rightarrow> dkey \<Rightarrow> bytes option" where
  "put_chunks i s cs m k =
     (case k of KNoteChunk j c \<Rightarrow> if j = i \<and> s \<le> c \<and> c < s + length cs then Some (cs ! (c - s)) else m k
      | _ \<Rightarrow> m k)"

lemma put_chunks_step:
  "put_chunks i (Suc s) cs (m(KNoteChunk i s \<mapsto> c)) = put_chunks i s (c # cs) m"
  by (auto simp: put_chunks_def fun_eq_iff nth_Cons' split: dkey.split)

lemma write_chunks_keys:
  assumes "durable_laws E"
  shows "at_key E (fold (\<lambda>(c, ch). write_store E (note_chunk_path i c) ch) (enumerate s cs) h)
         = put_chunks i s cs (at_key E h)"
proof (induction cs arbitrary: s h)
  case Nil
  show ?case by (auto simp: put_chunks_def fun_eq_iff split: dkey.split)
next
  case (Cons c cs)
  then show ?case
    by (simp add: path_of.simps(21) [where X = E, symmetric] at_key_writes [OF assms] put_chunks_step del: fun_upd_apply)
qed

lemma write_note_payload_keys:
  assumes "durable_laws E" "MAX_NOTE_CHUNK_BYTES < length b"
  shows "at_key E (write_note_payload E i b h) = put_chunks i 0 (chunks MAX_NOTE_CHUNK_BYTES b)
           ((at_key E h)(KNoteLen i \<mapsto> to_le 8 (word_of_nat (length b) :: u64)))"
  using assms(2)
  by (simp add: write_note_payload_def write_chunks_keys [OF assms(1)] path_of.simps(20) [where X = E, symmetric]
      at_key_writes [OF assms(1)])

text \<open>The in-place frontier update of the store does what the update of the branch list does.\<close>

definition put_branches :: "felt option list \<Rightarrow> (dkey \<Rightarrow> bytes option) \<Rightarrow> dkey \<Rightarrow> bytes option" where
  "put_branches bs m k = (case k of KBranch l \<Rightarrow> if l < length bs then bs ! l else m k | _ \<Rightarrow> m k)"

lemma put_branches_self: "put_branches (rep_branches m) m = m"
  by (auto simp: put_branches_def rep_branches_def fun_eq_iff split: dkey.split)

lemma rep_branches_upd: "l < DEPTH \<Longrightarrow> rep_branches (m(KBranch l \<mapsto> f)) = (rep_branches m)[l := Some f]"
  by (auto simp: rep_branches_def list_eq_iff_nth_eq nth_list_update)

lemma put_branches_upd:
  "l < length bs \<Longrightarrow> put_branches bs (m(KBranch l \<mapsto> f)) = put_branches bs m"
  by (auto simp: put_branches_def fun_eq_iff split: dkey.split)

lemma dur_frontier_loop_keys:
  assumes "durable_laws E" "branches_typed (rep_branches (at_key E h))" "is_felt cur" "set levels \<subseteq> {0..<DEPTH}"
    and "frontier_loop E (zero_hash_list E DEPTH) levels (rep_branches (at_key E h)) cur idx = Inr (r, bs)"
  shows "\<exists>h'. dur_frontier_loop E levels cur idx h = (Inr r, h') \<and> at_key E h' = put_branches bs (at_key E h)
         \<and> branches_typed bs"
  using assms(2-)
proof (induction levels arbitrary: cur idx h)
  case Nil
  then show ?case using put_branches_self [of "at_key E h"] by auto
next
  case (Cons l levels)
  have hm: "is_felt (hash_merkle E a b)" for a b using assms(1) by (simp add: durable_laws_def is_felt_def)
  have l: "l < DEPTH" "set levels \<subseteq> {0..<DEPTH}" using Cons.prems by auto
  have fold: "branch_path l = path_of E (KBranch l)" by (simp add: path_of.simps)
  show ?case
  proof (cases "idx mod 2 = 0")
    case True
    let ?h = "write_felt E (branch_path l) cur h"
    have at: "at_key E ?h = (at_key E h)(KBranch l \<mapsto> cur)"
      by (simp add: write_felt_def fold at_key_writes [OF assms(1)])
    have "branches_typed (rep_branches (at_key E ?h))"
      using Cons.prems(1,2) l by (auto simp: at rep_branches_upd branches_typed_def nth_list_update)
    moreover have "frontier_loop E (zero_hash_list E DEPTH) levels (rep_branches (at_key E ?h))
        (hash_merkle E cur (zero_hash_list E DEPTH ! l)) (idx div 2) = Inr (r, bs)"
      using Cons.prems(4) True l by (simp add: at rep_branches_upd)
    ultimately obtain h' where h': "dur_frontier_loop E levels (hash_merkle E cur (zero_hash_list E DEPTH ! l)) (idx div 2) ?h
        = (Inr r, h')" "at_key E h' = put_branches bs (at_key E ?h)" "branches_typed bs"
      using Cons.IH [of ?h _ "idx div 2"] hm l(2) by blast
    then show ?thesis
      using True l(1) by (auto simp: bind_act_def at put_branches_upd branches_typed_def)
  next
    case False
    then obtain left where left: "at_key E h (KBranch l) = Some left"
      "frontier_loop E (zero_hash_list E DEPTH) levels (rep_branches (at_key E h)) (hash_merkle E left cur) (idx div 2)
       = Inr (r, bs)"
      using Cons.prems(4) l(1) by (auto simp: res_simps rep_branches_def)
    have "is_felt left" using Cons.prems(1) left(1) l(1) by (auto simp: branches_typed_def rep_branches_def)
    then have "read_felt h (branch_path l) = Inr (Some left)" using left(1) by (simp add: fold read_felt_key)
    then show ?thesis
      using False left(2) Cons.IH [OF Cons.prems(1) hm l(2)] by (simp add: bind_act_def)
  qed
qed


text \<open>The keys after note \<open>b\<close> has been appended, with the branches \<open>bs\<close> and the root it leads to.\<close>

definition append_keys ::
  "bytes \<Rightarrow> felt \<Rightarrow> felt option list \<Rightarrow> (dkey \<Rightarrow> bytes option) \<Rightarrow> dkey \<Rightarrow> bytes option" where
  "append_keys b root bs m =
     (let i = count_word m KTreeSize
      in (put_branches bs (put_chunks i 0 (chunks MAX_NOTE_CHUNK_BYTES b)
            (m(KNoteLen i \<mapsto> to_le 8 (word_of_nat (length b) :: u64)))))
           (KTreeRoot \<mapsto> root, KTreeSize \<mapsto> to_le 8 (i + 1)))"

lemma append_keys_at:
  "append_keys b root bs m KTreeRoot = Some root"
  "append_keys b root bs m KTreeSize = Some (to_le 8 (count_word m KTreeSize + 1))"
  "append_keys b root bs m (KBranch l) = (if l < length bs then bs ! l else m (KBranch l))"
  "append_keys b root bs m (KNote j) = m (KNote j)"
  "append_keys b root bs m (KNoteLen j) =
     (if j = count_word m KTreeSize then Some (to_le 8 (word_of_nat (length b) :: u64)) else m (KNoteLen j))"
  "append_keys b root bs m (KNoteChunk j c) =
     (if j = count_word m KTreeSize \<and> c < length (chunks MAX_NOTE_CHUNK_BYTES b)
      then Some (chunks MAX_NOTE_CHUNK_BYTES b ! c) else m (KNoteChunk j c))"
  by (auto simp: append_keys_def Let_def put_branches_def put_chunks_def)

lemma append_keys_other:
  "k \<noteq> KTreeRoot \<Longrightarrow> k \<noteq> KTreeSize \<Longrightarrow> \<forall>l. k \<noteq> KBranch l \<Longrightarrow> \<forall>i. k \<noteq> KNoteLen i \<Longrightarrow> \<forall>i c. k \<noteq> KNoteChunk i c \<Longrightarrow>
   append_keys b root bs m k = m k"
  by (auto simp: append_keys_def Let_def put_branches_def put_chunks_def split: dkey.split)

lemma append_keys_counts [simp]:
  assumes "k \<noteq> KTreeRoot" "k \<noteq> KTreeSize" "\<forall>l. k \<noteq> KBranch l" "\<forall>i. k \<noteq> KNoteLen i" "\<forall>i c. k \<noteq> KNoteChunk i c"
  shows "is_count (append_keys b root bs m) k = is_count m k"
    "count_word (append_keys b root bs m) k = count_word m k"
    "rep_level (append_keys b root bs m) k = rep_level m k"
  using append_keys_other [OF assms] by (simp_all add: is_count_def count_word_def rep_level_def)

lemma published_chunks:
  "length b = 3487 \<Longrightarrow> length (chunks MAX_NOTE_CHUNK_BYTES b) = note_chunks"
  by (simp add: length_chunks MAX_NOTE_CHUNK_BYTES_def div_ceil_def note_chunks_def)

lemma append_keys_bytes:
  assumes "length b = 3487"
  shows "j < unat (count_word m KTreeSize) \<Longrightarrow> rep_bytes (append_keys b root bs m) j = rep_bytes m j"
    and "rep_bytes (append_keys b root bs m) (unat (count_word m KTreeSize)) = b"
proof -
  show "rep_bytes (append_keys b root bs m) j = rep_bytes m j" if "j < unat (count_word m KTreeSize)"
    using word_of_nat_ne [OF that] by (simp add: rep_bytes_def append_keys_at)
  have "rep_bytes (append_keys b root bs m) (unat (count_word m KTreeSize))
      = concat (map ((!) (chunks MAX_NOTE_CHUNK_BYTES b)) [0..<note_chunks])"
    unfolding rep_bytes_def using published_chunks [OF assms]
    by (intro arg_cong [where f = concat] map_cong) (simp_all add: append_keys_at)
  also have "\<dots> = b"
    unfolding published_chunks [OF assms, symmetric] map_nth
    by (rule concat_chunks) (simp add: MAX_NOTE_CHUNK_BYTES_def)
  finally show "rep_bytes (append_keys b root bs m) (unat (count_word m KTreeSize)) = b" .
qed

lemma append_keys_notes:
  assumes "tze_laws X" "encode_published_note X cm enc = Inr b" "is_felt cm" "length b = 3487"
    and "unat (count_word m KTreeSize) < 2 ^ DEPTH"
  shows "unat (count_word (append_keys b root bs m) KTreeSize) = Suc (unat (count_word m KTreeSize))"
    and "rep_notes X (append_keys b root bs m) = rep_notes X m @ [(cm, enc)]"
proof -
  let ?i = "count_word m KTreeSize"
  have "unat ?i + unat (1 :: u64) < 2 ^ 64" using assms(5) by (simp add: DEPTH_def)
  then show suc: "unat (count_word (append_keys b root bs m) KTreeSize) = Suc (unat ?i)"
    using unat_add_no_wrap [of ?i 1] by (simp add: count_word_def append_keys_at)
  have "decode_published_note X b = Inr (cm, enc)" using assms by (simp add: published_note_iff)
  then show "rep_notes X (append_keys b root bs m) = rep_notes X m @ [(cm, enc)]"
    by (simp add: rep_notes_def suc append_keys_bytes [OF assms(4)])
qed

lemma append_keys_note_ok:
  assumes "encode_published_note X cm enc = Inr b" "is_felt cm" "length b = 3487"
    and "\<forall>i. m (KNote i) = None" "\<forall>i < unat (count_word m KTreeSize). note_ok X m i"
    and "j < Suc (unat (count_word m KTreeSize))"
  shows "note_ok X (append_keys b root bs m) j"
proof (cases "j = unat (count_word m KTreeSize)")
  case True
  have "\<forall>c < note_chunks. chunks MAX_NOTE_CHUNK_BYTES b ! c = take MAX_NOTE_CHUNK_BYTES (drop (c * MAX_NOTE_CHUNK_BYTES) b)"
    using nth_chunks published_chunks [OF assms(3)] by metis
  then show ?thesis
    using True assms(1,2,4) published_chunks [OF assms(3)]
    by (auto simp: note_ok_def append_keys_bytes [OF assms(3)] append_keys_at)
next
  case False
  then have j: "j < unat (count_word m KTreeSize)" using assms(6) by simp
  then have "note_ok X m j" using assms(5) by simp
  then show ?thesis
    using word_of_nat_ne [OF j] unfolding note_ok_def append_keys_bytes(1) [OF assms(3) j] append_keys_at by simp
qed

lemma append_keys_rep:
  assumes "tze_laws X" "rep_ok X m" "encode_published_note X cm enc = Inr b" "is_felt cm" "length b = 3487"
    and "unat (count_word m KTreeSize) < 2 ^ DEPTH"
    and "root = tree_root X (map fst (rep_notes X m) @ [cm])" "branches_typed bs"
    and "frontier_ok X (map fst (rep_notes X m) @ [cm]) bs"
  shows "rep_ok X (append_keys b root bs m)"
    and "rep_abs X (append_keys b root bs m) = (rep_abs X m)\<lparr>al_notes := al_notes (rep_abs X m) @ [(cm, enc)]\<rparr>"
proof -
  let ?m = "append_keys b root bs m"
  note suc = append_keys_notes(1) [OF assms(1,3,4,5,6)] and ns = append_keys_notes(2) [OF assms(1,3,4,5,6)]
  have br: "rep_branches ?m = bs"
    using assms(8) by (intro nth_equalityI) (simp_all add: rep_branches_def append_keys_at branches_typed_def)
  have sz: "is_count ?m KTreeSize" by (simp add: is_count_def append_keys_at)
  have bal: "rep_balance ?m = rep_balance m" and txs: "rep_private_txs ?m = rep_private_txs m"
    by (auto simp: rep_balance_def append_keys_other fun_eq_iff rep_private_txs_def)
  have oks: "\<forall>j < Suc (unat (count_word m KTreeSize)). note_ok X ?m j"
    using assms(2) append_keys_note_ok [OF assms(3,4,5)] by (simp add: rep_ok_def)
  have rt: "?m KTreeRoot = Some (tree_root X (map fst (rep_notes X m) @ [cm]))"
    using append_keys_at(1) assms(7) by metis
  show "rep_ok X ?m"
    using assms(2,6,8,9) oks rt
    by (simp add: rep_ok_def suc ns br sz append_keys_at(4) append_keys_other)
  show "rep_abs X ?m = (rep_abs X m)\<lparr>al_notes := al_notes (rep_abs X m) @ [(cm, enc)]\<rparr>"
    by (simp add: rep_abs_def ns bal txs append_keys_other)
qed

lemma rep_notes_felt:
  assumes "tze_laws X" "rep_ok X m" "x \<in> set (rep_notes X m)"
  shows "is_felt (fst x)"
proof -
  obtain i where "i < unat (count_word m KTreeSize)" "x = projr (decode_published_note X (rep_bytes m i))"
    using assms(3) by (auto simp: rep_notes_def)
  moreover from this have "note_ok X m i" using assms(2) by (simp add: rep_ok_def)
  then obtain cm enc where "is_felt cm" "encode_published_note X cm enc = Inr (rep_bytes m i)"
    by (auto simp: note_ok_def)
  then have "is_felt cm" "decode_published_note X (rep_bytes m i) = Inr (cm, enc)"
    using assms(1) by (simp_all add: published_note_iff)
  ultimately show ?thesis by simp
qed

lemma dur_append_keys:
  assumes "dur_inv E h" "is_felt cm" "note_validate enc = Inr ()"
  defines "i \<equiv> count_word (at_key E h) KTreeSize" and "ls \<equiv> map fst (rep_notes E (at_key E h))"
  assumes "unat i < 2 ^ DEPTH" "dur_index_fits E (unat i)"
  shows "\<exists>b bs h'. encode_published_note E cm enc = Inr b \<and> length b = 3487
     \<and> simulate_frontier_append E (zero_hash_list E DEPTH) (rep_branches (at_key E h)) (unat i) cm
         = Inr (tree_root E (ls @ [cm]), bs)
     \<and> frontier_ok E (ls @ [cm]) bs \<and> branches_typed bs
     \<and> dur_append_note E cm enc h = (Inr (unat i), h')
     \<and> at_key E h' = append_keys b (tree_root E (ls @ [cm])) bs (at_key E h)"
proof -
  note fold = path_of.simps [where X = E, symmetric]
  let ?m = "at_key E h"
  have laws: "durable_laws E" "tze_laws E" and ok: "rep_ok E ?m" using assms by (simp_all add: dur_inv_def durable_laws_def)
  have len: "length ls = unat i" by (simp add: rep_notes_def i_def ls_def)
  obtain b where b: "encode_published_note E cm enc = Inr b" "length b = 3487"
    using encode_published_note_ok [OF laws(2) assms(2,3)] .
  have front: "frontier_ok E ls (rep_branches ?m)" "branches_typed (rep_branches ?m)"
    using ok by (simp_all add: rep_ok_def ls_def)
  obtain bs where bs: "frontier_loop E (zero_hash_list E DEPTH) [0..<DEPTH] (rep_branches ?m) cm (unat i)
      = Inr (tree_root E (ls @ [cm]), bs)" "frontier_ok E (ls @ [cm]) bs"
    using simulate_frontier_append_correct [OF front(1)] assms(6) len by (auto simp: simulate_frontier_append_def)
  define h1 where "h1 = write_note_payload E i b h"
  have h1: "at_key E h1 = put_chunks i 0 (chunks MAX_NOTE_CHUNK_BYTES b) (?m(KNoteLen i \<mapsto> to_le 8 (word_of_nat (length b) :: u64)))"
    unfolding h1_def by (rule write_note_payload_keys [OF laws(1)]) (simp add: b MAX_NOTE_CHUNK_BYTES_def)
  have "rep_branches (at_key E h1) = rep_branches ?m" by (simp add: h1 rep_branches_def put_chunks_def)
  then obtain h2 where h2: "dur_frontier_loop E [0..<DEPTH] cm (unat i) h1 = (Inr (tree_root E (ls @ [cm])), h2)"
    "at_key E h2 = put_branches bs (at_key E h1)" "branches_typed bs"
    using dur_frontier_loop_keys [OF laws(1), of h1 cm "[0..<DEPTH]" "unat i"] bs front assms(2) by auto
  define h3 where "h3 = dl_write_u64 E PATH_TREE_SIZE (i + 1) (write_felt E PATH_TREE_ROOT (tree_root E (ls @ [cm])) h2)"
  have at: "at_key E h3 = append_keys b (tree_root E (ls @ [cm])) bs ?m"
    by (simp add: h3_def dl_write_u64_def write_felt_def fold at_key_writes [OF laws(1)] h2 h1 append_keys_def i_def Let_def)
  have "is_count ?m KTreeSize" using ok by (simp add: rep_ok_def)
  moreover have "i < push_bit DEPTH 1" using assms(6) by (simp add: word_less_nat_alt push_bit_eq_mult DEPTH_def)
  ultimately have "dur_append_note E cm enc h = (Inr (unat i), h3)"
    using b(1) h2(1) assms(7)
    by (simp add: dur_append_note_def fold read_count_key i_def [symmetric] bind_act_def h1_def [symmetric]
        h3_def dur_index_fits_def)
  then show ?thesis using b bs h2(3) at by (auto simp: simulate_frontier_append_def)
qed

lemma dur_append_law:
  assumes "dur_inv E h" "is_felt cm" "note_validate enc = Inr ()" "length (al_notes (dur_abs E h)) < 2 ^ DEPTH"
    and "dur_index_fits E (length (al_notes (dur_abs E h)))"
  shows "\<exists>h'. dur_append_note E cm enc h = (Inr (length (al_notes (dur_abs E h))), h') \<and> dur_inv E h'
       \<and> dur_abs E h' = (dur_abs E h)\<lparr>al_notes := al_notes (dur_abs E h) @ [(cm, enc)]\<rparr>"
proof -
  let ?m = "at_key E h"
  have laws: "durable_laws E" "tze_laws E" and ok: "rep_ok E ?m" using assms by (simp_all add: dur_inv_def durable_laws_def)
  have len: "length (al_notes (dur_abs E h)) = unat (count_word ?m KTreeSize)"
    by (simp add: dur_abs_def rep_abs_def rep_notes_def)
  note fits = assms(4,5) [unfolded len]
  from dur_append_keys [OF assms(1-3) fits] obtain b bs h' where
    k: "encode_published_note E cm enc = Inr b" "length b = 3487"
      "frontier_ok E (map fst (rep_notes E ?m) @ [cm]) bs" "branches_typed bs"
      "dur_append_note E cm enc h = (Inr (unat (count_word ?m KTreeSize)), h')"
      "at_key E h' = append_keys b (tree_root E (map fst (rep_notes E ?m) @ [cm])) bs ?m"
    by blast
  from append_keys_rep [OF laws(2) ok k(1) assms(2) k(2) fits(1) refl k(4,3)] k(5,6) show ?thesis
    using len laws(1) by (simp add: dur_inv_def dur_abs_def)
qed

lemma dur_capacity_law:
  assumes "dur_inv E h"
  shows "dur_ensure_note_capacity h n = Inr () \<longleftrightarrow> length (al_notes (dur_abs E h)) + n \<le> 2 ^ DEPTH"
proof -
  note fold = path_of.simps [where X = E, symmetric]
  let ?i = "count_word (at_key E h) KTreeSize"
  have "is_count (at_key E h) KTreeSize" using assms by (simp add: dur_inv_def rep_ok_def)
  then have rd: "read_count h PATH_TREE_SIZE = Inr ?i" by (simp add: fold read_count_key)
  have len: "length (al_notes (dur_abs E h)) = unat ?i" by (simp add: dur_abs_def rep_abs_def rep_notes_def)
  have lim: "unat (push_bit DEPTH 1 :: u64) = 2 ^ DEPTH" "unat (2 ^ DEPTH :: u64) = 2 ^ DEPTH"
    by (simp_all add: push_bit_eq_mult DEPTH_def)
  have "n < 2 ^ 64 \<Longrightarrow> unat (?i + word_of_nat n) = unat ?i + n" if "unat ?i + n < 2 ^ 64"
    using that unat_add_no_wrap [of ?i "word_of_nat n"] by (simp add: unat_of_nat_small)
  moreover have "(2 :: nat) ^ DEPTH < 2 ^ 64" by (simp add: DEPTH_def)
  ultimately show ?thesis
    unfolding len
    by (auto simp: dur_ensure_note_capacity_def rd res_simps checked_add_Some word_less_nat_alt lim not_less unat_of_nat_small)
qed

lemma dur_marker_laws:
  assumes "dur_inv E h" "is_felt x"
  shows "has_marker h (root_marker_path E x) \<longleftrightarrow> x \<in> al_roots (dur_abs E h)"
    and "has_marker h (nullifier_path E x) \<longleftrightarrow> x \<in> al_nullifiers (dur_abs E h)"
    and "has_marker h (applied_shield_path E x) \<longleftrightarrow> x \<in> al_shields (dur_abs E h)"
    and "dur_inv E (write_marker E (applied_shield_path E x) h)"
    and "dur_abs E (write_marker E (applied_shield_path E x) h)
         = (dur_abs E h)\<lparr>al_shields := insert x (al_shields (dur_abs E h))\<rparr>"
proof -
  note fold = path_of.simps [where X = E, symmetric]
  show "has_marker h (root_marker_path E x) \<longleftrightarrow> x \<in> al_roots (dur_abs E h)"
    "has_marker h (nullifier_path E x) \<longleftrightarrow> x \<in> al_nullifiers (dur_abs E h)"
    "has_marker h (applied_shield_path E x) \<longleftrightarrow> x \<in> al_shields (dur_abs E h)"
    using assms(2) by (auto simp: fold has_marker_key dur_abs_def rep_abs_def)
  have laws: "durable_laws E" and ok: "rep_ok E (at_key E h)" using assms by (simp_all add: dur_inv_def)
  have at: "at_key E (write_marker E (applied_shield_path E x) h) = (at_key E h)(KShield x \<mapsto> [1])"
    by (simp add: fold write_marker_def at_key_writes [OF laws])
  show "dur_inv E (write_marker E (applied_shield_path E x) h)"
    using laws ok by (simp add: dur_inv_def at rep_ok_def)
  show "dur_abs E (write_marker E (applied_shield_path E x) h)
         = (dur_abs E h)\<lparr>al_shields := insert x (al_shields (dur_abs E h))\<rparr>"
    using assms(2) by (auto simp: dur_abs_def at rep_abs_def)
qed

lemma dur_auth_domain_law:
  assumes "dur_inv E h"
  shows "dur_auth_domain h = Inr (al_domain (dur_abs E h))"
proof -
  note fold = path_of.simps [where X = E, symmetric]
  obtain d where "at_key E h KAuthDomain = Some d" "is_felt d" using assms by (auto simp: dur_inv_def rep_ok_def)
  then show ?thesis by (simp add: dur_auth_domain_def fold read_felt_key dur_abs_def rep_abs_def)
qed

interpretation dur: ledger_state E "dur_ops E" "dur_inv E" "dur_abs E" "dur_index_fits E"
  for E :: "'x host_env_scheme"
proof
  fix h :: host and k :: felt and amt :: u64
  assume h: "dur_inv E h" and k: "is_felt k"
  show "\<exists>h'. op_credit_deposit (dur_ops E) k amt h = (Inr (), h') \<and> dur_inv E h'
      \<and> dur_abs E h' = (dur_abs E h)\<lparr>al_balance := (al_balance (dur_abs E h))(k := al_balance (dur_abs E h) k + unat amt)\<rparr>"
    if fit: "al_balance (dur_abs E h) k + unat amt < 2 ^ 64"
  proof -
    let ?w = "word_of_nat (al_balance (dur_abs E h) k) + amt"
    have "unat ?w = al_balance (dur_abs E h) k + unat amt"
      using fit unat_add_no_wrap [of "word_of_nat (al_balance (dur_abs E h) k)" amt] by (simp add: unat_of_nat_small)
    then have "\<exists>w :: u64. to_le 8 ?w = to_le 8 w \<and> al_balance (dur_abs E h) k + unat amt = unat w" by metis
    from put_balance [OF h k disjI2 [OF this]] show ?thesis
      using dur_credit_law [OF h k] fit by (simp add: dur_ops_def)
  qed
next
  fix h :: host
  assume "dur_inv E h"
  from dur_snapshot_law [OF this] show "\<exists>h' roots. op_snapshot_root (dur_ops E) h = (Inr (), h') \<and> dur_inv E h'
      \<and> dur_abs E h' = (dur_abs E h)\<lparr>al_roots := roots\<rparr>
      \<and> roots_step E (al_notes (dur_abs E h)) (al_roots (dur_abs E h)) roots"
    by (simp add: dur_ops_def)
qed (auto simp: dur_ops_def dur_auth_domain_law dur_fee_law dur_marker_laws dur_capacity_law
    dur_insert_nullifier_law dur_append_law dur_enqueue_law dur_tx_applied_law
    dur_balance_law dur_credit_law dur_debit_law)


section \<open>The initial store\<close>

definition init_keys :: "'x host_env_scheme \<Rightarrow> dkey \<Rightarrow> bytes option" where
  "init_keys E = (let r = zero_hash_list E DEPTH ! DEPTH
     in Map.empty(KAuthDomain \<mapsto> default_auth_domain E, KTreeSize \<mapsto> to_le 8 (0 :: u64), KTreeRoot \<mapsto> r,
          KNullifierCount \<mapsto> to_le 8 (0 :: u64), KWithdrawalCount \<mapsto> to_le 8 (0 :: u64),
          KRoot r \<mapsto> [1], KRootAt 0 \<mapsto> r, KValidRootCount \<mapsto> to_le 8 (1 :: u64)))"

lemma zero_root: "zero_hash_list X DEPTH ! DEPTH = tree_root X []"
proof -
  have "leaf_at [] = (\<lambda>_. ZERO)" by (simp add: leaf_at_def fun_eq_iff)
  then show ?thesis by (simp add: zero_hash_list_nth tree_root_def node_zero)
qed

lemma write_unless_present_key:
  "write_unless_present (path_of X k) n f h = (Inr (), if at_key X h k = None then f h else h)"
  by (simp add: write_unless_present_def read_store_key)

text \<open>A store that holds nothing but statistics on inputs and the last result.\<close>

fun stat_key :: "dkey \<Rightarrow> bool" where
  "stat_key KRawInputCount \<longleftrightarrow> True"
| "stat_key KRawInputBytes \<longleftrightarrow> True"
| "stat_key KLastInputLevel \<longleftrightarrow> True"
| "stat_key KLastInputId \<longleftrightarrow> True"
| "stat_key KLastInputLen \<longleftrightarrow> True"
| "stat_key KLastInputPayload \<longleftrightarrow> True"
| "stat_key KLastResult \<longleftrightarrow> True"
| "stat_key _ \<longleftrightarrow> False"

definition stats_only :: "(dkey \<Rightarrow> bytes option) \<Rightarrow> bool" where
  "stats_only m \<longleftrightarrow> (\<forall>k. \<not> stat_key k \<longrightarrow> m k = None)"

lemma stats_onlyD: "stats_only m \<Longrightarrow> \<not> stat_key k \<Longrightarrow> m k = None"
  by (simp add: stats_only_def)

lemma ensure_initialized_fresh:
  assumes "durable_laws E" "stats_only (at_key E h)"
  shows "\<exists>h'. ensure_initialized E h = (Inr (), h') \<and> at_key E h' = at_key E h ++ init_keys E"
proof -
  note fold = path_of.simps [where X = E, symmetric]
  have "is_felt (tree_root E [])" using assms(1) by (simp add: durable_laws_def tree_root_felt)
  then have "read_felt h' PATH_TREE_ROOT = Inr (Some (tree_root E []))"
    if "at_key E h' KTreeRoot = Some (tree_root E [])" for h'
    using that by (simp add: fold read_felt_key)
  note rf = this [unfolded fold]
  show ?thesis
    using stats_onlyD [OF assms(2)]
    by (simp add: ensure_initialized_def fold write_unless_present_key bind_act_def write_felt_def dl_write_u64_def
        at_key_writes [OF assms(1)] zero_root read_store_key rf write_marker_def write_key_at_index_def init_keys_def Let_def)
qed

lemma ensure_initialized_idle:
  assumes "dur_inv E h"
  shows "ensure_initialized E h = (Inr (), h)"
proof -
  note fold = path_of.simps [where X = E, symmetric]
  let ?m = "at_key E h"
  obtain a b c d e f where "?m KAuthDomain = Some a" "?m KTreeSize = Some b" "?m KTreeRoot = Some c"
    "?m KNullifierCount = Some d" "?m KWithdrawalCount = Some e" "?m KValidRootCount = Some f"
    using assms by (auto simp: dur_inv_def rep_ok_def is_count_def)
  then show ?thesis
    by (simp add: ensure_initialized_def fold write_unless_present_key bind_act_def read_store_key)
qed

definition empty_ledger :: "'x ext_scheme \<Rightarrow> abs_ledger" where
  "empty_ledger X = \<lparr>al_domain = default_auth_domain X, al_fee = MIN_TX_FEE, al_notes = [], al_nullifiers = {},
     al_roots = {tree_root X []}, al_withdrawals = [], al_balance = (\<lambda>_. 0), al_shields = {}\<rparr>"

lemma init_keys_ok:
  assumes "durable_laws E" "stats_only m0"
  shows "rep_ok E (m0 ++ init_keys E)" and "rep_abs E (m0 ++ init_keys E) = empty_ledger E"
proof -
  let ?m = "m0 ++ init_keys E"
  have at: "?m k = init_keys E k" if "\<not> stat_key k" for k
    using stats_onlyD [OF assms(2) that] by (simp add: map_add_def split: option.split)
  have d: "is_felt (default_auth_domain E)" and r: "is_felt (tree_root E [])"
    using assms by (simp_all add: default_auth_domain_def is_felt_def durable_laws_def tree_root_felt [unfolded is_felt_def])
  have n: "count_word ?m KTreeSize = 0" "rep_notes E ?m = []" "count_word ?m KWithdrawalCount = 0"
    by (simp_all add: rep_notes_def count_word_def at) (simp_all add: init_keys_def Let_def)
  have "frontier_ok E [] (rep_branches ?m)" by (simp add: frontier_ok_def rep_branches_def)
  then show "rep_ok E ?m"
    using d n by (simp add: rep_ok_def is_count_def at rep_branches_def branches_typed_def)
      (simp add: init_keys_def Let_def zero_root)
  have "rep_private_txs ?m = 0" "rep_balance ?m = (\<lambda>_. 0)"
    by (simp_all add: rep_private_txs_def rep_balance_def at fun_eq_iff) (simp_all add: init_keys_def Let_def)
  moreover have "required_tx_fee_for_private_tx_count 0 = MIN_TX_FEE"
    by (simp add: required_tx_fee_for_private_tx_count_def saturating_sub_def saturating_mul_def
        BASE_PRIVATE_TXS_PER_LEVEL_def MAX_DYNAMIC_FEE_STEP_def MIN_TX_FEE_def Let_def)
  ultimately show "rep_abs E ?m = empty_ledger E"
    using r n by (simp add: rep_abs_def at empty_ledger_def) (auto simp: init_keys_def Let_def zero_root)
qed

lemma durable_start:
  assumes "durable_laws E" "stats_only (at_key E h)" "ensure_initialized E h = (Inr (), h')"
  shows "dur_inv E h'" and "dur_abs E h' = empty_ledger E"
  using ensure_initialized_fresh [OF assms(1,2)] assms(1,3) init_keys_ok [OF assms(1,2)]
  by (auto simp: dur_inv_def dur_abs_def)

lemma sample_durable_laws: "durable_laws sample_env"
  using sample_env_laws by (simp add: durable_laws_def)

lemma sample_durable:
  obtains h where "ensure_initialized sample_env empty_host = (Inr (), h)" "dur_inv sample_env h"
    "al_notes (dur_abs sample_env h) = []" "al_withdrawals (dur_abs sample_env h) = []" "al_balance (dur_abs sample_env h) = (\<lambda>_. 0)"
proof -
  have s: "stats_only (at_key sample_env empty_host)" by (simp add: at_key_def empty_host_def stats_only_def)
  then obtain h where h: "ensure_initialized sample_env empty_host = (Inr (), h)"
    using ensure_initialized_fresh [OF sample_durable_laws] by blast
  from durable_start [OF sample_durable_laws s h] show ?thesis by (intro that [OF h]) (simp_all add: empty_ledger_def)
qed


section \<open>Reading notes back\<close>

lemma read_chunks_key:
  assumes "\<forall>c < n. at_key X h (KNoteChunk i c) = Some (take MAX_NOTE_CHUNK_BYTES (drop (c * MAX_NOTE_CHUNK_BYTES) b))"
    and "k \<le> n"
  shows "read_chunks h i [k..<n] = Some (take ((n - k) * MAX_NOTE_CHUNK_BYTES) (drop (k * MAX_NOTE_CHUNK_BYTES) b))"
  using assms(2)
proof (induction "n - k" arbitrary: k)
  case 0
  then show ?case by simp
next
  case (Suc d)
  then have k: "k < n" by simp
  have eq: "note_chunk_path i k = path_of X (KNoteChunk i k)" by (simp add: path_of.simps)
  have "read_chunks h i [Suc k..<n] = Some (take ((n - Suc k) * MAX_NOTE_CHUNK_BYTES) (drop (Suc k * MAX_NOTE_CHUNK_BYTES) b))"
    using Suc by (intro Suc.hyps(1)) simp_all
  moreover have "(n - k) * MAX_NOTE_CHUNK_BYTES = MAX_NOTE_CHUNK_BYTES + (n - Suc k) * MAX_NOTE_CHUNK_BYTES"
  proof -
    have "n - k = Suc (n - Suc k)" using k by simp
    then show ?thesis by simp
  qed
  ultimately show ?case
    using k assms(1) by (simp add: upt_conv_Cons eq read_store_key take_add add.commute del: upt_Suc)
qed

lemma div_ceil_covers: "0 < n \<Longrightarrow> a \<le> div_ceil a n * n"
proof -
  assume "0 < n"
  then have "a < Suc (a div n) * n" using dividend_less_div_times [of n a] by simp
  then show ?thesis by (auto simp: div_ceil_def less_imp_le)
qed

lemma read_persisted_note_key:
  assumes "at_key X h (KNote i) = None" "at_key X h (KNoteLen i) = Some (to_le 8 (word_of_nat (length b) :: u64))"
    and "\<forall>c < div_ceil (length b) MAX_NOTE_CHUNK_BYTES.
           at_key X h (KNoteChunk i c) = Some (take MAX_NOTE_CHUNK_BYTES (drop (c * MAX_NOTE_CHUNK_BYTES) b))"
    and "length b \<le> MAX_LEDGER_STATE_BYTES" "length b < 2 ^ usize_bits X"
  shows "read_persisted_note X h i = Some b"
proof -
  note fold = path_of.simps [where X = X, symmetric]
  have "length b < 2 ^ 64" using assms(4) by (simp add: MAX_LEDGER_STATE_BYTES_def)
  then have n: "unat (word_of_nat (length b) :: u64) = length b" by (simp add: unat_of_nat_small)
  have "read_u64 h (note_length_path i) = Some (word_of_nat (length b))"
    using assms(2) by (simp add: read_u64_def fold read_store_key)
  moreover have "read_store h (note_path i) MAX_LEDGER_STATE_BYTES = None"
    using assms(1) by (simp add: fold read_store_key)
  moreover have "length b \<le> div_ceil (length b) MAX_NOTE_CHUNK_BYTES * MAX_NOTE_CHUNK_BYTES"
    by (rule div_ceil_covers) (simp add: MAX_NOTE_CHUNK_BYTES_def)
  then have "read_chunks h i [0..<div_ceil (length b) MAX_NOTE_CHUNK_BYTES] = Some b"
    using read_chunks_key [OF assms(3), of 0] by simp
  ultimately show ?thesis using assms(4,5) n by (simp add: read_persisted_note_def Let_def)
qed

section \<open>Properties\<close>




text \<open>
  Safety of the durable ledger over whole runs. From an empty store, initialised, and any
  sequence of requests, accepted or not: the nullifiers of the accepted spends are pairwise
  different and are the recorded ones, no client commitment is shielded twice, the notes are
  those of the accepted requests in order, every pool holds what was deposited minus what was
  shielded, and every root with a marker was the root of the tree at some time.
\<close>

theorem durable_ledger_safe:
  assumes "durable_laws E" "stats_only (at_key E h0)" "ensure_initialized E h0 = (Inr (), h)"
    and "\<forall>t \<in> set txs. tx_typed t" "3 * length txs \<le> 2 ^ usize_bits E" "3 * length txs < 2 ^ 64"
    and "run_txs E (dur_ops E) txs h = (acc, h')"
  shows "distinct (concat (map tx_nullifiers acc)) \<and> al_nullifiers (dur_abs E h') = set (concat (map tx_nullifiers acc))
    \<and> distinct (concat (map tx_shield_cms acc)) \<and> al_notes (dur_abs E h') = concat (map tx_notes acc)
    \<and> sum_list (map (tx_credit E k) acc) = al_balance (dur_abs E h') k + sum_list (map (tx_debit k) acc)
    \<and> historic_roots E (dur_abs E h')"
proof -
  note start = durable_start [OF assms(1-3), unfolded empty_ledger_def]
  have "index_room (dur_index_fits E) (dur_abs E h) (length txs)"
    using assms(5,6) by (auto simp: index_room_def dur_index_fits_def start(2))
  then have run: "al_run E (dur_abs E h) acc (dur_abs E h')"
    using dur.run_txs_refines [OF start(1) assms(4) _ assms(7)] by blast
  have "historic_roots E (dur_abs E h)" by (simp add: historic_roots_def start(2))
  then show ?thesis
    using al_run_no_double_spend [OF run] al_run_no_shield_replay [OF run] al_run_components [OF run]
      al_run_conserves [OF run, of k] al_run_historic [OF run] by (simp add: start(2))
qed

theorem durable_ledger_safe_witness:
  "\<exists>h acc h'. ensure_initialized sample_env empty_host = (Inr (), h)
     \<and> run_txs sample_env (dur_ops sample_env)
         [TxDeposit (deposit_recipient_string sample_env ZERO) 5, TxDeposit ''nowhere'' 7] h = (acc, h')
     \<and> sum_list (map (tx_credit sample_env ZERO) acc)
         = al_balance (dur_abs sample_env h') ZERO + sum_list (map (tx_debit ZERO) acc)"
proof -
  let ?txs = "[TxDeposit (deposit_recipient_string sample_env ZERO) 5, TxDeposit ''nowhere'' 7]"
  obtain h where h: "ensure_initialized sample_env empty_host = (Inr (), h)" by (rule sample_durable)
  obtain acc h' where run: "run_txs sample_env (dur_ops sample_env) ?txs h = (acc, h')" by fastforce
  have "stats_only (at_key sample_env empty_host)" by (simp add: at_key_def empty_host_def stats_only_def)
  from durable_ledger_safe [OF sample_durable_laws this h _ _ _ run, of ZERO] h run show ?thesis
    by (auto simp: sample_ext_def)
qed

text \<open>
  Initialising a store that holds at most input statistics yields a well-formed store that represents the empty ledger with
  the default authorisation domain and the root of the empty tree as its only valid root;
  initialising a well-formed store changes nothing.
\<close>

theorem durable_initialisation:
  assumes "durable_laws E" "stats_only (at_key E h)"
  shows "\<exists>h'. ensure_initialized E h = (Inr (), h') \<and> dur_inv E h' \<and> ensure_initialized E h' = (Inr (), h')
     \<and> al_notes (dur_abs E h') = [] \<and> al_roots (dur_abs E h') = {tree_root E []}
     \<and> al_domain (dur_abs E h') = default_auth_domain E \<and> al_fee (dur_abs E h') = MIN_TX_FEE
     \<and> al_nullifiers (dur_abs E h') = {} \<and> al_balance (dur_abs E h') = (\<lambda>_. 0)"
proof -
  obtain h' where h': "ensure_initialized E h = (Inr (), h')"
    using ensure_initialized_fresh [OF assms] by blast
  with durable_start [OF assms h'] ensure_initialized_idle [of E h'] show ?thesis by (simp add: empty_ledger_def)
qed

theorem durable_initialisation_witness:
  "\<exists>h'. ensure_initialized sample_env empty_host = (Inr (), h') \<and> ensure_initialized sample_env h' = (Inr (), h')"
proof -
  have "stats_only (at_key sample_env empty_host)" by (simp add: at_key_def empty_host_def stats_only_def)
  from durable_initialisation [OF sample_durable_laws this] show ?thesis by blast
qed

text \<open>
  A note payload written to the store, whole or in chunks of 1024 bytes, is read back as it
  was written, as long as it is no longer than the reader's limit.
\<close>

theorem note_payload_roundtrip:
  assumes "durable_laws E" "at_key E h (KNote i) = None"
    and "length b \<le> MAX_LEDGER_STATE_BYTES" "length b < 2 ^ usize_bits E"
  shows "read_persisted_note E (write_note_payload E i b h) i = Some b"
proof (cases "length b \<le> MAX_NOTE_CHUNK_BYTES")
  case True
  then have "at_key E (write_note_payload E i b h) = (at_key E h)(KNote i \<mapsto> b)"
    using at_key_writes [OF assms(1), of "KNote i"] by (simp add: write_note_payload_def path_of.simps)
  then have "read_store (write_note_payload E i b h) (note_path i) MAX_LEDGER_STATE_BYTES = Some b"
    using assms(3) by (simp add: path_of.simps(19) [where X = E, symmetric] read_store_key)
  then show ?thesis by (simp add: read_persisted_note_def)
next
  case False
  have at: "at_key E (write_note_payload E i b h) = put_chunks i 0 (chunks MAX_NOTE_CHUNK_BYTES b)
      ((at_key E h)(KNoteLen i \<mapsto> to_le 8 (word_of_nat (length b) :: u64)))"
    using False by (intro write_note_payload_keys assms(1)) simp
  have len: "length (chunks MAX_NOTE_CHUNK_BYTES b) = div_ceil (length b) MAX_NOTE_CHUNK_BYTES"
    by (rule length_chunks) (simp add: MAX_NOTE_CHUNK_BYTES_def)
  show ?thesis
    using assms(2-4) len nth_chunks [of _ MAX_NOTE_CHUNK_BYTES b]
    by (intro read_persisted_note_key) (simp_all add: at put_chunks_def)
qed

theorem note_payload_roundtrip_witness:
  "read_persisted_note sample_env (write_note_payload sample_env 3 (replicate 3000 9) empty_host) 3
   = Some (replicate 3000 9)"
  using note_payload_roundtrip [OF sample_durable_laws, of empty_host 3 "replicate 3000 9"]
  by (simp add: at_key_def empty_host_def MAX_LEDGER_STATE_BYTES_def sample_ext_def)

text \<open>
  The record of a withdrawal survives the store: decoding the encoding gives the record back
  when the recipient is well-formed text that the target can index.
\<close>

theorem withdrawal_record_roundtrip:
  assumes "utf8_valid (as_bytes (wr_recipient r))"
    and "12 + length (wr_recipient r) < 2 ^ 32" "32 \<le> usize_bits X"
  shows "decode_withdrawal_record X (encode_withdrawal_record r) = Inr r"
proof -
  have "(2 :: nat) ^ 32 \<le> 2 ^ usize_bits X" by (rule power_increasing [OF assms(3)]) simp
  then have small: "12 + length (wr_recipient r) < 2 ^ usize_bits X" using assms(2) by linarith
  have "unat (word_of_nat (length (wr_recipient r)) :: u32) = length (wr_recipient r)"
    using assms(2) by (simp add: unat_of_nat_small)
  then show ?thesis
    using assms small
    by (simp add: decode_withdrawal_record_def encode_withdrawal_record_def Let_def from_utf8_as_bytes)
qed

theorem withdrawal_record_roundtrip_witness:
  "decode_withdrawal_record sample_ext (encode_withdrawal_record \<lparr>wr_recipient = ''tz1abc'', wr_amount = 42\<rparr>)
   = Inr \<lparr>wr_recipient = ''tz1abc'', wr_amount = 42\<rparr>"
  by (rule withdrawal_record_roundtrip) (simp_all add: as_bytes_def utf8_valid_ascii sample_ext_def)

text \<open>
  C31: on a host whose writes at offset zero keep the bytes beyond the written ones, as the
  documented \<open>store_write\<close> of the rollup's virtual machine does, draining a pool has no effect:
  the debit of the whole balance succeeds, and afterwards the pool still reports that balance.
\<close>

theorem drained_pool_survives_splicing:
  assumes "splicing E" "h_store h (deposit_balance_path E k) = Some (to_le 8 b)"
  shows "\<exists>h'. dur_debit_deposit E k b h = (Inr (), h') \<and> dur_deposit_balance E h' k = Inr (Some b)"
proof -
  have "put_content E (Some (to_le 8 b)) [] = to_le 8 b" using assms(1) by (simp add: splicing_def)
  then show ?thesis
    using assms(2)
    by (simp add: dur_debit_deposit_def dur_deposit_balance_def read_store_def write_store_def bind_act_def Let_def)
qed

definition splicing_env :: host_env where
  "splicing_env = sample_env\<lparr>put_content := \<lambda>old new. new @ (case old of None \<Rightarrow> [] | Some b \<Rightarrow> drop (length new) b)\<rparr>"

theorem drained_pool_survives_splicing_witness:
  "\<exists>h'. dur_debit_deposit splicing_env ZERO 9
          (empty_host\<lparr>h_store := [deposit_balance_path splicing_env ZERO \<mapsto> to_le 8 (9 :: u64)]\<rparr>) = (Inr (), h')
        \<and> dur_deposit_balance splicing_env h' ZERO = Inr (Some 9)"
  by (rule drained_pool_survives_splicing) (simp_all add: splicing_def splicing_env_def)

end
