(* ===== verification/KernelWire.thy ===== *)
theory KernelWire
  imports Wire LedgerState Wots
begin

text \<open>
  The wire format of the rollup kernel (\<open>core/src/kernel_wire.rs\<close>): inbox messages, results and
  configurations, their layouts over the third-party codec, the hand-written codec of proofs and
  of the concatenated transfer and unshield payloads, and the signing of configurations. Bytes
  decode to a message exactly when they are its encoding.
\<close>

section \<open>Constants\<close>

definition KERNEL_WIRE_VERSION :: u16 where "KERNEL_WIRE_VERSION = 17"
definition KERNEL_VERIFIER_CONFIG_KEY_INDEX :: u32 where "KERNEL_VERIFIER_CONFIG_KEY_INDEX = 0"
definition KERNEL_BRIDGE_CONFIG_KEY_INDEX :: u32 where "KERNEL_BRIDGE_CONFIG_KEY_INDEX = 1"
definition MAX_ACCOUNT_ID_BYTES :: nat where "MAX_ACCOUNT_ID_BYTES = 1024"
definition MAX_PROOF_BYTES :: nat where "MAX_PROOF_BYTES = 8 * 1024 * 1024"
definition MAX_OUTPUT_PREIMAGE_ITEMS :: nat where "MAX_OUTPUT_PREIMAGE_ITEMS = 1024"
definition MAX_ERROR_MESSAGE_BYTES :: nat where "MAX_ERROR_MESSAGE_BYTES = 4096"
definition MAX_DAL_CHUNK_POINTERS :: nat where "MAX_DAL_CHUNK_POINTERS = 256"
definition MAX_DAL_CHUNK_LIST_BYTES :: nat where "MAX_DAL_CHUNK_LIST_BYTES = 64 * 1024"
definition MAX_ENCODED_NOTE_WIRE_BYTES :: nat where
  "MAX_ENCODED_NOTE_WIRE_BYTES = ML_KEM768_CIPHERTEXT_BYTES * 2 + NOTE_AEAD_NONCE_BYTES
     + ENCRYPTED_NOTE_BYTES + OUTGOING_RECOVERY_CT_BYTES + 32"
definition MAX_ENCODED_PROOF_WIRE_BYTES :: nat where
  "MAX_ENCODED_PROOF_WIRE_BYTES = MAX_PROOF_BYTES + MAX_OUTPUT_PREIMAGE_ITEMS * 64 + 4096"
definition MAX_ENCODED_NULLIFIER_LIST_BYTES :: nat where "MAX_ENCODED_NULLIFIER_LIST_BYTES = 256 * 1024"
definition MAX_TRANSFER_PAYLOAD_BYTES :: nat where
  "MAX_TRANSFER_PAYLOAD_BYTES = 5 * 32 + MAX_ENCODED_PROOF_WIRE_BYTES + 3 * MAX_ENCODED_NOTE_WIRE_BYTES + 65536"
definition MAX_UNSHIELD_PAYLOAD_BYTES :: nat where
  "MAX_UNSHIELD_PAYLOAD_BYTES = 4 * 32 + MAX_ENCODED_PROOF_WIRE_BYTES + 2 * MAX_ENCODED_NOTE_WIRE_BYTES + 65536"

section \<open>Messages\<close>

record kernel_verifier_config =
  kv_auth_domain :: felt
  kv_verified_program_hashes :: program_hashes

record kernel_signed_verifier_config =
  sv_config :: kernel_verifier_config
  sv_signature :: "felt list"

record kernel_bridge_config =
  kb_ticketer :: string

record kernel_signed_bridge_config =
  sb_config :: kernel_bridge_config
  sb_signature :: "felt list"

record kernel_stark_proof =
  kp_proof_bytes :: bytes
  kp_output_preimage :: "felt list"

record kernel_shield_req =
  ks_pubkey_hash :: felt
  ks_fee :: u64
  ks_v :: u64
  ks_producer_fee :: u64
  ks_proof :: kernel_stark_proof
  ks_client_cm :: felt
  ks_client_enc :: encrypted_note
  ks_producer_cm :: felt
  ks_producer_enc :: encrypted_note

record kernel_transfer_req =
  kt_root :: felt
  kt_nullifiers :: "felt list"
  kt_fee :: u64
  kt_cm_1 :: felt
  kt_cm_2 :: felt
  kt_cm_3 :: felt
  kt_enc_1 :: encrypted_note
  kt_enc_2 :: encrypted_note
  kt_enc_3 :: encrypted_note
  kt_proof :: kernel_stark_proof

record kernel_unshield_req =
  ku_root :: felt
  ku_nullifiers :: "felt list"
  ku_v_pub :: u64
  ku_fee :: u64
  ku_recipient :: string
  ku_cm_change :: felt
  ku_enc_change :: "encrypted_note option"
  ku_cm_fee :: felt
  ku_enc_fee :: encrypted_note
  ku_proof :: kernel_stark_proof

datatype kernel_dal_payload_kind =
  DalConfigureVerifier | DalConfigureBridge | DalShield | DalTransfer | DalUnshield

record kernel_dal_chunk_pointer =
  dc_published_level :: u64
  dc_slot_index :: u8
  dc_payload_len :: u64

record kernel_dal_payload_pointer =
  dl_kind :: kernel_dal_payload_kind
  dl_chunks :: "kernel_dal_chunk_pointer list"
  dl_payload_len :: u64
  dl_payload_hash :: felt

datatype kernel_inbox_message =
  MConfigureVerifier kernel_signed_verifier_config
  | MConfigureBridge kernel_signed_bridge_config
  | MShield kernel_shield_req
  | MTransfer kernel_transfer_req
  | MUnshield kernel_unshield_req
  | MDalPointer kernel_dal_payload_pointer

datatype kernel_result =
  RConfigured | RDeposit | RShield shield_resp | RTransfer transfer_resp | RUnshield unshield_resp | RError string

section \<open>Layouts\<close>

definition wire_program_hashes :: schema where "wire_program_hashes = Struct [wire_felt, wire_felt, wire_felt]"
definition wire_felt_list :: schema where "wire_felt_list = Struct [DynList None wire_felt]"
definition wire_encoded_note :: schema where "wire_encoded_note = Struct [Dynamic MAX_ENCODED_NOTE_WIRE_BYTES]"
definition wire_encoded_proof :: schema where "wire_encoded_proof = Struct [Dynamic MAX_ENCODED_PROOF_WIRE_BYTES]"
definition wire_encoded_felt_list :: schema where
  "wire_encoded_felt_list = Struct [Dynamic MAX_ENCODED_NULLIFIER_LIST_BYTES]"
definition wire_encoded_dal_chunk_list :: schema where
  "wire_encoded_dal_chunk_list = Struct [Dynamic MAX_DAL_CHUNK_LIST_BYTES]"
definition wire_kernel_verifier_config :: schema where
  "wire_kernel_verifier_config = Struct [wire_felt, wire_program_hashes]"
definition wire_signed_kernel_verifier_config :: schema where
  "wire_signed_kernel_verifier_config = Struct [wire_kernel_verifier_config, wire_encoded_felt_list]"
definition wire_kernel_bridge_config :: schema where "wire_kernel_bridge_config = Struct [Text MAX_ACCOUNT_ID_BYTES]"
definition wire_signed_kernel_bridge_config :: schema where
  "wire_signed_kernel_bridge_config = Struct [wire_kernel_bridge_config, wire_encoded_felt_list]"
definition wire_kernel_shield_req :: schema where
  "wire_kernel_shield_req = Struct [wire_felt, wire_u64_le, wire_u64_le, wire_u64_le, wire_encoded_proof,
     wire_felt, wire_encrypted_note, wire_felt, wire_encrypted_note]"
definition wire_shield_resp :: schema where
  "wire_shield_resp = Struct [wire_felt, wire_u64_le, wire_felt, wire_u64_le]"
definition wire_kernel_transfer_req :: schema where
  "wire_kernel_transfer_req = Struct [Dynamic MAX_TRANSFER_PAYLOAD_BYTES]"
definition wire_transfer_resp :: schema where
  "wire_transfer_resp = Struct [wire_u64_le, wire_u64_le, wire_u64_le]"
definition wire_kernel_unshield_req :: schema where
  "wire_kernel_unshield_req = Struct [Dynamic MAX_UNSHIELD_PAYLOAD_BYTES]"
definition wire_kernel_dal_payload_kind :: schema where
  "wire_kernel_dal_payload_kind = Tagged [0, 1, 2, 3, 4] [Struct [], Struct [], Struct [], Struct [], Struct []]"
definition wire_kernel_dal_chunk_pointer :: schema where
  "wire_kernel_dal_chunk_pointer = Struct [wire_u64_le, Byte, wire_u64_le]"
definition wire_kernel_dal_chunk_list :: schema where
  "wire_kernel_dal_chunk_list = Struct [DynList (Some MAX_DAL_CHUNK_POINTERS) wire_kernel_dal_chunk_pointer]"
definition wire_kernel_dal_payload_pointer :: schema where
  "wire_kernel_dal_payload_pointer =
     Struct [wire_kernel_dal_payload_kind, wire_encoded_dal_chunk_list, wire_felt, wire_u64_le]"
definition wire_unshield_resp :: schema where "wire_unshield_resp = Struct [Optional wire_u64_le, wire_u64_le]"
definition wire_error_message :: schema where "wire_error_message = Struct [Text MAX_ERROR_MESSAGE_BYTES]"
definition wire_account_id :: schema where "wire_account_id = Struct [Text MAX_ACCOUNT_ID_BYTES]"
definition wire_optional_encoded_note :: schema where
  "wire_optional_encoded_note = Struct [Optional wire_encoded_note]"
definition wire_kernel_inbox_message :: schema where
  "wire_kernel_inbox_message = Tagged [0, 1, 2, 3, 4, 6]
     [wire_signed_kernel_verifier_config, wire_signed_kernel_bridge_config, wire_kernel_shield_req,
      wire_kernel_transfer_req, wire_kernel_unshield_req, wire_kernel_dal_payload_pointer]"
definition wire_kernel_inbox_envelope :: schema where
  "wire_kernel_inbox_envelope = Struct [wire_u16_le, wire_kernel_inbox_message]"
definition wire_kernel_result :: schema where
  "wire_kernel_result = Tagged [0, 1, 2, 3, 4, 255]
     [Struct [], Struct [], wire_shield_resp, wire_transfer_resp, wire_unshield_resp, wire_error_message]"
definition wire_kernel_result_envelope :: schema where
  "wire_kernel_result_envelope = Struct [wire_u16_le, wire_kernel_result]"

section \<open>Proofs\<close>

text \<open>Readers of a byte slice return what they took and the rest.\<close>

definition take_bytes :: "bytes \<Rightarrow> nat \<Rightarrow> string \<Rightarrow> (bytes \<times> bytes) res" where
  "take_bytes bs len label =
     attempt (guard (\<not> length bs < len)
       (''kernel proof payload truncated while reading '' @ label @ '': need '' @ show_nat len
        @ '' bytes, have '' @ show_nat (length bs))) (\<lambda>_.
     Inr (take len bs, drop len bs))"

definition take_u32_be_len :: "'x ext_scheme \<Rightarrow> bytes \<Rightarrow> string \<Rightarrow> (nat \<times> bytes) res" where
  "take_u32_be_len X bs label =
     attempt (take_bytes bs 4 label) (\<lambda>(raw, rest).
     Inr (unat (from_be raw :: u32) mod 2 ^ usize_bits X, rest))"

definition proof_too_large :: "nat \<Rightarrow> string" where
  "proof_too_large n = ''proof too large for kernel wire: '' @ show_nat n @ '' > '' @ show_nat MAX_PROOF_BYTES"

definition preimage_too_long :: "nat \<Rightarrow> string" where
  "preimage_too_long n =
     ''output_preimage too long for kernel wire: '' @ show_nat n @ '' > '' @ show_nat MAX_OUTPUT_PREIMAGE_ITEMS"

definition kernel_proof_to_wire :: "kernel_stark_proof \<Rightarrow> bytes res" where
  "kernel_proof_to_wire pf =
     attempt (guard (\<not> MAX_PROOF_BYTES < length (kp_proof_bytes pf))
       (proof_too_large (length (kp_proof_bytes pf)))) (\<lambda>_.
     attempt (guard (\<not> MAX_OUTPUT_PREIMAGE_ITEMS < length (kp_output_preimage pf))
       (preimage_too_long (length (kp_output_preimage pf)))) (\<lambda>_.
     Inr (to_be 4 (word_of_nat (length (kp_proof_bytes pf)) :: u32) @ kp_proof_bytes pf
          @ to_be 4 (word_of_nat (length (kp_output_preimage pf)) :: u32) @ concat (kp_output_preimage pf))))"

fun take_felts :: "nat \<Rightarrow> bytes \<Rightarrow> (felt list \<times> bytes) res" where
  "take_felts 0 bs = Inr ([], bs)"
| "take_felts (Suc n) bs =
     attempt (take_bytes bs 32 ''output_preimage felt'') (\<lambda>(f, rest).
     attempt (take_felts n rest) (\<lambda>(fs, rest'). Inr (f # fs, rest')))"

definition kernel_proof_from_wire :: "'x ext_scheme \<Rightarrow> bytes \<Rightarrow> kernel_stark_proof res" where
  "kernel_proof_from_wire X bs =
     attempt (take_u32_be_len X bs ''proof_bytes length'') (\<lambda>(proof_len, rest).
     attempt (guard (\<not> MAX_PROOF_BYTES < proof_len) (proof_too_large proof_len)) (\<lambda>_.
     attempt (take_bytes rest proof_len ''proof_bytes'') (\<lambda>(proof_bytes, rest).
     attempt (take_u32_be_len X rest ''output_preimage length'') (\<lambda>(output_preimage_len, rest).
     attempt (guard (\<not> MAX_OUTPUT_PREIMAGE_ITEMS < output_preimage_len)
       (preimage_too_long output_preimage_len)) (\<lambda>_.
     attempt (take_felts output_preimage_len rest) (\<lambda>(output_preimage, rest).
     attempt (guard (rest = [])
       (''kernel proof payload left '' @ show_nat (length rest) @ '' trailing bytes'')) (\<lambda>_.
     Inr \<lparr>kp_proof_bytes = proof_bytes, kp_output_preimage = output_preimage\<rparr>)))))))"

definition kernel_proof_to_host :: "kernel_stark_proof \<Rightarrow> tx_proof" where
  "kernel_proof_to_host pf = Stark (kp_proof_bytes pf) (kp_output_preimage pf)"

definition kernel_shield_req_to_host :: "kernel_shield_req \<Rightarrow> shield_req" where
  "kernel_shield_req_to_host req = \<lparr>sr_pubkey_hash = ks_pubkey_hash req, sr_fee = ks_fee req, sr_v = ks_v req,
     sr_producer_fee = ks_producer_fee req, sr_proof = kernel_proof_to_host (ks_proof req),
     sr_client_cm = ks_client_cm req, sr_client_enc = ks_client_enc req,
     sr_producer_cm = ks_producer_cm req, sr_producer_enc = ks_producer_enc req\<rparr>"

definition kernel_transfer_req_to_host :: "kernel_transfer_req \<Rightarrow> transfer_req" where
  "kernel_transfer_req_to_host req = \<lparr>tr_root = kt_root req, tr_nullifiers = kt_nullifiers req, tr_fee = kt_fee req,
     tr_cm_1 = kt_cm_1 req, tr_cm_2 = kt_cm_2 req, tr_cm_3 = kt_cm_3 req,
     tr_enc_1 = kt_enc_1 req, tr_enc_2 = kt_enc_2 req, tr_enc_3 = kt_enc_3 req,
     tr_proof = kernel_proof_to_host (kt_proof req)\<rparr>"

definition kernel_unshield_req_to_host :: "kernel_unshield_req \<Rightarrow> unshield_req" where
  "kernel_unshield_req_to_host req = \<lparr>ur_root = ku_root req, ur_nullifiers = ku_nullifiers req,
     ur_v_pub = ku_v_pub req, ur_fee = ku_fee req, ur_recipient = ku_recipient req,
     ur_cm_change = ku_cm_change req, ur_enc_change = ku_enc_change req,
     ur_cm_fee = ku_cm_fee req, ur_enc_fee = ku_enc_fee req, ur_proof = kernel_proof_to_host (ku_proof req)\<rparr>"

section \<open>Parts of messages\<close>

definition program_hashes_to_wire :: "program_hashes \<Rightarrow> wire" where
  "program_hashes_to_wire hs =
     WFields [felt_to_wire (ph_shield hs), felt_to_wire (ph_transfer hs), felt_to_wire (ph_unshield hs)]"

definition program_hashes_from_wire :: "wire \<Rightarrow> program_hashes res" where
  "program_hashes_from_wire w =
     (case w of WFields [a, b, c] \<Rightarrow>
        attempt (wire_to_felt a) (\<lambda>shield.
        attempt (wire_to_felt b) (\<lambda>transfer.
        attempt (wire_to_felt c) (\<lambda>unshield.
        Inr \<lparr>ph_shield = shield, ph_transfer = transfer, ph_unshield = unshield\<rparr>)))
      | _ \<Rightarrow> ill_typed)"

definition encrypted_note_to_wire :: "encrypted_note \<Rightarrow> wire res" where
  "encrypted_note_to_wire enc = attempt (note_validate enc) (\<lambda>_. Inr (note_to_wire enc))"

definition encrypted_note_from_wire :: "wire \<Rightarrow> encrypted_note res" where
  "encrypted_note_from_wire w = wire_to_note w"

definition encoded_note_to_wire :: "'x ext_scheme \<Rightarrow> encrypted_note \<Rightarrow> wire res" where
  "encoded_note_to_wire X enc =
     attempt (encrypted_note_to_wire enc) (\<lambda>w.
     attempt (encode_tze X wire_encrypted_note w) (\<lambda>b. Inr (WFields [WBytes b])))"

definition encoded_note_from_wire :: "'x ext_scheme \<Rightarrow> wire \<Rightarrow> encrypted_note res" where
  "encoded_note_from_wire X w =
     (case w of WFields [WBytes b] \<Rightarrow> attempt (decode_tze X wire_encrypted_note b) encrypted_note_from_wire
      | _ \<Rightarrow> ill_typed)"

definition encoded_proof_to_wire :: "kernel_stark_proof \<Rightarrow> wire res" where
  "encoded_proof_to_wire pf = attempt (kernel_proof_to_wire pf) (\<lambda>b. Inr (WFields [WBytes b]))"

definition encoded_proof_from_wire :: "'x ext_scheme \<Rightarrow> wire \<Rightarrow> kernel_stark_proof res" where
  "encoded_proof_from_wire X w = (case w of WFields [WBytes b] \<Rightarrow> kernel_proof_from_wire X b | _ \<Rightarrow> ill_typed)"

definition encoded_felt_list_to_wire :: "'x ext_scheme \<Rightarrow> felt list \<Rightarrow> wire res" where
  "encoded_felt_list_to_wire X fs =
     attempt (encode_tze X wire_felt_list (WFields [WList (map felt_to_wire fs)])) (\<lambda>b. Inr (WFields [WBytes b]))"

definition encoded_felt_list_from_wire :: "'x ext_scheme \<Rightarrow> wire \<Rightarrow> felt list res" where
  "encoded_felt_list_from_wire X w =
     (case w of WFields [WBytes b] \<Rightarrow>
        attempt (decode_tze X wire_felt_list b) (\<lambda>inner.
        case inner of WFields [WList items] \<Rightarrow> map_res wire_to_felt items | _ \<Rightarrow> ill_typed)
      | _ \<Rightarrow> ill_typed)"


section \<open>Configurations\<close>

definition config_to_wire :: "kernel_verifier_config \<Rightarrow> wire" where
  "config_to_wire config =
     WFields [felt_to_wire (kv_auth_domain config), program_hashes_to_wire (kv_verified_program_hashes config)]"

definition config_from_wire :: "wire \<Rightarrow> kernel_verifier_config res" where
  "config_from_wire w =
     (case w of WFields [a, b] \<Rightarrow>
        attempt (wire_to_felt a) (\<lambda>auth_domain.
        attempt (program_hashes_from_wire b) (\<lambda>hashes.
        Inr \<lparr>kv_auth_domain = auth_domain, kv_verified_program_hashes = hashes\<rparr>))
      | _ \<Rightarrow> ill_typed)"

definition signed_config_to_wire :: "'x ext_scheme \<Rightarrow> kernel_signed_verifier_config \<Rightarrow> wire res" where
  "signed_config_to_wire X c =
     attempt (encoded_felt_list_to_wire X (sv_signature c)) (\<lambda>sig.
     Inr (WFields [config_to_wire (sv_config c), sig]))"

definition signed_config_from_wire :: "'x ext_scheme \<Rightarrow> wire \<Rightarrow> kernel_signed_verifier_config res" where
  "signed_config_from_wire X w =
     (case w of WFields [a, b] \<Rightarrow>
        attempt (config_from_wire a) (\<lambda>config.
        attempt (encoded_felt_list_from_wire X b) (\<lambda>signature.
        Inr \<lparr>sv_config = config, sv_signature = signature\<rparr>))
      | _ \<Rightarrow> ill_typed)"

definition bridge_config_to_wire :: "kernel_bridge_config \<Rightarrow> wire" where
  "bridge_config_to_wire config = WFields [WText (kb_ticketer config)]"

definition bridge_config_from_wire :: "wire \<Rightarrow> kernel_bridge_config res" where
  "bridge_config_from_wire w = (case w of WFields [WText t] \<Rightarrow> Inr \<lparr>kb_ticketer = t\<rparr> | _ \<Rightarrow> ill_typed)"

definition signed_bridge_config_to_wire :: "'x ext_scheme \<Rightarrow> kernel_signed_bridge_config \<Rightarrow> wire res" where
  "signed_bridge_config_to_wire X c =
     attempt (encoded_felt_list_to_wire X (sb_signature c)) (\<lambda>sig.
     Inr (WFields [bridge_config_to_wire (sb_config c), sig]))"

definition signed_bridge_config_from_wire :: "'x ext_scheme \<Rightarrow> wire \<Rightarrow> kernel_signed_bridge_config res" where
  "signed_bridge_config_from_wire X w =
     (case w of WFields [a, b] \<Rightarrow>
        attempt (bridge_config_from_wire a) (\<lambda>config.
        attempt (encoded_felt_list_from_wire X b) (\<lambda>signature.
        Inr \<lparr>sb_config = config, sb_signature = signature\<rparr>))
      | _ \<Rightarrow> ill_typed)"

definition encode_kernel_verifier_config :: "'x ext_scheme \<Rightarrow> kernel_verifier_config \<Rightarrow> bytes res" where
  "encode_kernel_verifier_config X config = encode_tze X wire_kernel_verifier_config (config_to_wire config)"

definition decode_kernel_verifier_config :: "'x ext_scheme \<Rightarrow> bytes \<Rightarrow> kernel_verifier_config res" where
  "decode_kernel_verifier_config X bs = attempt (decode_tze X wire_kernel_verifier_config bs) config_from_wire"

definition kernel_verifier_config_sighash :: "'x ext_scheme \<Rightarrow> kernel_verifier_config \<Rightarrow> felt res" where
  "kernel_verifier_config_sighash X config =
     attempt (encode_kernel_verifier_config X config) (\<lambda>encoded.
     Inr (hash X (as_bytes ''tzel-config-verifier'' @ encoded)))"

definition kernel_bridge_config_sighash :: "'x ext_scheme \<Rightarrow> kernel_bridge_config \<Rightarrow> felt res" where
  "kernel_bridge_config_sighash X config =
     attempt (encode_tze X wire_kernel_bridge_config (bridge_config_to_wire config)) (\<lambda>encoded.
     Inr (hash X (as_bytes ''tzel-config-bridge'' @ encoded)))"

definition sign_kernel_verifier_config ::
  "'x ext_scheme \<Rightarrow> felt \<Rightarrow> kernel_verifier_config \<Rightarrow> kernel_signed_verifier_config res" where
  "sign_kernel_verifier_config X ask config =
     attempt (kernel_verifier_config_sighash X config) (\<lambda>sighash.
     Inr \<lparr>sv_config = config,
          sv_signature = fst (wots_sign X ask KERNEL_VERIFIER_CONFIG_KEY_INDEX sighash)\<rparr>)"

definition sign_kernel_bridge_config ::
  "'x ext_scheme \<Rightarrow> felt \<Rightarrow> kernel_bridge_config \<Rightarrow> kernel_signed_bridge_config res" where
  "sign_kernel_bridge_config X ask config =
     attempt (kernel_bridge_config_sighash X config) (\<lambda>sighash.
     Inr \<lparr>sb_config = config,
          sb_signature = fst (wots_sign X ask KERNEL_BRIDGE_CONFIG_KEY_INDEX sighash)\<rparr>)"

section \<open>Data-availability pointers\<close>

definition kernel_dal_payload_kind_to_wire :: "kernel_dal_payload_kind \<Rightarrow> wire" where
  "kernel_dal_payload_kind_to_wire kind =
     WTag (case kind of DalShield \<Rightarrow> 0 | DalTransfer \<Rightarrow> 1 | DalUnshield \<Rightarrow> 2
           | DalConfigureVerifier \<Rightarrow> 3 | DalConfigureBridge \<Rightarrow> 4) (WFields [])"

definition kernel_dal_payload_kind_from_wire :: "wire \<Rightarrow> kernel_dal_payload_kind res" where
  "kernel_dal_payload_kind_from_wire w =
     (case w of WTag t (WFields []) \<Rightarrow>
        if t = 0 then Inr DalShield else if t = 1 then Inr DalTransfer else if t = 2 then Inr DalUnshield
        else if t = 3 then Inr DalConfigureVerifier else if t = 4 then Inr DalConfigureBridge else ill_typed
      | _ \<Rightarrow> ill_typed)"

definition kernel_dal_chunk_pointer_to_wire :: "kernel_dal_chunk_pointer \<Rightarrow> wire" where
  "kernel_dal_chunk_pointer_to_wire pointer =
     WFields [u64_to_wire (dc_published_level pointer), WByte (dc_slot_index pointer),
              u64_to_wire (dc_payload_len pointer)]"

definition kernel_dal_chunk_pointer_from_wire :: "wire \<Rightarrow> kernel_dal_chunk_pointer res" where
  "kernel_dal_chunk_pointer_from_wire w =
     (case w of WFields [a, WByte slot_index, c] \<Rightarrow>
        attempt (wire_to_u64 a) (\<lambda>published_level.
        attempt (wire_to_u64 c) (\<lambda>payload_len.
        Inr \<lparr>dc_published_level = published_level, dc_slot_index = slot_index, dc_payload_len = payload_len\<rparr>))
      | _ \<Rightarrow> ill_typed)"

definition too_many_chunks :: "nat \<Rightarrow> string" where
  "too_many_chunks n =
     ''kernel DAL pointer has too many chunks: '' @ show_nat n @ '' > '' @ show_nat MAX_DAL_CHUNK_POINTERS"

definition kernel_dal_payload_pointer_to_wire :: "'x ext_scheme \<Rightarrow> kernel_dal_payload_pointer \<Rightarrow> wire res" where
  "kernel_dal_payload_pointer_to_wire X pointer =
     attempt (guard (dl_chunks pointer \<noteq> []) ''kernel DAL pointer requires at least one chunk'') (\<lambda>_.
     attempt (guard (\<not> MAX_DAL_CHUNK_POINTERS < length (dl_chunks pointer))
       (too_many_chunks (length (dl_chunks pointer)))) (\<lambda>_.
     attempt (encode_tze X wire_kernel_dal_chunk_list
                (WFields [WList (map kernel_dal_chunk_pointer_to_wire (dl_chunks pointer))])) (\<lambda>b.
     Inr (WFields [kernel_dal_payload_kind_to_wire (dl_kind pointer), WFields [WBytes b],
                   felt_to_wire (dl_payload_hash pointer), u64_to_wire (dl_payload_len pointer)]))))"

definition kernel_dal_payload_pointer_from_wire :: "'x ext_scheme \<Rightarrow> wire \<Rightarrow> kernel_dal_payload_pointer res" where
  "kernel_dal_payload_pointer_from_wire X w =
     (case w of WFields [wk, WFields [WBytes b], wh, wl] \<Rightarrow>
        attempt (decode_tze X wire_kernel_dal_chunk_list b) (\<lambda>cs.
        case cs of WFields [WList items] \<Rightarrow>
          attempt (guard (items \<noteq> []) ''kernel DAL pointer requires at least one chunk'') (\<lambda>_.
          attempt (guard (\<not> MAX_DAL_CHUNK_POINTERS < length items) (too_many_chunks (length items))) (\<lambda>_.
          attempt (kernel_dal_payload_kind_from_wire wk) (\<lambda>kind.
          attempt (map_res kernel_dal_chunk_pointer_from_wire items) (\<lambda>chunks.
          attempt (wire_to_felt wh) (\<lambda>payload_hash.
          attempt (wire_to_u64 wl) (\<lambda>payload_len.
          Inr \<lparr>dl_kind = kind, dl_chunks = chunks, dl_payload_len = payload_len,
               dl_payload_hash = payload_hash\<rparr>))))))
        | _ \<Rightarrow> ill_typed)
      | _ \<Rightarrow> ill_typed)"

section \<open>Requests\<close>

definition kernel_shield_req_to_wire :: "kernel_shield_req \<Rightarrow> wire res" where
  "kernel_shield_req_to_wire req =
     attempt (encoded_proof_to_wire (ks_proof req)) (\<lambda>wp.
     attempt (encrypted_note_to_wire (ks_client_enc req)) (\<lambda>wc.
     attempt (encrypted_note_to_wire (ks_producer_enc req)) (\<lambda>wr.
     Inr (WFields [felt_to_wire (ks_pubkey_hash req), u64_to_wire (ks_fee req), u64_to_wire (ks_v req),
            u64_to_wire (ks_producer_fee req), wp, felt_to_wire (ks_client_cm req), wc,
            felt_to_wire (ks_producer_cm req), wr]))))"

definition kernel_shield_req_from_wire :: "'x ext_scheme \<Rightarrow> wire \<Rightarrow> kernel_shield_req res" where
  "kernel_shield_req_from_wire X w =
     (case w of WFields [w1, w2, w3, w4, w5, w6, w7, w8, w9] \<Rightarrow>
        attempt (wire_to_felt w1) (\<lambda>pubkey_hash.
        attempt (wire_to_u64 w2) (\<lambda>fee.
        attempt (wire_to_u64 w3) (\<lambda>v.
        attempt (wire_to_u64 w4) (\<lambda>producer_fee.
        attempt (encoded_proof_from_wire X w5) (\<lambda>pf.
        attempt (wire_to_felt w6) (\<lambda>client_cm.
        attempt (encrypted_note_from_wire w7) (\<lambda>client_enc.
        attempt (wire_to_felt w8) (\<lambda>producer_cm.
        attempt (encrypted_note_from_wire w9) (\<lambda>producer_enc.
        Inr \<lparr>ks_pubkey_hash = pubkey_hash, ks_fee = fee, ks_v = v, ks_producer_fee = producer_fee,
             ks_proof = pf, ks_client_cm = client_cm, ks_client_enc = client_enc,
             ks_producer_cm = producer_cm, ks_producer_enc = producer_enc\<rparr>)))))))))
      | _ \<Rightarrow> ill_typed)"

text \<open>A payload that is the concatenation of separately encoded fields.\<close>

fun encode_fields :: "'x ext_scheme \<Rightarrow> (schema \<times> wire res) list \<Rightarrow> bytes res" where
  "encode_fields X [] = Inr []"
| "encode_fields X ((s, w) # fs) =
     attempt w (\<lambda>v. attempt (encode_tze X s v) (\<lambda>b. attempt (encode_fields X fs) (\<lambda>bs. Inr (b @ bs))))"

definition decode_tze_prefix :: "'x ext_scheme \<Rightarrow> schema \<Rightarrow> bytes \<Rightarrow> (bytes \<times> wire) res" where
  "decode_tze_prefix X s bs = ok_or (tze_read X s bs) ''tezos_data_encoding read failed''"

fun decode_fields :: "'x ext_scheme \<Rightarrow> schema list \<Rightarrow> bytes \<Rightarrow> (bytes \<times> wire list) res" where
  "decode_fields X [] bs = Inr (bs, [])"
| "decode_fields X (s # ss) bs =
     attempt (decode_tze_prefix X s bs) (\<lambda>(rest, v).
     attempt (decode_fields X ss rest) (\<lambda>(rest', vs). Inr (rest', v # vs)))"

definition kernel_transfer_req_to_wire :: "'x ext_scheme \<Rightarrow> kernel_transfer_req \<Rightarrow> wire res" where
  "kernel_transfer_req_to_wire X req =
     attempt (encode_fields X
       [(wire_felt, Inr (felt_to_wire (kt_root req))),
        (wire_encoded_felt_list, encoded_felt_list_to_wire X (kt_nullifiers req)),
        (wire_u64_le, Inr (u64_to_wire (kt_fee req))),
        (wire_felt, Inr (felt_to_wire (kt_cm_1 req))),
        (wire_felt, Inr (felt_to_wire (kt_cm_2 req))),
        (wire_felt, Inr (felt_to_wire (kt_cm_3 req))),
        (wire_encoded_proof, encoded_proof_to_wire (kt_proof req)),
        (wire_encoded_note, encoded_note_to_wire X (kt_enc_1 req)),
        (wire_encoded_note, encoded_note_to_wire X (kt_enc_2 req)),
        (wire_encoded_note, encoded_note_to_wire X (kt_enc_3 req))])
     (\<lambda>b. Inr (WFields [WBytes b]))"

definition kernel_transfer_req_from_wire :: "'x ext_scheme \<Rightarrow> wire \<Rightarrow> kernel_transfer_req res" where
  "kernel_transfer_req_from_wire X w =
     (case w of WFields [WBytes b] \<Rightarrow>
        attempt (decode_fields X [wire_felt, wire_encoded_felt_list, wire_u64_le, wire_felt, wire_felt, wire_felt,
          wire_encoded_proof, wire_encoded_note, wire_encoded_note, wire_encoded_note] b) (\<lambda>(rest, vs).
        attempt (guard (rest = [])
          (''kernel transfer payload left '' @ show_nat (length rest) @ '' trailing bytes'')) (\<lambda>_.
        case vs of [w1, w2, w3, w4, w5, w6, w7, w8, w9, w10] \<Rightarrow>
          attempt (wire_to_felt w1) (\<lambda>root.
          attempt (encoded_felt_list_from_wire X w2) (\<lambda>nullifiers.
          attempt (wire_to_u64 w3) (\<lambda>fee.
          attempt (wire_to_felt w4) (\<lambda>cm_1.
          attempt (wire_to_felt w5) (\<lambda>cm_2.
          attempt (wire_to_felt w6) (\<lambda>cm_3.
          attempt (encoded_proof_from_wire X w7) (\<lambda>pf.
          attempt (encoded_note_from_wire X w8) (\<lambda>enc_1.
          attempt (encoded_note_from_wire X w9) (\<lambda>enc_2.
          attempt (encoded_note_from_wire X w10) (\<lambda>enc_3.
          Inr \<lparr>kt_root = root, kt_nullifiers = nullifiers, kt_fee = fee, kt_cm_1 = cm_1, kt_cm_2 = cm_2,
               kt_cm_3 = cm_3, kt_enc_1 = enc_1, kt_enc_2 = enc_2, kt_enc_3 = enc_3, kt_proof = pf\<rparr>))))))))))
        | _ \<Rightarrow> ill_typed))
      | _ \<Rightarrow> ill_typed)"

definition optional_note_to_wire :: "'x ext_scheme \<Rightarrow> encrypted_note option \<Rightarrow> wire res" where
  "optional_note_to_wire X enc =
     (case enc of None \<Rightarrow> Inr (WFields [WNone])
      | Some e \<Rightarrow> attempt (encoded_note_to_wire X e) (\<lambda>w. Inr (WFields [WSome w])))"

definition optional_note_from_wire :: "'x ext_scheme \<Rightarrow> wire \<Rightarrow> encrypted_note option res" where
  "optional_note_from_wire X w =
     (case w of WFields [WNone] \<Rightarrow> Inr None
      | WFields [WSome v] \<Rightarrow> attempt (encoded_note_from_wire X v) (\<lambda>e. Inr (Some e))
      | _ \<Rightarrow> ill_typed)"

definition kernel_unshield_req_to_wire :: "'x ext_scheme \<Rightarrow> kernel_unshield_req \<Rightarrow> wire res" where
  "kernel_unshield_req_to_wire X req =
     attempt (encode_fields X
       [(wire_felt, Inr (felt_to_wire (ku_root req))),
        (wire_encoded_felt_list, encoded_felt_list_to_wire X (ku_nullifiers req)),
        (wire_u64_le, Inr (u64_to_wire (ku_v_pub req))),
        (wire_u64_le, Inr (u64_to_wire (ku_fee req))),
        (wire_account_id, Inr (WFields [WText (ku_recipient req)])),
        (wire_felt, Inr (felt_to_wire (ku_cm_change req))),
        (wire_encoded_proof, encoded_proof_to_wire (ku_proof req)),
        (wire_optional_encoded_note, optional_note_to_wire X (ku_enc_change req)),
        (wire_felt, Inr (felt_to_wire (ku_cm_fee req))),
        (wire_encoded_note, encoded_note_to_wire X (ku_enc_fee req))])
     (\<lambda>b. Inr (WFields [WBytes b]))"

definition kernel_unshield_req_from_wire :: "'x ext_scheme \<Rightarrow> wire \<Rightarrow> kernel_unshield_req res" where
  "kernel_unshield_req_from_wire X w =
     (case w of WFields [WBytes b] \<Rightarrow>
        attempt (decode_fields X [wire_felt, wire_encoded_felt_list, wire_u64_le, wire_u64_le, wire_account_id,
          wire_felt, wire_encoded_proof, wire_optional_encoded_note, wire_felt, wire_encoded_note] b) (\<lambda>(rest, vs).
        attempt (guard (rest = [])
          (''kernel unshield payload left '' @ show_nat (length rest) @ '' trailing bytes'')) (\<lambda>_.
        case vs of [w1, w2, w3, w4, WFields [WText recipient], w6, w7, w8, w9, w10] \<Rightarrow>
          attempt (wire_to_felt w1) (\<lambda>root.
          attempt (encoded_felt_list_from_wire X w2) (\<lambda>nullifiers.
          attempt (wire_to_u64 w3) (\<lambda>v_pub.
          attempt (wire_to_u64 w4) (\<lambda>fee.
          attempt (wire_to_felt w6) (\<lambda>cm_change.
          attempt (encoded_proof_from_wire X w7) (\<lambda>pf.
          attempt (optional_note_from_wire X w8) (\<lambda>enc_change.
          attempt (wire_to_felt w9) (\<lambda>cm_fee.
          attempt (encoded_note_from_wire X w10) (\<lambda>enc_fee.
          Inr \<lparr>ku_root = root, ku_nullifiers = nullifiers, ku_v_pub = v_pub, ku_fee = fee, ku_recipient = recipient,
               ku_cm_change = cm_change, ku_enc_change = enc_change, ku_cm_fee = cm_fee, ku_enc_fee = enc_fee,
               ku_proof = pf\<rparr>)))))))))
        | _ \<Rightarrow> ill_typed))
      | _ \<Rightarrow> ill_typed)"

section \<open>Responses\<close>

definition usize_to_wire :: "nat \<Rightarrow> string \<Rightarrow> wire res" where
  "usize_to_wire i label =
     attempt (guard (i < 2 ^ 64) (label @ '' does not fit in u64'')) (\<lambda>_. Inr (u64_to_wire (word_of_nat i)))"

definition usize_from_wire :: "'x ext_scheme \<Rightarrow> wire \<Rightarrow> string \<Rightarrow> nat res" where
  "usize_from_wire X w label =
     attempt (wire_to_u64 w) (\<lambda>v.
     attempt (guard (unat v < 2 ^ usize_bits X) (label @ '' does not fit in usize'')) (\<lambda>_. Inr (unat v)))"

definition shield_resp_to_wire :: "shield_resp \<Rightarrow> wire res" where
  "shield_resp_to_wire resp =
     attempt (usize_to_wire (ss_index resp) ''shield index'') (\<lambda>wi.
     attempt (usize_to_wire (ss_producer_index resp) ''shield producer_index'') (\<lambda>wp.
     Inr (WFields [felt_to_wire (ss_cm resp), wi, felt_to_wire (ss_producer_cm resp), wp])))"

definition shield_resp_from_wire :: "'x ext_scheme \<Rightarrow> wire \<Rightarrow> shield_resp res" where
  "shield_resp_from_wire X w =
     (case w of WFields [a, b, c, d] \<Rightarrow>
        attempt (wire_to_felt a) (\<lambda>cm.
        attempt (usize_from_wire X b ''shield index'') (\<lambda>i.
        attempt (wire_to_felt c) (\<lambda>producer_cm.
        attempt (usize_from_wire X d ''shield producer_index'') (\<lambda>producer_index.
        Inr \<lparr>ss_cm = cm, ss_index = i, ss_producer_cm = producer_cm, ss_producer_index = producer_index\<rparr>))))
      | _ \<Rightarrow> ill_typed)"

definition transfer_resp_to_wire :: "transfer_resp \<Rightarrow> wire res" where
  "transfer_resp_to_wire resp =
     attempt (usize_to_wire (ts_index_1 resp) ''transfer index_1'') (\<lambda>a.
     attempt (usize_to_wire (ts_index_2 resp) ''transfer index_2'') (\<lambda>b.
     attempt (usize_to_wire (ts_index_3 resp) ''transfer index_3'') (\<lambda>c.
     Inr (WFields [a, b, c]))))"

definition transfer_resp_from_wire :: "'x ext_scheme \<Rightarrow> wire \<Rightarrow> transfer_resp res" where
  "transfer_resp_from_wire X w =
     (case w of WFields [a, b, c] \<Rightarrow>
        attempt (usize_from_wire X a ''transfer index_1'') (\<lambda>i.
        attempt (usize_from_wire X b ''transfer index_2'') (\<lambda>j.
        attempt (usize_from_wire X c ''transfer index_3'') (\<lambda>k.
        Inr \<lparr>ts_index_1 = i, ts_index_2 = j, ts_index_3 = k\<rparr>)))
      | _ \<Rightarrow> ill_typed)"

definition unshield_resp_to_wire :: "unshield_resp \<Rightarrow> wire res" where
  "unshield_resp_to_wire resp =
     attempt (case us_change_index resp of None \<Rightarrow> Inr WNone
              | Some i \<Rightarrow> attempt (usize_to_wire i ''change index'') (\<lambda>w. Inr (WSome w))) (\<lambda>a.
     attempt (usize_to_wire (us_producer_index resp) ''producer index'') (\<lambda>b.
     Inr (WFields [a, b])))"

definition unshield_resp_from_wire :: "'x ext_scheme \<Rightarrow> wire \<Rightarrow> unshield_resp res" where
  "unshield_resp_from_wire X w =
     (case w of WFields [a, b] \<Rightarrow>
        attempt (case a of WNone \<Rightarrow> Inr None
                 | WSome v \<Rightarrow> attempt (usize_from_wire X v ''change index'') (\<lambda>i. Inr (Some i))
                 | _ \<Rightarrow> ill_typed) (\<lambda>change_index.
        attempt (usize_from_wire X b ''producer index'') (\<lambda>producer_index.
        Inr \<lparr>us_change_index = change_index, us_producer_index = producer_index\<rparr>))
      | _ \<Rightarrow> ill_typed)"

section \<open>Envelopes\<close>

definition inbox_message_to_wire :: "'x ext_scheme \<Rightarrow> kernel_inbox_message \<Rightarrow> wire res" where
  "inbox_message_to_wire X message =
     (case message of
        MConfigureVerifier cfg \<Rightarrow> attempt (signed_config_to_wire X cfg) (\<lambda>w. Inr (WTag 0 w))
      | MConfigureBridge cfg \<Rightarrow> attempt (signed_bridge_config_to_wire X cfg) (\<lambda>w. Inr (WTag 1 w))
      | MShield req \<Rightarrow> attempt (kernel_shield_req_to_wire req) (\<lambda>w. Inr (WTag 2 w))
      | MTransfer req \<Rightarrow> attempt (kernel_transfer_req_to_wire X req) (\<lambda>w. Inr (WTag 3 w))
      | MUnshield req \<Rightarrow> attempt (kernel_unshield_req_to_wire X req) (\<lambda>w. Inr (WTag 4 w))
      | MDalPointer pointer \<Rightarrow> attempt (kernel_dal_payload_pointer_to_wire X pointer) (\<lambda>w. Inr (WTag 6 w)))"

definition encode_kernel_inbox_message :: "'x ext_scheme \<Rightarrow> kernel_inbox_message \<Rightarrow> bytes res" where
  "encode_kernel_inbox_message X message =
     attempt (inbox_message_to_wire X message) (\<lambda>w.
     encode_tze X wire_kernel_inbox_envelope (WFields [u16_to_wire KERNEL_WIRE_VERSION, w]))"

definition inbox_message_from_wire :: "'x ext_scheme \<Rightarrow> wire \<Rightarrow> kernel_inbox_message res" where
  "inbox_message_from_wire X m =
     (case m of WTag t w \<Rightarrow>
        if t = 0 then attempt (signed_config_from_wire X w) (\<lambda>c. Inr (MConfigureVerifier c))
        else if t = 1 then attempt (signed_bridge_config_from_wire X w) (\<lambda>c. Inr (MConfigureBridge c))
        else if t = 2 then attempt (kernel_shield_req_from_wire X w) (\<lambda>r. Inr (MShield r))
        else if t = 3 then attempt (kernel_transfer_req_from_wire X w) (\<lambda>r. Inr (MTransfer r))
        else if t = 4 then attempt (kernel_unshield_req_from_wire X w) (\<lambda>r. Inr (MUnshield r))
        else if t = 6 then attempt (kernel_dal_payload_pointer_from_wire X w) (\<lambda>p. Inr (MDalPointer p))
        else ill_typed
      | _ \<Rightarrow> ill_typed)"

definition decode_kernel_inbox_message :: "'x ext_scheme \<Rightarrow> bytes \<Rightarrow> kernel_inbox_message res" where
  "decode_kernel_inbox_message X bs =
     attempt (decode_tze X wire_kernel_inbox_envelope bs) (\<lambda>e.
     case e of WFields [wv, m] \<Rightarrow>
       attempt (wire_to_u16 wv) (\<lambda>version.
       attempt (guard (version = KERNEL_WIRE_VERSION)
         (''unsupported kernel inbox wire version: got '' @ show_word version @ '', expected ''
          @ show_word KERNEL_WIRE_VERSION)) (\<lambda>_.
       inbox_message_from_wire X m))
     | _ \<Rightarrow> ill_typed)"

definition result_to_wire :: "kernel_result \<Rightarrow> wire res" where
  "result_to_wire result =
     (case result of
        RConfigured \<Rightarrow> Inr (WTag 0 (WFields []))
      | RDeposit \<Rightarrow> Inr (WTag 1 (WFields []))
      | RShield resp \<Rightarrow> attempt (shield_resp_to_wire resp) (\<lambda>w. Inr (WTag 2 w))
      | RTransfer resp \<Rightarrow> attempt (transfer_resp_to_wire resp) (\<lambda>w. Inr (WTag 3 w))
      | RUnshield resp \<Rightarrow> attempt (unshield_resp_to_wire resp) (\<lambda>w. Inr (WTag 4 w))
      | RError message \<Rightarrow> Inr (WTag 255 (WFields [WText message])))"

definition encode_kernel_result :: "'x ext_scheme \<Rightarrow> kernel_result \<Rightarrow> bytes res" where
  "encode_kernel_result X result =
     attempt (result_to_wire result) (\<lambda>w.
     encode_tze X wire_kernel_result_envelope (WFields [u16_to_wire KERNEL_WIRE_VERSION, w]))"

definition result_from_wire :: "'x ext_scheme \<Rightarrow> wire \<Rightarrow> kernel_result res" where
  "result_from_wire X r =
     (case r of WTag t w \<Rightarrow>
        if t = 0 then (if w = WFields [] then Inr RConfigured else ill_typed)
        else if t = 1 then (if w = WFields [] then Inr RDeposit else ill_typed)
        else if t = 2 then attempt (shield_resp_from_wire X w) (\<lambda>r. Inr (RShield r))
        else if t = 3 then attempt (transfer_resp_from_wire X w) (\<lambda>r. Inr (RTransfer r))
        else if t = 4 then attempt (unshield_resp_from_wire X w) (\<lambda>r. Inr (RUnshield r))
        else if t = 255 then (case w of WFields [WText m] \<Rightarrow> Inr (RError m) | _ \<Rightarrow> ill_typed)
        else ill_typed
      | _ \<Rightarrow> ill_typed)"

definition decode_kernel_result :: "'x ext_scheme \<Rightarrow> bytes \<Rightarrow> kernel_result res" where
  "decode_kernel_result X bs =
     attempt (decode_tze X wire_kernel_result_envelope bs) (\<lambda>e.
     case e of WFields [wv, r] \<Rightarrow>
       attempt (wire_to_u16 wv) (\<lambda>version.
       attempt (guard (version = KERNEL_WIRE_VERSION)
         (''unsupported kernel result wire version: got '' @ show_word version @ '', expected ''
          @ show_word KERNEL_WIRE_VERSION)) (\<lambda>_.
       result_from_wire X r))
     | _ \<Rightarrow> ill_typed)"

section \<open>What decoding accepts\<close>

text \<open>Decoding and encoding are inverse relations, from the codec of the fields up to the messages.\<close>

lemma encode_tze_SomeD:
  assumes "tze_laws X" "encode_tze X s w = Inr b"
  shows "fits s w" "length b = wire_size s w"
proof -
  have w: "tze_write X s w = Some b" using assms(2) by (simp add: encode_tze_def res_simps)
  then show f: "fits s w" using assms(1) unfolding tze_laws_def by fastforce
  show "length b = wire_size s w" using encode_tze_fits [OF assms(1) f] assms(2) by auto
qed

lemma decode_tze_inverse:
  "tze_laws X \<Longrightarrow> decode_tze X s bs = Inr w \<longleftrightarrow> encode_tze X s w = Inr bs"
  using decode_tze_iff encode_tze_SomeD(1) by metis

lemma decode_tze_prefix_inverse:
  assumes "tze_laws X"
  shows "decode_tze_prefix X s bs = Inr (rest, w) \<longleftrightarrow> (\<exists>b. encode_tze X s w = Inr b \<and> bs = b @ rest)"
proof
  assume "decode_tze_prefix X s bs = Inr (rest, w)"
  then have "tze_read X s bs = Some (rest, w)" by (simp add: decode_tze_prefix_def res_simps)
  then show "\<exists>b. encode_tze X s w = Inr b \<and> bs = b @ rest"
    using assms unfolding tze_laws_def encode_tze_def by fastforce
next
  assume "\<exists>b. encode_tze X s w = Inr b \<and> bs = b @ rest"
  then obtain b where b: "encode_tze X s w = Inr b" "bs = b @ rest" by blast
  then have "fits s w" "tze_write X s w = Some b"
    using encode_tze_SomeD [OF assms] by (auto simp: encode_tze_def res_simps)
  then have "tze_read X s bs = Some (rest, w)" using assms b(2) unfolding tze_laws_def by fastforce
  then show "decode_tze_prefix X s bs = Inr (rest, w)" by (simp add: decode_tze_prefix_def)
qed

lemma decode_fields_inverse:
  assumes "tze_laws X"
  shows "decode_fields X ss bs = Inr (rest, vs) \<longleftrightarrow>
     length vs = length ss \<and> (\<exists>b. encode_fields X (zip ss (map Inr vs)) = Inr b \<and> bs = b @ rest)"
proof (induction ss arbitrary: bs vs)
  case Nil
  show ?case by auto
next
  case (Cons s ss)
  show ?case
    by (cases vs) (simp add: res_simps, fastforce simp: res_simps decode_tze_prefix_inverse [OF assms] Cons.IH)
qed

lemma encode_fields_values:
  "encode_fields X fs = Inr b \<longleftrightarrow>
     (\<exists>vs. map snd fs = map Inr vs \<and> encode_fields X (zip (map fst fs) (map Inr vs)) = Inr b)"
proof (induction fs arbitrary: b)
  case Nil
  show ?case by auto
next
  case (Cons f fs)
  obtain s w where f: "f = (s, w)" by (cases f)
  show ?case
  proof
    assume "encode_fields X (f # fs) = Inr b"
    then obtain v c cs where v: "w = Inr v" "encode_tze X s v = Inr c" "encode_fields X fs = Inr cs" "b = c @ cs"
      by (auto simp: f res_simps)
    with Cons.IH [of cs] obtain vs where "map snd fs = map Inr vs"
      "encode_fields X (zip (map fst fs) (map Inr vs)) = Inr cs" by blast
    with v f show "\<exists>vs. map snd (f # fs) = map Inr vs
        \<and> encode_fields X (zip (map fst (f # fs)) (map Inr vs)) = Inr b"
      by (intro exI [of _ "v # vs"]) simp
  next
    assume "\<exists>vs. map snd (f # fs) = map Inr vs
        \<and> encode_fields X (zip (map fst (f # fs)) (map Inr vs)) = Inr b"
    then show "encode_fields X (f # fs) = Inr b" using Cons.IH by (fastforce simp: f res_simps)
  qed
qed

text \<open>
  A payload of concatenated fields decodes to the values of the fields and nothing else.
\<close>

lemma fields_payload:
  assumes "tze_laws X"
  shows "encode_fields X fs = Inr b \<longleftrightarrow>
     (\<exists>vs. map snd fs = map Inr vs \<and> decode_fields X (map fst fs) b = Inr ([], vs))"
proof -
  have "length vs = length (map fst fs)" if "map snd fs = map Inr vs" for vs :: "wire list"
    using arg_cong [OF that, of length] by simp
  then show ?thesis
    unfolding encode_fields_values [of X fs b] decode_fields_inverse [OF assms] by auto
qed

lemma map_res_inverse:
  assumes "\<And>w x. f w = Inr x \<longleftrightarrow> P x \<and> w = g x"
  shows "map_res f ws = Inr xs \<longleftrightarrow> list_all P xs \<and> ws = map g xs"
proof (induction ws arbitrary: xs)
  case (Cons w ws)
  then show ?case by (cases xs) (auto simp: res_simps assms)
qed auto

subsection \<open>Proofs\<close>

lemma take_bytes_iff: "take_bytes bs n l = Inr (a, r) \<longleftrightarrow> bs = a @ r \<and> length a = n"
  by (auto simp: take_bytes_def res_simps)

definition felts :: "felt list \<Rightarrow> bool" where
  "felts fs = list_all is_felt fs"

lemma felts_simps [simp]: "felts []" "felts (f # fs) \<longleftrightarrow> is_felt f \<and> felts fs"
  by (simp_all add: felts_def)

lemma take_felts_iff: "take_felts n bs = Inr (fs, r) \<longleftrightarrow> length fs = n \<and> felts fs \<and> bs = concat fs @ r"
proof (induction n arbitrary: bs fs)
  case (Suc n)
  show ?case by (cases fs) (auto simp: res_simps take_bytes_iff is_felt_def Suc.IH)
qed auto

lemma take_u32_be_len_iff:
  assumes "32 \<le> usize_bits X"
  shows "take_u32_be_len X bs l = Inr (n, r) \<longleftrightarrow>
     n < 2 ^ 32 \<and> bs = to_be 4 (word_of_nat n :: u32) @ r"
proof -
  have small: "unat (v :: u32) mod 2 ^ usize_bits X = unat v" for v
  proof -
    have "unat v < 2 ^ 32" using unsigned_less [of v, where 'a = nat] by simp
    also have "(2::nat) ^ 32 \<le> 2 ^ usize_bits X" using assms by (rule power_increasing) simp
    finally show ?thesis by simp
  qed
  have inv: "b = to_be 4 (word_of_nat (unat (from_be b :: u32)) :: u32)" if "length b = 4" for b
    using that to_le_from_le_n [of "rev b" 4, where 'a = 32] by (simp add: to_be_def from_be_def rev_swap)
  have "\<exists>b. length b = 4 \<and> to_be 4 (word_of_nat n :: u32) @ r = b @ r \<and> unat (from_be b :: u32) = n" if "n < 2 ^ 32"
    using that by (intro exI [of _ "to_be 4 (word_of_nat n :: u32)"]) (simp add: from_be_to_be unat_of_nat_small)
  moreover have "unat (v :: u32) < 2 ^ 32" for v using unsigned_less [of v, where 'a = nat] by simp
  ultimately show ?thesis
    using inv by (auto simp: take_u32_be_len_def res_simps take_bytes_iff small)
qed

lemma kernel_proof_inverse:
  assumes "32 \<le> usize_bits X"
  shows "kernel_proof_from_wire X bs = Inr pf \<longleftrightarrow>
     felts (kp_output_preimage pf) \<and> kernel_proof_to_wire pf = Inr bs"
  by (cases pf)
    (auto simp: kernel_proof_from_wire_def kernel_proof_to_wire_def res_simps take_bytes_iff take_felts_iff
      take_u32_be_len_iff [OF assms] MAX_PROOF_BYTES_def MAX_OUTPUT_PREIMAGE_ITEMS_def)


subsection \<open>Parts of messages\<close>

text \<open>
  The Rust type of a field element is an array of 32 bytes; the predicates below carry this
  over to the records of the model.
\<close>

definition hashes_typed :: "program_hashes \<Rightarrow> bool" where
  "hashes_typed hs \<longleftrightarrow> is_felt (ph_shield hs) \<and> is_felt (ph_transfer hs) \<and> is_felt (ph_unshield hs)"

definition config_typed :: "kernel_verifier_config \<Rightarrow> bool" where
  "config_typed c \<longleftrightarrow> is_felt (kv_auth_domain c) \<and> hashes_typed (kv_verified_program_hashes c)"

definition proof_typed :: "kernel_stark_proof \<Rightarrow> bool" where
  "proof_typed pf = felts (kp_output_preimage pf)"

fun message_typed :: "kernel_inbox_message \<Rightarrow> bool" where
  "message_typed (MConfigureVerifier c) \<longleftrightarrow> config_typed (sv_config c) \<and> felts (sv_signature c)"
| "message_typed (MConfigureBridge c) \<longleftrightarrow> felts (sb_signature c)"
| "message_typed (MShield r) \<longleftrightarrow> is_felt (ks_pubkey_hash r) \<and> proof_typed (ks_proof r)
     \<and> is_felt (ks_client_cm r) \<and> is_felt (ks_producer_cm r)"
| "message_typed (MTransfer r) \<longleftrightarrow> is_felt (kt_root r) \<and> felts (kt_nullifiers r) \<and> is_felt (kt_cm_1 r)
     \<and> is_felt (kt_cm_2 r) \<and> is_felt (kt_cm_3 r) \<and> proof_typed (kt_proof r)"
| "message_typed (MUnshield r) \<longleftrightarrow> is_felt (ku_root r) \<and> felts (ku_nullifiers r) \<and> is_felt (ku_cm_change r)
     \<and> is_felt (ku_cm_fee r) \<and> proof_typed (ku_proof r)"
| "message_typed (MDalPointer p) \<longleftrightarrow> is_felt (dl_payload_hash p)"

lemma program_hashes_inverse:
  "program_hashes_from_wire w = Inr hs \<longleftrightarrow> hashes_typed hs \<and> w = program_hashes_to_wire hs"
  by (cases hs) (auto simp: program_hashes_from_wire_def program_hashes_to_wire_def hashes_typed_def ill_typed_def
      res_simps wire_to_felt_iff split: wire.splits list.splits)

lemma config_inverse: "config_from_wire w = Inr c \<longleftrightarrow> config_typed c \<and> w = config_to_wire c"
  by (cases c) (auto simp: config_from_wire_def config_to_wire_def config_typed_def ill_typed_def
      res_simps wire_to_felt_iff program_hashes_inverse split: wire.splits list.splits)

lemma encrypted_note_inverse: "encrypted_note_from_wire w = Inr enc \<longleftrightarrow> encrypted_note_to_wire enc = Inr w"
  by (auto simp: encrypted_note_from_wire_def encrypted_note_to_wire_def wire_to_note_iff res_simps)

lemma encoded_note_inverse:
  assumes "tze_laws X"
  shows "encoded_note_from_wire X w = Inr enc \<longleftrightarrow> encoded_note_to_wire X enc = Inr w"
  by (auto simp: encoded_note_from_wire_def encoded_note_to_wire_def ill_typed_def res_simps
      encrypted_note_inverse decode_tze_inverse [OF assms] split: wire.splits list.splits)

lemma optional_note_inverse:
  assumes "tze_laws X"
  shows "optional_note_from_wire X w = Inr enc \<longleftrightarrow> optional_note_to_wire X enc = Inr w"
  by (auto simp: optional_note_from_wire_def optional_note_to_wire_def ill_typed_def res_simps
      encoded_note_inverse [OF assms] split: wire.splits list.splits option.splits)

lemma encoded_proof_inverse:
  assumes "32 \<le> usize_bits X"
  shows "encoded_proof_from_wire X w = Inr pf \<longleftrightarrow> proof_typed pf \<and> encoded_proof_to_wire pf = Inr w"
  by (auto simp: encoded_proof_from_wire_def encoded_proof_to_wire_def ill_typed_def res_simps proof_typed_def
      kernel_proof_inverse [OF assms] split: wire.splits list.splits)

lemma bytes_field:
  "(case w of WFields [WBytes b] \<Rightarrow> f b | _ \<Rightarrow> ill_typed) = Inr x \<longleftrightarrow> (\<exists>b. w = WFields [WBytes b] \<and> f b = Inr x)"
  by (auto simp: ill_typed_def split: wire.splits list.splits)

lemma list_field:
  "(case w of WFields [WList vs] \<Rightarrow> f vs | _ \<Rightarrow> ill_typed) = Inr x \<longleftrightarrow> (\<exists>vs. w = WFields [WList vs] \<and> f vs = Inr x)"
  by (auto simp: ill_typed_def split: wire.splits list.splits)

lemma encoded_felt_list_inverse:
  assumes "tze_laws X"
  shows "encoded_felt_list_from_wire X w = Inr fs \<longleftrightarrow> felts fs \<and> encoded_felt_list_to_wire X fs = Inr w"
  unfolding encoded_felt_list_from_wire_def encoded_felt_list_to_wire_def bytes_field list_field attempt_eq_Inr
    decode_tze_inverse [OF assms] map_res_inverse [OF wire_to_felt_iff] felts_def
  by blast

subsection \<open>Messages\<close>

lemma signed_config_inverse:
  assumes "tze_laws X"
  shows "signed_config_from_wire X w = Inr c \<longleftrightarrow>
     message_typed (MConfigureVerifier c) \<and> signed_config_to_wire X c = Inr w"
  by (cases c) (auto simp: signed_config_from_wire_def signed_config_to_wire_def ill_typed_def res_simps
      config_inverse encoded_felt_list_inverse [OF assms] split: wire.splits list.splits)

lemma signed_bridge_config_inverse:
  assumes "tze_laws X"
  shows "signed_bridge_config_from_wire X w = Inr c \<longleftrightarrow>
     message_typed (MConfigureBridge c) \<and> signed_bridge_config_to_wire X c = Inr w"
proof -
  have "bridge_config_from_wire v = Inr b \<longleftrightarrow> v = bridge_config_to_wire b" for v b
    by (cases b) (auto simp: bridge_config_from_wire_def bridge_config_to_wire_def ill_typed_def
        split: wire.splits list.splits)
  then show ?thesis
    by (cases c) (auto simp: signed_bridge_config_from_wire_def signed_bridge_config_to_wire_def ill_typed_def
        res_simps encoded_felt_list_inverse [OF assms] split: wire.splits list.splits)
qed

lemma dal_kind_inverse: "kernel_dal_payload_kind_from_wire w = Inr k \<longleftrightarrow> w = kernel_dal_payload_kind_to_wire k"
  by (cases k) (auto simp: kernel_dal_payload_kind_from_wire_def kernel_dal_payload_kind_to_wire_def ill_typed_def
      split: wire.splits list.splits if_splits)

lemma dal_chunk_inverse: "kernel_dal_chunk_pointer_from_wire w = Inr c \<longleftrightarrow> True \<and> w = kernel_dal_chunk_pointer_to_wire c"
  by (cases c) (auto simp: kernel_dal_chunk_pointer_from_wire_def kernel_dal_chunk_pointer_to_wire_def ill_typed_def
      res_simps wire_to_u64_iff split: wire.splits list.splits)

lemma dal_pointer_fields:
  "(case w of WFields [wk, WFields [WBytes b], wh, wl] \<Rightarrow> f wk b wh wl | _ \<Rightarrow> ill_typed) = Inr x \<longleftrightarrow>
     (\<exists>wk b wh wl. w = WFields [wk, WFields [WBytes b], wh, wl] \<and> f wk b wh wl = Inr x)"
  by (auto simp: ill_typed_def split: wire.splits list.splits)

lemma dal_pointer_inverse:
  assumes "tze_laws X"
  shows "kernel_dal_payload_pointer_from_wire X w = Inr p \<longleftrightarrow>
     message_typed (MDalPointer p) \<and> kernel_dal_payload_pointer_to_wire X p = Inr w"
  unfolding kernel_dal_payload_pointer_from_wire_def kernel_dal_payload_pointer_to_wire_def dal_pointer_fields
    list_field attempt_eq_Inr guard_eq_Inr wire_to_u64_iff wire_to_felt_iff dal_kind_inverse
    decode_tze_inverse [OF assms] map_res_inverse [OF dal_chunk_inverse] message_typed.simps
  by (cases p) (auto simp: list.pred_True)

lemma shield_req_inverse:
  assumes "32 \<le> usize_bits X"
  shows "kernel_shield_req_from_wire X w = Inr r \<longleftrightarrow>
     message_typed (MShield r) \<and> kernel_shield_req_to_wire r = Inr w"
  by (cases r) (auto simp: kernel_shield_req_from_wire_def kernel_shield_req_to_wire_def ill_typed_def res_simps
      wire_to_u64_iff wire_to_felt_iff encrypted_note_inverse encoded_proof_inverse [OF assms]
      split: wire.splits list.splits)


lemma ten_fields: "length vs = 10 \<longleftrightarrow> (\<exists>a b c d e f g h i j. vs = [a, b, c, d, e, f, g, h, i, j])"
  by (auto simp: length_Suc_conv numeral_eq_Suc)

declare encode_fields.simps [simp del] decode_fields.simps [simp del]

lemma transfer_req_inverse:
  assumes "tze_laws X" "32 \<le> usize_bits X"
  shows "kernel_transfer_req_from_wire X w = Inr r \<longleftrightarrow>
     message_typed (MTransfer r) \<and> kernel_transfer_req_to_wire X r = Inr w"
proof -
  note inverses = wire_to_felt_iff wire_to_u64_iff encoded_felt_list_inverse [OF assms(1)]
    encoded_proof_inverse [OF assms(2)] encoded_note_inverse [OF assms(1)]
  show ?thesis
  proof
    assume dec: "kernel_transfer_req_from_wire X w = Inr r"
    then obtain b vs where w: "w = WFields [WBytes b]"
      and vs: "decode_fields X [wire_felt, wire_encoded_felt_list, wire_u64_le, wire_felt, wire_felt, wire_felt,
            wire_encoded_proof, wire_encoded_note, wire_encoded_note, wire_encoded_note] b = Inr ([], vs)"
      by (auto simp: kernel_transfer_req_from_wire_def bytes_field res_simps)
    then have "length vs = 10" using decode_fields_inverse [OF assms(1)] by auto
    then obtain w1 w2 w3 w4 w5 w6 w7 w8 w9 w10 where vs10: "vs = [w1, w2, w3, w4, w5, w6, w7, w8, w9, w10]"
      unfolding ten_fields by blast
    then show "message_typed (MTransfer r) \<and> kernel_transfer_req_to_wire X r = Inr w"
      using dec vs
      by (auto simp: w kernel_transfer_req_from_wire_def kernel_transfer_req_to_wire_def res_simps
          fields_payload [OF assms(1)] inverses)
  next
    assume "message_typed (MTransfer r) \<and> kernel_transfer_req_to_wire X r = Inr w"
    then show "kernel_transfer_req_from_wire X w = Inr r"
      by (cases r) (auto simp: kernel_transfer_req_from_wire_def kernel_transfer_req_to_wire_def res_simps
          fields_payload [OF assms(1)] inverses Cons_eq_map_conv)
  qed
qed

lemma recipient_field:
  "(case w of WFields [WText t] \<Rightarrow> f t | _ \<Rightarrow> ill_typed) = Inr x \<longleftrightarrow> (\<exists>t. w = WFields [WText t] \<and> f t = Inr x)"
  by (auto simp: ill_typed_def split: wire.splits list.splits)

lemma unshield_req_inverse:
  assumes "tze_laws X" "32 \<le> usize_bits X"
  shows "kernel_unshield_req_from_wire X w = Inr r \<longleftrightarrow>
     message_typed (MUnshield r) \<and> kernel_unshield_req_to_wire X r = Inr w"
proof -
  note inverses = wire_to_felt_iff wire_to_u64_iff encoded_felt_list_inverse [OF assms(1)]
    encoded_proof_inverse [OF assms(2)] encoded_note_inverse [OF assms(1)] optional_note_inverse [OF assms(1)]
  show ?thesis
  proof
    assume dec: "kernel_unshield_req_from_wire X w = Inr r"
    then obtain b vs where w: "w = WFields [WBytes b]"
      and vs: "decode_fields X [wire_felt, wire_encoded_felt_list, wire_u64_le, wire_u64_le, wire_account_id,
          wire_felt, wire_encoded_proof, wire_optional_encoded_note, wire_felt, wire_encoded_note] b = Inr ([], vs)"
      by (auto simp: kernel_unshield_req_from_wire_def bytes_field res_simps)
    then have "length vs = 10" using decode_fields_inverse [OF assms(1)] by auto
    then obtain w1 w2 w3 w4 w5 w6 w7 w8 w9 w10 where vs10: "vs = [w1, w2, w3, w4, w5, w6, w7, w8, w9, w10]"
      unfolding ten_fields by blast
    then show "message_typed (MUnshield r) \<and> kernel_unshield_req_to_wire X r = Inr w"
      using dec vs
      by (auto simp: w kernel_unshield_req_from_wire_def kernel_unshield_req_to_wire_def res_simps
          fields_payload [OF assms(1)] recipient_field inverses)
  next
    assume "message_typed (MUnshield r) \<and> kernel_unshield_req_to_wire X r = Inr w"
    then show "kernel_unshield_req_from_wire X w = Inr r"
      by (cases r) (auto simp: kernel_unshield_req_from_wire_def kernel_unshield_req_to_wire_def res_simps
          fields_payload [OF assms(1)] inverses Cons_eq_map_conv)
  qed
qed

lemma inbox_message_inverse:
  assumes "tze_laws X" "32 \<le> usize_bits X"
  shows "inbox_message_from_wire X w = Inr m \<longleftrightarrow> message_typed m \<and> inbox_message_to_wire X m = Inr w"
  by (auto simp: inbox_message_from_wire_def inbox_message_to_wire_def ill_typed_def res_simps
      signed_config_inverse [OF assms(1)] signed_bridge_config_inverse [OF assms(1)]
      shield_req_inverse [OF assms(2)] transfer_req_inverse [OF assms] unshield_req_inverse [OF assms]
      dal_pointer_inverse [OF assms(1)] split: wire.splits kernel_inbox_message.splits if_splits)

lemma envelope_fields:
  "(case e of WFields [a, b] \<Rightarrow> f a b | _ \<Rightarrow> ill_typed) = Inr x \<longleftrightarrow> (\<exists>a b. e = WFields [a, b] \<and> f a b = Inr x)"
  by (auto simp: ill_typed_def split: wire.splits list.splits)

subsection \<open>Results\<close>

fun result_typed :: "'x ext_scheme \<Rightarrow> kernel_result \<Rightarrow> bool" where
  "result_typed X RConfigured = True"
| "result_typed X RDeposit = True"
| "result_typed X (RShield r) \<longleftrightarrow> is_felt (ss_cm r) \<and> is_felt (ss_producer_cm r)
     \<and> ss_index r < 2 ^ usize_bits X \<and> ss_producer_index r < 2 ^ usize_bits X"
| "result_typed X (RTransfer r) \<longleftrightarrow> ts_index_1 r < 2 ^ usize_bits X \<and> ts_index_2 r < 2 ^ usize_bits X
     \<and> ts_index_3 r < 2 ^ usize_bits X"
| "result_typed X (RUnshield r) \<longleftrightarrow> (case us_change_index r of None \<Rightarrow> True | Some i \<Rightarrow> i < 2 ^ usize_bits X)
     \<and> us_producer_index r < 2 ^ usize_bits X"
| "result_typed X (RError m) = True"

lemma usize_inverse:
  "usize_from_wire X w l = Inr i \<longleftrightarrow> i < 2 ^ usize_bits X \<and> usize_to_wire i l = Inr w"
proof -
  have "unat v < 2 ^ 64" for v :: u64 using unsigned_less [of v, where 'a = nat] by simp
  then show ?thesis
    by (auto simp: usize_from_wire_def usize_to_wire_def res_simps wire_to_u64_iff unat_of_nat_small)
qed

lemma shield_resp_inverse:
  "shield_resp_from_wire X w = Inr r \<longleftrightarrow> result_typed X (RShield r) \<and> shield_resp_to_wire r = Inr w"
  by (cases r) (auto simp: shield_resp_from_wire_def shield_resp_to_wire_def ill_typed_def res_simps wire_to_felt_iff
      usize_inverse split: wire.splits list.splits)

lemma transfer_resp_inverse:
  "transfer_resp_from_wire X w = Inr r \<longleftrightarrow> result_typed X (RTransfer r) \<and> transfer_resp_to_wire r = Inr w"
  by (cases r) (auto simp: transfer_resp_from_wire_def transfer_resp_to_wire_def ill_typed_def res_simps
      usize_inverse split: wire.splits list.splits)

lemma optional_usize_inverse:
  "(case w of WNone \<Rightarrow> Inr None | WSome v \<Rightarrow> attempt (usize_from_wire X v l) (\<lambda>i. Inr (Some i)) | _ \<Rightarrow> ill_typed)
     = Inr i \<longleftrightarrow>
   (case i of None \<Rightarrow> True | Some j \<Rightarrow> j < 2 ^ usize_bits X)
     \<and> (case i of None \<Rightarrow> Inr WNone | Some j \<Rightarrow> attempt (usize_to_wire j l) (\<lambda>v. Inr (WSome v))) = Inr w"
  by (cases w) (auto simp: ill_typed_def res_simps usize_inverse split: option.splits)

lemma unshield_resp_inverse:
  "unshield_resp_from_wire X w = Inr r \<longleftrightarrow> result_typed X (RUnshield r) \<and> unshield_resp_to_wire r = Inr w"
  by (cases r) (auto simp: unshield_resp_from_wire_def unshield_resp_to_wire_def envelope_fields
      optional_usize_inverse attempt_eq_Inr usize_inverse)

lemma ill_typed_neq [simp]: "ill_typed \<noteq> Inr x"
  by (simp add: ill_typed_def)

lemma result_inverse:
  "result_from_wire X w = Inr r \<longleftrightarrow> result_typed X r \<and> result_to_wire r = Inr w"
  by (auto simp: result_from_wire_def result_to_wire_def res_simps recipient_field
      shield_resp_inverse transfer_resp_inverse unshield_resp_inverse
      split: wire.splits kernel_result.splits if_splits)

lemmas kernel_wire_schemas = wire_schemas wire_encoded_dal_chunk_list_def wire_kernel_dal_payload_kind_def
  wire_kernel_dal_chunk_pointer_def wire_kernel_dal_chunk_list_def wire_kernel_dal_payload_pointer_def
  wire_kernel_inbox_message_def wire_kernel_inbox_envelope_def wire_kernel_result_def wire_error_message_def
  wire_kernel_result_envelope_def MAX_DAL_CHUNK_POINTERS_def MAX_DAL_CHUNK_LIST_BYTES_def
  MAX_ERROR_MESSAGE_BYTES_def

lemma utf8_bad: "utf8_valid (as_bytes ''bad'')"
  by code_simp

text \<open>
  The chunk list of a pointer is bounded in bytes, and a chunk takes 17 of them.
\<close>

lemma items_size_chunks [simp]:
  "items_size wire_kernel_dal_chunk_pointer (map kernel_dal_chunk_pointer_to_wire cs) = 17 * length cs"
  by (induction cs) (simp_all add: kernel_wire_schemas kernel_dal_chunk_pointer_to_wire_def u64_to_wire_def)

lemma fits_each_chunks [simp]:
  "fits_each wire_kernel_dal_chunk_pointer (map kernel_dal_chunk_pointer_to_wire cs)"
  by (induction cs) (simp_all add: kernel_wire_schemas kernel_dal_chunk_pointer_to_wire_def u64_to_wire_def)

lemma chunk_list_fits:
  "fits wire_kernel_dal_chunk_list (WFields [WList (map kernel_dal_chunk_pointer_to_wire cs)]) \<longleftrightarrow> length cs \<le> 15"
  "wire_size wire_kernel_dal_chunk_list (WFields [WList (map kernel_dal_chunk_pointer_to_wire cs)]) = 4 + 17 * length cs"
  by (auto simp: wire_kernel_dal_chunk_list_def within_def MAX_DAL_CHUNK_POINTERS_def)

lemma pointer_encodes_iff:
  assumes X: "tze_laws X" and p: "is_felt (dl_payload_hash p)"
  shows "(\<exists>b. encode_kernel_inbox_message X (MDalPointer p) = Inr b) \<longleftrightarrow>
     dl_chunks p \<noteq> [] \<and> length (dl_chunks p) \<le> 15"
proof -
  let ?chunks = "WFields [WList (map kernel_dal_chunk_pointer_to_wire (dl_chunks p))]"
  let ?msg = "\<lambda>c. WFields [u16_to_wire KERNEL_WIRE_VERSION, WTag 6
     (WFields [kernel_dal_payload_kind_to_wire (dl_kind p), WFields [WBytes c], felt_to_wire (dl_payload_hash p),
               u64_to_wire (dl_payload_len p)])]"
  have enc: "encode_kernel_inbox_message X (MDalPointer p) = Inr b \<longleftrightarrow> dl_chunks p \<noteq> []
      \<and> length (dl_chunks p) \<le> 256
      \<and> (\<exists>c. encode_tze X wire_kernel_dal_chunk_list ?chunks = Inr c \<and> encode_tze X wire_kernel_inbox_envelope (?msg c) = Inr b)" for b
    by (auto simp: encode_kernel_inbox_message_def inbox_message_to_wire_def kernel_dal_payload_pointer_to_wire_def
        MAX_DAL_CHUNK_POINTERS_def res_simps)
  have msg: "fits wire_kernel_inbox_envelope (?msg c)" if "length c \<le> 259" for c
    using that p by (cases "dl_kind p") (simp_all add: kernel_wire_schemas kernel_dal_payload_kind_to_wire_def
        u16_to_wire_def u64_to_wire_def felt_to_wire_def within_def is_felt_def)
  show ?thesis
  proof
    assume "\<exists>b. encode_kernel_inbox_message X (MDalPointer p) = Inr b"
    then show "dl_chunks p \<noteq> [] \<and> length (dl_chunks p) \<le> 15"
      using encode_tze_SomeD(1) [OF X, of wire_kernel_dal_chunk_list ?chunks] by (auto simp: enc chunk_list_fits)
  next
    assume cs: "dl_chunks p \<noteq> [] \<and> length (dl_chunks p) \<le> 15"
    then have "fits wire_kernel_dal_chunk_list ?chunks" by (simp add: chunk_list_fits)
    then obtain c where c: "encode_tze X wire_kernel_dal_chunk_list ?chunks = Inr c"
      "length c = wire_size wire_kernel_dal_chunk_list ?chunks"
      by (rule encode_tze_fits [OF X])
    then have "length c \<le> 259" using cs by (simp add: chunk_list_fits)
    obtain b where "encode_tze X wire_kernel_inbox_envelope (?msg c) = Inr b"
      by (rule encode_tze_fits [OF X msg [OF \<open>length c \<le> 259\<close>]])
    then show "\<exists>b. encode_kernel_inbox_message X (MDalPointer p) = Inr b" using c cs enc by auto
  qed
qed

definition sample_pointer :: kernel_dal_payload_pointer where
  "sample_pointer = \<lparr>dl_kind = DalTransfer,
     dl_chunks = [\<lparr>dc_published_level = 7, dc_slot_index = 3, dc_payload_len = 100\<rparr>],
     dl_payload_len = 100, dl_payload_hash = replicate 32 9\<rparr>"

section \<open>Properties\<close>

text \<open>
  C39: the inbox format is canonical. On a target whose \<open>usize\<close> has at least 32 bits, bytes decode
  to a message exactly when they are the encoding of that message and its field elements have 32
  bytes: every message that can be encoded is read back unchanged, and a truncated, extended or
  otherwise altered message, another version or a message over one of the size limits is refused.
\<close>

theorem kernel_inbox_canonical:
  assumes "tze_laws X" "32 \<le> usize_bits X"
  shows "decode_kernel_inbox_message X bs = Inr msg \<longleftrightarrow>
     message_typed msg \<and> encode_kernel_inbox_message X msg = Inr bs"
  unfolding decode_kernel_inbox_message_def encode_kernel_inbox_message_def attempt_eq_Inr envelope_fields
    guard_eq_Inr wire_to_u16_iff inbox_message_inverse [OF assms] decode_tze_inverse [OF assms(1)]
  by blast

theorem kernel_inbox_canonical_witness:
  "\<exists>b. encode_kernel_inbox_message sample_ext (MDalPointer sample_pointer) = Inr b
     \<and> decode_kernel_inbox_message sample_ext b = Inr (MDalPointer sample_pointer)"
proof -
  have "is_felt (dl_payload_hash sample_pointer)" "dl_chunks sample_pointer \<noteq> []" "length (dl_chunks sample_pointer) \<le> 15"
    by (simp_all add: sample_pointer_def is_felt_def)
  moreover from this obtain b where "encode_kernel_inbox_message sample_ext (MDalPointer sample_pointer) = Inr b"
    using pointer_encodes_iff [OF sample_tze_laws] by blast
  ultimately show ?thesis
    using kernel_inbox_canonical [OF sample_tze_laws, of b "MDalPointer sample_pointer"] by (simp add: sample_ext_def)
qed

text \<open>
  The format of results is canonical in the same sense, with indices that fit the target.
\<close>

theorem kernel_result_canonical:
  assumes "tze_laws X"
  shows "decode_kernel_result X bs = Inr result \<longleftrightarrow>
     result_typed X result \<and> encode_kernel_result X result = Inr bs"
  unfolding decode_kernel_result_def encode_kernel_result_def attempt_eq_Inr envelope_fields
    guard_eq_Inr wire_to_u16_iff result_inverse decode_tze_inverse [OF assms]
  by blast

theorem kernel_result_canonical_witness:
  "\<exists>b. encode_kernel_result sample_ext (RError ''bad'') = Inr b
     \<and> decode_kernel_result sample_ext b = Inr (RError ''bad'')"
proof -
  have "fits wire_kernel_result_envelope (WFields [u16_to_wire KERNEL_WIRE_VERSION, WTag 255 (WFields [WText ''bad''])])"
    by (simp add: kernel_wire_schemas u16_to_wire_def within_def utf8_bad)
  then obtain b where "encode_tze sample_ext wire_kernel_result_envelope
     (WFields [u16_to_wire KERNEL_WIRE_VERSION, WTag 255 (WFields [WText ''bad''])]) = Inr b"
    by (rule encode_tze_fits [OF sample_tze_laws])
  then have "encode_kernel_result sample_ext (RError ''bad'') = Inr b"
    by (simp add: encode_kernel_result_def result_to_wire_def)
  then show ?thesis using kernel_result_canonical [OF sample_tze_laws, of _ "RError ''bad''"] by simp
qed

text \<open>
  C40: the bound of 256 declared for the chunk list of a data-availability pointer counts bytes, and
  a chunk takes 17 bytes, so a pointer is encoded exactly when it names between 1 and 15 chunks;
  the separate check for at most 256 chunks never decides.
\<close>

theorem dal_pointer_chunk_limit:
  assumes "tze_laws X" "is_felt (dl_payload_hash p)"
  shows "(\<exists>b. encode_kernel_inbox_message X (MDalPointer p) = Inr b) \<longleftrightarrow>
     1 \<le> length (dl_chunks p) \<and> length (dl_chunks p) \<le> 15"
  using pointer_encodes_iff [OF assms] by (cases "dl_chunks p") auto

theorem dal_pointer_chunk_limit_witness:
  "\<nexists>b. encode_kernel_inbox_message sample_ext
         (MDalPointer (sample_pointer\<lparr>dl_chunks := replicate 16 (hd (dl_chunks sample_pointer))\<rparr>)) = Inr b"
proof -
  let ?p = "sample_pointer\<lparr>dl_chunks := replicate 16 (hd (dl_chunks sample_pointer))\<rparr>"
  have "is_felt (dl_payload_hash ?p)" "length (dl_chunks ?p) = 16" by (simp_all add: sample_pointer_def is_felt_def)
  then show ?thesis using dal_pointer_chunk_limit [OF sample_tze_laws, of ?p] by simp
qed

end
