(* ===== verification/Verifier.thy ===== *)
theory Verifier
  imports KernelWire Host
begin

text \<open>
  The proof verifier the kernel calls (\<open>DirectProofVerifier\<close> in \<open>verifier/src/lib.rs\<close> and the
  replacement the kernel compiles without the feature \<open>proof-verifier\<close>): its modes, the checks
  of the shape of a proof and of its program hash, and the verification of the proof itself,
  which hands the bytes to the third-party STARK verifier and is a parameter. The program
  hashes of the Cairo executables, read from files, are a parameter too.
\<close>

section \<open>The verifier\<close>

text \<open>
  \<open>stark_verify\<close> is \<open>ProofBundle::verify\<close>, \<open>with_proof_verifier\<close> the feature of the build, and
  \<open>executable_hashes\<close> the result of \<open>load_program_hashes\<close> on a directory.
\<close>

record verify_env = host_env +
  stark_verify :: "bytes \<Rightarrow> felt list \<Rightarrow> unit res"
  with_proof_verifier :: bool
  executable_hashes :: "string \<Rightarrow> program_hashes res"

record direct_proof_verifier =
  dv_allow_trust_me_bro :: bool
  dv_verified_mode :: "program_hashes option"

definition trust_me_bro_only :: direct_proof_verifier where
  "trust_me_bro_only = \<lparr>dv_allow_trust_me_bro = True, dv_verified_mode = None\<rparr>"

definition verified :: "bool \<Rightarrow> program_hashes \<Rightarrow> direct_proof_verifier" where
  "verified allow_trust_me_bro hashes =
     \<lparr>dv_allow_trust_me_bro = allow_trust_me_bro, dv_verified_mode = Some hashes\<rparr>"

definition from_executables_dir :: "'x verify_env_scheme \<Rightarrow> bool \<Rightarrow> string \<Rightarrow> direct_proof_verifier res" where
  "from_executables_dir E allow_trust_me_bro executables_dir =
     attempt (executable_hashes E executables_dir) (\<lambda>hashes. Inr (verified allow_trust_me_bro hashes))"

definition from_kernel_config :: "'x verify_env_scheme \<Rightarrow> kernel_verifier_config \<Rightarrow> direct_proof_verifier res" where
  "from_kernel_config E config =
     (if with_proof_verifier E then Inr (verified False (kv_verified_program_hashes config))
      else Inl (Err ''kernel built without proof verifier support''))"

definition check_proof_shape :: "tx_proof \<Rightarrow> bool \<Rightarrow> bool \<Rightarrow> unit res" where
  "check_proof_shape pf allow_trust_me_bro verified_mode =
     (case pf of
        TrustMeBro \<Rightarrow>
          guard allow_trust_me_bro ''TrustMeBro proofs rejected. Verified mode requires real STARK proofs.''
      | Stark proof_bytes output_preimage \<Rightarrow>
          attempt (guard verified_mode
            ''Stark proofs rejected: verifier is not configured for verified mode.'') (\<lambda>_.
          attempt (guard (proof_bytes \<noteq> []) ''empty proof'') (\<lambda>_.
          guard (output_preimage \<noteq> []) ''empty output_preimage'')))"

definition validate_stark_circuit :: "'x ext_scheme \<Rightarrow> tx_proof \<Rightarrow> circuit_kind \<Rightarrow> program_hashes \<Rightarrow> unit res" where
  "validate_stark_circuit X pf circuit hashes =
     (case pf of
        TrustMeBro \<Rightarrow> Inr ()
      | Stark _ output_preimage \<Rightarrow>
          map_err (\<lambda>e. ''invalid output_preimage for '' @ circuit_name circuit @ '' circuit: '' @ e)
            (attempt (validate_single_task_program_hash X output_preimage (expected_program_hash circuit hashes))
              (\<lambda>_. Inr ())))"

definition verify_stark_bundle :: "'x verify_env_scheme \<Rightarrow> tx_proof \<Rightarrow> unit res" where
  "verify_stark_bundle E pf =
     (case pf of TrustMeBro \<Rightarrow> Inr () | Stark proof_bytes output_preimage \<Rightarrow> stark_verify E proof_bytes output_preimage)"

definition verifier_validate ::
  "'x verify_env_scheme \<Rightarrow> direct_proof_verifier \<Rightarrow> tx_proof \<Rightarrow> circuit_kind \<Rightarrow> unit res" where
  "verifier_validate E v pf circuit =
     attempt (check_proof_shape pf (dv_allow_trust_me_bro v) (dv_verified_mode v \<noteq> None)) (\<lambda>_.
     case (dv_verified_mode v, pf) of
       (Some hashes, Stark _ _) \<Rightarrow>
         attempt (validate_stark_circuit E pf circuit hashes) (\<lambda>_. verify_stark_bundle E pf)
     | _ \<Rightarrow> Inr ())"

definition validate_kernel ::
  "'x verify_env_scheme \<Rightarrow> direct_proof_verifier \<Rightarrow> kernel_stark_proof \<Rightarrow> circuit_kind \<Rightarrow> unit res" where
  "validate_kernel E v pf circuit =
     (if with_proof_verifier E then verifier_validate E v (kernel_proof_to_host pf) circuit
      else Inl (Err ''kernel built without proof verifier support''))"

section \<open>What is accepted\<close>

lemma validate_kernel_iff:
  "validate_kernel E (verified allow hs) pf circuit = Inr () \<longleftrightarrow>
     with_proof_verifier E \<and> kp_proof_bytes pf \<noteq> [] \<and> kp_output_preimage pf \<noteq> []
     \<and> (\<exists>outs. parse_single_task_output_preimage E (kp_output_preimage pf)
                 = Inr \<lparr>bt_program_hash = expected_program_hash circuit hs, bt_public_outputs = outs\<rparr>)
     \<and> stark_verify E (kp_proof_bytes pf) (kp_output_preimage pf) = Inr ()"
proof -
  have "(\<exists>outs. validate_single_task_program_hash E pre h = Inr outs) \<longleftrightarrow>
      (\<exists>outs. parse_single_task_output_preimage E pre = Inr \<lparr>bt_program_hash = h, bt_public_outputs = outs\<rparr>)" for pre h
  proof
    assume "\<exists>outs. validate_single_task_program_hash E pre h = Inr outs"
    then obtain t where "parse_single_task_output_preimage E pre = Inr t" "bt_program_hash t = h"
      by (auto simp: validate_single_task_program_hash_def res_simps)
    then show "\<exists>outs. parse_single_task_output_preimage E pre = Inr \<lparr>bt_program_hash = h, bt_public_outputs = outs\<rparr>"
      by (cases t) auto
  qed (auto simp: validate_single_task_program_hash_def res_simps)
  then show ?thesis
    by (auto simp: validate_kernel_def verifier_validate_def verified_def kernel_proof_to_host_def
        check_proof_shape_def validate_stark_circuit_def verify_stark_bundle_def res_simps)
qed

text \<open>
  What the verifier of a configured kernel accepts. A proof is accepted for a circuit exactly
  when the build has the verifier, neither the proof nor its output preimage is empty, the preimage
  is the output of a single bootloader task whose program hash is the one configured for the
  circuit, and the STARK verifier accepts the proof for that preimage.
\<close>

theorem kernel_verifier_accepts_iff:
  assumes "from_kernel_config E config = Inr v"
  shows "validate_kernel E v pf circuit = Inr () \<longleftrightarrow>
     kp_proof_bytes pf \<noteq> [] \<and> kp_output_preimage pf \<noteq> []
     \<and> (\<exists>outs. parse_single_task_output_preimage E (kp_output_preimage pf)
           = Inr \<lparr>bt_program_hash = expected_program_hash circuit (kv_verified_program_hashes config),
                  bt_public_outputs = outs\<rparr>)
     \<and> stark_verify E (kp_proof_bytes pf) (kp_output_preimage pf) = Inr ()"
  using assms by (auto simp: from_kernel_config_def validate_kernel_iff split: if_splits)

definition sample_verify_env :: verify_env where
  "sample_verify_env = host_env.extend sample_env
     (verify_env.fields (\<lambda>b pre. if b = [1] then Inr () else Inl (Err ''bad'')) True (\<lambda>_. Inl (Err ''no files'')))"

lemma sample_verify_env_sel [simp]:
  "usize_bits sample_verify_env = usize_bits sample_ext" "hex_encode sample_verify_env = hex_encode sample_ext"
  "with_proof_verifier sample_verify_env"
  "stark_verify sample_verify_env = (\<lambda>b pre. if b = [1] then Inr () else Inl (Err ''bad''))"
  by (simp_all add: sample_verify_env_def sample_env_def ext.defs host_env.defs verify_env.defs sample_ext_def)

theorem kernel_verifier_accepts_iff_witness:
  "validate_kernel sample_verify_env (verified False \<lparr>ph_shield = ZERO, ph_transfer = ZERO, ph_unshield = ZERO\<rparr>)
     \<lparr>kp_proof_bytes = [1], kp_output_preimage = bootloader_layout ZERO []\<rparr> Shield = Inr ()"
proof -
  let ?hs = "\<lparr>ph_shield = ZERO, ph_transfer = ZERO, ph_unshield = ZERO\<rparr>"
  let ?c = "\<lparr>kv_auth_domain = ZERO, kv_verified_program_hashes = ?hs\<rparr>"
  have "validate_single_task_program_hash sample_verify_env (bootloader_layout ZERO []) ZERO = Inr [u64_to_felt 0]"
    using bootloader_layout_parses(2) [of ZERO "[]" sample_verify_env] by (simp add: sample_ext_def)
  then obtain t where t: "parse_single_task_output_preimage sample_verify_env (bootloader_layout ZERO []) = Inr t"
    "bt_program_hash t = ZERO"
    by (auto simp: validate_single_task_program_hash_def res_simps)
  have "from_kernel_config sample_verify_env ?c = Inr (verified False ?hs)" by (simp add: from_kernel_config_def)
  from kernel_verifier_accepts_iff [OF this, of "\<lparr>kp_proof_bytes = [1], kp_output_preimage = bootloader_layout ZERO []\<rparr>" Shield]
  show ?thesis using t by (cases t) (simp add: bootloader_layout_def)
qed

end
