(* ===== verification/Staged.thy ===== *)
theory Staged
  imports Durable
begin

text \<open>
  The staged commits of the rollup kernel (\<open>prepare_durable_shield_commit\<close>,
  \<open>apply_durable_shield_commit\<close> and their unshield counterparts in
  \<open>tezos/rollup-kernel/src/lib.rs\<close>): all reads and everything that can fail come first, on an
  unchanged store, and the writes that follow cannot fail. The staged commits leave the store as
  the generic commits of the core leave it, so they inherit the contract of the ledger.
\<close>

section \<open>Planning\<close>

text \<open>The frontier and the size of the tree, as both commits read and check them.\<close>

definition read_frontier :: "host \<Rightarrow> (felt option list \<times> u64) res" where
  "read_frontier h =
     attempt (map_res (\<lambda>level. read_felt h (branch_path level)) [0..<DEPTH]) (\<lambda>branches.
     attempt (read_count h PATH_TREE_SIZE) (\<lambda>tree_size.
     attempt (assert_frontier_matches_tree_size branches (unat tree_size)) (\<lambda>_.
     Inr (branches, tree_size))))"

text \<open>One planned append: the encoded note, the root and branches it leads to, and its index.\<close>

definition plan_append ::
  "'x ext_scheme \<Rightarrow> felt option list \<Rightarrow> u64 \<Rightarrow> felt \<Rightarrow> encrypted_note \<Rightarrow> (bytes \<times> felt \<times> felt option list) res" where
  "plan_append X branches index cm enc =
     attempt (encode_published_note X cm enc) (\<lambda>encoded.
     attempt (simulate_frontier_append X (zero_hash_list X DEPTH) branches (unat index) cm) (\<lambda>(root, branches').
     Inr (encoded, root, branches')))"

definition index_to_usize :: "'x ext_scheme \<Rightarrow> u64 \<Rightarrow> nat res" where
  "index_to_usize X i =
     attempt (guard (unat i < 2 ^ usize_bits X) ''note index does not fit in usize'') (\<lambda>_. Inr (unat i))"

definition plan_root_marker :: "'x ext_scheme \<Rightarrow> host \<Rightarrow> felt \<Rightarrow> (u64 \<times> felt) option res" where
  "plan_root_marker X h root =
     (if has_marker h (root_marker_path X root) then Inr None
      else attempt (read_count h PATH_VALID_ROOT_COUNT) (\<lambda>index. Inr (Some (index, root))))"

definition branch_values_of :: "felt option list \<Rightarrow> (nat \<times> felt) list" where
  "branch_values_of branches =
     List.map_filter (\<lambda>(level, v). map_option (Pair level) v) (enumerate 0 branches)"

text \<open>The optional change note of an unshield: the planned notes, branches, size and index.\<close>

definition plan_change ::
  "'x ext_scheme \<Rightarrow> felt option list \<Rightarrow> u64 \<Rightarrow> (felt \<times> encrypted_note) option
   \<Rightarrow> ((u64 \<times> bytes) list \<times> felt option list \<times> u64 \<times> nat option) res" where
  "plan_change X branches tree_size change_note =
     (case change_note of
        Some (cm, enc) \<Rightarrow>
          attempt (plan_append X branches tree_size cm enc) (\<lambda>(encoded, _, branches').
          attempt (index_to_usize X tree_size) (\<lambda>i.
          Inr ([(tree_size, encoded)], branches', tree_size + 1, Some i)))
      | None \<Rightarrow> Inr ([], branches, tree_size, None))"

record durable_unshield_commit =
  uc_encoded_notes :: "(u64 \<times> bytes) list"
  uc_branch_values :: "(nat \<times> felt) list"
  uc_new_tree_root :: felt
  uc_new_tree_size :: u64
  uc_nullifier_start_index :: u64
  uc_nullifiers :: "felt list"
  uc_withdrawal_index :: u64
  uc_withdrawal_record :: withdrawal_record
  uc_root_marker :: "(u64 \<times> felt) option"
  uc_response :: unshield_resp

definition prepare_durable_unshield_commit ::
  "'x host_env_scheme \<Rightarrow> host \<Rightarrow> prepared_unshield \<Rightarrow> durable_unshield_commit res" where
  "prepare_durable_unshield_commit E h prepared =
     attempt (read_frontier h) (\<lambda>(branches, tree_size).
     attempt (plan_change E branches tree_size (pu_change_note prepared)) (\<lambda>(encoded_notes, branches, tree_size, change_index).
     attempt (plan_append E branches tree_size (fst (pu_producer_note prepared)) (snd (pu_producer_note prepared)))
       (\<lambda>(encoded, next_root, branches).
     attempt (read_count h PATH_NULLIFIER_COUNT) (\<lambda>nullifier_start_index.
     attempt (read_count h PATH_WITHDRAWAL_COUNT) (\<lambda>withdrawal_index.
     attempt (plan_root_marker E h next_root) (\<lambda>root_marker.
     attempt (index_to_usize E tree_size) (\<lambda>producer_index.
     Inr \<lparr>uc_encoded_notes = encoded_notes @ [(tree_size, encoded)],
          uc_branch_values = branch_values_of branches,
          uc_new_tree_root = next_root, uc_new_tree_size = tree_size + 1,
          uc_nullifier_start_index = nullifier_start_index, uc_nullifiers = pu_nullifiers prepared,
          uc_withdrawal_index = withdrawal_index,
          uc_withdrawal_record = \<lparr>wr_recipient = pu_recipient prepared, wr_amount = pu_amount prepared\<rparr>,
          uc_root_marker = root_marker,
          uc_response = \<lparr>us_change_index = change_index, us_producer_index = producer_index\<rparr>\<rparr>)))))))"

record durable_shield_commit =
  sc_encoded_notes :: "(u64 \<times> bytes) list"
  sc_branch_values :: "(nat \<times> felt) list"
  sc_new_tree_root :: felt
  sc_new_tree_size :: u64
  sc_balance_path :: string
  sc_new_balance :: u64
  sc_root_marker :: "(u64 \<times> felt) option"
  sc_applied_shield_path :: string
  sc_response :: shield_resp

definition no_deposit_pool :: "'x ext_scheme \<Rightarrow> felt \<Rightarrow> string" where
  "no_deposit_pool X pubkey_hash =
     ''no deposit pool for pubkey_hash '' @ hex_encode X pubkey_hash @ ''; submit an L1 bridge deposit first''"

definition prepare_durable_shield_commit ::
  "'x host_env_scheme \<Rightarrow> host \<Rightarrow> prepared_shield \<Rightarrow> durable_shield_commit res" where
  "prepare_durable_shield_commit E h prepared =
     (let pubkey_hash = ps_pubkey_hash prepared; balance_path = deposit_balance_path E pubkey_hash in
      attempt (ok_or (read_store h balance_path 8) (no_deposit_pool E pubkey_hash)) (\<lambda>balance_bytes.
      attempt (guard (balance_bytes \<noteq> []) (no_deposit_pool E pubkey_hash)) (\<lambda>_.
      attempt (guard (length balance_bytes = 8) (''bad u64 at '' @ balance_path)) (\<lambda>_.
      let balance = from_le balance_bytes :: u64 in
      attempt (guard (\<not> balance < ps_debit prepared)
        (''deposit pool '' @ hex_encode E pubkey_hash @ '' balance '' @ show_word balance
         @ '' too small for v + fee + producer_fee = '' @ show_word (ps_debit prepared))) (\<lambda>_.
      let new_balance = balance - ps_debit prepared;
          client_cm = ps_client_cm prepared; shield_path = applied_shield_path E client_cm in
      attempt (guard (\<not> has_marker h shield_path)
        (''shield replay: cm '' @ hex_encode E client_cm @ '' already applied'')) (\<lambda>_.
      attempt (read_frontier h) (\<lambda>(branches, tree_size).
      attempt (plan_append E branches tree_size client_cm (ps_client_enc prepared)) (\<lambda>(encoded_client, _, branches).
      attempt (index_to_usize E tree_size) (\<lambda>client_index.
      attempt (plan_append E branches (tree_size + 1) (ps_producer_cm prepared) (ps_producer_enc prepared))
        (\<lambda>(encoded_producer, next_root, branches).
      attempt (index_to_usize E (tree_size + 1)) (\<lambda>producer_index.
      attempt (plan_root_marker E h next_root) (\<lambda>root_marker.
      Inr \<lparr>sc_encoded_notes = [(tree_size, encoded_client), (tree_size + 1, encoded_producer)],
           sc_branch_values = branch_values_of branches,
           sc_new_tree_root = next_root, sc_new_tree_size = tree_size + 1 + 1,
           sc_balance_path = balance_path, sc_new_balance = new_balance, sc_root_marker = root_marker,
           sc_applied_shield_path = shield_path,
           sc_response = \<lparr>ss_cm = client_cm, ss_index = client_index,
                          ss_producer_cm = ps_producer_cm prepared, ss_producer_index = producer_index\<rparr>\<rparr>))))))))))))"

section \<open>Writing\<close>

definition write_tree ::
  "'x host_env_scheme \<Rightarrow> (u64 \<times> bytes) list \<Rightarrow> (nat \<times> felt) list \<Rightarrow> felt \<Rightarrow> u64 \<Rightarrow> host \<Rightarrow> host" where
  "write_tree E encoded_notes branch_values root tree_size h =
     (let h = fold (\<lambda>(i, encoded). write_note_payload E i encoded) encoded_notes h;
          h = fold (\<lambda>(level, f). write_felt E (branch_path level) f) branch_values h
      in dl_write_u64 E PATH_TREE_SIZE tree_size (write_felt E PATH_TREE_ROOT root h))"

definition write_root_marker :: "'x host_env_scheme \<Rightarrow> (u64 \<times> felt) option \<Rightarrow> host \<Rightarrow> host" where
  "write_root_marker E marker h =
     (case marker of None \<Rightarrow> h
      | Some (i, root) \<Rightarrow>
          dl_write_u64 E PATH_VALID_ROOT_COUNT (i + 1)
            (write_key_at_index E PATH_VALID_ROOT_INDEX_PREFIX i root
              (write_marker E (root_marker_path E root) h)))"

fun write_nullifiers :: "'x host_env_scheme \<Rightarrow> u64 \<Rightarrow> felt list \<Rightarrow> host \<Rightarrow> u64 \<times> host" where
  "write_nullifiers E i [] h = (i, h)"
| "write_nullifiers E i (nf # nfs) h =
     write_nullifiers E (i + 1) nfs
       (write_key_at_index E PATH_NULLIFIER_INDEX_PREFIX i nf (write_marker E (nullifier_path E nf) h))"

definition apply_durable_unshield_commit ::
  "'x host_env_scheme \<Rightarrow> durable_unshield_commit \<Rightarrow> host \<Rightarrow> unshield_resp \<times> host" where
  "apply_durable_unshield_commit E c h =
     (let h = write_tree E (uc_encoded_notes c) (uc_branch_values c) (uc_new_tree_root c) (uc_new_tree_size c) h;
          (nullifier_index, h) = write_nullifiers E (uc_nullifier_start_index c) (uc_nullifiers c) h;
          h = dl_write_u64 E PATH_NULLIFIER_COUNT nullifier_index h;
          h = write_withdrawal_at_index E (uc_withdrawal_index c) (uc_withdrawal_record c) h;
          h = dl_write_u64 E PATH_WITHDRAWAL_COUNT (uc_withdrawal_index c + 1) h;
          h = write_root_marker E (uc_root_marker c) h
      in (uc_response c, dur_note_private_tx_applied E h))"

definition apply_durable_shield_commit ::
  "'x host_env_scheme \<Rightarrow> durable_shield_commit \<Rightarrow> host \<Rightarrow> shield_resp \<times> host" where
  "apply_durable_shield_commit E c h =
     (let h = write_store E (sc_balance_path c)
                (if sc_new_balance c = 0 then [] else to_le 8 (sc_new_balance c)) h;
          h = write_marker E (sc_applied_shield_path c) h;
          h = write_tree E (sc_encoded_notes c) (sc_branch_values c) (sc_new_tree_root c) (sc_new_tree_size c) h;
          h = write_root_marker E (sc_root_marker c) h
      in (sc_response c, dur_note_private_tx_applied E h))"

section \<open>Keys\<close>

lemma frontier_loop_keeps:
  "frontier_loop X zs levels bs cur idx = Inr (r, bs') \<Longrightarrow> length bs' = length bs \<and> (\<forall>l. bs' ! l = None \<longrightarrow> bs ! l = None)"
proof (induction levels arbitrary: bs cur idx)
  case (Cons l levels)
  show ?case
  proof (cases "idx mod 2 = 0")
    case True
    with Cons.prems have "length bs' = length bs \<and> (\<forall>k. bs' ! k = None \<longrightarrow> bs[l := Some cur] ! k = None)"
      using Cons.IH [of "bs[l := Some cur]"] by simp
    then show ?thesis by (metis nth_list_update_eq nth_list_update_neq list_update_beyond not_le option.distinct(1))
  next
    case False
    with Cons.prems Cons.IH [of bs] show ?thesis by (auto simp: res_simps)
  qed
qed simp

lemma write_branches_keys:
  assumes "durable_laws E"
  shows "at_key E (fold (\<lambda>(level, f). write_felt E (branch_path level) f)
           (List.map_filter (\<lambda>(level, v). map_option (Pair level) v) (enumerate s bs)) h) k
         = (case k of KBranch l \<Rightarrow> if s \<le> l \<and> l < s + length bs \<and> bs ! (l - s) \<noteq> None then bs ! (l - s) else at_key E h k
            | _ \<Rightarrow> at_key E h k)"
proof (induction bs arbitrary: s h)
  case Nil
  show ?case by (auto simp: map_filter_simps split: dkey.split)
next
  case (Cons v bs)
  have at: "at_key E (write_felt E (branch_path s) f h) = (at_key E h)(KBranch s \<mapsto> f)" for f
    using at_key_writes [OF assms, of "KBranch s"] by (simp add: write_felt_def path_of.simps)
  show ?case
    by (cases v) (auto simp: map_filter_simps Cons.IH at nth_Cons' split: dkey.split)
qed

lemma write_branches_put:
  assumes "durable_laws E" "\<forall>l < length bs. bs ! l = None \<longrightarrow> at_key E h (KBranch l) = None"
  shows "at_key E (fold (\<lambda>(level, f). write_felt E (branch_path level) f) (branch_values_of bs) h)
         = put_branches bs (at_key E h)"
  using assms(2) unfolding branch_values_of_def fun_eq_iff
  by (simp add: write_branches_keys [OF assms(1)] put_branches_def split: dkey.split)

lemma read_frontier_key:
  assumes "dur_inv E h"
  shows "read_frontier h = Inr (rep_branches (at_key E h), count_word (at_key E h) KTreeSize)"
proof -
  note fold = path_of.simps [where X = E, symmetric]
  let ?m = "at_key E h"
  have ok: "rep_ok E ?m" using assms by (simp add: dur_inv_def)
  have br: "branches_typed (rep_branches ?m)" using ok by (simp add: rep_ok_def)
  have "read_felt h (branch_path l) = Inr (?m (KBranch l))" if "l < DEPTH" for l
  proof (cases "?m (KBranch l)")
    case None
    then show ?thesis by (simp add: fold read_felt_def read_store_key)
  next
    case (Some f)
    then have "is_felt f" using br that by (auto simp: branches_typed_def rep_branches_def)
    with Some show ?thesis by (simp add: fold read_felt_key)
  qed
  then have "map_res (\<lambda>level. read_felt h (branch_path level)) [0..<DEPTH] = Inr (rep_branches ?m)"
    unfolding rep_branches_def by (intro map_res_Inr) simp
  moreover have "read_count h PATH_TREE_SIZE = Inr (count_word ?m KTreeSize)"
    using ok by (simp add: fold read_count_key rep_ok_def)
  moreover have "assert_frontier_matches_tree_size (rep_branches ?m) (unat (count_word ?m KTreeSize)) = Inr ()"
  proof -
    have "frontier_ok E (map fst (rep_notes E ?m)) (rep_branches ?m)" using ok by (simp add: rep_ok_def)
    moreover have "length (rep_notes E ?m) = unat (count_word ?m KTreeSize)" by (simp add: rep_notes_def)
    ultimately show ?thesis
      using assert_frontier_loop_Inr [of "rep_branches ?m" "unat (count_word ?m KTreeSize)" 0 DEPTH]
      by (simp add: assert_frontier_matches_tree_size_def frontier_ok_def)
  qed
  ultimately show ?thesis by (simp add: read_frontier_def)
qed

lemma write_tree_keys:
  assumes "durable_laws E"
  defines "pay \<equiv> fold (\<lambda>(i, encoded). write_note_payload E i encoded)"
  assumes "\<forall>l < length bs. bs ! l = None \<longrightarrow> at_key E (pay ns h) (KBranch l) = None"
  shows "at_key E (write_tree E ns (branch_values_of bs) root n h)
         = (put_branches bs (at_key E (pay ns h)))(KTreeRoot \<mapsto> root, KTreeSize \<mapsto> to_le 8 n)"
proof -
  define g where "g = fold (\<lambda>(level, f). write_felt E (branch_path level) f) (branch_values_of bs) (pay ns h)"
  have "at_key E g = put_branches bs (at_key E (pay ns h))"
    unfolding g_def by (rule write_branches_put [OF assms(1,3)])
  moreover have "write_tree E ns (branch_values_of bs) root n h
      = write_store E (path_of E KTreeSize) (to_le 8 n) (write_store E (path_of E KTreeRoot) root g)"
    by (simp add: write_tree_def Let_def dl_write_u64_def g_def pay_def write_felt_def path_of.simps)
  ultimately show ?thesis by (simp add: at_key_writes [OF assms(1)])
qed

text \<open>One planned and written note is one append, two are two appends.\<close>

lemma payload_keys:
  assumes "durable_laws E" "length b = 3487"
  shows "at_key E (write_note_payload E i b h) = put_chunks i 0 (chunks MAX_NOTE_CHUNK_BYTES b)
      ((at_key E h)(KNoteLen i \<mapsto> to_le 8 (word_of_nat (length b) :: u64)))"
  by (rule write_note_payload_keys [OF assms(1)]) (simp add: assms(2) MAX_NOTE_CHUNK_BYTES_def)

lemma payload_branches [simp]:
  assumes "durable_laws E" "length b = 3487"
  shows "at_key E (write_note_payload E i b h) (KBranch l) = at_key E h (KBranch l)"
  using payload_keys [OF assms] by (simp add: put_chunks_def)

lemma write_tree_one:
  assumes "durable_laws E" "i = count_word (at_key E h) KTreeSize" "length b = 3487"
    and "\<forall>l < length bs. bs ! l = None \<longrightarrow> at_key E h (KBranch l) = None"
  shows "at_key E (write_tree E [(i, b)] (branch_values_of bs) root (i + 1) h) = append_keys b root bs (at_key E h)"
proof -
  have "at_key E (write_tree E [(i, b)] (branch_values_of bs) root (i + 1) h)
      = (put_branches bs (at_key E (write_note_payload E i b h)))(KTreeRoot \<mapsto> root, KTreeSize \<mapsto> to_le 8 (i + 1))"
    using assms(1,3,4) by (subst write_tree_keys [OF assms(1)]) simp_all
  then show ?thesis using assms(2) by (simp add: payload_keys [OF assms(1,3)] append_keys_def Let_def)
qed

lemma write_tree_two:
  assumes "durable_laws E" "i = count_word (at_key E h) KTreeSize" "length b1 = 3487" "length b2 = 3487"
    and "\<forall>l < length bs2. bs2 ! l = None \<longrightarrow> at_key E h (KBranch l) = None" "length bs1 = length bs2"
  shows "at_key E (write_tree E [(i, b1), (i + 1, b2)] (branch_values_of bs2) r2 (i + 1 + 1) h)
         = append_keys b2 r2 bs2 (append_keys b1 r1 bs1 (at_key E h))"
proof -
  let ?m = "at_key E h" and ?cs = "chunks MAX_NOTE_CHUNK_BYTES"
  let ?pay = "write_note_payload E (i + 1) b2 (write_note_payload E i b1 h)"
  have n1: "count_word (append_keys b1 r1 bs1 ?m) KTreeSize = i + 1"
    using assms(2) by (simp add: count_word_def append_keys_at)
  have "at_key E (write_tree E [(i, b1), (i + 1, b2)] (branch_values_of bs2) r2 (i + 1 + 1) h)
      = (put_branches bs2 (at_key E ?pay))(KTreeRoot \<mapsto> r2, KTreeSize \<mapsto> to_le 8 (i + 1 + 1))"
    using assms(1,3-5) by (subst write_tree_keys [OF assms(1)]) simp_all
  also have "\<dots> = append_keys b2 r2 bs2 (append_keys b1 r1 bs1 ?m)"
  proof
    fix k
    show "((put_branches bs2 (at_key E ?pay))(KTreeRoot \<mapsto> r2, KTreeSize \<mapsto> to_le 8 (i + 1 + 1))) k
        = append_keys b2 r2 bs2 (append_keys b1 r1 bs1 ?m) k"
      unfolding append_keys_def [of b2] n1 Let_def payload_keys [OF assms(1,4)] payload_keys [OF assms(1,3)]
      using assms(2,6) by (cases k) (auto simp: put_branches_def put_chunks_def append_keys_def Let_def)
  qed
  finally show ?thesis .
qed

lemma note_private_keys:
  assumes "durable_laws E" "at_key E h = at_key E g"
  shows "at_key E (dur_note_private_tx_applied E h) = at_key E (dur_note_private_tx_applied E g)"
proof -
  note fold = path_of.simps [where X = E, symmetric]
  have "read_i32 h (path_of E k) = read_i32 g (path_of E k)" "dl_read_u64 h (path_of E k) = dl_read_u64 g (path_of E k)" for k
    by (simp_all add: read_i32_key dl_read_u64_def read_store_key assms(2))
  then have "current_private_tx_count_in_level h = current_private_tx_count_in_level g"
    unfolding current_private_tx_count_in_level_def fold by metis
  then show ?thesis
    by (simp add: dur_note_private_tx_applied_def fold read_i32_key at_key_writes [OF assms(1)] assms(2) Let_def
        split: option.split)
qed

lemma write_root_marker_keys:
  assumes "dur_inv E h" "at_key E h (KRoot r) = at_key E g (KRoot r)"
    and "at_key E h KValidRootCount = at_key E g KValidRootCount"
  shows "\<exists>mk. plan_root_marker E h r = Inr mk \<and> at_key E (write_root_marker E mk g) = mark_root_keys r (at_key E g)"
proof -
  note fold = path_of.simps [where X = E, symmetric]
  have laws: "durable_laws E" and "is_count (at_key E h) KValidRootCount"
    using assms(1) by (simp_all add: dur_inv_def rep_ok_def)
  moreover have "count_word (at_key E h) KValidRootCount = count_word (at_key E g) KValidRootCount"
    using assms(3) by (simp add: count_word_def)
  ultimately show ?thesis
    using assms(2)
    by (simp add: plan_root_marker_def write_root_marker_def fold has_marker_key read_count_key mark_root_keys_def
        write_marker_def write_key_at_index_def dl_write_u64_def at_key_writes Let_def)
qed

lemma write_nullifiers_keys:
  assumes "dur_inv E h" "\<forall>nf \<in> set nfs. is_felt nf \<and> at_key E h (KNullifier nf) = None" "distinct nfs"
    and "at_key E h = (at_key E g)(KNullifierCount \<mapsto> to_le 8 i)"
  shows "\<exists>h'. each_act (dur_insert_nullifier E) nfs h = (Inr (), h')
     \<and> at_key E h' = (at_key E (snd (write_nullifiers E i nfs g)))(KNullifierCount \<mapsto> to_le 8 (fst (write_nullifiers E i nfs g)))"
  using assms
proof (induction nfs arbitrary: h g i)
  case (Cons nf nfs)
  note fold = path_of.simps [where X = E, symmetric]
  let ?g = "write_key_at_index E PATH_NULLIFIER_INDEX_PREFIX i nf (write_marker E (nullifier_path E nf) g)"
  have laws: "durable_laws E" using Cons.prems(1) by (simp add: dur_inv_def)
  have nf: "is_felt nf" "at_key E h (KNullifier nf) = None" using Cons.prems(2) by simp_all
  have "count_word (at_key E h) KNullifierCount = i" by (simp add: Cons.prems(4) count_word_def)
  then obtain h1 where h1: "dur_insert_nullifier E nf h = (Inr (), h1)"
    "at_key E h1 = (at_key E h)(KNullifier nf \<mapsto> [1], KNullifierAt i \<mapsto> nf, KNullifierCount \<mapsto> to_le 8 (i + 1))"
    using dur_insert_nullifier_keys [OF Cons.prems(1) nf(2)] by auto
  have "dur_inv E h1" using dur_insert_nullifier_law [OF Cons.prems(1) nf(1)] h1(1) by auto
  moreover have "at_key E ?g = (at_key E g)(KNullifier nf \<mapsto> [1], KNullifierAt i \<mapsto> nf)"
    by (simp add: write_key_at_index_def write_marker_def fold at_key_writes [OF laws])
  then have "at_key E h1 = (at_key E ?g)(KNullifierCount \<mapsto> to_le 8 (i + 1))"
    unfolding h1(2) Cons.prems(4) by (auto simp: fun_eq_iff)
  moreover have "\<forall>x \<in> set nfs. is_felt x \<and> at_key E h1 (KNullifier x) = None"
    using Cons.prems(2,3) by (auto simp: h1(2))
  ultimately show ?case
    using Cons.IH [of h1 ?g "i + 1"] Cons.prems(3) h1(1) by (simp add: bind_act_def)
qed auto

section \<open>Refinement\<close>

lemma plan_one:
  assumes "dur_inv E h" "is_felt cm" "note_validate enc = Inr ()" "length (al_notes (dur_abs E h)) < 2 ^ DEPTH"
    and "dur_index_fits E (length (al_notes (dur_abs E h)))"
  obtains b r bs h' where
    "plan_append E (rep_branches (at_key E h)) (count_word (at_key E h) KTreeSize) cm enc = Inr (b, r, bs)"
    "length b = 3487" "length bs = DEPTH" "\<forall>l < DEPTH. bs ! l = None \<longrightarrow> at_key E h (KBranch l) = None"
    "at_key E h' = append_keys b r bs (at_key E h)" "dur_inv E h'" "rep_branches (at_key E h') = bs"
    "dur_abs E h' = (dur_abs E h)\<lparr>al_notes := al_notes (dur_abs E h) @ [(cm, enc)]\<rparr>"
    "r = tree_root E (map fst (al_notes (dur_abs E h')))"
proof -
  let ?m = "at_key E h" and ?i = "count_word (at_key E h) KTreeSize"
  have len: "length (al_notes (dur_abs E h)) = unat ?i" by (simp add: dur_abs_def rep_abs_def rep_notes_def)
  obtain b bs h' where k: "encode_published_note E cm enc = Inr b" "length b = 3487"
    "simulate_frontier_append E (zero_hash_list E DEPTH) (rep_branches ?m) (unat ?i) cm
       = Inr (tree_root E (map fst (rep_notes E ?m) @ [cm]), bs)"
    "branches_typed bs" "dur_append_note E cm enc h = (Inr (unat ?i), h')"
    "at_key E h' = append_keys b (tree_root E (map fst (rep_notes E ?m) @ [cm])) bs ?m"
    using dur_append_keys [OF assms(1-3)] assms(4,5) len by metis
  have inv: "dur_inv E h'" "dur_abs E h' = (dur_abs E h)\<lparr>al_notes := al_notes (dur_abs E h) @ [(cm, enc)]\<rparr>"
    using dur_append_law [OF assms] k(5) by auto
  have bs: "length bs = DEPTH" using k(4) by (simp add: branches_typed_def)
  have keep: "\<forall>l < DEPTH. bs ! l = None \<longrightarrow> ?m (KBranch l) = None"
    using frontier_loop_keeps [OF k(3) [unfolded simulate_frontier_append_def]] 
    by (auto simp: rep_branches_def) (metis nth_map_upt add_0 minus_nat.diff_0)
  have br: "rep_branches (at_key E h') = bs"
    using bs by (intro nth_equalityI) (simp_all add: rep_branches_def k(6) append_keys_at)
  have "tree_root E (map fst (rep_notes E ?m) @ [cm]) = tree_root E (map fst (al_notes (dur_abs E h')))"
    by (simp add: inv(2)) (simp add: dur_abs_def rep_abs_def)
  then show ?thesis using that [OF _ k(2) bs keep k(6) inv(1) br inv(2)] k(1,3) by (simp add: plan_append_def)
qed

text \<open>The end of a commit: the marker of the new root, and the count of private transactions.\<close>

lemma finish_commit:
  assumes "dur_inv E h" "dur_inv E h4" "at_key E g = at_key E h4"
  defines "r \<equiv> tree_root E (map fst (al_notes (dur_abs E h4)))"
  assumes "at_key E h (KRoot r) = at_key E h4 (KRoot r)" "at_key E h KValidRootCount = at_key E h4 KValidRootCount"
  obtains mk roots fee where "plan_root_marker E h r = Inr mk"
    "dur_inv E (dur_note_private_tx_applied E (write_root_marker E mk g))"
    "dur_abs E (dur_note_private_tx_applied E (write_root_marker E mk g)) = (dur_abs E h4)\<lparr>al_roots := roots, al_fee := fee\<rparr>"
    "roots_step E (al_notes (dur_abs E h4)) (al_roots (dur_abs E h4)) roots"
proof -
  have laws: "durable_laws E" using assms(1) by (simp add: dur_inv_def)
  obtain mk where mk: "plan_root_marker E h r = Inr mk"
    "at_key E (write_root_marker E mk g) = mark_root_keys r (at_key E h4)"
    using write_root_marker_keys [OF assms(1), of r g] assms(3,5,6) by auto
  obtain h5 roots where h5: "dur_snapshot_root E h4 = (Inr (), h5)" "dur_inv E h5"
    "dur_abs E h5 = (dur_abs E h4)\<lparr>al_roots := roots\<rparr>" "roots_step E (al_notes (dur_abs E h4)) (al_roots (dur_abs E h4)) roots"
    using dur_snapshot_law [OF assms(2)] by blast
  have "r = tree_root E (map fst (rep_notes E (at_key E h4)))" by (simp add: r_def dur_abs_def rep_abs_def)
  then have "at_key E h5 = mark_root_keys r (at_key E h4)" using dur_snapshot_keys [OF assms(2)] h5(1) by auto
  then have "at_key E (dur_note_private_tx_applied E (write_root_marker E mk g)) = at_key E (dur_note_private_tx_applied E h5)"
    using mk(2) note_private_keys [OF laws] by metis
  moreover obtain fee where "dur_inv E (dur_note_private_tx_applied E h5)"
    "dur_abs E (dur_note_private_tx_applied E h5) = (dur_abs E h5)\<lparr>al_fee := fee\<rparr>"
    using dur_tx_applied_law [OF h5(2)] by blast
  ultimately show ?thesis
    using h5(3,4) that [OF mk(1), of fee roots] by (simp add: dur_inv_def dur_abs_def)
qed

lemma index_to_usize_fits:
  "dur_index_fits X (unat i) \<Longrightarrow> index_to_usize X i = Inr (unat i)"
  by (simp add: index_to_usize_def dur_index_fits_def)

lemma tree_size_abs: "length (al_notes (dur_abs E h)) = unat (count_word (at_key E h) KTreeSize)"
  by (simp add: dur_abs_def rep_abs_def rep_notes_def)

lemma tree_size_Suc:
  assumes "unat (i :: u64) < 2 ^ DEPTH"
  shows "unat (i + 1) = Suc (unat i)"
  using assms unat_add_no_wrap [of i 1] by (simp add: DEPTH_def)

lemma pool_holds:
  assumes "dur_inv E h" "is_felt k" "0 < al_balance (dur_abs E h) k"
  obtains b where "at_key E h (KBalance k) = Some (to_le 8 (b :: u64))" "al_balance (dur_abs E h) k = unat b"
proof (rule pool_cases [OF assms(1), of k])
  fix b :: u64
  assume b: "at_key E h (KBalance k) = Some (to_le 8 b)"
  then have "al_balance (dur_abs E h) k = unat b"
    using assms(2) by (simp add: dur_abs_def rep_abs_def rep_balance_def count_word_def)
  with b show ?thesis by (rule that)
qed (use assms(3) in \<open>simp_all add: dur_abs_def rep_abs_def rep_balance_def\<close>)

text \<open>Two planned and written notes.\<close>

lemma plan_two:
  assumes "dur_inv E h" "is_felt cm1" "note_validate enc1 = Inr ()" "is_felt cm2" "note_validate enc2 = Inr ()"
    and "length (al_notes (dur_abs E h)) + 2 \<le> 2 ^ DEPTH"
    and "dur_index_fits E (length (al_notes (dur_abs E h)))" "dur_index_fits E (Suc (length (al_notes (dur_abs E h))))"
  defines "i \<equiv> count_word (at_key E h) KTreeSize"
  obtains b1 r1 bs1 b2 r2 bs2 h' where
    "plan_append E (rep_branches (at_key E h)) i cm1 enc1 = Inr (b1, r1, bs1)"
    "plan_append E bs1 (i + 1) cm2 enc2 = Inr (b2, r2, bs2)"
    "at_key E (write_tree E [(i, b1), (i + 1, b2)] (branch_values_of bs2) r2 (i + 1 + 1) h) = at_key E h'"
    "dur_inv E h'" "r2 = tree_root E (map fst (al_notes (dur_abs E h')))"
    "dur_abs E h' = (dur_abs E h)\<lparr>al_notes := al_notes (dur_abs E h) @ [(cm1, enc1), (cm2, enc2)]\<rparr>"
    "\<forall>k r. k \<in> {KRoot r, KValidRootCount, KNullifierCount, KWithdrawalCount} \<longrightarrow> at_key E h' k = at_key E h k"
proof -
  have laws: "durable_laws E" using assms(1) by (simp add: dur_inv_def)
  have c1: "length (al_notes (dur_abs E h)) < 2 ^ DEPTH" using assms(6) by simp
  obtain b1 r1 bs1 h1 where n1: "plan_append E (rep_branches (at_key E h)) i cm1 enc1 = Inr (b1, r1, bs1)"
    "length b1 = 3487" "length bs1 = DEPTH" "\<forall>l < DEPTH. bs1 ! l = None \<longrightarrow> at_key E h (KBranch l) = None"
    "at_key E h1 = append_keys b1 r1 bs1 (at_key E h)" "dur_inv E h1" "rep_branches (at_key E h1) = bs1"
    "dur_abs E h1 = (dur_abs E h)\<lparr>al_notes := al_notes (dur_abs E h) @ [(cm1, enc1)]\<rparr>"
    "r1 = tree_root E (map fst (al_notes (dur_abs E h1)))"
    by (rule plan_one [OF assms(1-3) c1 assms(7), folded i_def])
  have i1: "count_word (at_key E h1) KTreeSize = i + 1" by (simp add: n1(5) count_word_def append_keys_at i_def)
  have c2: "length (al_notes (dur_abs E h1)) < 2 ^ DEPTH" "dur_index_fits E (length (al_notes (dur_abs E h1)))"
    using assms(6,8) by (simp_all add: n1(8))
  obtain b2 r2 bs2 h2 where n2: "plan_append E bs1 (i + 1) cm2 enc2 = Inr (b2, r2, bs2)"
    "length b2 = 3487" "length bs2 = DEPTH" "\<forall>l < DEPTH. bs2 ! l = None \<longrightarrow> at_key E h1 (KBranch l) = None"
    "at_key E h2 = append_keys b2 r2 bs2 (at_key E h1)" "dur_inv E h2" "rep_branches (at_key E h2) = bs2"
    "dur_abs E h2 = (dur_abs E h1)\<lparr>al_notes := al_notes (dur_abs E h1) @ [(cm2, enc2)]\<rparr>"
    "r2 = tree_root E (map fst (al_notes (dur_abs E h2)))"
    by (rule plan_one [OF n1(6) assms(4,5) c2, unfolded n1(7) i1])
  have "\<forall>l < length bs2. bs2 ! l = None \<longrightarrow> at_key E h (KBranch l) = None"
    using n1(3,4) n2(3,4) by (simp add: n1(5) append_keys_at)
  from write_tree_two [OF laws i_def [THEN meta_eq_to_obj_eq] n1(2) n2(2) this, of bs1 r2 r1] n1(3,5) n2(3,5)
  have "at_key E (write_tree E [(i, b1), (i + 1, b2)] (branch_values_of bs2) r2 (i + 1 + 1) h) = at_key E h2" by simp
  moreover have "\<forall>k r. k \<in> {KRoot r, KValidRootCount, KNullifierCount, KWithdrawalCount} \<longrightarrow> at_key E h2 k = at_key E h k"
    by (auto simp: n1(5) n2(5) append_keys_other)
  ultimately show ?thesis using that [OF n1(1) n2(1) _ n2(6,9)] n1(8) n2(8) by simp
qed

lemma staged_shield_step:
  assumes h: "dur_inv E h" "tx_typed (TxShield req)" and ok: "shield_ok E (dur_abs E h) req"
    and room: "index_room (dur_index_fits E) (dur_abs E h) 1"
    and p: "prepare_shield E (dur_ops E) h req = Inr p"
  shows "\<exists>c h'. prepare_durable_shield_commit E h p = Inr c
     \<and> apply_durable_shield_commit E c h =
         (\<lparr>ss_cm = sr_client_cm req, ss_index = length (al_notes (dur_abs E h)),
           ss_producer_cm = sr_producer_cm req, ss_producer_index = length (al_notes (dur_abs E h)) + 1\<rparr>, h')
     \<and> dur_inv E h' \<and> al_step E (dur_abs E h) (TxShield req) (dur_abs E h')"
proof -
  note fold = path_of.simps [where X = E, symmetric]
  let ?k = "sr_pubkey_hash req" and ?d = "word_of_nat (shield_debit req) :: u64"
  define i where "i = count_word (at_key E h) KTreeSize"
  have laws: "durable_laws E" using h(1) by (simp add: dur_inv_def)
  have p: "p = \<lparr>ps_pubkey_hash = ?k, ps_debit = ?d, ps_client_cm = sr_client_cm req, ps_client_enc = sr_client_enc req,
      ps_producer_cm = sr_producer_cm req, ps_producer_enc = sr_producer_enc req\<rparr>"
    using p dur.prepare_shield_iff [OF h] by blast
  have typed: "is_felt ?k" "is_felt (sr_client_cm req)" "is_felt (sr_producer_cm req)" using h(2) by simp_all
  have d: "unat ?d = shield_debit req" using ok by (simp add: shield_ok_def unat_of_nat_small)
  have "0 < shield_debit req" using ok by (simp add: shield_ok_def shield_debit_def unat_gt_0)
  then have pos: "0 < al_balance (dur_abs E h) ?k" using ok by (simp add: shield_ok_def)
  obtain b where b: "at_key E h (KBalance ?k) = Some (to_le 8 (b :: u64))" "al_balance (dur_abs E h) ?k = unat b"
    by (rule pool_holds [OF h(1) typed(1) pos])
  have le: "?d \<le> b" using ok d b(2) by (simp add: shield_ok_def word_le_nat_alt)
  let ?b = "if b - ?d = 0 then [] else to_le 8 (b - ?d)"
  define h1 where "h1 = write_store E (deposit_balance_path E ?k) ?b h"
  define h2 where "h2 = write_marker E (applied_shield_path E (sr_client_cm req)) h1"
  have "?b = [] \<and> unat b - shield_debit req = 0 \<or> (\<exists>w :: u64. ?b = to_le 8 w \<and> unat b - shield_debit req = unat w)"
    using unat_sub_le [OF le] d by (auto split: if_splits)
  from put_balance [OF h(1) typed(1) this] have h1: "dur_inv E h1"
    "dur_abs E h1 = (dur_abs E h)\<lparr>al_balance := (al_balance (dur_abs E h))(?k := unat b - shield_debit req)\<rparr>"
    by (simp_all add: h1_def)
  have h2: "dur_inv E h2" "dur_abs E h2 = (dur_abs E h1)\<lparr>al_shields := insert (sr_client_cm req) (al_shields (dur_abs E h1))\<rparr>"
    using dur_marker_laws(4,5) [OF h1(1) typed(2)] by (simp_all add: h2_def)
  have at: "at_key E h2 = (at_key E h)(KBalance ?k \<mapsto> ?b, KShield (sr_client_cm req) \<mapsto> [1])"
    by (simp add: h2_def h1_def write_marker_def fold at_key_writes [OF laws])
  have idx: "count_word (at_key E h2) KTreeSize = i" "rep_branches (at_key E h2) = rep_branches (at_key E h)"
    by (simp_all add: at i_def)
  have nts: "al_notes (dur_abs E h2) = al_notes (dur_abs E h)" by (simp add: h2(2) h1(2))
  have valid: "note_validate (sr_client_enc req) = Inr ()" "note_validate (sr_producer_enc req) = Inr ()"
    and cap2: "length (al_notes (dur_abs E h)) + 2 \<le> 2 ^ DEPTH"
    using ok by (simp_all add: shield_ok_def)
  obtain b1 r1 bs1 b2 r2 bs2 h4 where pl:
    "plan_append E (rep_branches (at_key E h)) i (sr_client_cm req) (sr_client_enc req) = Inr (b1, r1, bs1)"
    "plan_append E bs1 (i + 1) (sr_producer_cm req) (sr_producer_enc req) = Inr (b2, r2, bs2)"
    "at_key E (write_tree E [(i, b1), (i + 1, b2)] (branch_values_of bs2) r2 (i + 1 + 1) h2) = at_key E h4"
    "dur_inv E h4" "r2 = tree_root E (map fst (al_notes (dur_abs E h4)))"
    "dur_abs E h4 = (dur_abs E h2)\<lparr>al_notes := al_notes (dur_abs E h)
       @ [(sr_client_cm req, sr_client_enc req), (sr_producer_cm req, sr_producer_enc req)]\<rparr>"
    "\<forall>k r. k \<in> {KRoot r, KValidRootCount, KNullifierCount, KWithdrawalCount} \<longrightarrow> at_key E h4 k = at_key E h2 k"
    by (rule plan_two [OF h2(1) typed(2) valid(1) typed(3) valid(2), unfolded nts idx, OF cap2 index_room_1(3,4) [OF room]])
  let ?g = "write_tree E [(i, b1), (i + 1, b2)] (branch_values_of bs2) r2 (i + 1 + 1) h2"
  have same: "at_key E h (KRoot r2) = at_key E h4 (KRoot r2)" "at_key E h KValidRootCount = at_key E h4 KValidRootCount"
    using pl(7) by (simp_all add: at)
  obtain mk roots fee where fin: "plan_root_marker E h r2 = Inr mk"
    "dur_inv E (dur_note_private_tx_applied E (write_root_marker E mk ?g))"
    "dur_abs E (dur_note_private_tx_applied E (write_root_marker E mk ?g)) = (dur_abs E h4)\<lparr>al_roots := roots, al_fee := fee\<rparr>"
    "roots_step E (al_notes (dur_abs E h4)) (al_roots (dur_abs E h4)) roots"
    using finish_commit [OF h(1) pl(4,3)] same unfolding pl(5) [symmetric] by metis
  have cap: "unat i < 2 ^ DEPTH" using ok by (simp add: shield_ok_def i_def tree_size_abs)
  have us: "index_to_usize E i = Inr (unat i)" "index_to_usize E (i + 1) = Inr (Suc (unat i))"
    using index_room_1(3,4) [OF room] index_to_usize_fits [of E "i + 1"] index_to_usize_fits [of E i]
    by (simp_all add: tree_size_abs i_def [symmetric] tree_size_Suc [OF cap])
  have no: "\<not> has_marker h (applied_shield_path E (sr_client_cm req))"
    using ok dur_marker_laws(3) [OF h(1) typed(2)] by (simp add: shield_ok_def)
  have rd: "read_store h (deposit_balance_path E ?k) 8 = Some (to_le 8 b)"
    using b(1) by (simp add: path_of.simps(27) [where X = E, symmetric] read_store_key)
  let ?resp = "\<lparr>ss_cm = sr_client_cm req, ss_index = unat i, ss_producer_cm = sr_producer_cm req, ss_producer_index = Suc (unat i)\<rparr>"
  define c where "c = \<lparr>sc_encoded_notes = [(i, b1), (i + 1, b2)], sc_branch_values = branch_values_of bs2,
     sc_new_tree_root = r2, sc_new_tree_size = i + 1 + 1, sc_balance_path = deposit_balance_path E ?k,
     sc_new_balance = b - ?d, sc_root_marker = mk, sc_applied_shield_path = applied_shield_path E (sr_client_cm req),
     sc_response = ?resp\<rparr>"
  have "prepare_durable_shield_commit E h p = Inr c"
    using le no pl(1,2) us fin(1)
    by (simp add: prepare_durable_shield_commit_def p rd read_frontier_key [OF h(1)] i_def [symmetric] not_less c_def Let_def)
  moreover have "apply_durable_shield_commit E c h = (?resp, dur_note_private_tx_applied E (write_root_marker E mk ?g))"
    by (simp add: apply_durable_shield_commit_def c_def h2_def h1_def Let_def)
  moreover have "al_step E (dur_abs E h) (TxShield req) ((dur_abs E h4)\<lparr>al_roots := roots, al_fee := fee\<rparr>)"
    using al_step.shield [OF ok refl, of roots fee] fin(4) by (simp add: pl(6) h2(2) h1(2) b(2))
  ultimately show ?thesis using fin(2,3) by (simp add: tree_size_abs i_def [symmetric])
qed

lemma write_nullifiers_other:
  assumes "durable_laws E" "\<forall>x. k \<noteq> KNullifier x" "\<forall>j. k \<noteq> KNullifierAt j"
  shows "at_key E (snd (write_nullifiers E i nfs g)) k = at_key E g k"
proof (induction nfs arbitrary: i g)
  case (Cons nf nfs)
  note fold = path_of.simps [where X = E, symmetric]
  show ?case
    using assms(2,3) by (simp add: Cons.IH write_key_at_index_def write_marker_def fold at_key_writes [OF assms(1)])
qed simp

lemma plan_change_producer:
  assumes h: "dur_inv E h" and change: "\<forall>(cm, enc) \<in> set_option change. is_felt cm \<and> note_validate enc = Inr ()"
    and producer: "is_felt cm" "note_validate enc = Inr ()"
    and cap: "length (al_notes (dur_abs E h)) + (if change = None then 1 else 2) \<le> 2 ^ DEPTH"
    and room: "index_room (dur_index_fits E) (dur_abs E h) 1"
  obtains encs branches i ci b r bs h' where
    "plan_change E (rep_branches (at_key E h)) (count_word (at_key E h) KTreeSize) change = Inr (encs, branches, i, ci)"
    "plan_append E branches i cm enc = Inr (b, r, bs)" "index_to_usize E i = Inr (unat i)"
    "at_key E (write_tree E (encs @ [(i, b)]) (branch_values_of bs) r (i + 1) h) = at_key E h'"
    "dur_inv E h'" "r = tree_root E (map fst (al_notes (dur_abs E h')))"
    "dur_abs E h' = (dur_abs E h)\<lparr>al_notes := al_notes (dur_abs E h) @ (case change of None \<Rightarrow> [] | Some n \<Rightarrow> [n]) @ [(cm, enc)]\<rparr>"
    "\<forall>k r. k \<in> {KRoot r, KValidRootCount, KNullifierCount, KWithdrawalCount} \<longrightarrow> at_key E h' k = at_key E h k"
proof (cases change)
  case None
  let ?i = "count_word (at_key E h) KTreeSize"
  have laws: "durable_laws E" using h by (simp add: dur_inv_def)
  have c: "length (al_notes (dur_abs E h)) < 2 ^ DEPTH" using cap None by simp
  obtain b r bs h' where n: "plan_append E (rep_branches (at_key E h)) ?i cm enc = Inr (b, r, bs)"
    "length b = 3487" "length bs = DEPTH" "\<forall>l < DEPTH. bs ! l = None \<longrightarrow> at_key E h (KBranch l) = None"
    "at_key E h' = append_keys b r bs (at_key E h)" "dur_inv E h'" "rep_branches (at_key E h') = bs"
    "dur_abs E h' = (dur_abs E h)\<lparr>al_notes := al_notes (dur_abs E h) @ [(cm, enc)]\<rparr>"
    "r = tree_root E (map fst (al_notes (dur_abs E h')))"
    by (rule plan_one [OF h producer c index_room_1(3) [OF room]])
  have "index_to_usize E ?i = Inr (unat ?i)"
    using index_room_1(3) [OF room] by (simp add: tree_size_abs index_to_usize_fits)
  moreover have "at_key E (write_tree E [(?i, b)] (branch_values_of bs) r (?i + 1) h) = at_key E h'"
    using write_tree_one [OF laws refl n(2), where bs = bs and root = r and h = h] n(3,4,5) by simp
  moreover have "\<forall>k r. k \<in> {KRoot r, KValidRootCount, KNullifierCount, KWithdrawalCount} \<longrightarrow> at_key E h' k = at_key E h k"
    by (auto simp: n(5) append_keys_other)
  ultimately show ?thesis
    using that [where encs = "[]" and branches = "rep_branches (at_key E h)" and i = ?i and ci = None and b = b
        and r = r and bs = bs and h' = h'] n(1,6,8,9) None by (simp add: plan_change_def)
next
  case (Some x)
  obtain cm' enc' where x: "x = (cm', enc')" by (cases x)
  let ?i = "count_word (at_key E h) KTreeSize"
  have valid: "is_felt cm'" "note_validate enc' = Inr ()" using change Some x by simp_all
  have c: "length (al_notes (dur_abs E h)) + 2 \<le> 2 ^ DEPTH" using cap Some by simp
  obtain b1 r1 bs1 b2 r2 bs2 h' where pl:
    "plan_append E (rep_branches (at_key E h)) ?i cm' enc' = Inr (b1, r1, bs1)"
    "plan_append E bs1 (?i + 1) cm enc = Inr (b2, r2, bs2)"
    "at_key E (write_tree E [(?i, b1), (?i + 1, b2)] (branch_values_of bs2) r2 (?i + 1 + 1) h) = at_key E h'"
    "dur_inv E h'" "r2 = tree_root E (map fst (al_notes (dur_abs E h')))"
    "dur_abs E h' = (dur_abs E h)\<lparr>al_notes := al_notes (dur_abs E h) @ [(cm', enc'), (cm, enc)]\<rparr>"
    "\<forall>k r. k \<in> {KRoot r, KValidRootCount, KNullifierCount, KWithdrawalCount} \<longrightarrow> at_key E h' k = at_key E h k"
    by (rule plan_two [OF h valid producer c index_room_1(3,4) [OF room]])
  have "unat ?i < 2 ^ DEPTH" using c by (simp add: tree_size_abs)
  then have "index_to_usize E ?i = Inr (unat ?i)" "index_to_usize E (?i + 1) = Inr (unat (?i + 1))"
    using index_room_1(3,4) [OF room] by (simp_all add: tree_size_abs index_to_usize_fits tree_size_Suc)
  then show ?thesis
    using that [where encs = "[(?i, b1)]" and branches = bs1 and i = "?i + 1" and ci = "Some (unat ?i)" and b = b2
        and r = r2 and bs = bs2 and h' = h'] pl Some x
    by (simp add: plan_change_def)
qed

text \<open>The nullifiers and the withdrawal of an unshield, written after the tree.\<close>

definition write_spend ::
  "'x host_env_scheme \<Rightarrow> u64 \<Rightarrow> felt list \<Rightarrow> u64 \<Rightarrow> withdrawal_record \<Rightarrow> host \<Rightarrow> host" where
  "write_spend E n nfs j w g =
     (let (n', g) = write_nullifiers E n nfs g
      in dl_write_u64 E PATH_WITHDRAWAL_COUNT (j + 1) (write_withdrawal_at_index E j w
           (dl_write_u64 E PATH_NULLIFIER_COUNT n' g)))"

lemma write_spend_step:
  assumes h: "dur_inv E h" and at: "at_key E g = at_key E h"
    and nfs: "\<forall>nf \<in> set nfs. is_felt nf" "distinct nfs" "set nfs \<inter> al_nullifiers (dur_abs E h) = {}"
    and fits: "dur_index_fits E (length (al_withdrawals (dur_abs E h)))"
  defines "n \<equiv> count_word (at_key E h) KNullifierCount" and "j \<equiv> count_word (at_key E h) KWithdrawalCount"
  obtains h' where "dur_inv E h'" "at_key E (write_spend E n nfs j \<lparr>wr_recipient = rcp, wr_amount = amt\<rparr> g) = at_key E h'"
    "dur_abs E h' = (dur_abs E h)\<lparr>al_nullifiers := al_nullifiers (dur_abs E h) \<union> set nfs,
       al_withdrawals := al_withdrawals (dur_abs E h) @ [\<lparr>wr_recipient = rcp, wr_amount = amt\<rparr>]\<rparr>"
    "\<forall>k r. k \<in> {KRoot r, KValidRootCount} \<longrightarrow> at_key E h' k = at_key E h k"
proof -
  note fold = path_of.simps [where X = E, symmetric]
  let ?w = "\<lparr>wr_recipient = rcp, wr_amount = amt\<rparr>"
  have laws: "durable_laws E" and rep: "rep_ok E (at_key E h)" using h by (simp_all add: dur_inv_def)
  obtain raw where "at_key E h KNullifierCount = Some raw" "length raw = 8" using rep by (auto simp: rep_ok_def is_count_def)
  then have cnt: "at_key E h = (at_key E g)(KNullifierCount \<mapsto> to_le 8 n)"
    by (auto simp: at n_def count_word_def fun_eq_iff to_le_from_le_n)
  have new: "\<forall>nf \<in> set nfs. is_felt nf \<and> at_key E h (KNullifier nf) = None"
    using nfs(1,3) by (auto simp: dur_abs_def rep_abs_def)
  obtain h5 where h5: "each_act (dur_insert_nullifier E) nfs h = (Inr (), h5)"
    "at_key E h5 = (at_key E (snd (write_nullifiers E n nfs g)))(KNullifierCount \<mapsto> to_le 8 (fst (write_nullifiers E n nfs g)))"
    using write_nullifiers_keys [OF h new nfs(2) cnt] by blast
  have h5': "dur_inv E h5" "dur_abs E h5 = (dur_abs E h)\<lparr>al_nullifiers := al_nullifiers (dur_abs E h) \<union> set nfs\<rparr>"
    using dur.insert_nullifiers [OF h nfs(1)] h5(1) by (auto simp: dur_ops_def)
  have keep: "at_key E h5 k = at_key E h k" if "k \<noteq> KNullifierCount" "\<forall>x. k \<noteq> KNullifier x" "\<forall>j. k \<noteq> KNullifierAt j" for k
    using that write_nullifiers_other [OF laws that(2,3)] by (simp add: h5(2) at)
  have j: "count_word (at_key E h5) KWithdrawalCount = j" by (simp add: count_word_def keep j_def)
  have "length (al_withdrawals (dur_abs E h5)) = unat j" by (simp add: dur_abs_def rep_abs_def j)
  then have fits5: "dur_index_fits E (length (al_withdrawals (dur_abs E h5)))" "dur_index_fits E (unat j)"
    using fits by (simp_all add: h5'(2))
  obtain h6 where h6: "dur_enqueue_withdrawal E rcp amt h5 = (Inr (unat j), h6)"
    "at_key E h6 = (at_key E h5)(KWithdrawalAt j \<mapsto> encode_withdrawal_record ?w, KWithdrawalCount \<mapsto> to_le 8 (j + 1))"
    using dur_enqueue_keys [OF h5'(1), of rcp amt] fits5(2) unfolding j by blast
  have "dur_inv E h6" "dur_abs E h6 = (dur_abs E h5)\<lparr>al_withdrawals := al_withdrawals (dur_abs E h5) @ [?w]\<rparr>"
    using dur_enqueue_law [OF h5'(1) fits5(1), of rcp amt] h6(1) by auto
  moreover have "at_key E (write_spend E n nfs j ?w g) = at_key E h6"
    by (simp add: write_spend_def Let_def case_prod_unfold dl_write_u64_def write_withdrawal_at_index_def fold
        at_key_writes [OF laws] h6(2) h5(2))
  moreover have "\<forall>k r. k \<in> {KRoot r, KValidRootCount} \<longrightarrow> at_key E h6 k = at_key E h k" using keep by (auto simp: h6(2))
  ultimately show ?thesis using that h5'(2) by simp
qed

lemma staged_unshield_step:
  assumes h: "dur_inv E h" "tx_typed (TxUnshield req)"
    and room: "index_room (dur_index_fits E) (dur_abs E h) 1"
    and p: "prepare_unshield E (dur_ops E) h req = Inr p"
  shows "\<exists>c resp h'. prepare_durable_unshield_commit E h p = Inr c
     \<and> apply_durable_unshield_commit E c h = (resp, h')
     \<and> dur_inv E h' \<and> al_step E (dur_abs E h) (TxUnshield req) (dur_abs E h')"
proof -
  note fold = path_of.simps [where X = E, symmetric]
  let ?rcp = "pu_recipient p" and ?nfs = "ur_nullifiers req"
  let ?w = "\<lparr>wr_recipient = ?rcp, wr_amount = ur_v_pub req\<rparr>"
  let ?change = "map_option (\<lambda>enc. (ur_cm_change req, enc)) (ur_enc_change req)"
  have ok: "unshield_ok E (dur_abs E h) req ?rcp"
    and pf: "pu_change_note p = ?change" "pu_producer_note p = (ur_cm_fee req, ur_enc_fee req)"
      "pu_nullifiers p = ?nfs" "pu_amount p = ur_v_pub req"
    using p dur.prepare_unshield_iff [OF h] by (metis prepared_unshield.select_convs)+
  define n where "n = count_word (at_key E h) KNullifierCount"
  define j where "j = count_word (at_key E h) KWithdrawalCount"
  have typed: "is_felt (ur_cm_change req)" "is_felt (ur_cm_fee req)" "\<forall>nf \<in> set ?nfs. is_felt nf" using h(2) by simp_all
  have change: "\<forall>(cm, enc) \<in> set_option ?change. is_felt cm \<and> note_validate enc = Inr ()"
    and valid: "note_validate (ur_enc_fee req) = Inr ()"
    and cap: "length (al_notes (dur_abs E h)) + (if ?change = None then 1 else 2) \<le> 2 ^ DEPTH"
    and cn: "(case ?change of None \<Rightarrow> [] | Some n \<Rightarrow> [n]) = change_notes req"
    and nfs: "distinct ?nfs" "set ?nfs \<inter> al_nullifiers (dur_abs E h) = {}"
    using ok typed(1) by (auto simp: unshield_ok_def spend_ok_def change_notes_def split: option.splits)
  obtain encs branches i ci b r bs h4 where pl:
    "plan_change E (rep_branches (at_key E h)) (count_word (at_key E h) KTreeSize) ?change = Inr (encs, branches, i, ci)"
    "plan_append E branches i (ur_cm_fee req) (ur_enc_fee req) = Inr (b, r, bs)" "index_to_usize E i = Inr (unat i)"
    "at_key E (write_tree E (encs @ [(i, b)]) (branch_values_of bs) r (i + 1) h) = at_key E h4"
    "dur_inv E h4" "r = tree_root E (map fst (al_notes (dur_abs E h4)))"
    "dur_abs E h4 = (dur_abs E h)\<lparr>al_notes := al_notes (dur_abs E h) @ change_notes req @ [(ur_cm_fee req, ur_enc_fee req)]\<rparr>"
    "\<forall>k r. k \<in> {KRoot r, KValidRootCount, KNullifierCount, KWithdrawalCount} \<longrightarrow> at_key E h4 k = at_key E h k"
    by (rule plan_change_producer [OF h(1) change typed(2) valid cap room, unfolded cn])
  let ?g4 = "write_tree E (encs @ [(i, b)]) (branch_values_of bs) r (i + 1) h"
  have cnts: "count_word (at_key E h4) KNullifierCount = n" "count_word (at_key E h4) KWithdrawalCount = j"
    using pl(8) by (simp_all add: count_word_def n_def j_def)
  have abs4: "al_nullifiers (dur_abs E h4) = al_nullifiers (dur_abs E h)" "al_withdrawals (dur_abs E h4) = al_withdrawals (dur_abs E h)"
    by (simp_all add: pl(7))
  obtain h6 where h6: "dur_inv E h6" "at_key E (write_spend E n ?nfs j ?w ?g4) = at_key E h6"
    "dur_abs E h6 = (dur_abs E h4)\<lparr>al_nullifiers := al_nullifiers (dur_abs E h) \<union> set ?nfs,
       al_withdrawals := al_withdrawals (dur_abs E h) @ [?w]\<rparr>"
    "\<forall>k r. k \<in> {KRoot r, KValidRootCount} \<longrightarrow> at_key E h6 k = at_key E h4 k"
    by (rule write_spend_step [OF pl(5,4) typed(3) nfs(1), unfolded cnts abs4, OF nfs(2) index_room_1(1) [OF room]])
  have r: "r = tree_root E (map fst (al_notes (dur_abs E h6)))" by (simp add: h6(3) pl(6))
  have same: "at_key E h (KRoot r) = at_key E h6 (KRoot r)" "at_key E h KValidRootCount = at_key E h6 KValidRootCount"
    using pl(8) h6(4) by simp_all
  let ?g = "write_spend E n ?nfs j ?w ?g4"
  obtain mk roots fee where fin: "plan_root_marker E h r = Inr mk"
    "dur_inv E (dur_note_private_tx_applied E (write_root_marker E mk ?g))"
    "dur_abs E (dur_note_private_tx_applied E (write_root_marker E mk ?g)) = (dur_abs E h6)\<lparr>al_roots := roots, al_fee := fee\<rparr>"
    "roots_step E (al_notes (dur_abs E h6)) (al_roots (dur_abs E h6)) roots"
    by (rule finish_commit [OF h(1) h6(1,2), folded r, OF same])
  let ?resp = "\<lparr>us_change_index = ci, us_producer_index = unat i\<rparr>"
  define c where "c = \<lparr>uc_encoded_notes = encs @ [(i, b)], uc_branch_values = branch_values_of bs,
     uc_new_tree_root = r, uc_new_tree_size = i + 1, uc_nullifier_start_index = n, uc_nullifiers = ?nfs,
     uc_withdrawal_index = j, uc_withdrawal_record = ?w, uc_root_marker = mk, uc_response = ?resp\<rparr>"
  have "is_count (at_key E h) KNullifierCount" "is_count (at_key E h) KWithdrawalCount"
    using h(1) by (simp_all add: dur_inv_def rep_ok_def)
  then have "read_count h PATH_NULLIFIER_COUNT = Inr n" "read_count h PATH_WITHDRAWAL_COUNT = Inr j"
    by (simp_all add: fold read_count_key n_def j_def)
  then have "prepare_durable_unshield_commit E h p = Inr c"
    using pl(1-3) fin(1) by (simp add: prepare_durable_unshield_commit_def read_frontier_key [OF h(1)] pf c_def)
  moreover have "apply_durable_unshield_commit E c h = (?resp, dur_note_private_tx_applied E (write_root_marker E mk ?g))"
    by (simp add: apply_durable_unshield_commit_def c_def write_spend_def Let_def case_prod_unfold)
  moreover have "(dur_abs E h6)\<lparr>al_roots := roots, al_fee := fee\<rparr> = (dur_abs E h)\<lparr>al_withdrawals := al_withdrawals (dur_abs E h) @ [?w],
      al_nullifiers := al_nullifiers (dur_abs E h) \<union> set ?nfs,
      al_notes := al_notes (dur_abs E h) @ change_notes req @ [(ur_cm_fee req, ur_enc_fee req)], al_roots := roots, al_fee := fee\<rparr>"
    by (intro abs_ledger.equality) (simp_all add: h6(3) pl(7))
  moreover have "roots_step E (al_notes (dur_abs E h) @ change_notes req @ [(ur_cm_fee req, ur_enc_fee req)]) (al_roots (dur_abs E h)) roots"
    using fin(4) by (simp add: h6(3) pl(7))
  note al_step.unshield [OF ok refl this, of fee]
  ultimately show ?thesis using fin(2,3) by metis
qed

end
