(* ===== verification/Frame.thy ===== *)
theory Frame
  imports Staged
begin

text \<open>
  What the operations of the kernel leave alone. A relation between the host before and after a
  call that is reflexive and transitive lifts through sequencing and loops; the locale
  \<open>host_frame\<close> states this once. \<open>quiet\<close> says that a call consumes no input, emits no output and
  leaves the configuration alone; every operation of the durable ledger and both staged commits
  are quiet.
\<close>

section \<open>Frames\<close>

locale host_frame =
  fixes R :: "host \<Rightarrow> host \<Rightarrow> bool"
  assumes frame_refl: "R h h"
    and frame_trans: "R h h' \<Longrightarrow> R h' h'' \<Longrightarrow> R h h''"
begin

definition keeps :: "(host, 'a) action \<Rightarrow> bool" where
  "keeps f \<longleftrightarrow> (\<forall>h. R h (snd (f h)))"

lemma keepsD: "keeps f \<Longrightarrow> R h (snd (f h))"
  by (simp add: keeps_def)

lemma keeps_read [intro!]: "keeps (read_act f)"
  by (simp add: keeps_def frame_refl)

lemma keeps_ret [intro!]: "keeps (ret_act x)"
  by (simp add: keeps_def frame_refl)

lemma keeps_write: "(\<And>h. R h (g h)) \<Longrightarrow> keeps (write_act g)"
  by (simp add: keeps_def)

lemma keeps_bind [intro!]: "keeps f \<Longrightarrow> (\<And>x. keeps (k x)) \<Longrightarrow> keeps (bind_act f k)"
  unfolding keeps_def bind_act_def
  by (auto split: prod.split sum.split) (metis frame_trans snd_conv)+

lemma keeps_bind_read:
  "(\<And>h x. f h = Inr x \<Longrightarrow> keeps (k x)) \<Longrightarrow> keeps (bind_act (read_act f) k)"
  by (auto simp: keeps_def bind_act_def frame_refl split: sum.split)

lemma keeps_each [intro!]: "(\<And>x. keeps (f x)) \<Longrightarrow> keeps (each_act f xs)"
  by (induction xs) auto

lemma keeps_if [intro!]: "keeps f \<Longrightarrow> keeps g \<Longrightarrow> keeps (if b then f else g)"
  by simp

lemma fold_keeps: "(\<And>x h. R h (f x h)) \<Longrightarrow> R h (fold f xs h)"
  by (induction xs arbitrary: h) (auto intro: frame_refl frame_trans)

end

section \<open>Quiet operations\<close>

definition quiet :: "host \<Rightarrow> host \<Rightarrow> bool" where
  "quiet h h' \<longleftrightarrow> h_inputs h' = h_inputs h \<and> h_outputs h' = h_outputs h
     \<and> h_store h' PATH_VERIFIER_CONFIG = h_store h PATH_VERIFIER_CONFIG
     \<and> h_store h' PATH_BRIDGE_TICKETER = h_store h PATH_BRIDGE_TICKETER
     \<and> (h_store h PATH_AUTH_DOMAIN \<noteq> None \<longrightarrow> h_store h' PATH_AUTH_DOMAIN = h_store h PATH_AUTH_DOMAIN)"

interpretation quiet: host_frame quiet
  by unfold_locales (auto simp: quiet_def)

definition config_path :: "string \<Rightarrow> bool" where
  "config_path p \<longleftrightarrow> p = PATH_VERIFIER_CONFIG \<or> p = PATH_BRIDGE_TICKETER \<or> p = PATH_AUTH_DOMAIN"

lemma quiet_write_store: "\<not> config_path p \<Longrightarrow> quiet h (write_store E p v h)"
  by (auto simp: quiet_def config_path_def write_store_def)

lemma quiet_write_debug [intro!]: "quiet h (write_debug m h)"
  by (simp add: quiet_def write_debug_def)

lemma not_config_path:
  "\<not> config_path PATH_TREE_SIZE" "\<not> config_path PATH_TREE_ROOT" "\<not> config_path PATH_NULLIFIER_COUNT"
  "\<not> config_path PATH_WITHDRAWAL_COUNT" "\<not> config_path PATH_VALID_ROOT_COUNT" "\<not> config_path PATH_LAST_RESULT"
  "\<not> config_path PATH_RAW_INPUT_COUNT" "\<not> config_path PATH_RAW_INPUT_BYTES" "\<not> config_path PATH_LAST_INPUT_LEVEL"
  "\<not> config_path PATH_LAST_INPUT_ID" "\<not> config_path PATH_LAST_INPUT_LEN" "\<not> config_path PATH_LAST_INPUT_PAYLOAD"
  "\<not> config_path PATH_PRIVATE_TX_FEE_LEVEL" "\<not> config_path PATH_PRIVATE_TX_COUNT_IN_LEVEL"
  "\<not> config_path (indexed_path PATH_NULLIFIER_INDEX_PREFIX i)" "\<not> config_path (indexed_path PATH_VALID_ROOT_INDEX_PREFIX i)"
  "\<not> config_path (indexed_path PATH_WITHDRAWAL_PREFIX i)" "\<not> config_path (note_path i)" "\<not> config_path (note_length_path i)"
  "\<not> config_path (note_chunk_path i c)" "\<not> config_path (branch_path l)" "\<not> config_path (root_marker_path X r)"
  "\<not> config_path (nullifier_path X r)" "\<not> config_path (deposit_balance_path X r)" "\<not> config_path (applied_shield_path X r)"
  by (simp_all add: config_path_def path_defs)

lemma quiet_typed:
  assumes "\<not> config_path p"
  shows "quiet h (write_felt E p f h)" "quiet h (dl_write_u64 E p n h)" "quiet h (write_marker E p h)"
  using quiet_write_store [OF assms] by (simp_all add: write_felt_def dl_write_u64_def write_marker_def)

lemma quiet_indexed:
  "quiet h (write_key_at_index E PATH_NULLIFIER_INDEX_PREFIX i f h)"
  "quiet h (write_key_at_index E PATH_VALID_ROOT_INDEX_PREFIX i f h)"
  "quiet h (write_withdrawal_at_index E i w h)"
  by (simp_all add: write_key_at_index_def write_withdrawal_at_index_def quiet_write_store not_config_path)

lemma quiet_payload: "quiet h (write_note_payload E i b h)"
proof -
  have "quiet g (fold (\<lambda>(c, ch). write_store E (note_chunk_path i c) ch) cs g)" for cs g
    by (rule quiet.fold_keeps) (simp add: case_prod_unfold quiet_write_store not_config_path)
  note chunks = this
  note len = quiet_write_store [OF not_config_path(19)]
  show ?thesis
    unfolding write_note_payload_def Let_def
    by (auto intro!: quiet_write_store quiet.frame_trans [OF len chunks] simp: not_config_path)
qed

lemma quiet_note_private: "quiet h (dur_note_private_tx_applied E h)"
  unfolding dur_note_private_tx_applied_def Let_def
  by (simp add: quiet.frame_refl quiet.frame_trans [OF quiet_write_store quiet_write_store] not_config_path
      split: option.split)

lemmas quiet_host = quiet_write_store quiet_typed quiet_indexed quiet_payload quiet_note_private not_config_path

lemma quiet_frontier [intro!]: "quiet.keeps (dur_frontier_loop E levels cur idx)"
proof (induction levels arbitrary: cur idx)
  case (Cons l levels)
  then show ?case by (auto simp del: even_mod_4_div_2 intro!: quiet.keeps_write simp: quiet_host)
qed auto

lemma quiet_insert_nullifier: "quiet.keeps (dur_insert_nullifier E nf)"
proof -
  let ?f = "bind_act (read_act (\<lambda>h. read_count h PATH_NULLIFIER_COUNT)) (\<lambda>index.
        bind_act (write_act (write_marker E (nullifier_path E nf))) (\<lambda>_.
        bind_act (write_act (write_key_at_index E PATH_NULLIFIER_INDEX_PREFIX index nf)) (\<lambda>_.
        write_act (dl_write_u64 E PATH_NULLIFIER_COUNT (index + 1)))))"
  have "quiet.keeps ?f" by (auto intro!: quiet.keeps_write simp: quiet_host)
  from quiet.keepsD [OF this] show ?thesis
    by (simp add: quiet.keeps_def dur_insert_nullifier_def Let_def quiet.frame_refl)
qed

lemma quiet_append: "quiet.keeps (dur_append_note E cm enc)"
  unfolding dur_append_note_def by (auto intro!: quiet.keeps_write simp: quiet_host)

lemma quiet_snapshot: "quiet.keeps (dur_snapshot_root E)"
  unfolding dur_snapshot_root_def by (auto intro!: quiet.keeps_write simp: quiet_host)

lemma quiet_enqueue: "quiet.keeps (dur_enqueue_withdrawal E rcp amt)"
  unfolding dur_enqueue_withdrawal_def by (auto intro!: quiet.keeps_write simp: quiet_host)

lemma quiet_credit: "quiet.keeps (dur_credit_deposit E k amt)"
  unfolding dur_credit_deposit_def Let_def by (auto intro!: quiet.keeps_write simp: quiet_host)

lemma quiet_debit: "quiet.keeps (dur_debit_deposit E k amt)"
  unfolding dur_debit_deposit_def Let_def by (auto intro!: quiet.keeps_write simp: quiet_host)

lemma quiet_ops:
  "quiet.keeps (op_insert_nullifier (dur_ops E) nf)" "quiet.keeps (op_append_note (dur_ops E) cm enc)"
  "quiet.keeps (op_snapshot_root (dur_ops E))"
  "quiet.keeps (write_act (op_note_private_tx_applied (dur_ops E)))" "quiet.keeps (op_credit_deposit (dur_ops E) k amt)"
  by (auto simp: dur_ops_def quiet_insert_nullifier quiet_append quiet_snapshot quiet_credit quiet_host
      intro!: quiet.keeps_write)

lemma quiet_transfer: "quiet.keeps (apply_transfer E (dur_ops E) req)"
  unfolding apply_transfer_def by (auto intro: quiet_ops)

lemma quiet_deposit: "quiet.keeps (apply_deposit E (dur_ops E) rcp amt)"
  unfolding apply_deposit_def by (auto intro: quiet_ops)

section \<open>Staged commits\<close>

lemma quiet_write_tree: "quiet h (write_tree E ns bvs r n h)"
proof -
  have "quiet g (fold (\<lambda>(i, encoded). write_note_payload E i encoded) ns g)" for g
    by (rule quiet.fold_keeps) (simp add: case_prod_unfold quiet_host)
  moreover have "quiet g (fold (\<lambda>(level, f). write_felt E (branch_path level) f) bvs g)" for g
    by (rule quiet.fold_keeps) (simp add: case_prod_unfold quiet_host)
  ultimately show ?thesis
    unfolding write_tree_def Let_def
    by (meson quiet.frame_trans quiet_typed(1,2) not_config_path(1,2))
qed

lemma quiet_root_marker: "quiet h (write_root_marker E mk h)"
  unfolding write_root_marker_def
  by (auto split: option.split intro: quiet.frame_refl)
    (meson quiet.frame_trans quiet_typed(2,3) quiet_indexed(2) not_config_path(5,22))

lemma quiet_nullifiers: "quiet h (snd (write_nullifiers E i nfs h))"
proof (induction nfs arbitrary: i h)
  case (Cons nf nfs)
  then show ?case
    by simp (meson quiet.frame_trans quiet_typed(3) quiet_indexed(1) not_config_path(23))
qed (simp add: quiet.frame_refl)

lemmas quiet_last =
  quiet.frame_trans [OF _ quiet_note_private] quiet.frame_trans [OF _ quiet_root_marker]
  quiet.frame_trans [OF _ quiet_typed(2) [OF not_config_path(4)]] quiet.frame_trans [OF _ quiet_indexed(3)]
  quiet.frame_trans [OF _ quiet_typed(2) [OF not_config_path(3)]] quiet.frame_trans [OF _ quiet_nullifiers]
  quiet.frame_trans [OF _ quiet_write_tree]

lemma quiet_shield_commit:
  assumes "\<not> config_path (sc_balance_path c)" "\<not> config_path (sc_applied_shield_path c)"
  shows "quiet h (snd (apply_durable_shield_commit E c h))"
  unfolding apply_durable_shield_commit_def Let_def snd_conv
  by (rule quiet_last quiet.frame_trans [OF quiet_write_store [OF assms(1)] quiet_typed(3) [OF assms(2)]])+

lemma quiet_unshield_commit: "quiet h (snd (apply_durable_unshield_commit E c h))"
  unfolding apply_durable_unshield_commit_def Let_def case_prod_unfold snd_conv
  by (rule quiet_last quiet.frame_refl)+

lemma quiet_prepared_shield:
  "prepare_durable_shield_commit E h p = Inr c \<Longrightarrow> \<not> config_path (sc_balance_path c) \<and> \<not> config_path (sc_applied_shield_path c)"
  by (auto simp: prepare_durable_shield_commit_def Let_def res_simps not_config_path split: prod.splits)

lemma quiet_init: "quiet.keeps (ensure_initialized E)"
proof -
  have w: "quiet.keeps (write_unless_present p n f)" if "\<And>h. quiet h (f h)" for p n f
    using that by (simp add: quiet.keeps_def write_unless_present_def quiet.frame_refl)
  have "quiet.keeps (write_unless_present PATH_AUTH_DOMAIN 32 (write_felt E PATH_AUTH_DOMAIN d))" for d
    by (auto simp: quiet.keeps_def write_unless_present_def quiet_def read_store_def write_felt_def write_store_def path_defs)
  note auth = this
  show ?thesis
    unfolding ensure_initialized_def
    by (intro quiet.keeps_bind quiet.keeps_if quiet.keeps_read quiet.keeps_ret quiet.keeps_write auth w) (simp_all add: quiet_host)
qed

section \<open>Settled configuration\<close>

text \<open>
  Across a frozen call the installed configuration of the verifier, the domain that came with
  it, and the installed bridge ticketer stay what they are; a settled call also consumes no input.
\<close>

definition frozen :: "host \<Rightarrow> host \<Rightarrow> bool" where
  "frozen h h' \<longleftrightarrow>
     (h_store h PATH_BRIDGE_TICKETER \<noteq> None \<longrightarrow> h_store h' PATH_BRIDGE_TICKETER = h_store h PATH_BRIDGE_TICKETER)
     \<and> (h_store h PATH_VERIFIER_CONFIG \<noteq> None \<longrightarrow>
          h_store h' PATH_VERIFIER_CONFIG = h_store h PATH_VERIFIER_CONFIG
          \<and> (h_store h PATH_AUTH_DOMAIN \<noteq> None \<longrightarrow> h_store h' PATH_AUTH_DOMAIN = h_store h PATH_AUTH_DOMAIN))"

definition settled :: "host \<Rightarrow> host \<Rightarrow> bool" where
  "settled h h' \<longleftrightarrow> h_inputs h' = h_inputs h \<and> frozen h h'"

lemmas settled_defs = settled_def frozen_def

interpretation frozen: host_frame frozen
  by unfold_locales (auto simp: frozen_def)

interpretation settled: host_frame settled
  by unfold_locales (auto simp: settled_defs)

lemma quiet_settled: "quiet h h' \<Longrightarrow> settled h h'"
  by (auto simp: quiet_def settled_defs)

lemma quiet_keeps_settled: "quiet.keeps f \<Longrightarrow> settled.keeps f"
  by (simp add: quiet.keeps_def settled.keeps_def quiet_settled)

end
