(* ===== verification/Kernel.thy ===== *)
theory Kernel
  imports Frame Verifier
begin

text \<open>
  Message processing of the rollup kernel (\<open>tezos/rollup-kernel/src/lib.rs\<close>): decoding of inbox
  messages, bridge deposits, payloads fetched from the data-availability layer, authentication
  and one-shot installation of configurations, proof validation, the dispatch of requests to the
  ledger, the outbox, error results and the main loop. The encodings of Tezos inbox and outbox
  messages are third-party code and parameters. Modelled is the production build: the
  shortcuts compiled for tests and for the insecure sandbox are left out.
\<close>

section \<open>Parameters\<close>

text \<open>
  A bridge deposit as the inbox parser returns it: the hash of the destination rollup, the
  receiver bytes, the texts of the addresses of the ticket creator and of the sender, the token
  id, whether the ticket has metadata, and its amount.
\<close>

record inbox_transfer =
  it_destination :: bytes
  it_receiver :: bytes
  it_creator :: string
  it_sender :: string
  it_token_id :: int
  it_has_metadata :: bool
  it_amount :: int

datatype tezos_inbox = InboxTransfer inbox_transfer | InboxInternal | InboxExternal bytes

text \<open>
  \<open>inbox_parse\<close> and \<open>frame_parse\<close> parse an inbox message and an external frame (target address
  hash and contents); \<open>ticket_new\<close> builds the withdrawal ticket of a ticketer and an amount,
  \<open>entrypoint_ok\<close> accepts an entrypoint name and \<open>outbox_write\<close> encodes the transaction with
  recipient, ticket and destination. The next three are the hexadecimal values compiled into the
  kernel from the environment of the build; \<open>debug_build\<close> says whether debug assertions are on,
  \<open>debug_text\<close> is the text that \<open>derive(Debug)\<close> gives a message.
\<close>

record kernel_env = verify_env +
  inbox_parse :: "bytes \<Rightarrow> (bytes \<times> tezos_inbox) option"
  frame_parse :: "bytes \<Rightarrow> (bytes \<times> bytes) option"
  ticket_new :: "tezos_contract \<Rightarrow> u64 \<Rightarrow> bytes option"
  entrypoint_ok :: "string \<Rightarrow> bool"
  outbox_write :: "tezos_contract \<Rightarrow> bytes \<Rightarrow> tezos_contract \<Rightarrow> bytes option"
  admin_pub_seed_hex :: "string option"
  verifier_admin_leaf_hex :: "string option"
  bridge_admin_leaf_hex :: "string option"
  debug_build :: bool
  debug_text :: "kernel_inbox_message \<Rightarrow> string"

section \<open>Inbox and outbox\<close>

record parsed_bridge_deposit =
  bd_ticketer :: string
  bd_recipient :: string
  bd_amount :: u64

datatype parsed_rollup_message =
  PKernel kernel_inbox_message | PDeposit parsed_bridge_deposit | PIgnore

definition encode_withdrawal_outbox_message ::
  "'x kernel_env_scheme \<Rightarrow> string \<Rightarrow> withdrawal_record \<Rightarrow> bytes res" where
  "encode_withdrawal_outbox_message E ticketer record =
     attempt (ok_or (contract_from_b58check E ticketer) ''invalid bridge ticketer contract'') (\<lambda>ticketer.
     attempt (ok_or (contract_from_b58check E (wr_recipient record)) ''invalid withdrawal recipient contract'')
       (\<lambda>recipient.
     attempt (ok_or (ticket_new E ticketer (wr_amount record)) ''failed to build withdrawal ticket'') (\<lambda>ticket.
     attempt (guard (entrypoint_ok E ''burn'') ''invalid burn entrypoint'') (\<lambda>_.
     ok_or (outbox_write E recipient ticket ticketer) ''failed to encode withdrawal outbox message''))))"

definition parse_bridge_deposit :: "inbox_transfer \<Rightarrow> parsed_bridge_deposit res" where
  "parse_bridge_deposit transfer =
     attempt (ok_or (from_utf8 (it_receiver transfer)) ''deposit receiver is not UTF-8'') (\<lambda>recipient.
     attempt (guard (it_creator transfer = it_sender transfer)
       ''deposit ticket creator does not match transfer sender'') (\<lambda>_.
     attempt (guard (it_token_id transfer = 0) ''deposit ticket token_id must be 0'') (\<lambda>_.
     attempt (guard (\<not> it_has_metadata transfer) ''deposit ticket metadata must be None'') (\<lambda>_.
     attempt (guard (0 \<le> it_amount transfer \<and> it_amount transfer < 2 ^ 64)
       ''deposit amount does not fit in u64'') (\<lambda>_.
     Inr \<lparr>bd_ticketer = it_sender transfer, bd_recipient = recipient,
          bd_amount = word_of_int (it_amount transfer)\<rparr>)))))"

definition decode_rollup_message ::
  "'x kernel_env_scheme \<Rightarrow> bytes \<Rightarrow> bytes \<Rightarrow> parsed_rollup_message res" where
  "decode_rollup_message E bs current_rollup =
     attempt (ok_or (inbox_parse E bs)
       ''invalid rollup inbox message: failed to parse TezosInboxMessage frame'') (\<lambda>(rest, inbox).
     attempt (guard (rest = [])
       ''invalid rollup inbox message: trailing bytes after TezosInboxMessage frame'') (\<lambda>_.
     case inbox of
       InboxTransfer transfer \<Rightarrow>
         if it_destination transfer \<noteq> current_rollup then Inr PIgnore
         else attempt (parse_bridge_deposit transfer) (\<lambda>d. Inr (PDeposit d))
     | InboxInternal \<Rightarrow> Inr PIgnore
     | InboxExternal payload \<Rightarrow>
         (case frame_parse E payload of
            Some (address, contents) \<Rightarrow>
              if address \<noteq> current_rollup then Inr PIgnore
              else attempt (decode_kernel_inbox_message E contents) (\<lambda>m. Inr (PKernel m))
          | None \<Rightarrow> Inr PIgnore)))"

section \<open>Reading the state\<close>

definition read_verifier_config :: "'x ext_scheme \<Rightarrow> host \<Rightarrow> kernel_verifier_config option res" where
  "read_verifier_config X h =
     (case read_store h PATH_VERIFIER_CONFIG MAX_STORE_BINARY_BYTES of
        None \<Rightarrow> Inr None
      | Some b \<Rightarrow> attempt (decode_kernel_verifier_config X b) (\<lambda>c. Inr (Some c)))"

definition read_last_result :: "'x ext_scheme \<Rightarrow> host \<Rightarrow> kernel_result option" where
  "read_last_result X h =
     (case read_store h PATH_LAST_RESULT MAX_INPUT_BYTES of
        None \<Rightarrow> None
      | Some b \<Rightarrow> (case decode_kernel_result X b of Inl _ \<Rightarrow> None | Inr r \<Rightarrow> Some r))"

record kernel_stats =
  st_raw_input_count :: u64
  st_raw_input_bytes :: u64
  st_last_input_level :: "i32 option"
  st_last_input_id :: "i32 option"
  st_last_input_len :: "u32 option"

definition read_stats :: "host \<Rightarrow> kernel_stats" where
  "read_stats h = \<lparr>
     st_raw_input_count = (case read_u64 h PATH_RAW_INPUT_COUNT of None \<Rightarrow> 0 | Some v \<Rightarrow> v),
     st_raw_input_bytes = (case read_u64 h PATH_RAW_INPUT_BYTES of None \<Rightarrow> 0 | Some v \<Rightarrow> v),
     st_last_input_level = read_i32 h PATH_LAST_INPUT_LEVEL,
     st_last_input_id = read_i32 h PATH_LAST_INPUT_ID,
     st_last_input_len = read_u32 h PATH_LAST_INPUT_LEN\<rparr>"

definition read_private_tx_count_in_current_level :: "host \<Rightarrow> u64" where
  "read_private_tx_count_in_current_level h =
     (case read_i32 h PATH_LAST_INPUT_LEVEL of
        None \<Rightarrow> 0
      | Some current_level \<Rightarrow>
          (case read_i32 h PATH_PRIVATE_TX_FEE_LEVEL of
             None \<Rightarrow> 0
           | Some stored_level \<Rightarrow>
               if stored_level \<noteq> current_level then 0
               else (case read_u64 h PATH_PRIVATE_TX_COUNT_IN_LEVEL of None \<Rightarrow> 0 | Some n \<Rightarrow> n)))"

definition read_required_tx_fee :: "host \<Rightarrow> u64" where
  "read_required_tx_fee h = required_tx_fee_for_private_tx_count (read_private_tx_count_in_current_level h)"

definition read_last_input :: "'x ext_scheme \<Rightarrow> host \<Rightarrow> input_message option" where
  "read_last_input X h =
     (let stats = read_stats h in
      case st_last_input_len stats of
        None \<Rightarrow> None
      | Some len \<Rightarrow>
          if \<not> unat len < 2 ^ usize_bits X then None
          else (case read_store h PATH_LAST_INPUT_PAYLOAD (unat len) of
                  None \<Rightarrow> None
                | Some payload \<Rightarrow>
                    (case (st_last_input_level stats, st_last_input_id stats) of
                       (Some level, Some i) \<Rightarrow> Some \<lparr>im_level = level, im_id = i, im_payload = payload\<rparr>
                     | _ \<Rightarrow> None)))"

definition validate_bridge_deposit :: "'x ext_scheme \<Rightarrow> host \<Rightarrow> parsed_bridge_deposit \<Rightarrow> unit res" where
  "validate_bridge_deposit X h deposit =
     attempt (read_string h PATH_BRIDGE_TICKETER MAX_INPUT_BYTES) (\<lambda>configured.
     attempt (ok_or configured ''bridge ticketer is not configured'') (\<lambda>configured.
     attempt (guard (configured = bd_ticketer deposit) ''deposit sent from unexpected ticketer'') (\<lambda>_.
     attempt (guard (is_deposit_recipient_string X (bd_recipient deposit))
       ''deposit receiver must be a canonical deposit pool key: deposit:<32-byte lowercase hex of pubkey_hash>'') (\<lambda>_.
     attempt (read_verifier_config X h) (\<lambda>config.
     guard (config \<noteq> None) ''bridge deposits not accepted before verifier configuration'')))))"

section \<open>Error messages\<close>

text \<open>
  \<open>String::truncate\<close> panics when the new length is not on a character boundary; a string is the
  list of its UTF-8 bytes.
\<close>

definition is_char_boundary :: "string \<Rightarrow> nat \<Rightarrow> bool" where
  "is_char_boundary s n \<longleftrightarrow> n = 0 \<or> n = length s
     \<or> (n < length s \<and> \<not> (0x80 \<le> (of_char (s ! n) :: nat) \<and> (of_char (s ! n) :: nat) < 0xC0))"

definition truncate_string :: "string \<Rightarrow> nat \<Rightarrow> string res" where
  "truncate_string s n =
     (if length s < n then Inr s
      else if is_char_boundary s n then Inr (take n s)
      else Inl (Panic ''assertion failed: self.is_char_boundary(new_len)''))"

definition bounded_error_message :: "string \<Rightarrow> string res" where
  "bounded_error_message message =
     (if MAX_RESULT_ERROR_MESSAGE_BYTES < length message then
        let suffix = ''... [truncated]''; keep = MAX_RESULT_ERROR_MESSAGE_BYTES - length suffix in
        attempt (truncate_string message keep) (\<lambda>m. Inr (m @ suffix))
      else Inr message)"

definition ledger_debug :: "string \<Rightarrow> host \<Rightarrow> host" where
  "ledger_debug message = write_debug (''tzel-rollup-kernel: '' @ message @ [CHR 0x0A])"

section \<open>Payloads from the data-availability layer\<close>

primrec dal_payload_kind_name :: "kernel_dal_payload_kind \<Rightarrow> string" where
  "dal_payload_kind_name DalConfigureVerifier = ''configure-verifier''"
| "dal_payload_kind_name DalConfigureBridge = ''configure-bridge''"
| "dal_payload_kind_name DalShield = ''shield''"
| "dal_payload_kind_name DalTransfer = ''transfer''"
| "dal_payload_kind_name DalUnshield = ''unshield''"

fun declared_total :: "'x ext_scheme \<Rightarrow> nat \<Rightarrow> kernel_dal_chunk_pointer list \<Rightarrow> nat res" where
  "declared_total X acc [] = Inr acc"
| "declared_total X acc (chunk # later) =
     attempt (guard (unat (dc_payload_len chunk) < 2 ^ usize_bits X)
       ''DAL chunk payload length does not fit in usize'') (\<lambda>_.
     attempt (guard (acc + unat (dc_payload_len chunk) < 2 ^ usize_bits X) ''DAL chunk lengths overflow usize'') (\<lambda>_.
     declared_total X (acc + unat (dc_payload_len chunk)) later))"

text \<open>The pages of a chunk, from the page with the given index on.\<close>

fun fetch_pages :: "'x host_env_scheme \<Rightarrow> nat \<Rightarrow> i32 \<Rightarrow> u8 \<Rightarrow> nat \<Rightarrow> nat list \<Rightarrow> bytes res" where
  "fetch_pages E index published_level slot_index page_size [] = Inr []"
| "fetch_pages E index published_level slot_index page_size (page_index # page_indices) =
     attempt (guard (page_index < 2 ^ 16) (''DAL chunk '' @ show_nat index @ '' page index overflow'')) (\<lambda>_.
     attempt (host_dal_page E published_level slot_index (word_of_nat page_index) page_size) (\<lambda>page.
     attempt (guard (\<not> page_size < length page)
       (''DAL chunk '' @ show_nat index @ '' page '' @ show_nat page_index @ '' exceeds page size ''
        @ show_nat page_size)) (\<lambda>_.
     attempt (fetch_pages E index published_level slot_index page_size page_indices) (\<lambda>rest.
     Inr (page @ rest)))))"

definition fetch_chunk ::
  "'x host_env_scheme \<Rightarrow> dal_parameters \<Rightarrow> nat \<Rightarrow> nat \<Rightarrow> nat \<Rightarrow> kernel_dal_chunk_pointer \<Rightarrow> bytes res" where
  "fetch_chunk E params slot_size page_size index chunk =
     attempt (guard (unat (dc_payload_len chunk) < 2 ^ usize_bits E)
       (''DAL chunk '' @ show_nat index @ '' length does not fit in usize'')) (\<lambda>_.
     let chunk_len = unat (dc_payload_len chunk) in
     attempt (guard (chunk_len \<noteq> 0) (''DAL chunk '' @ show_nat index @ '' has zero payload length'')) (\<lambda>_.
     attempt (guard (\<not> slot_size < chunk_len)
       (''DAL chunk '' @ show_nat index @ '' length '' @ show_nat chunk_len @ '' exceeds slot size ''
        @ show_nat slot_size)) (\<lambda>_.
     attempt (guard (unat (dc_slot_index chunk) < unat (dp_number_of_slots params))
       (''DAL chunk '' @ show_nat index @ '' slot index '' @ show_word (dc_slot_index chunk)
        @ '' exceeds number_of_slots '' @ show_word (dp_number_of_slots params))) (\<lambda>_.
     attempt (guard (unat (dc_published_level chunk) < 2 ^ 31)
       (''DAL chunk '' @ show_nat index @ '' published level '' @ show_word (dc_published_level chunk)
        @ '' does not fit in i32'')) (\<lambda>_.
     attempt (fetch_pages E index (word_of_nat (unat (dc_published_level chunk))) (dc_slot_index chunk) page_size
                [0..<div_ceil chunk_len page_size]) (\<lambda>chunk_bytes.
     attempt (guard (\<not> length chunk_bytes < chunk_len)
       (''DAL chunk '' @ show_nat index @ '' truncated: need '' @ show_nat chunk_len @ '' bytes, got ''
        @ show_nat (length chunk_bytes))) (\<lambda>_.
     attempt (guard (list_all (\<lambda>b. b = 0) (drop chunk_len chunk_bytes))
       (''DAL chunk '' @ show_nat index @ '' trailing padding contains non-zero data'')) (\<lambda>_.
     Inr (take chunk_len chunk_bytes)))))))))"

fun fetch_chunks ::
  "'x host_env_scheme \<Rightarrow> dal_parameters \<Rightarrow> nat \<Rightarrow> nat \<Rightarrow> nat \<Rightarrow> kernel_dal_chunk_pointer list \<Rightarrow> bytes res" where
  "fetch_chunks E params slot_size page_size index [] = Inr []"
| "fetch_chunks E params slot_size page_size index (chunk # later) =
     attempt (fetch_chunk E params slot_size page_size index chunk) (\<lambda>b.
     attempt (fetch_chunks E params slot_size page_size (index + 1) later) (\<lambda>rest. Inr (b @ rest)))"

fun payload_kind_matches :: "kernel_dal_payload_kind \<Rightarrow> kernel_inbox_message \<Rightarrow> bool" where
  "payload_kind_matches DalConfigureVerifier (MConfigureVerifier _) = True"
| "payload_kind_matches DalConfigureBridge (MConfigureBridge _) = True"
| "payload_kind_matches DalShield (MShield _) = True"
| "payload_kind_matches DalTransfer (MTransfer _) = True"
| "payload_kind_matches DalUnshield (MUnshield _) = True"
| "payload_kind_matches _ _ = False"

fun is_dal_pointer :: "kernel_inbox_message \<Rightarrow> bool" where
  "is_dal_pointer (MDalPointer _) = True"
| "is_dal_pointer _ = False"

definition nested_pointer :: string where
  "nested_pointer = ''nested DAL pointer messages are not supported''"

definition fetch_kernel_message_from_dal ::
  "'x kernel_env_scheme \<Rightarrow> kernel_dal_payload_pointer \<Rightarrow> kernel_inbox_message res" where
  "fetch_kernel_message_from_dal E pointer =
     attempt (guard (dl_chunks pointer \<noteq> []) ''DAL pointer message requires at least one chunk'') (\<lambda>_.
     attempt (guard (unat (dl_payload_len pointer) < 2 ^ usize_bits E)
       ''DAL payload length does not fit in usize'') (\<lambda>_.
     let payload_len = unat (dl_payload_len pointer) in
     attempt (guard (payload_len \<noteq> 0) ''DAL payload length must be non-zero'') (\<lambda>_.
     attempt (guard (\<not> MAX_DAL_PAYLOAD_BYTES < payload_len)
       (''DAL payload too large: '' @ show_nat payload_len @ '' > '' @ show_nat MAX_DAL_PAYLOAD_BYTES)) (\<lambda>_.
     attempt (host_dal_parameters E) (\<lambda>params.
     attempt (guard (dp_number_of_slots params \<noteq> 0) ''DAL parameters reported zero slots'') (\<lambda>_.
     attempt (guard (\<not> (dp_slot_size params = 0 \<or> dp_page_size params = 0))
       ''DAL parameters reported zero-sized slots or pages'') (\<lambda>_.
     attempt (declared_total E 0 (dl_chunks pointer)) (\<lambda>total.
     attempt (guard (total = payload_len)
       (''DAL chunk lengths do not sum to payload length: '' @ show_nat total @ '' != '' @ show_nat payload_len)) (\<lambda>_.
     attempt (guard (unat (dp_slot_size params) < 2 ^ usize_bits E) ''DAL slot size does not fit in usize'') (\<lambda>_.
     attempt (guard (unat (dp_page_size params) < 2 ^ usize_bits E) ''DAL page size does not fit in usize'') (\<lambda>_.
     attempt (fetch_chunks E params (unat (dp_slot_size params)) (unat (dp_page_size params)) 0 (dl_chunks pointer))
       (\<lambda>payload.
     attempt (guard (length payload = payload_len)
       (''DAL payload length mismatch after reassembly: '' @ show_nat (length payload) @ '' != ''
        @ show_nat payload_len)) (\<lambda>_.
     attempt (guard (hash E payload = dl_payload_hash pointer) ''DAL payload hash mismatch'') (\<lambda>_.
     attempt (decode_kernel_inbox_message E payload) (\<lambda>message.
     if payload_kind_matches (dl_kind pointer) message then Inr message
     else if is_dal_pointer message then Inl (Err nested_pointer)
     else Inl (Err (''DAL payload kind mismatch: pointer declared '' @ dal_payload_kind_name (dl_kind pointer)
            @ '', decoded '' @ debug_text E message)))))))))))))))))"

section \<open>Configuration\<close>

definition parse_compiled_felt_hex :: "'x ext_scheme \<Rightarrow> string \<Rightarrow> string \<Rightarrow> felt res" where
  "parse_compiled_felt_hex X hex_value label =
     attempt (ok_or (hex_decode X hex_value) (''invalid '' @ label @ '' hex in kernel build'')) (\<lambda>b.
     attempt (guard (length b = 32)
       (''invalid '' @ label @ '' length in kernel build: got '' @ show_nat (length b) @ '' bytes, expected 32'')) (\<lambda>_.
     Inr b))"

definition dev_config_admin_ask :: "'x ext_scheme \<Rightarrow> felt" where
  "dev_config_admin_ask X = hash X (as_bytes ''tzel-dev-rollup-config-admin'')"

definition compiled_config_admin_pub_seed :: "'x kernel_env_scheme \<Rightarrow> felt res" where
  "compiled_config_admin_pub_seed E =
     (case admin_pub_seed_hex E of
        Some v \<Rightarrow> parse_compiled_felt_hex E v ''TZEL_ROLLUP_CONFIG_ADMIN_PUB_SEED_HEX''
      | None \<Rightarrow>
          if debug_build E then Inr (derive_auth_pub_seed E (dev_config_admin_ask E))
          else Inl (Err ''kernel built without TZEL_ROLLUP_CONFIG_ADMIN_PUB_SEED_HEX''))"

definition compiled_verifier_config_leaf :: "'x kernel_env_scheme \<Rightarrow> felt res" where
  "compiled_verifier_config_leaf E =
     (case verifier_admin_leaf_hex E of
        Some v \<Rightarrow> parse_compiled_felt_hex E v ''TZEL_ROLLUP_VERIFIER_CONFIG_ADMIN_LEAF_HEX''
      | None \<Rightarrow>
          if debug_build E then Inr (auth_leaf_hash E (dev_config_admin_ask E) KERNEL_VERIFIER_CONFIG_KEY_INDEX)
          else Inl (Err ''kernel built without TZEL_ROLLUP_VERIFIER_CONFIG_ADMIN_LEAF_HEX''))"

definition compiled_bridge_config_leaf :: "'x kernel_env_scheme \<Rightarrow> felt res" where
  "compiled_bridge_config_leaf E =
     (case bridge_admin_leaf_hex E of
        Some v \<Rightarrow> parse_compiled_felt_hex E v ''TZEL_ROLLUP_BRIDGE_CONFIG_ADMIN_LEAF_HEX''
      | None \<Rightarrow>
          if debug_build E then Inr (auth_leaf_hash E (dev_config_admin_ask E) KERNEL_BRIDGE_CONFIG_KEY_INDEX)
          else Inl (Err ''kernel built without TZEL_ROLLUP_BRIDGE_CONFIG_ADMIN_LEAF_HEX''))"

definition authenticate_verifier_config :: "'x kernel_env_scheme \<Rightarrow> kernel_signed_verifier_config \<Rightarrow> unit res" where
  "authenticate_verifier_config E config =
     attempt (compiled_config_admin_pub_seed E) (\<lambda>pub_seed.
     attempt (compiled_verifier_config_leaf E) (\<lambda>expected_leaf.
     attempt (kernel_verifier_config_sighash E (sv_config config)) (\<lambda>sighash.
     verify_wots_signature_against_leaf E sighash pub_seed KERNEL_VERIFIER_CONFIG_KEY_INDEX
       (sv_signature config) expected_leaf)))"

definition authenticate_bridge_config :: "'x kernel_env_scheme \<Rightarrow> kernel_signed_bridge_config \<Rightarrow> unit res" where
  "authenticate_bridge_config E config =
     attempt (compiled_config_admin_pub_seed E) (\<lambda>pub_seed.
     attempt (compiled_bridge_config_leaf E) (\<lambda>expected_leaf.
     attempt (kernel_bridge_config_sighash E (sb_config config)) (\<lambda>sighash.
     verify_wots_signature_against_leaf E sighash pub_seed KERNEL_BRIDGE_CONFIG_KEY_INDEX
       (sb_signature config) expected_leaf)))"

definition configure_verifier :: "'x kernel_env_scheme \<Rightarrow> kernel_verifier_config \<Rightarrow> (host, unit) action" where
  "configure_verifier E config =
     bind_act (read_act (\<lambda>_. if with_proof_verifier E then attempt (from_kernel_config E config) (\<lambda>_. Inr ()) else Inr ())) (\<lambda>_.
     bind_act (read_act (\<lambda>h. attempt (read_verifier_config E h) (\<lambda>c.
       guard (c = None) ''rollup verifier is already configured''))) (\<lambda>_.
     bind_act (write_act (write_felt E PATH_AUTH_DOMAIN (kv_auth_domain config))) (\<lambda>_.
     bind_act (read_act (\<lambda>_. encode_kernel_verifier_config E config)) (\<lambda>encoded.
     write_act (write_store E PATH_VERIFIER_CONFIG encoded)))))"

definition configure_bridge :: "'x kernel_env_scheme \<Rightarrow> kernel_bridge_config \<Rightarrow> (host, unit) action" where
  "configure_bridge E config =
     bind_act (read_act (\<lambda>_. ok_or (contract_from_b58check E (kb_ticketer config))
       ''bridge ticketer must be a valid L1 contract'')) (\<lambda>ticketer.
     bind_act (read_act (\<lambda>_. guard (case ticketer of Originated _ \<Rightarrow> True | Implicit _ \<Rightarrow> False) ''bridge ticketer must be a KT1 contract'')) (\<lambda>_.
     bind_act (read_act (\<lambda>h. attempt (read_string h PATH_BRIDGE_TICKETER MAX_INPUT_BYTES) (\<lambda>t.
       guard (t = None) ''rollup bridge is already configured''))) (\<lambda>_.
     write_act (write_string E PATH_BRIDGE_TICKETER (kb_ticketer config)))))"

section \<open>Requests\<close>

definition load_verifier :: "'x kernel_env_scheme \<Rightarrow> host \<Rightarrow> direct_proof_verifier res" where
  "load_verifier E h =
     attempt (read_verifier_config E h) (\<lambda>config.
     attempt (ok_or config ''proof verifier is not configured'') (\<lambda>config.
     from_kernel_config E config))"

definition validate_transition_proof ::
  "'x kernel_env_scheme \<Rightarrow> host \<Rightarrow> kernel_stark_proof \<Rightarrow> circuit_kind \<Rightarrow> unit res" where
  "validate_transition_proof E h pf circuit =
     attempt (load_verifier E h) (\<lambda>verifier. validate_kernel E verifier pf circuit)"

definition host_shield_req_for_transition :: "kernel_shield_req \<Rightarrow> shield_req" where
  "host_shield_req_for_transition req = kernel_shield_req_to_host req"

definition host_transfer_req_for_transition :: "kernel_transfer_req \<Rightarrow> transfer_req" where
  "host_transfer_req_for_transition req = kernel_transfer_req_to_host req"

definition host_unshield_req_for_transition :: "kernel_unshield_req \<Rightarrow> unshield_req" where
  "host_unshield_req_for_transition req = kernel_unshield_req_to_host req"

definition prepare_unshield_outbox :: "'x kernel_env_scheme \<Rightarrow> host \<Rightarrow> prepared_unshield \<Rightarrow> bytes res" where
  "prepare_unshield_outbox E h req =
     attempt (read_string h PATH_BRIDGE_TICKETER MAX_INPUT_BYTES) (\<lambda>ticketer.
     attempt (ok_or ticketer ''bridge ticketer is not configured'') (\<lambda>ticketer.
     encode_withdrawal_outbox_message E ticketer \<lparr>wr_recipient = pu_recipient req, wr_amount = pu_amount req\<rparr>))"

text \<open>A call that cannot fail, and returns a value.\<close>

definition call_act :: "('s \<Rightarrow> 'a \<times> 's) \<Rightarrow> ('s, 'a) action" where
  "call_act f s = (let (x, s') = f s in (Inr x, s'))"

function apply_kernel_message ::
  "'x kernel_env_scheme \<Rightarrow> kernel_inbox_message \<Rightarrow> (host, kernel_result) action" where
  "apply_kernel_message E (MConfigureVerifier config) =
     bind_act (read_act (\<lambda>_. authenticate_verifier_config E config)) (\<lambda>_.
     bind_act (configure_verifier E (sv_config config)) (\<lambda>_. ret_act RConfigured))"
| "apply_kernel_message E (MConfigureBridge config) =
     bind_act (read_act (\<lambda>_. authenticate_bridge_config E config)) (\<lambda>_.
     bind_act (configure_bridge E (sb_config config)) (\<lambda>_. ret_act RConfigured))"
| "apply_kernel_message E (MShield kreq) =
     bind_act (read_act (\<lambda>h. validate_transition_proof E h (ks_proof kreq) Shield)) (\<lambda>_.
     let req = host_shield_req_for_transition kreq in
     bind_act (read_act (\<lambda>h. prepare_shield E (dur_ops E) h req)) (\<lambda>prepared.
     bind_act (read_act (\<lambda>h. prepare_durable_shield_commit E h prepared)) (\<lambda>commit.
     bind_act (call_act (apply_durable_shield_commit E commit)) (\<lambda>resp. ret_act (RShield resp)))))"
| "apply_kernel_message E (MTransfer kreq) =
     bind_act (read_act (\<lambda>h. validate_transition_proof E h (kt_proof kreq) Transfer)) (\<lambda>_.
     let req = host_transfer_req_for_transition kreq in
     bind_act (apply_transfer E (dur_ops E) req) (\<lambda>resp. ret_act (RTransfer resp)))"
| "apply_kernel_message E (MUnshield kreq) =
     bind_act (read_act (\<lambda>h. validate_transition_proof E h (ku_proof kreq) Unshield)) (\<lambda>_.
     let req = host_unshield_req_for_transition kreq in
     bind_act (read_act (\<lambda>h. prepare_unshield E (dur_ops E) h req)) (\<lambda>prepared.
     bind_act (read_act (\<lambda>h. prepare_unshield_outbox E h prepared)) (\<lambda>outbox.
     bind_act (read_act (\<lambda>h. prepare_durable_unshield_commit E h prepared)) (\<lambda>commit.
     bind_act (write_output E outbox) (\<lambda>_.
     bind_act (call_act (apply_durable_unshield_commit E commit)) (\<lambda>resp. ret_act (RUnshield resp)))))))"
| "apply_kernel_message E (MDalPointer pointer) =
     bind_act (read_act (\<lambda>_. fetch_kernel_message_from_dal E pointer)) (\<lambda>nested.
     if is_dal_pointer nested then read_act (\<lambda>_. Inl (Err nested_pointer))
     else apply_kernel_message E nested)"
  by pat_completeness auto
termination
  by (relation "measure (\<lambda>(E, m). if is_dal_pointer m then 1 else 0)") auto

section \<open>Inputs\<close>

text \<open>What \<open>apply_input_message\<close> does with the \<open>Result\<close> of a transition.\<close>

definition result_of_transition :: "kernel_result res \<Rightarrow> (host, kernel_result option) action" where
  "result_of_transition result h =
     (case result of
        Inr success \<Rightarrow> (Inr (Some success), h)
      | Inl (Panic m) \<Rightarrow> (Inl (Panic m), h)
      | Inl (Err message) \<Rightarrow>
          (case bounded_error_message message of
             Inl e \<Rightarrow> (Inl e, h)
           | Inr m \<Rightarrow> (Inr (Some (RError m)), ledger_debug (''transition failed: '' @ m) h)))"

definition apply_input_message :: "'x kernel_env_scheme \<Rightarrow> input_message \<Rightarrow> (host, kernel_result option) action" where
  "apply_input_message E input h =
     (case decode_rollup_message E (im_payload input) (host_rollup_address E) of
        Inl (Panic m) \<Rightarrow> (Inl (Panic m), h)
      | Inl (Err e) \<Rightarrow>
          (case bounded_error_message (''invalid inbox message: '' @ e) of
             Inl p \<Rightarrow> (Inl p, h)
           | Inr m \<Rightarrow> (Inr (Some (RError m)), ledger_debug m h))
      | Inr PIgnore \<Rightarrow> (Inr None, h)
      | Inr message \<Rightarrow>
          (case ensure_initialized E h of
             (Inl (Panic m), h) \<Rightarrow> (Inl (Panic m), h)
           | (Inl (Err e), h) \<Rightarrow>
               (let h = ledger_debug e h in
                case bounded_error_message e of Inl p \<Rightarrow> (Inl p, h) | Inr m \<Rightarrow> (Inr (Some (RError m)), h))
           | (Inr _, h) \<Rightarrow>
               (let (result, h) =
                  (case message of
                     PDeposit req \<Rightarrow>
                       bind_act (read_act (\<lambda>h. validate_bridge_deposit E h req)) (\<lambda>_.
                       bind_act (apply_deposit E (dur_ops E) (bd_recipient req) (bd_amount req)) (\<lambda>_. ret_act RDeposit)) h
                   | PKernel m \<Rightarrow> apply_kernel_message E m h
                   | PIgnore \<Rightarrow> (Inl (Panic ''ignored messages are handled above''), h))
                in result_of_transition result h)))"

definition note_input :: "'x kernel_env_scheme \<Rightarrow> input_message \<Rightarrow> host \<Rightarrow> host" where
  "note_input E input h =
     (let stored_payload_len = min (length (im_payload input)) MAX_STORED_INPUT_PAYLOAD_BYTES;
          h = increment_u64 E PATH_RAW_INPUT_COUNT 1 h;
          h = increment_u64 E PATH_RAW_INPUT_BYTES (word_of_nat (length (im_payload input))) h;
          h = write_store E PATH_LAST_INPUT_LEVEL (to_le 4 (im_level input)) h;
          h = write_store E PATH_LAST_INPUT_ID (to_le 4 (im_id input)) h;
          h = write_store E PATH_LAST_INPUT_LEN (to_le 4 (word_of_nat stored_payload_len :: u32)) h;
          h = write_store E PATH_LAST_INPUT_PAYLOAD (take stored_payload_len (im_payload input)) h
      in write_debug (''tzel-rollup-kernel: inbox level='' @ show_i32 (im_level input) @ '' id=''
           @ show_i32 (im_id input) @ '' bytes='' @ show_nat (length (im_payload input)) @ [CHR 0x0A]) h)"

definition process_input :: "'x kernel_env_scheme \<Rightarrow> input_message \<Rightarrow> (host, unit) action" where
  "process_input E input =
     bind_act (write_act (note_input E input)) (\<lambda>_.
     bind_act (apply_input_message E input) (\<lambda>result.
     case result of
       None \<Rightarrow> ret_act ()
     | Some r \<Rightarrow>
         (case encode_kernel_result E r of
            Inr encoded \<Rightarrow> write_act (write_store E PATH_LAST_RESULT encoded)
          | Inl (Err e) \<Rightarrow> write_act (write_debug (''tzel-rollup-kernel: failed to encode result: '' @ e @ [CHR 0x0A]))
          | Inl (Panic m) \<Rightarrow> read_act (\<lambda>_. Inl (Panic m)))))"

section \<open>What processing an input leaves alone\<close>

lemma keeps_call: "(\<And>h. settled h (snd (f h))) \<Longrightarrow> settled.keeps (call_act f)"
  by (simp add: settled.keeps_def call_act_def case_prod_unfold Let_def)

lemma settled_write:
  assumes "\<not> config_path p"
  shows "settled h (write_store E p v h)"
  by (rule quiet_settled [OF quiet_write_store [OF assms]])

lemma verifier_config_free:
  "read_verifier_config X h = Inr None \<longleftrightarrow> h_store h PATH_VERIFIER_CONFIG = None"
  by (auto simp: read_verifier_config_def read_store_def res_simps split: option.split)

lemma ticketer_free:
  "read_string h PATH_BRIDGE_TICKETER n = Inr None \<longleftrightarrow> h_store h PATH_BRIDGE_TICKETER = None"
  by (auto simp: read_string_def read_store_def res_simps split: option.splits)

lemma settled_configure_verifier: "settled.keeps (configure_verifier E config)"
proof -
  have "settled h (write_store E PATH_VERIFIER_CONFIG v (write_felt E PATH_AUTH_DOMAIN d h))"
    "settled h (write_felt E PATH_AUTH_DOMAIN d h)"
    if "h_store h PATH_VERIFIER_CONFIG = None" for h v d
    using that by (simp_all add: settled_defs write_store_def write_felt_def path_defs)
  then show ?thesis
    by (auto simp: settled.keeps_def configure_verifier_def bind_read_act bind_act_def settled.frame_refl
        verifier_config_free res_simps split: sum.split)
qed

lemma settled_configure_bridge: "settled.keeps (configure_bridge E config)"
proof -
  have "settled h (write_string E PATH_BRIDGE_TICKETER v h)"
    if "h_store h PATH_BRIDGE_TICKETER = None" for h v
    using that by (simp add: settled_defs write_store_def write_string_def path_defs)
  then show ?thesis
    by (auto simp: settled.keeps_def configure_bridge_def bind_read_act bind_act_def settled.frame_refl
        ticketer_free res_simps split: sum.split)
qed

lemma settled_output: "settled.keeps (write_output E v)"
  by (simp add: settled.keeps_def write_output_def settled_defs)

lemma settled_kernel_message: "settled.keeps (apply_kernel_message E m)"
proof (induction E m rule: apply_kernel_message.induct)
  case (3 E kreq)
  show ?case
    by (auto simp: Let_def intro!: settled.keeps_bind_read keeps_call quiet_settled quiet_shield_commit
        dest: quiet_prepared_shield)
next
  case (4 E kreq)
  show ?case by (auto simp: Let_def intro!: quiet_keeps_settled quiet_transfer)
next
  case (5 E kreq)
  show ?case by (auto simp: Let_def intro!: settled_output keeps_call quiet_settled quiet_unshield_commit)
next
  case (6 E pointer)
  then show ?case by (simp only: apply_kernel_message.simps, intro settled.keeps_bind) (auto split: if_split)
qed (auto intro!: settled_configure_verifier settled_configure_bridge)

lemma settled_debug [intro!]: "settled h (ledger_debug m h)" "settled h (write_debug m h)"
  by (simp_all add: ledger_debug_def quiet_settled quiet_write_debug)

lemma settled_result: "settled.keeps (result_of_transition r)"
  by (auto simp: settled.keeps_def result_of_transition_def settled.frame_refl split: sum.split error.split)

lemma settled_input_message: "settled.keeps (apply_input_message E input)"
proof -
  have deposit: "settled.keeps (bind_act (read_act (\<lambda>h. validate_bridge_deposit E h req)) (\<lambda>_.
      bind_act (apply_deposit E (dur_ops E) (bd_recipient req) (bd_amount req)) (\<lambda>_. ret_act RDeposit)))" for req
    by (auto intro!: quiet_keeps_settled [OF quiet_deposit])
  have init: "settled h h'" if "ensure_initialized E h = (r, h')" for h r h'
    using settled.keepsD [OF quiet_keeps_settled [OF quiet_init], where h = h] that by (metis snd_conv)
  have step: "settled g (snd (result_of_transition r h'))"
    if "settled.keeps f" "f h = (r, h')" "settled g h" for f :: "(host, kernel_result) action" and g h h' r
    using settled.frame_trans [OF that(3) settled.frame_trans [OF settled.keepsD [OF that(1)] settled.keepsD [OF settled_result]]] that(2)
    by (metis snd_conv)
  have debug: "settled h h' \<Longrightarrow> settled h (ledger_debug m h')" for h h' m
    by (rule settled.frame_trans [OF _ settled_debug(1)])
  have "settled h (snd (apply_input_message E input h))" for h
    unfolding apply_input_message_def
    by (auto simp: Let_def split: sum.split error.split parsed_rollup_message.split prod.split
        intro!: settled.frame_refl debug dest!: init)
      (erule (1) step [OF settled_kernel_message] step [OF deposit])+
  then show ?thesis by (simp add: settled.keeps_def)
qed

lemma settled_note_input: "settled h (note_input E input h)"
  unfolding note_input_def Let_def increment_u64_def
  by (rule settled.frame_trans [OF _ settled_debug(2)] settled.frame_trans [OF _ settled_write] settled.frame_refl not_config_path)+

lemma settled_process_input: "settled.keeps (process_input E input)"
  unfolding process_input_def
  by (intro settled.keeps_bind settled.keeps_write settled_note_input settled_input_message)
    (auto split: option.split sum.split error.split intro!: settled.keeps_write settled_write simp: not_config_path)

lemma process_input_inputs: "h_inputs (snd (process_input E input h)) = h_inputs h"
  using settled.keepsD [OF settled_process_input] by (auto simp: settled_def)

section \<open>The main loop\<close>

function run_loop :: "'x kernel_env_scheme \<Rightarrow> bool \<Rightarrow> (host, bool) action" where
  "run_loop E saw_input h =
     (case next_input h of
        (None, h) \<Rightarrow> (Inr saw_input, h)
      | (Some input, h) \<Rightarrow>
          (case process_input E input h of
             (Inl e, h) \<Rightarrow> (Inl e, h)
           | (Inr _, h) \<Rightarrow> run_loop E True h))"
  by pat_completeness auto
termination
proof (relation "measure (\<lambda>(E, saw_input, h). length (h_inputs h))", goal_cases)
  case (2 E saw_input h x h' input y h'' u)
  from 2(3) have "h'' = snd (process_input E input h')" by (metis snd_conv)
  moreover from 2(1,2) have "next_input h = (Some input, h')" by simp
  ultimately have "h_inputs h = input # h_inputs h'" "h_inputs h'' = h_inputs h'"
    by (auto simp: process_input_inputs next_input_def split: list.splits)
  then show ?case by simp
qed simp

declare run_loop.simps [simp del]

definition run_with_host :: "'x kernel_env_scheme \<Rightarrow> (host, unit) action" where
  "run_with_host E =
     bind_act (run_loop E False) (\<lambda>saw_input.
     if \<not> saw_input then write_act (write_debug (''tzel-rollup-kernel: no inbox messages'' @ [CHR 0x0A]))
     else ret_act ())"

end
