(* ===== verification/KernelSpec.thy ===== *)
theory KernelSpec
  imports Kernel
begin

text \<open>
  What the rollup kernel promises. A message the kernel accepts is an accepted transaction of the
  abstract ledger, carried by a proof the configured verifier accepts; a refused one leaves the
  host as it was. Over a run, the ledger moves only by accepted transactions, by the installation
  of the authorisation domain and by fee changes, and the outbox grows by exactly the messages of
  the withdrawals that were recorded.
\<close>

section \<open>Requests\<close>

lemma shield_typed: "message_typed (MShield k) \<Longrightarrow> tx_typed (TxShield (host_shield_req_for_transition k))"
  by (simp add: host_shield_req_for_transition_def kernel_shield_req_to_host_def)

lemma transfer_typed: "message_typed (MTransfer k) \<Longrightarrow> tx_typed (TxTransfer (host_transfer_req_for_transition k))"
  by (simp add: host_transfer_req_for_transition_def kernel_transfer_req_to_host_def list_all_iff felts_def)

lemma unshield_typed: "message_typed (MUnshield k) \<Longrightarrow> tx_typed (TxUnshield (host_unshield_req_for_transition k))"
  by (simp add: host_unshield_req_for_transition_def kernel_unshield_req_to_host_def list_all_iff felts_def)

lemma kernel_shield_cases:
  assumes h: "dur_inv E h" "message_typed (MShield k)" and room: "index_room (dur_index_fits E) (dur_abs E h) 1"
  shows "if validate_transition_proof E h (ks_proof k) Shield = Inr ()
            \<and> shield_ok E (dur_abs E h) (host_shield_req_for_transition k)
         then \<exists>r h'. apply_kernel_message E (MShield k) h = (Inr (RShield r), h') \<and> dur_inv E h'
            \<and> al_step E (dur_abs E h) (TxShield (host_shield_req_for_transition k)) (dur_abs E h')
            \<and> h_outputs h' = h_outputs h
         else \<exists>e. apply_kernel_message E (MShield k) h = (Inl e, h)"
proof -
  let ?req = "host_shield_req_for_transition k"
  note typed = shield_typed [OF h(2)]
  show ?thesis
  proof (cases "validate_transition_proof E h (ks_proof k) Shield = Inr () \<and> shield_ok E (dur_abs E h) ?req")
    case True
    then obtain p where p: "prepare_shield E (dur_ops E) h ?req = Inr p"
      using dur.prepare_shield_iff [OF h(1) typed] by blast
    obtain c r h' where c: "prepare_durable_shield_commit E h p = Inr c" "apply_durable_shield_commit E c h = (r, h')"
      "dur_inv E h'" "al_step E (dur_abs E h) (TxShield ?req) (dur_abs E h')"
      using staged_shield_step [OF h(1) typed conjunct2 [OF True] room p] by blast
    have "quiet h h'"
      using quiet_shield_commit [of c] quiet_prepared_shield [OF c(1)] c(2) by (metis snd_conv)
    then show ?thesis
      using True p c by (auto simp: Let_def bind_read_act bind_act_def call_act_def quiet_def)
  next
    case False
    then have "validate_transition_proof E h (ks_proof k) Shield = Inr () \<Longrightarrow>
        \<exists>e. prepare_shield E (dur_ops E) h ?req = Inl e"
      using dur.prepare_shield_iff [OF h(1) typed] by (metis sum.exhaust)
    then show ?thesis using False
      by (cases "validate_transition_proof E h (ks_proof k) Shield") (auto simp: Let_def bind_read_act)
  qed
qed

lemma kernel_transfer_cases:
  assumes h: "dur_inv E h" "message_typed (MTransfer k)" and room: "index_room (dur_index_fits E) (dur_abs E h) 1"
  shows "if validate_transition_proof E h (kt_proof k) Transfer = Inr ()
            \<and> transfer_ok E (dur_abs E h) (host_transfer_req_for_transition k)
         then \<exists>r h'. apply_kernel_message E (MTransfer k) h = (Inr (RTransfer r), h') \<and> dur_inv E h'
            \<and> al_step E (dur_abs E h) (TxTransfer (host_transfer_req_for_transition k)) (dur_abs E h')
            \<and> h_outputs h' = h_outputs h
         else \<exists>e. apply_kernel_message E (MTransfer k) h = (Inl e, h)"
proof -
  let ?req = "host_transfer_req_for_transition k"
  note typed = transfer_typed [OF h(2)]
  show ?thesis
  proof (cases "validate_transition_proof E h (kt_proof k) Transfer = Inr () \<and> transfer_ok E (dur_abs E h) ?req")
    case True
    then obtain r h' where c: "apply_transfer E (dur_ops E) ?req h = (Inr r, h')"
      "dur_inv E h'" "al_step E (dur_abs E h) (TxTransfer ?req) (dur_abs E h')"
      using dur.apply_transfer_step [OF h(1) typed _ room] by blast
    have "quiet h h'" using quiet.keepsD [OF quiet_transfer, of h E ?req] c(1) by simp
    then show ?thesis using True c by (auto simp: Let_def bind_read_act bind_act_def quiet_def)
  next
    case False
    then have "validate_transition_proof E h (kt_proof k) Transfer = Inr () \<Longrightarrow>
        \<exists>e. check_transfer E (dur_ops E) h ?req = Inl e"
      using dur.check_transfer_iff [OF h(1) typed] by (metis sum.exhaust old.unit.exhaust)
    then show ?thesis using False
      by (cases "validate_transition_proof E h (kt_proof k) Transfer")
        (auto simp: Let_def bind_read_act bind_act_def apply_transfer_def)
  qed
qed

text \<open>Emitting an output changes nothing that the ledger reads.\<close>

lemma output_frame [simp]:
  "read_store (h\<lparr>h_outputs := outs\<rparr>) p n = read_store h p n"
  "at_key E (h\<lparr>h_outputs := outs\<rparr>) = at_key E h"
  by (simp_all add: read_store_def at_key_def fun_eq_iff)

lemma output_frame_ledger [simp]:
  "dur_inv E (h\<lparr>h_outputs := outs\<rparr>) = dur_inv E h" "dur_abs E (h\<lparr>h_outputs := outs\<rparr>) = dur_abs E h"
  by (simp_all add: dur_inv_def dur_abs_def)

lemma output_frame_reads [simp]:
  "read_felt (h\<lparr>h_outputs := outs\<rparr>) p = read_felt h p" "read_count (h\<lparr>h_outputs := outs\<rparr>) p = read_count h p"
  "read_frontier (h\<lparr>h_outputs := outs\<rparr>) = read_frontier h"
  "plan_root_marker E (h\<lparr>h_outputs := outs\<rparr>) = plan_root_marker E h"
  by (simp_all add: read_frontier_def read_felt_def read_count_def dl_read_u64_def plan_root_marker_def has_marker_def fun_eq_iff)

lemma output_frame_commit [simp]:
  "prepare_durable_unshield_commit E (h\<lparr>h_outputs := outs\<rparr>) = prepare_durable_unshield_commit E h"
  by (rule ext) (simp only: prepare_durable_unshield_commit_def output_frame_reads)

definition withdrawal_released :: "'x kernel_env_scheme \<Rightarrow> host \<Rightarrow> bytes \<Rightarrow> withdrawal_record \<Rightarrow> bool" where
  "withdrawal_released E h out w \<longleftrightarrow>
     (\<exists>ticketer. read_string h PATH_BRIDGE_TICKETER MAX_INPUT_BYTES = Inr (Some ticketer)
        \<and> encode_withdrawal_outbox_message E ticketer w = Inr out)"

lemma unshield_outbox_iff:
  "prepare_unshield_outbox E h p = Inr out \<longleftrightarrow>
     withdrawal_released E h out \<lparr>wr_recipient = pu_recipient p, wr_amount = pu_amount p\<rparr>"
  by (auto simp: prepare_unshield_outbox_def withdrawal_released_def res_simps)

lemma kernel_unshield_cases:
  assumes h: "dur_inv E h" "message_typed (MUnshield k)" and room: "index_room (dur_index_fits E) (dur_abs E h) 1"
  shows "if validate_transition_proof E h (ku_proof k) Unshield = Inr ()
            \<and> (\<exists>rcp out. unshield_ok E (dur_abs E h) (host_unshield_req_for_transition k) rcp
                 \<and> withdrawal_released E h out \<lparr>wr_recipient = rcp, wr_amount = ku_v_pub k\<rparr>
                 \<and> output_accepted E (h_outputs h) out)
         then \<exists>r h' rcp out. apply_kernel_message E (MUnshield k) h = (Inr (RUnshield r), h') \<and> dur_inv E h'
            \<and> al_step E (dur_abs E h) (TxUnshield (host_unshield_req_for_transition k)) (dur_abs E h')
            \<and> al_withdrawals (dur_abs E h') = al_withdrawals (dur_abs E h) @ [\<lparr>wr_recipient = rcp, wr_amount = ku_v_pub k\<rparr>]
            \<and> withdrawal_released E h out \<lparr>wr_recipient = rcp, wr_amount = ku_v_pub k\<rparr>
            \<and> h_outputs h' = h_outputs h @ [out]
         else \<exists>e. apply_kernel_message E (MUnshield k) h = (Inl e, h)"
    (is "if ?v \<and> ?ok then _ else _")
proof -
  let ?req = "host_unshield_req_for_transition k"
  note typed = unshield_typed [OF h(2)]
  have amt: "ur_v_pub ?req = ku_v_pub k"
    by (simp add: host_unshield_req_for_transition_def kernel_unshield_req_to_host_def)
  have ok_step: "\<exists>r h' rcp. apply_kernel_message E (MUnshield k) h = (Inr (RUnshield r), h') \<and> dur_inv E h'
      \<and> al_step E (dur_abs E h) (TxUnshield ?req) (dur_abs E h')
      \<and> al_withdrawals (dur_abs E h') = al_withdrawals (dur_abs E h) @ [\<lparr>wr_recipient = pu_recipient p, wr_amount = ku_v_pub k\<rparr>]
      \<and> h_outputs h' = h_outputs h @ [out]"
    if v: ?v and p: "prepare_unshield E (dur_ops E) h ?req = Inr p" and out: "prepare_unshield_outbox E h p = Inr out"
      and acc: "output_accepted E (h_outputs h) out" for p out
  proof -
    define h1 where "h1 = h\<lparr>h_outputs := h_outputs h @ [out]\<rparr>"
    have h1: "dur_inv E h1" "dur_abs E h1 = dur_abs E h" using h(1) by (simp_all add: h1_def)
    have "prepare_unshield E (dur_ops E) h1 ?req = Inr p"
      using p dur.prepare_unshield_iff [OF h(1) typed] dur.prepare_unshield_iff [OF h1(1) typed] h1(2) by metis
    then obtain c r h' where c: "prepare_durable_unshield_commit E h1 p = Inr c"
      "apply_durable_unshield_commit E c h1 = (r, h')" "dur_inv E h'" "al_step E (dur_abs E h) (TxUnshield ?req) (dur_abs E h')"
      using staged_unshield_step [OF h1(1) typed] room h1(2) by metis
    have "quiet h1 h'" using quiet_unshield_commit [of h1 E c] c(2) by simp
    moreover have "apply_kernel_message E (MUnshield k) h = (Inr (RUnshield r), h')"
      using v p out acc c(1,2)
      by (simp add: Let_def bind_read_act bind_act_def call_act_def write_output_def h1_def)
    moreover obtain rcp where "al_withdrawals (dur_abs E h') = al_withdrawals (dur_abs E h) @ [\<lparr>wr_recipient = rcp, wr_amount = ku_v_pub k\<rparr>]"
      "unshield_ok E (dur_abs E h) ?req rcp"
      using c(4) by (auto elim!: al_step_unshieldE simp: amt)
    moreover have "unshield_ok E (dur_abs E h) ?req (pu_recipient p)"
      using p dur.prepare_unshield_iff [OF h(1) typed] by blast
    ultimately show ?thesis using c(3,4) by (auto simp: quiet_def h1_def unshield_ok_def)
  qed
  have prep: "unshield_ok E (dur_abs E h) ?req rcp \<longleftrightarrow>
      (\<exists>p. prepare_unshield E (dur_ops E) h ?req = Inr p \<and> pu_recipient p = rcp \<and> pu_amount p = ku_v_pub k)" for rcp
    using dur.prepare_unshield_iff [OF h(1) typed] by (metis amt prepared_unshield.select_convs(4,5))
  show ?thesis
  proof (cases "?v \<and> ?ok")
    case True
    then obtain p out where "prepare_unshield E (dur_ops E) h ?req = Inr p" "pu_amount p = ku_v_pub k"
      "prepare_unshield_outbox E h p = Inr out" "output_accepted E (h_outputs h) out"
      by (auto simp: prep unshield_outbox_iff)
    then show ?thesis using ok_step [OF conjunct1 [OF True]] True unshield_outbox_iff [of E h p out] by metis
  next
    case False
    show ?thesis
    proof (cases "\<exists>p out. ?v \<and> prepare_unshield E (dur_ops E) h ?req = Inr p \<and> prepare_unshield_outbox E h p = Inr out")
      case True
      then obtain p out where p: ?v "prepare_unshield E (dur_ops E) h ?req = Inr p" "prepare_unshield_outbox E h p = Inr out"
        by blast
      moreover have "pu_amount p = ku_v_pub k" using p(2) dur.prepare_unshield_iff [OF h(1) typed] amt by (metis prepared_unshield.select_convs(5))
      ultimately have "\<not> output_accepted E (h_outputs h) out"
        using False by (auto simp: prep unshield_outbox_iff)
      moreover obtain c where "prepare_durable_unshield_commit E h p = Inr c"
        using staged_unshield_step [OF h(1) typed room p(2)] by blast
      ultimately show ?thesis using False p
        by (auto simp: Let_def bind_read_act bind_act_def write_output_def)
    next
      case no: False
      then show ?thesis using False
        by (cases "validate_transition_proof E h (ku_proof k) Unshield"; cases "prepare_unshield E (dur_ops E) h ?req")
          (auto simp: Let_def bind_read_act split: sum.splits)
    qed
  qed
qed

section \<open>Runs of the abstract ledger\<close>

text \<open>
  A run of the kernel moves the ledger by accepted transactions; a new inbox level changes the
  required fee, and the configuration of the verifier installs the authorisation domain.
\<close>

inductive kernel_run :: "'x ext_scheme \<Rightarrow> abs_ledger \<Rightarrow> tx list \<Rightarrow> abs_ledger \<Rightarrow> bool" for X where
  kr_Nil: "kernel_run X a [] a"
| kr_tx: "kernel_run X a txs b \<Longrightarrow> al_step X b t c \<Longrightarrow> kernel_run X a (txs @ [t]) c"
| kr_fee: "kernel_run X a txs b \<Longrightarrow> kernel_run X a txs (b\<lparr>al_fee := fee\<rparr>)"
| kr_domain: "kernel_run X a txs b \<Longrightarrow> kernel_run X a txs (b\<lparr>al_domain := d\<rparr>)"

lemma kernel_run_trans: "kernel_run X b ts c \<Longrightarrow> kernel_run X a txs b \<Longrightarrow> kernel_run X a (txs @ ts) c"
proof (induction rule: kernel_run.induct)
  case (kr_tx b ts c t d)
  then show ?case using kernel_run.kr_tx [of X a "txs @ ts" c t d] by simp
qed (auto intro: kernel_run.intros)

lemma kernel_run_step: "al_step X a t b \<Longrightarrow> kernel_run X a [t] b"
  using kr_tx [OF kr_Nil] by fastforce

lemma al_step_run: "al_step X a t b \<Longrightarrow> al_run X a [t] b"
  using al_run_Snoc [OF al_run_Nil] by fastforce

text \<open>What a run keeps, by one induction over steps and the facts of the single step.\<close>

lemma kernel_run_components:
  assumes "kernel_run X a txs b"
  shows "al_notes b = al_notes a @ concat (map tx_notes txs)
    \<and> al_nullifiers b = al_nullifiers a \<union> set (concat (map tx_nullifiers txs))
    \<and> al_shields b = al_shields a \<union> set (concat (map tx_shield_cms txs))"
  using assms
proof (induction rule: kernel_run.induct)
  case (kr_tx a txs b t c)
  then show ?case using al_run_components(1-3) [OF al_step_run [OF kr_tx.hyps(2)]] by auto
qed simp_all

lemma kernel_run_withdrawals:
  assumes "kernel_run X a txs b"
  shows "\<exists>ws. al_withdrawals b = al_withdrawals a @ ws \<and> map wr_amount ws = concat (map tx_withdrawal txs)"
  using assms
proof (induction rule: kernel_run.induct)
  case (kr_tx a txs b t c)
  from kr_tx.hyps(2) have "\<exists>ws. al_withdrawals c = al_withdrawals b @ ws \<and> map wr_amount ws = tx_withdrawal t"
    by cases auto
  then obtain ws where "al_withdrawals c = al_withdrawals b @ ws" "map wr_amount ws = tx_withdrawal t" by blast
  moreover obtain ws' where "al_withdrawals b = al_withdrawals a @ ws'" "map wr_amount ws' = concat (map tx_withdrawal txs)"
    using kr_tx.IH by blast
  ultimately show ?case by (intro exI [of _ "ws' @ ws"]) simp
qed simp_all

lemma kernel_run_once:
  assumes "kernel_run X a txs b"
  shows "distinct (concat (map tx_nullifiers txs)) \<and> set (concat (map tx_nullifiers txs)) \<inter> al_nullifiers a = {}
    \<and> distinct (concat (map tx_shield_cms txs)) \<and> set (concat (map tx_shield_cms txs)) \<inter> al_shields a = {}"
  using assms
proof (induction rule: kernel_run.induct)
  case (kr_tx a txs b t c)
  note step = al_step_run [OF kr_tx.hyps(2)]
  show ?case
    using kr_tx.IH kernel_run_components [OF kr_tx.hyps(1)] al_run_no_double_spend [OF step] al_run_no_shield_replay [OF step]
    by auto
qed simp_all

lemma kernel_run_conserves:
  assumes "kernel_run X a txs b"
  shows "al_balance a k + sum_list (map (tx_credit X k) txs) = al_balance b k + sum_list (map (tx_debit k) txs)"
  using assms
proof (induction rule: kernel_run.induct)
  case (kr_tx a txs b t c)
  then show ?case using al_run_conserves [OF al_step_run [OF kr_tx.hyps(2)], of k] by simp
qed simp_all

lemma historic_roots_frame:
  "historic_roots X (a\<lparr>al_fee := fee\<rparr>) \<longleftrightarrow> historic_roots X a"
  "historic_roots X (a\<lparr>al_domain := d\<rparr>) \<longleftrightarrow> historic_roots X a"
  unfolding historic_roots_def by simp_all

lemma kernel_run_historic: "kernel_run X a txs b \<Longrightarrow> historic_roots X a \<Longrightarrow> historic_roots X b"
proof (induction rule: kernel_run.induct)
  case (kr_tx a txs b t c)
  then show ?case using al_step_historic by blast
qed (simp_all only: historic_roots_frame)

lemma index_room_frame:
  "index_room ok (a\<lparr>al_fee := fee\<rparr>) n \<longleftrightarrow> index_room ok a n"
  "index_room ok (a\<lparr>al_domain := d\<rparr>) n \<longleftrightarrow> index_room ok a n"
  unfolding index_room_def by simp_all

lemma kernel_run_room:
  assumes "kernel_run X a txs b" "index_room ok a (length txs + n)"
  shows "index_room ok b n"
  using assms
proof (induction arbitrary: n rule: kernel_run.induct)
  case (kr_tx a txs b t c)
  then show ?case using index_room_step [OF kr_tx.hyps(2)] kr_tx.IH [of "Suc n"] by simp
qed (simp_all add: index_room_frame)

section \<open>Progress of the host\<close>

text \<open>
  Before the first message the store holds at most statistics and the last result; it then stands
  for the empty ledger. \<open>tx_authorised\<close> says what backs an accepted transaction: a deposit needs a
  configured bridge, a request a proof that the installed configuration of the verifier accepts.
\<close>

definition kernel_inv :: "'x host_env_scheme \<Rightarrow> host \<Rightarrow> bool" where
  "kernel_inv E h \<longleftrightarrow> durable_laws E \<and> (stats_only (at_key E h) \<or> dur_inv E h)"

definition kernel_abs :: "'x host_env_scheme \<Rightarrow> host \<Rightarrow> abs_ledger" where
  "kernel_abs E h = (if stats_only (at_key E h) then empty_ledger E else dur_abs E h)"

fun tx_authorised :: "'x kernel_env_scheme \<Rightarrow> host \<Rightarrow> tx \<Rightarrow> bool" where
  "tx_authorised E h (TxDeposit recipient amount) \<longleftrightarrow>
     (\<exists>ticketer. read_string h PATH_BRIDGE_TICKETER MAX_INPUT_BYTES = Inr (Some ticketer))"
| "tx_authorised E h (TxShield req) \<longleftrightarrow>
     (\<exists>k. req = kernel_shield_req_to_host k \<and> validate_transition_proof E h (ks_proof k) Shield = Inr ())"
| "tx_authorised E h (TxTransfer req) \<longleftrightarrow>
     (\<exists>k. req = kernel_transfer_req_to_host k \<and> validate_transition_proof E h (kt_proof k) Transfer = Inr ())"
| "tx_authorised E h (TxUnshield req) \<longleftrightarrow>
     (\<exists>k. req = kernel_unshield_req_to_host k \<and> validate_transition_proof E h (ku_proof k) Unshield = Inr ())"

definition kernel_progress :: "'x kernel_env_scheme \<Rightarrow> host \<Rightarrow> tx list \<Rightarrow> host \<Rightarrow> bool" where
  "kernel_progress E h txs h' \<longleftrightarrow>
     kernel_inv E h' \<and> frozen h h' \<and> kernel_run E (kernel_abs E h) txs (kernel_abs E h')
     \<and> list_all (tx_authorised E h') txs
     \<and> (\<exists>outs ws. h_outputs h' = h_outputs h @ outs
          \<and> al_withdrawals (kernel_abs E h') = al_withdrawals (kernel_abs E h) @ ws
          \<and> list_all2 (withdrawal_released E h') outs ws)"

lemma dur_not_fresh: "dur_inv E h \<Longrightarrow> \<not> stats_only (at_key E h)"
  using stats_onlyD [of "at_key E h" KAuthDomain] by (auto simp: dur_inv_def rep_ok_def)

lemma kernel_abs_dur: "dur_inv E h \<Longrightarrow> kernel_abs E h = dur_abs E h"
  by (simp add: kernel_abs_def dur_not_fresh)

lemma kernel_inv_dur: "dur_inv E h \<Longrightarrow> kernel_inv E h"
  by (simp add: kernel_inv_def dur_inv_def)

text \<open>What the configuration backs stays backed.\<close>

lemma frozen_ticketer:
  assumes "frozen h h'" "read_string h PATH_BRIDGE_TICKETER n = Inr (Some t)"
  shows "read_string h' PATH_BRIDGE_TICKETER n = Inr (Some t)"
proof -
  have "h_store h PATH_BRIDGE_TICKETER \<noteq> None" using assms(2) ticketer_free [of h n] by auto
  then have "read_store h' PATH_BRIDGE_TICKETER = read_store h PATH_BRIDGE_TICKETER"
    using assms(1) by (simp add: frozen_def read_store_def fun_eq_iff)
  then show ?thesis using assms(2) by (simp add: read_string_def)
qed

lemma frozen_validate:
  assumes "frozen h h'" "validate_transition_proof E h pf c = Inr ()"
  shows "validate_transition_proof E h' pf c = Inr ()"
proof -
  obtain config where "read_verifier_config E h = Inr (Some config)"
    using assms(2) by (auto simp: validate_transition_proof_def load_verifier_def res_simps)
  then have "h_store h PATH_VERIFIER_CONFIG \<noteq> None" using verifier_config_free [of E h] by auto
  then have "read_verifier_config E h' = read_verifier_config E h"
    using assms(1) by (simp add: frozen_def read_verifier_config_def read_store_def)
  then show ?thesis using assms(2) by (simp add: validate_transition_proof_def load_verifier_def)
qed

lemma frozen_released: "frozen h h' \<Longrightarrow> withdrawal_released E h out w \<Longrightarrow> withdrawal_released E h' out w"
  unfolding withdrawal_released_def using frozen_ticketer by blast

lemma frozen_authorised: "frozen h h' \<Longrightarrow> tx_authorised E h t \<Longrightarrow> tx_authorised E h' t"
  by (cases t) (auto intro: frozen_ticketer frozen_validate)

lemma progress_trans:
  assumes "kernel_progress E h txs h'" "kernel_progress E h' ts h''"
  shows "kernel_progress E h (txs @ ts) h''"
proof -
  note p = assms [unfolded kernel_progress_def]
  have s: "frozen h' h''" using p(2) by blast
  obtain outs ws where o: "h_outputs h' = h_outputs h @ outs"
    "al_withdrawals (kernel_abs E h') = al_withdrawals (kernel_abs E h) @ ws" "list_all2 (withdrawal_released E h'') outs ws"
    using p(1) list_all2_mono frozen_released [OF s] by (metis (no_types, lifting))
  obtain outs' ws' where o': "h_outputs h'' = h_outputs h' @ outs'"
    "al_withdrawals (kernel_abs E h'') = al_withdrawals (kernel_abs E h') @ ws'" "list_all2 (withdrawal_released E h'') outs' ws'"
    using p(2) by blast
  have "list_all (tx_authorised E h'') (txs @ ts)"
    using p frozen_authorised [OF s] by (auto simp: list_all_iff)
  moreover have "frozen h h''" "kernel_run E (kernel_abs E h) (txs @ ts) (kernel_abs E h'')"
    using p by (blast intro: frozen.frame_trans kernel_run_trans)+
  moreover have "list_all2 (withdrawal_released E h'') (outs @ outs') (ws @ ws')"
    using o(3) o'(3) by (rule list_all2_appendI)
  ultimately show ?thesis unfolding kernel_progress_def using p(2) o(1,2) o'(1,2) by (metis append.assoc)
qed

lemma settledD: "settled h h' \<Longrightarrow> frozen h h'"
  by (simp add: settled_def)

text \<open>Progress without a transaction: the ledger is the same up to fee and domain.\<close>

lemma progress_idle:
  assumes "kernel_inv E h'" "settled h h'" "h_outputs h' = h_outputs h"
    and "kernel_abs E h' = (kernel_abs E h)\<lparr>al_fee := fee\<rparr> \<or> kernel_abs E h' = (kernel_abs E h)\<lparr>al_domain := d\<rparr>"
  shows "kernel_progress E h [] h'"
proof -
  have "al_withdrawals (kernel_abs E h') = al_withdrawals (kernel_abs E h)" using assms(4) by auto
  moreover have "kernel_run E (kernel_abs E h) [] (kernel_abs E h')"
    using assms(4) kr_fee [OF kr_Nil, of E "kernel_abs E h" fee] kr_domain [OF kr_Nil, of E "kernel_abs E h" d] by auto
  ultimately show ?thesis using assms(1-3) by (simp add: kernel_progress_def settledD)
qed

lemma progress_refl: "kernel_inv E h \<Longrightarrow> kernel_progress E h [] h"
  by (rule progress_idle [where fee = "al_fee (kernel_abs E h)"]) (simp_all add: settled.frame_refl)

lemma progress_tx:
  assumes "dur_inv E h" "dur_inv E h'" "al_step E (dur_abs E h) t (dur_abs E h')" "settled h h'"
    and "tx_authorised E h t" "tx_withdrawal t = []" "h_outputs h' = h_outputs h"
  shows "kernel_progress E h [t] h'"
proof -
  have "al_withdrawals (dur_abs E h') = al_withdrawals (dur_abs E h)"
    using kernel_run_withdrawals [OF kernel_run_step [OF assms(3)]] assms(6) by auto
  then show ?thesis
    using assms kernel_run_step [OF assms(3)] settledD [OF assms(4)] frozen_authorised [OF settledD [OF assms(4)] assms(5)]
    by (simp add: kernel_progress_def kernel_abs_dur kernel_inv_dur)
qed

section \<open>Steps of the kernel\<close>

lemma rep_ok_stat: "stat_key k \<Longrightarrow> rep_ok E m \<Longrightarrow> rep_ok E (m(k \<mapsto> v))"
  by (cases k) (simp_all add: rep_ok_def)

lemma rep_abs_stat:
  "stat_key k \<Longrightarrow> rep_abs E (m(k \<mapsto> v))
     = (rep_abs E m)\<lparr>al_fee := required_tx_fee_for_private_tx_count (rep_private_txs (m(k \<mapsto> v)))\<rparr>"
  by (cases k) (simp_all add: rep_abs_def)

lemma stat_key_path: "stat_key k \<Longrightarrow> \<not> config_path (path_of E k)"
  by (cases k) (simp_all add: path_of.simps not_config_path)

text \<open>The ledger is the same up to the required fee.\<close>

definition fee_only :: "'x host_env_scheme \<Rightarrow> host \<Rightarrow> host \<Rightarrow> bool" where
  "fee_only E h h' \<longleftrightarrow> kernel_inv E h' \<and> (\<exists>fee. kernel_abs E h' = (kernel_abs E h)\<lparr>al_fee := fee\<rparr>)"

lemma fee_only_refl: "kernel_inv E h \<Longrightarrow> fee_only E h h"
  unfolding fee_only_def by (intro conjI exI [of _ "al_fee (kernel_abs E h)"]) simp_all

lemma fee_only_trans: "fee_only E h h' \<Longrightarrow> fee_only E h' h'' \<Longrightarrow> fee_only E h h''"
  by (auto simp: fee_only_def)

lemma fee_only_then: "fee_only E h h' \<Longrightarrow> (\<And>g. kernel_inv E g \<Longrightarrow> fee_only E g (f g)) \<Longrightarrow> fee_only E h (f h')"
  by (rule fee_only_trans, assumption) (simp add: fee_only_def)

lemma fee_only_stat_write:
  assumes "kernel_inv E h" "stat_key k"
  shows "fee_only E h (write_store E (path_of E k) v h)"
proof -
  let ?h = "write_store E (path_of E k) v h"
  have at: "at_key E ?h = (at_key E h)(k \<mapsto> v)" using assms(1) by (simp add: kernel_inv_def at_key_writes)
  have fresh: "stats_only (at_key E ?h) \<longleftrightarrow> stats_only (at_key E h)"
    using assms(2) by (auto simp: at stats_only_def)
  obtain fee where "rep_abs E (at_key E ?h) = (rep_abs E (at_key E h))\<lparr>al_fee := fee\<rparr>"
    using rep_abs_stat [OF assms(2)] at by metis
  then have "kernel_abs E ?h = (kernel_abs E h)\<lparr>al_fee := if stats_only (at_key E h) then MIN_TX_FEE else fee\<rparr>"
    by (simp add: kernel_abs_def fresh dur_abs_def empty_ledger_def)
  moreover have "kernel_inv E ?h"
    using assms(1) fresh at rep_ok_stat [OF assms(2)] by (auto simp: kernel_inv_def dur_inv_def)
  ultimately show ?thesis unfolding fee_only_def by blast
qed

lemma progress_fee:
  assumes "fee_only E h h'" "settled h h'" "h_outputs h' = h_outputs h"
  shows "kernel_progress E h [] h'"
proof -
  obtain fee where "kernel_inv E h'" "kernel_abs E h' = (kernel_abs E h)\<lparr>al_fee := fee\<rparr>"
    using assms(1) by (auto simp: fee_only_def)
  then show ?thesis using assms(2,3) by (intro progress_idle [OF _ _ _ disjI1]) auto
qed

lemma progress_stat_write:
  assumes "kernel_inv E h" "stat_key k"
  shows "kernel_progress E h [] (write_store E (path_of E k) v h)"
  by (rule progress_fee [OF fee_only_stat_write [OF assms] settled_write [OF stat_key_path [OF assms(2)]]]) simp

lemma fee_only_debug: "kernel_inv E h \<Longrightarrow> fee_only E h (write_debug m h)"
proof -
  assume "kernel_inv E h"
  moreover have "kernel_inv E (write_debug m h) = kernel_inv E h" "kernel_abs E (write_debug m h) = kernel_abs E h"
    by (simp_all add: kernel_inv_def kernel_abs_def dur_inv_def dur_abs_def)
  ultimately show ?thesis using fee_only_refl [of E h] by (simp add: fee_only_def)
qed

lemma progress_debug: "kernel_inv E h \<Longrightarrow> kernel_progress E h [] (write_debug m h)"
  by (rule progress_fee [OF fee_only_debug settled_debug(2)]) (simp_all add: write_debug_def)

text \<open>A statistics write after progress.\<close>

lemma progress_then:
  assumes "kernel_progress E h txs h'" "\<And>g. kernel_inv E g \<Longrightarrow> kernel_progress E g [] (f g)"
  shows "kernel_progress E h txs (f h')"
  using progress_trans [OF assms(1) assms(2)] assms(1) by (simp add: kernel_progress_def)

lemma fee_only_note_input:
  assumes "kernel_inv E h"
  shows "fee_only E h (note_input E input h)"
proof -
  note fold = path_of.simps [where X = E, symmetric]
  show ?thesis
    unfolding note_input_def Let_def increment_u64_def fold
    by (intro fee_only_then [OF _ fee_only_debug] fee_only_then [OF _ fee_only_stat_write] fee_only_refl assms) simp_all
qed

lemma note_input_outputs: "h_outputs (note_input E input h) = h_outputs h" "h_inputs (note_input E input h) = h_inputs h"
  by (simp_all add: note_input_def Let_def increment_u64_def write_debug_def)

lemma progress_note_input: "kernel_inv E h \<Longrightarrow> kernel_progress E h [] (note_input E input h)"
  by (rule progress_fee [OF fee_only_note_input settled_note_input note_input_outputs(1)])

lemma progress_init:
  assumes "kernel_inv E h"
  shows "\<exists>h'. ensure_initialized E h = (Inr (), h') \<and> dur_inv E h' \<and> kernel_progress E h [] h'"
proof (cases "stats_only (at_key E h)")
  case True
  have laws: "durable_laws E" using assms by (simp add: kernel_inv_def)
  obtain h' where h': "ensure_initialized E h = (Inr (), h')" using ensure_initialized_fresh [OF laws True] by blast
  note start = durable_start [OF laws True h']
  have "quiet h h'" using quiet.keepsD [OF quiet_init, of h E] h' by simp
  then have "kernel_progress E h [] h'"
    using start True quiet_settled [of h h']
    by (intro progress_idle [where fee = MIN_TX_FEE])
      (auto simp: kernel_inv_dur kernel_abs_dur quiet_def kernel_abs_def dur_not_fresh empty_ledger_def)
  then show ?thesis using h' start by blast
next
  case False
  then have "dur_inv E h" using assms by (simp add: kernel_inv_def)
  then show ?thesis using ensure_initialized_idle progress_refl [OF assms] by blast
qed

text \<open>Configuration: the verifier's brings the authorisation domain, the bridge's touches no ledger key.\<close>

lemma config_write_ledger:
  assumes "dur_inv E h" "k = KVerifierConfig \<or> k = KBridgeTicketer"
  shows "dur_inv E (write_store E (path_of E k) v h)" "dur_abs E (write_store E (path_of E k) v h) = dur_abs E h"
proof -
  have laws: "durable_laws E" using assms(1) by (simp add: dur_inv_def)
  show "dur_inv E (write_store E (path_of E k) v h)" "dur_abs E (write_store E (path_of E k) v h) = dur_abs E h"
    using assms by (auto simp: dur_inv_def dur_abs_def at_key_writes [OF laws] rep_ok_def rep_abs_def)
qed

lemma domain_write_ledger:
  assumes "dur_inv E h" "is_felt d"
  shows "dur_inv E (write_felt E PATH_AUTH_DOMAIN d h)"
    "dur_abs E (write_felt E PATH_AUTH_DOMAIN d h) = (dur_abs E h)\<lparr>al_domain := d\<rparr>"
proof -
  note fold = path_of.simps [where X = E, symmetric]
  have laws: "durable_laws E" using assms(1) by (simp add: dur_inv_def)
  show "dur_inv E (write_felt E PATH_AUTH_DOMAIN d h)"
    "dur_abs E (write_felt E PATH_AUTH_DOMAIN d h) = (dur_abs E h)\<lparr>al_domain := d\<rparr>"
    using assms by (auto simp: dur_inv_def dur_abs_def at_key_writes [OF laws] rep_ok_def rep_abs_def write_felt_def fold)
qed

lemma progress_configure_verifier:
  assumes "dur_inv E h" "config_typed config" "configure_verifier E config h = (r, h')"
  shows "dur_inv E h' \<and> kernel_progress E h [] h'"
proof -
  note fold = path_of.simps [where X = E, symmetric]
  let ?h = "write_felt E PATH_AUTH_DOMAIN (kv_auth_domain config) h"
  have d: "dur_inv E ?h" "dur_abs E ?h = (dur_abs E h)\<lparr>al_domain := kv_auth_domain config\<rparr>"
    using domain_write_ledger [OF assms(1)] assms(2) by (simp_all add: config_typed_def)
  have "h' = h \<or> h' = ?h \<or> (\<exists>v. h' = write_store E (path_of E KVerifierConfig) v ?h)"
    using assms(3) by (auto simp: configure_verifier_def bind_read_act bind_act_def fold split: sum.splits)
  then have l: "dur_inv E h' \<and> (dur_abs E h' = dur_abs E h \<or> dur_abs E h' = (dur_abs E h)\<lparr>al_domain := kv_auth_domain config\<rparr>)
      \<and> h_outputs h' = h_outputs h"
    using d config_write_ledger [OF d(1), of KVerifierConfig] assms(1) by (auto simp: write_felt_def)
  have "settled h h'" using settled.keepsD [OF settled_configure_verifier, of h E config] assms(3) by simp
  then show ?thesis
    using l assms(1)
    by (intro conjI progress_idle [where fee = "al_fee (dur_abs E h)" and d = "kv_auth_domain config"])
      (auto simp: kernel_abs_dur kernel_inv_dur)
qed

lemma progress_configure_bridge:
  assumes "dur_inv E h" "configure_bridge E config h = (r, h')"
  shows "dur_inv E h' \<and> kernel_progress E h [] h'"
proof -
  note fold = path_of.simps [where X = E, symmetric]
  have "h' = h \<or> (\<exists>v. h' = write_store E (path_of E KBridgeTicketer) v h)"
    using assms(2) by (auto simp: configure_bridge_def bind_read_act write_string_def fold split: sum.splits)
  then have l: "dur_inv E h' \<and> dur_abs E h' = dur_abs E h \<and> h_outputs h' = h_outputs h"
    using config_write_ledger [OF assms(1), of KBridgeTicketer] assms(1) by auto
  have "settled h h'" using settled.keepsD [OF settled_configure_bridge, of h E config] assms(2) by simp
  then show ?thesis
    using l assms(1)
    by (intro conjI progress_idle [where fee = "al_fee (dur_abs E h)"]) (auto simp: kernel_abs_dur kernel_inv_dur)
qed

lemma decoded_message_typed:
  assumes "tze_laws X" "32 \<le> usize_bits X" "decode_kernel_inbox_message X bs = Inr m"
  shows "message_typed m"
  using assms(3) inbox_message_inverse [OF assms(1,2)]
  by (auto simp: decode_kernel_inbox_message_def res_simps envelope_fields)

lemma fetched_message_typed:
  assumes "tze_laws E" "32 \<le> usize_bits E" "fetch_kernel_message_from_dal E pointer = Inr m"
  shows "message_typed m"
  using assms(3) decoded_message_typed [OF assms(1,2)]
  by (auto simp: fetch_kernel_message_from_dal_def res_simps Let_def split: if_splits)

declare apply_kernel_message.simps [simp del]

abbreviation message_host :: "'x kernel_env_scheme \<Rightarrow> kernel_inbox_message \<Rightarrow> host \<Rightarrow> host" where
  "message_host E m h \<equiv> snd (apply_kernel_message E m h)"

lemma progress_request:
  assumes h: "dur_inv E h" "message_typed m" and room: "index_room (dur_index_fits E) (dur_abs E h) 1"
    and m: "m = MShield ks \<or> m = MTransfer kt \<or> m = MUnshield ku"
  shows "\<exists>txs. length txs \<le> 1 \<and> dur_inv E (message_host E m h) \<and> kernel_progress E h txs (message_host E m h)"
proof -
  have s: "settled h (message_host E m h)" by (rule settled.keepsD [OF settled_kernel_message])
  have refused: ?thesis if "apply_kernel_message E m h = (Inl e, h)" for e
    using that h(1) progress_refl [OF kernel_inv_dur [OF h(1)]] by (intro exI [of _ "[]"]) simp
  have accepted: ?thesis if "apply_kernel_message E m h = (r, h')" "dur_inv E h'" "al_step E (dur_abs E h) t (dur_abs E h')"
    "tx_authorised E h t" "tx_withdrawal t = []" "h_outputs h' = h_outputs h" for r h' t
    using that progress_tx [OF h(1) that(2,3) _ that(4-6)] s by (intro exI [of _ "[t]"]) simp
  consider "m = MShield ks" | "m = MTransfer kt" | "m = MUnshield ku" using m by blast
  then show ?thesis
  proof cases
    case 1
    let ?req = "kernel_shield_req_to_host ks"
    show ?thesis
    proof (cases "\<exists>e. apply_kernel_message E m h = (Inl e, h)")
      case False
      then obtain r h' where r: "apply_kernel_message E m h = (Inr (RShield r), h')" "dur_inv E h'"
        "al_step E (dur_abs E h) (TxShield ?req) (dur_abs E h')" "h_outputs h' = h_outputs h"
        and "validate_transition_proof E h (ks_proof ks) Shield = Inr ()"
        using kernel_shield_cases [OF h(1) h(2) [unfolded 1] room]
        unfolding 1 host_shield_req_for_transition_def by (simp split: if_splits) blast
      then have "tx_authorised E h (TxShield ?req)" by auto
      then show ?thesis by (intro accepted [OF r(1-3) _ _ r(4)]) simp_all
    qed (use refused in blast)
  next
    case 2
    let ?req = "kernel_transfer_req_to_host kt"
    show ?thesis
    proof (cases "\<exists>e. apply_kernel_message E m h = (Inl e, h)")
      case False
      then obtain r h' where r: "apply_kernel_message E m h = (Inr (RTransfer r), h')" "dur_inv E h'"
        "al_step E (dur_abs E h) (TxTransfer ?req) (dur_abs E h')" "h_outputs h' = h_outputs h"
        and "validate_transition_proof E h (kt_proof kt) Transfer = Inr ()"
        using kernel_transfer_cases [OF h(1) h(2) [unfolded 2] room]
        unfolding 2 host_transfer_req_for_transition_def by (simp split: if_splits) blast
      then have "tx_authorised E h (TxTransfer ?req)" by auto
      then show ?thesis by (intro accepted [OF r(1-3) _ _ r(4)]) simp_all
    qed (use refused in blast)
  next
    case 3
    let ?req = "kernel_unshield_req_to_host ku"
    have "kernel_progress E h [TxUnshield ?req] h'"
      if "message_host E m h = h'" "validate_transition_proof E h (ku_proof ku) Unshield = Inr ()" "dur_inv E h'"
        "al_step E (dur_abs E h) (TxUnshield ?req) (dur_abs E h')"
        "al_withdrawals (dur_abs E h') = al_withdrawals (dur_abs E h) @ [w]" "withdrawal_released E h out w"
        "h_outputs h' = h_outputs h @ [out]" for h' w out
    proof -
      have f: "frozen h h'" using settledD [OF s] that(1) by simp
      have "tx_authorised E h' (TxUnshield ?req)" "withdrawal_released E h' out w"
        using frozen_validate [OF f] frozen_released [OF f] that(2,6) by auto
      then show ?thesis
        using that f kernel_run_step [OF that(4)] h(1)
        by (simp add: kernel_progress_def kernel_inv_dur kernel_abs_dur del: tx_authorised.simps)
    qed
    note acc = this
    show ?thesis
    proof (cases "\<exists>e. apply_kernel_message E m h = (Inl e, h)")
      case False
      then obtain r h' rcp out where "apply_kernel_message E m h = (Inr (RUnshield r), h')" "dur_inv E h'"
        "validate_transition_proof E h (ku_proof ku) Unshield = Inr ()" "al_step E (dur_abs E h) (TxUnshield ?req) (dur_abs E h')"
        "al_withdrawals (dur_abs E h') = al_withdrawals (dur_abs E h) @ [\<lparr>wr_recipient = rcp, wr_amount = ku_v_pub ku\<rparr>]"
        "withdrawal_released E h out \<lparr>wr_recipient = rcp, wr_amount = ku_v_pub ku\<rparr>" "h_outputs h' = h_outputs h @ [out]"
        using kernel_unshield_cases [OF h(1) h(2) [unfolded 3] room]
        unfolding 3 host_unshield_req_for_transition_def by (simp split: if_splits) blast
      then show ?thesis using acc by (intro exI [of _ "[TxUnshield ?req]"]) simp
    qed (use refused in blast)
  qed
qed

lemma progress_direct:
  assumes "dur_inv E h" "message_typed m" "index_room (dur_index_fits E) (dur_abs E h) 1" "\<not> is_dal_pointer m"
  shows "\<exists>txs. length txs \<le> 1 \<and> dur_inv E (message_host E m h) \<and> kernel_progress E h txs (message_host E m h)"
proof (cases m)
  case (MConfigureVerifier c)
  then show ?thesis
    using assms(1,2) progress_refl [OF kernel_inv_dur [OF assms(1)]] progress_configure_verifier [OF assms(1), of "sv_config c"]
    by (intro exI [of _ "[]"]) (auto simp: apply_kernel_message.simps bind_read_act bind_act_def split: sum.split prod.split)
next
  case (MConfigureBridge c)
  then show ?thesis
    using assms(1) progress_refl [OF kernel_inv_dur [OF assms(1)]] progress_configure_bridge [OF assms(1), of "sb_config c"]
    by (intro exI [of _ "[]"]) (auto simp: apply_kernel_message.simps bind_read_act bind_act_def split: sum.split prod.split)
qed (use assms progress_request [OF assms(1-3)] in auto)

lemma progress_message:
  assumes "dur_inv E h" "32 \<le> usize_bits E" "message_typed m" "index_room (dur_index_fits E) (dur_abs E h) 1"
  shows "\<exists>txs. length txs \<le> 1 \<and> dur_inv E (message_host E m h) \<and> kernel_progress E h txs (message_host E m h)"
proof (cases m)
  case (MDalPointer pointer)
  have tze: "tze_laws E" using assms(1) by (simp add: dur_inv_def durable_laws_def)
  show ?thesis
  proof (cases "\<exists>n. fetch_kernel_message_from_dal E pointer = Inr n \<and> \<not> is_dal_pointer n")
    case True
    then obtain n where n: "fetch_kernel_message_from_dal E pointer = Inr n" "\<not> is_dal_pointer n" by blast
    show ?thesis
      using n progress_direct [OF assms(1) fetched_message_typed [OF tze assms(2) n(1)] assms(4) n(2)]
      by (simp add: MDalPointer apply_kernel_message.simps bind_read_act)
  next
    case False
    then have "message_host E m h = h"
      by (auto simp: MDalPointer apply_kernel_message.simps bind_read_act split: sum.split)
    then show ?thesis
      using assms(1) progress_refl [OF kernel_inv_dur [OF assms(1)]] by (intro exI [of _ "[]"]) simp
  qed
qed (use progress_direct [OF assms(1,3,4)] in simp_all)

section \<open>Inputs\<close>

lemma progress_room:
  assumes "kernel_progress E h txs h'" "index_room ok (kernel_abs E h) (length txs + n)"
  shows "index_room ok (kernel_abs E h') n"
  using assms kernel_run_room by (auto simp: kernel_progress_def)

lemma progress_deposit:
  assumes h: "dur_inv E h" "index_room (dur_index_fits E) (dur_abs E h) 1" and v: "validate_bridge_deposit E h req = Inr ()"
  shows "\<exists>txs. length txs \<le> 1 \<and> kernel_progress E h txs (snd (apply_deposit E (dur_ops E) (bd_recipient req) (bd_amount req) h))"
    (is "\<exists>txs. _ \<and> kernel_progress E h txs (snd ?r)")
proof -
  let ?t = "TxDeposit (bd_recipient req) (bd_amount req)"
  have auth: "tx_authorised E h ?t" using v by (auto simp: validate_bridge_deposit_def res_simps)
  have q: "quiet h (snd ?r)" by (rule quiet.keepsD [OF quiet_deposit])
  have snd_r: "snd (apply_tx E (dur_ops E) ?t h) = snd ?r" by (simp add: accepted_def case_prod_unfold)
  show ?thesis
  proof (cases "tx_ok E (dur_abs E h) ?t")
    case True
    then have "dur_inv E (snd ?r) \<and> al_step E (dur_abs E h) ?t (dur_abs E (snd ?r))"
      using dur.apply_tx_cases [OF h(1) _ h(2), of ?t] snd_r by (metis snd_conv tx_typed.simps(1))
    then have "kernel_progress E h [?t] (snd ?r)"
      using progress_tx [OF h(1) _ _ quiet_settled [OF q] auth] q by (simp add: quiet_def)
    then show ?thesis by (intro exI [of _ "[?t]"]) simp
  next
    case False
    then have "snd ?r = h" using dur.apply_tx_cases [OF h(1) _ h(2), of ?t] snd_r by (metis snd_conv tx_typed.simps(1))
    then show ?thesis using progress_refl [OF kernel_inv_dur [OF h(1)]] by (intro exI [of _ "[]"]) simp
  qed
qed

lemma progress_result:
  assumes "kernel_progress E h txs h'"
  shows "kernel_progress E h txs (snd (result_of_transition r h'))"
proof -
  have "kernel_progress E h txs (ledger_debug m h')" for m
    unfolding ledger_debug_def by (rule progress_then [OF assms progress_debug])
  then show ?thesis using assms by (auto simp: result_of_transition_def split: sum.split error.split)
qed

lemma decoded_kernel_message:
  assumes "decode_rollup_message E bs address = Inr (PKernel m)"
  shows "\<exists>contents. decode_kernel_inbox_message E contents = Inr m"
proof -
  obtain rest inbox where "inbox_parse E bs = Some (rest, inbox)"
    using assms by (auto simp: decode_rollup_message_def res_simps)
  then show ?thesis
    using assms by (cases inbox) (auto simp: decode_rollup_message_def res_simps split: if_splits option.splits)
qed

lemma progress_input:
  assumes "kernel_inv E h" "32 \<le> usize_bits E" "index_room (dur_index_fits E) (kernel_abs E h) 1"
  shows "\<exists>txs. length txs \<le> 1 \<and> kernel_progress E h txs (snd (apply_input_message E input h))"
proof -
  have tze: "tze_laws E" using assms(1) by (auto simp: kernel_inv_def durable_laws_def)
  have idle: "\<exists>txs. length txs \<le> 1 \<and> kernel_progress E h txs h"
    using progress_refl [OF assms(1)] by (intro exI [of _ "[]"]) simp
  have debug: "\<exists>txs. length txs \<le> 1 \<and> kernel_progress E h txs (ledger_debug m h)" for m
    unfolding ledger_debug_def using progress_debug [OF assms(1)] by (intro exI [of _ "[]"]) simp
  obtain h1 where h1: "ensure_initialized E h = (Inr (), h1)" "dur_inv E h1" "kernel_progress E h [] h1"
    using progress_init [OF assms(1)] by blast
  have room: "index_room (dur_index_fits E) (dur_abs E h1) 1"
    using progress_room [OF h1(3)] assms(3) kernel_abs_dur [OF h1(2)] by (metis add_0 list.size(3))
  have after: "\<exists>txs. length txs \<le> 1 \<and> kernel_progress E h txs (snd (result_of_transition r h2))"
    if "length txs \<le> 1" "kernel_progress E h1 txs h2" for txs r h2
    using progress_result [OF progress_trans [OF h1(3) that(2)]] that(1) by auto
  have deposit: "\<exists>txs. length txs \<le> 1 \<and> kernel_progress E h txs (snd (let (result, h) =
      bind_act (read_act (\<lambda>h. validate_bridge_deposit E h req)) (\<lambda>_.
      bind_act (apply_deposit E (dur_ops E) (bd_recipient req) (bd_amount req)) (\<lambda>_. ret_act RDeposit)) h1
      in result_of_transition result h))" for req
  proof (cases "validate_bridge_deposit E h1 req")
    case (Inl e)
    then show ?thesis using after [OF _ progress_refl [OF kernel_inv_dur [OF h1(2)]]] by (simp add: bind_read_act)
  next
    case (Inr u)
    then show ?thesis
      using progress_deposit [OF h1(2) room, of req] after
      by (auto simp: bind_read_act bind_act_def split: prod.splits sum.splits)
  qed
  show ?thesis
  proof (cases "decode_rollup_message E (im_payload input) (host_rollup_address E)")
    case (Inl e)
    then show ?thesis
      using idle debug by (cases e) (auto simp: apply_input_message_def split: sum.split)
  next
    case (Inr message)
    show ?thesis
    proof (cases message)
      case (PKernel m)
      have "message_typed m"
        using Inr PKernel decoded_message_typed [OF tze assms(2)] decoded_kernel_message by blast
      from progress_message [OF h1(2) assms(2) this room] obtain txs where
        "length txs \<le> 1" "kernel_progress E h1 txs (message_host E m h1)" by blast
      from after [OF this] show ?thesis using Inr PKernel h1(1) by (simp add: apply_input_message_def case_prod_unfold Let_def)
    qed (use Inr h1(1) deposit idle in \<open>auto simp: apply_input_message_def\<close>)
  qed
qed

lemma progress_process:
  assumes "kernel_inv E h" "32 \<le> usize_bits E" "index_room (dur_index_fits E) (kernel_abs E h) 1"
  shows "\<exists>txs. length txs \<le> 1 \<and> kernel_progress E h txs (snd (process_input E input h))"
proof -
  note fold = path_of.simps [where X = E, symmetric]
  let ?h = "note_input E input h"
  have n: "kernel_progress E h [] ?h" by (rule progress_note_input [OF assms(1)])
  then have inv: "kernel_inv E ?h" by (simp add: kernel_progress_def)
  have room: "index_room (dur_index_fits E) (kernel_abs E ?h) 1" using progress_room [OF n] assms(3) by simp
  obtain txs r h' where h': "length txs \<le> 1" "apply_input_message E input ?h = (r, h')" "kernel_progress E ?h txs h'"
    using progress_input [OF inv assms(2) room, of input] by (metis prod.collapse)
  have p: "kernel_progress E h txs h'" using progress_trans [OF n h'(3)] by simp
  have "kernel_progress E h txs (write_store E PATH_LAST_RESULT v h')" for v
    unfolding fold by (intro progress_then [OF p] progress_stat_write) simp_all
  moreover have "kernel_progress E h txs (write_debug m h')" for m
    by (rule progress_then [OF p progress_debug])
  ultimately show ?thesis
    using p h'(1,2)
    by (intro exI [of _ txs]) (auto simp: process_input_def bind_act_def split: sum.split option.split error.split)
qed

lemma fee_only_next_input:
  assumes "kernel_inv E h" "next_input h = (i, h')"
  shows "fee_only E h h'"
proof -
  have "at_key E h' = at_key E h" using assms(2) by (auto simp: next_input_def at_key_def fun_eq_iff split: list.splits)
  then have "kernel_inv E h' = kernel_inv E h" "kernel_abs E h' = kernel_abs E h"
    by (simp_all add: kernel_inv_def kernel_abs_def dur_inv_def dur_abs_def)
  then show ?thesis using fee_only_refl [OF assms(1)] by (simp add: fee_only_def)
qed

lemma progress_next_input:
  assumes "kernel_inv E h" "next_input h = (i, h')"
  shows "kernel_progress E h [] h'"
proof -
  have "h_store h' = h_store h" "h_outputs h' = h_outputs h"
    using assms(2) by (auto simp: next_input_def split: list.splits)
  moreover obtain fee where "kernel_inv E h'" "kernel_abs E h' = (kernel_abs E h)\<lparr>al_fee := fee\<rparr>"
    using fee_only_next_input [OF assms] by (auto simp: fee_only_def)
  moreover have "kernel_run E (kernel_abs E h) [] ((kernel_abs E h)\<lparr>al_fee := fee\<rparr>)" for fee
    by (rule kr_fee [OF kr_Nil])
  ultimately show ?thesis by (simp add: kernel_progress_def frozen_def)
qed

lemma progress_loop:
  assumes "kernel_inv E h" "32 \<le> usize_bits E" "index_room (dur_index_fits E) (kernel_abs E h) (length (h_inputs h))"
  shows "\<exists>txs. length txs \<le> length (h_inputs h) \<and> kernel_progress E h txs (snd (run_loop E saw h))"
  using assms
proof (induction E saw h rule: run_loop.induct)
  case (1 E saw h)
  obtain i h1 where i: "next_input h = (i, h1)" by fastforce
  note p1 = progress_next_input [OF "1.prems"(1) i]
  show ?case
  proof (cases i)
    case None
    then show ?thesis using p1 i by (intro exI [of _ "[]"]) (simp add: run_loop.simps)
  next
    case (Some input)
    have len: "length (h_inputs h) = Suc (length (h_inputs h1))"
      using i Some by (auto simp: next_input_def split: list.splits)
    have inv: "kernel_inv E h1" using p1 by (simp add: kernel_progress_def)
    have room: "index_room (dur_index_fits E) (kernel_abs E h1) (Suc (length (h_inputs h1)))"
      using progress_room [OF p1] "1.prems"(3) len by simp
    obtain r h2 where r: "process_input E input h1 = (r, h2)" by fastforce
    obtain txs where txs: "length txs \<le> 1" "kernel_progress E h1 txs h2"
      using progress_process [OF inv "1.prems"(2) index_room_mono [OF room], of input] r by auto
    note p2 = progress_trans [OF p1 txs(2)]
    show ?thesis
    proof (cases r)
      case (Inl e)
      then show ?thesis using p2 txs(1) i Some r len by (intro exI [of _ txs]) (simp add: run_loop.simps)
    next
      case (Inr u)
      have "h_inputs h2 = h_inputs h1" using process_input_inputs [of E input h1] r by simp
      moreover have "index_room (dur_index_fits E) (kernel_abs E h2) (length (h_inputs h1))"
        using progress_room [OF txs(2)] index_room_mono [OF room] txs(1) by simp
      ultimately obtain ts where "length ts \<le> length (h_inputs h1)" "kernel_progress E h2 ts (snd (run_loop E True h2))"
        using "1.IH" [OF i [symmetric] Some r [symmetric] Inr _ "1.prems"(2)] txs(2) by (auto simp: kernel_progress_def)
      then show ?thesis
        using progress_trans [OF p2] txs(1) i Some r Inr len
        by (intro exI [of _ "txs @ ts"]) (simp add: run_loop.simps)
    qed
  qed
qed

end
