(* ===== verification/KernelSafety.thy ===== *)
theory KernelSafety
  imports KernelSpec
begin

text \<open>
  The properties of the rollup kernel: what a run does to the ledger, to the outbox and to the
  configuration, that it consumes its inputs, that a payload of the data-availability layer is the
  one the pointer names, that results and error messages fit their encoding, and that signed
  configurations authenticate.
\<close>

section \<open>The whole run\<close>



lemma frozen_loop: "frozen h (snd (run_loop E saw h))"
proof (induction E saw h rule: run_loop.induct)
  case (1 E saw h)
  obtain i h1 where i: "next_input h = (i, h1)" by fastforce
  then have f: "frozen h h1" by (auto simp: next_input_def frozen_def split: list.splits)
  show ?case
  proof (cases i)
    case (Some input)
    obtain r h2 where r: "process_input E input h1 = (r, h2)" by fastforce
    then have "frozen h1 h2" using settledD [OF settled.keepsD [OF settled_process_input, of h1 E input]] by simp
    then have f2: "frozen h h2" by (rule frozen.frame_trans [OF f])
    show ?thesis
    proof (cases r)
      case (Inr u)
      then show ?thesis
        using frozen.frame_trans [OF f2 "1.IH" [OF i [symmetric] Some r [symmetric] Inr]] i Some r by (simp add: run_loop.simps)
    qed (use f2 i Some r in \<open>simp add: run_loop.simps\<close>)
  qed (use f i in \<open>simp add: run_loop.simps\<close>)
qed

lemma frozen_run: "frozen h (snd (run_with_host E h))"
proof -
  have "frozen h (write_debug m (snd (run_loop E False h)))" for m
    using frozen_loop [of h E False] by (simp add: frozen_def write_debug_def)
  then show ?thesis
    using frozen_loop [of h E False] by (auto simp: run_with_host_def bind_act_def split: prod.splits sum.splits if_splits)
qed

section \<open>Errors and results\<close>

lemma bounded_error_message_cases:
  "bounded_error_message m =
     (if length m \<le> 4096 then Inr m
      else if is_char_boundary m 4081 then Inr (take 4081 m @ ''... [truncated]'')
      else Inl (Panic ''assertion failed: self.is_char_boundary(new_len)''))"
  by (simp add: bounded_error_message_def MAX_RESULT_ERROR_MESSAGE_BYTES_def truncate_string_def Let_def)

lemma process_input_result: "fst (process_input E input h) = Inr () \<or> (\<exists>m. fst (process_input E input h) = Inl (Panic m))"
proof -
  have b: "bounded_error_message m = Inl e \<Longrightarrow> \<exists>p. e = Panic p" for m e
    by (auto simp: bounded_error_message_cases split: if_splits)
  have t: "fst (result_of_transition r g) = Inl e \<Longrightarrow> \<exists>p. e = Panic p" for r g e
    using b by (auto simp: result_of_transition_def split: sum.splits error.splits)
  have a: "fst (apply_input_message E input g) = Inl e \<Longrightarrow> \<exists>p. e = Panic p" for g e
    using b t by (auto simp: apply_input_message_def Let_def case_prod_unfold
        split: sum.splits error.splits parsed_rollup_message.splits prod.splits)
  show ?thesis
    using a by (auto simp: process_input_def bind_act_def split: prod.splits sum.splits option.splits error.splits)
      (metis fst_conv)+
qed

lemma run_loop_result:
  "case run_loop E saw h of
     (Inr b, h') \<Rightarrow> h_inputs h' = [] \<and> b = (saw \<or> h_inputs h \<noteq> [])
   | (Inl (Panic m), h') \<Rightarrow> \<exists>n. 0 < n \<and> n \<le> length (h_inputs h) \<and> h_inputs h' = drop n (h_inputs h)
   | (Inl (Err m), h') \<Rightarrow> False"
proof (induction E saw h rule: run_loop.induct)
  case (1 E saw h)
  show ?case
  proof (cases "h_inputs h")
    case Nil
    then show ?thesis by (simp add: run_loop.simps [of E saw h] next_input_def)
  next
    case (Cons input rest)
    define h1 where "h1 = h\<lparr>h_inputs := rest\<rparr>"
    have i: "next_input h = (Some input, h1)" using Cons by (simp add: next_input_def h1_def)
    obtain r h2 where r: "process_input E input h1 = (r, h2)" by fastforce
    have h2: "h_inputs h2 = rest" using process_input_inputs [of E input h1] r by (simp add: h1_def)
    show ?thesis
    proof (cases r)
      case (Inl e)
      then obtain m where "e = Panic m" using process_input_result [of E input h1] r by auto
      then show ?thesis
        using i r Inl h2 Cons by (auto simp: run_loop.simps [of E saw h] intro!: exI [of _ "Suc 0"])
    next
      case (Inr u)
      have "run_loop E saw h = run_loop E True h2" using i r Inr by (simp add: run_loop.simps [of E saw h])
      with "1.IH" [OF i [symmetric] refl r [symmetric] Inr] show ?thesis
        by (auto simp: h2 Cons split: prod.splits sum.splits error.splits)
    qed
  qed
qed

text \<open>An input that is not for this rollup changes nothing but the statistics.\<close>

lemma ignored_input:
  assumes "decode_rollup_message E (im_payload input) (host_rollup_address E) = Inr PIgnore"
  shows "process_input E input h = (Inr (), note_input E input h)"
  using assms by (simp add: process_input_def bind_act_def apply_input_message_def)

lemma ignored_loop:
  assumes "\<forall>i \<in> set (h_inputs h). decode_rollup_message E (im_payload i) (host_rollup_address E) = Inr PIgnore"
    and "kernel_inv E h"
  shows "\<exists>h' b. run_loop E saw h = (Inr b, h') \<and> h_inputs h' = [] \<and> fee_only E h h' \<and> h_outputs h' = h_outputs h"
  using assms
proof (induction "h_inputs h" arbitrary: h saw)
  case Nil
  then have "run_loop E saw h = (Inr saw, h)" by (simp add: run_loop.simps [of E saw h] next_input_def)
  then show ?case using Nil(1) fee_only_refl [OF Nil.prems(2)] by auto
next
  case (Cons input rest)
  define h1 where "h1 = h\<lparr>h_inputs := rest\<rparr>"
  let ?h = "note_input E input h1"
  have i: "next_input h = (Some input, h1)" using Cons(2) [symmetric] by (simp add: next_input_def h1_def)
  have p: "fee_only E h ?h"
    by (rule fee_only_then [OF fee_only_next_input [OF Cons.prems(2) i]]) (rule fee_only_note_input)
  have "process_input E input h1 = (Inr (), ?h)"
    using ignored_input Cons.prems(1) Cons(2) by (metis list.set_intros(1))
  then have step: "run_loop E saw h = run_loop E True ?h" using i by (simp add: run_loop.simps [of E saw h])
  have f: "h_inputs ?h = rest" "h_outputs ?h = h_outputs h" by (simp_all add: note_input_outputs h1_def)
  have "kernel_inv E ?h" using p by (simp add: fee_only_def)
  then obtain h' b where "run_loop E True ?h = (Inr b, h')" "h_inputs h' = []" "fee_only E ?h h'" "h_outputs h' = h_outputs ?h"
    using Cons.hyps(1) [of ?h True] f(1) Cons.prems(1) Cons(2) by (metis list.set_intros(2))
  then show ?case using step f(2) fee_only_trans [OF p] by metis
qed

section \<open>Typed results\<close>








section \<open>Configuration\<close>

lemma signed_verifies:
  assumes "is_felt m"
  shows "verify_wots_signature_against_leaf X m (derive_auth_pub_seed X ask) i (fst (wots_sign X ask i m)) (auth_leaf_hash X ask i)
    = Inr ()"
  using assms recover_wots_sign [of m X ask i]
  by (simp add: verify_wots_signature_against_leaf_def wots_sign_nth(1) auth_leaf_hash_leaf is_felt_def)

text \<open>The compiled administrator key is the one whose secret is \<open>ask\<close>.\<close>

definition admin_key :: "'x kernel_env_scheme \<Rightarrow> felt \<Rightarrow> bool" where
  "admin_key E ask \<longleftrightarrow> compiled_config_admin_pub_seed E = Inr (derive_auth_pub_seed E ask)
     \<and> compiled_verifier_config_leaf E = Inr (auth_leaf_hash E ask KERNEL_VERIFIER_CONFIG_KEY_INDEX)
     \<and> compiled_bridge_config_leaf E = Inr (auth_leaf_hash E ask KERNEL_BRIDGE_CONFIG_KEY_INDEX)"

lemma dev_admin_key:
  assumes "debug_build E" "admin_pub_seed_hex E = None" "verifier_admin_leaf_hex E = None" "bridge_admin_leaf_hex E = None"
  shows "admin_key E (dev_config_admin_ask E)"
  using assms by (simp add: admin_key_def compiled_config_admin_pub_seed_def compiled_verifier_config_leaf_def
      compiled_bridge_config_leaf_def)

lemma config_encodes:
  assumes "tze_laws X" "config_typed c"
  obtains b where "encode_kernel_verifier_config X c = Inr b" "length b = 128"
proof -
  have "fits wire_kernel_verifier_config (config_to_wire c)" "wire_size wire_kernel_verifier_config (config_to_wire c) = 128"
    using assms(2) by (simp_all add: config_typed_def hashes_typed_def is_felt_def wire_kernel_verifier_config_def wire_program_hashes_def
        config_to_wire_def program_hashes_to_wire_def felt_to_wire_def wire_felt_def FELT252_BYTES_def)
  then show ?thesis using that encode_tze_fits [OF assms(1)] by (metis encode_kernel_verifier_config_def)
qed

lemma config_decodes:
  assumes "tze_laws X" "config_typed c" "encode_kernel_verifier_config X c = Inr b"
  shows "decode_kernel_verifier_config X b = Inr c"
  using assms config_inverse decode_tze_inverse [OF assms(1)]
  by (auto simp: decode_kernel_verifier_config_def encode_kernel_verifier_config_def res_simps)

lemma authentic_config:
  assumes "blake_laws E" "admin_key E ask" "sign_kernel_verifier_config E ask config = Inr sc"
  shows "authenticate_verifier_config E sc = Inr ()"
  using assms signed_verifies [of _ E ask KERNEL_VERIFIER_CONFIG_KEY_INDEX]
  by (auto simp: authenticate_verifier_config_def sign_kernel_verifier_config_def admin_key_def res_simps
      kernel_verifier_config_sighash_def is_felt_def)

lemma configure_fresh:
  assumes h: "dur_inv E h" "h_store h PATH_VERIFIER_CONFIG = None" and c: "config_typed config"
  shows "\<exists>h'. configure_verifier E config h = (Inr (), h') \<and> dur_inv E h'
     \<and> dur_abs E h' = (dur_abs E h)\<lparr>al_domain := kv_auth_domain config\<rparr>
     \<and> read_verifier_config E h' = Inr (Some config)"
proof -
  note fold = path_of.simps [where X = E, symmetric]
  have laws: "durable_laws E" and tze: "tze_laws E" using h(1) by (simp_all add: dur_inv_def durable_laws_def)
  obtain b where b: "encode_kernel_verifier_config E config = Inr b" "length b = 128" by (rule config_encodes [OF tze c])
  let ?h = "write_felt E PATH_AUTH_DOMAIN (kv_auth_domain config) h"
  let ?h' = "write_store E (path_of E KVerifierConfig) b ?h"
  have d: "dur_inv E ?h" "dur_abs E ?h = (dur_abs E h)\<lparr>al_domain := kv_auth_domain config\<rparr>"
    using domain_write_ledger [OF h(1)] c by (simp_all add: config_typed_def)
  have "read_verifier_config E h = Inr None" using verifier_config_free h(2) by blast
  then have "configure_verifier E config h = (Inr (), ?h')"
    using b(1) by (simp add: configure_verifier_def bind_read_act bind_act_def from_kernel_config_def fold)
  moreover have "read_store ?h' PATH_VERIFIER_CONFIG MAX_STORE_BINARY_BYTES = Some b"
    using b(2) by (simp add: fold read_store_key at_key_writes [OF laws] MAX_STORE_BINARY_BYTES_def)
  then have "read_verifier_config E ?h' = Inr (Some config)"
    using config_decodes [OF tze c b(1)] by (simp add: read_verifier_config_def)
  ultimately show ?thesis
    using config_write_ledger [OF d(1), of KVerifierConfig b] d(2) by (intro exI [of _ ?h']) simp
qed

lemma wots_sign_felts:
  assumes "blake_laws X"
  shows "felts (fst (wots_sign X ask k m))"
proof -
  have "is_felt x \<Longrightarrow> is_felt (foldl (\<lambda>c s. xmss_chain_step X c p k i (word_of_nat s)) x steps)" for x p i and steps :: "nat list"
    by (induction steps arbitrary: x) (simp_all add: xmss_chain_step_def is_felt_def assms Let_def)
  moreover have "is_felt (wots_sk_chain X ask k i)" for i
    by (simp add: wots_sk_chain_def Let_def is_felt_def assms)
  ultimately show ?thesis
    by (simp add: felts_def list_all_length wots_sign_nth xmss_hash_chain_def)
qed

lemma signed_config_accepted:
  assumes "dur_inv E h" "h_store h PATH_VERIFIER_CONFIG = None" "config_typed config" "admin_key E ask"
  shows "\<exists>sc h'. sign_kernel_verifier_config E ask config = Inr sc \<and> message_typed (MConfigureVerifier sc)
     \<and> apply_kernel_message E (MConfigureVerifier sc) h = (Inr RConfigured, h') \<and> dur_inv E h'
     \<and> dur_abs E h' = (dur_abs E h)\<lparr>al_domain := kv_auth_domain config\<rparr> \<and> read_verifier_config E h' = Inr (Some config)"
proof -
  have laws: "tze_laws E" "blake_laws E" using assms(1) by (simp_all add: dur_inv_def durable_laws_def)
  obtain b where "encode_kernel_verifier_config E config = Inr b" by (rule config_encodes [OF laws(1) assms(3)])
  then obtain sc where sc: "sign_kernel_verifier_config E ask config = Inr sc" "sv_config sc = config" "felts (sv_signature sc)"
    by (simp add: sign_kernel_verifier_config_def kernel_verifier_config_sighash_def wots_sign_felts laws(2))
  obtain h' where "configure_verifier E config h = (Inr (), h')" "dur_inv E h'"
    "dur_abs E h' = (dur_abs E h)\<lparr>al_domain := kv_auth_domain config\<rparr>" "read_verifier_config E h' = Inr (Some config)"
    using configure_fresh [OF assms(1-3)] by blast
  with sc authentic_config [OF laws(2) assms(4) sc(1)] assms(3) show ?thesis
    by (intro exI [of _ sc] exI [of _ h']) (simp add: apply_kernel_message.simps bind_read_act bind_act_def)
qed

section \<open>Properties\<close>

definition sample_kernel_env :: kernel_env where
  "sample_kernel_env = verify_env.extend sample_verify_env (kernel_env.fields
     (\<lambda>b. case b of [] \<Rightarrow> None | t # rest \<Rightarrow> if t = 0 then Some ([], InboxInternal) else Some ([], InboxExternal rest))
     (\<lambda>b. Some (take 20 b, drop 20 b)) (\<lambda>t a. Some [1]) (\<lambda>s. True) (\<lambda>r t d. Some [2]) None None None True (\<lambda>m. ''message''))"

lemma sample_kernel_laws: "durable_laws sample_kernel_env"
proof -
  have "blake2s_digest sample_kernel_env = blake2s_digest sample_env" "hex_encode sample_kernel_env = hex_encode sample_env"
    "hex_decode sample_kernel_env = hex_decode sample_env" "tze_write sample_kernel_env = tze_write sample_env"
    "tze_read sample_kernel_env = tze_read sample_env" "put_content sample_kernel_env = put_content sample_env"
    by (simp_all add: sample_kernel_env_def sample_verify_env_def sample_env_def sample_ext_def ext.defs host_env.defs verify_env.defs)
  then show ?thesis
    using sample_env_laws unfolding durable_laws_def blake_laws_def hex_laws_def tze_laws_def overwriting_def by simp
qed

lemma sample_kernel_sel:
  "usize_bits sample_kernel_env = 64" "with_proof_verifier sample_kernel_env" "debug_build sample_kernel_env"
  "admin_pub_seed_hex sample_kernel_env = None" "verifier_admin_leaf_hex sample_kernel_env = None"
  "bridge_admin_leaf_hex sample_kernel_env = None" "host_rollup_address sample_kernel_env = replicate 20 7"
  by (simp_all add: sample_kernel_env_def sample_verify_env_def sample_env_def sample_ext_def ext.defs host_env.defs
      verify_env.defs kernel_env.defs)

definition sample_host :: host where
  "sample_host = empty_host\<lparr>h_inputs := [\<lparr>im_level = 5, im_id = 0, im_payload = [0]\<rparr>, \<lparr>im_level = 5, im_id = 1, im_payload = 1 # replicate 20 7\<rparr>]\<rparr>"










text \<open>
  C9: the configuration is installed once. Whatever the inputs, and whatever a host does on a
  write, a run leaves an installed verifier configuration, the authorisation domain stored with it
  and an installed bridge ticketer as they are.
\<close>

theorem kernel_configuration_frozen:
  assumes "h_store h PATH_VERIFIER_CONFIG = Some config" "h_store h PATH_AUTH_DOMAIN = Some domain"
    and "h_store h PATH_BRIDGE_TICKETER = Some ticketer" "run_with_host E h = (r, h')"
  shows "h_store h' PATH_VERIFIER_CONFIG = Some config \<and> h_store h' PATH_AUTH_DOMAIN = Some domain
     \<and> h_store h' PATH_BRIDGE_TICKETER = Some ticketer"
  using frozen_run [of h E] assms by (auto simp: frozen_def)

theorem kernel_configuration_frozen_witness:
  "h_store (snd (run_with_host sample_kernel_env (sample_host\<lparr>h_store := (\<lambda>p. Some [7])\<rparr>))) PATH_VERIFIER_CONFIG = Some [7]"
  using kernel_configuration_frozen [of "sample_host\<lparr>h_store := (\<lambda>p. Some [7])\<rparr>" _ _ _ sample_kernel_env, OF _ _ _ prod.collapse [symmetric]]
  by simp

text \<open>
  C10: the main loop comes to an end and handles every error. For any host and any inputs the run
  ends; it never ends in an error. Either all inputs have been consumed, or the kernel panicked on
  one of them and has consumed exactly the inputs up to that one.
\<close>

theorem kernel_consumes_inputs:
  "case run_with_host E h of
     (Inr u, h') \<Rightarrow> h_inputs h' = []
   | (Inl (Panic m), h') \<Rightarrow> \<exists>n. 0 < n \<and> n \<le> length (h_inputs h) \<and> h_inputs h' = drop n (h_inputs h)
   | (Inl (Err m), h') \<Rightarrow> False"
  using run_loop_result [where E = E and saw = False and h = h]
  by (auto simp: run_with_host_def bind_act_def write_debug_def split: prod.splits sum.splits error.splits if_splits)

text \<open>
  Inputs that are not for this rollup never stop the kernel. When every input decodes to a
  message to ignore, the run ends normally with all inputs consumed, nothing on the outbox, and the
  ledger changed in nothing but the required fee.
\<close>

theorem foreign_inputs_are_skipped:
  assumes "kernel_inv E h"
    and "\<forall>i \<in> set (h_inputs h). decode_rollup_message E (im_payload i) (host_rollup_address E) = Inr PIgnore"
  shows "\<exists>h'. run_with_host E h = (Inr (), h') \<and> h_inputs h' = [] \<and> h_outputs h' = h_outputs h
     \<and> kernel_inv E h' \<and> (\<exists>fee. kernel_abs E h' = (kernel_abs E h)\<lparr>al_fee := fee\<rparr>)"
proof -
  obtain h1 b where h1: "run_loop E False h = (Inr b, h1)" "h_inputs h1 = []" "fee_only E h h1" "h_outputs h1 = h_outputs h"
    using ignored_loop [OF assms(2,1)] by blast
  have "fee_only E h (write_debug m h1)" for m by (rule fee_only_then [OF h1(3) fee_only_debug])
  with h1 show ?thesis
    by (cases b) (auto simp: run_with_host_def bind_act_def fee_only_def write_debug_def)
qed

theorem foreign_inputs_are_skipped_witness:
  "\<exists>h'. run_with_host sample_kernel_env (sample_host\<lparr>h_inputs := take 1 (h_inputs sample_host)\<rparr>) = (Inr (), h') \<and> h_inputs h' = []"
proof -
  let ?h = "sample_host\<lparr>h_inputs := take 1 (h_inputs sample_host)\<rparr>"
  have "stats_only (at_key sample_kernel_env ?h)" by (simp add: sample_host_def empty_host_def at_key_def stats_only_def)
  then have "kernel_inv sample_kernel_env ?h" by (simp add: kernel_inv_def sample_kernel_laws)
  moreover have "\<forall>i \<in> set (h_inputs ?h). decode_rollup_message sample_kernel_env (im_payload i) (host_rollup_address sample_kernel_env) = Inr PIgnore"
    by (simp add: sample_host_def decode_rollup_message_def sample_kernel_env_def verify_env.defs kernel_env.defs
        sample_verify_env_def sample_env_def sample_ext_def ext.defs host_env.defs)
  ultimately show ?thesis using foreign_inputs_are_skipped by blast
qed


lemma sample_kernel_initial:
  obtains h where "dur_inv sample_kernel_env h" "dur_abs sample_kernel_env h = empty_ledger sample_kernel_env"
    "h_store h PATH_VERIFIER_CONFIG = None"
proof -
  have fresh: "stats_only (at_key sample_kernel_env empty_host)" by (simp add: empty_host_def at_key_def stats_only_def)
  obtain h where h: "ensure_initialized sample_kernel_env empty_host = (Inr (), h)"
    using ensure_initialized_fresh [OF sample_kernel_laws fresh] by blast
  have "quiet empty_host h" using quiet.keepsD [OF quiet_init, of empty_host sample_kernel_env] h by simp
  then have "h_store h PATH_VERIFIER_CONFIG = None" by (simp add: quiet_def empty_host_def)
  then show ?thesis using durable_start [OF sample_kernel_laws fresh h] that by blast
qed




text \<open>
  C11: a payload from the data-availability layer is the one the pointer names. Whatever the pages
  the host reveals, a message is returned only if it was decoded from bytes whose hash and length
  are those of the pointer, at most 512 KiB, and is of the declared kind; it is never a pointer
  again, so pointers do not nest.
\<close>

theorem dal_payload_authentic:
  assumes "fetch_kernel_message_from_dal E pointer = Inr m"
  shows "\<exists>payload. hash E payload = dl_payload_hash pointer \<and> length payload = unat (dl_payload_len pointer)
     \<and> payload \<noteq> [] \<and> length payload \<le> 524288 \<and> decode_kernel_inbox_message E payload = Inr m
     \<and> payload_kind_matches (dl_kind pointer) m \<and> \<not> is_dal_pointer m"
proof -
  have "payload_kind_matches k m \<Longrightarrow> \<not> is_dal_pointer m" for k by (cases k; cases m) simp_all
  then show ?thesis
    using assms by (auto simp: fetch_kernel_message_from_dal_def res_simps Let_def MAX_DAL_PAYLOAD_BYTES_def split: if_splits)
qed

text \<open>
  C13: error messages fit their field, or the kernel panics. A message of at most 4096 bytes is
  reported unchanged; a longer one is cut to 4081 bytes and marked, 4096 bytes in all, unless byte
  4081 is in the middle of a multi-byte character: then, and only then, the kernel panics.
\<close>

theorem error_message_bounded:
  "bounded_error_message m =
     (if length m \<le> 4096 then Inr m
      else if 0x80 \<le> (of_char (m ! 4081) :: nat) \<and> (of_char (m ! 4081) :: nat) < 0xC0
      then Inl (Panic ''assertion failed: self.is_char_boundary(new_len)'')
      else Inr (take 4081 m @ ''... [truncated]''))
   \<and> (case bounded_error_message m of Inr s \<Rightarrow> length s \<le> 4096 | Inl _ \<Rightarrow> 4096 < length m)"
  by (auto simp: bounded_error_message_cases is_char_boundary_def)


text \<open>
  A configuration signed by the administrator is installed. On a well-formed store without
  verifier configuration, a configuration signed with the key compiled into the kernel
  authenticates, is accepted, becomes the authorisation domain of the ledger and is read back as it
  was sent.
\<close>

theorem signed_configuration_installs:
  assumes "dur_inv E h" "h_store h PATH_VERIFIER_CONFIG = None" "config_typed config" "admin_key E ask"
  shows "\<exists>sc h'. sign_kernel_verifier_config E ask config = Inr sc \<and> message_typed (MConfigureVerifier sc)
     \<and> apply_kernel_message E (MConfigureVerifier sc) h = (Inr RConfigured, h') \<and> dur_inv E h'
     \<and> dur_abs E h' = (dur_abs E h)\<lparr>al_domain := kv_auth_domain config\<rparr> \<and> read_verifier_config E h' = Inr (Some config)"
  by (rule signed_config_accepted [OF assms])

lemma sample_admin_key: "admin_key sample_kernel_env (dev_config_admin_ask sample_kernel_env)"
  by (rule dev_admin_key) (simp_all add: sample_kernel_sel)

definition sample_config :: kernel_verifier_config where
  "sample_config = \<lparr>kv_auth_domain = ZERO, kv_verified_program_hashes = \<lparr>ph_shield = ZERO, ph_transfer = ZERO, ph_unshield = ZERO\<rparr>\<rparr>"

lemma sample_config_typed: "config_typed sample_config"
  by (simp add: sample_config_def config_typed_def hashes_typed_def)

theorem signed_configuration_installs_witness:
  "\<exists>h sc h'. apply_kernel_message sample_kernel_env (MConfigureVerifier sc) h = (Inr RConfigured, h')
     \<and> read_verifier_config sample_kernel_env h' = Inr (Some sample_config)"
proof -
  obtain h where h: "dur_inv sample_kernel_env h" "h_store h PATH_VERIFIER_CONFIG = None" by (rule sample_kernel_initial)
  from signed_configuration_installs [OF h sample_config_typed sample_admin_key] show ?thesis by blast
qed


definition sample_bridge_message :: kernel_inbox_message where
  "sample_bridge_message = MConfigureBridge \<lparr>sb_config = \<lparr>kb_ticketer = ''KT1''\<rparr>, sb_signature = []\<rparr>"

definition sample_dal_env :: "bytes \<Rightarrow> kernel_env" where
  "sample_dal_env b = sample_kernel_env\<lparr>
     host_dal_parameters := Inr \<lparr>dp_number_of_slots = 1, dp_attestation_lag = 0, dp_slot_size = 100, dp_page_size = 100\<rparr>,
     host_dal_page := (\<lambda>level slot page n. Inr b)\<rparr>"

lemma sample_dal_sel:
  "blake2s_digest (sample_dal_env b) = blake2s_digest sample_ext" "tze_write (sample_dal_env b) = tze_write sample_ext"
  "tze_read (sample_dal_env b) = tze_read sample_ext" "usize_bits (sample_dal_env b) = 64"
  "host_dal_parameters (sample_dal_env b)
     = Inr \<lparr>dp_number_of_slots = 1, dp_attestation_lag = 0, dp_slot_size = 100, dp_page_size = 100\<rparr>"
  "host_dal_page (sample_dal_env b) = (\<lambda>level slot page n. Inr b)"
  by (simp_all add: sample_dal_env_def sample_kernel_env_def sample_verify_env_def sample_env_def sample_ext_def ext.defs
      host_env.defs verify_env.defs)

lemma sample_bridge_decodes:
  obtains b where "decode_kernel_inbox_message (sample_dal_env b) b = Inr sample_bridge_message" "b \<noteq> []" "length b \<le> 100"
proof -
  have tze: "tze_laws (sample_dal_env b)" for b using sample_tze_laws unfolding tze_laws_def sample_dal_sel .
  have "fits wire_felt_list (WFields [WList []])" "wire_size wire_felt_list (WFields [WList []]) = 4"
    by (simp_all add: wire_felt_list_def within_def)
  then obtain c where c: "encode_tze sample_ext wire_felt_list (WFields [WList []]) = Inr c" "length c = 4"
    using encode_tze_fits [OF sample_tze_laws] by metis
  let ?w = "WTag 1 (WFields [WFields [WText ''KT1''], WFields [WBytes c]])"
  let ?m = "WFields [u16_to_wire KERNEL_WIRE_VERSION, ?w]"
  have "utf8_valid (as_bytes ''KT1'')" by code_simp
  then have "fits wire_kernel_inbox_envelope ?m" "wire_size wire_kernel_inbox_envelope ?m \<le> 100"
    "0 < wire_size wire_kernel_inbox_envelope ?m"
    using c(2) by (simp_all add: kernel_wire_schemas wire_kernel_inbox_envelope_def wire_signed_kernel_bridge_config_def
        wire_kernel_bridge_config_def wire_encoded_felt_list_def u16_to_wire_def within_def
        MAX_ENCODED_NULLIFIER_LIST_BYTES_def MAX_ACCOUNT_ID_BYTES_def)
  then obtain b where b: "encode_tze sample_ext wire_kernel_inbox_envelope ?m = Inr b" "length b \<le> 100" "b \<noteq> []"
    using encode_tze_fits [OF sample_tze_laws] by (metis length_0_conv less_numeral_extra(3))
  let ?E = "sample_dal_env b"
  have enc: "encode_tze ?E = encode_tze sample_ext" by (simp add: encode_tze_def sample_dal_sel fun_eq_iff)
  have "inbox_message_to_wire ?E sample_bridge_message = Inr ?w"
    using c(1) by (simp add: inbox_message_to_wire_def sample_bridge_message_def signed_bridge_config_to_wire_def
        encoded_felt_list_to_wire_def bridge_config_to_wire_def enc)
  then have "inbox_message_from_wire ?E ?w = Inr sample_bridge_message"
    using inbox_message_inverse [OF tze, of b ?w sample_bridge_message]
    by (simp add: sample_dal_sel sample_bridge_message_def)
  moreover have "decode_tze ?E wire_kernel_inbox_envelope b = Inr ?m"
    using decode_tze_inverse [OF tze] b(1) enc by simp
  moreover have "wire_to_u16 (u16_to_wire KERNEL_WIRE_VERSION) = Inr KERNEL_WIRE_VERSION" by (simp only: wire_to_u16_iff)
  ultimately have "decode_kernel_inbox_message ?E b = Inr sample_bridge_message"
    by (simp add: decode_kernel_inbox_message_def)
  then show ?thesis using b(2,3) by (intro that)
qed

theorem dal_payload_authentic_witness:
  "\<exists>b. fetch_kernel_message_from_dal (sample_dal_env b) \<lparr>dl_kind = DalConfigureBridge,
         dl_chunks = [\<lparr>dc_published_level = 7, dc_slot_index = 0, dc_payload_len = word_of_nat (length b)\<rparr>],
         dl_payload_len = word_of_nat (length b), dl_payload_hash = hash sample_ext b\<rparr> = Inr sample_bridge_message
     \<and> (\<exists>payload. hash sample_ext payload = hash sample_ext b \<and> length payload = length b)"
proof -
  obtain b where b: "decode_kernel_inbox_message (sample_dal_env b) b = Inr sample_bridge_message" "b \<noteq> []" "length b \<le> 100"
    by (rule sample_bridge_decodes)
  let ?p = "\<lparr>dl_kind = DalConfigureBridge,
         dl_chunks = [\<lparr>dc_published_level = 7, dc_slot_index = 0, dc_payload_len = word_of_nat (length b)\<rparr>],
         dl_payload_len = word_of_nat (length b), dl_payload_hash = hash sample_ext b\<rparr>"
  have n: "unat (word_of_nat (length b) :: u64) = length b" using b(3) by (intro unat_of_nat_small) simp
  have pages: "[0..<div_ceil (length b) 100] = [0]"
    using b(2,3) by (cases "length b = 100") (simp_all add: div_ceil_def)
  have hash: "hash (sample_dal_env b) b = hash sample_ext b" by (simp add: hash_wrapper_defs sample_dal_sel)
  have "fetch_kernel_message_from_dal (sample_dal_env b) ?p = Inr sample_bridge_message"
    using b by (simp add: fetch_kernel_message_from_dal_def sample_dal_sel n fetch_chunk_def pages hash Let_def
        MAX_DAL_PAYLOAD_BYTES_def sample_bridge_message_def)
  with dal_payload_authentic [OF this] show ?thesis using n by (auto simp: hash hash_wrapper_defs sample_dal_sel)
qed

end
