(* ===== verification/Bds.thy ===== *)
theory Bds
  imports Wots
begin

text \<open>
  The XMSS traversal state of the wallet (\<open>apps/wallet/src/lib.rs\<close>): the treehash instances, the
  kept and retained nodes and the authentication path that \<open>advance\<close> moves from one key index to
  the next with a bounded amount of work.
\<close>

section \<open>The traversal state\<close>

definition XMSS_BDS_K :: nat where "XMSS_BDS_K = 2"

record FeltSlot =
  fs_present :: bool
  fs_value :: felt

definition FeltSlot_none :: FeltSlot where
  "FeltSlot_none = \<lparr>fs_present = False, fs_value = ZERO\<rparr>"

definition FeltSlot_some :: "felt \<Rightarrow> FeltSlot" where
  "FeltSlot_some v = \<lparr>fs_present = True, fs_value = v\<rparr>"

definition FeltSlot_take :: "FeltSlot \<Rightarrow> felt option \<times> FeltSlot" where
  "FeltSlot_take s = (if fs_present s then (Some (fs_value s), s\<lparr>fs_present := False\<rparr>) else (None, s))"

record XmssNode =
  xn_start_idx :: u32
  xn_height :: u8
  xn_value :: felt

record RetainLevel =
  rl_nodes :: "felt list"
  rl_next :: nat

definition RetainLevel_default :: RetainLevel where
  "RetainLevel_default = \<lparr>rl_nodes = [], rl_next = 0\<rparr>"

definition RetainLevel_push :: "RetainLevel \<Rightarrow> felt \<Rightarrow> RetainLevel" where
  "RetainLevel_push r v = r\<lparr>rl_nodes := rl_nodes r @ [v]\<rparr>"

definition RetainLevel_pop :: "RetainLevel \<Rightarrow> felt option \<times> RetainLevel" where
  "RetainLevel_pop r =
     (if rl_next r < length (rl_nodes r)
      then (Some (rl_nodes r ! rl_next r), r\<lparr>rl_next := rl_next r + 1\<rparr>) else (None, r))"

record TreeHashState =
  th_target_height :: u8
  th_start_idx :: u32
  th_next_idx :: u32
  th_initialized :: bool
  th_finished :: bool
  th_node :: FeltSlot
  th_node_start_idx :: u32
  th_node_height :: u8
  th_stack :: "XmssNode list"

definition TreeHashState_new :: "nat \<Rightarrow> TreeHashState" where
  "TreeHashState_new target_height =
     \<lparr>th_target_height = word_of_nat target_height, th_start_idx = 0, th_next_idx = 0,
      th_initialized = False, th_finished = False, th_node = FeltSlot_none,
      th_node_start_idx = 0, th_node_height = word_of_nat target_height, th_stack = []\<rparr>"

definition TreeHashState_clear :: "TreeHashState \<Rightarrow> TreeHashState" where
  "TreeHashState_clear t =
     t\<lparr>th_initialized := False, th_finished := False, th_node := FeltSlot_none,
       th_node_start_idx := 0, th_node_height := th_target_height t, th_stack := []\<rparr>"

definition TreeHashState_seed_completed :: "TreeHashState \<Rightarrow> XmssNode \<Rightarrow> TreeHashState" where
  "TreeHashState_seed_completed t node =
     t\<lparr>th_initialized := False, th_finished := True, th_node := FeltSlot_some (xn_value node),
       th_node_start_idx := xn_start_idx node, th_node_height := xn_height node,
       th_next_idx := xn_start_idx node, th_stack := []\<rparr>"

definition TreeHashState_start :: "TreeHashState \<Rightarrow> u32 \<Rightarrow> TreeHashState" where
  "TreeHashState_start t start_idx =
     t\<lparr>th_start_idx := start_idx, th_next_idx := start_idx, th_initialized := True,
       th_finished := False, th_node := FeltSlot_none, th_node_start_idx := 0,
       th_node_height := th_target_height t, th_stack := []\<rparr>"

definition TreeHashState_take_ready :: "TreeHashState \<Rightarrow> felt option \<times> TreeHashState" where
  "TreeHashState_take_ready t =
     (case FeltSlot_take (th_node t) of
        (None, slot) \<Rightarrow> (None, t\<lparr>th_node := slot\<rparr>)
      | (Some v, slot) \<Rightarrow> (Some v, t\<lparr>th_node := slot, th_finished := False, th_initialized := False\<rparr>))"

definition TreeHashState_lowest_node_height :: "TreeHashState \<Rightarrow> u8 option" where
  "TreeHashState_lowest_node_height t =
     (if \<not> th_initialized t \<or> th_finished t then None
      else case map xn_height (th_stack t) of
             [] \<Rightarrow> Some (th_target_height t)
           | h # hs \<Rightarrow> Some (foldl min h hs))"

text \<open>
  The loop that merges a node with the top of the stack while the two have the same height. The
  argument is the stack from its top, the last element of the vector.
\<close>

fun merge_stack :: "'x ext_scheme \<Rightarrow> felt \<Rightarrow> XmssNode \<Rightarrow> XmssNode list \<Rightarrow> XmssNode \<times> XmssNode list" where
  "merge_stack X pub_seed node [] = (node, [])"
| "merge_stack X pub_seed node (top_node # rest) =
     (if xn_height top_node \<noteq> xn_height node then (node, top_node # rest)
      else let level = ucast (xn_height node) :: u32;
               node_idx = drop_bit (unat (level + 1)) (xn_start_idx top_node)
           in merge_stack X pub_seed
                \<lparr>xn_start_idx = xn_start_idx top_node, xn_height = xn_height node + 1,
                 xn_value = xmss_tree_node_hash X pub_seed level node_idx (xn_value top_node) (xn_value node)\<rparr>
                rest)"

definition TreeHashState_step :: "'x ext_scheme \<Rightarrow> felt \<Rightarrow> felt \<Rightarrow> TreeHashState \<Rightarrow> TreeHashState" where
  "TreeHashState_step X ask_j pub_seed t =
     (if \<not> th_initialized t \<or> th_finished t then t
      else
        let leaf = \<lparr>xn_start_idx = th_next_idx t, xn_height = 0,
                    xn_value = auth_leaf_hash_with_pub_seed X ask_j pub_seed (th_next_idx t)\<rparr>;
            t1 = t\<lparr>th_next_idx := th_next_idx t + 1\<rparr>;
            (node, rest) = merge_stack X pub_seed leaf (rev (th_stack t))
        in if xn_height node = th_target_height t
           then t1\<lparr>th_finished := True, th_node := FeltSlot_some (xn_value node),
                   th_node_start_idx := xn_start_idx node, th_node_height := xn_height node,
                   th_stack := []\<rparr>
           else t1\<lparr>th_stack := rev rest @ [node]\<rparr>)"

record XmssBdsState =
  bds_next_index :: u32
  bds_auth_path :: "felt list"
  bds_keep :: "FeltSlot list"
  bds_treehash :: "TreeHashState list"
  bds_retain :: "RetainLevel list"

text \<open>
  \<open>trap\<close> says whether the environment variables make a rebuild of a tree of full depth panic.
\<close>

definition assert_full_xmss_bds_rebuild_allowed :: "bool \<Rightarrow> string \<Rightarrow> nat \<Rightarrow> unit res" where
  "assert_full_xmss_bds_rebuild_allowed trap op depth =
     (if depth = AUTH_DEPTH \<and> trap
      then Inl (Panic (''unexpected full depth-'' @ show_nat AUTH_DEPTH @ '' XMSS/BDS rebuild via '' @ op
        @ '' '' @ [CHR 0xE2, CHR 0x80, CHR 0x94] @ '' default tests must use fixed fixtures or small-depth helpers''))
      else Inr ())"

section \<open>Building the state\<close>

text \<open>The variables of the loop over the leaves in \<open>new_with_params\<close>.\<close>

record bds_build =
  bb_auth_path :: "felt list"
  bb_treehash :: "TreeHashState list"
  bb_retain :: "RetainLevel list"

text \<open>What the loop records of a node that has a left sibling on the stack.\<close>

definition note_right_node :: "nat \<Rightarrow> nat \<Rightarrow> u32 \<Rightarrow> XmssNode \<Rightarrow> bds_build \<Rightarrow> bds_build" where
  "note_right_node depth k idx node b =
     (let h = unat (xn_height node); node_idx = drop_bit h idx in
      if node_idx = 1 then b\<lparr>bb_auth_path := (bb_auth_path b)[h := xn_value node]\<rparr>
      else if node_idx = 3 \<and> h < depth - k
      then b\<lparr>bb_treehash := (bb_treehash b)[h := TreeHashState_seed_completed (bb_treehash b ! h) node]\<rparr>
      else if 3 \<le> node_idx \<and> node_idx AND 1 = 1 \<and> depth - k \<le> h \<and> h < depth - 1
      then b\<lparr>bb_retain := (bb_retain b)[h := RetainLevel_push (bb_retain b ! h) (xn_value node)]\<rparr>
      else b)"

fun merge_build ::
  "'x ext_scheme \<Rightarrow> felt \<Rightarrow> nat \<Rightarrow> nat \<Rightarrow> u32 \<Rightarrow> XmssNode \<Rightarrow> XmssNode list \<Rightarrow> bds_build
     \<Rightarrow> XmssNode \<times> XmssNode list \<times> bds_build" where
  "merge_build X pub_seed depth k idx node [] b = (node, [], b)"
| "merge_build X pub_seed depth k idx node (top_node # rest) b =
     (if xn_height top_node \<noteq> xn_height node then (node, top_node # rest, b)
      else let b' = note_right_node depth k idx node b;
               level = ucast (xn_height node) :: u32;
               parent_node_idx = drop_bit (unat (level + 1)) (xn_start_idx top_node)
           in merge_build X pub_seed depth k idx
                \<lparr>xn_start_idx = xn_start_idx top_node, xn_height = xn_height node + 1,
                 xn_value = xmss_tree_node_hash X pub_seed level parent_node_idx (xn_value top_node) (xn_value node)\<rparr>
                rest b')"

text \<open>One round of the loop; the stack is kept from its top.\<close>

definition build_leaf ::
  "'x ext_scheme \<Rightarrow> felt \<Rightarrow> felt \<Rightarrow> nat \<Rightarrow> nat \<Rightarrow> XmssNode list \<times> bds_build \<Rightarrow> nat
     \<Rightarrow> XmssNode list \<times> bds_build" where
  "build_leaf X ask_j pub_seed depth k = (\<lambda>(stack, b) i.
     let idx = word_of_nat i;
         node = \<lparr>xn_start_idx = idx, xn_height = 0,
                 xn_value = auth_leaf_hash_with_pub_seed X ask_j pub_seed idx\<rparr>;
         b1 = (if idx = 1 then b\<lparr>bb_auth_path := (bb_auth_path b)[0 := xn_value node]\<rparr> else b);
         (node', rest, b2) = merge_build X pub_seed depth k idx node stack b1
     in (node' # rest, b2))"

definition new_with_params ::
  "'x ext_scheme \<Rightarrow> bool \<Rightarrow> felt \<Rightarrow> felt \<Rightarrow> nat \<Rightarrow> nat \<Rightarrow> (XmssBdsState \<times> felt) res" where
  "new_with_params X trap ask_j pub_seed depth k =
     attempt (assert_full_xmss_bds_rebuild_allowed trap ''XmssBdsState::new_with_params'' depth) (\<lambda>_.
     attempt (guard (depth \<noteq> 0) ''XMSS depth must be positive'') (\<lambda>_.
     attempt (guard (k < depth)
       (''invalid XMSS BDS k='' @ show_nat k @ '' for depth '' @ show_nat depth)) (\<lambda>_.
     let auth_tree_size = 2 ^ depth;
         b0 = \<lparr>bb_auth_path = replicate depth ZERO,
               bb_treehash = map TreeHashState_new [0..<depth - k],
               bb_retain = replicate depth RetainLevel_default\<rparr>;
         (stack, b) = foldl (build_leaf X ask_j pub_seed depth k) ([], b0) [0..<unat (word_of_nat auth_tree_size :: u32)]
     in case stack of
          [] \<Rightarrow> Inl (Err ''XMSS tree initialization produced no root'')
        | root # _ \<Rightarrow>
            Inr (\<lparr>bds_next_index = 0, bds_auth_path = bb_auth_path b,
                  bds_keep = replicate depth FeltSlot_none, bds_treehash = bb_treehash b,
                  bds_retain = bb_retain b\<rparr>, xn_value root))))"

section \<open>Advancing\<close>

fun trailing_ones_upto :: "nat \<Rightarrow> u32 \<Rightarrow> nat" where
  "trailing_ones_upto 0 w = 0"
| "trailing_ones_upto (Suc n) w = (if w AND 1 = 1 then Suc (trailing_ones_upto n (drop_bit 1 w)) else 0)"

definition trailing_ones :: "u32 \<Rightarrow> nat" where
  "trailing_ones w = trailing_ones_upto 32 w"

text \<open>Indexing of a vector, which panics out of range.\<close>

definition at_index :: "'a list \<Rightarrow> nat \<Rightarrow> 'a res" where
  "at_index xs i = (if i < length xs then Inr (xs ! i) else Inl (Panic ''index out of bounds''))"

text \<open>The node of level \<open>h\<close> that the treehash instance or the retained nodes provide.\<close>

definition take_right_node :: "nat \<Rightarrow> (XmssBdsState, felt) action" where
  "take_right_node h st =
     (if h < length (bds_treehash st)
      then case TreeHashState_take_ready (bds_treehash st ! h) of
             (r, t) \<Rightarrow> (ok_or r (''missing BDS treehash node at level '' @ show_nat h),
                       st\<lparr>bds_treehash := (bds_treehash st)[h := t]\<rparr>)
      else if h < length (bds_retain st)
      then case RetainLevel_pop (bds_retain st ! h) of
             (r, l) \<Rightarrow> (ok_or r (''missing BDS retain node at level '' @ show_nat h),
                       st\<lparr>bds_retain := (bds_retain st)[h := l]\<rparr>)
      else (Inl (Panic ''index out of bounds''), st))"

definition refresh_level :: "nat \<Rightarrow> (XmssBdsState, unit) action" where
  "refresh_level h =
     bind_act (take_right_node h) (\<lambda>v.
     bind_act (read_act (\<lambda>st. at_index (bds_auth_path st) h)) (\<lambda>_.
     write_act (\<lambda>st. st\<lparr>bds_auth_path := (bds_auth_path st)[h := v]\<rparr>)))"

definition restart_level :: "nat \<Rightarrow> u32 \<Rightarrow> nat \<Rightarrow> XmssBdsState \<Rightarrow> XmssBdsState" where
  "restart_level auth_tree_size index h st =
     (let start_idx = index + 1 + push_bit h 3; t = bds_treehash st ! h in
      st\<lparr>bds_treehash := (bds_treehash st)
           [h := if unat start_idx < auth_tree_size then TreeHashState_start t start_idx
                 else TreeHashState_clear t]\<rparr>)"

text \<open>The left node at level \<open>tau\<close> that the move to the next leaf completes.\<close>

definition set_left_node :: "'x ext_scheme \<Rightarrow> felt \<Rightarrow> u32 \<Rightarrow> nat \<Rightarrow> (XmssBdsState, unit) action" where
  "set_left_node X pub_seed index tau =
     bind_act (read_act (\<lambda>st. at_index (bds_auth_path st) (tau - 1))) (\<lambda>left.
     bind_act (read_act (\<lambda>st. at_index (bds_keep st) (tau - 1))) (\<lambda>slot.
     bind_act (\<lambda>st. case FeltSlot_take slot of
                 (r, slot') \<Rightarrow> (ok_or r (''missing BDS keep node at level '' @ show_nat (tau - 1)),
                               st\<lparr>bds_keep := (bds_keep st)[tau - 1 := slot']\<rparr>)) (\<lambda>right.
     let parent_start = index + 1 - push_bit tau 1 in
     bind_act (read_act (\<lambda>st. at_index (bds_auth_path st) tau)) (\<lambda>_.
     write_act (\<lambda>st. st\<lparr>bds_auth_path := (bds_auth_path st)
       [tau := xmss_tree_node_hash X pub_seed (word_of_nat (tau - 1)) (drop_bit tau parent_start) left right]\<rparr>)))))"

text \<open>The treehash instance of least tail height, then least start, then least level.\<close>

fun best_instance :: "nat \<Rightarrow> TreeHashState list \<Rightarrow> nat option \<Rightarrow> u8 \<Rightarrow> u32 \<Rightarrow> nat option" where
  "best_instance idx [] best_idx best_height best_start = best_idx"
| "best_instance idx (t # ts) best_idx best_height best_start =
     (case TreeHashState_lowest_node_height t of
        None \<Rightarrow> best_instance (idx + 1) ts best_idx best_height best_start
      | Some height \<Rightarrow>
          if height < best_height \<or> height = best_height \<and> th_start_idx t < best_start
          then best_instance (idx + 1) ts (Some idx) height (th_start_idx t)
          else best_instance (idx + 1) ts best_idx best_height best_start)"

primrec update_treehash :: "'x ext_scheme \<Rightarrow> felt \<Rightarrow> felt \<Rightarrow> nat \<Rightarrow> TreeHashState list \<Rightarrow> TreeHashState list" where
  "update_treehash X ask_j pub_seed 0 ts = ts"
| "update_treehash X ask_j pub_seed (Suc n) ts =
     (case best_instance 0 ts None (- 1) (- 1) of
        None \<Rightarrow> ts
      | Some i \<Rightarrow> update_treehash X ask_j pub_seed n (ts[i := TreeHashState_step X ask_j pub_seed (ts ! i)]))"

text \<open>
  The order of the source: the node to keep, the new left node or leaf, the right nodes below it,
  the restarts, the index, the updates.
\<close>

definition advance :: "'x ext_scheme \<Rightarrow> felt \<Rightarrow> felt \<Rightarrow> (XmssBdsState, unit) action" where
  "advance X ask_j pub_seed s0 =
     (let depth = length (bds_auth_path s0);
          treehash_levels = length (bds_treehash s0);
          auth_tree_size = 2 ^ depth;
          index = bds_next_index s0;
          tau = trailing_ones index
      in if auth_tree_size \<le> unat index then (Inl (Err ''XMSS keys exhausted''), s0)
         else if unat index = auth_tree_size - 1
         then (Inr (), s0\<lparr>bds_next_index := index + 1, bds_auth_path := []\<rparr>)
         else
           bind_act
             (if tau < depth - 1 \<and> drop_bit (tau + 1) index AND 1 = 0
              then bind_act (read_act (\<lambda>st. at_index (bds_auth_path st) tau)) (\<lambda>v.
                   bind_act (read_act (\<lambda>st. at_index (bds_keep st) tau)) (\<lambda>_.
                   write_act (\<lambda>st. st\<lparr>bds_keep := (bds_keep st)[tau := FeltSlot_some v]\<rparr>)))
              else ret_act ()) (\<lambda>_.
           bind_act
             (if tau = 0
              then write_act (\<lambda>st. st\<lparr>bds_auth_path := (bds_auth_path st)
                     [0 := auth_leaf_hash_with_pub_seed X ask_j pub_seed index]\<rparr>)
              else bind_act (set_left_node X pub_seed index tau) (\<lambda>_.
                   bind_act (each_act refresh_level [0..<tau]) (\<lambda>_.
                   write_act (\<lambda>st. foldl (\<lambda>st h. restart_level auth_tree_size index h st) st
                     [0..<min tau treehash_levels])))) (\<lambda>_.
           write_act (\<lambda>st. st\<lparr>bds_next_index := bds_next_index st + 1,
             bds_treehash := update_treehash X ask_j pub_seed (treehash_levels div 2) (bds_treehash st)\<rparr>)))
           s0)"

definition current_path :: "XmssBdsState \<Rightarrow> felt list" where
  "current_path st = bds_auth_path st"

primrec advance_times :: "'x ext_scheme \<Rightarrow> felt \<Rightarrow> felt \<Rightarrow> nat \<Rightarrow> (XmssBdsState, unit) action" where
  "advance_times X ask_j pub_seed 0 = ret_act ()"
| "advance_times X ask_j pub_seed (Suc n) =
     bind_act (advance X ask_j pub_seed) (\<lambda>_. advance_times X ask_j pub_seed n)"

definition from_index_with_params ::
  "'x ext_scheme \<Rightarrow> bool \<Rightarrow> felt \<Rightarrow> felt \<Rightarrow> u32 \<Rightarrow> nat \<Rightarrow> nat \<Rightarrow> (XmssBdsState \<times> felt) res" where
  "from_index_with_params X trap ask_j pub_seed next_index depth k =
     attempt (assert_full_xmss_bds_rebuild_allowed trap ''XmssBdsState::from_index_with_params'' depth) (\<lambda>_.
     attempt (guard (unat next_index \<le> 2 ^ depth) (''invalid XMSS index '' @ show_word next_index)) (\<lambda>_.
     attempt (new_with_params X trap ask_j pub_seed depth k) (\<lambda>(state, root).
     case advance_times X ask_j pub_seed (unat next_index) state of
       (r, state') \<Rightarrow> attempt r (\<lambda>_. Inr (state', root)))))"

definition from_index :: "'x ext_scheme \<Rightarrow> bool \<Rightarrow> felt \<Rightarrow> felt \<Rightarrow> u32 \<Rightarrow> (XmssBdsState \<times> felt) res" where
  "from_index X trap ask_j pub_seed next_index =
     from_index_with_params X trap ask_j pub_seed next_index AUTH_DEPTH XMSS_BDS_K"

end
