(* ===== verification/BdsStack.thy ===== *)
theory BdsStack
  imports Bds
begin

text \<open>
  The stack of a treehash computation is a binary counter: after \<open>x\<close> leaves it holds one subtree
  per set bit of \<open>x\<close>, the smallest on top. Merging a leaf increments the counter.
\<close>

section \<open>Nodes\<close>

definition bds_node :: "'x ext_scheme \<Rightarrow> felt \<Rightarrow> nat \<Rightarrow> nat \<Rightarrow> XmssNode" where
  "bds_node X ask h i =
     \<lparr>xn_start_idx = word_of_nat (i * 2 ^ h), xn_height = word_of_nat h, xn_value = xmss_node X ask h i\<rparr>"

lemma bds_node_sel [simp]:
  "xn_start_idx (bds_node X ask h i) = word_of_nat (i * 2 ^ h)"
  "xn_height (bds_node X ask h i) = word_of_nat h"
  "xn_value (bds_node X ask h i) = xmss_node X ask h i"
  by (simp_all add: bds_node_def)

lemma bds_leaf:
  "\<lparr>xn_start_idx = word_of_nat i, xn_height = 0,
    xn_value = auth_leaf_hash_with_pub_seed X ask (derive_auth_pub_seed X ask) (word_of_nat i)\<rparr>
   = bds_node X ask 0 i"
  by (simp add: bds_node_def auth_leaf_hash_def)

lemma height_eq: "h < 256 \<Longrightarrow> h' < 256 \<Longrightarrow> (word_of_nat h :: u8) = word_of_nat h' \<longleftrightarrow> h = h'"
  by (metis unat_of_nat_small [where 'a = 8, simplified])

lemma level_word:
  assumes "h < 256"
  shows "(ucast (word_of_nat h :: u8) :: u32) = word_of_nat h" "unat (word_of_nat h + 1 :: u32) = Suc h"
proof -
  have "unat (ucast (word_of_nat h :: u8) :: u32) = unat (word_of_nat h :: u8)"
    using assms by (simp add: unsigned_ucast_eq take_bit_nat_eq_self unat_of_nat_small)
  also have "\<dots> = h" using assms by (intro unat_of_nat_small) simp
  also have "h = unat (word_of_nat h :: u32)" using assms by (simp add: unat_of_nat_small)
  finally show "(ucast (word_of_nat h :: u8) :: u32) = word_of_nat h" by (simp add: word_unat_eq_iff)
  have "(word_of_nat h + 1 :: u32) = word_of_nat (Suc h)" by simp
  then show "unat (word_of_nat h + 1 :: u32) = Suc h"
    using assms by (simp add: unat_of_nat_small del: of_nat_Suc)
qed

lemma merged_node:
  assumes "h < 255" "(q + 1) * 2 ^ Suc h \<le> 2 ^ 32"
  shows "\<lparr>xn_start_idx = word_of_nat (2 * q * 2 ^ h), xn_height = word_of_nat h + 1,
          xn_value = xmss_tree_node_hash X (derive_auth_pub_seed X ask) (ucast (word_of_nat h :: u8))
            (drop_bit (unat (ucast (word_of_nat h :: u8) + 1 :: u32)) (word_of_nat (2 * q * 2 ^ h)))
            (xmss_node X ask h (2 * q)) (xmss_node X ask h (2 * q + 1))\<rparr>
         = bds_node X ask (Suc h) q"
proof -
  have "drop_bit (Suc h) (word_of_nat (2 * q * 2 ^ h) :: u32) = word_of_nat q"
    using aligned_words(3) [OF assms(2)] by (simp only: aligned_words(1) [OF assms(2)])
  moreover have "(word_of_nat (2 * q * 2 ^ h) :: u32) = word_of_nat (q * 2 ^ Suc h)"
    by (rule aligned_words(1) [OF assms(2), symmetric])
  ultimately show ?thesis
    using assms(1) level_word [of h] by (simp add: bds_node_def)
qed

section \<open>The counter\<close>

lemma parity_nat [case_names e o]:
  obtains q where "(x :: nat) = 2 * q" | q where "x = 2 * q + 1"
  by (meson evenE oddE)

fun stk :: "'x ext_scheme \<Rightarrow> felt \<Rightarrow> nat \<Rightarrow> nat \<Rightarrow> nat \<Rightarrow> XmssNode list" where
  "stk X ask p h x =
     (if x = 0 then []
      else if odd x then bds_node X ask h (p + x - 1) # stk X ask (p div 2) (Suc h) (x div 2)
      else stk X ask (p div 2) (Suc h) (x div 2))"

declare stk.simps [simp del]

lemma stk_0 [simp]: "stk X ask p h 0 = []"
  by (simp add: stk.simps)

lemma stk_odd: "stk X ask p h (2 * x + 1) = bds_node X ask h (p + 2 * x) # stk X ask (p div 2) (Suc h) x"
  by (subst stk.simps) simp

lemma stk_even: "stk X ask p h (2 * x) = stk X ask (p div 2) (Suc h) x"
  by (subst stk.simps) simp

lemma stk_shift: "stk X ask p h (2 ^ n * x) = stk X ask (p div 2 ^ n) (h + n) x"
proof (induction n arbitrary: p h)
  case (Suc n)
  have "stk X ask p h (2 ^ Suc n * x) = stk X ask (p div 2) (Suc h) (2 ^ n * x)"
    using stk_even [of X ask p h "2 ^ n * x"] by (simp add: mult.assoc)
  then show ?case by (simp add: Suc.IH div_mult2_eq)
qed simp

lemma stk_heights:
  assumes "n \<in> set (stk X ask p h x)" "x < 2 ^ m"
  shows "\<exists>l. h \<le> l \<and> l < h + m \<and> xn_height n = word_of_nat l"
  using assms
proof (induction X ask p h x arbitrary: m rule: stk.induct)
  case (1 X ask p h x)
  then obtain m' where m: "m = Suc m'" by (cases m) (auto simp: stk.simps [of X ask p h x])
  have x: "x div 2 < 2 ^ m'" "x \<noteq> 0"
    using "1.prems" m by (auto intro: ccontr)
  show ?case
  proof (cases "n \<in> set (stk X ask (p div 2) (Suc h) (x div 2))")
    case True
    obtain l where "Suc h \<le> l" "l < Suc h + m'" "xn_height n = word_of_nat l"
      using "1.IH" True x by (cases "odd x") blast+
    then show ?thesis using m by (intro exI [of _ l]) simp
  next
    case False
    with "1.prems" x(2) have "n = bds_node X ask h (p + x - 1)"
      by (auto simp: stk.simps [of X ask p h x] split: if_splits)
    then show ?thesis using m by auto
  qed
qed

text \<open>
  Merging the node after \<open>x\<close> nodes of height \<open>h\<close> into a tree of \<open>2 ^ m\<close> of them: the last one
  completes the tree, any other increments the counter.
\<close>

lemma merge_stk:
  assumes "x < 2 ^ m" "h + m \<le> 32" "(c + 1) * 2 ^ (h + m) \<le> 2 ^ 32"
  shows "merge_stack X (derive_auth_pub_seed X ask) (bds_node X ask h (c * 2 ^ m + x)) (stk X ask (c * 2 ^ m) h x)
         = (if x + 1 = 2 ^ m then (bds_node X ask (h + m) c, [])
            else (hd (stk X ask (c * 2 ^ m) h (x + 1)), tl (stk X ask (c * 2 ^ m) h (x + 1))))"
    and "x + 1 < 2 ^ m \<Longrightarrow> stk X ask (c * 2 ^ m) h (x + 1) \<noteq> []"
  using assms
proof (induction m arbitrary: h x)
  case 0
  { case 1 then show ?case by simp }
  { case 2 then show ?case by simp }
next
  case (Suc m)
  have half: "c * 2 ^ Suc m div 2 = c * 2 ^ m" by simp
  { case 1
    show ?case
    proof (cases x rule: parity_nat)
      case (e q)
      have q: "q < 2 ^ m" using 1(1) e by simp
      have "merge_stack X (derive_auth_pub_seed X ask) n s = (n, s)"
        if "xn_height n = word_of_nat h" "s = stk X ask (c * 2 ^ m) (Suc h) q" for n s
      proof (cases s)
        case (Cons a s')
        then have "a \<in> set (stk X ask (c * 2 ^ m) (Suc h) q)" using that(2) by (metis list.set_intros(1))
        then obtain l where "Suc h \<le> l" "l < Suc h + m" "xn_height a = word_of_nat l"
          using stk_heights [OF _ q] by blast
        then have "xn_height a \<noteq> xn_height n" using 1 that by (simp add: height_eq)
        then show ?thesis using Cons by simp
      qed simp
      moreover have "stk X ask (c * 2 ^ Suc m) h (x + 1)
          = bds_node X ask h (c * 2 ^ Suc m + x) # stk X ask (c * 2 ^ m) (Suc h) q"
        using stk_odd [of X ask "c * 2 ^ Suc m" h q] half e by simp
      moreover have "stk X ask (c * 2 ^ Suc m) h x = stk X ask (c * 2 ^ m) (Suc h) q"
        using stk_even [of X ask "c * 2 ^ Suc m" h q] half e by simp
      moreover have "x + 1 \<noteq> 2 ^ Suc m" using e by (simp add: even_Suc [symmetric]) presburger
      ultimately show ?thesis by simp
    next
      case (o q)
      let ?i = "c * 2 ^ m + q"
      have q: "q < 2 ^ m" using 1 o by simp
      have b: "(?i + 1) * 2 ^ Suc h \<le> 2 ^ 32"
      proof -
        have "?i + 1 \<le> (c + 1) * 2 ^ m" using q by simp
        then have "(?i + 1) * 2 ^ Suc h \<le> (c + 1) * 2 ^ m * 2 ^ Suc h" by (rule mult_le_mono1)
        also have "\<dots> = (c + 1) * 2 ^ (h + Suc m)" by (simp add: power_add algebra_simps)
        finally show ?thesis using 1 by linarith
      qed
      have s: "stk X ask (c * 2 ^ Suc m) h x = bds_node X ask h (2 * ?i) # stk X ask (c * 2 ^ m) (Suc h) q"
        using stk_odd [of X ask "c * 2 ^ Suc m" h q] half o by (simp add: algebra_simps)
      have n: "bds_node X ask h (c * 2 ^ Suc m + x) = bds_node X ask h (2 * ?i + 1)"
        using o by (simp add: algebra_simps)
      have "merge_stack X (derive_auth_pub_seed X ask) (bds_node X ask h (c * 2 ^ Suc m + x))
              (stk X ask (c * 2 ^ Suc m) h x)
            = merge_stack X (derive_auth_pub_seed X ask) (bds_node X ask (Suc h) ?i) (stk X ask (c * 2 ^ m) (Suc h) q)"
        unfolding s n merge_stack.simps bds_node_sel Let_def
        using merged_node [OF _ b, of X ask] 1 by simp
      moreover have "stk X ask (c * 2 ^ Suc m) h (x + 1) = stk X ask (c * 2 ^ m) (Suc h) (q + 1)"
        using stk_even [of X ask "c * 2 ^ Suc m" h "q + 1"] half o by simp
      moreover have "x + 1 = 2 ^ Suc m \<longleftrightarrow> q + 1 = 2 ^ m" using o by auto
      ultimately show ?thesis using Suc.IH(1) [OF q, of "Suc h"] 1 by simp
    qed }
  { case 2
    show ?case
    proof (cases x rule: parity_nat)
      case (e q)
      then show ?thesis using stk_odd [of X ask "c * 2 ^ Suc m" h q] by simp
    next
      case (o q)
      then have "stk X ask (c * 2 ^ Suc m) h (x + 1) = stk X ask (c * 2 ^ m) (Suc h) (q + 1)"
        using stk_even [of X ask "c * 2 ^ Suc m" h "q + 1"] half by simp
      then show ?thesis using Suc.IH(2) [of q "Suc h"] 2 o by simp
    qed }
qed

end
