(* ===== verification/BdsBuild.thy ===== *)
theory BdsBuild
  imports BdsStack
begin

text \<open>
  Initialisation of the traversal state: the pass over all leaves computes the root, the path of
  the first leaf, the first right node of every treehash level and all right nodes of the retained
  levels.
\<close>

lemma map_upt_update: "h < n \<Longrightarrow> (map f [0..<n])[h := v] = map (f(h := v)) [0..<n]"
  by (rule nth_equalityI) (auto simp: nth_list_update)

lemma div_power_Suc: "n div 2 ^ Suc h = n div 2 ^ h div (2 :: nat)"
  by (simp only: power_Suc2 div_mult2_eq)

text \<open>Incrementing a number changes the quotients by the powers of two that divide the result.\<close>

lemma Suc_div_power:
  "(n + 1) div 2 ^ h = (if 2 ^ h dvd n + 1 then Suc (n div 2 ^ h) else n div (2 :: nat) ^ h)"
  using div_Suc [of n "2 ^ h"] by (simp add: dvd_eq_mod_eq_0)

text \<open>What has been recorded when \<open>e h\<close> right nodes of each level \<open>h\<close> are complete.\<close>

definition built :: "'x ext_scheme \<Rightarrow> felt \<Rightarrow> nat \<Rightarrow> nat \<Rightarrow> (nat \<Rightarrow> nat) \<Rightarrow> bds_build" where
  "built X ask depth k e =
     \<lparr>bb_auth_path = map (\<lambda>h. if 1 \<le> e h then xmss_node X ask h 1 else ZERO) [0..<depth],
      bb_treehash = map (\<lambda>h. if 2 \<le> e h
          then TreeHashState_seed_completed (TreeHashState_new h) (bds_node X ask h 3)
          else TreeHashState_new h) [0..<depth - k],
      bb_retain = map (\<lambda>h. \<lparr>rl_nodes = if depth - k \<le> h \<and> h < depth - 1
          then map (\<lambda>j. xmss_node X ask h (2 * j + 3)) [0..<e h - 1] else [], rl_next = 0\<rparr>) [0..<depth]\<rparr>"

lemma built_cong: "(\<And>i. i < depth \<Longrightarrow> e i = e' i) \<Longrightarrow> built X ask depth k e = built X ask depth k e'"
  by (simp add: built_def)

lemma retain_push:
  "\<lparr>rl_nodes = if depth - k \<le> h \<and> h < depth - 1 then map f [0..<Suc n] else [], rl_next = 0\<rparr>
   = (if depth - k \<le> h \<and> h < depth - 1
      then RetainLevel_push \<lparr>rl_nodes = map f [0..<n], rl_next = 0\<rparr> (f n)
      else \<lparr>rl_nodes = [], rl_next = 0\<rparr>)"
  by (simp add: RetainLevel_push_def)

lemma note_right_built:
  assumes "h < depth" "depth \<le> 31" "N < 2 ^ depth" "N div 2 ^ h = 2 * e h + 1"
  shows "note_right_node depth k (word_of_nat N) (bds_node X ask h (N div 2 ^ h)) (built X ask depth k e)
         = built X ask depth k (e(h := Suc (e h)))"
proof -
  have N: "N < 2 ^ 31"
    using assms(2,3) power_increasing [of depth 31 "2 :: nat"] by linarith
  then have "N div 2 ^ h < 2 ^ 31" by (rule le_less_trans [OF div_le_dividend])
  note le = this [unfolded assms(4)]
  have u: "unat (word_of_nat (2 * e h + 1) :: u32) = 2 * e h + 1"
    using le by (intro unat_of_nat_small) simp
  have idx: "drop_bit h (word_of_nat N :: u32) = word_of_nat (2 * e h + 1)"
    unfolding word_unat_eq_iff unat_drop_bit_eq u
    using N assms(4) by (simp add: unat_of_nat_small drop_bit_eq_div)
  have u': "unat (word_of_nat (Suc (2 * e h)) :: u32) = Suc (2 * e h)" using u by simp
  have t: "(word_of_nat (2 * e h + 1) :: u32) = 1 \<longleftrightarrow> e h = 0"
    "(word_of_nat (2 * e h + 1) :: u32) = 3 \<longleftrightarrow> e h = 1"
    "(3 :: u32) \<le> word_of_nat (2 * e h + 1) \<longleftrightarrow> 1 \<le> e h"
    "(word_of_nat (2 * e h + 1) :: u32) AND 1 = 1"
    by (simp_all add: word_unat_eq_iff word_le_nat_alt u' and_one_eq unat_mod del: of_nat_add of_nat_Suc)
  have h: "unat (word_of_nat h :: u8) = h"
    using assms(1,2) by (intro unat_of_nat_small) simp
  have top: "h < depth - 1" if "1 \<le> e h"
  proof (rule ccontr)
    assume "\<not> h < depth - 1"
    then have "depth = Suc h" using assms(1) by simp
    then have "N div 2 ^ h < 2" using assms(3) by (simp add: less_mult_imp_div_less)
    then show False using assms(4) that by simp
  qed
  have eq: "note_right_node depth k (word_of_nat N) (bds_node X ask h (N div 2 ^ h)) b
    = (if e h = 0 then b\<lparr>bb_auth_path := (bb_auth_path b)[h := xmss_node X ask h 1]\<rparr>
       else if e h = 1 \<and> h < depth - k
       then b\<lparr>bb_treehash := (bb_treehash b)
              [h := TreeHashState_seed_completed (bb_treehash b ! h) (bds_node X ask h 3)]\<rparr>
       else if 1 \<le> e h \<and> depth - k \<le> h \<and> h < depth - 1
       then b\<lparr>bb_retain := (bb_retain b)
              [h := RetainLevel_push (bb_retain b ! h) (xmss_node X ask h (2 * e h + 1))]\<rparr>
       else b)" for b
    unfolding note_right_node_def Let_def bds_node_sel h idx t assms(4)
    by (auto simp: numeral_3_eq_3)
  consider (a) "e h = 0" | (b) "e h = 1" | (c) n where "e h = Suc (Suc n)"
    by (metis One_nat_def not0_implies_Suc)
  then show ?thesis
  proof cases
    case a
    then show ?thesis
      using assms(1) by (simp add: eq built_def map_upt_update)
  next
    case b
    then show ?thesis
      using assms(1) top
      by (simp add: eq built_def map_upt_update RetainLevel_push_def)
  next
    case c
    then show ?thesis
      using assms(1) top
      by (simp add: eq built_def map_upt_update RetainLevel_push_def)
         (auto simp: eval_nat_numeral)
  qed
qed

lemma merge_build_stack:
  "fst (merge_build X ps depth k idx node s b) = fst (merge_stack X ps node s)
   \<and> fst (snd (merge_build X ps depth k idx node s b)) = snd (merge_stack X ps node s)"
  by (induction X ps depth k idx node s b rule: merge_build.induct) (simp_all add: Let_def)

lemma merge_build_built:
  assumes "h + m = depth" "depth \<le> 31" "N < 2 ^ depth" "2 ^ h dvd N + 1"
    "\<And>i. e i = (if i < h then (N + 1) div 2 ^ Suc i else N div 2 ^ Suc i)"
  shows "snd (snd (merge_build X (derive_auth_pub_seed X ask) depth k (word_of_nat N)
           (bds_node X ask h (N div 2 ^ h)) (stk X ask 0 h (N div 2 ^ h)) (built X ask depth k e)))
         = built X ask depth k (\<lambda>i. (N + 1) div 2 ^ Suc i)"
  using assms
proof (induction m arbitrary: h e)
  case 0
  then have "N div 2 ^ h = 0" by simp
  then show ?case using 0 by (auto intro: built_cong)
next
  case (Suc m)
  define x where "x = N div 2 ^ h"
  have Sx: "(N + 1) div 2 ^ h = Suc x" using Suc.prems(4) by (simp only: Suc_div_power x_def if_True)
  have xb: "x < 2 ^ Suc m"
    using Suc.prems(1,3) by (auto simp: x_def power_add less_mult_imp_div_less mult.commute)
  show ?case
  proof (cases x rule: parity_nat)
    case (e q)
    have nd: "\<not> 2 ^ Suc i dvd N + 1" if "h \<le> i" for i
    proof
      assume "2 ^ Suc i dvd N + 1"
      then have "2 ^ Suc h dvd N + 1" using that by (meson Suc_le_mono dvd_trans le_imp_power_dvd)
      then have "even ((N + 1) div 2 ^ h)" by (metis dvd_div_iff_mult dvdI power_Suc2 power_Suc dvd_mult_imp_div)
      then show False using Sx e by simp
    qed
    have "stk X ask 0 h x = [] \<or> (\<exists>a s. stk X ask 0 h x = a # s \<and> xn_height a \<noteq> word_of_nat h)"
    proof (cases "stk X ask 0 h x")
      case (Cons a s)
      have "stk X ask 0 h x = stk X ask 0 (Suc h) q" using stk_even [of X ask 0 h q] e by simp
      with Cons have "a \<in> set (stk X ask 0 (Suc h) q)" by (metis list.set_intros(1))
      then obtain l where "Suc h \<le> l" "l < Suc h + m" "xn_height a = word_of_nat l"
        using stk_heights [of a X ask 0 "Suc h" q m] xb e by auto
      then show ?thesis using Cons Suc.prems(1,2) by (simp add: height_eq)
    qed simp
    then have "snd (snd (merge_build X (derive_auth_pub_seed X ask) depth k (word_of_nat N)
           (bds_node X ask h x) (stk X ask 0 h x) b)) = b" for b by auto
    moreover have "e i = (N + 1) div 2 ^ Suc i" for i
      using nd [of i] Suc.prems(5) [of i] Suc_div_power [of N "Suc i"] by (cases "i < h") simp_all
    ultimately show ?thesis by (simp add: x_def [symmetric])
  next
    case (o q)
    have q: "N div 2 ^ Suc h = q" using o by (simp only: div_power_Suc x_def [symmetric])
    have d: "2 ^ Suc h dvd N + 1"
    proof -
      have "N + 1 = Suc x * 2 ^ h" using Suc.prems(4) Sx by (metis dvd_div_mult_self)
      also have "\<dots> = (q + 1) * 2 ^ Suc h" using o by simp
      finally show ?thesis by (metis dvd_triv_right)
    qed
    let ?e = "e(h := Suc (e h))"
    have step: "note_right_node depth k (word_of_nat N) (bds_node X ask h x) (built X ask depth k e)
        = built X ask depth k ?e"
      using note_right_built [of h depth N e k X ask] Suc.prems o q by (simp add: x_def)
    have b: "(q + 1) * 2 ^ Suc h \<le> 2 ^ 32"
    proof -
      have "(q + 1) * 2 ^ Suc h \<le> 2 ^ m * 2 ^ Suc h" using xb o by (intro mult_le_mono1) simp
      also have "\<dots> = 2 ^ depth" using Suc.prems(1) by (simp add: power_add [symmetric] add.commute flip: power_Suc)
      also have "\<dots> \<le> 2 ^ 32" using Suc.prems(2) by (intro power_increasing) simp_all
      finally show ?thesis .
    qed
    have m: "merge_build X (derive_auth_pub_seed X ask) depth k (word_of_nat N) (bds_node X ask h x)
            (stk X ask 0 h x) (built X ask depth k e)
          = merge_build X (derive_auth_pub_seed X ask) depth k (word_of_nat N) (bds_node X ask (Suc h) q)
            (stk X ask 0 (Suc h) q) (built X ask depth k ?e)"
      using stk_odd [of X ask 0 h q] merged_node [OF _ b, of X ask] Suc.prems(1,2) step o
      by (simp add: Let_def)
    have e': "?e i = (if i < Suc h then (N + 1) div 2 ^ Suc i else N div 2 ^ Suc i)" for i
      using Suc.prems(5) [of i] Suc_div_power [of N "Suc h"] d q by (auto simp: less_Suc_eq)
    have "Suc h + m = depth" using Suc.prems(1) by simp
    from Suc.IH [OF this Suc.prems(2,3) d, of ?e, OF e'] show ?thesis
      unfolding q x_def [symmetric] m .
  qed
qed

text \<open>Leaf 1 is written to the path twice, with the same value.\<close>

lemma note_right_overwrites:
  "note_right_node depth k 1 node (b\<lparr>bb_auth_path := (bb_auth_path b)[0 := xn_value node]\<rparr>)
   = note_right_node depth k 1 node b" if "xn_height node = 0"
  using that by (simp add: note_right_node_def Let_def)

lemma merge_build_leaf_1:
  assumes "idx = 1"
  shows "merge_build X (derive_auth_pub_seed X ask) depth k idx (bds_node X ask 0 1) (stk X ask 0 0 1)
           (b\<lparr>bb_auth_path := (bb_auth_path b)[0 := xmss_node X ask 0 1]\<rparr>)
         = merge_build X (derive_auth_pub_seed X ask) depth k idx (bds_node X ask 0 1) (stk X ask 0 0 1) b"
  using assms stk_odd [of X ask 0 0 0] note_right_overwrites [of "bds_node X ask 0 1" depth k b]
  by simp

lemma stk_power: "stk X ask 0 0 (2 ^ m) = [bds_node X ask m 0]"
  using stk_shift [of X ask 0 0 m 1] stk_odd [of X ask 0 m 0] by simp

lemma build_leaf_step:
  assumes "depth \<le> 31" "N < 2 ^ depth"
  shows "build_leaf X ask (derive_auth_pub_seed X ask) depth k
           (stk X ask 0 0 N, built X ask depth k (\<lambda>i. N div 2 ^ Suc i)) N
         = (stk X ask 0 0 (N + 1), built X ask depth k (\<lambda>i. (N + 1) div 2 ^ Suc i))"
proof -
  let ?ps = "derive_auth_pub_seed X ask" and ?b = "built X ask depth k (\<lambda>i. N div 2 ^ Suc i)"
  let ?m = "merge_build X ?ps depth k (word_of_nat N) (bds_node X ask 0 N) (stk X ask 0 0 N) ?b"
  have N: "N < 2 ^ 32"
    using assms power_increasing [of depth 32 "2 :: nat"] by linarith
  have one: "(word_of_nat N :: u32) = 1 \<longleftrightarrow> N = 1"
    using N by (simp add: word_unat_eq_iff unat_of_nat_small)
  have "build_leaf X ask ?ps depth k (stk X ask 0 0 N, ?b) N = (fst ?m # fst (snd ?m), snd (snd ?m))"
  proof (cases "N = 1")
    case True
    show ?thesis
      using merge_build_leaf_1 [of 1 X ask depth k ?b] bds_leaf [of 1 X ask]
      unfolding True by (simp add: build_leaf_def Let_def case_prod_beta del: xmss_node.simps)
  next
    case False
    then show ?thesis by (simp add: build_leaf_def Let_def bds_leaf one case_prod_beta)
  qed
  also have "snd (snd ?m) = built X ask depth k (\<lambda>i. (N + 1) div 2 ^ Suc i)"
    using merge_build_built [of 0 depth depth N "\<lambda>i. N div 2 ^ Suc i" X ask k] assms by simp
  also have "fst ?m # fst (snd ?m) = stk X ask 0 0 (N + 1)"
  proof -
    have "(1 :: nat) * 2 ^ depth \<le> 2 ^ 32" using assms(1) power_increasing [of depth 32 "2 :: nat"] by simp
    then show ?thesis
      using merge_stk [where c = 0 and h = 0 and m = depth and x = N and X = X and ask = ask] assms
      by (auto simp: merge_build_stack stk_power)
  qed
  finally show ?thesis .
qed

lemma build_leaves:
  assumes "depth \<le> 31" "N \<le> 2 ^ depth"
  shows "foldl (build_leaf X ask (derive_auth_pub_seed X ask) depth k)
           ([], built X ask depth k (\<lambda>_. 0)) [0..<N]
         = (stk X ask 0 0 N, built X ask depth k (\<lambda>i. N div 2 ^ Suc i))"
  using assms(2) by (induction N) (simp_all add: build_leaf_step [OF assms(1), simplified])

lemma built_init:
  "\<lparr>bb_auth_path = replicate depth ZERO, bb_treehash = map TreeHashState_new [0..<depth - k],
    bb_retain = replicate depth RetainLevel_default\<rparr> = built X ask depth k (\<lambda>_. 0)"
  by (auto simp: built_def RetainLevel_default_def intro: nth_equalityI)

lemma new_with_params_eq:
  assumes "0 < depth" "depth \<le> 31" "k < depth"
  shows "new_with_params X False ask (derive_auth_pub_seed X ask) depth k
         = (let b = built X ask depth k (\<lambda>i. 2 ^ depth div 2 ^ Suc i)
            in Inr (\<lparr>bds_next_index = 0, bds_auth_path = bb_auth_path b,
                     bds_keep = replicate depth FeltSlot_none, bds_treehash = bb_treehash b,
                     bds_retain = bb_retain b\<rparr>, xmss_node X ask depth 0))"
proof -
  have "unat (word_of_nat (2 ^ depth) :: u32) = 2 ^ depth"
    using assms(2) power_strict_increasing [of depth 32 "2 :: nat"] by (intro unat_of_nat_small) simp
  then show ?thesis
    using assms build_leaves [OF assms(2) order_refl, of X ask k]
    by (simp add: new_with_params_def assert_full_xmss_bds_rebuild_allowed_def Let_def stk_power
        built_init [where X = X and ask = ask])
qed

end
