(* ===== verification/BdsSchedule.thy ===== *)
theory BdsSchedule
  imports BdsBuild
begin

text \<open>
  The treehash instances and their schedule. An instance of level \<open>h\<close> computes the right node the
  path needs at the next multiple of \<open>2 ^ Suc h\<close>. One update works on the instance of least tail
  height; the load of an instance, its own missing leaves and those that can be preferred to it
  before its deadline, falls with every update, and half as many updates per key as there are
  levels always suffice.
\<close>

section \<open>One instance\<close>

text \<open>The instance of level \<open>h\<close> at key index \<open>n\<close> after \<open>x\<close> of its \<open>2 ^ h\<close> leaves.\<close>

definition th_at :: "'x ext_scheme \<Rightarrow> felt \<Rightarrow> nat \<Rightarrow> nat \<Rightarrow> nat \<Rightarrow> nat \<Rightarrow> TreeHashState \<Rightarrow> bool" where
  "th_at X ask D n h x t \<longleftrightarrow> th_target_height t = word_of_nat h \<and>
     (let i = 2 * (n div 2 ^ Suc h) + 3 in
      if 2 ^ D \<le> i * 2 ^ h then x = 2 ^ h \<and> (\<not> th_initialized t \<or> th_finished t)
      else if x = 2 ^ h then th_finished t \<and> th_node t = FeltSlot_some (xmss_node X ask h i)
      else x < 2 ^ h \<and> th_initialized t \<and> \<not> th_finished t \<and> th_start_idx t = word_of_nat (i * 2 ^ h)
           \<and> th_next_idx t = word_of_nat (i * 2 ^ h + x) \<and> th_stack t = rev (stk X ask (i * 2 ^ h) 0 x))"

lemma th_at_le: "th_at X ask D n h x t \<Longrightarrow> x \<le> 2 ^ h"
  by (auto simp: th_at_def Let_def split: if_splits)

lemma th_at_running:
  assumes "th_at X ask D n h x t" "x < 2 ^ h"
  obtains i where "i = 2 * (n div 2 ^ Suc h) + 3" "i * 2 ^ h < 2 ^ D" "th_target_height t = word_of_nat h"
    "th_initialized t" "\<not> th_finished t" "th_start_idx t = word_of_nat (i * 2 ^ h)"
    "th_next_idx t = word_of_nat (i * 2 ^ h + x)" "th_stack t = rev (stk X ask (i * 2 ^ h) 0 x)"
  using assms by (auto simp: th_at_def Let_def not_le split: if_splits)

lemma th_at_complete:
  assumes "th_at X ask D n h (2 ^ h) t"
  shows "TreeHashState_lowest_node_height t = None"
  using assms by (auto simp: th_at_def Let_def TreeHashState_lowest_node_height_def split: if_splits)

lemma aligned_room:
  assumes "i * 2 ^ h < 2 ^ D" "h \<le> D"
  shows "(i + 1) * 2 ^ h \<le> (2 :: nat) ^ D"
proof -
  have D: "(2 :: nat) ^ D = 2 ^ (D - h) * 2 ^ h" using assms(2) by (simp flip: power_add)
  with assms(1) have "i < 2 ^ (D - h)" by simp
  then show ?thesis unfolding D by (intro mult_le_mono1) simp
qed

lemma th_at_step:
  assumes t: "th_at X ask D n h x t" and x: "x < 2 ^ h" and b: "h < D" "D \<le> 30"
  shows "th_at X ask D n h (x + 1) (TreeHashState_step X ask (derive_auth_pub_seed X ask) t)"
proof -
  from t x obtain i where i: "i = 2 * (n div 2 ^ Suc h) + 3" "i * 2 ^ h < 2 ^ D"
    and f: "th_target_height t = word_of_nat h" "th_initialized t" "\<not> th_finished t"
      "th_start_idx t = word_of_nat (i * 2 ^ h)" "th_next_idx t = word_of_nat (i * 2 ^ h + x)"
      "th_stack t = rev (stk X ask (i * 2 ^ h) 0 x)"
    by (rule th_at_running)
  have "(i + 1) * 2 ^ h \<le> 2 ^ D" using i b by (intro aligned_room) simp_all
  also have "\<dots> \<le> 2 ^ 32" using b by (intro power_increasing) simp_all
  finally have room: "(i + 1) * 2 ^ (0 + h) \<le> 2 ^ 32" by simp
  have h: "0 + h \<le> 32" using b by simp
  let ?s = "stk X ask (i * 2 ^ h) 0 (x + 1)"
  note m = merge_stk [OF x h room, of X ask]
  show ?thesis
  proof (cases "x + 1 = 2 ^ h")
    case True
    then show ?thesis
      using i f m b bds_leaf [of "i * 2 ^ h + x" X ask]
      by (simp add: TreeHashState_step_def Let_def th_at_def)
  next
    case False
    then have x1: "x + 1 < 2 ^ h" using x by simp
    from m(2) [OF this] obtain a s where s: "?s = a # s" by (cases ?s) auto
    obtain l where "l < h" "xn_height a = word_of_nat l"
      using stk_heights [of a X ask "i * 2 ^ h" 0 "x + 1" h] x1 s by auto
    then have "xn_height a \<noteq> th_target_height t" using f(1) b by (simp add: height_eq)
    then show ?thesis
      using i f m(1) False x1 s b bds_leaf [of "i * 2 ^ h + x" X ask]
      by (simp add: TreeHashState_step_def Let_def th_at_def not_le)
  qed
qed

text \<open>The tail height is at most the level and at least the exponent of two in the leaves done.\<close>

lemma foldl_min: "foldl min h hs \<in> set (h # hs) \<and> (\<forall>y \<in> set (h # hs). foldl min h hs \<le> (y :: 'a :: linorder))"
proof (induction hs arbitrary: h)
  case (Cons a hs)
  from Cons [of "min h a"] show ?case by (auto simp: min_def split: if_splits)
qed simp

lemma stk_nonempty: "0 < x \<Longrightarrow> stk X ask p h x \<noteq> []"
proof (induction X ask p h x rule: stk.induct)
  case (1 X ask p h x)
  then show ?case by (cases x rule: parity_nat) (simp_all add: stk_odd [simplified] stk_even)
qed

lemma th_at_tail:
  assumes t: "th_at X ask D n h x t" and x: "x < 2 ^ h" and b: "h < 255"
  obtains w where "TreeHashState_lowest_node_height t = Some (word_of_nat w)" "w \<le> h"
    "\<And>l. l \<le> h \<Longrightarrow> 2 ^ l dvd x \<Longrightarrow> l \<le> w"
proof -
  from t x obtain i where f: "th_target_height t = word_of_nat h" "th_initialized t" "\<not> th_finished t"
      "th_stack t = rev (stk X ask (i * 2 ^ h) 0 x)"
    by (rule th_at_running) auto
  show thesis
  proof (cases "x = 0")
    case True
    then show thesis using f that [of h] by (simp add: TreeHashState_lowest_node_height_def)
  next
    case False
    let ?s = "stk X ask (i * 2 ^ h) 0 x"
    obtain y ys where ys: "map xn_height (th_stack t) = y # ys"
      using stk_nonempty [of x X ask "i * 2 ^ h" 0] False f(4)
      by (cases "map xn_height (th_stack t)") auto
    have "foldl min y ys \<in> set (map xn_height (th_stack t))" using foldl_min [of y ys] by (simp add: ys)
    then obtain a where a: "a \<in> set ?s" "foldl min y ys = xn_height a" by (auto simp: f(4))
    obtain w where w: "w < h" "xn_height a = word_of_nat w"
      using stk_heights [OF a(1) x] by auto
    have "l \<le> w" if l: "l \<le> h" "2 ^ l dvd x" for l
    proof -
      obtain z where z: "x = 2 ^ l * z" using l(2) by (rule dvdE)
      then have "z < 2 ^ (h - l)" using x l(1) by (simp add: power_diff less_mult_imp_div_less)
          (metis div_mult_self1_is_m l(1) less_mult_imp_div_less mult.commute mult_less_cancel2
             le_add_diff_inverse2 power_add)
      moreover have "?s = stk X ask (i * 2 ^ h div 2 ^ l) l z" using stk_shift [of X ask "i * 2 ^ h" 0 l z] z by simp
      ultimately obtain l' where l': "l \<le> l'" "l' < l + (h - l)" "xn_height a = word_of_nat l'"
        using stk_heights a(1) by metis
      moreover have "l' = w" using w l' b l(1) by (simp add: height_eq)
      ultimately show ?thesis by simp
    qed
    then show thesis using that [of w] f ys a w by (simp add: TreeHashState_lowest_node_height_def)
  qed
qed

section \<open>Choosing the instance\<close>

definition prefers :: "u8 \<Rightarrow> u32 \<Rightarrow> u8 \<Rightarrow> u32 \<Rightarrow> bool" where
  "prefers w s w' s' \<longleftrightarrow> w < w' \<or> w = w' \<and> s < s'"

definition least_of :: "u8 \<Rightarrow> u32 \<Rightarrow> TreeHashState list \<Rightarrow> bool" where
  "least_of w s ts \<longleftrightarrow> (\<forall>t \<in> set ts. \<forall>w'. TreeHashState_lowest_node_height t = Some w'
     \<longrightarrow> \<not> prefers w' (th_start_idx t) w s)"

text \<open>\<open>r\<close> is the best of a candidate \<open>bi\<close> and the instances \<open>ts\<close>, which start at position \<open>idx\<close>.\<close>

definition best_found :: "nat \<Rightarrow> TreeHashState list \<Rightarrow> nat option \<Rightarrow> u8 \<Rightarrow> u32 \<Rightarrow> nat option \<Rightarrow> bool" where
  "best_found idx ts bi bh bs r \<longleftrightarrow>
     r = bi \<and> least_of bh bs ts
     \<or> (\<exists>j < length ts. \<exists>w. r = Some (idx + j) \<and> TreeHashState_lowest_node_height (ts ! j) = Some w
          \<and> prefers w (th_start_idx (ts ! j)) bh bs \<and> least_of w (th_start_idx (ts ! j)) ts)"

lemma best_found_skip:
  assumes "best_found (idx + 1) ts bi bh bs r"
    "\<And>w. TreeHashState_lowest_node_height t = Some w \<Longrightarrow> \<not> prefers w (th_start_idx t) bh bs"
  shows "best_found idx (t # ts) bi bh bs r"
  using assms(1) [unfolded best_found_def]
proof (elim disjE exE conjE)
  assume "r = bi" "least_of bh bs ts"
  then show ?thesis using assms(2) by (simp add: best_found_def least_of_def)
next
  fix j w
  assume "j < length ts" "r = Some (idx + 1 + j)" "TreeHashState_lowest_node_height (ts ! j) = Some w"
    "prefers w (th_start_idx (ts ! j)) bh bs" "least_of w (th_start_idx (ts ! j)) ts"
  then show ?thesis using assms(2) unfolding best_found_def
    by (intro disjI2 exI [of _ "Suc j"]) (auto simp: least_of_def prefers_def)
qed

lemma best_found_take:
  assumes "best_found (idx + 1) ts (Some idx) w (th_start_idx t) r"
    "TreeHashState_lowest_node_height t = Some w" "prefers w (th_start_idx t) bh bs"
  shows "best_found idx (t # ts) bi bh bs r"
  using assms(1) [unfolded best_found_def]
proof (elim disjE exE conjE)
  assume "r = Some idx" "least_of w (th_start_idx t) ts"
  then show ?thesis using assms(2,3) unfolding best_found_def
    by (intro disjI2 exI [of _ 0]) (auto simp: least_of_def prefers_def)
next
  fix j v
  assume "j < length ts" "r = Some (idx + 1 + j)" "TreeHashState_lowest_node_height (ts ! j) = Some v"
    "prefers v (th_start_idx (ts ! j)) w (th_start_idx t)" "least_of v (th_start_idx (ts ! j)) ts"
  then show ?thesis using assms(2,3) unfolding best_found_def
    by (intro disjI2 exI [of _ "Suc j"]) (auto simp: least_of_def prefers_def)
qed

lemma best_instance_found: "best_found idx ts bi bh bs (best_instance idx ts bi bh bs)"
proof (induction idx ts bi bh bs rule: best_instance.induct)
  case (1 idx bi bh bs)
  then show ?case by (simp add: best_found_def least_of_def)
next
  case (2 idx t ts bi bh bs)
  consider (skip) "TreeHashState_lowest_node_height t = None"
    | (keep) w where "TreeHashState_lowest_node_height t = Some w" "\<not> prefers w (th_start_idx t) bh bs"
    | (change) w where "TreeHashState_lowest_node_height t = Some w" "prefers w (th_start_idx t) bh bs"
    by (cases "TreeHashState_lowest_node_height t") auto
  then show ?case
  proof cases
    case skip
    then show ?thesis using best_found_skip [OF "2.IH"(1), of t] by simp
  next
    case keep
    then show ?thesis using best_found_skip [OF "2.IH"(3), of w t] by (auto simp: prefers_def)
  next
    case change
    then show ?thesis using best_found_take [OF "2.IH"(2), of w] by (auto simp: prefers_def)
  qed
qed

text \<open>Over the whole vector: the instance chosen, and none only if nothing is under way.\<close>

lemma best_instance_Some:
  assumes "best_instance 0 ts None (- 1) (- 1) = Some i"
  obtains w where "i < length ts" "TreeHashState_lowest_node_height (ts ! i) = Some w"
    "least_of w (th_start_idx (ts ! i)) ts"
  using best_instance_found [of 0 ts None "- 1" "- 1"] assms by (auto simp: best_found_def)

lemma best_instance_None:
  assumes "best_instance 0 ts None (- 1) (- 1) = None" "t \<in> set ts"
    "TreeHashState_lowest_node_height t = Some (word_of_nat w)" "w < 255"
  shows False
proof -
  have "least_of (- 1) (- 1) ts"
    using best_instance_found [of 0 ts None "- 1" "- 1"] assms(1) by (auto simp: best_found_def)
  then have "\<not> (word_of_nat w :: u8) < - 1" using assms(2,3) by (auto simp: least_of_def prefers_def)
  moreover have "unat (word_of_nat w :: u8) = w" using assms(4) by (intro unat_of_nat_small) simp
  ultimately show False
    using assms(4) by (simp add: word_less_nat_alt unsigned_minus_1_eq_mask mask_eq_exp_minus_1)
qed

section \<open>The load of a level\<close>

text \<open>The key index at which the instance of level \<open>h\<close> is next needed.\<close>

definition deadline :: "nat \<Rightarrow> nat \<Rightarrow> nat" where
  "deadline n h = (n div 2 ^ Suc h + 1) * 2 ^ Suc h"

text \<open>
  What level \<open>j\<close>, with \<open>x\<close> leaves done, can take from the updates before level \<open>h\<close> completes: a
  lower level its missing leaves and those of its restarts until the deadline, a higher level the
  leaves that lift its tail to height \<open>h\<close>.
\<close>

definition cost :: "nat \<Rightarrow> nat \<Rightarrow> nat \<Rightarrow> nat \<Rightarrow> nat" where
  "cost n h j x =
     (if j < h then 2 ^ j - x + 2 ^ j * (deadline n h div 2 ^ Suc j - 1 - n div 2 ^ Suc j)
      else if j = h then 2 ^ h - x
      else (2 ^ h - x mod 2 ^ h) mod 2 ^ h)"

definition load :: "nat \<Rightarrow> nat \<Rightarrow> nat \<Rightarrow> (nat \<Rightarrow> nat) \<Rightarrow> nat" where
  "load K n h xs = (\<Sum>j < K. cost n h j (xs j))"

lemma cost_step:
  assumes "x < 2 ^ j" "h < j \<Longrightarrow> \<not> 2 ^ h dvd x"
  shows "cost n h j (x + 1) + 1 \<le> cost n h j x"
proof (cases "h < j")
  case False
  then show ?thesis using assms(1) by (auto simp: cost_def)
next
  case True
  have r: "0 < x mod 2 ^ h" "x mod 2 ^ h < 2 ^ h"
    using assms(2) True by (simp_all add: dvd_eq_mod_eq_0)
  show ?thesis
  proof (cases "Suc (x mod 2 ^ h) = 2 ^ h")
    case t: True
    then have "(x + 1) mod 2 ^ h = 0" by (simp add: mod_Suc)
    then show ?thesis using True t r by (simp add: cost_def)
  next
    case False
    then have "(x + 1) mod 2 ^ h = x mod 2 ^ h + 1" by (simp add: mod_Suc)
    then show ?thesis using True r by (simp add: cost_def Suc_diff_Suc)
  qed
qed

lemma load_step:
  assumes "i < K" "xs i < 2 ^ i" "h < i \<Longrightarrow> \<not> 2 ^ h dvd xs i"
  shows "load K n h (xs(i := xs i + 1)) + 1 \<le> load K n h xs"
proof -
  have "load K n h ys = cost n h i (ys i) + (\<Sum>j \<in> {..<K} - {i}. cost n h j (ys j))" for ys
    unfolding load_def using assms(1) by (simp add: sum.remove)
  moreover have "(\<Sum>j \<in> {..<K} - {i}. cost n h j ((xs(i := xs i + 1)) j))
      = (\<Sum>j \<in> {..<K} - {i}. cost n h j (xs j))"
    by (intro sum.cong) auto
  ultimately show ?thesis using cost_step [OF assms(2,3), of n] by simp
qed

text \<open>A higher level starts to the right of a lower one.\<close>

lemma start_increases:
  assumes "h < j"
  shows "(2 * (n div 2 ^ Suc h) + 3) * 2 ^ h < (2 * (n div 2 ^ Suc j) + 3) * (2 :: nat) ^ j"
proof -
  define p q r where "p = (2 :: nat) ^ h" and "q = (2 :: nat) ^ j" and "r = (2 :: nat) ^ (j - h)"
  define a b where "a = n div 2 ^ Suc j" and "b = n div 2 ^ Suc h"
  have q: "q = r * p" using assms by (simp add: p_def q_def r_def flip: power_add)
  have "2 ^ Suc j = 2 ^ Suc h * r" using q by (simp add: p_def q_def)
  then have "b div r = a" by (simp add: a_def b_def div_mult2_eq)
  moreover have r: "2 \<le> r" using assms power_increasing [of 1 "j - h" "2 :: nat"] by (simp add: r_def)
  ultimately have "b < r * (a + 1)" using dividend_less_times_div [of r b] by (simp add: algebra_simps)
  then have "p * (b + 1) \<le> p * (r * (a + 1))" by (intro mult_le_mono2) simp
  then have "p * b + p \<le> q * a + q" by (simp add: q algebra_simps)
  moreover have "p < q" unfolding q using r by (simp add: p_def)
  ultimately have "(2 * b + 3) * p < (2 * a + 3) * q" by (simp add: algebra_simps)
  then show ?thesis by (simp add: a_def b_def p_def q_def)
qed

section \<open>Updates\<close>

definition levels_at :: "'x ext_scheme \<Rightarrow> felt \<Rightarrow> nat \<Rightarrow> nat \<Rightarrow> (nat \<Rightarrow> nat) \<Rightarrow> TreeHashState list \<Rightarrow> bool" where
  "levels_at X ask D n xs ts \<longleftrightarrow> (\<forall>h < length ts. th_at X ask D n h (xs h) (ts ! h))"

lemma chosen_level:
  assumes l: "levels_at X ask D n xs ts" and K: "length ts \<le> D" "D \<le> 30"
    and i: "best_instance 0 ts None (- 1) (- 1) = Some i"
  shows "i < length ts" "xs i < 2 ^ i" "\<And>h. h < i \<Longrightarrow> xs h < 2 ^ h \<Longrightarrow> \<not> 2 ^ h dvd xs i"
proof -
  from i obtain w where w: "i < length ts" "TreeHashState_lowest_node_height (ts ! i) = Some w"
    "least_of w (th_start_idx (ts ! i)) ts"
    by (rule best_instance_Some)
  have ti: "th_at X ask D n i (xs i) (ts ! i)" using l w(1) by (simp add: levels_at_def)
  show "i < length ts" by fact
  show xi: "xs i < 2 ^ i"
  proof (rule ccontr)
    assume "\<not> xs i < 2 ^ i"
    then have "xs i = 2 ^ i" using th_at_le [OF ti] by simp
    then show False using th_at_complete ti w(2) by fastforce
  qed
  show "\<not> 2 ^ h dvd xs i" if h: "h < i" "xs h < 2 ^ h" for h
  proof
    assume d: "2 ^ h dvd xs i"
    have th: "th_at X ask D n h (xs h) (ts ! h)" using l w(1) h by (simp add: levels_at_def)
    have b: "i < 255" "h < 255" using w(1) K h by simp_all
    obtain wi where wi: "w = word_of_nat wi" "wi \<le> i" "h \<le> wi"
      using th_at_tail [OF ti xi b(1)] w(2) d h(1) by (metis less_imp_le option.inject)
    obtain wh where wh: "TreeHashState_lowest_node_height (ts ! h) = Some (word_of_nat wh)" "wh \<le> h"
      using th_at_tail [OF th h(2) b(2)] by metis
    have "\<not> prefers (word_of_nat wh) (th_start_idx (ts ! h)) w (th_start_idx (ts ! i))"
      using w(1,3) wh(1) h(1) by (simp add: least_of_def)
    moreover have "unat (word_of_nat wh :: u8) = wh" "unat (word_of_nat wi :: u8) = wi"
      using wh wi b by (simp_all add: unat_of_nat_small)
    moreover have "th_start_idx (ts ! h) < th_start_idx (ts ! i)"
    proof -
      from th h(2) obtain a where a: "a = 2 * (n div 2 ^ Suc h) + 3" "a * 2 ^ h < 2 ^ D"
        "th_start_idx (ts ! h) = word_of_nat (a * 2 ^ h)" by (rule th_at_running)
      from ti xi obtain c where c: "c = 2 * (n div 2 ^ Suc i) + 3" "c * 2 ^ i < 2 ^ D"
        "th_start_idx (ts ! i) = word_of_nat (c * 2 ^ i)" by (rule th_at_running)
      have "(2 :: nat) ^ D < 2 ^ 32" using K(2) by (intro power_strict_increasing) simp_all
      then have "a * 2 ^ h < 2 ^ 32" "c * 2 ^ i < 2 ^ 32" using a(2) c(2) by linarith+
      then show ?thesis
        unfolding word_less_nat_alt a(3) c(3)
        using start_increases [OF h(1), of n] by (simp add: unat_of_nat_small a(1) c(1) del: of_nat_mult of_nat_add)
    qed
    ultimately show False using wi wh(2) by (auto simp: prefers_def word_less_nat_alt word_unat_eq_iff)
  qed
qed

lemma update_treehash_progress:
  assumes "levels_at X ask D n xs ts" "length ts \<le> D" "D \<le> 30"
  shows "\<exists>xs'. levels_at X ask D n xs' (update_treehash X ask (derive_auth_pub_seed X ask) m ts)
           \<and> (\<forall>h < length ts. xs h \<le> xs' h
                \<and> (xs' h < 2 ^ h \<longrightarrow> load (length ts) n h xs' + m \<le> load (length ts) n h xs))"
  using assms
proof (induction m arbitrary: xs ts)
  case 0
  then show ?case by auto
next
  case (Suc m)
  show ?case
  proof (cases "best_instance 0 ts None (- 1) (- 1)")
    case None
    have "xs h = 2 ^ h" if h: "h < length ts" for h
    proof (rule ccontr)
      assume "xs h \<noteq> 2 ^ h"
      have t: "th_at X ask D n h (xs h) (ts ! h)" using Suc.prems(1) h by (simp add: levels_at_def)
      then have "xs h < 2 ^ h" using th_at_le [OF t] \<open>xs h \<noteq> 2 ^ h\<close> by simp
      moreover have "h < 255" using h Suc.prems by simp
      ultimately obtain w where "TreeHashState_lowest_node_height (ts ! h) = Some (word_of_nat w)" "w \<le> h"
        using th_at_tail [OF t] by metis
      with None h \<open>h < 255\<close> show False using best_instance_None [of ts "ts ! h" w] by simp
    qed
    then show ?thesis using Suc.prems(1) None by (intro exI [of _ xs]) simp
  next
    case (Some i)
    note c = chosen_level [OF Suc.prems Some]
    let ?ts = "ts[i := TreeHashState_step X ask (derive_auth_pub_seed X ask) (ts ! i)]"
    define ys where "ys = xs(i := xs i + 1)"
    have "levels_at X ask D n ys ?ts" unfolding ys_def
      using Suc.prems c th_at_step [of X ask D n i "xs i" "ts ! i"]
      by (auto simp: levels_at_def nth_list_update)
    from Suc.IH [OF this] Suc.prems obtain xs' where
      x: "levels_at X ask D n xs' (update_treehash X ask (derive_auth_pub_seed X ask) m ?ts)"
      and p: "\<And>h. h < length ts \<Longrightarrow> ys h \<le> xs' h
            \<and> (xs' h < 2 ^ h \<longrightarrow> load (length ts) n h xs' + m \<le> load (length ts) n h ys)"
      by auto
    have "load (length ts) n h xs' + Suc m \<le> load (length ts) n h xs"
      if h: "h < length ts" "xs' h < 2 ^ h" for h
    proof -
      have "xs h \<le> ys h" by (simp add: ys_def)
      also have "\<dots> \<le> xs' h" using p [OF h(1)] by (rule conjunct1)
      finally have "xs h < 2 ^ h" using h(2) by simp
      then have "load (length ts) n h ys + 1 \<le> load (length ts) n h xs"
        unfolding ys_def using c by (intro load_step) auto
      then show ?thesis using p [OF h(1)] h(2) by linarith
    qed
    moreover have "xs h \<le> xs' h" if "h < length ts" for h
      using p [OF that] by (auto simp: ys_def split: if_splits)
    ultimately show ?thesis using x Some by (intro exI [of _ xs']) simp
  qed
qed

section \<open>The schedule is met\<close>

definition on_time :: "nat \<Rightarrow> nat \<Rightarrow> (nat \<Rightarrow> nat) \<Rightarrow> bool" where
  "on_time K n xs \<longleftrightarrow>
     (\<forall>h < K. xs h \<le> 2 ^ h \<and> (xs h < 2 ^ h \<longrightarrow> load K n h xs \<le> K div 2 * (deadline n h - 1 - n)))"

lemma due_deadline: "2 ^ Suc h dvd n + 1 \<Longrightarrow> deadline n h = n + 1"
  unfolding deadline_def using Suc_div_power [of n "Suc h"] dvd_div_mult_self [of "2 ^ Suc h" "n + 1"]
  by (simp only: if_True Suc_eq_plus1)

lemma due_complete:
  assumes "on_time K n xs" "h < K" "2 ^ Suc h dvd n + 1"
  shows "xs h = 2 ^ h"
proof (rule ccontr)
  assume "xs h \<noteq> 2 ^ h"
  then have x: "xs h < 2 ^ h" "load K n h xs \<le> 0"
    using assms(1,2) due_deadline [OF assms(3)] by (auto simp: on_time_def le_neq_implies_less)
  then have "cost n h h (xs h) = 0" using assms(2) by (simp add: load_def)
  then show False using x(1) by (simp add: cost_def)
qed

lemma deadline_after: "n < deadline n h"
  unfolding deadline_def using dividend_less_times_div [of "2 ^ Suc h" n] by (simp add: algebra_simps)

lemma power_split: "j \<le> h \<Longrightarrow> (2 :: nat) ^ Suc h = 2 ^ (h - j) * 2 ^ Suc j"
  by (simp flip: power_add power_Suc)

lemma deadline_div: "j \<le> h \<Longrightarrow> deadline n h div 2 ^ Suc j = (n div 2 ^ Suc h + 1) * 2 ^ (h - j)"
  unfolding deadline_def by (simp only: power_split mult.assoc [symmetric]) simp

lemma cost_next:
  assumes "on_time K n xs" "j < K" "\<not> 2 ^ Suc h dvd n + 1"
    "z = xs j \<or> 2 ^ Suc j dvd n + 1"
  shows "cost (n + 1) h j z \<le> cost n h j (xs j)"
proof -
  have d: "deadline (n + 1) h = deadline n h"
    using assms(3) unfolding deadline_def Suc_div_power by simp
  show ?thesis
  proof (cases "2 ^ Suc j dvd n + 1")
    case False
    then have "(n + 1) div 2 ^ Suc j = n div 2 ^ Suc j" by (simp only: Suc_div_power if_False)
    then show ?thesis using d False assms(4) by (simp add: cost_def)
  next
    case True
    have jh: "j < h"
    proof (rule ccontr)
      assume "\<not> j < h"
      then have "(2 :: nat) ^ Suc h dvd 2 ^ Suc j" by (intro le_imp_power_dvd) simp
      then show False using True assms(3) dvd_trans by blast
    qed
    define c R where "c = n div 2 ^ Suc j" and "R = deadline n h div 2 ^ Suc j"
    have c: "(n + 1) div 2 ^ Suc j = Suc c" using True by (simp only: Suc_div_power if_True c_def)
    have "n + 1 < deadline n h"
      using deadline_after [of "n + 1" h] d by simp
    moreover have "n + 1 = Suc c * 2 ^ Suc j" using True c by (metis dvd_div_mult_self)
    moreover have "deadline n h = R * 2 ^ Suc j"
      unfolding R_def deadline_div [OF less_imp_le [OF jh]]
      by (simp only: deadline_def power_split [OF less_imp_le [OF jh]] mult.assoc)
    ultimately have "Suc c < R" by (metis mult_less_cancel2)
    then obtain r where r: "R = Suc (Suc c) + r" by (metis less_iff_Suc_add add_Suc_right add_Suc)
    have "cost n h j (xs j) = 2 ^ j * Suc r"
      using jh due_complete [OF assms(1,2) True] r by (simp add: cost_def R_def [symmetric] c_def [symmetric] del: power_Suc)
    moreover have "cost (n + 1) h j z = 2 ^ j - z + 2 ^ j * r"
      unfolding cost_def d c R_def [symmetric] using jh r by simp
    ultimately show ?thesis by simp
  qed
qed

lemma cost_restart:
  assumes "2 ^ Suc h dvd n"
  shows "cost n h j z \<le> 2 ^ h"
proof -
  consider "h < j" | "j = h" | "j < h" by linarith
  then show ?thesis
  proof cases
    case 1
    then show ?thesis by (simp add: cost_def less_imp_le)
  next
    case 2
    then show ?thesis by (simp add: cost_def)
  next
    case 3
    obtain q where q: "n = 2 ^ Suc h * q" using assms by (rule dvdE)
    have "n div 2 ^ Suc j = q * 2 ^ (h - j)"
      unfolding q power_split [OF less_imp_le [OF 3]] by (simp add: ac_simps)
    moreover have "n div 2 ^ Suc h = q" by (simp add: q)
    ultimately have "deadline n h div 2 ^ Suc j - 1 - n div 2 ^ Suc j = 2 ^ (h - j) - 1"
      using 3 by (simp only: deadline_div less_imp_le) (simp add: algebra_simps)
    then have "cost n h j z \<le> 2 ^ j + 2 ^ j * (2 ^ (h - j) - 1)" using 3 by (simp add: cost_def)
    also have "\<dots> = 2 ^ j * 2 ^ (h - j)" by (simp add: algebra_simps)
    also have "\<dots> = 2 ^ h" using 3 by (simp flip: power_add)
    finally show ?thesis .
  qed
qed

lemma load_next:
  assumes "even K" "on_time K n xs" "h < K"
    "\<And>j. j < K \<Longrightarrow> zs j = xs j \<or> 2 ^ Suc j dvd n + 1" "zs h < 2 ^ h"
  shows "load K (n + 1) h zs \<le> K div 2 * (deadline (n + 1) h - (n + 1))"
proof (cases "2 ^ Suc h dvd n + 1")
  case True
  obtain q where q: "n + 1 = 2 ^ Suc h * q" using True by (rule dvdE)
  have "load K (n + 1) h zs \<le> (\<Sum>j < K. 2 ^ h)"
    unfolding load_def by (intro sum_mono cost_restart True)
  also have "\<dots> = K div 2 * 2 ^ Suc h" using assms(1) by (auto elim!: evenE)
  also have "2 ^ Suc h = deadline (n + 1) h - (n + 1)"
    unfolding deadline_def q by simp
  finally show ?thesis .
next
  case False
  then have x: "zs h = xs h" using assms(3,4) by blast
  have "load K (n + 1) h zs \<le> load K n h xs"
    unfolding load_def using assms(2,4) False by (intro sum_mono cost_next) auto
  also have "\<dots> \<le> K div 2 * (deadline n h - 1 - n)"
    using assms(2,3,5) x by (simp add: on_time_def)
  also have "deadline n h = deadline (n + 1) h"
    using False unfolding deadline_def Suc_div_power by simp
  finally show ?thesis by simp
qed

text \<open>One round: levels that are due restart, then half as many updates as there are levels.\<close>

lemma round_on_time:
  assumes "even K" "on_time K n xs" "length ts = K" "K \<le> D" "D \<le> 30"
    and zs: "\<And>j. j < K \<Longrightarrow> zs j = xs j \<or> 2 ^ Suc j dvd n + 1"
    and ts: "levels_at X ask D (n + 1) zs ts"
  obtains xs' where "on_time K (n + 1) xs'"
    "levels_at X ask D (n + 1) xs' (update_treehash X ask (derive_auth_pub_seed X ask) (K div 2) ts)"
proof -
  obtain xs' where l: "levels_at X ask D (n + 1) xs' (update_treehash X ask (derive_auth_pub_seed X ask) (K div 2) ts)"
    and p: "\<And>h. h < K \<Longrightarrow> zs h \<le> xs' h
              \<and> (xs' h < 2 ^ h \<longrightarrow> load K (n + 1) h xs' + K div 2 \<le> load K (n + 1) h zs)"
    using update_treehash_progress [OF ts, of "K div 2"] assms by auto
  have len: "length (update_treehash X ask (derive_auth_pub_seed X ask) m ts) = length ts" for m
    by (induction m arbitrary: ts) (simp_all split: option.split)
  have "load K (n + 1) h xs' \<le> K div 2 * (deadline (n + 1) h - 1 - (n + 1))" if h: "h < K" "xs' h < 2 ^ h" for h
  proof -
    let ?d = "deadline (n + 1) h"
    have "zs h < 2 ^ h" using p [OF h(1)] h(2) by linarith
    then have "load K (n + 1) h xs' + K div 2 \<le> K div 2 * (?d - (n + 1))"
      using load_next [OF assms(1,2) h(1) zs] p [OF h(1)] h(2) by fastforce
    moreover have "?d - (n + 1) = Suc (?d - 1 - (n + 1))" using deadline_after [of "n + 1" h] by simp
    ultimately show ?thesis by simp
  qed
  moreover have "xs' h \<le> 2 ^ h" if "h < K" for h
    using l that assms(3) by (auto simp: levels_at_def len intro: th_at_le)
  ultimately show thesis using that [of xs'] l by (simp add: on_time_def)
qed

end
