(* ===== verification/BdsTraversal.thy ===== *)
theory BdsTraversal
  imports BdsSchedule
begin

text \<open>
  The traversal state at a key index, and that advancing it to the next index never fails before
  the keys are exhausted and yields the authentication path of the next key.
\<close>

section \<open>The lowest zero bit of the index\<close>

lemma trailing_ones_upto_spec:
  assumes "n + 1 < 2 ^ m" "m \<le> 32"
  shows "2 ^ trailing_ones_upto m (word_of_nat n) dvd n + 1
         \<and> \<not> 2 ^ Suc (trailing_ones_upto m (word_of_nat n)) dvd n + 1"
  using assms
proof (induction m arbitrary: n)
  case 0
  then show ?case by simp
next
  case (Suc m)
  have n: "n < 2 ^ 32" using Suc.prems power_increasing [of "Suc m" 32 "2 :: nat"] by linarith
  have odd: "(word_of_nat n :: u32) AND 1 = 1 \<longleftrightarrow> odd n"
    using n by (simp add: word_unat_eq_iff and_one_eq unat_mod unat_of_nat_small odd_iff_mod_2_eq_one)
  show ?case
  proof (cases n rule: parity_nat)
    case (e q)
    then have "\<not> (word_of_nat n :: u32) AND 1 = 1" using odd by simp
    then show ?thesis using e by simp
  next
    case (o q)
    have "drop_bit 1 (word_of_nat n :: u32) = word_of_nat q"
      unfolding word_unat_eq_iff unat_drop_bit_eq using n o
      by (simp add: unat_of_nat_small drop_bit_eq_div del: of_nat_Suc of_nat_add)
    moreover have "(word_of_nat n :: u32) AND 1 = 1" using odd o by simp
    ultimately have t: "trailing_ones_upto (Suc m) (word_of_nat n) = Suc (trailing_ones_upto m (word_of_nat q))"
      by simp
    have n1: "n + 1 = 2 * (q + 1)" using o by simp
    have "2 ^ trailing_ones_upto m (word_of_nat q) dvd q + 1
         \<and> \<not> 2 ^ Suc (trailing_ones_upto m (word_of_nat q)) dvd q + 1"
      using Suc.prems o by (intro Suc.IH) simp_all
    then show ?thesis
      unfolding t n1 power_Suc dvd_times_left_cancel_iff [OF numeral_neq_zero] by simp
  qed
qed

lemma trailing_ones_cases:
  assumes "n + 1 < 2 ^ D" "D \<le> 30"
  obtains q tau where "trailing_ones (word_of_nat n) = tau" "n + 1 = (2 * q + 1) * 2 ^ tau" "tau < D"
proof -
  define tau where "tau = trailing_ones (word_of_nat n)"
  have "n + 1 < 2 ^ 32" using assms power_increasing [of D 32 "2 :: nat"] by linarith
  note t = trailing_ones_upto_spec [OF this order_refl, folded trailing_ones_def tau_def]
  from t obtain m where m: "n + 1 = 2 ^ tau * m" by (auto elim: dvdE)
  then have "odd m" using t by (auto elim!: evenE simp: ac_simps)
  then obtain q where "m = 2 * q + 1" by (rule oddE)
  then have n: "n + 1 = (2 * q + 1) * 2 ^ tau" using m by (simp only: mult.commute)
  have "2 ^ tau \<le> n + 1" unfolding n by simp
  then have "tau < D" using assms(1) by (metis le_less_trans nat_power_less_imp_less zero_less_numeral)
  then show thesis using that [of tau q] n by (simp add: tau_def)
qed

text \<open>The quotients of two adjacent indices.\<close>

lemma due_iff:
  assumes "n + 1 = (2 * q + 1) * (2 :: nat) ^ tau"
  shows "2 ^ h dvd n + 1 \<longleftrightarrow> h \<le> tau"
proof
  assume d: "2 ^ h dvd n + 1"
  show "h \<le> tau"
  proof (rule ccontr)
    assume "\<not> h \<le> tau"
    then have "(2 :: nat) ^ Suc tau dvd 2 ^ h" by (intro le_imp_power_dvd) simp
    then have "2 ^ Suc tau dvd (2 * q + 1) * 2 ^ tau" using d assms dvd_trans by metis
    then have "2 dvd 2 * q + 1" unfolding power_Suc by (subst (asm) dvd_times_right_cancel_iff) simp_all
    then show False by simp
  qed
next
  assume "h \<le> tau"
  then show "2 ^ h dvd n + 1" unfolding assms by (intro dvd_mult le_imp_power_dvd)
qed

lemma next_quotient:
  assumes "n + 1 = (2 * q + 1) * (2 :: nat) ^ tau"
  shows "tau < h \<Longrightarrow> (n + 1) div 2 ^ h = n div 2 ^ h"
    and "h \<le> tau \<Longrightarrow> (n + 1) div 2 ^ h = n div 2 ^ h + 1"
    and "(n + 1) div 2 ^ tau = 2 * q + 1" "n div 2 ^ tau = 2 * q"
proof -
  show "tau < h \<Longrightarrow> (n + 1) div 2 ^ h = n div 2 ^ h" "h \<le> tau \<Longrightarrow> (n + 1) div 2 ^ h = n div 2 ^ h + 1" for h
    using due_iff [OF assms, of h] Suc_div_power [of n h] by simp_all
  show s: "(n + 1) div 2 ^ tau = 2 * q + 1" unfolding assms by simp
  show "n div 2 ^ tau = 2 * q"
    using s due_iff [OF assms, of tau] Suc_div_power [of n tau] by simp
qed

lemma below_quotient:
  assumes "n + 1 = (2 * q + 1) * (2 :: nat) ^ tau" "h < tau"
  shows "(n + 1) div 2 ^ h = 2 * (n div 2 ^ Suc h) + 2" "n div 2 ^ h = 2 * (n div 2 ^ Suc h) + 1"
proof -
  have "(n + 1) div 2 ^ Suc h = n div 2 ^ Suc h + 1" using assms(2) by (intro next_quotient(2) [OF assms(1)]) simp
  moreover obtain m where m: "n + 1 = 2 ^ Suc h * m"
    using due_iff [OF assms(1), of "Suc h"] assms(2) by (auto elim: dvdE)
  have "(n + 1) div 2 ^ h = 2 * ((n + 1) div 2 ^ Suc h)" unfolding m by (simp add: ac_simps)
  ultimately show "(n + 1) div 2 ^ h = 2 * (n div 2 ^ Suc h) + 2" by simp
  then show "n div 2 ^ h = 2 * (n div 2 ^ Suc h) + 1"
    using next_quotient(2) [OF assms(1), of h] assms(2) by simp
qed

section \<open>The invariant\<close>

definition keep_at :: "'x ext_scheme \<Rightarrow> felt \<Rightarrow> nat \<Rightarrow> nat \<Rightarrow> FeltSlot list \<Rightarrow> bool" where
  "keep_at X ask D n keep \<longleftrightarrow> length keep = D \<and>
     (\<forall>h < D - 1. (fs_present (keep ! h) \<longleftrightarrow> n div 2 ^ h mod 4 = 1)
        \<and> (n div 2 ^ h mod 4 = 1 \<longrightarrow> fs_value (keep ! h) = xmss_node X ask h (n div 2 ^ h)))"

definition retain_at :: "'x ext_scheme \<Rightarrow> felt \<Rightarrow> nat \<Rightarrow> nat \<Rightarrow> nat \<Rightarrow> RetainLevel list \<Rightarrow> bool" where
  "retain_at X ask D K n retain \<longleftrightarrow> length retain = D \<and>
     (\<forall>h. K \<le> h \<and> h < D - 1 \<longrightarrow>
        retain ! h = \<lparr>rl_nodes = map (\<lambda>j. xmss_node X ask h (2 * j + 3)) [0..<2 ^ (D - 1 - h) - 1],
                      rl_next = n div 2 ^ Suc h\<rparr>)"

definition treehash_at :: "'x ext_scheme \<Rightarrow> felt \<Rightarrow> nat \<Rightarrow> nat \<Rightarrow> nat \<Rightarrow> TreeHashState list \<Rightarrow> bool" where
  "treehash_at X ask D K n ts \<longleftrightarrow> length ts = K \<and> (\<exists>xs. on_time K n xs \<and> levels_at X ask D n xs ts)"

definition bds_at :: "'x ext_scheme \<Rightarrow> felt \<Rightarrow> nat \<Rightarrow> nat \<Rightarrow> nat \<Rightarrow> XmssBdsState \<Rightarrow> bool" where
  "bds_at X ask D K n st \<longleftrightarrow>
     n < 2 ^ D \<and> bds_next_index st = word_of_nat n \<and> bds_auth_path st = xmss_path X ask D n
     \<and> keep_at X ask D n (bds_keep st) \<and> treehash_at X ask D K n (bds_treehash st)
     \<and> retain_at X ask D K n (bds_retain st)"

text \<open>The state after initialisation.\<close>

lemma new_with_params_at:
  assumes "0 < D" "D \<le> 30" "k < D"
  obtains st where "new_with_params X False ask (derive_auth_pub_seed X ask) D k = Inr (st, xmss_node X ask D 0)"
    "bds_at X ask D (D - k) 0 st"
proof -
  let ?b = "built X ask D k (\<lambda>i. 2 ^ D div 2 ^ Suc i)"
  let ?st = "\<lparr>bds_next_index = 0, bds_auth_path = bb_auth_path ?b, bds_keep = replicate D FeltSlot_none,
    bds_treehash = bb_treehash ?b, bds_retain = bb_retain ?b\<rparr>"
  have e: "(2 :: nat) ^ D div 2 ^ Suc h = 2 ^ (D - 1 - h)" if "h < D" for h
    using that by (simp flip: power_diff power_Suc)
  have two: "(2 :: nat) \<le> 2 ^ (D - 1 - h) \<longleftrightarrow> h < D - 1" for h
  proof
    show "h < D - 1" if "(2 :: nat) \<le> 2 ^ (D - 1 - h)" using that by (cases "D - 1 - h") auto
    show "(2 :: nat) \<le> 2 ^ (D - 1 - h)" if "h < D - 1"
      using that power_increasing [of 1 "D - 1 - h" "2 :: nat"] by simp
  qed
  have "bb_auth_path ?b = xmss_path X ask D 0"
    by (simp add: built_def xmss_path_def sibling_def e del: power_Suc)
  moreover have "keep_at X ask D 0 (replicate D FeltSlot_none)"
    by (simp add: keep_at_def FeltSlot_none_def)
  moreover have "treehash_at X ask D (D - k) 0 (bb_treehash ?b)"
  proof -
    have "th_at X ask D 0 h (2 ^ h) (bb_treehash ?b ! h)" if h: "h < D - k" for h
    proof (cases "h < D - 1")
      case True
      have "3 * 2 ^ h < (2 :: nat) ^ D"
      proof -
        have "(2 :: nat) ^ (h + 2) \<le> 2 ^ D" using True by (intro power_increasing) simp_all
        moreover have "(2 :: nat) ^ (h + 2) = 4 * 2 ^ h" "0 < (2 :: nat) ^ h" by simp_all
        ultimately show ?thesis by linarith
      qed
      moreover have "h < D" using True by simp
      ultimately show ?thesis
        using h e two True
        by (simp add: built_def th_at_def Let_def TreeHashState_seed_completed_def TreeHashState_new_def
            not_le del: power_Suc)
    next
      case False
      then have "D = Suc h" using h by simp
      then show ?thesis
        using h by (simp add: built_def th_at_def Let_def TreeHashState_new_def)
    qed
    then have "levels_at X ask D 0 (\<lambda>h. 2 ^ h) (bb_treehash ?b)"
      by (simp add: levels_at_def built_def del: power_Suc)
    moreover have "on_time (D - k) 0 (\<lambda>h. 2 ^ h)" by (simp add: on_time_def)
    ultimately show ?thesis by (auto simp: treehash_at_def built_def simp del: power_Suc)
  qed
  moreover have "retain_at X ask D (D - k) 0 (bb_retain ?b)"
    by (auto simp: retain_at_def built_def e simp del: power_Suc)
  ultimately have "bds_at X ask D (D - k) 0 ?st" by (simp add: bds_at_def)
  then show thesis
    using that [of ?st] new_with_params_eq [of D k X ask] assms by (simp add: Let_def del: power_Suc)
qed

section \<open>One step\<close>

lemma each_act_snoc: "each_act f (xs @ [x]) s = bind_act (each_act f xs) (\<lambda>_. f x) s"
proof (induction xs arbitrary: s)
  case Nil
  then show ?case by (simp add: bind_act_def split: prod.split sum.split)
next
  case (Cons a xs)
  then show ?case by (simp add: bind_act_def split: prod.split sum.split)
qed

lemma map_nth_upt: "length xs = n \<Longrightarrow> map (\<lambda>h. xs ! h) [0..<n] = xs"
  using map_nth by blast

text \<open>The loop over the levels below the new left node, when every level has its right node.\<close>

definition refreshed :: "nat \<Rightarrow> (nat \<Rightarrow> felt) \<Rightarrow> XmssBdsState \<Rightarrow> XmssBdsState" where
  "refreshed a v st = st\<lparr>
     bds_auth_path := map (\<lambda>h. if h < a then v h else bds_auth_path st ! h) [0..<length (bds_auth_path st)],
     bds_treehash := map (\<lambda>h. if h < a then snd (TreeHashState_take_ready (bds_treehash st ! h))
       else bds_treehash st ! h) [0..<length (bds_treehash st)],
     bds_retain := map (\<lambda>h. if length (bds_treehash st) \<le> h \<and> h < a
       then snd (RetainLevel_pop (bds_retain st ! h)) else bds_retain st ! h) [0..<length (bds_retain st)]\<rparr>"

lemma refreshed_0: "refreshed 0 v st = st"
  by (simp add: refreshed_def map_nth)

lemma refresh_level_refreshed:
  assumes "a < length (bds_auth_path st)"
    "a < length (bds_treehash st) \<Longrightarrow> fst (TreeHashState_take_ready (bds_treehash st ! a)) = Some (v a)"
    "length (bds_treehash st) \<le> a \<Longrightarrow>
       a < length (bds_retain st) \<and> fst (RetainLevel_pop (bds_retain st ! a)) = Some (v a)"
  shows "refresh_level a (refreshed a v st) = (Inr (), refreshed (Suc a) v st)"
proof (cases "a < length (bds_treehash st)")
  case True
  have "take_right_node a (refreshed a v st)
      = (Inr (v a), (refreshed a v st)\<lparr>bds_treehash := (bds_treehash (refreshed a v st))
          [a := snd (TreeHashState_take_ready (bds_treehash st ! a))]\<rparr>)"
    using True assms(2) by (simp add: take_right_node_def refreshed_def case_prod_beta)
  then show ?thesis
    using True assms(1)
    by (cases st) (auto simp: refresh_level_def bind_act_def at_index_def refreshed_def map_upt_update less_Suc_eq
        intro!: map_cong)
next
  case False
  have "take_right_node a (refreshed a v st)
      = (Inr (v a), (refreshed a v st)\<lparr>bds_retain := (bds_retain (refreshed a v st))
          [a := snd (RetainLevel_pop (bds_retain st ! a))]\<rparr>)"
    using False assms(3) by (simp add: take_right_node_def refreshed_def case_prod_beta)
  then show ?thesis
    using False assms(1,3)
    by (cases st) (auto simp: refresh_level_def bind_act_def at_index_def refreshed_def map_upt_update less_Suc_eq
        intro!: map_cong)
qed

lemma refresh_levels:
  assumes "a \<le> length (bds_auth_path st)"
    "\<And>h. h < a \<Longrightarrow> h < length (bds_treehash st) \<Longrightarrow>
       fst (TreeHashState_take_ready (bds_treehash st ! h)) = Some (v h)"
    "\<And>h. h < a \<Longrightarrow> length (bds_treehash st) \<le> h \<Longrightarrow>
       h < length (bds_retain st) \<and> fst (RetainLevel_pop (bds_retain st ! h)) = Some (v h)"
  shows "each_act refresh_level [0..<a] st = (Inr (), refreshed a v st)"
  using assms
proof (induction a)
  case 0
  then show ?case by (simp add: refreshed_0)
next
  case (Suc a)
  then have "each_act refresh_level [0..<a] st = (Inr (), refreshed a v st)" by simp
  then show ?case
    using Suc.prems refresh_level_refreshed [of a st v] by (simp add: each_act_snoc bind_act_def)
qed

definition restarted :: "nat \<Rightarrow> u32 \<Rightarrow> nat \<Rightarrow> TreeHashState \<Rightarrow> TreeHashState" where
  "restarted tsz index h t = (let start_idx = index + 1 + push_bit h 3 in
     if unat start_idx < tsz then TreeHashState_start t start_idx else TreeHashState_clear t)"

lemma restart_levels:
  assumes "m \<le> length (bds_treehash st)"
  shows "foldl (\<lambda>st h. restart_level tsz index h st) st [0..<m]
         = st\<lparr>bds_treehash := map (\<lambda>h. if h < m then restarted tsz index h (bds_treehash st ! h)
             else bds_treehash st ! h) [0..<length (bds_treehash st)]\<rparr>"
  using assms
proof (induction m)
  case 0
  then show ?case by (simp add: map_nth)
next
  case (Suc m)
  then show ?case
    by (auto simp: restart_level_def restarted_def Let_def map_upt_update less_Suc_eq intro!: map_cong)
qed

text \<open>The kept nodes.\<close>

lemma keep_next:
  assumes k: "keep_at X ask D n keep" and n: "n + 1 = (2 * q + 1) * (2 :: nat) ^ tau" and "tau < D"
    and k1: "keep1 = (if tau < D - 1 \<and> even q then keep[tau := FeltSlot_some (xmss_node X ask tau (2 * q + 1))]
                      else keep)"
  shows "0 < tau \<Longrightarrow> keep1 ! (tau - 1) = FeltSlot_some (xmss_node X ask (tau - 1) (4 * q + 1))"
    and "keep_at X ask D (n + 1)
           (if tau = 0 then keep1 else keep1[tau - 1 := (keep1 ! (tau - 1))\<lparr>fs_present := False\<rparr>])"
proof -
  have len: "length keep = D" "length keep1 = D" using k by (simp_all add: keep_at_def k1)
  have at: "fs_present (keep ! h) \<longleftrightarrow> n div 2 ^ h mod 4 = 1"
    "n div 2 ^ h mod 4 = 1 \<Longrightarrow> fs_value (keep ! h) = xmss_node X ask h (n div 2 ^ h)" if "h < D - 1" for h
    using k that by (simp_all add: keep_at_def)
  note nq = next_quotient [OF n] and bq = below_quotient [OF n]
  show taken: "keep1 ! (tau - 1) = FeltSlot_some (xmss_node X ask (tau - 1) (4 * q + 1))" if t: "0 < tau"
  proof -
    have "n div 2 ^ (tau - 1) = 4 * q + 1" using bq(2) [of "tau - 1"] nq(4) t by simp
    then have "keep ! (tau - 1) = FeltSlot_some (xmss_node X ask (tau - 1) (4 * q + 1))"
      using at [of "tau - 1"] t assms(3) by (simp add: FeltSlot_some_def)
    then show ?thesis using t by (simp add: k1)
  qed
  have "(fs_present (k' ! h) \<longleftrightarrow> (n + 1) div 2 ^ h mod 4 = 1)
      \<and> ((n + 1) div 2 ^ h mod 4 = 1 \<longrightarrow> fs_value (k' ! h) = xmss_node X ask h ((n + 1) div 2 ^ h))"
    if h: "h < D - 1"
      and k': "k' = (if tau = 0 then keep1 else keep1[tau - 1 := (keep1 ! (tau - 1))\<lparr>fs_present := False\<rparr>])"
    for h k'
  proof -
    consider (below) "h + 1 < tau" | (left) "h + 1 = tau" | (here) "h = tau" | (above) "tau < h" by linarith
    then show ?thesis
    proof cases
      case below
      define c where "c = n div 2 ^ Suc (Suc h)"
      have "n div 2 ^ h = 2 * (2 * c + 1) + 1" "(n + 1) div 2 ^ h = 2 * (2 * c + 1) + 2"
        using bq [of h] bq(2) [of "Suc h"] below by (simp_all add: c_def del: power_Suc)
      moreover have "(2 * (2 * c + 1) + 1) mod 4 = 3" "(2 * (2 * c + 1) + 2) mod 4 = 0" for c :: nat
        by presburger+
      ultimately have "n div 2 ^ h mod 4 \<noteq> 1" "(n + 1) div 2 ^ h mod 4 \<noteq> 1" by simp_all
      then show ?thesis using below at(1) [OF h] by (simp add: k' k1 nth_list_update)
    next
      case left
      then have "(n + 1) div 2 ^ h = 2 * (n div 2 ^ Suc h) + 2" using bq(1) [of h] by simp
      moreover have "(2 * a + 2) mod 4 \<noteq> 1" for a :: nat by presburger
      ultimately have "(n + 1) div 2 ^ h mod 4 \<noteq> 1" by simp
      then show ?thesis using left len assms(3) by (auto simp: k' nth_list_update)
    next
      case here
      have "(2 * q + 1) mod 4 = 1 \<longleftrightarrow> even q" "(2 * q) mod 4 \<noteq> 1" by presburger+
      then show ?thesis
        using here h at [OF h] len nq(3,4) by (auto simp: k' k1 FeltSlot_some_def nth_list_update)
    next
      case above
      then show ?thesis using at [OF h] nq(1) [of h] by (auto simp: k' k1 nth_list_update)
    qed
  qed
  then show "keep_at X ask D (n + 1)
      (if tau = 0 then keep1 else keep1[tau - 1 := (keep1 ! (tau - 1))\<lparr>fs_present := False\<rparr>])"
    using len by (simp add: keep_at_def)
qed

text \<open>The retained nodes.\<close>

lemma retain_next:
  assumes r: "retain_at X ask D K n rs" and n: "n + 1 = (2 * q + 1) * (2 :: nat) ^ tau" "n + 1 < 2 ^ D" and "tau < D"
  shows "K \<le> h \<Longrightarrow> h < tau \<Longrightarrow> fst (RetainLevel_pop (rs ! h)) = Some (xmss_node X ask h (2 * (n div 2 ^ Suc h) + 3))"
    and "retain_at X ask D K (n + 1)
           (map (\<lambda>h. if K \<le> h \<and> h < tau then snd (RetainLevel_pop (rs ! h)) else rs ! h) [0..<D])"
proof -
  have len: "length rs = D" using r by (simp add: retain_at_def)
  have at: "rs ! h = \<lparr>rl_nodes = map (\<lambda>j. xmss_node X ask h (2 * j + 3)) [0..<2 ^ (D - 1 - h) - 1],
                     rl_next = n div 2 ^ Suc h\<rparr>" if "K \<le> h" "h < D - 1" for h
    using r that by (simp add: retain_at_def)
  have room: "n div 2 ^ Suc h < 2 ^ (D - 1 - h) - 1" if "h < tau" for h
  proof -
    have "(n + 1) div 2 ^ Suc h < 2 ^ (D - 1 - h)"
    proof (rule less_mult_imp_div_less)
      have "(2 :: nat) ^ (D - 1 - h) * 2 ^ Suc h = 2 ^ D"
        using that assms(4) by (simp flip: power_add power_Suc)
      then show "n + 1 < 2 ^ (D - 1 - h) * 2 ^ Suc h" using n(2) by simp
    qed
    then show ?thesis using next_quotient(2) [OF n(1), of "Suc h"] that by simp
  qed
  have pop: "RetainLevel_pop (rs ! h) = (Some (xmss_node X ask h (2 * (n div 2 ^ Suc h) + 3)),
      \<lparr>rl_nodes = map (\<lambda>j. xmss_node X ask h (2 * j + 3)) [0..<2 ^ (D - 1 - h) - 1],
       rl_next = (n + 1) div 2 ^ Suc h\<rparr>)" if "K \<le> h" "h < tau" for h
    using that at [of h] room [of h] next_quotient(2) [OF n(1), of "Suc h"] assms(4)
    by (simp add: RetainLevel_pop_def del: power_Suc)
  show "fst (RetainLevel_pop (rs ! h)) = Some (xmss_node X ask h (2 * (n div 2 ^ Suc h) + 3))"
    if "K \<le> h" "h < tau" using pop that by simp
  show "retain_at X ask D K (n + 1)
      (map (\<lambda>h. if K \<le> h \<and> h < tau then snd (RetainLevel_pop (rs ! h)) else rs ! h) [0..<D])"
    unfolding retain_at_def
  proof (intro conjI allI impI)
    fix h
    assume h: "K \<le> h \<and> h < D - 1"
    show "map (\<lambda>h. if K \<le> h \<and> h < tau then snd (RetainLevel_pop (rs ! h)) else rs ! h) [0..<D] ! h
        = \<lparr>rl_nodes = map (\<lambda>j. xmss_node X ask h (2 * j + 3)) [0..<2 ^ (D - 1 - h) - 1],
           rl_next = (n + 1) div 2 ^ Suc h\<rparr>"
      using h pop [of h] at [of h] next_quotient(1) [OF n(1), of "Suc h"] less_le_trans [of h "D - 1" D]
      by (cases "h < tau") (simp_all del: power_Suc)
  qed simp
qed

text \<open>The treehash instances: those that are due hold their node and restart.\<close>

lemma treehash_next:
  assumes t: "treehash_at X ask D K n ts" and n: "n + 1 = (2 * q + 1) * (2 :: nat) ^ tau" "n + 1 < 2 ^ D"
    and b: "tau < D" "K \<le> D" "D \<le> 30" "even K"
    and ts': "ts' = map (\<lambda>h. if h < min tau K
        then restarted (2 ^ D) (word_of_nat n) h (snd (TreeHashState_take_ready (ts ! h))) else ts ! h) [0..<K]"
  shows "h < tau \<Longrightarrow> h < K \<Longrightarrow> fst (TreeHashState_take_ready (ts ! h)) = Some (xmss_node X ask h (2 * (n div 2 ^ Suc h) + 3))"
    and "treehash_at X ask D K (n + 1) (update_treehash X ask (derive_auth_pub_seed X ask) (K div 2) ts')"
proof -
  obtain xs where len: "length ts = K" and xs: "on_time K n xs" "levels_at X ask D n xs ts"
    using t by (auto simp: treehash_at_def)
  have ready: "fst (TreeHashState_take_ready (ts ! h)) = Some (xmss_node X ask h (2 * (n div 2 ^ Suc h) + 3))"
    "th_target_height (snd (TreeHashState_take_ready (ts ! h))) = word_of_nat h"
    if h: "h < tau" "h < K" for h
  proof -
    have "xs h = 2 ^ h" using due_complete [OF xs(1) h(2)] due_iff [OF n(1), of "Suc h"] h(1) by simp
    then have th: "th_at X ask D n h (2 ^ h) (ts ! h)" using xs(2) h(2) len by (auto simp: levels_at_def)
    have i: "(n + 1) div 2 ^ h + 1 = 2 * (n div 2 ^ Suc h) + 3" using below_quotient(1) [OF n(1) h(1)] by simp
    have lt: "((n + 1) div 2 ^ h + 1) * 2 ^ h < 2 ^ D"
    proof -
      have e: "(n + 1) div 2 ^ h * 2 ^ h = n + 1"
        using due_iff [OF n(1), of h] h(1) by simp
      then have "(n + 1) div 2 ^ h * 2 ^ h < 2 ^ D" using n(2) by simp
      moreover have "\<not> (n + 1) div 2 ^ h * 2 ^ h + 2 ^ h = 2 ^ D"
      proof
        assume "(n + 1) div 2 ^ h * 2 ^ h + 2 ^ h = 2 ^ D"
        then have "((n + 1) div 2 ^ h + 1) * 2 ^ h = 2 ^ (D - h) * 2 ^ h"
          using h(1) b(1) by (simp flip: power_add)
        then have "(n + 1) div 2 ^ h + 1 = 2 ^ (D - h)" unfolding mult_cancel2 by simp
        moreover have "D - h = Suc (D - h - 1)" using h(1) b(1) by simp
        ultimately show False using below_quotient(1) [OF n(1) h(1)]
          by (metis even_Suc even_add even_mult_iff even_numeral power_Suc Suc_eq_plus1 dvd_triv_left)
      qed
      moreover have "((n + 1) div 2 ^ h + 1) * 2 ^ h \<le> 2 ^ D"
        using calculation(1) h(1) b(1) by (intro aligned_room) simp_all
      ultimately show ?thesis by (simp add: algebra_simps)
    qed
    have "th_node (ts ! h) = FeltSlot_some (xmss_node X ask h (2 * (n div 2 ^ Suc h) + 3))"
      "th_target_height (ts ! h) = word_of_nat h"
      using th lt [unfolded i] unfolding th_at_def Let_def by (simp_all only: not_le [symmetric] if_False if_True)
    then show "fst (TreeHashState_take_ready (ts ! h)) = Some (xmss_node X ask h (2 * (n div 2 ^ Suc h) + 3))"
      "th_target_height (snd (TreeHashState_take_ready (ts ! h))) = word_of_nat h"
      by (simp_all add: TreeHashState_take_ready_def FeltSlot_take_def FeltSlot_some_def)
  qed
  then show "h < tau \<Longrightarrow> h < K \<Longrightarrow>
      fst (TreeHashState_take_ready (ts ! h)) = Some (xmss_node X ask h (2 * (n div 2 ^ Suc h) + 3))" by blast
  define start where "start h = (2 * ((n + 1) div 2 ^ Suc h) + 3) * (2 :: nat) ^ h" for h
  define zs where "zs h = (if h < tau then if start h < 2 ^ D then 0 else 2 ^ h else xs h)" for h
  have "th_at X ask D (n + 1) h (zs h) (ts' ! h)" if h: "h < K" for h
  proof (cases "h < tau")
    case False
    then have "(n + 1) div 2 ^ Suc h = n div 2 ^ Suc h" using next_quotient(1) [OF n(1), of "Suc h"] by simp
    then show ?thesis
      using xs(2) h len False by (simp add: th_at_def levels_at_def zs_def ts' del: power_Suc)
  next
    case True
    have s: "start h = n + 1 + 3 * 2 ^ h"
    proof -
      have "(n + 1) div 2 ^ Suc h * 2 ^ Suc h = n + 1" using due_iff [OF n(1), of "Suc h"] True by simp
      then show ?thesis unfolding start_def by (simp add: algebra_simps)
    qed
    have "start h < 2 ^ 32"
    proof -
      have "(2 :: nat) ^ h \<le> 2 ^ D" "(2 :: nat) ^ D \<le> 2 ^ 30" using h b by (intro power_increasing; simp)+
      moreover have "(2 :: nat) ^ 30 = 1073741824" "(2 :: nat) ^ 32 = 4294967296" by simp_all
      ultimately show ?thesis using n(2) s by linarith
    qed
    moreover have "(word_of_nat n + 1 + push_bit h 3 :: u32) = word_of_nat (start h)"
      by (simp add: s push_bit_eq_mult)
    ultimately have w: "(word_of_nat n + 1 + push_bit h 3 :: u32) = word_of_nat (start h)"
      "unat (word_of_nat n + 1 + push_bit h 3 :: u32) = start h"
      by (simp_all add: unat_of_nat_small)
    show ?thesis
    proof (cases "start h < 2 ^ D")
      case run: True
      then show ?thesis using True h w ready(2) [of h]
        unfolding th_at_def Let_def start_def [symmetric]
        by (simp add: ts' restarted_def Let_def zs_def TreeHashState_start_def not_le)
    next
      case idle: False
      then show ?thesis using True h w ready(2) [of h]
        unfolding th_at_def Let_def start_def [symmetric]
        by (simp add: ts' restarted_def zs_def TreeHashState_clear_def not_le)
    qed
  qed
  then have "levels_at X ask D (n + 1) zs ts'" by (simp add: levels_at_def ts')
  moreover have "zs j = xs j \<or> 2 ^ Suc j dvd n + 1" for j
    using due_iff [OF n(1), of "Suc j"] by (auto simp: zs_def)
  moreover have "length ts' = K" by (simp add: ts')
  ultimately obtain xs' where "on_time K (n + 1) xs'"
    "levels_at X ask D (n + 1) xs' (update_treehash X ask (derive_auth_pub_seed X ask) (K div 2) ts')"
    using round_on_time [OF b(4) xs(1) _ b(2,3)] by metis
  moreover have "length (update_treehash X ask ps m ts') = length ts'" for ps m
    by (induction m arbitrary: ts') (simp_all split: option.split)
  ultimately show "treehash_at X ask D K (n + 1) (update_treehash X ask (derive_auth_pub_seed X ask) (K div 2) ts')"
    using \<open>length ts' = K\<close> by (auto simp: treehash_at_def)
qed

text \<open>The authentication path.\<close>

lemma path_next:
  assumes n: "n + 1 = (2 * q + 1) * (2 :: nat) ^ tau" and "tau < D"
  shows "xmss_path X ask D n ! tau = xmss_node X ask tau (2 * q + 1)"
    and "0 < tau \<Longrightarrow> xmss_path X ask D n ! (tau - 1) = xmss_node X ask (tau - 1) (4 * q)"
    and "map (\<lambda>h. if h < tau then xmss_node X ask h (2 * (n div 2 ^ Suc h) + 3)
               else (xmss_path X ask D n)[tau := xmss_node X ask tau (2 * q)] ! h) [0..<D]
         = xmss_path X ask D (n + 1)"
proof -
  note nq = next_quotient [OF n] and bq = below_quotient [OF n]
  show "xmss_path X ask D n ! tau = xmss_node X ask tau (2 * q + 1)"
    using assms(2) nq(4) by (simp add: xmss_path_def sibling_def)
  show "xmss_path X ask D n ! (tau - 1) = xmss_node X ask (tau - 1) (4 * q)" if "0 < tau"
    using less_imp_diff_less [OF assms(2), of 1] nq(4) bq(2) [of "tau - 1"] that
    by (simp add: xmss_path_def sibling_def)
  show "map (\<lambda>h. if h < tau then xmss_node X ask h (2 * (n div 2 ^ Suc h) + 3)
               else (xmss_path X ask D n)[tau := xmss_node X ask tau (2 * q)] ! h) [0..<D]
         = xmss_path X ask D (n + 1)"
  proof (rule nth_equalityI)
    fix h
    assume "h < length (map (\<lambda>h. if h < tau then xmss_node X ask h (2 * (n div 2 ^ Suc h) + 3)
               else (xmss_path X ask D n)[tau := xmss_node X ask tau (2 * q)] ! h) [0..<D])"
    then have h: "h < D" by simp
    consider "h < tau" | "h = tau" | "tau < h" by linarith
    then show "map (\<lambda>h. if h < tau then xmss_node X ask h (2 * (n div 2 ^ Suc h) + 3)
               else (xmss_path X ask D n)[tau := xmss_node X ask tau (2 * q)] ! h) [0..<D] ! h
         = xmss_path X ask D (n + 1) ! h"
      by cases (use h nq(1) [of h] nq(3) bq(1) [of h] in \<open>simp_all add: xmss_path_def sibling_def numeral_3_eq_3 del: power_Suc\<close>)
  qed simp
qed

lemma left_node_hash:
  assumes n: "n + 1 = (2 * q + 1) * (2 :: nat) ^ tau" "n + 1 < 2 ^ D" and b: "0 < tau" "tau < D" "D \<le> 30"
  shows "xmss_tree_node_hash X (derive_auth_pub_seed X ask) (word_of_nat (tau - 1))
           (drop_bit tau (word_of_nat n + 1 - push_bit tau 1))
           (xmss_node X ask (tau - 1) (4 * q)) (xmss_node X ask (tau - 1) (4 * q + 1))
         = xmss_node X ask tau (2 * q)"
proof -
  obtain t where t: "tau = Suc t" using b(1) by (cases tau) auto
  have "(2 * q + 1) * 2 ^ tau \<le> 2 ^ 32"
    using n power_increasing [of D 32 "2 :: nat"] b(3) by linarith
  moreover have "(word_of_nat n + 1 - push_bit tau 1 :: u32) = word_of_nat (2 * q * 2 ^ tau)"
  proof -
    have "(word_of_nat n + 1 :: u32) = word_of_nat (n + 1)" by simp
    also have "\<dots> = word_of_nat (2 * q * 2 ^ tau) + push_bit tau 1"
      unfolding n(1) by (simp add: push_bit_eq_mult algebra_simps)
    finally show ?thesis by simp
  qed
  ultimately have "drop_bit tau (word_of_nat n + 1 - push_bit tau 1 :: u32) = word_of_nat (2 * q)"
    using aligned_words(3) [of "2 * q" t] by (simp only: t)
  then show ?thesis by (simp add: t)
qed

lemma index_bit:
  assumes "n + 1 = (2 * q + 1) * (2 :: nat) ^ tau" "n < 2 ^ 32"
  shows "drop_bit (tau + 1) (word_of_nat n :: u32) AND 1 = 0 \<longleftrightarrow> even q"
proof -
  have "n div 2 ^ (tau + 1) = q" using next_quotient(4) [OF assms(1)] by (simp only: Suc_eq_plus1 [symmetric] div_power_Suc)
  then have "unat (drop_bit (tau + 1) (word_of_nat n :: u32)) = q"
    unfolding unat_drop_bit_eq using assms(2) by (simp add: unat_of_nat_small drop_bit_eq_div)
  then show ?thesis by (simp add: word_unat_eq_iff and_one_eq unat_mod even_iff_mod_2_eq_zero)
qed

text \<open>The two branches of \<open>advance\<close>: at an even index the leaf becomes the left node; otherwise a node
  of level \<open>tau\<close> does, and the levels below it are refreshed and restarted.\<close>

definition advance_branch :: "'x ext_scheme \<Rightarrow> felt \<Rightarrow> felt \<Rightarrow> nat \<Rightarrow> u32 \<Rightarrow> nat \<Rightarrow> nat \<Rightarrow> (XmssBdsState, unit) action" where
  "advance_branch X ask_j pub_seed auth_tree_size index tau treehash_levels =
     (if tau = 0
      then write_act (\<lambda>st. st\<lparr>bds_auth_path := (bds_auth_path st)
             [0 := auth_leaf_hash_with_pub_seed X ask_j pub_seed index]\<rparr>)
      else bind_act (set_left_node X pub_seed index tau) (\<lambda>_.
           bind_act (each_act refresh_level [0..<tau]) (\<lambda>_.
           write_act (\<lambda>st. foldl (\<lambda>st h. restart_level auth_tree_size index h st) st
             [0..<min tau treehash_levels]))))"

definition advance_keep :: "nat \<Rightarrow> u32 \<Rightarrow> nat \<Rightarrow> (XmssBdsState, unit) action" where
  "advance_keep depth index tau =
     (if tau < depth - 1 \<and> drop_bit (tau + 1) index AND 1 = 0
      then bind_act (read_act (\<lambda>st. at_index (bds_auth_path st) tau)) (\<lambda>v.
           bind_act (read_act (\<lambda>st. at_index (bds_keep st) tau)) (\<lambda>_.
           write_act (\<lambda>st. st\<lparr>bds_keep := (bds_keep st)[tau := FeltSlot_some v]\<rparr>)))
      else ret_act ())"

lemma set_left_node_ok:
  assumes "0 < tau" "tau < length (bds_auth_path st)" "tau \<le> length (bds_keep st)"
    "bds_keep st ! (tau - 1) = FeltSlot_some r"
  shows "set_left_node X ps index tau st
    = (Inr (), st\<lparr>bds_keep := (bds_keep st)[tau - 1 := (bds_keep st ! (tau - 1))\<lparr>fs_present := False\<rparr>],
         bds_auth_path := (bds_auth_path st)[tau := xmss_tree_node_hash X ps (word_of_nat (tau - 1))
           (drop_bit tau (index + 1 - push_bit tau 1)) (bds_auth_path st ! (tau - 1)) r]\<rparr>)"
  using assms less_imp_diff_less [OF assms(2), of 1] diff_less [of 1 tau]
  by (auto simp: set_left_node_def bind_act_def at_index_def FeltSlot_take_def FeltSlot_some_def Let_def)

lemma branch_even:
  assumes st: "bds_auth_path st = xmss_path X ask D n" "length (bds_treehash st) = K" "length (bds_retain st) = D"
    and n: "n + 1 = (2 * q + 1) * (2 :: nat) ^ tau" and t: "tau = 0" "tau < D"
  shows "advance_branch X ask (derive_auth_pub_seed X ask) sz (word_of_nat n) tau K st
    = (Inr (), st\<lparr>bds_auth_path := xmss_path X ask D (n + 1)\<rparr>)"
proof -
  have "n = 2 * q" using n t by simp
  then have "auth_leaf_hash_with_pub_seed X ask (derive_auth_pub_seed X ask) (word_of_nat n)
      = xmss_node X ask 0 (2 * q)" by (simp add: auth_leaf_hash_def)
  then show ?thesis
    using path_next(3) [OF n t(2), of X ask] t
    by (simp add: advance_branch_def st(1) map_nth_upt del: xmss_node.simps)
qed

lemma branch_odd:
  assumes st: "bds_auth_path st = xmss_path X ask D n" "length (bds_keep st) = D"
      "length (bds_treehash st) = K" "length (bds_retain st) = D"
      "bds_keep st ! (tau - 1) = FeltSlot_some (xmss_node X ask (tau - 1) (4 * q + 1))"
    and n: "n + 1 = (2 * q + 1) * (2 :: nat) ^ tau" "n + 1 < 2 ^ D" and t: "0 < tau" "tau < D" "D \<le> 30"
    and th: "\<And>h. h < tau \<Longrightarrow> h < K \<Longrightarrow> fst (TreeHashState_take_ready (bds_treehash st ! h))
               = Some (xmss_node X ask h (2 * (n div 2 ^ Suc h) + 3))"
    and rt: "\<And>h. K \<le> h \<Longrightarrow> h < tau \<Longrightarrow> fst (RetainLevel_pop (bds_retain st ! h))
               = Some (xmss_node X ask h (2 * (n div 2 ^ Suc h) + 3))"
  shows "advance_branch X ask (derive_auth_pub_seed X ask) sz (word_of_nat n) tau K st
    = (Inr (), st\<lparr>bds_auth_path := xmss_path X ask D (n + 1),
        bds_keep := (bds_keep st)[tau - 1 := (bds_keep st ! (tau - 1))\<lparr>fs_present := False\<rparr>],
        bds_treehash := map (\<lambda>h. if h < min tau K
           then restarted sz (word_of_nat n) h (snd (TreeHashState_take_ready (bds_treehash st ! h)))
           else bds_treehash st ! h) [0..<K],
        bds_retain := map (\<lambda>h. if K \<le> h \<and> h < tau then snd (RetainLevel_pop (bds_retain st ! h))
           else bds_retain st ! h) [0..<D]\<rparr>)"
proof -
  let ?v = "\<lambda>h. xmss_node X ask h (2 * (n div 2 ^ Suc h) + 3)"
  define st1 where "st1 = st\<lparr>bds_keep := (bds_keep st)[tau - 1 := (bds_keep st ! (tau - 1))\<lparr>fs_present := False\<rparr>],
    bds_auth_path := (xmss_path X ask D n)[tau := xmss_node X ask tau (2 * q)]\<rparr>"
  have s1: "set_left_node X (derive_auth_pub_seed X ask) (word_of_nat n) tau st = (Inr (), st1)"
    using set_left_node_ok [of tau st _ X "derive_auth_pub_seed X ask" "word_of_nat n"] st t
      path_next(2) [OF n(1) t(2,1), of X ask] left_node_hash [OF n t, of X ask]
    by (simp add: st1_def del: xmss_node.simps)
  have s2: "each_act refresh_level [0..<tau] st1 = (Inr (), refreshed tau ?v st1)"
    using st t th rt by (intro refresh_levels) (simp_all add: st1_def)
  have p: "map (\<lambda>h. if h < tau then ?v h else (xmss_path X ask D n)[tau := xmss_node X ask tau (2 * q)] ! h) [0..<D]
      = xmss_path X ask D (n + 1)" by (rule path_next(3) [OF n(1) t(2)])
  have s3: "foldl (\<lambda>st h. restart_level sz (word_of_nat n) h st) (refreshed tau ?v st1) [0..<min tau K]
    = (refreshed tau ?v st1)\<lparr>bds_treehash := map (\<lambda>h. if h < min tau K
           then restarted sz (word_of_nat n) h (snd (TreeHashState_take_ready (bds_treehash st ! h)))
           else bds_treehash st ! h) [0..<K]\<rparr>"
    using restart_levels [of "min tau K" "refreshed tau ?v st1" sz "word_of_nat n"] st(3)
    by (auto simp: refreshed_def st1_def intro!: arg_cong2 [where f = "\<lambda>f st. bds_treehash_update f st"])
  have "advance_branch X ask (derive_auth_pub_seed X ask) sz (word_of_nat n) tau K st
    = (Inr (), (refreshed tau ?v st1)\<lparr>bds_treehash := map (\<lambda>h. if h < min tau K
           then restarted sz (word_of_nat n) h (snd (TreeHashState_take_ready (bds_treehash st ! h)))
           else bds_treehash st ! h) [0..<K]\<rparr>)"
    unfolding advance_branch_def using t(1) by (simp add: bind_act_def s1 s2 s3 del: power_Suc min_less_iff_conj)
  moreover have "(refreshed tau ?v st1)\<lparr>bds_treehash := ts\<rparr> = st\<lparr>bds_auth_path := xmss_path X ask D (n + 1),
      bds_keep := (bds_keep st)[tau - 1 := (bds_keep st ! (tau - 1))\<lparr>fs_present := False\<rparr>],
      bds_treehash := ts,
      bds_retain := map (\<lambda>h. if K \<le> h \<and> h < tau then snd (RetainLevel_pop (bds_retain st ! h))
           else bds_retain st ! h) [0..<D]\<rparr>" for ts
  proof -
    have sel: "bds_auth_path st1 = (xmss_path X ask D n)[tau := xmss_node X ask tau (2 * q)]"
      "bds_retain st1 = bds_retain st" "bds_treehash st1 = bds_treehash st" by (simp_all add: st1_def)
    show ?thesis unfolding refreshed_def sel st(3,4) length_list_update length_xmss_path p
      by (cases st) (simp add: st1_def)
  qed
  ultimately show ?thesis by (simp only:)
qed

lemma advance_at:
  assumes st: "bds_at X ask D K n st" and n: "n + 1 < 2 ^ D" and b: "K \<le> D" "D \<le> 30" "even K"
  obtains st' where "advance X ask (derive_auth_pub_seed X ask) st = (Inr (), st')" "bds_at X ask D K (n + 1) st'"
proof -
  let ?ps = "derive_auth_pub_seed X ask"
  from n b(2) obtain q tau where tau: "trailing_ones (word_of_nat n) = tau"
    and nq: "n + 1 = (2 * q + 1) * 2 ^ tau" and tD: "tau < D"
    by (rule trailing_ones_cases)
  have f: "bds_next_index st = word_of_nat n" "bds_auth_path st = xmss_path X ask D n"
    "keep_at X ask D n (bds_keep st)" "treehash_at X ask D K n (bds_treehash st)"
    "retain_at X ask D K n (bds_retain st)"
    using st by (simp_all add: bds_at_def)
  have len: "length (bds_keep st) = D" "length (bds_treehash st) = K" "length (bds_retain st) = D"
    using f by (simp_all add: keep_at_def treehash_at_def retain_at_def)
  have n32: "n < 2 ^ 32" using n b(2) power_increasing [of D 32 "2 :: nat"] by linarith
  then have idx: "unat (word_of_nat n :: u32) = n" by (simp add: unat_of_nat_small)
  define keep1 where "keep1 = (if tau < D - 1 \<and> even q
    then (bds_keep st)[tau := FeltSlot_some (xmss_node X ask tau (2 * q + 1))] else bds_keep st)"
  define keep2 where "keep2 = (if tau = 0 then keep1
    else keep1[tau - 1 := (keep1 ! (tau - 1))\<lparr>fs_present := False\<rparr>])"
  note keep = keep_next [OF f(3) nq tD keep1_def, folded keep2_def]
  define ts1 where "ts1 = map (\<lambda>h. if h < min tau K
    then restarted (2 ^ D) (word_of_nat n) h (snd (TreeHashState_take_ready (bds_treehash st ! h)))
    else bds_treehash st ! h) [0..<K]"
  note ths = treehash_next [OF f(4) nq n tD b ts1_def]
  define rs1 where "rs1 = map (\<lambda>h. if K \<le> h \<and> h < tau then snd (RetainLevel_pop (bds_retain st ! h))
    else bds_retain st ! h) [0..<D]"
  note rs = retain_next [OF f(5) nq n tD, folded rs1_def]
  define st1 where "st1 = st\<lparr>bds_keep := keep1\<rparr>"
  define st2 where "st2 = st\<lparr>bds_auth_path := xmss_path X ask D (n + 1), bds_keep := keep2,
    bds_treehash := ts1, bds_retain := rs1\<rparr>"
  have s1: "advance_keep D (word_of_nat n) tau st = (Inr (), st1)"
    using f(2) len tD path_next(1) [OF nq tD, of X ask] index_bit [OF nq n32]
    by (simp add: advance_keep_def st1_def keep1_def bind_act_def at_index_def)
  have s2: "advance_branch X ask ?ps (2 ^ D) (word_of_nat n) tau K st1 = (Inr (), st2)"
  proof (cases "tau = 0")
    case True
    have "keep2 = keep1" "ts1 = bds_treehash st" "rs1 = bds_retain st"
      using True len by (simp_all add: keep2_def ts1_def rs1_def map_nth_upt)
    then show ?thesis
      using branch_even [of st1 X ask D n K q tau "2 ^ D"] f(2) len nq True tD by (simp add: st1_def st2_def)
  next
    case False
    then show ?thesis
      using branch_odd [of st1 X ask D n K tau q "2 ^ D"] f(2) len nq n tD b keep(1) ths(1) rs(1)
      by (simp add: st1_def st2_def keep2_def ts1_def rs1_def keep1_def)
  qed
  have "bds_at X ask D K (n + 1) (st2\<lparr>bds_next_index := word_of_nat (n + 1),
      bds_treehash := update_treehash X ask ?ps (K div 2) ts1\<rparr>)"
    using n keep(2) ths(2) rs(2) by (simp add: bds_at_def st2_def)
  moreover have "advance X ask ?ps st = (Inr (), st2\<lparr>bds_next_index := word_of_nat (n + 1),
      bds_treehash := update_treehash X ask ?ps (K div 2) ts1\<rparr>)"
  proof -
    have "\<not> 2 ^ D \<le> unat (word_of_nat n :: u32)" "unat (word_of_nat n :: u32) \<noteq> 2 ^ D - 1"
      using n idx by simp_all
    then show ?thesis
      unfolding advance_def Let_def f(1) tau f(2) length_xmss_path len(2)
        advance_branch_def [symmetric] advance_keep_def [symmetric]
      by (simp add: bind_act_def s1 s2) (simp add: st2_def f(1))
  qed
  ultimately show thesis using that by blast
qed

lemma advance_last:
  assumes "bds_at X ask D K n st" "n + 1 = 2 ^ D" "D \<le> 30"
  shows "advance X ask ps st = (Inr (), st\<lparr>bds_next_index := word_of_nat (2 ^ D), bds_auth_path := []\<rparr>)"
proof -
  have "n < 2 ^ 32" using assms(2,3) power_increasing [of D 32 "2 :: nat"] by linarith
  then have "unat (word_of_nat n :: u32) = n" by (simp add: unat_of_nat_small)
  moreover have "(word_of_nat n + 1 :: u32) = word_of_nat (2 ^ D)" unfolding assms(2) [symmetric] by simp
  moreover have "n = 2 ^ D - 1" "n < 2 ^ D" using assms(2) by simp_all
  ultimately show ?thesis using assms(1) by (simp add: advance_def Let_def bds_at_def not_le)
qed

lemma advance_times_at:
  assumes st: "bds_at X ask D K 0 st" and n: "n < 2 ^ D" and b: "K \<le> D" "D \<le> 30" "even K"
  shows "\<exists>st'. advance_times X ask (derive_auth_pub_seed X ask) n st = (Inr (), st') \<and> bds_at X ask D K n st'"
proof -
  have "\<exists>st'. advance_times X ask (derive_auth_pub_seed X ask) m st = (Inr (), st') \<and> bds_at X ask D K (a + m) st'"
    if "bds_at X ask D K a st" "a + m < 2 ^ D" for a m st
    using that
  proof (induction m arbitrary: a st)
    case 0
    then show ?case by simp
  next
    case (Suc m)
    obtain st1 where "advance X ask (derive_auth_pub_seed X ask) st = (Inr (), st1)" "bds_at X ask D K (a + 1) st1"
      using advance_at [OF Suc.prems(1) _ b] Suc.prems(2) by auto
    then show ?case using Suc.IH [of "a + 1" st1] Suc.prems(2) by (simp add: bind_act_def)
  qed
  from this [OF st, of n] n show ?thesis by simp
qed

lemma advance_times_Suc:
  "advance_times X ask ps (Suc n) st = bind_act (advance_times X ask ps n) (\<lambda>_. advance X ask ps) st"
proof (induction n arbitrary: st)
  case 0
  then show ?case by (simp add: bind_act_def split: prod.split sum.split)
next
  case (Suc n)
  have "advance_times X ask ps (Suc (Suc n)) st
      = bind_act (advance X ask ps) (\<lambda>_. advance_times X ask ps (Suc n)) st" by simp
  also have "\<dots> = bind_act (advance X ask ps) (\<lambda>_. bind_act (advance_times X ask ps n) (\<lambda>_. advance X ask ps)) st"
    by (simp only: bind_act_def [of "advance X ask ps"] Suc.IH)
  also have "\<dots> = bind_act (advance_times X ask ps (Suc n)) (\<lambda>_. advance X ask ps) st"
    by (simp add: bind_act_def split: prod.split sum.split)
  finally show ?case .
qed

text \<open>The exhausted state.\<close>

definition bds_end :: "nat \<Rightarrow> XmssBdsState \<Rightarrow> bool" where
  "bds_end D st \<longleftrightarrow> bds_next_index st = word_of_nat (2 ^ D) \<and> bds_auth_path st = []"

lemma advance_end:
  assumes "bds_end D st" "D \<le> 30"
  shows "advance X ask ps st = (Inl (Err ''XMSS keys exhausted''), st)"
proof -
  have "(2 :: nat) ^ D < 2 ^ 32" using assms(2) by (intro power_strict_increasing) simp_all
  then have "unat (word_of_nat (2 ^ D) :: u32) = 2 ^ D" by (intro unat_of_nat_small) simp
  then show ?thesis using assms(1) by (simp add: advance_def Let_def bds_end_def)
qed

lemma advance_times_end:
  assumes "bds_at X ask D K 0 st" "K \<le> D" "D \<le> 30" "even K"
  shows "\<exists>st'. advance_times X ask (derive_auth_pub_seed X ask) (2 ^ D) st = (Inr (), st') \<and> bds_end D st'"
proof -
  obtain m where m: "Suc m = 2 ^ D" by (metis not0_implies_Suc power_not_zero zero_neq_numeral)
  then obtain st1 where "advance_times X ask (derive_auth_pub_seed X ask) m st = (Inr (), st1)"
    "bds_at X ask D K m st1"
    using advance_times_at [OF assms(1) _ assms(2-4), of m] by auto
  moreover have "m + 1 = 2 ^ D" using m by simp
  ultimately have "advance_times X ask (derive_auth_pub_seed X ask) (Suc m) st
      = (Inr (), st1\<lparr>bds_next_index := word_of_nat (2 ^ D), bds_auth_path := []\<rparr>)"
    using advance_last [of X ask D K m st1 "derive_auth_pub_seed X ask"] assms(3)
    unfolding advance_times_Suc by (simp add: bind_act_def)
  then show ?thesis unfolding m by (simp add: bds_end_def)
qed

lemma from_index_at:
  assumes b: "0 < D" "D \<le> 30" "k < D" "even (D - k)" and n: "n \<le> 2 ^ D"
  shows "\<exists>st. from_index_with_params X False ask (derive_auth_pub_seed X ask) (word_of_nat n) D k
               = Inr (st, xmss_node X ask D 0)
             \<and> (if n < 2 ^ D then bds_at X ask D (D - k) n st else bds_end D st)"
proof -
  let ?ps = "derive_auth_pub_seed X ask"
  have "(2 :: nat) ^ D < 2 ^ 32" using b(2) by (intro power_strict_increasing) simp_all
  then have idx: "unat (word_of_nat n :: u32) = n" using n by (simp add: unat_of_nat_small)
  from b(1-3) obtain st where st: "new_with_params X False ask ?ps D k = Inr (st, xmss_node X ask D 0)"
    "bds_at X ask D (D - k) 0 st"
    by (rule new_with_params_at)
  have "\<exists>st'. advance_times X ask ?ps n st = (Inr (), st')
      \<and> (if n < 2 ^ D then bds_at X ask D (D - k) n st' else bds_end D st')"
    using advance_times_at [OF st(2) _ _ b(2,4), of n] advance_times_end [OF st(2) _ b(2,4)] n
    by (cases "n < 2 ^ D") simp_all
  then show ?thesis
    using st(1) n idx
    by (auto simp: from_index_with_params_def assert_full_xmss_bds_rebuild_allowed_def split: if_splits)
qed

section \<open>Properties\<close>

text \<open>
  C23: the incremental traversal agrees with the full rebuild. For every key index of the tree, the
  state \<open>from_index\<close> builds (by one pass over the leaves and repeated \<open>advance\<close>) has the root and the
  authentication path that \<open>auth_root_and_path\<close> computes from scratch, and the given index.
\<close>

theorem bds_traversal_equals_rebuild:
  assumes "index < AUTH_TREE_SIZE"
  shows "\<exists>st root. from_index X False ask_j (derive_auth_pub_seed X ask_j) (word_of_nat index) = Inr (st, root)
           \<and> auth_root_and_path X False ask_j index = Inr (root, current_path st)
           \<and> bds_next_index st = word_of_nat index"
proof -
  obtain st where "from_index X False ask_j (derive_auth_pub_seed X ask_j) (word_of_nat index)
      = Inr (st, xmss_node X ask_j AUTH_DEPTH 0)" "bds_at X ask_j AUTH_DEPTH (AUTH_DEPTH - XMSS_BDS_K) index st"
    using from_index_at [of AUTH_DEPTH XMSS_BDS_K index X ask_j] assms
    by (auto simp: from_index_def AUTH_DEPTH_def XMSS_BDS_K_def AUTH_TREE_SIZE_def)
  then show ?thesis
    using auth_root_and_path_eq [OF assms, of X ask_j] by (auto simp: bds_at_def current_path_def)
qed

theorem bds_traversal_equals_rebuild_witness:
  "\<exists>st root. from_index sample_ext False ZERO (derive_auth_pub_seed sample_ext ZERO) (word_of_nat 65535) = Inr (st, root)
     \<and> auth_root_and_path sample_ext False ZERO 65535 = Inr (root, current_path st)
     \<and> bds_next_index st = word_of_nat 65535"
  by (rule bds_traversal_equals_rebuild) (simp add: AUTH_TREE_SIZE_def AUTH_DEPTH_def)

text \<open>
  C24: the schedule of the traversal is sufficient. With half as many treehash updates per key as
  there are treehash levels, and an even number of levels, no node is ever missing: starting from
  the state of \<open>new_with_params\<close>, \<open>advance\<close> succeeds as often as the tree has keys, each state holds
  a path that takes the leaf of its index to the root, and one more call reports exhaustion and
  leaves the state alone.
\<close>

theorem bds_schedule_serves_every_key:
  assumes "0 < depth" "depth \<le> 30" "k < depth" "even (depth - k)"
  shows "\<exists>st0 root. new_with_params X False ask_j (derive_auth_pub_seed X ask_j) depth k = Inr (st0, root)
     \<and> (\<forall>n < 2 ^ depth. \<exists>st. advance_times X ask_j (derive_auth_pub_seed X ask_j) n st0 = (Inr (), st)
          \<and> bds_next_index st = word_of_nat n \<and> length (current_path st) = depth
          \<and> xmss_climb X (derive_auth_pub_seed X ask_j) 0 n (auth_leaf_hash X ask_j (word_of_nat n)) (current_path st)
            = root)
     \<and> (\<exists>st. advance_times X ask_j (derive_auth_pub_seed X ask_j) (2 ^ depth) st0 = (Inr (), st)
          \<and> advance X ask_j (derive_auth_pub_seed X ask_j) st = (Inl (Err ''XMSS keys exhausted''), st))"
proof -
  obtain st0 where st0: "new_with_params X False ask_j (derive_auth_pub_seed X ask_j) depth k
      = Inr (st0, xmss_node X ask_j depth 0)" "bds_at X ask_j depth (depth - k) 0 st0"
    using assms(1-3) by (rule new_with_params_at)
  have "\<exists>st. advance_times X ask_j (derive_auth_pub_seed X ask_j) n st0 = (Inr (), st)
      \<and> bds_next_index st = word_of_nat n \<and> length (current_path st) = depth
      \<and> xmss_climb X (derive_auth_pub_seed X ask_j) 0 n (auth_leaf_hash X ask_j (word_of_nat n)) (current_path st)
        = xmss_node X ask_j depth 0" if "n < 2 ^ depth" for n
    using advance_times_at [OF st0(2) that _ assms(2,4)] that
    by (auto simp: bds_at_def current_path_def xmss_climb_path)
  moreover obtain st where "advance_times X ask_j (derive_auth_pub_seed X ask_j) (2 ^ depth) st0 = (Inr (), st)"
    "bds_end depth st"
    using advance_times_end [OF st0(2) _ assms(2,4)] by auto
  ultimately show ?thesis using st0(1) advance_end [OF _ assms(2)] by blast
qed

theorem bds_schedule_serves_every_key_witness:
  "\<exists>st0 root st. new_with_params sample_ext False ZERO (derive_auth_pub_seed sample_ext ZERO) 6 2 = Inr (st0, root)
     \<and> advance_times sample_ext ZERO (derive_auth_pub_seed sample_ext ZERO) (2 ^ 6) st0 = (Inr (), st)
     \<and> advance sample_ext ZERO (derive_auth_pub_seed sample_ext ZERO) st = (Inl (Err ''XMSS keys exhausted''), st)"
proof -
  have "(0 :: nat) < 6" "(6 :: nat) \<le> 30" "(2 :: nat) < 6" "even (6 - 2 :: nat)" by simp_all
  from bds_schedule_serves_every_key [OF this, of sample_ext ZERO] show ?thesis by blast
qed

end
