(* ===== verification/Wallet.thy ===== *)
theory Wallet
  imports BdsTraversal Wire "HOL-Library.AList"
begin

text \<open>
  The spending wallet (\<open>apps/wallet/src/lib.rs\<close>): its file, address derivation, one-time key
  reservation, balances, note selection, and the XMSS floor that guards against restoring a stale
  backup. A hash map from address indices to key indices is an association list; what the code
  makes of it does not depend on the order of its entries, except which of several entries an error
  names. Sums of type \<open>u128\<close> are natural numbers.
\<close>

section \<open>The wallet file\<close>

record wallet_note =
  nt_nk_spend :: felt
  nt_nk_tag :: felt
  nt_auth_root :: felt
  nt_d_j :: felt
  nt_v :: u64
  nt_rseed :: felt
  nt_cm :: felt
  nt_index :: nat
  nt_addr_index :: u32

record WalletAddressState =
  wa_index :: u32
  wa_d_j :: felt
  wa_auth_root :: felt
  wa_auth_pub_seed :: felt
  wa_nk_tag :: felt
  wa_bds :: XmssBdsState

record PendingSpend =
  ps_nullifiers :: "felt list"
  ps_description :: string
  ps_operation_hash :: "string option"

record PendingDeposit =
  pd_pubkey_hash :: felt
  pd_blind :: felt
  pd_address_index :: u32
  pd_auth_domain :: felt
  pd_amount :: u64
  pd_operation_hash :: "string option"
  pd_shielded_cm :: "felt option"

record WalletFile =
  wf_master_sk :: felt
  wf_addresses :: "WalletAddressState list"
  wf_addr_counter :: u32
  wf_notes :: "wallet_note list"
  wf_scanned :: nat
  wf_wots_key_indices :: "(u32 \<times> u32) list"
  wf_pending_spends :: "PendingSpend list"
  wf_pending_deposits :: "PendingDeposit list"
  wf_deposit_nonce :: u64

record WalletXmssFloor =
  xf_wallet_fingerprint :: felt
  xf_addr_counter :: u32
  xf_wots_key_indices :: "(u32 \<times> u32) list"

text \<open>The file \<open>cmd_keygen\<close> creates for a random key.\<close>

definition new_wallet :: "'x ext_scheme \<Rightarrow> felt \<Rightarrow> u64 option \<Rightarrow> WalletFile" where
  "new_wallet X master_sk at_tree_size =
     (let scanned = (case at_tree_size of None \<Rightarrow> 0 | Some n \<Rightarrow> min (unat n) (2 ^ usize_bits X - 1))
      in \<lparr>wf_master_sk = master_sk, wf_addresses = [], wf_addr_counter = 0, wf_notes = [],
          wf_scanned = scanned, wf_wots_key_indices = [], wf_pending_spends = [],
          wf_pending_deposits = [], wf_deposit_nonce = 0\<rparr>)"

section \<open>Addresses and one-time keys\<close>

definition wallet_account :: "'x ext_scheme \<Rightarrow> WalletFile \<Rightarrow> account" where
  "wallet_account X w = derive_account X (wf_master_sk w)"

definition address_payment_address :: "WalletAddressState \<Rightarrow> bytes \<Rightarrow> bytes \<Rightarrow> payment_address" where
  "address_payment_address a ek_v ek_d =
     \<lparr>pa_d_j = wa_d_j a, pa_auth_root = wa_auth_root a, pa_auth_pub_seed = wa_auth_pub_seed a,
      pa_nk_tag = wa_nk_tag a, pa_ek_v = ek_v, pa_ek_d = ek_d\<rparr>"

definition derive_address_state ::
  "'x ext_scheme \<Rightarrow> bool \<Rightarrow> WalletFile \<Rightarrow> u32 \<Rightarrow> u32 \<Rightarrow> WalletAddressState res" where
  "derive_address_state X trap w j next_wots_index =
     (let acc = wallet_account X w;
          d_j = derive_address X (acc_incoming_seed acc) j;
          ask_j = derive_ask X (acc_ask_base acc) j;
          auth_pub_seed = derive_auth_pub_seed X ask_j
      in attempt (from_index X trap ask_j auth_pub_seed next_wots_index) (\<lambda>(bds, auth_root).
         let nk_spend = derive_nk_spend X (acc_nk acc) d_j;
             nk_tag = derive_nk_tag X nk_spend
         in Inr \<lparr>wa_index = j, wa_d_j = d_j, wa_auth_root = auth_root,
                 wa_auth_pub_seed = auth_pub_seed, wa_nk_tag = nk_tag, wa_bds = bds\<rparr>))"

definition push_address :: "'x ext_scheme \<Rightarrow> bool \<Rightarrow> nat \<Rightarrow> (WalletFile, unit) action" where
  "push_address X trap i =
     bind_act (read_act (\<lambda>w. let j = word_of_nat i;
         next_wots_index = (case map_of (wf_wots_key_indices w) j of None \<Rightarrow> 0 | Some n \<Rightarrow> n)
       in derive_address_state X trap w j next_wots_index)) (\<lambda>a.
     write_act (\<lambda>w. w\<lparr>wf_addresses := wf_addresses w @ [a]\<rparr>))"

definition materialize_addresses :: "'x ext_scheme \<Rightarrow> bool \<Rightarrow> (WalletFile, unit) action" where
  "materialize_addresses X trap w0 =
     (let existing = word_of_nat (length (wf_addresses w0)) :: u32 in
      bind_act (each_act (push_address X trap) [unat existing..<unat (wf_addr_counter w0)]) (\<lambda>_.
      write_act (\<lambda>w. w\<lparr>wf_wots_key_indices :=
        foldl (\<lambda>m a. AList.update (wa_index a) (bds_next_index (wa_bds a)) m)
          (wf_wots_key_indices w) (wf_addresses w)\<rparr>)) w0)"

definition kem_keys :: "'x ext_scheme \<Rightarrow> WalletFile \<Rightarrow> u32 \<Rightarrow> bytes \<times> bytes \<times> bytes \<times> bytes" where
  "kem_keys X w j = derive_kem_keys X (acc_incoming_seed (wallet_account X w)) j"

definition next_address ::
  "'x ext_scheme \<Rightarrow> bool \<Rightarrow> (WalletFile, WalletAddressState \<times> payment_address) action" where
  "next_address X trap w =
     (let j = wf_addr_counter w;
          existing = unat j < length (wf_addresses w)
      in case (if existing then Inr (wf_addresses w ! unat j) else derive_address_state X trap w j 0) of
           Inl e \<Rightarrow> (Inl e, w)
         | Inr state \<Rightarrow>
             let (ek_v, _, ek_d, _) = kem_keys X w j;
                 w1 = w\<lparr>wf_addr_counter := wf_addr_counter w + 1\<rparr>;
                 w2 = (if length (wf_addresses w1) \<le> unat j
                       then w1\<lparr>wf_addresses := wf_addresses w1 @ [state]\<rparr> else w1)
             in (Inr (state, address_payment_address state ek_v ek_d), w2))"

definition reserve_next_auth ::
  "'x ext_scheme \<Rightarrow> u32 \<Rightarrow> (WalletFile, u32 \<times> felt \<times> felt \<times> felt list) action" where
  "reserve_next_auth X addr_index w =
     (let ask_base = acc_ask_base (wallet_account X w); i = unat addr_index in
      if \<not> i < length (wf_addresses w)
      then (Inl (Err (''missing address record '' @ show_word addr_index)), w)
      else
        let addr = wf_addresses w ! i;
            ask_j = derive_ask X ask_base addr_index;
            bds = wa_bds addr;
            key_idx = bds_next_index bds
        in if AUTH_TREE_SIZE \<le> unat key_idx
           then (Inl (Err (''XMSS keys exhausted for address '' @ show_word addr_index
                           @ '' '' @ [CHR 0xE2, CHR 0x80, CHR 0x94] @ '' generate a new address'')), w)
           else
             let path = current_path bds;
                 auth_root = wa_auth_root addr;
                 auth_pub_seed = wa_auth_pub_seed addr;
                 (r, bds') = advance X ask_j auth_pub_seed bds;
                 w' = w\<lparr>wf_addresses := (wf_addresses w)[i := addr\<lparr>wa_bds := bds'\<rparr>]\<rparr>
             in case r of
                  Inl e \<Rightarrow> (Inl e, w')
                | Inr _ \<Rightarrow>
                    (Inr (key_idx, auth_root, auth_pub_seed, path),
                     w'\<lparr>wf_wots_key_indices :=
                         AList.update addr_index (bds_next_index bds') (wf_wots_key_indices w')\<rparr>))"

section \<open>Balances and selection\<close>

definition note_nullifier :: "'x ext_scheme \<Rightarrow> wallet_note \<Rightarrow> felt" where
  "note_nullifier X n = nullifier X (nt_nk_spend n) (nt_cm n) (word_of_nat (nt_index n))"

definition balance :: "WalletFile \<Rightarrow> nat" where
  "balance w = sum_list (map (\<lambda>n. unat (nt_v n)) (wf_notes w))"

definition pending_nullifier_set :: "WalletFile \<Rightarrow> felt set" where
  "pending_nullifier_set w = set (concat (map ps_nullifiers (wf_pending_spends w)))"

definition available_balance :: "'x ext_scheme \<Rightarrow> WalletFile \<Rightarrow> nat" where
  "available_balance X w =
     (let pending = pending_nullifier_set w
      in sum_list (map (\<lambda>n. unat (nt_v n)) (filter (\<lambda>n. note_nullifier X n \<notin> pending) (wf_notes w))))"

definition pending_outgoing_balance :: "'x ext_scheme \<Rightarrow> WalletFile \<Rightarrow> nat" where
  "pending_outgoing_balance X w =
     (let pending = pending_nullifier_set w
      in sum_list (map (\<lambda>n. unat (nt_v n)) (filter (\<lambda>n. note_nullifier X n \<in> pending) (wf_notes w))))"

definition register_pending_spend :: "felt list \<Rightarrow> string \<Rightarrow> string option \<Rightarrow> WalletFile \<Rightarrow> WalletFile" where
  "register_pending_spend nullifiers description operation_hash w =
     w\<lparr>wf_pending_spends := wf_pending_spends w
         @ [\<lparr>ps_nullifiers = nullifiers, ps_description = description, ps_operation_hash = operation_hash\<rparr>]\<rparr>"

text \<open>The loop of \<open>select_notes\<close> over the candidates, with the indices selected so far.\<close>

fun select_loop :: "nat \<Rightarrow> nat \<Rightarrow> nat list \<Rightarrow> (nat \<times> u64) list \<Rightarrow> nat list option" where
  "select_loop amount acc selected [] = None"
| "select_loop amount acc selected ((i, v) # rest) =
     (let selected' = selected @ [i]; acc' = acc + unat v
      in if amount \<le> acc' then Some selected' else select_loop amount acc' selected' rest)"

text \<open>The sort is stable and puts the largest value first.\<close>

definition select_notes :: "'x ext_scheme \<Rightarrow> WalletFile \<Rightarrow> u64 \<Rightarrow> nat list res" where
  "select_notes X w amount =
     (let pending = pending_nullifier_set w;
          indexed = map (\<lambda>(i, n). (i, nt_v n))
            (filter (\<lambda>(_, n). note_nullifier X n \<notin> pending) (enumerate 0 (wf_notes w)));
          by_value = sort_key (\<lambda>(_, v). - int (unat v)) indexed
      in case select_loop (unat amount) 0 [] by_value of
           Some selected \<Rightarrow> Inr selected
         | None \<Rightarrow> Inl (Err (''insufficient funds: have '' @ show_nat (available_balance X w) @ '' available (''
                     @ show_nat (pending_outgoing_balance X w) @ '' pending) need '' @ show_word amount)))"

section \<open>The XMSS floor\<close>

definition wallet_xmss_floor :: "'x ext_scheme \<Rightarrow> WalletFile \<Rightarrow> WalletXmssFloor" where
  "wallet_xmss_floor X w =
     \<lparr>xf_wallet_fingerprint = hash X (wf_master_sk w), xf_addr_counter = wf_addr_counter w,
      xf_wots_key_indices =
        foldl (\<lambda>m a. let next_index = bds_next_index (wa_bds a) in
            AList.update (wa_index a)
              (case map_of m (wa_index a) of None \<Rightarrow> next_index | Some current \<Rightarrow> max current next_index) m)
          (wf_wots_key_indices w) (wf_addresses w)\<rparr>"

definition current_wallet_wots_floor :: "WalletFile \<Rightarrow> u32 \<Rightarrow> u32" where
  "current_wallet_wots_floor w addr_index =
     (case map_of (wf_wots_key_indices w) addr_index of
        Some n \<Rightarrow> n
      | None \<Rightarrow> (case find (\<lambda>a. wa_index a = addr_index) (wf_addresses w) of
                   Some a \<Rightarrow> bds_next_index (wa_bds a)
                 | None \<Rightarrow> 0))"

fun floor_entries :: "WalletFile \<Rightarrow> (u32 \<times> u32) list \<Rightarrow> unit res" where
  "floor_entries w [] = Inr ()"
| "floor_entries w ((addr_index, required_next) # rest) =
     (let current_next = current_wallet_wots_floor w addr_index in
      if current_next < required_next
      then Inl (Err (''wallet appears to be restored from a stale backup: address '' @ show_word addr_index
             @ '' next_wots_index '' @ show_word current_next @ '' is behind durable XMSS floor ''
             @ show_word required_next))
      else floor_entries w rest)"

text \<open>
  The content of the floor file is an argument: \<open>None\<close> if it cannot be read, else the result of
  parsing it.
\<close>

definition enforce_wallet_xmss_floor ::
  "'x ext_scheme \<Rightarrow> WalletXmssFloor res option \<Rightarrow> WalletFile \<Rightarrow> unit res" where
  "enforce_wallet_xmss_floor X file w =
     (case file of None \<Rightarrow> Inr ()
      | Some parsed \<Rightarrow>
          attempt (map_err (\<lambda>e. ''parse xmss floor: '' @ e) parsed) (\<lambda>fl.
          if xf_wallet_fingerprint fl \<noteq> hash X (wf_master_sk w) then Inr ()
          else attempt (guard (\<not> wf_addr_counter w < xf_addr_counter fl)
                 (''wallet appears to be restored from a stale backup: addr_counter ''
                  @ show_word (wf_addr_counter w) @ '' is behind durable XMSS floor ''
                  @ show_word (xf_addr_counter fl))) (\<lambda>_.
               floor_entries w (xf_wots_key_indices fl))))"

text \<open>Loading a wallet: the parsed wallet file is an argument as well.\<close>

definition load_wallet ::
  "'x ext_scheme \<Rightarrow> bool \<Rightarrow> WalletFile res \<Rightarrow> WalletXmssFloor res option \<Rightarrow> WalletFile res" where
  "load_wallet X trap parsed file =
     attempt (map_err (\<lambda>e. ''parse wallet: '' @ e) parsed) (\<lambda>w.
     attempt (enforce_wallet_xmss_floor X file w) (\<lambda>_.
     case materialize_addresses X trap w of (r, w') \<Rightarrow> attempt r (\<lambda>_. Inr w')))"

end
