(* ===== verification/WalletKeys.thy ===== *)
theory WalletKeys
  imports Wallet
begin

text \<open>
  The one-time keys of the wallet. Abstractly a wallet is a list of counters, the next key of each
  address; the operations on addresses and keys refine the obvious operations on it. Hence no key
  is handed out twice, and the floor written with a wallet refuses every earlier state of it.
\<close>

section \<open>Counters\<close>

definition address_ask :: "'x ext_scheme \<Rightarrow> felt \<Rightarrow> u32 \<Rightarrow> felt" where
  "address_ask X sk j = derive_ask X (acc_ask_base (derive_account X sk)) j"

definition address_at :: "'x ext_scheme \<Rightarrow> felt \<Rightarrow> u32 \<Rightarrow> nat \<Rightarrow> WalletAddressState \<Rightarrow> bool" where
  "address_at X sk j n a \<longleftrightarrow>
     wa_index a = j
     \<and> wa_d_j a = derive_address X (acc_incoming_seed (derive_account X sk)) j
     \<and> wa_auth_pub_seed a = derive_auth_pub_seed X (address_ask X sk j)
     \<and> wa_auth_root a = xmss_node X (address_ask X sk j) AUTH_DEPTH 0
     \<and> wa_nk_tag a = derive_nk_tag X (derive_nk_spend X (acc_nk (derive_account X sk)) (wa_d_j a))
     \<and> (if n < AUTH_TREE_SIZE
        then bds_at X (address_ask X sk j) AUTH_DEPTH (AUTH_DEPTH - XMSS_BDS_K) n (wa_bds a)
        else n = AUTH_TREE_SIZE \<and> bds_end AUTH_DEPTH (wa_bds a))"

definition wallet_at :: "'x ext_scheme \<Rightarrow> felt \<Rightarrow> nat list \<Rightarrow> WalletFile \<Rightarrow> bool" where
  "wallet_at X sk ns w \<longleftrightarrow>
     wf_master_sk w = sk \<and> length ns < 2 ^ 32 \<and> wf_addr_counter w = word_of_nat (length ns)
     \<and> list_all2 (\<lambda>(i, n) a. address_at X sk (word_of_nat i) n a) (enumerate 0 ns) (wf_addresses w)
     \<and> distinct (map fst (wf_wots_key_indices w))
     \<and> (\<forall>j v. map_of (wf_wots_key_indices w) j = Some v \<longrightarrow> unat j < length ns \<and> v = word_of_nat (ns ! unat j))"

lemma AUTH_bounds: "0 < AUTH_DEPTH" "AUTH_DEPTH \<le> 30" "XMSS_BDS_K < AUTH_DEPTH"
  "even (AUTH_DEPTH - XMSS_BDS_K)" "AUTH_DEPTH - XMSS_BDS_K \<le> AUTH_DEPTH" "AUTH_TREE_SIZE = 2 ^ AUTH_DEPTH"
  by (simp_all add: AUTH_DEPTH_def XMSS_BDS_K_def AUTH_TREE_SIZE_def)

lemma size_fits: "AUTH_TREE_SIZE < 2 ^ 32"
  by (simp add: AUTH_TREE_SIZE_def AUTH_DEPTH_def)

lemma address_at_next:
  assumes "address_at X sk j n a"
  shows "bds_next_index (wa_bds a) = word_of_nat n" "n \<le> AUTH_TREE_SIZE"
    "unat (bds_next_index (wa_bds a)) = n"
proof -
  show "bds_next_index (wa_bds a) = word_of_nat n" "n \<le> AUTH_TREE_SIZE"
    using assms by (auto simp: address_at_def bds_at_def bds_end_def AUTH_bounds(6) split: if_splits)
  then show "unat (bds_next_index (wa_bds a)) = n"
    using size_fits by (simp add: unat_of_nat_small)
qed

lemma wallet_at_address:
  assumes "wallet_at X sk ns w" "i < length ns"
  shows "address_at X sk (word_of_nat i) (ns ! i) (wf_addresses w ! i)"
  using assms list_all2_nthD [of _ "enumerate 0 ns" "wf_addresses w" i]
  by (fastforce simp: wallet_at_def nth_enumerate_eq)

lemma wallet_at_length: "wallet_at X sk ns w \<Longrightarrow> length (wf_addresses w) = length ns"
  by (auto simp: wallet_at_def dest: list_all2_lengthD)

lemma wallet_atI:
  assumes "wf_master_sk w = sk" "length ns < 2 ^ 32" "wf_addr_counter w = word_of_nat (length ns)"
    "length (wf_addresses w) = length ns"
    "\<And>i. i < length ns \<Longrightarrow> address_at X sk (word_of_nat i) (ns ! i) (wf_addresses w ! i)"
    "distinct (map fst (wf_wots_key_indices w))"
    "\<And>j v. map_of (wf_wots_key_indices w) j = Some v \<Longrightarrow> unat j < length ns \<and> v = word_of_nat (ns ! unat j)"
  shows "wallet_at X sk ns w"
  using assms by (auto simp: wallet_at_def list_all2_conv_all_nth nth_enumerate_eq)

lemma wallet_at_synced:
  "wallet_at X sk ns w \<Longrightarrow> map_of (wf_wots_key_indices w) j = Some v \<Longrightarrow>
   unat j < length ns \<and> v = word_of_nat (ns ! unat j)"
  by (auto simp: wallet_at_def)

lemma new_wallet_at: "wallet_at X sk [] (new_wallet X sk t)"
  by (simp add: wallet_at_def new_wallet_def Let_def)

section \<open>The operations\<close>

lemma derive_address_state_at:
  assumes "wf_master_sk w = sk"
  obtains a where "derive_address_state X False w j 0 = Inr a" "address_at X sk j 0 a"
proof -
  obtain st where "from_index X False (address_ask X sk j) (derive_auth_pub_seed X (address_ask X sk j)) 0
      = Inr (st, xmss_node X (address_ask X sk j) AUTH_DEPTH 0)"
    "bds_at X (address_ask X sk j) AUTH_DEPTH (AUTH_DEPTH - XMSS_BDS_K) 0 st"
    using from_index_at [OF AUTH_bounds(1-4), of 0 X "address_ask X sk j"] by (auto simp: from_index_def)
  then show thesis
    using that assms
    by (simp add: derive_address_state_def wallet_account_def address_ask_def [symmetric] Let_def address_at_def
        AUTH_TREE_SIZE_def)
qed

text \<open>A new address is derived and appended.\<close>

lemma next_address_eq:
  assumes w: "wallet_at X sk ns w" and n: "length ns + 1 < 2 ^ 32"
  obtains a pa where
    "next_address X False w = (Inr (a, pa), w\<lparr>wf_addr_counter := wf_addr_counter w + 1, wf_addresses := wf_addresses w @ [a]\<rparr>)"
    "address_at X sk (word_of_nat (length ns)) 0 a"
proof -
  have sk: "wf_master_sk w = sk" and ctr: "wf_addr_counter w = word_of_nat (length ns)"
    using w by (simp_all add: wallet_at_def)
  have u: "unat (wf_addr_counter w) = length ns" using n by (simp add: ctr unat_of_nat_small)
  from sk obtain a where a: "derive_address_state X False w (wf_addr_counter w) 0 = Inr a"
    "address_at X sk (wf_addr_counter w) 0 a"
    by (rule derive_address_state_at)
  from a show thesis
    using that u wallet_at_length [OF w] by (simp add: next_address_def Let_def case_prod_beta ctr)
qed

lemma next_address_at:
  assumes w: "wallet_at X sk ns w" and n: "length ns + 1 < 2 ^ 32"
  shows "wallet_at X sk (ns @ [0]) (snd (next_address X False w))" "\<exists>r. fst (next_address X False w) = Inr r"
proof -
  have ctr: "wf_addr_counter w = word_of_nat (length ns)" using w by (simp add: wallet_at_def)
  note len = wallet_at_length [OF w]
  obtain a pa where eq: "next_address X False w
      = (Inr (a, pa), w\<lparr>wf_addr_counter := wf_addr_counter w + 1, wf_addresses := wf_addresses w @ [a]\<rparr>)"
    and a: "address_at X sk (word_of_nat (length ns)) 0 a"
    by (rule next_address_eq [OF assms])
  then have s: "snd (next_address X False w)
      = w\<lparr>wf_addr_counter := wf_addr_counter w + 1, wf_addresses := wf_addresses w @ [a]\<rparr>" by simp
  show "\<exists>r. fst (next_address X False w) = Inr r" using eq by simp
  show "wallet_at X sk (ns @ [0]) (snd (next_address X False w))"
    unfolding s
  proof (rule wallet_atI)
    fix i
    assume "i < length (ns @ [0 :: nat])"
    then show "address_at X sk (word_of_nat i) ((ns @ [0]) ! i)
        (wf_addresses (w\<lparr>wf_addr_counter := wf_addr_counter w + 1, wf_addresses := wf_addresses w @ [a]\<rparr>) ! i)"
      using wallet_at_address [OF w, of i] a len by (auto simp: nth_append ctr less_Suc_eq)
  next
    fix j v
    assume "map_of (wf_wots_key_indices
      (w\<lparr>wf_addr_counter := wf_addr_counter w + 1, wf_addresses := wf_addresses w @ [a]\<rparr>)) j = Some v"
    then show "unat j < length (ns @ [0 :: nat]) \<and> v = word_of_nat ((ns @ [0]) ! unat j)"
      using wallet_at_synced [OF w, of j v] by (simp add: nth_append)
  qed (use w n len in \<open>simp_all add: wallet_at_def\<close>)
qed

text \<open>A reservation hands out the counter with its authentication path and increments it.\<close>

definition authentic :: "'x ext_scheme \<Rightarrow> felt \<Rightarrow> u32 \<Rightarrow> u32 \<times> felt \<times> felt \<times> felt list \<Rightarrow> bool" where
  "authentic X sk j = (\<lambda>(key_idx, auth_root, auth_pub_seed, path).
     unat key_idx < AUTH_TREE_SIZE
     \<and> auth_pub_seed = derive_auth_pub_seed X (address_ask X sk j)
     \<and> build_auth_tree X False (address_ask X sk j) = Inr auth_root
     \<and> auth_tree_path X False (address_ask X sk j) (unat key_idx) = Inr path
     \<and> xmss_climb X auth_pub_seed 0 (unat key_idx) (auth_leaf_hash X (address_ask X sk j) key_idx) path = auth_root)"

lemma advance_address:
  assumes a: "address_at X sk j n a" "n < AUTH_TREE_SIZE"
  obtains bds where "advance X (address_ask X sk j) (wa_auth_pub_seed a) (wa_bds a) = (Inr (), bds)"
    "address_at X sk j (n + 1) (a\<lparr>wa_bds := bds\<rparr>)"
proof -
  let ?ask = "address_ask X sk j" and ?K = "AUTH_DEPTH - XMSS_BDS_K"
  have at: "bds_at X ?ask AUTH_DEPTH ?K n (wa_bds a)" and ps: "wa_auth_pub_seed a = derive_auth_pub_seed X ?ask"
    using a by (simp_all add: address_at_def)
  show thesis
  proof (cases "n + 1 < 2 ^ AUTH_DEPTH")
    case True
    with at obtain bds where "advance X ?ask (derive_auth_pub_seed X ?ask) (wa_bds a) = (Inr (), bds)"
      "bds_at X ?ask AUTH_DEPTH ?K (n + 1) bds"
      by (rule advance_at [OF _ _ AUTH_bounds(5,2,4)])
    then show thesis using that [of bds] a True ps by (simp add: address_at_def AUTH_bounds(6))
  next
    case False
    then have n: "n + 1 = 2 ^ AUTH_DEPTH" using a(2) by (simp add: AUTH_bounds(6))
    note advance_last [OF at n AUTH_bounds(2)]
    then show thesis
      using that a(1) n ps by (simp add: address_at_def AUTH_bounds(6) bds_end_def)
  qed
qed

lemma address_at_path:
  assumes "address_at X sk j n a" "n < AUTH_TREE_SIZE"
  shows "authentic X sk j (bds_next_index (wa_bds a), wa_auth_root a, wa_auth_pub_seed a, current_path (wa_bds a))"
  using assms address_at_next [OF assms(1)] climb_within_tree [OF assms(2), of X "address_ask X sk j"]
    path_within_tree [OF assms(2), of X "address_ask X sk j"] build_auth_tree_node [of X "address_ask X sk j"]
  by (simp add: authentic_def address_at_def bds_at_def current_path_def auth_tree_path_def allowed_without_trap)

lemma reserve_at:
  assumes w: "wallet_at X sk ns w" and j: "unat j < length ns" "ns ! unat j < AUTH_TREE_SIZE"
  obtains r w' where "reserve_next_auth X j w = (Inr r, w')" "fst r = word_of_nat (ns ! unat j)"
    "authentic X sk j r" "wallet_at X sk (ns[unat j := ns ! unat j + 1]) w'"
proof -
  let ?i = "unat j" and ?a = "wf_addresses w ! unat j"
  have sk: "wf_master_sk w = sk" using w by (simp add: wallet_at_def)
  note len = wallet_at_length [OF w]
  have a: "address_at X sk j (ns ! ?i) ?a" using wallet_at_address [OF w j(1)] by simp
  from a j(2) obtain bds where
    adv: "advance X (address_ask X sk j) (wa_auth_pub_seed ?a) (wa_bds ?a) = (Inr (), bds)"
    and a': "address_at X sk j (ns ! ?i + 1) (?a\<lparr>wa_bds := bds\<rparr>)"
    by (rule advance_address)
  define w' where "w' = w\<lparr>wf_addresses := (wf_addresses w)[?i := ?a\<lparr>wa_bds := bds\<rparr>],
    wf_wots_key_indices := AList.update j (bds_next_index bds) (wf_wots_key_indices w)\<rparr>"
  have next_bds: "bds_next_index bds = word_of_nat (ns ! ?i + 1)" using address_at_next(1) [OF a'] by simp
  have r: "reserve_next_auth X j w
      = (Inr (bds_next_index (wa_bds ?a), wa_auth_root ?a, wa_auth_pub_seed ?a, current_path (wa_bds ?a)), w')"
    using adv j len address_at_next(3) [OF a]
    by (simp add: reserve_next_auth_def Let_def wallet_account_def sk address_ask_def [symmetric] w'_def)
  have "wallet_at X sk (ns[?i := ns ! ?i + 1]) w'"
  proof (rule wallet_atI)
    fix i
    assume "i < length (ns[?i := ns ! ?i + 1])"
    then show "address_at X sk (word_of_nat i) (ns[?i := ns ! ?i + 1] ! i) (wf_addresses w' ! i)"
      using wallet_at_address [OF w, of i] a' len by (cases "i = ?i") (simp_all add: w'_def)
  next
    fix k v
    assume "map_of (wf_wots_key_indices w') k = Some v"
    then show "unat k < length (ns[?i := ns ! ?i + 1]) \<and> v = word_of_nat (ns[?i := ns ! ?i + 1] ! unat k)"
      using wallet_at_synced [OF w, of k v] j(1) next_bds
      by (cases "k = j") (simp_all add: w'_def update_conv' nth_list_update word_unat_eq_iff)
  qed (use w len in \<open>simp_all add: w'_def wallet_at_def distinct_update\<close>)
  then show thesis using that r address_at_path [OF a j(2)] address_at_next(1) [OF a] by auto
qed

lemma reserve_refused:
  assumes w: "wallet_at X sk ns w" and j: "\<not> (unat j < length ns \<and> ns ! unat j < AUTH_TREE_SIZE)"
  obtains e where "reserve_next_auth X j w = (Inl (Err e), w)"
proof (cases "unat j < length ns")
  case False
  then show thesis using that wallet_at_length [OF w] by (simp add: reserve_next_auth_def Let_def)
next
  case True
  then show thesis
    using that j wallet_at_length [OF w] address_at_next(3) [OF wallet_at_address [OF w True]]
    by (simp add: reserve_next_auth_def Let_def)
qed

section \<open>The map of key indices\<close>

text \<open>Entering one value per address into the map.\<close>

definition enter_all :: "(u32 option \<Rightarrow> u32 \<Rightarrow> u32) \<Rightarrow> WalletAddressState list \<Rightarrow> (u32 \<times> u32) list \<Rightarrow> (u32 \<times> u32) list" where
  "enter_all g as m =
     foldl (\<lambda>m a. AList.update (wa_index a) (g (map_of m (wa_index a)) (bds_next_index (wa_bds a))) m) m as"

lemma map_of_enter_all:
  assumes "distinct (map wa_index as)"
  shows "map_of (enter_all g as m) k
         = (case find (\<lambda>a. wa_index a = k) as of
              Some a \<Rightarrow> Some (g (map_of m k) (bds_next_index (wa_bds a))) | None \<Rightarrow> map_of m k)"
  using assms
proof (induction as arbitrary: m)
  case Nil
  then show ?case by (simp add: enter_all_def)
next
  case (Cons a as)
  have "find (\<lambda>b. wa_index b = wa_index a) as = None"
    using Cons.prems by (auto simp: find_None_iff image_iff)
  then show ?case
    using Cons by (auto simp: enter_all_def update_conv' split: option.split)
qed

lemma distinct_enter_all: "distinct (map fst m) \<Longrightarrow> distinct (map fst (enter_all g as m))"
  by (induction as arbitrary: m) (simp_all add: enter_all_def distinct_update)

lemma wallet_at_indices:
  assumes "wallet_at X sk ns w"
  shows "distinct (map wa_index (wf_addresses w))"
    "unat j < length ns \<Longrightarrow> find (\<lambda>a. wa_index a = j) (wf_addresses w) = Some (wf_addresses w ! unat j)"
    "\<not> unat j < length ns \<Longrightarrow> find (\<lambda>a. wa_index a = j) (wf_addresses w) = None"
proof -
  have n: "length ns < 2 ^ 32" using assms by (simp add: wallet_at_def)
  have idx: "unat (wa_index (wf_addresses w ! i)) = i" if "i < length ns" for i
    using wallet_at_address [OF assms that] n that by (simp add: address_at_def unat_of_nat_small)
  show d: "distinct (map wa_index (wf_addresses w))"
    unfolding distinct_conv_nth using idx wallet_at_length [OF assms] by (metis length_map nth_map)
  show "find (\<lambda>a. wa_index a = j) (wf_addresses w) = Some (wf_addresses w ! unat j)" if "unat j < length ns"
    using that idx wallet_at_length [OF assms]
    by (auto simp: find_Some_iff word_unat_eq_iff intro!: exI [of _ "unat j"])
  show "find (\<lambda>a. wa_index a = j) (wf_addresses w) = None" if "\<not> unat j < length ns"
    using that idx wallet_at_length [OF assms]
    by (auto simp: find_None_iff in_set_conv_nth)
qed

lemma materialize_at:
  assumes "wallet_at X sk ns w"
  obtains w' where "materialize_addresses X trap w = (Inr (), w')" "wallet_at X sk ns w'"
    "wf_addresses w' = wf_addresses w"
proof -
  let ?m = "enter_all (\<lambda>_ n. n) (wf_addresses w) (wf_wots_key_indices w)"
  have "length ns < 2 ^ 32" "wf_addr_counter w = word_of_nat (length ns)" using assms by (simp_all add: wallet_at_def)
  then have m: "materialize_addresses X trap w = (Inr (), w\<lparr>wf_wots_key_indices := ?m\<rparr>)"
    using wallet_at_length [OF assms]
    by (simp add: materialize_addresses_def Let_def enter_all_def bind_act_def unat_of_nat_small)
  have "map_of ?m j = Some v \<Longrightarrow> unat j < length ns \<and> v = word_of_nat (ns ! unat j)" for j v
    using wallet_at_synced [OF assms, of j v] wallet_at_indices [OF assms]
      address_at_next(1) [OF wallet_at_address [OF assms, of "unat j"]]
    by (cases "unat j < length ns") (auto simp: map_of_enter_all)
  then have "wallet_at X sk ns (w\<lparr>wf_wots_key_indices := ?m\<rparr>)"
    using assms distinct_enter_all [of "wf_wots_key_indices w"] by (simp add: wallet_at_def)
  then show thesis using that m by simp
qed

text \<open>The floor of a wallet and the check against it are both about the counters.\<close>

lemma floor_at:
  assumes "wallet_at X sk ns w"
  shows "map_of (xf_wots_key_indices (wallet_xmss_floor X w)) j
         = (if unat j < length ns then Some (word_of_nat (ns ! unat j)) else None)"
    and "distinct (map fst (xf_wots_key_indices (wallet_xmss_floor X w)))"
    and "current_wallet_wots_floor w j = (if unat j < length ns then word_of_nat (ns ! unat j) else 0)"
proof -
  have eq: "xf_wots_key_indices (wallet_xmss_floor X w)
      = enter_all (\<lambda>c n. case c of None \<Rightarrow> n | Some c \<Rightarrow> max c n) (wf_addresses w) (wf_wots_key_indices w)"
    by (simp add: wallet_xmss_floor_def enter_all_def Let_def)
  note idx = wallet_at_indices [OF assms]
  note nxt = address_at_next(1) [OF wallet_at_address [OF assms, of "unat j"]]
  have none: "map_of (wf_wots_key_indices w) j = None" if "\<not> unat j < length ns"
    using wallet_at_synced [OF assms, of j] that by (cases "map_of (wf_wots_key_indices w) j") auto
  show "map_of (xf_wots_key_indices (wallet_xmss_floor X w)) j
      = (if unat j < length ns then Some (word_of_nat (ns ! unat j)) else None)"
    using idx nxt none wallet_at_synced [OF assms, of j]
    by (cases "unat j < length ns") (auto simp: eq map_of_enter_all split: option.split)
  show "distinct (map fst (xf_wots_key_indices (wallet_xmss_floor X w)))"
    using assms by (simp add: eq distinct_enter_all wallet_at_def)
  show "current_wallet_wots_floor w j = (if unat j < length ns then word_of_nat (ns ! unat j) else 0)"
    using idx nxt none wallet_at_synced [OF assms, of j]
    by (cases "unat j < length ns") (auto simp: current_wallet_wots_floor_def split: option.split)
qed

lemma floor_entries_ok:
  "floor_entries w es = Inr () \<longleftrightarrow> (\<forall>(j, r) \<in> set es. r \<le> current_wallet_wots_floor w j)"
  by (induction w es rule: floor_entries.induct) (auto simp: Let_def not_less)

lemma enforce_at:
  assumes w: "wallet_at X sk ns w" and v: "wallet_at X sk ms v"
  shows "enforce_wallet_xmss_floor X (Some (Inr (wallet_xmss_floor X v))) w = Inr ()
         \<longleftrightarrow> length ms \<le> length ns \<and> (\<forall>i < length ms. ms ! i \<le> ns ! i)"
proof -
  have small: "unat (word_of_nat (xs ! i) :: u32) = xs ! i" if "wallet_at X sk xs x" "i < length xs" for xs x i
    using address_at_next [OF wallet_at_address [OF that]] by simp
  have c: "wf_addr_counter w < wf_addr_counter v \<longleftrightarrow> length ns < length ms"
    using w v by (simp add: wallet_at_def word_less_nat_alt unat_of_nat_small)
  have n: "length ms < 2 ^ 32" using v by (simp add: wallet_at_def)
  have "(\<forall>(j, r) \<in> set (xf_wots_key_indices (wallet_xmss_floor X v)). r \<le> current_wallet_wots_floor w j)
      \<longleftrightarrow> (\<forall>i < length ms. ms ! i \<le> ns ! i)" if le: "length ms \<le> length ns"
  proof -
    have e: "(j, r) \<in> set (xf_wots_key_indices (wallet_xmss_floor X v))
        \<longleftrightarrow> unat j < length ms \<and> r = word_of_nat (ms ! unat j)" for j r
      using map_of_eq_Some_iff [OF floor_at(2) [OF v], of j r] floor_at(1) [OF v, of j]
      by (auto split: if_splits)
    have k: "word_of_nat (ms ! i) \<le> current_wallet_wots_floor w (word_of_nat i) \<longleftrightarrow> ms ! i \<le> ns ! i"
      if i: "i < length ms" for i
    proof -
      have "unat (word_of_nat i :: u32) = i" using i n by (simp add: unat_of_nat_small)
      then show ?thesis
        using floor_at(3) [OF w, of "word_of_nat i"] i le small [OF w, of i] small [OF v i]
        by (simp add: word_le_nat_alt)
    qed
    show ?thesis
    proof
      assume l: "\<forall>(j, r) \<in> set (xf_wots_key_indices (wallet_xmss_floor X v)). r \<le> current_wallet_wots_floor w j"
      show "\<forall>i < length ms. ms ! i \<le> ns ! i"
      proof (intro allI impI)
        fix i
        assume i: "i < length ms"
        then have "(word_of_nat i, word_of_nat (ms ! i)) \<in> set (xf_wots_key_indices (wallet_xmss_floor X v))"
          using n by (simp add: e unat_of_nat_small)
        then show "ms ! i \<le> ns ! i" using l k [OF i] by fastforce
      qed
    next
      assume "\<forall>i < length ms. ms ! i \<le> ns ! i"
      then show "\<forall>(j, r) \<in> set (xf_wots_key_indices (wallet_xmss_floor X v)). r \<le> current_wallet_wots_floor w j"
        using k by (fastforce simp: e)
    qed
  qed
  moreover have "enforce_wallet_xmss_floor X (Some (Inr (wallet_xmss_floor X v))) w = Inr ()
      \<longleftrightarrow> \<not> wf_addr_counter w < wf_addr_counter v
          \<and> floor_entries w (xf_wots_key_indices (wallet_xmss_floor X v)) = Inr ()"
  proof -
    have "wf_master_sk w = wf_master_sk v" using w v by (simp add: wallet_at_def)
    then have "xf_wallet_fingerprint (wallet_xmss_floor X v) = hash X (wf_master_sk w)"
      "xf_addr_counter (wallet_xmss_floor X v) = wf_addr_counter v"
      by (simp_all add: wallet_xmss_floor_def)
    then show ?thesis by (simp add: enforce_wallet_xmss_floor_def guard_def)
  qed
  ultimately show ?thesis unfolding floor_entries_ok c not_less by blast
qed

section \<open>Sessions\<close>

text \<open>Running a sequence of operations, collecting what they hand out.\<close>

fun run_ops :: "('o \<Rightarrow> 's \<Rightarrow> 'r list \<times> 's) \<Rightarrow> 'o list \<Rightarrow> 's \<Rightarrow> 'r list \<times> 's" where
  "run_ops step [] s = ([], s)"
| "run_ops step (x # xs) s =
     (case step x s of (rs, s') \<Rightarrow> case run_ops step xs s' of (rs', s'') \<Rightarrow> (rs @ rs', s''))"

text \<open>
  What a source of one-time keys promises: its state stands for one counter per tree, no operation
  lowers a counter or removes one, and a key handed out is the counter of its tree, which is then
  incremented. A sequence of operations then hands out each key at most once.
\<close>

locale one_time_keys =
  fixes st_at :: "nat list \<Rightarrow> 's \<Rightarrow> bool"
    and step :: "'o \<Rightarrow> 's \<Rightarrow> 'r list \<times> 's"
    and key_of :: "'r \<Rightarrow> nat \<times> nat"
    and good :: "'r \<Rightarrow> bool"
    and room :: nat
  assumes step_ok: "st_at ns s \<Longrightarrow> length ns + 1 < room \<Longrightarrow>
      \<exists>ns'. st_at ns' (snd (step x s)) \<and> length ns \<le> length ns' \<and> length ns' \<le> length ns + 1
        \<and> (\<forall>i < length ns. ns ! i \<le> ns' ! i)
        \<and> (fst (step x s) = [] \<or> (\<exists>r. fst (step x s) = [r] \<and> good r \<and> fst (key_of r) < length ns
              \<and> snd (key_of r) = ns ! fst (key_of r) \<and> snd (key_of r) < ns' ! fst (key_of r)))"
begin

lemma run_ok:
  assumes "st_at ns s" "length ns + length xs < room"
  shows "\<exists>ns'. st_at ns' (snd (run_ops step xs s)) \<and> length ns \<le> length ns' \<and> length ns' \<le> length ns + length xs
    \<and> (\<forall>i < length ns. ns ! i \<le> ns' ! i)
    \<and> distinct (map key_of (fst (run_ops step xs s)))
    \<and> (\<forall>r \<in> set (fst (run_ops step xs s)). good r \<and> fst (key_of r) < length ns' \<and> snd (key_of r) < ns' ! fst (key_of r)
          \<and> (fst (key_of r) < length ns \<longrightarrow> ns ! fst (key_of r) \<le> snd (key_of r)))"
  using assms
proof (induction xs arbitrary: ns s)
  case Nil
  then show ?case by auto
next
  case (Cons x xs)
  obtain rs s1 where s1: "step x s = (rs, s1)" by (cases "step x s")
  obtain rs' s2 where s2: "run_ops step xs s1 = (rs', s2)" by (cases "run_ops step xs s1")
  from step_ok [OF Cons.prems(1), of x] Cons.prems(2) s1 obtain ms where
    ms: "st_at ms s1" "length ns \<le> length ms" "length ms \<le> length ns + 1" "\<And>i. i < length ns \<Longrightarrow> ns ! i \<le> ms ! i"
    and rs: "rs = [] \<or> (\<exists>r. rs = [r] \<and> good r \<and> fst (key_of r) < length ns
              \<and> snd (key_of r) = ns ! fst (key_of r) \<and> snd (key_of r) < ms ! fst (key_of r))"
    by auto
  from Cons.IH [OF ms(1)] Cons.prems(2) ms(3) s2 obtain ns' where
    ns': "st_at ns' s2" "length ms \<le> length ns'" "length ns' \<le> length ms + length xs"
      "\<And>i. i < length ms \<Longrightarrow> ms ! i \<le> ns' ! i"
    and d: "distinct (map key_of rs')"
    and g: "\<And>r. r \<in> set rs' \<Longrightarrow> good r \<and> fst (key_of r) < length ns' \<and> snd (key_of r) < ns' ! fst (key_of r)
          \<and> (fst (key_of r) < length ms \<longrightarrow> ms ! fst (key_of r) \<le> snd (key_of r))"
    by auto
  have up: "ns ! i \<le> ns' ! i" if "i < length ns" for i
    using ms(2,4) ns'(4) that by (meson less_le_trans order_trans)
  have old: "good r \<and> fst (key_of r) < length ns' \<and> snd (key_of r) < ns' ! fst (key_of r)
      \<and> (fst (key_of r) < length ns \<longrightarrow> ns ! fst (key_of r) \<le> snd (key_of r))" if "r \<in> set rs" for r
    using rs that ms(2) ns'(2) ns'(4) [of "fst (key_of r)"] by auto
  have new: "fst (key_of r) < length ns \<longrightarrow> ns ! fst (key_of r) \<le> snd (key_of r)" if "r \<in> set rs'" for r
    using g [OF that] ms(2) ms(4) [of "fst (key_of r)"] by auto
  have "key_of r \<noteq> key_of r'" if "r \<in> set rs" "r' \<in> set rs'" for r r'
    using rs that g [OF that(2)] ms(2) by auto
  then have "key_of ` set rs \<inter> key_of ` set rs' = {}" by blast
  moreover have "distinct (map key_of rs)" using rs by auto
  ultimately have "distinct (map key_of (rs @ rs'))" using d by simp
  then show ?case
    using ns' up old new g ms(2,3) by (intro exI [of _ ns']) (auto simp: s1 s2)
qed

end

datatype wallet_op = OpNextAddress | OpReserve u32 | OpReload

definition wallet_step ::
  "'x ext_scheme \<Rightarrow> wallet_op \<Rightarrow> WalletFile \<Rightarrow> (u32 \<times> u32 \<times> felt \<times> felt \<times> felt list) list \<times> WalletFile" where
  "wallet_step X x w =
     (case x of
        OpNextAddress \<Rightarrow> ([], snd (next_address X False w))
      | OpReserve j \<Rightarrow> (case reserve_next_auth X j w of
            (Inr r, w') \<Rightarrow> ([(j, r)], w') | (Inl e, w') \<Rightarrow> ([], w'))
      | OpReload \<Rightarrow> ([], snd (materialize_addresses X False w)))"

definition wallet_key :: "u32 \<times> u32 \<times> felt \<times> felt \<times> felt list \<Rightarrow> nat \<times> nat" where
  "wallet_key = (\<lambda>(j, key_idx, _). (unat j, unat key_idx))"

interpretation wk: one_time_keys "wallet_at X sk" "wallet_step X" wallet_key "\<lambda>(j, r). authentic X sk j r" "2 ^ 32"
proof
  fix ns w x
  assume w: "wallet_at X sk ns w" and n: "length ns + 1 < 2 ^ 32"
  show "\<exists>ns'. wallet_at X sk ns' (snd (wallet_step X x w)) \<and> length ns \<le> length ns' \<and> length ns' \<le> length ns + 1
        \<and> (\<forall>i < length ns. ns ! i \<le> ns' ! i)
        \<and> (fst (wallet_step X x w) = [] \<or> (\<exists>r. fst (wallet_step X x w) = [r]
              \<and> (case r of (j, r) \<Rightarrow> authentic X sk j r) \<and> fst (wallet_key r) < length ns
              \<and> snd (wallet_key r) = ns ! fst (wallet_key r) \<and> snd (wallet_key r) < ns' ! fst (wallet_key r)))"
  proof (cases x)
    case OpNextAddress
    then show ?thesis
      using next_address_at(1) [OF w n]
      by (intro exI [of _ "ns @ [0]"]) (simp add: wallet_step_def nth_append)
  next
    case (OpReserve j)
    show ?thesis
    proof (cases "unat j < length ns \<and> ns ! unat j < AUTH_TREE_SIZE")
      case True
      obtain r w' where r: "reserve_next_auth X j w = (Inr r, w')" "fst r = word_of_nat (ns ! unat j)"
        "authentic X sk j r" "wallet_at X sk (ns[unat j := ns ! unat j + 1]) w'"
        using reserve_at [OF w] True by blast
      have "unat (word_of_nat (ns ! unat j) :: u32) = ns ! unat j"
        using True size_fits by (simp add: unat_of_nat_small)
      then have "wallet_key (j, r) = (unat j, ns ! unat j)" using r(2) by (cases r) (simp add: wallet_key_def)
      then show ?thesis
        using True OpReserve r
        by (intro exI [of _ "ns[unat j := ns ! unat j + 1]"]) (simp add: wallet_step_def nth_list_update)
    next
      case False
      obtain e where "reserve_next_auth X j w = (Inl (Err e), w)" by (rule reserve_refused [OF w False])
      then show ?thesis using OpReserve w by (intro exI [of _ ns]) (simp add: wallet_step_def)
    qed
  next
    case OpReload
    obtain w' where "materialize_addresses X False w = (Inr (), w')" "wallet_at X sk ns w'"
      using materialize_at [OF w] by metis
    then show ?thesis using OpReload by (intro exI [of _ ns]) (simp add: wallet_step_def)
  qed
qed

section \<open>Properties\<close>

text \<open>
  C14: a wallet never uses a one-time key twice. Over any sequence of address creations,
  reservations and reloads from a new wallet, the reserved pairs of address and key index are
  distinct, each comes with the root and path the full rebuild of the address's tree gives, which
  authenticate the key's leaf, and a reservation fails only for a missing address or when all keys
  of the address have been used.
\<close>

theorem wallet_never_reuses_keys:
  assumes "length ops < 2 ^ 32"
  shows "case run_ops (wallet_step X) ops (new_wallet X sk t) of (reserved, w) \<Rightarrow>
           distinct (map wallet_key reserved)
           \<and> (\<forall>(j, r) \<in> set reserved. authentic X sk j r)
           \<and> (\<forall>j. (\<exists>r. fst (reserve_next_auth X j w) = Inr r) \<longleftrightarrow>
                unat j < length (wf_addresses w)
                \<and> unat (bds_next_index (wa_bds (wf_addresses w ! unat j))) < AUTH_TREE_SIZE)"
proof -
  obtain reserved w where run: "run_ops (wallet_step X) ops (new_wallet X sk t) = (reserved, w)"
    by (cases "run_ops (wallet_step X) ops (new_wallet X sk t)")
  from wk.run_ok [OF new_wallet_at, of ops X sk t] assms run obtain ns where
    ns: "wallet_at X sk ns w" "distinct (map wallet_key reserved)" "\<forall>(j, r) \<in> set reserved. authentic X sk j r"
    by auto
  have "(\<exists>r. fst (reserve_next_auth X j w) = Inr r) \<longleftrightarrow>
      unat j < length (wf_addresses w) \<and> unat (bds_next_index (wa_bds (wf_addresses w ! unat j))) < AUTH_TREE_SIZE" for j
  proof (cases "unat j < length ns \<and> ns ! unat j < AUTH_TREE_SIZE")
    case True
    then obtain r w' where "reserve_next_auth X j w = (Inr r, w')" using reserve_at [OF ns(1)] by blast
    then show ?thesis
      using True wallet_at_length [OF ns(1)] address_at_next(3) [OF wallet_at_address [OF ns(1)], of "unat j"]
      by (cases r) simp
  next
    case False
    obtain e where "reserve_next_auth X j w = (Inl (Err e), w)" by (rule reserve_refused [OF ns(1) False])
    then show ?thesis
      using False wallet_at_length [OF ns(1)] address_at_next(3) [OF wallet_at_address [OF ns(1)], of "unat j"] by auto
  qed
  then show ?thesis using run ns(2,3) by simp
qed

theorem wallet_never_reuses_keys_witness:
  "case run_ops (wallet_step sample_ext) [OpNextAddress, OpReserve 0, OpReload, OpReserve 0] (new_wallet sample_ext ZERO None)
   of (reserved, w) \<Rightarrow> distinct (map wallet_key reserved)"
  using wallet_never_reuses_keys [of "[OpNextAddress, OpReserve 0, OpReload, OpReserve 0]" sample_ext ZERO None]
  by (simp add: case_prod_beta)

text \<open>
  C15: restoring a stale backup is refused. The floor saved with a wallet accepts that wallet, and it
  refuses every earlier state of the wallet after which a key was reserved or an address created.
\<close>

theorem stale_backup_refused:
  assumes "length ops + length ops' < 2 ^ 32"
  shows "case run_ops (wallet_step X) ops (new_wallet X sk t) of (_, w) \<Rightarrow>
         case run_ops (wallet_step X) ops' w of (reserved, w') \<Rightarrow>
           enforce_wallet_xmss_floor X (Some (Inr (wallet_xmss_floor X w'))) w' = Inr ()
           \<and> (enforce_wallet_xmss_floor X (Some (Inr (wallet_xmss_floor X w'))) w = Inr ()
              \<longrightarrow> reserved = [] \<and> length (wf_addresses w') = length (wf_addresses w))"
proof -
  obtain r w where run: "run_ops (wallet_step X) ops (new_wallet X sk t) = (r, w)"
    by (cases "run_ops (wallet_step X) ops (new_wallet X sk t)")
  obtain r' w' where run': "run_ops (wallet_step X) ops' w = (r', w')" by (cases "run_ops (wallet_step X) ops' w")
  from wk.run_ok [OF new_wallet_at, of ops X sk t] assms run obtain ns where
    ns: "wallet_at X sk ns w" "length ns \<le> length ops" by auto
  from wk.run_ok [OF ns(1), of ops'] ns(2) assms run' obtain ms where
    ms: "wallet_at X sk ms w'" "length ns \<le> length ms" "\<And>i. i < length ns \<Longrightarrow> ns ! i \<le> ms ! i"
    and key: "\<And>k. k \<in> set r' \<Longrightarrow> fst (wallet_key k) < length ms \<and> snd (wallet_key k) < ms ! fst (wallet_key k)
          \<and> (fst (wallet_key k) < length ns \<longrightarrow> ns ! fst (wallet_key k) \<le> snd (wallet_key k))"
    by auto
  have "r' = [] \<and> length (wf_addresses w') = length (wf_addresses w)"
    if "enforce_wallet_xmss_floor X (Some (Inr (wallet_xmss_floor X w'))) w = Inr ()"
  proof -
    have le: "length ms \<le> length ns" "\<And>i. i < length ms \<Longrightarrow> ms ! i \<le> ns ! i"
      using that enforce_at [OF ns(1) ms(1)] by simp_all
    have "k \<notin> set r'" for k using key [of k] le(1) le(2) [of "fst (wallet_key k)"] by auto
    then have "r' = []" by (metis list.set_intros(1) neq_Nil_conv)
    then show ?thesis using le(1) ms(2) wallet_at_length [OF ms(1)] wallet_at_length [OF ns(1)] by simp
  qed
  then show ?thesis using run run' enforce_at [OF ms(1) ms(1)] by simp
qed

theorem stale_backup_refused_witness:
  "case next_address sample_ext False (new_wallet sample_ext ZERO None) of (_, w) \<Rightarrow>
   case reserve_next_auth sample_ext 0 w of (_, w') \<Rightarrow>
     enforce_wallet_xmss_floor sample_ext (Some (Inr (wallet_xmss_floor sample_ext w'))) w' = Inr ()
     \<and> enforce_wallet_xmss_floor sample_ext (Some (Inr (wallet_xmss_floor sample_ext w'))) w \<noteq> Inr ()"
proof -
  let ?w = "snd (next_address sample_ext False (new_wallet sample_ext ZERO None))"
  have "wallet_at sample_ext ZERO [0] ?w" using next_address_at(1) [OF new_wallet_at] by simp
  then obtain r w' where "reserve_next_auth sample_ext 0 ?w = (Inr r, w')"
    by (rule reserve_at [where j = 0]) (simp_all add: AUTH_TREE_SIZE_def)
  then show ?thesis
    using stale_backup_refused [of "[OpNextAddress]" "[OpReserve 0]" sample_ext ZERO None]
    by (auto simp: wallet_step_def case_prod_beta)
qed

end
