(* ===== verification/WalletFunds.thy ===== *)
theory WalletFunds
  imports Wallet "HOL-Library.Multiset"
begin

text \<open>
  Balances and note selection of the wallet: the balance splits into available and pending, and
  the greedy selection covers the amount with as few notes as possible.
\<close>

section \<open>The greedy prefix\<close>

definition pair_sum :: "(nat \<times> u64) list \<Rightarrow> nat" where
  "pair_sum ps = sum_list (map (\<lambda>(_, v). unat v) ps)"

lemma pair_sum_simps [simp]:
  "pair_sum [] = 0" "pair_sum ((i, v) # ps) = unat v + pair_sum ps" "pair_sum (ps @ qs) = pair_sum ps + pair_sum qs"
  by (simp_all add: pair_sum_def)

text \<open>The loop stops at the first prefix that covers the amount.\<close>

lemma select_loop_Some:
  assumes "select_loop amount acc sel ps = Some out"
  obtains k where "0 < k" "k \<le> length ps" "out = sel @ map fst (take k ps)"
    "amount \<le> acc + pair_sum (take k ps)" "\<And>l. 0 < l \<Longrightarrow> l < k \<Longrightarrow> acc + pair_sum (take l ps) < amount"
proof -
  have "\<exists>k. 0 < k \<and> k \<le> length ps \<and> out = sel @ map fst (take k ps) \<and> amount \<le> acc + pair_sum (take k ps)
      \<and> (\<forall>l. 0 < l \<longrightarrow> l < k \<longrightarrow> acc + pair_sum (take l ps) < amount)"
    using assms
  proof (induction amount acc sel ps rule: select_loop.induct)
    case (1 amount acc sel)
    then show ?case by simp
  next
    case (2 amount acc sel i v rest)
    show ?case
    proof (cases "amount \<le> acc + unat v")
      case True
      then show ?thesis using "2.prems" by (intro exI [of _ 1]) (auto simp: Let_def)
    next
      case False
      then obtain k where k: "0 < k" "k \<le> length rest" "out = (sel @ [i]) @ map fst (take k rest)"
        "amount \<le> acc + unat v + pair_sum (take k rest)"
        "\<And>l. 0 < l \<Longrightarrow> l < k \<Longrightarrow> acc + unat v + pair_sum (take l rest) < amount"
        using "2.IH" [OF refl refl] "2.prems" by (auto simp: Let_def)
      have "acc + pair_sum (take l ((i, v) # rest)) < amount" if "0 < l" "l < Suc k" for l
        using that k(5) [of "l - 1"] False by (cases l; cases "l = 1") auto
      then show ?thesis using k by (intro exI [of _ "Suc k"]) (simp add: add.assoc)
    qed
  qed
  then show thesis using that by blast
qed

lemma select_loop_None: "select_loop amount acc sel ps = None \<longleftrightarrow> ps = [] \<or> acc + pair_sum ps < amount"
proof (induction amount acc sel ps rule: select_loop.induct)
  case (2 amount acc sel i v rest)
  then show ?case by (cases "rest = []") (auto simp: Let_def add.assoc)
qed simp

text \<open>A prefix of a list sorted by value is worth at least any set of as many entries.\<close>

lemma prefix_shift:
  assumes "sorted_wrt (\<lambda>p q. unat (snd q) \<le> unat (snd p)) (p # ps)"
  shows "pair_sum (take m ps) \<le> pair_sum (take m (p # ps))"
  using assms
proof (induction ps arbitrary: m p)
  case Nil
  then show ?case by simp
next
  case (Cons q ps)
  show ?case
  proof (cases m)
    case (Suc k)
    have "pair_sum (take k ps) \<le> pair_sum (take k (q # ps))" using Cons by auto
    moreover have "unat (snd q) \<le> unat (snd p)" using Cons.prems by simp
    ultimately show ?thesis using Suc by (cases p, cases q) simp
  qed simp
qed

lemma greedy_best:
  assumes "sorted_wrt (\<lambda>p q. unat (snd q) \<le> unat (snd p)) ps" "distinct (map fst ps)" "T \<subseteq> fst ` set ps"
    "\<And>i v. (i, v) \<in> set ps \<Longrightarrow> f i = unat v"
  shows "sum f T \<le> pair_sum (take (card T) ps)"
  using assms
proof (induction ps arbitrary: T)
  case Nil
  then show ?case by simp
next
  case (Cons p ps)
  have fin: "finite T" using Cons.prems(3) finite_subset by fastforce
  obtain i v where p: "p = (i, v)" by (cases p)
  show ?case
  proof (cases "i \<in> T")
    case True
    have "sum f (T - {i}) \<le> pair_sum (take (card (T - {i})) ps)"
      using Cons.prems p by (intro Cons.IH) auto
    moreover have "sum f T = f i + sum f (T - {i})" "card T = Suc (card (T - {i}))"
      using True fin card.remove [OF fin True] by (simp_all add: sum.remove)
    moreover have "f i = unat v" using Cons.prems(4) p by simp
    ultimately show ?thesis by (simp add: p)
  next
    case False
    have "sum f T \<le> pair_sum (take (card T) ps)"
      using Cons.prems p False by (intro Cons.IH) auto
    also have "\<dots> \<le> pair_sum (take (card T) (p # ps))" using Cons.prems(1) by (rule prefix_shift)
    finally show ?thesis .
  qed
qed

section \<open>Candidates\<close>

definition spendable :: "'x ext_scheme \<Rightarrow> WalletFile \<Rightarrow> nat \<Rightarrow> bool" where
  "spendable X w i \<longleftrightarrow> i < length (wf_notes w) \<and> note_nullifier X (wf_notes w ! i) \<notin> pending_nullifier_set w"

definition note_value :: "WalletFile \<Rightarrow> nat \<Rightarrow> nat" where
  "note_value w i = unat (nt_v (wf_notes w ! i))"

definition candidates :: "'x ext_scheme \<Rightarrow> WalletFile \<Rightarrow> (nat \<times> u64) list" where
  "candidates X w = sort_key (\<lambda>(_, v). - int (unat v)) (map (\<lambda>(i, n). (i, nt_v n))
     (filter (\<lambda>(_, n). note_nullifier X n \<notin> pending_nullifier_set w) (enumerate 0 (wf_notes w))))"

lemma in_candidates: "(i, v) \<in> set (candidates X w) \<longleftrightarrow> spendable X w i \<and> v = nt_v (wf_notes w ! i)"
  by (auto simp: candidates_def spendable_def in_set_enumerate_eq image_iff)

lemma distinct_candidates: "distinct (map fst (candidates X w))"
proof -
  let ?l = "map (\<lambda>(i, n). (i, nt_v n))
     (filter (\<lambda>(_, n). note_nullifier X n \<notin> pending_nullifier_set w) (enumerate 0 (wf_notes w)))"
  have "map fst ?l = map fst (filter (\<lambda>(_, n). note_nullifier X n \<notin> pending_nullifier_set w) (enumerate 0 (wf_notes w)))"
    unfolding map_map by (rule map_cong) auto
  moreover have "distinct (map fst (filter P (enumerate 0 (wf_notes w))))" for P
    by (rule distinct_map_filter) simp
  ultimately have "distinct (map fst ?l)" by (simp only:)
  moreover have "mset (map fst (candidates X w)) = mset (map fst ?l)"
    by (simp add: candidates_def multiset.map_comp)
  ultimately show ?thesis using mset_eq_imp_distinct_iff by metis
qed

lemma sorted_candidates: "sorted_wrt (\<lambda>p q. unat (snd q) \<le> unat (snd p)) (candidates X w)"
proof -
  have "sorted (map (\<lambda>(_, v). - int (unat v)) (candidates X w))" by (simp add: candidates_def)
  moreover have "uint a \<le> uint b \<longleftrightarrow> unat a \<le> unat b" for a b :: u64
    unfolding unat_eq_nat_uint by (rule nat_le_eq_zle [symmetric]) simp
  ultimately show ?thesis by (simp add: sorted_map case_prod_beta)
qed

lemma pair_sum_candidates:
  "set ps \<subseteq> set (candidates X w) \<Longrightarrow> pair_sum ps = sum_list (map (note_value w) (map fst ps))"
  by (induction ps) (auto simp: note_value_def in_candidates)

lemma sum_list_mset_cong: "mset xs = mset ys \<Longrightarrow> sum_list (map f xs) = (sum_list (map f ys) :: nat)"
  by (metis mset_map sum_mset_sum_list)

lemma filter_enumerate: "map snd (filter (\<lambda>(_, x). P x) (enumerate k xs)) = filter P xs"
  by (induction xs arbitrary: k) auto

lemma pair_sum_available: "pair_sum (candidates X w) = available_balance X w"
proof -
  let ?P = "\<lambda>n. note_nullifier X n \<notin> pending_nullifier_set w"
  have "pair_sum (candidates X w) = pair_sum (map (\<lambda>(i, n). (i, nt_v n)) (filter (\<lambda>(_, n). ?P n) (enumerate 0 (wf_notes w))))"
    unfolding pair_sum_def candidates_def by (rule sum_list_mset_cong) simp
  also have "\<dots> = sum_list (map (\<lambda>n. unat (nt_v n)) (map snd (filter (\<lambda>(_, n). ?P n) (enumerate 0 (wf_notes w)))))"
    by (simp add: pair_sum_def comp_def case_prod_beta)
  also have "map snd (filter (\<lambda>(_, n). ?P n) (enumerate 0 (wf_notes w))) = filter ?P (wf_notes w)"
    by (rule filter_enumerate)
  finally show ?thesis by (simp add: available_balance_def Let_def)
qed

lemma balance_splits: "balance w = available_balance X w + pending_outgoing_balance X w"
proof -
  have "sum_list (map f xs) = sum_list (map f (filter (\<lambda>x. \<not> P x) xs)) + sum_list (map f (filter P xs))"
    for f :: "wallet_note \<Rightarrow> nat" and P xs by (induction xs) auto
  from this [of "\<lambda>n. unat (nt_v n)" "wf_notes w" "\<lambda>n. note_nullifier X n \<in> pending_nullifier_set w"]
  show ?thesis by (simp add: balance_def available_balance_def pending_outgoing_balance_def Let_def)
qed

lemma select_notes_candidates:
  "select_notes X w amount =
     (case select_loop (unat amount) 0 [] (candidates X w) of
        Some selected \<Rightarrow> Inr selected
      | None \<Rightarrow> Inl (Err (''insufficient funds: have '' @ show_nat (available_balance X w) @ '' available (''
                  @ show_nat (pending_outgoing_balance X w) @ '' pending) need '' @ show_word amount)))"
  by (simp only: select_notes_def candidates_def Let_def)

text \<open>What a selection is worth: it covers the amount and exceeds it by less than one note.\<close>

lemma select_notes_sound:
  assumes "select_notes X w amount = Inr sel"
  shows "distinct sel" "sel \<noteq> []" "\<And>i. i \<in> set sel \<Longrightarrow> spendable X w i"
    "unat amount \<le> sum_list (map (note_value w) sel)" "sum_list (map (note_value w) sel) - unat amount < 2 ^ 64"
proof -
  let ?c = "candidates X w"
  have "select_loop (unat amount) 0 [] ?c = Some sel"
    using assms by (auto simp: select_notes_candidates split: option.splits)
  then obtain k where k: "0 < k" "k \<le> length ?c" "sel = map fst (take k ?c)" "unat amount \<le> pair_sum (take k ?c)"
    "\<And>l. 0 < l \<Longrightarrow> l < k \<Longrightarrow> pair_sum (take l ?c) < unat amount"
    by (rule select_loop_Some) auto
  have sub: "set (take k ?c) \<subseteq> set ?c" by (rule set_take_subset)
  have sum: "sum_list (map (note_value w) sel) = pair_sum (take k ?c)"
    using pair_sum_candidates [OF sub] by (simp add: k(3))
  show "distinct sel" using distinct_candidates [of X w] by (simp add: k(3) take_map [symmetric])
  show "sel \<noteq> []" using k(1,2) by (auto simp: k(3))
  show "\<And>i. i \<in> set sel \<Longrightarrow> spendable X w i" using sub in_candidates [of _ _ X w] by (auto simp: k(3))
  show "unat amount \<le> sum_list (map (note_value w) sel)" using k(4) by (simp add: sum)
  obtain l where l: "k = Suc l" using k(1) by (cases k) auto
  obtain i v where v: "?c ! l = (i, v)" by (cases "?c ! l")
  have "pair_sum (take k ?c) = pair_sum (take l ?c) + unat v"
    using k(2) by (simp add: l take_Suc_conv_app_nth v)
  moreover have "pair_sum (take l ?c) \<le> unat amount" using k(5) [of l] l by (cases "l = 0") auto
  ultimately show "sum_list (map (note_value w) sel) - unat amount < 2 ^ 64"
    using unsigned_less [of v, where 'a = nat] by (simp add: sum)
qed

lemma select_notes_succeeds:
  assumes "spendable X w i" "unat amount \<le> available_balance X w"
  shows "\<exists>sel. select_notes X w amount = Inr sel"
proof -
  have "candidates X w \<noteq> []" using assms(1) in_candidates [of i _ X w] by force
  then have "select_loop (unat amount) 0 [] (candidates X w) \<noteq> None"
    using assms(2) by (simp add: select_loop_None pair_sum_available)
  then show ?thesis by (auto simp: select_notes_candidates)
qed

section \<open>Properties\<close>

text \<open>
  C27: note selection. It fails exactly when the available balance is short of the amount or no note
  is available, and the error then reports the two parts of the balance. Otherwise it returns
  distinct positions of notes that no pending spend uses, whose values cover the amount, and no
  smaller set of such notes covers it.
\<close>

theorem select_notes_optimal:
  "case select_notes X w amount of
     Inl e \<Rightarrow> (available_balance X w < unat amount \<or> (\<forall>i. \<not> spendable X w i))
       \<and> e = Err (''insufficient funds: have '' @ show_nat (available_balance X w) @ '' available (''
              @ show_nat (balance w - available_balance X w) @ '' pending) need '' @ show_word amount)
   | Inr sel \<Rightarrow> distinct sel \<and> sel \<noteq> [] \<and> (\<forall>i \<in> set sel. spendable X w i)
       \<and> unat amount \<le> sum_list (map (note_value w) sel)
       \<and> (\<forall>T. T \<noteq> {} \<longrightarrow> (\<forall>i \<in> T. spendable X w i) \<longrightarrow> unat amount \<le> sum (note_value w) T
              \<longrightarrow> length sel \<le> card T)"
proof (cases "select_loop (unat amount) 0 [] (candidates X w)")
  case None
  then have "candidates X w = [] \<or> available_balance X w < unat amount"
    by (simp add: select_loop_None pair_sum_available)
  moreover have "\<forall>i. \<not> spendable X w i" if "candidates X w = []"
    using in_candidates [of _ _ X w] that by auto
  moreover have "pending_outgoing_balance X w = balance w - available_balance X w"
    by (simp add: balance_splits [of w X])
  ultimately show ?thesis
    using None by (auto simp: select_notes_candidates)
next
  case (Some out)
  then obtain k where k: "0 < k" "k \<le> length (candidates X w)" "out = map fst (take k (candidates X w))"
    "unat amount \<le> pair_sum (take k (candidates X w))"
    "\<And>l. 0 < l \<Longrightarrow> l < k \<Longrightarrow> pair_sum (take l (candidates X w)) < unat amount"
    by (rule select_loop_Some) auto
  have sub: "set (take k (candidates X w)) \<subseteq> set (candidates X w)" by (rule set_take_subset)
  have "length out \<le> card T"
    if T: "T \<noteq> {}" "\<forall>i \<in> T. spendable X w i" "unat amount \<le> sum (note_value w) T" for T
  proof (rule ccontr)
    assume "\<not> length out \<le> card T"
    then have lt: "card T < k" using k by simp
    have "T \<subseteq> fst ` set (candidates X w)" using T(2) in_candidates by force
    then have "sum (note_value w) T \<le> pair_sum (take (card T) (candidates X w))" and "finite T"
      using sorted_candidates distinct_candidates
      by (auto intro!: greedy_best simp: in_candidates note_value_def dest: finite_subset)
    moreover have "0 < card T" using \<open>finite T\<close> T(1) by (simp add: card_gt_0_iff)
    ultimately show False using k(5) [OF _ lt] T(3) by linarith
  qed
  moreover have "distinct out" using distinct_candidates [of X w] by (simp add: k(3) take_map [symmetric])
  moreover have "\<forall>i \<in> set out. spendable X w i" using sub in_candidates [of _ _ X w] by (auto simp: k(3))
  moreover have "out \<noteq> []" using k(1,2) by (auto simp: k(3))
  moreover have "unat amount \<le> sum_list (map (note_value w) out)"
    using k(4) pair_sum_candidates [OF sub] by (simp add: k(3))
  ultimately show ?thesis
    using Some by (simp add: select_notes_candidates)
qed

definition sample_funds :: WalletFile where
  "sample_funds = (new_wallet sample_ext ZERO None)\<lparr>wf_notes :=
     map (\<lambda>v. \<lparr>nt_nk_spend = ZERO, nt_nk_tag = ZERO, nt_auth_root = ZERO, nt_d_j = ZERO, nt_v = v,
               nt_rseed = ZERO, nt_cm = ZERO, nt_index = unat v, nt_addr_index = 0\<rparr>) [2, 5]\<rparr>"

theorem select_notes_optimal_witness:
  "case select_notes sample_ext sample_funds 3 of
     Inl e \<Rightarrow> False | Inr sel \<Rightarrow> sel \<noteq> [] \<and> 3 \<le> sum_list (map (note_value sample_funds) sel)"
proof -
  have "available_balance sample_ext sample_funds = 7" "spendable sample_ext sample_funds 0"
    by (simp_all add: available_balance_def spendable_def pending_nullifier_set_def sample_funds_def new_wallet_def)
  then show ?thesis
    using select_notes_optimal [of sample_ext sample_funds 3] by (auto split: sum.splits)
qed

end
