(* ===== verification/WalletSync.thy ===== *)
theory WalletSync
  imports WalletKeys
begin

text \<open>
  Synchronisation of the wallets with the notes feed (\<open>apps/wallet/src/lib.rs\<close>): recovery of notes
  by the spending wallet, in one pass or in batches, and the watch-only wallets that hold detection,
  viewing or outgoing keys. A panic of the decryption routines ends the whole call, so these
  functions return a result; printing is left out. The parallel recovery of a batch is a map.
\<close>

section \<open>Recovering notes\<close>

record notes_feed =
  nf_notes :: "note_memo list"
  nf_next_cursor :: nat

definition recover_note_for_address ::
  "'x ext_scheme \<Rightarrow> account \<Rightarrow> WalletAddressState \<Rightarrow> u64 \<Rightarrow> felt \<Rightarrow> felt \<Rightarrow> nat \<Rightarrow> wallet_note option" where
  "recover_note_for_address X acc addr v rseed cm index =
     (let nk_sp = derive_nk_spend X (acc_nk acc) (wa_d_j addr);
          nk_tg = derive_nk_tag X nk_sp;
          otag = owner_tag X (wa_auth_root addr) (wa_auth_pub_seed addr) nk_tg;
          rcm = derive_rcm X rseed
      in if commit X (wa_d_j addr) v rcm otag \<noteq> cm then None
         else Some \<lparr>nt_nk_spend = nk_sp, nt_nk_tag = nk_tg, nt_auth_root = wa_auth_root addr,
                    nt_d_j = wa_d_j addr, nt_v = v, nt_rseed = rseed, nt_cm = cm, nt_index = index,
                    nt_addr_index = wa_index addr\<rparr>)"

fun recover_loop ::
  "'x ext_scheme \<Rightarrow> WalletFile \<Rightarrow> account \<Rightarrow> note_memo \<Rightarrow> WalletAddressState list \<Rightarrow> wallet_note option res" where
  "recover_loop X w acc nm [] = Inr None"
| "recover_loop X w acc nm (addr # rest) =
     (let (_, dk_v_j, _, dk_d_j) = kem_keys X w (wa_index addr) in
      attempt (detect X (nm_enc nm) dk_d_j) (\<lambda>detected.
      if \<not> detected then recover_loop X w acc nm rest
      else attempt (decrypt_memo X (nm_enc nm) dk_v_j) (\<lambda>opened.
        case opened of None \<Rightarrow> recover_loop X w acc nm rest
        | Some (v, rseed, _) \<Rightarrow>
            (case recover_note_for_address X acc addr v rseed (nm_cm nm) (nm_index nm) of
               Some n \<Rightarrow> Inr (Some n)
             | None \<Rightarrow> recover_loop X w acc nm rest))))"

definition try_recover_note :: "'x ext_scheme \<Rightarrow> WalletFile \<Rightarrow> note_memo \<Rightarrow> wallet_note option res" where
  "try_recover_note X w nm = recover_loop X w (wallet_account X w) nm (wf_addresses w)"

section \<open>Scanning\<close>

record ScanSummary =
  ssum_found :: nat
  ssum_spent :: nat
  ssum_confirmed_pending :: nat
  ssum_pool_balances :: "felt \<rightharpoonup> u64"
  ssum_pruned_drained_pools :: nat

definition note_key :: "wallet_note \<Rightarrow> nat \<times> felt" where
  "note_key n = (nt_index n, nt_cm n)"

text \<open>The recovered notes that are pushed, each entering the set of known ones.\<close>

fun merge_recovered :: "(nat \<times> felt) set \<Rightarrow> wallet_note option list \<Rightarrow> wallet_note list" where
  "merge_recovered known [] = []"
| "merge_recovered known (None # rest) = merge_recovered known rest"
| "merge_recovered known (Some n # rest) =
     (if note_key n \<in> known then merge_recovered known rest
      else n # merge_recovered (insert (note_key n) known) rest)"

definition pool_kept :: "(felt \<rightharpoonup> u64) \<Rightarrow> felt set \<Rightarrow> PendingDeposit \<Rightarrow> bool" where
  "pool_kept pool_balances known_cms p =
     (let drained_on_chain = (case pool_balances (pd_pubkey_hash p) of None \<Rightarrow> 0 | Some b \<Rightarrow> b) = 0;
          cm_observed = (case pd_shielded_cm p of None \<Rightarrow> False | Some cm \<Rightarrow> cm \<in> known_cms)
      in \<not> (drained_on_chain \<and> cm_observed))"

definition apply_scan_feed ::
  "'x ext_scheme \<Rightarrow> notes_feed \<Rightarrow> felt list \<Rightarrow> (felt \<rightharpoonup> u64) \<Rightarrow> WalletFile \<Rightarrow> (ScanSummary \<times> WalletFile) res" where
  "apply_scan_feed X feed nullifiers pool_balances w =
     (let known_notes = set (map note_key (wf_notes w)) in
      attempt (map_res (try_recover_note X w) (nf_notes feed)) (\<lambda>recovered.
      let pushed = merge_recovered known_notes recovered;
          w1 = w\<lparr>wf_notes := wf_notes w @ pushed\<rparr>;
          known_cms = set (map nt_cm (wf_notes w1)) \<union> set (map nm_cm (nf_notes feed));
          nf_set = set nullifiers;
          w2 = w1\<lparr>wf_notes := filter (\<lambda>n. note_nullifier X n \<notin> nf_set) (wf_notes w1)\<rparr>;
          w3 = w2\<lparr>wf_pending_spends :=
                 filter (\<lambda>p. \<not> list_all (\<lambda>nf. nf \<in> nf_set) (ps_nullifiers p)) (wf_pending_spends w2)\<rparr>;
          w4 = w3\<lparr>wf_pending_deposits := filter (pool_kept pool_balances known_cms) (wf_pending_deposits w3)\<rparr>;
          w5 = w4\<lparr>wf_scanned := nf_next_cursor feed\<rparr>
      in Inr (\<lparr>ssum_found = length pushed,
               ssum_spent = length (wf_notes w1) - length (wf_notes w2),
               ssum_confirmed_pending = length (wf_pending_spends w2) - length (wf_pending_spends w3),
               ssum_pool_balances = pool_balances,
               ssum_pruned_drained_pools = length (wf_pending_deposits w3) - length (wf_pending_deposits w4)\<rparr>,
              w5)))"

definition apply_scan_feed_recover_batch ::
  "'x ext_scheme \<Rightarrow> notes_feed \<Rightarrow> WalletFile \<times> felt list \<Rightarrow> (nat \<times> WalletFile \<times> felt list) res" where
  "apply_scan_feed_recover_batch X feed = (\<lambda>(w, seen_cms).
     let seen_cms = seen_cms @ map nm_cm (nf_notes feed) in
     attempt (map_res (try_recover_note X w) (nf_notes feed)) (\<lambda>recovered.
     let known_notes = set (map note_key (wf_notes w));
         pushed = merge_recovered known_notes recovered
     in Inr (length pushed,
             w\<lparr>wf_notes := wf_notes w @ pushed, wf_scanned := nf_next_cursor feed\<rparr>, seen_cms)))"

definition apply_scan_feed_finalize ::
  "'x ext_scheme \<Rightarrow> felt list \<Rightarrow> felt list \<Rightarrow> (felt \<rightharpoonup> u64) \<Rightarrow> WalletFile \<Rightarrow> ScanSummary \<times> WalletFile" where
  "apply_scan_feed_finalize X seen_cms nullifiers pool_balances w =
     (let known_cms = set (map nt_cm (wf_notes w)) \<union> set seen_cms;
          nf_set = set nullifiers;
          w2 = w\<lparr>wf_notes := filter (\<lambda>n. note_nullifier X n \<notin> nf_set) (wf_notes w)\<rparr>;
          w3 = w2\<lparr>wf_pending_spends :=
                 filter (\<lambda>p. \<not> list_all (\<lambda>nf. nf \<in> nf_set) (ps_nullifiers p)) (wf_pending_spends w2)\<rparr>;
          w4 = w3\<lparr>wf_pending_deposits := filter (pool_kept pool_balances known_cms) (wf_pending_deposits w3)\<rparr>
      in (\<lparr>ssum_found = 0,
           ssum_spent = length (wf_notes w) - length (wf_notes w2),
           ssum_confirmed_pending = length (wf_pending_spends w2) - length (wf_pending_spends w3),
           ssum_pool_balances = pool_balances,
           ssum_pruned_drained_pools = length (wf_pending_deposits w3) - length (wf_pending_deposits w4)\<rparr>,
          w4))"

section \<open>Watch-only wallets\<close>

definition WATCH_WALLET_VERSION :: u16 where "WATCH_WALLET_VERSION = 1"

record WatchAddressRecord =
  wr_index :: u32
  wr_d_j :: felt
  wr_auth_root :: felt
  wr_auth_pub_seed :: felt
  wr_nk_tag :: felt

definition watch_address_from :: "WalletAddressState \<Rightarrow> WatchAddressRecord" where
  "watch_address_from a =
     \<lparr>wr_index = wa_index a, wr_d_j = wa_d_j a, wr_auth_root = wa_auth_root a,
      wr_auth_pub_seed = wa_auth_pub_seed a, wr_nk_tag = wa_nk_tag a\<rparr>"

text \<open>The fields of the variants are in the order of the source.\<close>

datatype WatchKeyMaterial =
    MaterialDetect u16 felt u32
  | MaterialView u16 felt "WatchAddressRecord list"
  | MaterialOutgoing u16 felt

record DetectedNoteRecord =
  dr_index :: nat
  dr_addr_index :: u32
  dr_cm :: felt

record ViewedNoteRecord =
  vr_index :: nat
  vr_addr_index :: u32
  vr_cm :: felt
  vr_value :: u64
  vr_memo :: bytes

record OutgoingNoteRecord =
  og_index :: nat
  og_role :: string
  og_value :: u64
  og_cm :: felt
  og_rseed :: felt
  og_d_j :: felt
  og_auth_root :: felt
  og_auth_pub_seed :: felt
  og_nk_tag :: felt

datatype WatchWalletFile =
    WatchDetect u16 felt u32 nat "DetectedNoteRecord list"
  | WatchView u16 felt "WatchAddressRecord list" nat "ViewedNoteRecord list"
  | WatchOutgoing u16 felt nat "OutgoingNoteRecord list"

record WatchWalletStatus =
  wst_mode :: string
  wst_scanned :: nat
  wst_tracked :: nat
  wst_incoming_total :: nat
  wst_outgoing_total :: nat
  wst_spend_status :: string
  wst_matches :: "DetectedNoteRecord list"
  wst_notes :: "ViewedNoteRecord list"
  wst_outgoing_notes :: "OutgoingNoteRecord list"

record WatchSyncSummary =
  wsy_found :: nat
  wsy_next_cursor :: nat

definition from_detect_wallet :: "'x ext_scheme \<Rightarrow> WalletFile \<Rightarrow> WatchKeyMaterial" where
  "from_detect_wallet X w =
     MaterialDetect WATCH_WALLET_VERSION (derive_detect_root X (acc_incoming_seed (wallet_account X w)))
       (wf_addr_counter w)"

definition from_view_wallet :: "'x ext_scheme \<Rightarrow> WalletFile \<Rightarrow> WatchKeyMaterial" where
  "from_view_wallet X w =
     MaterialView WATCH_WALLET_VERSION (acc_incoming_seed (wallet_account X w))
       (map watch_address_from (wf_addresses w))"

definition from_outgoing_wallet :: "'x ext_scheme \<Rightarrow> WalletFile \<Rightarrow> WatchKeyMaterial" where
  "from_outgoing_wallet X w = MaterialOutgoing WATCH_WALLET_VERSION (acc_outgoing_seed (wallet_account X w))"

fun from_material :: "WatchKeyMaterial \<Rightarrow> WatchWalletFile" where
  "from_material (MaterialDetect version detect_root addr_count) = WatchDetect version detect_root addr_count 0 []"
| "from_material (MaterialView version incoming_seed addresses) = WatchView version incoming_seed addresses 0 []"
| "from_material (MaterialOutgoing version outgoing_seed) = WatchOutgoing version outgoing_seed 0 []"

fun watch_status :: "WatchWalletFile \<Rightarrow> WatchWalletStatus" where
  "watch_status (WatchDetect _ _ _ scanned matches) =
     \<lparr>wst_mode = ''detect'', wst_scanned = scanned, wst_tracked = length matches, wst_incoming_total = 0,
      wst_outgoing_total = 0, wst_spend_status = ''candidate_matches_only'', wst_matches = matches,
      wst_notes = [], wst_outgoing_notes = []\<rparr>"
| "watch_status (WatchView _ _ _ scanned ns) =
     \<lparr>wst_mode = ''view'', wst_scanned = scanned, wst_tracked = length ns,
      wst_incoming_total = sum_list (map (\<lambda>n. unat (vr_value n)) ns),
      wst_outgoing_total = 0, wst_spend_status = ''unavailable_without_spend_key'', wst_matches = [],
      wst_notes = ns, wst_outgoing_notes = []\<rparr>"
| "watch_status (WatchOutgoing _ _ scanned ns) =
     \<lparr>wst_mode = ''outgoing'', wst_scanned = scanned, wst_tracked = length ns, wst_incoming_total = 0,
      wst_outgoing_total = sum_list (map (\<lambda>n. unat (og_value n)) ns),
      wst_spend_status = ''unavailable_without_spend_key'', wst_matches = [],
      wst_notes = [], wst_outgoing_notes = ns\<rparr>"

text \<open>The loop over the address indices below the count.\<close>

fun detect_loop :: "'x ext_scheme \<Rightarrow> felt \<Rightarrow> note_memo \<Rightarrow> u32 list \<Rightarrow> DetectedNoteRecord option res" where
  "detect_loop X detect_root nm [] = Inr None"
| "detect_loop X detect_root nm (addr_index # rest) =
     (let (_, dk_d) = derive_kem_detect_keys_from_root X detect_root addr_index in
      attempt (detect X (nm_enc nm) dk_d) (\<lambda>detected.
      if detected
      then Inr (Some \<lparr>dr_index = nm_index nm, dr_addr_index = addr_index, dr_cm = nm_cm nm\<rparr>)
      else detect_loop X detect_root nm rest))"

definition detect_record_for_note ::
  "'x ext_scheme \<Rightarrow> felt \<Rightarrow> u32 \<Rightarrow> note_memo \<Rightarrow> DetectedNoteRecord option res" where
  "detect_record_for_note X detect_root addr_count nm =
     detect_loop X detect_root nm (map word_of_nat [0..<unat addr_count])"

definition trim_decrypted_memo :: "bytes \<Rightarrow> bytes" where
  "trim_decrypted_memo memo = rev (dropWhile (\<lambda>b. b = 0) (rev memo))"

fun view_record_for_note ::
  "'x ext_scheme \<Rightarrow> felt \<Rightarrow> WatchAddressRecord list \<Rightarrow> note_memo \<Rightarrow> ViewedNoteRecord option res" where
  "view_record_for_note X incoming_seed [] nm = Inr None"
| "view_record_for_note X incoming_seed (addr # rest) nm =
     (let (_, dk_v, _, dk_d) = derive_kem_keys X incoming_seed (wr_index addr) in
      attempt (detect X (nm_enc nm) dk_d) (\<lambda>detected.
      if \<not> detected then view_record_for_note X incoming_seed rest nm
      else attempt (decrypt_memo X (nm_enc nm) dk_v) (\<lambda>opened.
        case opened of None \<Rightarrow> view_record_for_note X incoming_seed rest nm
        | Some (v, rseed, memo) \<Rightarrow>
            let rcm = derive_rcm X rseed;
                owner = owner_tag X (wr_auth_root addr) (wr_auth_pub_seed addr) (wr_nk_tag addr)
            in if commit X (wr_d_j addr) v rcm owner \<noteq> nm_cm nm
               then view_record_for_note X incoming_seed rest nm
               else Inr (Some \<lparr>vr_index = nm_index nm, vr_addr_index = wr_index addr, vr_cm = nm_cm nm,
                               vr_value = v, vr_memo = trim_decrypted_memo memo\<rparr>))))"

definition outgoing_record_for_note ::
  "'x ext_scheme \<Rightarrow> felt \<Rightarrow> note_memo \<Rightarrow> OutgoingNoteRecord option" where
  "outgoing_record_for_note X outgoing_seed nm =
     (case decrypt_outgoing_recovery X outgoing_seed (nm_cm nm) (en_outgoing_ct (nm_enc nm)) of None \<Rightarrow> None
      | Some recovery \<Rightarrow>
          if or_commitment X recovery \<noteq> nm_cm nm then None
          else Some \<lparr>og_index = nm_index nm, og_role = role_as_str (or_role recovery),
                     og_value = or_value recovery, og_cm = nm_cm nm, og_rseed = or_rseed recovery,
                     og_d_j = or_d_j recovery, og_auth_root = or_auth_root recovery,
                     og_auth_pub_seed = or_auth_pub_seed recovery, og_nk_tag = or_nk_tag recovery\<rparr>)"

text \<open>The loop the three modes share: the records pushed for a list of notes.\<close>

fun absorb ::
  "('r \<Rightarrow> nat \<times> felt) \<Rightarrow> (note_memo \<Rightarrow> 'r option res) \<Rightarrow> (nat \<times> felt) set \<Rightarrow> note_memo list \<Rightarrow> 'r list res" where
  "absorb key record_for known [] = Inr []"
| "absorb key record_for known (nm # rest) =
     attempt (record_for nm) (\<lambda>found.
       case found of None \<Rightarrow> absorb key record_for known rest
       | Some r \<Rightarrow>
           if key r \<in> known then absorb key record_for known rest
           else attempt (absorb key record_for (insert (key r) known) rest) (\<lambda>rs. Inr (r # rs)))"

definition dr_key :: "DetectedNoteRecord \<Rightarrow> nat \<times> felt" where "dr_key r = (dr_index r, dr_cm r)"
definition vr_key :: "ViewedNoteRecord \<Rightarrow> nat \<times> felt" where "vr_key r = (vr_index r, vr_cm r)"
definition og_key :: "OutgoingNoteRecord \<Rightarrow> nat \<times> felt" where "og_key r = (og_index r, og_cm r)"

fun apply_watch_feed ::
  "'x ext_scheme \<Rightarrow> WatchWalletFile \<Rightarrow> notes_feed \<Rightarrow> (WatchSyncSummary \<times> WatchWalletFile) res" where
  "apply_watch_feed X (WatchDetect version detect_root addr_count scanned matches) feed =
     attempt (absorb dr_key (detect_record_for_note X detect_root addr_count)
                (set (map dr_key matches)) (nf_notes feed)) (\<lambda>rs.
     Inr (\<lparr>wsy_found = length rs, wsy_next_cursor = nf_next_cursor feed\<rparr>,
          WatchDetect version detect_root addr_count (nf_next_cursor feed) (matches @ rs)))"
| "apply_watch_feed X (WatchView version incoming_seed addresses scanned ns) feed =
     attempt (absorb vr_key (view_record_for_note X incoming_seed addresses)
                (set (map vr_key ns)) (nf_notes feed)) (\<lambda>rs.
     Inr (\<lparr>wsy_found = length rs, wsy_next_cursor = nf_next_cursor feed\<rparr>,
          WatchView version incoming_seed addresses (nf_next_cursor feed) (ns @ rs)))"
| "apply_watch_feed X (WatchOutgoing version outgoing_seed scanned ns) feed =
     attempt (absorb og_key (\<lambda>nm. Inr (outgoing_record_for_note X outgoing_seed nm))
                (set (map og_key ns)) (nf_notes feed)) (\<lambda>rs.
     Inr (\<lparr>wsy_found = length rs, wsy_next_cursor = nf_next_cursor feed\<rparr>,
          WatchOutgoing version outgoing_seed (nf_next_cursor feed) (ns @ rs)))"

section \<open>Recovery depends on keys and addresses only\<close>

lemma recover_loop_cong:
  assumes "wf_master_sk w = wf_master_sk w'"
  shows "recover_loop X w acc nm as = recover_loop X w' acc nm as"
proof -
  have "kem_keys X w = kem_keys X w'" using assms by (simp add: fun_eq_iff kem_keys_def wallet_account_def)
  then show ?thesis by (induction as) (simp_all only: recover_loop.simps)
qed

lemma try_recover_cong:
  assumes "wf_master_sk w = wf_master_sk w'" "wf_addresses w = wf_addresses w'"
  shows "try_recover_note X w = try_recover_note X w'"
proof (rule ext)
  fix nm
  have "wallet_account X w = wallet_account X w'" using assms(1) by (simp add: wallet_account_def)
  then show "try_recover_note X w nm = try_recover_note X w' nm"
    unfolding try_recover_note_def using assms(2) recover_loop_cong [OF assms(1)] by metis
qed

lemma recover_note_for_address_Some:
  assumes "recover_note_for_address X acc addr v rseed cm i = Some n"
  shows "nt_cm n = cm" "nt_index n = i" "nt_v n = v" "nt_rseed n = rseed" "nt_addr_index n = wa_index addr"
    "nt_d_j n = wa_d_j addr" "nt_auth_root n = wa_auth_root addr"
    "nt_nk_spend n = derive_nk_spend X (acc_nk acc) (wa_d_j addr)" "nt_nk_tag n = derive_nk_tag X (nt_nk_spend n)"
    "commit X (wa_d_j addr) v (derive_rcm X rseed) (owner_tag X (wa_auth_root addr) (wa_auth_pub_seed addr) (nt_nk_tag n)) = cm"
  using assms by (auto simp: recover_note_for_address_def Let_def split: if_splits)

section \<open>Batches\<close>

lemma map_res_append:
  "map_res f (xs @ ys) = attempt (map_res f xs) (\<lambda>as. attempt (map_res f ys) (\<lambda>bs. Inr (as @ bs)))"
proof (induction xs)
  case Nil
  then show ?case by (cases "map_res f ys") simp_all
next
  case (Cons x xs)
  then show ?case
    by (cases "f x"; cases "map_res f xs"; cases "map_res f ys") simp_all
qed

lemma merge_recovered_append:
  "merge_recovered known (xs @ ys)
   = merge_recovered known xs @ merge_recovered (known \<union> note_key ` set (merge_recovered known xs)) ys"
  by (induction known xs rule: merge_recovered.induct) (simp_all add: Un_commute insert_commute)

text \<open>Processing batches one after the other, adding up the notes found.\<close>

fun sync_batches ::
  "'x ext_scheme \<Rightarrow> notes_feed list \<Rightarrow> WalletFile \<times> felt list \<Rightarrow> (nat \<times> WalletFile \<times> felt list) res" where
  "sync_batches X [] s = Inr (0, s)"
| "sync_batches X (feed # feeds) s =
     attempt (apply_scan_feed_recover_batch X feed s) (\<lambda>(found, s').
     attempt (sync_batches X feeds s') (\<lambda>(found', s'').
     Inr (found + found', s'')))"

lemma sync_batches_eq:
  assumes "feeds \<noteq> []"
  shows "sync_batches X feeds (w, seen)
    = attempt (map_res (try_recover_note X w) (concat (map nf_notes feeds))) (\<lambda>recovered.
        let pushed = merge_recovered (set (map note_key (wf_notes w))) recovered
        in Inr (length pushed,
             w\<lparr>wf_notes := wf_notes w @ pushed, wf_scanned := nf_next_cursor (last feeds)\<rparr>,
             seen @ map nm_cm (concat (map nf_notes feeds))))"
  using assms
proof (induction feeds arbitrary: w seen)
  case (Cons feed feeds)
  let ?f = "try_recover_note X w"
  show ?case
  proof (cases "map_res ?f (nf_notes feed)")
    case (Inl e)
    then show ?thesis by (simp add: apply_scan_feed_recover_batch_def map_res_append)
  next
    case (Inr recovered)
    let ?p = "merge_recovered (set (map note_key (wf_notes w))) recovered"
    let ?w = "w\<lparr>wf_notes := wf_notes w @ ?p, wf_scanned := nf_next_cursor feed\<rparr>"
    have b: "apply_scan_feed_recover_batch X feed (w, seen) = Inr (length ?p, ?w, seen @ map nm_cm (nf_notes feed))"
      using Inr by (simp add: apply_scan_feed_recover_batch_def Let_def)
    have f: "try_recover_note X ?w = ?f" by (rule try_recover_cong) simp_all
    show ?thesis
    proof (cases "feeds = []")
      case True
      then show ?thesis using b Inr by (simp add: Let_def)
    next
      case False
      have m: "merge_recovered (set (map note_key (wf_notes w))) (recovered @ rs)
          = ?p @ merge_recovered (set (map note_key (wf_notes ?w))) rs" for rs
        by (simp add: merge_recovered_append image_Un)
      define w' where "w' = ?w"
      note IH = Cons.IH [OF False, of w' "seen @ map nm_cm (nf_notes feed)"]
      have f': "try_recover_note X w' = ?f" and u: "w'\<lparr>wf_notes := x, wf_scanned := y\<rparr> = w\<lparr>wf_notes := x, wf_scanned := y\<rparr>"
        and n: "wf_notes w' = wf_notes w @ ?p" for x y
        using f by (simp_all add: w'_def)
      show ?thesis
        using b IH Inr False m [folded w'_def] unfolding w'_def [symmetric] f'
        by (cases "map_res ?f (concat (map nf_notes feeds))") (simp_all add: map_res_append Let_def u n)
    qed
  qed
qed simp

section \<open>Absorbing a feed\<close>

lemma absorb_sound:
  assumes "absorb key rf known ns = Inr rs"
  shows "distinct (map key rs)" "key ` set rs \<inter> known = {}"
    "\<And>r. r \<in> set rs \<Longrightarrow> \<exists>nm \<in> set ns. rf nm = Inr (Some r)"
    "\<And>nm r. nm \<in> set ns \<Longrightarrow> rf nm = Inr (Some r) \<Longrightarrow> key r \<in> known \<union> key ` set rs"
proof -
  have "distinct (map key rs) \<and> key ` set rs \<inter> known = {} \<and> (\<forall>r \<in> set rs. \<exists>nm \<in> set ns. rf nm = Inr (Some r))
      \<and> (\<forall>nm \<in> set ns. \<forall>r. rf nm = Inr (Some r) \<longrightarrow> key r \<in> known \<union> key ` set rs)"
    using assms
  proof (induction ns arbitrary: known rs)
    case (Cons nm ns)
    then obtain found where found: "rf nm = Inr found" by (cases "rf nm") auto
    show ?case
    proof (cases "\<exists>r. found = Some r \<and> key r \<notin> known")
      case True
      then obtain r where r: "found = Some r" "key r \<notin> known" by blast
      then obtain rs' where rs': "absorb key rf (insert (key r) known) ns = Inr rs'" "rs = r # rs'"
        using Cons.prems found by (auto simp: res_simps)
      from Cons.IH [OF rs'(1)] show ?thesis using r found rs'(2) by fastforce
    next
      case False
      then have "absorb key rf known ns = Inr rs" using Cons.prems found by (auto split: option.splits if_splits)
      from Cons.IH [OF this] show ?thesis using False found by auto
    qed
  qed simp
  then show "distinct (map key rs)" "key ` set rs \<inter> known = {}"
    "\<And>r. r \<in> set rs \<Longrightarrow> \<exists>nm \<in> set ns. rf nm = Inr (Some r)"
    "\<And>nm r. nm \<in> set ns \<Longrightarrow> rf nm = Inr (Some r) \<Longrightarrow> key r \<in> known \<union> key ` set rs"
    by blast+
qed

lemma absorb_known:
  assumes "absorb key rf known ns = Inr rs" "known \<union> key ` set rs \<subseteq> known'"
  shows "absorb key rf known' ns = Inr []"
proof -
  have "absorb key rf k ns = Inr []"
    if "\<And>nm. nm \<in> set ns \<Longrightarrow> \<exists>f. rf nm = Inr f \<and> (\<forall>r. f = Some r \<longrightarrow> key r \<in> k)" for k
    using that
  proof (induction ns)
    case (Cons nm ns)
    then obtain f where "rf nm = Inr f" "\<forall>r. f = Some r \<longrightarrow> key r \<in> k" by (meson list.set_intros(1))
    then show ?case using Cons by (cases f) auto
  qed simp
  moreover have "\<exists>f. rf nm = Inr f" if "nm \<in> set ns" for nm
    using assms(1) that
  proof (induction ns arbitrary: known rs)
    case (Cons a ns)
    then show ?case
      by (cases "rf a") (auto simp: res_simps split: option.splits if_splits)
  qed simp
  ultimately show ?thesis
  proof -
    assume all: "\<And>k. (\<And>nm. nm \<in> set ns \<Longrightarrow> \<exists>f. rf nm = Inr f \<and> (\<forall>r. f = Some r \<longrightarrow> key r \<in> k)) \<Longrightarrow> absorb key rf k ns = Inr []"
      and ok: "\<And>nm. nm \<in> set ns \<Longrightarrow> \<exists>f. rf nm = Inr f"
    show ?thesis
    proof (rule all)
      fix nm assume nm: "nm \<in> set ns"
      obtain f where f: "rf nm = Inr f" using ok [OF nm] by blast
      have "key r \<in> known'" if "f = Some r" for r
        using absorb_sound(4) [OF assms(1) nm, of r] f that assms(2) by auto
      with f show "\<exists>f. rf nm = Inr f \<and> (\<forall>r. f = Some r \<longrightarrow> key r \<in> known')" by blast
    qed
  qed
qed

fun watch_keys :: "WatchWalletFile \<Rightarrow> (nat \<times> felt) list" where
  "watch_keys (WatchDetect _ _ _ _ matches) = map dr_key matches"
| "watch_keys (WatchView _ _ _ _ ns) = map vr_key ns"
| "watch_keys (WatchOutgoing _ _ _ ns) = map og_key ns"

text \<open>Absorbing a feed into the records of a wallet, and absorbing it again.\<close>

lemma absorb_twice:
  assumes "absorb key rf (set (map key ms)) ns = Inr rs" "distinct (map key ms)"
  shows "distinct (map key (ms @ rs))" "absorb key rf (set (map key (ms @ rs))) ns = Inr []"
  using absorb_sound(1,2) [OF assms(1)] absorb_known [OF assms(1)] assms(2) by auto

section \<open>Keys of a session\<close>

definition view_fields :: "ViewedNoteRecord \<Rightarrow> nat \<times> u32 \<times> felt \<times> u64" where
  "view_fields r = (vr_index r, vr_addr_index r, vr_cm r, vr_value r)"

definition spend_fields :: "wallet_note \<Rightarrow> nat \<times> u32 \<times> felt \<times> u64" where
  "spend_fields n = (nt_index n, nt_addr_index n, nt_cm n, nt_v n)"

definition fields_res :: "('r \<Rightarrow> 'f) \<Rightarrow> 'r option res \<Rightarrow> 'f option res" where
  "fields_res f r = attempt r (\<lambda>found. Inr (map_option f found))"

lemma fields_res_simps [simp]:
  "fields_res f (Inl e) = Inl e" "fields_res f (Inr found) = Inr (map_option f found)"
  by (simp_all add: fields_res_def)

lemma watch_address_sel [simp]:
  "wr_index (watch_address_from a) = wa_index a" "wr_d_j (watch_address_from a) = wa_d_j a"
  "wr_auth_root (watch_address_from a) = wa_auth_root a"
  "wr_auth_pub_seed (watch_address_from a) = wa_auth_pub_seed a" "wr_nk_tag (watch_address_from a) = wa_nk_tag a"
  by (simp_all add: watch_address_from_def)

lemma fields_eqs:
  "view_fields \<lparr>vr_index = i, vr_addr_index = j, vr_cm = cm, vr_value = v, vr_memo = m\<rparr> = (i, j, cm, v)"
  "spend_fields \<lparr>nt_nk_spend = nk, nt_nk_tag = tg, nt_auth_root = ar, nt_d_j = d, nt_v = v, nt_rseed = rs,
     nt_cm = cm, nt_index = i, nt_addr_index = j\<rparr> = (i, j, cm, v)"
  by (simp_all add: view_fields_def spend_fields_def)

text \<open>An address record whose tag is the one its diversifier determines under the account's key.\<close>

definition tagged :: "'x ext_scheme \<Rightarrow> account \<Rightarrow> WalletAddressState \<Rightarrow> bool" where
  "tagged X acc a \<longleftrightarrow> wa_nk_tag a = derive_nk_tag X (derive_nk_spend X (acc_nk acc) (wa_d_j a))"

lemma view_agrees_loop:
  assumes "\<And>a. a \<in> set as \<Longrightarrow> tagged X acc a"
  shows "fields_res view_fields (view_record_for_note X (acc_incoming_seed (wallet_account X w)) (map watch_address_from as) nm)
    = fields_res spend_fields (recover_loop X w acc nm as)"
  using assms
proof (induction as)
  case (Cons a as)
  then have IH: "fields_res view_fields (view_record_for_note X (acc_incoming_seed (wallet_account X w)) (map watch_address_from as) nm)
      = fields_res spend_fields (recover_loop X w acc nm as)"
    and tag: "wa_nk_tag a = derive_nk_tag X (derive_nk_spend X (acc_nk acc) (wa_d_j a))"
    by (simp_all add: tagged_def)
  obtain ek_v dk_v ek_d dk_d where k: "kem_keys X w (wa_index a) = (ek_v, dk_v, ek_d, dk_d)"
    by (cases "kem_keys X w (wa_index a)")
  then have k': "derive_kem_keys X (acc_incoming_seed (wallet_account X w)) (wa_index a) = (ek_v, dk_v, ek_d, dk_d)"
    by (simp add: kem_keys_def)
  show ?case
  proof (cases "detect X (nm_enc nm) dk_d")
    case (Inl e)
    then show ?thesis by (simp add: k k')
  next
    case (Inr detected)
    note d = this
    show ?thesis
    proof (cases "decrypt_memo X (nm_enc nm) dk_v")
      case (Inl e)
      then show ?thesis using d IH by (cases detected) (simp_all add: k k')
    next
      case (Inr opened)
      then show ?thesis
        using d IH
        by (cases detected; cases opened)
          (auto simp: k k' tag recover_note_for_address_def Let_def fields_eqs)
    qed
  qed
qed simp

lemma wallet_at_tagged:
  assumes "wallet_at X sk ns w" "a \<in> set (wf_addresses w)"
  shows "tagged X (wallet_account X w) a"
proof -
  obtain i where i: "i < length (wf_addresses w)" "a = wf_addresses w ! i" using assms(2) by (metis in_set_conv_nth)
  then have "i < length ns" using wallet_at_length [OF assms(1)] by simp
  from wallet_at_address [OF assms(1) this] i assms(1) show ?thesis
    by (simp add: address_at_def tagged_def wallet_account_def wallet_at_def Let_def)
qed

definition sample_memo :: note_memo where
  "sample_memo = \<lparr>nm_index = 0, nm_cm = ZERO, nm_enc = sample_note\<rparr>"

section \<open>Properties\<close>

text \<open>
  C28: synchronising in batches is the same as synchronising at once. Recovering the notes batch by
  batch and finalising with the commitments seen gives the wallet and, with the notes found added
  up, the summary of one scan of the whole feed; a panic of the one is the panic of the other.
\<close>

theorem batched_sync_equals_single:
  assumes "feeds \<noteq> []"
  shows "attempt (sync_batches X feeds (w, [])) (\<lambda>(found, w', seen_cms).
           case apply_scan_feed_finalize X seen_cms nullifiers pool_balances w' of
             (s, w'') \<Rightarrow> Inr (s\<lparr>ssum_found := found\<rparr>, w''))
         = apply_scan_feed X \<lparr>nf_notes = concat (map nf_notes feeds), nf_next_cursor = nf_next_cursor (last feeds)\<rparr>
             nullifiers pool_balances w"
proof (cases "map_res (try_recover_note X w) (concat (map nf_notes feeds))")
  case (Inl e)
  then show ?thesis using sync_batches_eq [OF assms, of X w "[]"] by (simp add: apply_scan_feed_def)
next
  case (Inr recovered)
  then show ?thesis
    using sync_batches_eq [OF assms, of X w "[]"]
    by (simp add: apply_scan_feed_def apply_scan_feed_finalize_def Let_def)
qed

theorem batched_sync_equals_single_witness:
  "attempt (sync_batches sample_ext [\<lparr>nf_notes = [], nf_next_cursor = 1\<rparr>, \<lparr>nf_notes = [], nf_next_cursor = 2\<rparr>]
       (new_wallet sample_ext ZERO None, [])) (\<lambda>(found, w', seen_cms).
     case apply_scan_feed_finalize sample_ext seen_cms [] Map.empty w' of
       (s, w'') \<Rightarrow> Inr (s\<lparr>ssum_found := found\<rparr>, w''))
   = apply_scan_feed sample_ext \<lparr>nf_notes = [], nf_next_cursor = 2\<rparr> [] Map.empty (new_wallet sample_ext ZERO None)"
  using batched_sync_equals_single
    [of "[\<lparr>nf_notes = [], nf_next_cursor = 1\<rparr>, \<lparr>nf_notes = [], nf_next_cursor = 2\<rparr>]" sample_ext
       "new_wallet sample_ext ZERO None" "[]" Map.empty]
  by simp

text \<open>
  C29: a viewing wallet sees what the spending wallet recovers. After any session from a new wallet,
  the exported viewing material finds, for every note, a record exactly when the spending wallet
  recovers the note, with the same index, address, commitment and value.
\<close>

theorem view_wallet_sees_recovered_notes:
  assumes "length ops < 2 ^ 32"
  shows "case run_ops (wallet_step X) ops (new_wallet X sk t) of (_, w) \<Rightarrow>
         (case from_material (from_view_wallet X w) of
            WatchView version incoming_seed addresses scanned ns \<Rightarrow>
              scanned = 0 \<and> ns = []
              \<and> fields_res view_fields (view_record_for_note X incoming_seed addresses nm)
                = fields_res spend_fields (try_recover_note X w nm)
          | _ \<Rightarrow> False)"
proof -
  obtain r w where run: "run_ops (wallet_step X) ops (new_wallet X sk t) = (r, w)"
    by (cases "run_ops (wallet_step X) ops (new_wallet X sk t)")
  from wk.run_ok [OF new_wallet_at, of ops X sk t] assms run obtain ns where
    ns: "wallet_at X sk ns w" by auto
  show ?thesis
    using view_agrees_loop [of "wf_addresses w" X "wallet_account X w" w nm] wallet_at_tagged [OF ns]
    by (simp add: run from_view_wallet_def try_recover_note_def)
qed

theorem view_wallet_sees_recovered_notes_witness:
  "case run_ops (wallet_step sample_ext) [OpNextAddress] (new_wallet sample_ext ZERO None) of (_, w) \<Rightarrow>
   (case from_material (from_view_wallet sample_ext w) of
      WatchView version incoming_seed addresses scanned ns \<Rightarrow>
        scanned = 0 \<and> ns = []
        \<and> fields_res view_fields (view_record_for_note sample_ext incoming_seed addresses sample_memo)
          = fields_res spend_fields (try_recover_note sample_ext w sample_memo)
    | _ \<Rightarrow> False)"
  using view_wallet_sees_recovered_notes [where ops = "[OpNextAddress]" and X = sample_ext and sk = ZERO and t = None and nm = sample_memo]
  by simp

text \<open>
  Watching a feed twice changes nothing. The records of a watch-only wallet with distinct keys
  keep distinct keys, and applying the same feed again finds nothing and leaves the wallet as it is.
\<close>

theorem watch_feed_idempotent:
  assumes "apply_watch_feed X watch feed = Inr (s, watch')" "distinct (watch_keys watch)"
  shows "distinct (watch_keys watch')
    \<and> apply_watch_feed X watch' feed = Inr (\<lparr>wsy_found = 0, wsy_next_cursor = nf_next_cursor feed\<rparr>, watch')"
proof (cases watch)
  case (WatchDetect version root count scanned ms)
  with assms obtain rs where "absorb dr_key (detect_record_for_note X root count) (set (map dr_key ms)) (nf_notes feed) = Inr rs"
    "watch' = WatchDetect version root count (nf_next_cursor feed) (ms @ rs)" "distinct (map dr_key ms)"
    by (auto simp: res_simps)
  with absorb_twice [OF this(1,3)] show ?thesis by simp
next
  case (WatchView version seed addresses scanned ms)
  with assms obtain rs where "absorb vr_key (view_record_for_note X seed addresses) (set (map vr_key ms)) (nf_notes feed) = Inr rs"
    "watch' = WatchView version seed addresses (nf_next_cursor feed) (ms @ rs)" "distinct (map vr_key ms)"
    by (auto simp: res_simps)
  with absorb_twice [OF this(1,3)] show ?thesis by simp
next
  case (WatchOutgoing version seed scanned ms)
  with assms obtain rs where "absorb og_key (\<lambda>nm. Inr (outgoing_record_for_note X seed nm)) (set (map og_key ms)) (nf_notes feed) = Inr rs"
    "watch' = WatchOutgoing version seed (nf_next_cursor feed) (ms @ rs)" "distinct (map og_key ms)"
    by (auto simp: res_simps)
  with absorb_twice [OF this(1,3)] show ?thesis by simp
qed

theorem watch_feed_idempotent_witness:
  "apply_watch_feed sample_ext (WatchOutgoing 1 ZERO 7 []) \<lparr>nf_notes = [], nf_next_cursor = 7\<rparr>
   = Inr (\<lparr>wsy_found = 0, wsy_next_cursor = 7\<rparr>, WatchOutgoing 1 ZERO 7 [])"
  using watch_feed_idempotent
    [of sample_ext "WatchOutgoing 1 ZERO 3 []" "\<lparr>nf_notes = [], nf_next_cursor = 7\<rparr>"
        "\<lparr>wsy_found = 0, wsy_next_cursor = 7\<rparr>" "WatchOutgoing 1 ZERO 7 []"]
  by simp

end
