(* ===== verification/WalletNotes.thy ===== *)
theory WalletNotes
  imports WalletSync
begin

text \<open>
  Output notes built by the wallet (\<open>build_output_note_inner\<close> and the functions around it in
  \<open>apps/wallet/src/lib.rs\<close>): the commitment, the sealed note with the sender's recovery
  ciphertext, and the hash a proof binds. The random bytes of a call are an argument, and so is the
  validity check of \<open>EncapsulationKey::new\<close>. A note built for an address reaches both sides.
\<close>

section \<open>Building notes\<close>

record PreparedOutputNote =
  po_cm :: felt
  po_enc :: encrypted_note
  po_mh :: felt
  po_rseed :: felt

text \<open>The bytes one note draws: for its seed, for the detection and for the viewing ephemeral.\<close>

type_synonym draw = "bytes \<times> bytes \<times> bytes"

definition outgoing_plaintext ::
  "payment_address \<Rightarrow> outgoing_note_role \<Rightarrow> u64 \<Rightarrow> felt \<Rightarrow> outgoing_recovery_plaintext" where
  "outgoing_plaintext address role v rseed =
     \<lparr>or_role = role, or_value = v, or_rseed = rseed, or_d_j = pa_d_j address,
      or_auth_root = pa_auth_root address, or_auth_pub_seed = pa_auth_pub_seed address,
      or_nk_tag = pa_nk_tag address\<rparr>"

definition build_output_note_inner ::
  "'x ext_scheme \<Rightarrow> (bytes \<Rightarrow> bool) \<Rightarrow> draw \<Rightarrow> payment_address \<Rightarrow> u64 \<Rightarrow> bytes option
   \<Rightarrow> (felt \<times> outgoing_note_role) option \<Rightarrow> PreparedOutputNote res" where
  "build_output_note_inner X ek_new rng address v memo outgoing =
     (let (seed_random, detect_random, view_random) = rng;
          rseed = random_felt seed_random;
          rcm = derive_rcm X rseed
      in
      attempt (guard (length (pa_ek_v address) = ML_KEM768_ENCAPSULATION_KEY_BYTES) ''bad ek_v'') (\<lambda>_.
      attempt (guard (ek_new (pa_ek_v address)) ''invalid ek_v'') (\<lambda>_.
      attempt (guard (length (pa_ek_d address) = ML_KEM768_ENCAPSULATION_KEY_BYTES) ''bad ek_d'') (\<lambda>_.
      attempt (guard (ek_new (pa_ek_d address)) ''invalid ek_d'') (\<lambda>_.
      let otag = owner_tag X (pa_auth_root address) (pa_auth_pub_seed address) (pa_nk_tag address);
          cm = commit X (pa_d_j address) v rcm otag
      in
      attempt (encrypt_note X False detect_random view_random v rseed memo (pa_ek_v address) (pa_ek_d address)) (\<lambda>enc.
      attempt (case outgoing of
                 None \<Rightarrow> Inr enc
               | Some (outgoing_seed, role) \<Rightarrow>
                   let recovery = outgoing_plaintext address role v rseed in
                   attempt (encrypt_outgoing_recovery X outgoing_seed cm recovery) (\<lambda>ct.
                   Inr (enc\<lparr>en_outgoing_ct := ct\<rparr>))) (\<lambda>enc.
      let mh = memo_ct_hash X enc in
      Inr \<lparr>po_cm = cm, po_enc = enc, po_mh = mh, po_rseed = rseed\<rparr>)))))))"

definition build_output_note_with_outgoing ::
  "'x ext_scheme \<Rightarrow> (bytes \<Rightarrow> bool) \<Rightarrow> draw \<Rightarrow> payment_address \<Rightarrow> u64 \<Rightarrow> bytes option
   \<Rightarrow> felt \<Rightarrow> outgoing_note_role \<Rightarrow> PreparedOutputNote res" where
  "build_output_note_with_outgoing X ek_new rng address v memo outgoing_seed role =
     build_output_note_inner X ek_new rng address v memo (Some (outgoing_seed, role))"

section \<open>Laws of the encapsulation keys\<close>

text \<open>
  Key generation gives encapsulation keys of the fixed size that \<open>EncapsulationKey::new\<close> accepts,
  and decapsulation with a generated key never fails on a ciphertext of the fixed size.
\<close>

definition kem_key_laws :: "'x ext_scheme \<Rightarrow> (bytes \<Rightarrow> bool) \<Rightarrow> bool" where
  "kem_key_laws X ek_new \<longleftrightarrow>
     (\<forall>seed ek dk. kem_keygen X seed = (ek, dk) \<longrightarrow>
        length ek = 1184 \<and> ek_new ek \<and> (\<forall>ct. length ct = 1088 \<longrightarrow> kem_decapsulate X dk ct \<noteq> None))"

definition note_laws :: "'x ext_scheme \<Rightarrow> (bytes \<Rightarrow> bool) \<Rightarrow> bool" where
  "note_laws X ek_new \<longleftrightarrow> blake_laws X \<and> aead_laws X \<and> kem_laws X \<and> kem_key_laws X ek_new"

lemma note_lawsD:
  assumes "note_laws X ek_new"
  shows "blake_laws X" "aead_laws X" "kem_laws X" "kem_key_laws X ek_new"
  using assms by (simp_all add: note_laws_def)

text \<open>An address whose keys come from key generation and whose other fields are field elements.\<close>

definition address_sound :: "'x ext_scheme \<Rightarrow> payment_address \<Rightarrow> bytes \<Rightarrow> bytes \<Rightarrow> bool" where
  "address_sound X a dk_v dk_d \<longleftrightarrow>
     (\<exists>seed. kem_keygen X seed = (pa_ek_v a, dk_v)) \<and> (\<exists>seed. kem_keygen X seed = (pa_ek_d a, dk_d))
     \<and> is_felt (pa_d_j a) \<and> is_felt (pa_auth_root a) \<and> is_felt (pa_auth_pub_seed a) \<and> is_felt (pa_nk_tag a)"

section \<open>A note that is built is found\<close>

lemma is_felt_random: "length bs = 32 \<Longrightarrow> is_felt (random_felt bs)"
  by (simp add: random_felt_def is_felt251_felt is_felt251_trunc251)

lemma opening_ignores_outgoing:
  "detect X (enc\<lparr>en_outgoing_ct := ct\<rparr>) dk = detect X enc dk"
  "decrypt_memo X (enc\<lparr>en_outgoing_ct := ct\<rparr>) dk = decrypt_memo X enc dk"
proof -
  show "detect X (enc\<lparr>en_outgoing_ct := ct\<rparr>) dk = detect X enc dk" by (simp add: detect_def)
  have sel: "en_ct_v (enc\<lparr>en_outgoing_ct := ct\<rparr>) = en_ct_v enc" "en_nonce (enc\<lparr>en_outgoing_ct := ct\<rparr>) = en_nonce enc"
    "en_encrypted_data (enc\<lparr>en_outgoing_ct := ct\<rparr>) = en_encrypted_data enc" by simp_all
  show "decrypt_memo X (enc\<lparr>en_outgoing_ct := ct\<rparr>) dk = decrypt_memo X enc dk" unfolding decrypt_memo_def sel by (rule refl)
qed

lemma build_output_note:
  assumes laws: "note_laws X ek_new" and rng: "length (fst rng) = 32" and a: "address_sound X a dk_v dk_d"
  obtains n where
    "build_output_note_with_outgoing X ek_new rng a v memo seed role = Inr n"
    "po_rseed n = random_felt (fst rng)" "note_validate (po_enc n) = Inr ()" "po_mh n = memo_ct_hash X (po_enc n)"
    "po_cm n = commit X (pa_d_j a) v (derive_rcm X (po_rseed n))
                 (owner_tag X (pa_auth_root a) (pa_auth_pub_seed a) (pa_nk_tag a))"
    "detect X (po_enc n) dk_d = Inr True"
    "decrypt_memo X (po_enc n) dk_v = Inr (Some (v, po_rseed n, pad_memo memo))"
    "decrypt_outgoing_recovery X seed (po_cm n) (en_outgoing_ct (po_enc n))
     = Some (outgoing_plaintext a role v (po_rseed n))"
proof -
  note X = note_lawsD [OF laws]
  obtain s de ve where r: "rng = (s, de, ve)" by (cases rng)
  let ?rs = "random_felt s"
  let ?cm = "commit X (pa_d_j a) v (derive_rcm X ?rs) (owner_tag X (pa_auth_root a) (pa_auth_pub_seed a) (pa_nk_tag a))"
  have rs: "is_felt ?rs" using rng r by (simp add: is_felt_random)
  obtain sv sd where k: "kem_keygen X sv = (pa_ek_v a, dk_v)" "kem_keygen X sd = (pa_ek_d a, dk_d)"
    using a by (auto simp: address_sound_def)
  have ek: "length (pa_ek_v a) = 1184" "ek_new (pa_ek_v a)" "length (pa_ek_d a) = 1184" "ek_new (pa_ek_d a)"
    using X(4) k unfolding kem_key_laws_def by blast+
  obtain enc where enc: "encrypt_note_deterministic X v ?rs memo (pa_ek_v a) (pa_ek_d a) de ve = Inr enc"
    "note_validate enc = Inr ()" "detect X enc dk_d = Inr True"
    "decrypt_memo X enc dk_v = Inr (Some (v, ?rs, pad_memo memo))"
    by (rule sealed_note_opens [OF X(1-3) rs k])
  have ok: "or_ok (outgoing_plaintext a role v ?rs)"
    using a rs by (simp add: or_ok_def outgoing_plaintext_def address_sound_def)
  obtain ct where ct: "encrypt_outgoing_recovery X seed ?cm (outgoing_plaintext a role v ?rs) = Inr ct"
    "length ct = OUTGOING_RECOVERY_CT_BYTES"
    "decrypt_outgoing_recovery X seed ?cm ct = Some (outgoing_plaintext a role v ?rs)"
    using outgoing_recovery_decrypts [OF X(1,2) ok, of seed ?cm] by blast
  let ?enc = "enc\<lparr>en_outgoing_ct := ct\<rparr>"
  let ?n = "\<lparr>po_cm = ?cm, po_enc = ?enc, po_mh = memo_ct_hash X ?enc, po_rseed = ?rs\<rparr>"
  have "build_output_note_with_outgoing X ek_new rng a v memo seed role = Inr ?n"
    using ek enc(1) ct(1)
    by (simp add: r build_output_note_with_outgoing_def build_output_note_inner_def encrypt_note_def Let_def
        ML_KEM768_ENCAPSULATION_KEY_BYTES_def guard_def)
  moreover have "note_validate ?enc = Inr ()" using enc(2) ct(2) by (simp add: note_validate_iff note_sizes)
  ultimately show ?thesis
    using enc(3,4) ct(3) rng r by (intro that [of ?n]) (simp_all add: opening_ignores_outgoing)
qed

text \<open>Opening a well-formed note with a generated key never panics.\<close>

lemma opening_total:
  assumes "kem_key_laws X ek_new" "note_validate enc = Inr ()"
  shows "kem_keygen X seed = (ek, dk) \<Longrightarrow> \<exists>b. detect X enc dk = Inr b"
    "\<exists>opened. decrypt_memo X enc dk = Inr opened"
proof -
  show "\<exists>opened. decrypt_memo X enc dk = Inr opened"
    using assms(2) by (auto simp: decrypt_memo_def note_validate_iff note_sizes Let_def split: option.split)
  show "\<exists>b. detect X enc dk = Inr b" if "kem_keygen X seed = (ek, dk)"
  proof -
    have "kem_decapsulate X dk (en_ct_d enc) \<noteq> None"
      using assms that unfolding kem_key_laws_def by (simp add: note_validate_iff)
    then show ?thesis by (auto simp: detect_def unwrap_def)
  qed
qed

lemma kem_keys_generated:
  assumes "kem_keys X w j = (ek_v, dk_v, ek_d, dk_d)"
  shows "\<exists>seed. kem_keygen X seed = (ek_v, dk_v)" "\<exists>seed. kem_keygen X seed = (ek_d, dk_d)"
  using assms by (auto simp: kem_keys_def derive_kem_keys_def kem_keygen_from_seed_def Let_def split: prod.splits)

definition opens_at ::
  "'x ext_scheme \<Rightarrow> felt \<Rightarrow> u64 \<Rightarrow> felt \<Rightarrow> WalletAddressState \<Rightarrow> bool" where
  "opens_at X cm v rseed a \<longleftrightarrow>
     commit X (wa_d_j a) v (derive_rcm X rseed) (owner_tag X (wa_auth_root a) (wa_auth_pub_seed a) (wa_nk_tag a)) = cm"

lemma recover_opens_at:
  assumes "tagged X acc a"
  shows "recover_note_for_address X acc a v rseed cm i = Some n \<Longrightarrow> opens_at X cm (nt_v n) (nt_rseed n) a"
    "opens_at X cm v rseed a \<Longrightarrow> \<exists>n. recover_note_for_address X acc a v rseed cm i = Some n"
  using assms by (auto simp: recover_note_for_address_def opens_at_def tagged_def Let_def split: if_splits)

lemma recover_loop_finds:
  assumes law: "kem_key_laws X ek_new" and valid: "note_validate enc = Inr ()"
    and tag: "\<And>a. a \<in> set as \<Longrightarrow> tagged X acc a"
    and j: "j < length as" and k: "kem_keys X w (wa_index (as ! j)) = (ek_v, dk_v, ek_d, dk_d)"
    and found: "detect X enc dk_d = Inr True" "decrypt_memo X enc dk_v = Inr (Some (v, rseed, memo))"
      "opens_at X cm v rseed (as ! j)"
  shows "\<exists>n. recover_loop X w acc \<lparr>nm_index = i, nm_cm = cm, nm_enc = enc\<rparr> as = Inr (Some n)
           \<and> nt_index n = i \<and> nt_cm n = cm
           \<and> (nt_addr_index n = wa_index (as ! j) \<and> nt_v n = v \<and> nt_rseed n = rseed
              \<or> (\<exists>a \<in> set (take j as). opens_at X cm (nt_v n) (nt_rseed n) a))"
  using tag j k found
proof (induction as arbitrary: j)
  case (Cons a as)
  let ?nm = "\<lparr>nm_index = i, nm_cm = cm, nm_enc = enc\<rparr>"
  obtain ek_v' dk_v' ek_d' dk_d' where ka: "kem_keys X w (wa_index a) = (ek_v', dk_v', ek_d', dk_d')"
    by (cases "kem_keys X w (wa_index a)")
  obtain seed where "kem_keygen X seed = (ek_d', dk_d')" using kem_keys_generated(2) [OF ka] by blast
  then obtain b where b: "detect X enc dk_d' = Inr b" using opening_total(1) [OF law valid] by blast
  obtain opened where o: "decrypt_memo X enc dk_v' = Inr opened" using opening_total(2) [OF law valid] by blast
  have ta: "tagged X acc a" using Cons.prems(1) by simp
  let ?here = "\<exists>v r m n. b \<and> opened = Some (v, r, m) \<and> recover_note_for_address X acc a v r cm i = Some n"
  show ?case
  proof (cases ?here)
    case True
    then obtain v' r m n where n: b "opened = Some (v', r, m)" "recover_note_for_address X acc a v' r cm i = Some n" by blast
    have run: "recover_loop X w acc ?nm (a # as) = Inr (Some n)" using n b o by (simp add: ka)
    note sel = recover_note_for_address_Some [OF n(3)]
    show ?thesis
    proof (cases j)
      case 0
      then have "v' = v" "r = rseed" using Cons.prems(3,5) ka o n(2) by simp_all
      then show ?thesis using run sel 0 by simp
    next
      case (Suc k)
      then show ?thesis using run sel recover_opens_at(1) [OF ta n(3)] by auto
    qed
  next
    case False
    then have skip: "recover_loop X w acc ?nm (a # as) = recover_loop X w acc ?nm as"
      using b o by (auto simp: ka split: option.split)
    obtain k where j: "j = Suc k"
      using False Cons.prems(3-6) ka b o recover_opens_at(2) [OF ta, of cm v rseed i]
      by (cases j) auto
    show ?thesis using Cons.IH [of k] Cons.prems j unfolding skip by auto
  qed
qed simp

section \<open>Addresses of a session\<close>

lemma length_inner_node: "blake_laws X \<Longrightarrow> 0 < h \<Longrightarrow> length (xmss_node X ask_j h i) = 32"
  by (cases h) (simp_all add: xmss_tree_node_hash_def xmss_node_hash_def Let_def)

lemma wallet_at_address_sound:
  assumes "blake_laws X" "wallet_at X sk ns w" "j < length ns"
    and k: "kem_keys X w (wa_index (wf_addresses w ! j)) = (ek_v, dk_v, ek_d, dk_d)"
  shows "address_sound X (address_payment_address (wf_addresses w ! j) ek_v ek_d) dk_v dk_d"
proof -
  note a = wallet_at_address [OF assms(2,3)]
  show ?thesis
    using a kem_keys_generated [OF k] assms(1)
    by (simp add: address_sound_def address_payment_address_def address_at_def is_felt_def derive_address_def
        derive_auth_pub_seed_def derive_nk_tag_def length_inner_node AUTH_bounds(1))
qed

text \<open>The laws can hold: key generation that returns a key of the fixed size.\<close>

definition kem_ext :: ext where
  "kem_ext = sample_ext\<lparr>kem_keygen := (\<lambda>seed. (replicate 1184 0, seed))\<rparr>"

lemma kem_ext_laws: "note_laws kem_ext (\<lambda>_. True)"
proof -
  have "blake_laws kem_ext" "aead_laws kem_ext"
    using sample_blake_laws sample_aead_laws by (simp_all add: kem_ext_def blake_laws_def aead_laws_def)
  moreover have "kem_laws kem_ext" using sample_kem_laws by (simp add: kem_ext_def kem_laws_def sample_ext_def)
  moreover have "kem_key_laws kem_ext (\<lambda>_. True)" by (simp add: kem_ext_def kem_key_laws_def sample_ext_def)
  ultimately show ?thesis by (simp add: note_laws_def)
qed

section \<open>Properties\<close>

text \<open>
  C26: a note sent to an address of a wallet reaches both sides. The note is built without an error
  and passes \<open>validate\<close>; the recipient's wallet recovers a note with its commitment, at the address
  it was sent to with the amount and seed the sender chose, unless the commitment also opens at an
  earlier address of the wallet; and the sender's outgoing wallet reads back role, amount, seed and
  recipient.
\<close>

theorem sent_note_reaches_both_sides:
  assumes "note_laws X ek_new" "length (fst rng) = 32" "length ops < 2 ^ 32"
    and "run_ops (wallet_step X) ops (new_wallet X sk t) = (reserved, w)"
    and "j < length (wf_addresses w)" "a = wf_addresses w ! j" "kem_keys X w (wa_index a) = (ek_v, dk_v, ek_d, dk_d)"
  shows "\<exists>note n. build_output_note_with_outgoing X ek_new rng (address_payment_address a ek_v ek_d) v memo seed role = Inr note
     \<and> note_validate (po_enc note) = Inr ()
     \<and> try_recover_note X w \<lparr>nm_index = i, nm_cm = po_cm note, nm_enc = po_enc note\<rparr> = Inr (Some n)
     \<and> nt_index n = i \<and> nt_cm n = po_cm note
     \<and> (nt_addr_index n = wa_index a \<and> nt_v n = v \<and> nt_rseed n = po_rseed note
        \<or> (\<exists>b \<in> set (take j (wf_addresses w)). opens_at X (po_cm note) (nt_v n) (nt_rseed n) b))
     \<and> outgoing_record_for_note X seed \<lparr>nm_index = i, nm_cm = po_cm note, nm_enc = po_enc note\<rparr>
       = Some \<lparr>og_index = i, og_role = role_as_str role, og_value = v, og_cm = po_cm note, og_rseed = po_rseed note,
               og_d_j = wa_d_j a, og_auth_root = wa_auth_root a, og_auth_pub_seed = wa_auth_pub_seed a,
               og_nk_tag = wa_nk_tag a\<rparr>"
proof -
  from wk.run_ok [OF new_wallet_at, of ops X sk t] assms(3,4) obtain ns where ns: "wallet_at X sk ns w" by auto
  note X = note_lawsD [OF assms(1)]
  have j: "j < length ns" using assms(5) wallet_at_length [OF ns] by simp
  note sound = wallet_at_address_sound [OF X(1) ns j assms(7) [unfolded assms(6)], folded assms(6)]
  obtain n where n: "build_output_note_with_outgoing X ek_new rng (address_payment_address a ek_v ek_d) v memo seed role = Inr n"
    "note_validate (po_enc n) = Inr ()"
    "po_cm n = commit X (pa_d_j (address_payment_address a ek_v ek_d)) v (derive_rcm X (po_rseed n))
       (owner_tag X (pa_auth_root (address_payment_address a ek_v ek_d))
          (pa_auth_pub_seed (address_payment_address a ek_v ek_d)) (pa_nk_tag (address_payment_address a ek_v ek_d)))"
    "detect X (po_enc n) dk_d = Inr True"
    "decrypt_memo X (po_enc n) dk_v = Inr (Some (v, po_rseed n, pad_memo memo))"
    "decrypt_outgoing_recovery X seed (po_cm n) (en_outgoing_ct (po_enc n))
     = Some (outgoing_plaintext (address_payment_address a ek_v ek_d) role v (po_rseed n))"
    by (rule build_output_note [OF assms(1,2) sound])
  have cm: "opens_at X (po_cm n) v (po_rseed n) a"
    using n(3) by (simp add: opens_at_def address_payment_address_def)
  from recover_loop_finds [OF X(4) n(2) wallet_at_tagged [OF ns] assms(5), of w ek_v dk_v ek_d dk_d v "po_rseed n" "pad_memo memo" "po_cm n" i]
  obtain m where m: "try_recover_note X w \<lparr>nm_index = i, nm_cm = po_cm n, nm_enc = po_enc n\<rparr> = Inr (Some m)"
    "nt_index m = i" "nt_cm m = po_cm n"
    "nt_addr_index m = wa_index a \<and> nt_v m = v \<and> nt_rseed m = po_rseed n
     \<or> (\<exists>b \<in> set (take j (wf_addresses w)). opens_at X (po_cm n) (nt_v m) (nt_rseed m) b)"
    using assms(6,7) n(4,5) cm by (auto simp: try_recover_note_def)
  have "outgoing_record_for_note X seed \<lparr>nm_index = i, nm_cm = po_cm n, nm_enc = po_enc n\<rparr>
      = Some \<lparr>og_index = i, og_role = role_as_str role, og_value = v, og_cm = po_cm n, og_rseed = po_rseed n,
              og_d_j = wa_d_j a, og_auth_root = wa_auth_root a, og_auth_pub_seed = wa_auth_pub_seed a,
              og_nk_tag = wa_nk_tag a\<rparr>"
    using n(6) cm
    by (simp add: outgoing_record_for_note_def outgoing_plaintext_def address_payment_address_def or_commitment_def
        opens_at_def)
  with n(1,2) m show ?thesis by blast
qed

theorem sent_note_reaches_both_sides_witness:
  "case next_address kem_ext False (new_wallet kem_ext ZERO None) of (_, w) \<Rightarrow>
   case kem_keys kem_ext w 0 of (ek_v, _, ek_d, _) \<Rightarrow>
   \<exists>note n.
     build_output_note_with_outgoing kem_ext (\<lambda>_. True) (ZERO, [], [])
       (address_payment_address (wf_addresses w ! 0) ek_v ek_d) 5 None ZERO ShieldOutput = Inr note
     \<and> try_recover_note kem_ext w \<lparr>nm_index = 3, nm_cm = po_cm note, nm_enc = po_enc note\<rparr> = Inr (Some n)
     \<and> nt_v n = 5"
proof -
  let ?w = "snd (next_address kem_ext False (new_wallet kem_ext ZERO None))"
  have run: "run_ops (wallet_step kem_ext) [OpNextAddress] (new_wallet kem_ext ZERO None) = ([], ?w)"
    by (simp add: wallet_step_def)
  have at: "wallet_at kem_ext ZERO [0] ?w" using next_address_at(1) [OF new_wallet_at] by simp
  then have len: "0 < length (wf_addresses ?w)" using wallet_at_length by fastforce
  have index: "wa_index (wf_addresses ?w ! 0) = 0"
    using wallet_at_address [OF at, of 0] by (simp add: address_at_def)
  obtain ek_v dk_v ek_d dk_d where k: "kem_keys kem_ext ?w 0 = (ek_v, dk_v, ek_d, dk_d)"
    by (cases "kem_keys kem_ext ?w 0")
  from sent_note_reaches_both_sides [OF kem_ext_laws _ _ run len refl, of "(ZERO, [], [])" ek_v dk_v ek_d dk_d 5 None ZERO ShieldOutput 3]
  show ?thesis using k index by (auto simp: case_prod_beta)
qed

end
