(* ===== verification/WalletSpend.thy ===== *)
theory WalletSpend
  imports WalletNotes WalletFunds Ledger KernelWire
begin

text \<open>
  Spending (\<open>apps/wallet/src/lib.rs\<close>): fees, the plan of a spend (notes, change, nullifiers), the
  output notes of transfers and unshields, the requests prepared without a proof, their conversion
  to kernel messages, and the removal of spent notes. Prepared requests conserve value and are
  accepted by the ledger.
\<close>

section \<open>Fees\<close>

definition mutez_to_tez_string :: "u64 \<Rightarrow> string" where
  "mutez_to_tez_string amount_mutez =
     (let whole = amount_mutez div 1000000; fractional = amount_mutez mod 1000000
      in if fractional = 0 then show_word whole
         else let digits = show_word fractional;
                  out = show_word whole @ ''.'' @ replicate (6 - length digits) (CHR ''0'') @ digits
              in rev (dropWhile (\<lambda>c. c = CHR ''0'') (rev out)))"

definition ensure_required_tx_fee :: "u64 \<Rightarrow> u64 \<Rightarrow> unit res" where
  "ensure_required_tx_fee fee required_fee =
     guard (\<not> fee < required_fee)
       (''fee below minimum: '' @ show_word fee @ '' mutez < '' @ show_word required_fee @ '' mutez (''
        @ mutez_to_tez_string required_fee @ '' tez)'')"

definition resolve_requested_tx_fee :: "u64 option \<Rightarrow> u64 \<Rightarrow> u64 res" where
  "resolve_requested_tx_fee requested_fee required_fee =
     (let fee = (case requested_fee of Some f \<Rightarrow> f | None \<Rightarrow> required_fee)
      in attempt (ensure_required_tx_fee fee required_fee) (\<lambda>_. Inr fee))"

definition ensure_positive_dal_fee :: "u64 \<Rightarrow> unit res" where
  "ensure_positive_dal_fee dal_fee = guard (dal_fee \<noteq> 0) ''dal_fee must be greater than zero''"

section \<open>Planning a spend\<close>

text \<open>
  The notes, the change and the nullifiers of a spend, computed by the same lines in every command.
  The sum of 64-bit values is exact in 128 bits, and so are the subtractions, as shown below; the
  cast to 64 bits is written out.
\<close>

definition spend_plan ::
  "'x ext_scheme \<Rightarrow> WalletFile \<Rightarrow> string \<Rightarrow> u64 \<Rightarrow> u64 \<Rightarrow> u64 \<Rightarrow> (nat list \<times> u64 \<times> felt list) res" where
  "spend_plan X w what amount fee dal_fee =
     attempt (ok_or (case checked_add amount fee of None \<Rightarrow> None | Some s \<Rightarrow> checked_add s dal_fee)
                (what @ '' total spend overflow'')) (\<lambda>total_spend.
     attempt (select_notes X w total_spend) (\<lambda>selected.
     let sum_in = sum_list (map (\<lambda>i. unat (nt_v (wf_notes w ! i))) selected);
         change = word_of_nat (sum_in - unat amount - unat fee - unat dal_fee);
         nullifiers = map (\<lambda>i. note_nullifier X (wf_notes w ! i)) selected
     in Inr (selected, change, nullifiers)))"

text \<open>A fresh address of the wallet for the change.\<close>

definition change_address ::
  "'x ext_scheme \<Rightarrow> bool \<Rightarrow> (WalletFile, WalletAddressState \<times> payment_address) action" where
  "change_address X trap =
     bind_act (next_address X trap) (\<lambda>(change_state, _).
     read_act (\<lambda>w. case kem_keys X w (wa_index change_state) of (ek_v_c, _, ek_d_c, _) \<Rightarrow>
       Inr (change_state, address_payment_address change_state ek_v_c ek_d_c)))"

section \<open>Transfers\<close>

record TransferNotes =
  tn_note_1 :: PreparedOutputNote
  tn_change_state :: WalletAddressState
  tn_note_2 :: PreparedOutputNote
  tn_note_3 :: PreparedOutputNote

definition transfer_notes ::
  "'x ext_scheme \<Rightarrow> (bytes \<Rightarrow> bool) \<Rightarrow> bool \<Rightarrow> draw \<times> draw \<times> draw \<Rightarrow> payment_address \<Rightarrow> u64 \<Rightarrow> u64 \<Rightarrow> u64
   \<Rightarrow> payment_address \<Rightarrow> bytes option \<Rightarrow> felt \<Rightarrow> (WalletFile, TransferNotes) action" where
  "transfer_notes X ek_new trap = (\<lambda>(rng_1, rng_2, rng_3) recipient amount change dal_fee producer_address memo outgoing_seed.
     bind_act (read_act (\<lambda>_. build_output_note_with_outgoing X ek_new rng_1 recipient amount memo
                 outgoing_seed TransferRecipient)) (\<lambda>note_1.
     bind_act (change_address X trap) (\<lambda>(change_state, address).
     bind_act (read_act (\<lambda>_. build_output_note_with_outgoing X ek_new rng_2 address change None
                 outgoing_seed TransferChange)) (\<lambda>note_2.
     bind_act (read_act (\<lambda>_. build_output_note_with_outgoing X ek_new rng_3 producer_address dal_fee
                 (Some (as_bytes ''dal'')) outgoing_seed ProducerFee)) (\<lambda>note_3.
     ret_act \<lparr>tn_note_1 = note_1, tn_change_state = change_state, tn_note_2 = note_2, tn_note_3 = note_3\<rparr>)))))"

definition transfer_request :: "felt \<Rightarrow> felt list \<Rightarrow> u64 \<Rightarrow> TransferNotes \<Rightarrow> tx_proof \<Rightarrow> transfer_req" where
  "transfer_request root nullifiers fee ns pf =
     \<lparr>tr_root = root, tr_nullifiers = nullifiers, tr_fee = fee,
      tr_cm_1 = po_cm (tn_note_1 ns), tr_cm_2 = po_cm (tn_note_2 ns), tr_cm_3 = po_cm (tn_note_3 ns),
      tr_enc_1 = po_enc (tn_note_1 ns), tr_enc_2 = po_enc (tn_note_2 ns), tr_enc_3 = po_enc (tn_note_3 ns),
      tr_proof = pf\<rparr>"

record PreparedTransferSubmit =
  pt_selected :: "nat list"
  pt_change :: u64
  pt_req :: transfer_req

definition prepare_transfer_skip_proof ::
  "'x ext_scheme \<Rightarrow> (bytes \<Rightarrow> bool) \<Rightarrow> bool \<Rightarrow> draw \<times> draw \<times> draw \<Rightarrow> felt \<Rightarrow> payment_address \<Rightarrow> u64 \<Rightarrow> u64 \<Rightarrow> u64
   \<Rightarrow> payment_address \<Rightarrow> string option \<Rightarrow> (WalletFile, PreparedTransferSubmit) action" where
  "prepare_transfer_skip_proof X ek_new trap rngs root recipient amount fee dal_fee producer_address memo =
     bind_act (read_act (\<lambda>w. spend_plan X w ''transfer'' amount fee dal_fee)) (\<lambda>(selected, change, nullifiers).
     bind_act (read_act (\<lambda>w. Inr (acc_outgoing_seed (wallet_account X w)))) (\<lambda>outgoing_seed.
     bind_act (transfer_notes X ek_new trap rngs recipient amount change dal_fee producer_address
                 (map_option as_bytes memo) outgoing_seed) (\<lambda>ns.
     ret_act \<lparr>pt_selected = selected, pt_change = change,
              pt_req = transfer_request root nullifiers fee ns TrustMeBro\<rparr>)))"

section \<open>Unshields\<close>

record ChangeData =
  cd_d_j :: felt
  cd_rseed :: felt
  cd_auth_root :: felt
  cd_auth_pub_seed :: felt
  cd_nk_tag :: felt
  cd_mh :: felt

record UnshieldNotes =
  un_cm_change :: felt
  un_enc_change :: "encrypted_note option"
  un_change_data :: "ChangeData option"
  un_producer_note :: PreparedOutputNote

definition change_note ::
  "'x ext_scheme \<Rightarrow> (bytes \<Rightarrow> bool) \<Rightarrow> bool \<Rightarrow> draw \<Rightarrow> u64 \<Rightarrow> felt
   \<Rightarrow> (WalletFile, felt \<times> encrypted_note option \<times> ChangeData option) action" where
  "change_note X ek_new trap rng change outgoing_seed =
     (if 0 < change
      then bind_act (change_address X trap) (\<lambda>(change_state, address).
           bind_act (read_act (\<lambda>_. build_output_note_with_outgoing X ek_new rng address change None
                       outgoing_seed UnshieldChange)) (\<lambda>n.
           ret_act (po_cm n, Some (po_enc n),
             Some \<lparr>cd_d_j = wa_d_j change_state, cd_rseed = po_rseed n, cd_auth_root = wa_auth_root change_state,
                   cd_auth_pub_seed = wa_auth_pub_seed change_state, cd_nk_tag = wa_nk_tag change_state,
                   cd_mh = po_mh n\<rparr>)))
      else ret_act (ZERO, None, None))"

definition unshield_notes ::
  "'x ext_scheme \<Rightarrow> (bytes \<Rightarrow> bool) \<Rightarrow> bool \<Rightarrow> draw \<times> draw \<Rightarrow> u64 \<Rightarrow> u64 \<Rightarrow> payment_address \<Rightarrow> felt
   \<Rightarrow> (WalletFile, UnshieldNotes) action" where
  "unshield_notes X ek_new trap = (\<lambda>(rng_1, rng_2) change dal_fee producer_address outgoing_seed.
     bind_act (change_note X ek_new trap rng_1 change outgoing_seed) (\<lambda>(cm_change, enc_change, change_data).
     bind_act (read_act (\<lambda>_. build_output_note_with_outgoing X ek_new rng_2 producer_address dal_fee
                 (Some (as_bytes ''dal'')) outgoing_seed ProducerFee)) (\<lambda>producer_note.
     ret_act \<lparr>un_cm_change = cm_change, un_enc_change = enc_change, un_change_data = change_data,
              un_producer_note = producer_note\<rparr>)))"

definition unshield_request ::
  "felt \<Rightarrow> felt list \<Rightarrow> u64 \<Rightarrow> u64 \<Rightarrow> string \<Rightarrow> UnshieldNotes \<Rightarrow> tx_proof \<Rightarrow> unshield_req" where
  "unshield_request root nullifiers amount fee recipient ns pf =
     \<lparr>ur_root = root, ur_nullifiers = nullifiers, ur_v_pub = amount, ur_fee = fee, ur_recipient = recipient,
      ur_cm_change = un_cm_change ns, ur_enc_change = un_enc_change ns,
      ur_cm_fee = po_cm (un_producer_note ns), ur_enc_fee = po_enc (un_producer_note ns), ur_proof = pf\<rparr>"

record PreparedUnshieldSubmit =
  pu_selected :: "nat list"
  pu_change :: u64
  pu_req :: unshield_req

definition prepare_unshield_skip_proof ::
  "'x ext_scheme \<Rightarrow> (bytes \<Rightarrow> bool) \<Rightarrow> bool \<Rightarrow> draw \<times> draw \<Rightarrow> felt \<Rightarrow> u64 \<Rightarrow> u64 \<Rightarrow> u64
   \<Rightarrow> payment_address \<Rightarrow> string \<Rightarrow> (WalletFile, PreparedUnshieldSubmit) action" where
  "prepare_unshield_skip_proof X ek_new trap rngs root amount fee dal_fee producer_address recipient =
     bind_act (read_act (\<lambda>w. spend_plan X w ''unshield'' amount fee dal_fee)) (\<lambda>(selected, change, nullifiers).
     bind_act (read_act (\<lambda>w. Inr (acc_outgoing_seed (wallet_account X w)))) (\<lambda>outgoing_seed.
     bind_act (unshield_notes X ek_new trap rngs change dal_fee producer_address outgoing_seed) (\<lambda>ns.
     ret_act \<lparr>pu_selected = selected, pu_change = change,
              pu_req = unshield_request root nullifiers amount fee recipient ns TrustMeBro\<rparr>)))"

section \<open>After a successful spend\<close>

definition remove_at :: "nat \<Rightarrow> 'a list \<Rightarrow> 'a list res" where
  "remove_at i xs = (if i < length xs then Inr (take i xs @ drop (Suc i) xs) else Inl (Panic ''removal index out of bounds''))"

fun remove_all :: "nat list \<Rightarrow> 'a list \<Rightarrow> 'a list res" where
  "remove_all [] xs = Inr xs"
| "remove_all (i # is) xs = attempt (remove_at i xs) (remove_all is)"

definition finalize_successful_spend :: "nat list \<Rightarrow> WalletFile \<Rightarrow> WalletFile res" where
  "finalize_successful_spend selected w =
     attempt (remove_all (rev (sort selected)) (wf_notes w)) (\<lambda>ns. Inr (w\<lparr>wf_notes := ns\<rparr>))"

section \<open>Requests for the rollup\<close>

definition host_stark_proof_to_kernel :: "tx_proof \<Rightarrow> kernel_stark_proof res" where
  "host_stark_proof_to_kernel pf =
     (case pf of
        TrustMeBro \<Rightarrow> Inl (Err ''rollup submission requires a real STARK proof'')
      | Stark proof_bytes output_preimage \<Rightarrow>
          Inr \<lparr>kp_proof_bytes = proof_bytes, kp_output_preimage = output_preimage\<rparr>)"

definition shield_req_to_kernel :: "shield_req \<Rightarrow> kernel_shield_req res" where
  "shield_req_to_kernel req =
     attempt (host_stark_proof_to_kernel (sr_proof req)) (\<lambda>pf.
     Inr \<lparr>ks_pubkey_hash = sr_pubkey_hash req, ks_fee = sr_fee req, ks_v = sr_v req,
          ks_producer_fee = sr_producer_fee req, ks_proof = pf, ks_client_cm = sr_client_cm req, ks_client_enc = sr_client_enc req,
          ks_producer_cm = sr_producer_cm req, ks_producer_enc = sr_producer_enc req\<rparr>)"

definition transfer_req_to_kernel :: "transfer_req \<Rightarrow> kernel_transfer_req res" where
  "transfer_req_to_kernel req =
     attempt (host_stark_proof_to_kernel (tr_proof req)) (\<lambda>pf.
     Inr \<lparr>kt_root = tr_root req, kt_nullifiers = tr_nullifiers req, kt_fee = tr_fee req,
          kt_cm_1 = tr_cm_1 req, kt_cm_2 = tr_cm_2 req, kt_cm_3 = tr_cm_3 req,
          kt_enc_1 = tr_enc_1 req, kt_enc_2 = tr_enc_2 req, kt_enc_3 = tr_enc_3 req, kt_proof = pf\<rparr>)"

definition unshield_req_to_kernel :: "unshield_req \<Rightarrow> kernel_unshield_req res" where
  "unshield_req_to_kernel req =
     attempt (host_stark_proof_to_kernel (ur_proof req)) (\<lambda>pf.
     Inr \<lparr>ku_root = ur_root req, ku_nullifiers = ur_nullifiers req, ku_v_pub = ur_v_pub req, ku_fee = ur_fee req,
          ku_recipient = ur_recipient req, ku_cm_change = ur_cm_change req, ku_enc_change = ur_enc_change req,
          ku_cm_fee = ur_cm_fee req, ku_enc_fee = ur_enc_fee req, ku_proof = pf\<rparr>)"

section \<open>Plans\<close>

lemma spend_plan_sound:
  assumes "spend_plan X w what amount fee dal_fee = Inr (selected, change, nullifiers)"
  shows "distinct selected" "selected \<noteq> []" "\<And>i. i \<in> set selected \<Longrightarrow> spendable X w i"
    "sum_list (map (note_value w) selected) = unat amount + unat fee + unat dal_fee + unat change"
    "nullifiers = map (\<lambda>i. note_nullifier X (wf_notes w ! i)) selected"
proof -
  obtain t where t: "(case checked_add amount fee of None \<Rightarrow> None | Some s \<Rightarrow> checked_add s dal_fee) = Some t"
    "select_notes X w t = Inr selected"
    and out: "change = word_of_nat (sum_list (map (note_value w) selected) - unat amount - unat fee - unat dal_fee)"
    "nullifiers = map (\<lambda>i. note_nullifier X (wf_notes w ! i)) selected"
    using assms unfolding spend_plan_def note_value_def [abs_def] by (auto simp: res_simps Let_def)
  have total: "unat t = unat amount + unat fee + unat dal_fee"
    using t(1) by (auto simp: checked_add_unat split: option.splits)
  note s = select_notes_sound [OF t(2)]
  show "distinct selected" "selected \<noteq> []" "\<And>i. i \<in> set selected \<Longrightarrow> spendable X w i" using s by simp_all
  show "nullifiers = map (\<lambda>i. note_nullifier X (wf_notes w ! i)) selected" by (rule out)
  show "sum_list (map (note_value w) selected) = unat amount + unat fee + unat dal_fee + unat change"
  proof -
    define d where "d = sum_list (map (note_value w) selected) - unat amount - unat fee - unat dal_fee"
    have "d < 2 ^ 64" using s(5) total by (simp add: d_def)
    then have "unat change = d" unfolding out(1) d_def [symmetric] by (simp add: unat_of_nat_small)
    then show ?thesis using s(4) total by (simp add: d_def)
  qed
qed

lemma spend_plan_succeeds:
  assumes "unat amount + unat fee + unat dal_fee < 2 ^ 64" "unat amount + unat fee + unat dal_fee \<le> available_balance X w"
    "spendable X w i"
  obtains p where "spend_plan X w what amount fee dal_fee = Inr p"
proof -
  obtain t where t: "(case checked_add amount fee of None \<Rightarrow> None | Some s \<Rightarrow> checked_add s dal_fee) = Some t"
    "unat t = unat amount + unat fee + unat dal_fee"
  proof -
    have "checked_add amount fee = Some (amount + fee)" "unat (amount + fee) = unat amount + unat fee"
      using assms(1) by (simp_all add: checked_add_def unat_add_no_wrap)
    then show ?thesis using assms(1) that by (simp add: checked_add_def unat_add_no_wrap)
  qed
  then obtain sel where "select_notes X w t = Inr sel"
    using select_notes_succeeds [OF assms(3), of t] assms(2) by auto
  then show thesis using that t(1) by (simp add: spend_plan_def Let_def)
qed

section \<open>Notes of a request\<close>

lemma change_address_eq:
  assumes "blake_laws X" "wallet_at X sk ns w" "length ns + 1 < 2 ^ 32"
  obtains a pa w' dk_v dk_d where
    "change_address X False w = (Inr (a, pa), w')" "wallet_at X sk (ns @ [0]) w'"
    "w' = w\<lparr>wf_addr_counter := wf_addr_counter w + 1, wf_addresses := wf_addresses w @ [a]\<rparr>"
    "pa_d_j pa = wa_d_j a" "pa_auth_root pa = wa_auth_root a" "pa_auth_pub_seed pa = wa_auth_pub_seed a"
    "pa_nk_tag pa = wa_nk_tag a" "address_sound X pa dk_v dk_d"
proof -
  obtain a pa0 where eq: "next_address X False w
      = (Inr (a, pa0), w\<lparr>wf_addr_counter := wf_addr_counter w + 1, wf_addresses := wf_addresses w @ [a]\<rparr>)"
    by (rule next_address_eq [OF assms(2,3)])
  define w' where "w' = w\<lparr>wf_addr_counter := wf_addr_counter w + 1, wf_addresses := wf_addresses w @ [a]\<rparr>"
  have at: "wallet_at X sk (ns @ [0]) w'" using next_address_at(1) [OF assms(2,3)] eq by (simp add: w'_def)
  have a: "a = wf_addresses w' ! length ns"
    using wallet_at_length [OF assms(2)] by (simp add: w'_def nth_append)
  obtain ek_v dk_v ek_d dk_d where k: "kem_keys X w' (wa_index a) = (ek_v, dk_v, ek_d, dk_d)"
    by (cases "kem_keys X w' (wa_index a)")
  have "address_sound X (address_payment_address a ek_v ek_d) dk_v dk_d"
    unfolding a by (rule wallet_at_address_sound [OF assms(1) at]) (simp_all add: k [unfolded a])
  moreover have "change_address X False w = (Inr (a, address_payment_address a ek_v ek_d), w')"
    using eq k by (simp add: change_address_def bind_act_def read_act_def w'_def)
  ultimately show thesis
    using that [of a "address_payment_address a ek_v ek_d" w' dk_v dk_d] at
    by (simp add: w'_def address_payment_address_def)
qed

text \<open>The commitment of a note of a given value at an address.\<close>

definition pays :: "'x ext_scheme \<Rightarrow> payment_address \<Rightarrow> u64 \<Rightarrow> PreparedOutputNote \<Rightarrow> bool" where
  "pays X a v n \<longleftrightarrow>
     po_cm n = commit X (pa_d_j a) v (derive_rcm X (po_rseed n)) (owner_tag X (pa_auth_root a) (pa_auth_pub_seed a) (pa_nk_tag a))
     \<and> note_validate (po_enc n) = Inr () \<and> po_mh n = memo_ct_hash X (po_enc n)"

lemma build_output_note_pays:
  assumes "note_laws X ek_new" "length (fst rng) = 32" "address_sound X a dk_v dk_d"
  obtains n where "build_output_note_with_outgoing X ek_new rng a v memo seed role = Inr n" "pays X a v n"
  by (rule build_output_note [OF assms, of v memo seed role]) (simp add: pays_def)

lemma pays_felt: "blake_laws X \<Longrightarrow> pays X a v n \<Longrightarrow> is_felt (po_cm n)"
  by (simp add: pays_def is_felt_def commit_def hash_commit_raw_def hash_wrapper_defs)

lemma transfer_notes_eq:
  assumes laws: "note_laws X ek_new" and w: "wallet_at X sk ns w" "length ns + 1 < 2 ^ 32"
    and rng: "length (fst r1) = 32" "length (fst r2) = 32" "length (fst r3) = 32"
    and r: "address_sound X recipient dkr dkr'" and p: "address_sound X producer dkp dkp'"
  obtains tn pa w' where
    "transfer_notes X ek_new False (r1, r2, r3) recipient amount change dal_fee producer memo seed w = (Inr tn, w')"
    "wallet_at X sk (ns @ [0]) w'" "wf_notes w' = wf_notes w" "wf_addresses w' = wf_addresses w @ [tn_change_state tn]"
    "pays X recipient amount (tn_note_1 tn)" "pays X pa change (tn_note_2 tn)" "pays X producer dal_fee (tn_note_3 tn)"
    "pa_d_j pa = wa_d_j (tn_change_state tn)" "pa_auth_root pa = wa_auth_root (tn_change_state tn)"
    "pa_auth_pub_seed pa = wa_auth_pub_seed (tn_change_state tn)" "pa_nk_tag pa = wa_nk_tag (tn_change_state tn)"
proof -
  obtain n1 where n1: "build_output_note_with_outgoing X ek_new r1 recipient amount memo seed TransferRecipient = Inr n1"
    "pays X recipient amount n1" by (rule build_output_note_pays [OF laws rng(1) r])
  obtain a pa w' dk_v dk_d where c: "change_address X False w = (Inr (a, pa), w')" "wallet_at X sk (ns @ [0]) w'"
    "w' = w\<lparr>wf_addr_counter := wf_addr_counter w + 1, wf_addresses := wf_addresses w @ [a]\<rparr>"
    "pa_d_j pa = wa_d_j a" "pa_auth_root pa = wa_auth_root a" "pa_auth_pub_seed pa = wa_auth_pub_seed a"
    "pa_nk_tag pa = wa_nk_tag a" "address_sound X pa dk_v dk_d"
    by (rule change_address_eq [OF note_lawsD(1) [OF laws] w])
  obtain n2 where n2: "build_output_note_with_outgoing X ek_new r2 pa change None seed TransferChange = Inr n2"
    "pays X pa change n2" by (rule build_output_note_pays [OF laws rng(2) c(8)])
  obtain n3 where n3: "build_output_note_with_outgoing X ek_new r3 producer dal_fee (Some (as_bytes ''dal'')) seed ProducerFee = Inr n3"
    "pays X producer dal_fee n3" by (rule build_output_note_pays [OF laws rng(3) p])
  have "transfer_notes X ek_new False (r1, r2, r3) recipient amount change dal_fee producer memo seed w
      = (Inr \<lparr>tn_note_1 = n1, tn_change_state = a, tn_note_2 = n2, tn_note_3 = n3\<rparr>, w')"
    using n1(1) c(1) n2(1) n3(1) by (simp add: transfer_notes_def bind_act_def read_act_def ret_act_def)
  then show thesis
    by (rule that [where pa = pa]) (use n1 n2 n3 c in simp_all)
qed

lemma unshield_notes_eq:
  assumes laws: "note_laws X ek_new" and w: "wallet_at X sk ns w" "length ns + 1 < 2 ^ 32"
    and rng: "length (fst r1) = 32" "length (fst r2) = 32" and p: "address_sound X producer dkp dkp'"
  obtains un ns' w' where
    "unshield_notes X ek_new False (r1, r2) change dal_fee producer seed w = (Inr un, w')"
    "wallet_at X sk ns' w'" "wf_notes w' = wf_notes w" "pays X producer dal_fee (un_producer_note un)"
    "ns' = (if 0 < change then ns @ [0] else ns)"
    "change = 0 \<Longrightarrow> un_cm_change un = ZERO \<and> un_enc_change un = None"
    "0 < change \<Longrightarrow> \<exists>n pa. un_cm_change un = po_cm n \<and> un_enc_change un = Some (po_enc n) \<and> pays X pa change n"
proof -
  obtain n2 where n2: "build_output_note_with_outgoing X ek_new r2 producer dal_fee (Some (as_bytes ''dal'')) seed ProducerFee = Inr n2"
    "pays X producer dal_fee n2" by (rule build_output_note_pays [OF laws rng(2) p])
  show thesis
  proof (cases "0 < change")
    case True
    obtain a pa w' dk_v dk_d where c: "change_address X False w = (Inr (a, pa), w')" "wallet_at X sk (ns @ [0]) w'"
      "w' = w\<lparr>wf_addr_counter := wf_addr_counter w + 1, wf_addresses := wf_addresses w @ [a]\<rparr>"
      "address_sound X pa dk_v dk_d"
      by (rule change_address_eq [OF note_lawsD(1) [OF laws] w])
    obtain n1 where n1: "build_output_note_with_outgoing X ek_new r1 pa change None seed UnshieldChange = Inr n1"
      "pays X pa change n1" by (rule build_output_note_pays [OF laws rng(1) c(4)])
    let ?un = "\<lparr>un_cm_change = po_cm n1, un_enc_change = Some (po_enc n1),
      un_change_data = Some \<lparr>cd_d_j = wa_d_j a, cd_rseed = po_rseed n1, cd_auth_root = wa_auth_root a,
         cd_auth_pub_seed = wa_auth_pub_seed a, cd_nk_tag = wa_nk_tag a, cd_mh = po_mh n1\<rparr>,
      un_producer_note = n2\<rparr>"
    have "unshield_notes X ek_new False (r1, r2) change dal_fee producer seed w = (Inr ?un, w')"
      using True n1(1) n2(1) c(1) by (simp add: unshield_notes_def change_note_def bind_act_def read_act_def ret_act_def)
    then show thesis
      by (rule that [where ns' = "ns @ [0]"]) (use True c n1 n2 in \<open>auto\<close>)
  next
    case False
    let ?un = "\<lparr>un_cm_change = ZERO, un_enc_change = None, un_change_data = None, un_producer_note = n2\<rparr>"
    have "unshield_notes X ek_new False (r1, r2) change dal_fee producer seed w = (Inr ?un, w)"
      using False n2(1) by (simp add: unshield_notes_def change_note_def bind_act_def read_act_def ret_act_def)
    then show thesis
      by (rule that [where ns' = ns]) (use False w n2 in simp_all)
  qed
qed

section \<open>Requests\<close>

lemma selected_nullifiers:
  assumes "distinct selected" "\<And>i. i \<in> set selected \<Longrightarrow> spendable X w i" "distinct (map (note_nullifier X) (wf_notes w))"
  shows "distinct (map (\<lambda>i. note_nullifier X (wf_notes w ! i)) selected)"
    "set (map (\<lambda>i. note_nullifier X (wf_notes w ! i)) selected) \<subseteq> set (map (note_nullifier X) (wf_notes w))"
proof -
  have len: "\<And>i. i \<in> set selected \<Longrightarrow> i < length (wf_notes w)" using assms(2) by (simp add: spendable_def)
  have "inj_on (\<lambda>i. note_nullifier X (wf_notes w ! i)) (set selected)"
  proof (rule inj_onI)
    fix i j assume "i \<in> set selected" "j \<in> set selected" "note_nullifier X (wf_notes w ! i) = note_nullifier X (wf_notes w ! j)"
    then show "i = j" using assms(3) len [of i] len [of j] by (simp add: distinct_conv_nth) (metis nth_map)
  qed
  then show "distinct (map (\<lambda>i. note_nullifier X (wf_notes w ! i)) selected)" using assms(1) by (simp add: distinct_map)
  show "set (map (\<lambda>i. note_nullifier X (wf_notes w ! i)) selected) \<subseteq> set (map (note_nullifier X) (wf_notes w))"
    using len by auto
qed

lemma nullifier_felt: "blake_laws X \<Longrightarrow> is_felt (note_nullifier X n)"
  by (simp add: note_nullifier_def nullifier_def Let_def is_felt_def)

text \<open>What the ledger must offer to a spend of the wallet.\<close>

definition ledger_ready :: "'x ext_scheme \<Rightarrow> WalletFile \<Rightarrow> felt \<Rightarrow> u64 \<Rightarrow> nat \<Rightarrow> ledger \<Rightarrow> bool" where
  "ledger_ready X w root fee k l \<longleftrightarrow>
     mem_inv X l \<and> is_felt root \<and> root \<in> lg_valid_roots l \<and> MIN_TX_FEE \<le> fee
     \<and> distinct (map (note_nullifier X) (wf_notes w))
     \<and> set (map (note_nullifier X) (wf_notes w)) \<inter> lg_nullifiers l = {} \<and> length (lg_memos l) + k \<le> 2 ^ DEPTH"

lemma plan_spend_ok:
  assumes "ledger_ready X w root fee k l" "spend_plan X w what amount fee dal_fee = Inr (selected, change, nfs)"
  shows "spend_ok (mem_abs l) fee root nfs \<longleftrightarrow> length selected \<le> 7"
proof -
  note plan = spend_plan_sound [OF assms(2)]
  have d: "distinct (map (note_nullifier X) (wf_notes w))" and "MIN_TX_FEE \<le> fee" "root \<in> lg_valid_roots l"
    and dis: "set (map (note_nullifier X) (wf_notes w)) \<inter> lg_nullifiers l = {}"
    using assms(1) by (simp_all add: ledger_ready_def)
  moreover have "distinct nfs" "set nfs \<subseteq> set (map (note_nullifier X) (wf_notes w))"
    unfolding plan(5) using selected_nullifiers [OF plan(1) plan(3) d] by blast+
  moreover have "set nfs \<inter> lg_nullifiers l = {}" using calculation dis by blast
  ultimately show ?thesis using plan(2) by (simp add: spend_ok_def mem_abs_def plan(5))
qed

section \<open>Removal of spent notes\<close>

lemma remove_at_nths:
  assumes "i < length xs" "\<forall>j \<in> A. j < i"
  shows "\<exists>ys. remove_at i xs = Inr ys \<and> length ys = length xs - 1 \<and> nths ys (- A) = nths xs (- insert i A)"
proof -
  let ?l = "take i xs" and ?r = "drop (Suc i) xs"
  have "nths (?l @ ?r) (- A) = nths ?l (- A) @ ?r"
  proof -
    have "nths ?r {j. j + i \<in> - A} = ?r" using assms(2) by (intro nths_all) auto
    then show ?thesis using assms(1) by (simp add: nths_append min_def)
  qed
  moreover have "nths xs (- insert i A) = nths ?l (- A) @ ?r"
  proof -
    have "xs = ?l @ xs ! i # ?r" by (rule id_take_nth_drop [OF assms(1)])
    then have "nths xs (- insert i A) = nths (?l @ xs ! i # ?r) (- insert i A)" by simp
    also have "\<dots> = nths ?l (- insert i A) @ nths ?r {j. Suc (j + i) \<in> - insert i A}"
      using assms(1) by (simp add: nths_append nths_Cons min_def)
    also have "nths ?r {j. Suc (j + i) \<in> - insert i A} = ?r"
      using assms(2) by (intro nths_all) (auto dest: bspec)
    also have "nths ?l (- insert i A) = nths ?l (- A)"
      using assms(1) by (auto simp: nths_def intro!: arg_cong [where f = "map fst"] filter_cong dest: set_zip_rightD)
    finally show ?thesis .
  qed
  ultimately show ?thesis using assms(1) by (simp add: remove_at_def)
qed

lemma remove_all_nths:
  "sorted_wrt (>) is \<Longrightarrow> \<forall>i \<in> set is. i < length xs \<Longrightarrow> remove_all is xs = Inr (nths xs (- set is))"
proof (induction "is" arbitrary: xs)
  case Nil
  then show ?case by (simp add: nths_all)
next
  case (Cons i "is")
  then obtain ys where ys: "remove_at i xs = Inr ys" "length ys = length xs - 1"
    "nths ys (- set is) = nths xs (- insert i (set is))"
    using remove_at_nths [of i xs "set is"] by auto
  have "\<forall>j \<in> set is. j < length ys" using Cons.prems ys(2) by force
  then show ?case using Cons ys by simp
qed

lemma finalize_eq:
  assumes "distinct selected" "\<forall>i \<in> set selected. i < length (wf_notes w)"
  shows "finalize_successful_spend selected w = Inr (w\<lparr>wf_notes := nths (wf_notes w) (- set selected)\<rparr>)"
proof -
  have "sorted_wrt (<) (sort selected)" using assms(1) by (simp add: strict_sorted_iff)
  then have "sorted_wrt (>) (rev (sort selected))" by (simp add: sorted_wrt_rev)
  then show ?thesis using assms(2) remove_all_nths [of "rev (sort selected)" "wf_notes w"]
    by (simp add: finalize_successful_spend_def)
qed

section \<open>A sample spend\<close>

definition sample_address :: payment_address where
  "sample_address = \<lparr>pa_d_j = ZERO, pa_auth_root = ZERO, pa_auth_pub_seed = ZERO, pa_nk_tag = ZERO,
     pa_ek_v = replicate 1184 0, pa_ek_d = replicate 1184 0\<rparr>"

definition rich_wallet :: WalletFile where
  "rich_wallet = (new_wallet kem_ext ZERO None)\<lparr>wf_notes :=
     [\<lparr>nt_nk_spend = ZERO, nt_nk_tag = ZERO, nt_auth_root = ZERO, nt_d_j = ZERO, nt_v = 1000000,
       nt_rseed = ZERO, nt_cm = ZERO, nt_index = 0, nt_addr_index = 0\<rparr>]\<rparr>"

abbreviation new_ledger :: ledger where
  "new_ledger \<equiv> ledger_with_auth_domain kem_ext ZERO"

lemma wallet_at_notes: "wallet_at X sk ns w \<Longrightarrow> wallet_at X sk ns (w\<lparr>wf_notes := x\<rparr>)"
  by (simp add: wallet_at_def)

lemma sample_address_sound: "address_sound kem_ext sample_address [] []"
  by (simp add: address_sound_def sample_address_def kem_ext_def)

lemma rich_wallet_facts:
  "wallet_at kem_ext ZERO [] rich_wallet" "spendable kem_ext rich_wallet 0" "available_balance kem_ext rich_wallet = 1000000"
proof -
  show "wallet_at kem_ext ZERO [] rich_wallet" unfolding rich_wallet_def by (rule wallet_at_notes [OF new_wallet_at])
qed (simp_all add: rich_wallet_def spendable_def available_balance_def pending_nullifier_set_def new_wallet_def)

lemma new_ledger_ready:
  "k \<le> 3 \<Longrightarrow> ledger_ready kem_ext rich_wallet (merkle_root kem_ext (merkle_new kem_ext)) MIN_TX_FEE k new_ledger"
proof -
  have usize: "DEPTH < usize_bits kem_ext" by (simp add: DEPTH_def kem_ext_def sample_ext_def)
  have "is_felt (merkle_root kem_ext (merkle_new kem_ext))"
    using tree_root_felt [OF note_lawsD(1) [OF kem_ext_laws]] by (simp add: merkle_root_tree_root merkle_new_def)
  then show "k \<le> 3 \<Longrightarrow> ?thesis"
    using mem_inv_new [OF usize, of ZERO]
    by (simp add: ledger_ready_def ledger_with_auth_domain_def Let_def rich_wallet_def DEPTH_def)
qed

section \<open>Properties\<close>

text \<open>
  C25: a prepared transfer conserves value and is accepted. On a wallet with enough available funds
  the preparation succeeds; the selected notes are worth exactly amount, fee, producer fee and
  change, without wrap-around; and a ledger that knows the root, none of the wallet's nullifiers and
  has room for three notes accepts the request exactly when at most seven notes were selected, and
  is otherwise unchanged.
\<close>

theorem prepared_transfer_accepted:
  assumes "note_laws X ek_new" "wallet_at X sk ns w" "length ns + 1 < 2 ^ 32"
    and "length (fst r1) = 32" "length (fst r2) = 32" "length (fst r3) = 32"
    and "address_sound X recipient dk_v dk_d" "address_sound X producer dk_v' dk_d'"
    and "ledger_ready X w root fee 3 l"
    and "unat amount + unat fee + unat dal_fee < 2 ^ 64" "unat amount + unat fee + unat dal_fee \<le> available_balance X w"
    and "spendable X w i"
  shows "\<exists>p w'. prepare_transfer_skip_proof X ek_new False (r1, r2, r3) root recipient amount fee dal_fee producer memo w = (Inr p, w')
     \<and> wallet_at X sk (ns @ [0]) w'
     \<and> sum_list (map (note_value w) (pt_selected p)) = unat amount + unat fee + unat dal_fee + unat (pt_change p)
     \<and> (case apply_tx X (mem_ops X) (TxTransfer (pt_req p)) l of (ok, l') \<Rightarrow>
          ok = (length (pt_selected p) \<le> 7)
          \<and> (if ok then mem_inv X l' \<and> al_step X (mem_abs l) (TxTransfer (pt_req p)) (mem_abs l') else l' = l))"
proof -
  have inv: "mem_inv X l" using assms(9) by (simp add: ledger_ready_def)
  obtain selected change nfs where plan: "spend_plan X w ''transfer'' amount fee dal_fee = Inr (selected, change, nfs)"
    using spend_plan_succeeds [OF assms(10-12)] by (metis prod_cases3)
  note sound = spend_plan_sound [OF plan]
  let ?seed = "acc_outgoing_seed (wallet_account X w)"
  obtain tn pa w' where tn: "transfer_notes X ek_new False (r1, r2, r3) recipient amount change dal_fee producer
      (map_option as_bytes memo) ?seed w = (Inr tn, w')"
    and w': "wallet_at X sk (ns @ [0]) w'"
    and pays: "pays X recipient amount (tn_note_1 tn)" "pays X pa change (tn_note_2 tn)" "pays X producer dal_fee (tn_note_3 tn)"
    by (rule transfer_notes_eq [OF assms(1-8)])
  let ?req = "transfer_request root nfs fee tn TrustMeBro"
  let ?p = "\<lparr>pt_selected = selected, pt_change = change, pt_req = ?req\<rparr>"
  have prep: "prepare_transfer_skip_proof X ek_new False (r1, r2, r3) root recipient amount fee dal_fee producer memo w = (Inr ?p, w')"
    using plan tn by (simp add: prepare_transfer_skip_proof_def bind_act_def read_act_def ret_act_def)
  have typed: "tx_typed (TxTransfer ?req)"
    using assms(9) pays_felt [OF note_lawsD(1) [OF assms(1)]] pays nullifier_felt [OF note_lawsD(1) [OF assms(1)]]
    by (auto simp: transfer_request_def ledger_ready_def sound(5))
  have "tx_ok X (mem_abs l) (TxTransfer ?req) \<longleftrightarrow> length selected \<le> 7"
    using plan_spend_ok [OF assms(9) plan] pays assms(9)
    by (simp add: transfer_ok_def transfer_request_def pays_def proof_binds_def ledger_ready_def mem_abs_def)
  with mem.apply_tx_cases [OF inv typed] show ?thesis
    using prep w' sound(4) by (intro exI [of _ ?p] exI [of _ w']) (auto split: if_splits)
qed

theorem prepared_transfer_accepted_witness:
  "\<exists>p w'. prepare_transfer_skip_proof kem_ext (\<lambda>_. True) False ((ZERO, [], []), (ZERO, [], []), (ZERO, [], []))
        (merkle_root kem_ext (merkle_new kem_ext)) sample_address 5 MIN_TX_FEE 1 sample_address None rich_wallet = (Inr p, w')
     \<and> fst (apply_tx kem_ext (mem_ops kem_ext) (TxTransfer (pt_req p)) new_ledger) = (length (pt_selected p) \<le> 7)"
  using prepared_transfer_accepted [OF kem_ext_laws rich_wallet_facts(1) _ _ _ _ sample_address_sound sample_address_sound
      new_ledger_ready _ _ rich_wallet_facts(2), of "(ZERO, [], [])" "(ZERO, [], [])" "(ZERO, [], [])" 5 1 None]
  by (auto simp: rich_wallet_facts(3) MIN_TX_FEE_def case_prod_beta)

text \<open>
  A prepared unshield conserves value and is accepted: as for transfers, with a change note
  exactly when there is change, provided the recipient is a valid address and no commitment of the
  request is the zero element, which the ledger reads as absent.
\<close>

theorem prepared_unshield_accepted:
  assumes "note_laws X ek_new" "wallet_at X sk ns w" "length ns + 1 < 2 ^ 32"
    and "length (fst r1) = 32" "length (fst r2) = 32" "address_sound X producer dk_v' dk_d'"
    and "ledger_ready X w root fee 2 l" "validate_l1_withdrawal_recipient X recipient = Inr rcp"
    and "unat amount + unat fee + unat dal_fee < 2 ^ 64" "unat amount + unat fee + unat dal_fee \<le> available_balance X w"
    and "spendable X w i"
  shows "\<exists>p w'. prepare_unshield_skip_proof X ek_new False (r1, r2) root amount fee dal_fee producer recipient w = (Inr p, w')
     \<and> wallet_at X sk (if 0 < pu_change p then ns @ [0] else ns) w'
     \<and> sum_list (map (note_value w) (pu_selected p)) = unat amount + unat fee + unat dal_fee + unat (pu_change p)
     \<and> (case apply_tx X (mem_ops X) (TxUnshield (pu_req p)) l of (ok, l') \<Rightarrow>
          ok = (length (pu_selected p) \<le> 7 \<and> ur_cm_fee (pu_req p) \<noteq> ZERO
                      \<and> (pu_change p = 0 \<longleftrightarrow> ur_cm_change (pu_req p) = ZERO))
          \<and> (if ok then mem_inv X l' \<and> al_step X (mem_abs l) (TxUnshield (pu_req p)) (mem_abs l') else l' = l))"
proof -
  have inv: "mem_inv X l" using assms(7) by (simp add: ledger_ready_def)
  obtain selected change nfs where plan: "spend_plan X w ''unshield'' amount fee dal_fee = Inr (selected, change, nfs)"
    using spend_plan_succeeds [OF assms(9-11)] by (metis prod_cases3)
  note sound = spend_plan_sound [OF plan]
  let ?seed = "acc_outgoing_seed (wallet_account X w)"
  obtain un ns' w' where un: "unshield_notes X ek_new False (r1, r2) change dal_fee producer ?seed w = (Inr un, w')"
    and w': "wallet_at X sk ns' w'" "ns' = (if 0 < change then ns @ [0] else ns)"
    and pays: "pays X producer dal_fee (un_producer_note un)"
      "change = 0 \<Longrightarrow> un_cm_change un = ZERO \<and> un_enc_change un = None"
      "0 < change \<Longrightarrow> \<exists>n pa. un_cm_change un = po_cm n \<and> un_enc_change un = Some (po_enc n) \<and> pays X pa change n"
    by (rule unshield_notes_eq [OF assms(1-6)]) blast
  let ?req = "unshield_request root nfs amount fee recipient un TrustMeBro"
  let ?p = "\<lparr>pu_selected = selected, pu_change = change, pu_req = ?req\<rparr>"
  have prep: "prepare_unshield_skip_proof X ek_new False (r1, r2) root amount fee dal_fee producer recipient w = (Inr ?p, w')"
    using plan un by (simp add: prepare_unshield_skip_proof_def bind_act_def read_act_def ret_act_def)
  have felts: "is_felt (un_cm_change un)" "is_felt (po_cm (un_producer_note un))"
    using pays pays_felt [OF note_lawsD(1) [OF assms(1)]] by (cases "change = 0"; auto simp: word_gt_0)+
  then have typed: "tx_typed (TxUnshield ?req)"
    using assms(7) nullifier_felt [OF note_lawsD(1) [OF assms(1)]]
    by (auto simp: unshield_request_def ledger_ready_def sound(5))
  have ready: "root \<in> lg_valid_roots l" "length (lg_memos l) + 2 \<le> 2 ^ DEPTH" using assms(7) by (simp_all add: ledger_ready_def)
  have change: "(un_enc_change un = None) = (change = 0)" "length (change_notes ?req) \<le> 1"
    "\<forall>(cm, enc) \<in> set (change_notes ?req). note_validate enc = Inr ()"
    using pays(2,3) by (cases "change = 0"; force simp: change_notes_def unshield_request_def pays_def word_gt_0)+
  have "tx_ok X (mem_abs l) (TxUnshield ?req) \<longleftrightarrow>
      length selected \<le> 7 \<and> po_cm (un_producer_note un) \<noteq> ZERO \<and> (change = 0 \<longleftrightarrow> un_cm_change un = ZERO)"
    using plan_spend_ok [OF assms(7) plan] pays(1) change ready(2) assms(8)
    by (auto simp: unshield_ok_def unshield_request_def pays_def proof_binds_def mem_abs_def)
  with mem.apply_tx_cases [OF inv typed] show ?thesis
    using prep w' sound(4)
    by (intro exI [of _ ?p] exI [of _ w']) (auto split: if_splits simp: unshield_request_def)
qed

theorem prepared_unshield_accepted_witness:
  "\<exists>p w'. prepare_unshield_skip_proof kem_ext (\<lambda>_. True) False ((ZERO, [], []), (ZERO, [], []))
        (merkle_root kem_ext (merkle_new kem_ext)) 5 MIN_TX_FEE 1 sample_address ''tz1'' rich_wallet = (Inr p, w')
     \<and> sum_list (map (note_value rich_wallet) (pu_selected p)) = 100006 + unat (pu_change p)"
proof -
  have "validate_l1_withdrawal_recipient kem_ext ''tz1'' = Inr ''tz1''"
    by (simp add: validate_l1_withdrawal_recipient_def kem_ext_def sample_ext_def) code_simp
  from prepared_unshield_accepted [OF kem_ext_laws rich_wallet_facts(1) _ _ _ sample_address_sound
      new_ledger_ready this _ _ rich_wallet_facts(2), of "(ZERO, [], [])" "(ZERO, [], [])" 5 1]
  show ?thesis by (auto simp: rich_wallet_facts(3) MIN_TX_FEE_def)
qed

text \<open>
  A successful spend removes exactly the selected notes: removing the selected positions from
  the highest down leaves the notes at all other positions in their order, never out of bounds.
\<close>

theorem finalize_removes_selected:
  assumes "spend_plan X w what amount fee dal_fee = Inr (selected, change, nullifiers)"
  shows "finalize_successful_spend selected w = Inr (w\<lparr>wf_notes := nths (wf_notes w) (- set selected)\<rparr>)"
  using spend_plan_sound [OF assms] by (intro finalize_eq) (auto simp: spendable_def)

theorem finalize_removes_selected_witness:
  "case spend_plan sample_ext sample_funds ''transfer'' 3 0 0 of
     Inl e \<Rightarrow> False
   | Inr (selected, change, nullifiers) \<Rightarrow>
       finalize_successful_spend selected sample_funds
       = Inr (sample_funds\<lparr>wf_notes := nths (wf_notes sample_funds) (- set selected)\<rparr>)"
proof -
  have f: "available_balance sample_ext sample_funds = 7" "spendable sample_ext sample_funds 0"
    by (simp_all add: available_balance_def spendable_def pending_nullifier_set_def sample_funds_def new_wallet_def)
  then obtain selected change nullifiers where "spend_plan sample_ext sample_funds ''transfer'' 3 0 0 = Inr (selected, change, nullifiers)"
  proof -
    have "\<exists>p. spend_plan sample_ext sample_funds ''transfer'' 3 0 0 = Inr p"
      by (rule spend_plan_succeeds [OF _ _ f(2), of 3 0 0 "''transfer''"]) (auto simp: f(1))
    then show ?thesis using that by auto
  qed
  with finalize_removes_selected [OF this] show ?thesis by simp
qed

end
