(* ===== verification/WalletCommands.thy ===== *)
theory WalletCommands
  imports WalletSpend
begin

text \<open>
  The rollup commands of the wallet (\<open>cmd_shield_rollup\<close>, \<open>cmd_transfer_rollup\<close> and
  \<open>cmd_unshield_rollup\<close> in \<open>apps/wallet/src/lib.rs\<close>), from the loaded files to the submitted message.
  What the outside world answers (the rollup state, the files, the prover, the operator) is an
  argument; what the command does to the world is its trace of events: wallets written to disk,
  calls of the prover, submitted messages. Printing and progress events are left out.
\<close>

section \<open>The world\<close>

record RollupStateSnapshot =
  rs_auth_domain :: felt
  rs_required_tx_fee :: u64
  rs_tree :: merkle_tree
  rs_notes :: "note_memo list"

datatype event =
    Saved WalletFile
  | Proving string "string list"
  | Submitted kernel_inbox_message

text \<open>
  \<open>we_save\<close> is the outcome of writing the wallet file, \<open>we_make_proof\<close> that of the prover,
  \<open>we_submit\<close> the operation hash of the operator's receipt, \<open>we_deposit_balance\<close> the balance of a
  pool at the head the snapshot was taken at.
\<close>

record wallet_env =
  we_snapshot :: "RollupStateSnapshot res"
  we_wallet :: "WalletFile res"
  we_recipient :: "payment_address res"
  we_source_hash :: "string res"
  we_deposit_balance :: "felt \<Rightarrow> u64 option res"
  we_save :: "WalletFile \<Rightarrow> unit res"
  we_make_proof :: "string \<Rightarrow> string list \<Rightarrow> tx_proof res"
  we_submit :: "kernel_inbox_message \<Rightarrow> string option res"
  we_ek_new :: "bytes \<Rightarrow> bool"
  we_trap :: bool
  we_dal_fee :: u64
  we_dal_fee_address :: payment_address
  we_hex_error :: "string \<Rightarrow> string"

record session =
  se_wallet :: WalletFile
  se_events :: "event list"

definition on_wallet :: "(WalletFile, 'a) action \<Rightarrow> (session, 'a) action" where
  "on_wallet m s = (case m (se_wallet s) of (r, w) \<Rightarrow> (r, s\<lparr>se_wallet := w\<rparr>))"

definition save_wallet :: "wallet_env \<Rightarrow> (session, unit) action" where
  "save_wallet env s =
     (case we_save env (se_wallet s) of
        Inl e \<Rightarrow> (Inl e, s)
      | Inr _ \<Rightarrow> (Inr (), s\<lparr>se_events := se_events s @ [Saved (se_wallet s)]\<rparr>))"

definition make_proof :: "wallet_env \<Rightarrow> string \<Rightarrow> string list \<Rightarrow> (session, tx_proof) action" where
  "make_proof env circuit args s =
     (we_make_proof env circuit args, s\<lparr>se_events := se_events s @ [Proving circuit args]\<rparr>)"

definition submit_kernel_message :: "wallet_env \<Rightarrow> kernel_inbox_message \<Rightarrow> (session, string option) action" where
  "submit_kernel_message env msg s =
     (we_submit env msg, s\<lparr>se_events := se_events s @ [Submitted msg]\<rparr>)"

definition persist_wallet_and_make_proof ::
  "wallet_env \<Rightarrow> string \<Rightarrow> string list \<Rightarrow> (session, tx_proof) action" where
  "persist_wallet_and_make_proof env circuit args =
     bind_act (save_wallet env) (\<lambda>_. make_proof env circuit args)"

text \<open>
  What every command does once the arguments of the prover are known: write the wallet, prove, write
  it again, convert and submit the request, record the submission and write the wallet once more.
\<close>

definition prove_and_submit ::
  "wallet_env \<Rightarrow> string \<Rightarrow> string list \<Rightarrow> (tx_proof \<Rightarrow> kernel_inbox_message res)
   \<Rightarrow> (string option \<Rightarrow> WalletFile \<Rightarrow> WalletFile) \<Rightarrow> (session, unit) action" where
  "prove_and_submit env circuit args to_kernel submitted =
     bind_act (persist_wallet_and_make_proof env circuit args) (\<lambda>pf.
     bind_act (save_wallet env) (\<lambda>_.
     bind_act (read_act (\<lambda>_. to_kernel pf)) (\<lambda>msg.
     bind_act (submit_kernel_message env msg) (\<lambda>operation_hash.
     bind_act (on_wallet (write_act (submitted operation_hash))) (\<lambda>_.
     save_wallet env)))))"

text \<open>A command runs on the wallet it loads; before that it has no effect.\<close>

definition run_session :: "(session, unit) action \<Rightarrow> WalletFile \<Rightarrow> unit res \<times> event list" where
  "run_session m w = (case m \<lparr>se_wallet = w, se_events = []\<rparr> of (r, s) \<Rightarrow> (r, se_events s))"

section \<open>Arguments of the prover\<close>

definition felt_to_hex :: "'x ext_scheme \<Rightarrow> felt \<Rightarrow> string" where
  "felt_to_hex X f =
     (let be = rev f;
          hex_str = hex_encode X be;
          trimmed = dropWhile (\<lambda>c. c = CHR ''0'') hex_str
      in if trimmed = [] then ''0x0'' else ''0x'' @ trimmed)"

definition felt_u64_to_hex :: "u64 \<Rightarrow> string" where
  "felt_u64_to_hex v = ''0x'' @ show_base 16 (unat v)"

definition parse_pubkey_hash_hex :: "'x ext_scheme \<Rightarrow> (string \<Rightarrow> string) \<Rightarrow> string \<Rightarrow> felt res" where
  "parse_pubkey_hash_hex X hex_error v =
     (if take 2 v = ''0x'' \<or> take 2 v = ''0X''
      then Inl (Err ''pubkey_hash must be 64 lowercase hex chars (no `0x` prefix)'')
      else if take (length DEPOSIT_RECIPIENT_PREFIX) v = DEPOSIT_RECIPIENT_PREFIX
      then Inl (Err (''pubkey_hash must be 64 lowercase hex chars (no `'' @ DEPOSIT_RECIPIENT_PREFIX @ ''` prefix)''))
      else if length v \<noteq> 64
      then Inl (Err (''pubkey_hash must be 64 lowercase hex chars; got '' @ show_nat (length v) @ '' chars''))
      else if \<exists>c \<in> set v. c \<notin> set ''0123456789abcdef''
      then Inl (Err ''pubkey_hash must be lowercase hex (0-9, a-f) only'')
      else case hex_decode X v of
             None \<Rightarrow> Inl (Err (''invalid pubkey_hash hex: '' @ hex_error v))
           | Some bs \<Rightarrow> if length bs = 32 then Inr bs else Inl (Panic ''source slice length does not match''))"

definition pubkey_hash_hex :: "'x ext_scheme \<Rightarrow> felt \<Rightarrow> string" where
  "pubkey_hash_hex X pubkey_hash = hex_encode X pubkey_hash"

section \<open>Paths and keys of the inputs\<close>

definition ensure_path_matches_root :: "'x ext_scheme \<Rightarrow> felt \<Rightarrow> felt \<Rightarrow> nat \<Rightarrow> unit res" where
  "ensure_path_matches_root X path_root expected_root tree_idx =
     guard (path_root = expected_root)
       (''stale Merkle path for note at tree index '' @ show_nat tree_idx @ '': expected root ''
        @ short X expected_root @ '', got '' @ short X path_root)"

definition current_root :: "'x ext_scheme \<Rightarrow> RollupStateSnapshot \<Rightarrow> felt" where
  "current_root X snapshot = merkle_root X (rs_tree snapshot)"

definition merkle_path :: "'x ext_scheme \<Rightarrow> RollupStateSnapshot \<Rightarrow> nat \<Rightarrow> (felt list \<times> felt) res" where
  "merkle_path X snapshot index =
     attempt (guard (\<not> length (rs_notes snapshot) \<le> index)
                (''note index '' @ show_nat index @ '' is outside current tree'')) (\<lambda>_.
     Inr (auth_path X (rs_tree snapshot) index))"

text \<open>What the loop over the selected notes collects for one of them.\<close>

record input_auth =
  ia_cm_path :: "felt list"
  ia_auth_path :: "felt list"
  ia_auth_pub_seed :: felt
  ia_sig :: "felt list"
  ia_key_idx :: u32

definition reserve_input ::
  "'x ext_scheme \<Rightarrow> RollupStateSnapshot \<Rightarrow> felt \<Rightarrow> felt \<Rightarrow> nat \<times> u32 \<times> felt \<Rightarrow> (WalletFile, input_auth) action" where
  "reserve_input X snapshot root sighash = (\<lambda>(tree_idx, addr_idx, stored_auth_root).
     bind_act (read_act (\<lambda>_. merkle_path X snapshot tree_idx)) (\<lambda>(siblings, path_root).
     bind_act (read_act (\<lambda>_. ensure_path_matches_root X path_root root tree_idx)) (\<lambda>_.
     bind_act (read_act (\<lambda>w. Inr (derive_ask X (acc_ask_base (wallet_account X w)) addr_idx))) (\<lambda>ask_j.
     bind_act (reserve_next_auth X addr_idx) (\<lambda>(key_idx, auth_root, auth_pub_seed, path).
     bind_act (read_act (\<lambda>_. guard (auth_root = stored_auth_root)
                 (''auth_root mismatch for note at tree index '' @ show_nat tree_idx))) (\<lambda>_.
     ret_act \<lparr>ia_cm_path = siblings, ia_auth_path = path, ia_auth_pub_seed = auth_pub_seed,
              ia_sig = fst (wots_sign X ask_j key_idx sighash), ia_key_idx = key_idx\<rparr>))))))"

fun reserve_inputs ::
  "'x ext_scheme \<Rightarrow> RollupStateSnapshot \<Rightarrow> felt \<Rightarrow> felt \<Rightarrow> (nat \<times> u32 \<times> felt) list \<Rightarrow> (WalletFile, input_auth list) action" where
  "reserve_inputs X snapshot root sighash [] = ret_act []"
| "reserve_inputs X snapshot root sighash (i # is) =
     bind_act (reserve_input X snapshot root sighash i) (\<lambda>a.
     bind_act (reserve_inputs X snapshot root sighash is) (\<lambda>as. ret_act (a # as)))"

definition input_ref :: "wallet_note \<Rightarrow> nat \<times> u32 \<times> felt" where
  "input_ref n = (nt_index n, nt_addr_index n, nt_auth_root n)"

definition input_args :: "'x ext_scheme \<Rightarrow> (wallet_note \<times> input_auth) list \<Rightarrow> string list" where
  "input_args X inputs =
     concat (map (\<lambda>(n, a). [felt_to_hex X (note_nullifier X n), felt_to_hex X (nt_nk_spend n),
         felt_to_hex X (nt_auth_root n), felt_to_hex X (ia_auth_pub_seed a), felt_u64_to_hex (ucast (ia_key_idx a)),
         felt_to_hex X (nt_d_j n), felt_u64_to_hex (nt_v n), felt_to_hex X (nt_rseed n),
         felt_u64_to_hex (word_of_nat (nt_index n))]) inputs)
     @ map (felt_to_hex X) (concat (map (\<lambda>(_, a). ia_cm_path a) inputs))
     @ map (felt_to_hex X) (concat (map (\<lambda>(_, a). ia_auth_path a) inputs))
     @ map (felt_to_hex X) (concat (map (\<lambda>(_, a). ia_sig a) inputs))"

definition input_fields :: "nat \<Rightarrow> nat" where
  "input_fields n = 9 * n + n * DEPTH + n * AUTH_DEPTH + n * WOTS_CHAINS"

section \<open>Transfers\<close>

definition transfer_output_args ::
  "'x ext_scheme \<Rightarrow> PreparedOutputNote \<Rightarrow> felt \<Rightarrow> u64 \<Rightarrow> felt \<Rightarrow> felt \<Rightarrow> felt \<Rightarrow> string list" where
  "transfer_output_args X n d_j v auth_root auth_pub_seed nk_tag =
     [felt_to_hex X (po_cm n), felt_to_hex X d_j, felt_u64_to_hex v, felt_to_hex X (po_rseed n),
      felt_to_hex X auth_root, felt_to_hex X auth_pub_seed, felt_to_hex X nk_tag, felt_to_hex X (po_mh n)]"

definition transfer_args ::
  "'x ext_scheme \<Rightarrow> felt \<Rightarrow> felt \<Rightarrow> u64 \<Rightarrow> (wallet_note \<times> input_auth) list \<Rightarrow> TransferNotes
   \<Rightarrow> payment_address \<Rightarrow> u64 \<Rightarrow> u64 \<Rightarrow> payment_address \<Rightarrow> u64 \<Rightarrow> string list" where
  "transfer_args X auth_domain root fee inputs ns recipient amount change producer_address dal_fee =
     (let n = length inputs; total_fields = 4 + input_fields n + 24; c = tn_change_state ns in
      [felt_u64_to_hex (word_of_nat total_fields), felt_u64_to_hex (word_of_nat n), felt_to_hex X auth_domain,
       felt_to_hex X root, felt_u64_to_hex fee]
      @ input_args X inputs
      @ transfer_output_args X (tn_note_1 ns) (pa_d_j recipient) amount (pa_auth_root recipient)
          (pa_auth_pub_seed recipient) (pa_nk_tag recipient)
      @ transfer_output_args X (tn_note_2 ns) (wa_d_j c) change (wa_auth_root c) (wa_auth_pub_seed c) (wa_nk_tag c)
      @ transfer_output_args X (tn_note_3 ns) (pa_d_j producer_address) dal_fee (pa_auth_root producer_address)
          (pa_auth_pub_seed producer_address) (pa_nk_tag producer_address))"

definition transfer_session ::
  "'x ext_scheme \<Rightarrow> wallet_env \<Rightarrow> draw \<times> draw \<times> draw \<Rightarrow> RollupStateSnapshot \<Rightarrow> payment_address \<Rightarrow> u64 \<Rightarrow> u64
   \<Rightarrow> string option \<Rightarrow> (session, unit) action" where
  "transfer_session X env rngs snapshot recipient amount fee memo =
     (let root = current_root X snapshot; dal_fee = we_dal_fee env; producer_address = we_dal_fee_address env in
      bind_act (read_act (\<lambda>s. Inr (acc_outgoing_seed (wallet_account X (se_wallet s))))) (\<lambda>outgoing_seed.
      bind_act (read_act (\<lambda>s. spend_plan X (se_wallet s) ''transfer'' amount fee dal_fee)) (\<lambda>(selected, change, nullifiers).
      bind_act (on_wallet (transfer_notes X (we_ek_new env) (we_trap env) rngs recipient amount change dal_fee
                  producer_address (map_option as_bytes memo) outgoing_seed)) (\<lambda>ns.
      let sighash = transfer_sighash X (rs_auth_domain snapshot) root nullifiers fee
            (po_cm (tn_note_1 ns)) (po_cm (tn_note_2 ns)) (po_cm (tn_note_3 ns))
            (po_mh (tn_note_1 ns)) (po_mh (tn_note_2 ns)) (po_mh (tn_note_3 ns)) in
      bind_act (read_act (\<lambda>s. Inr (map (\<lambda>i. wf_notes (se_wallet s) ! i) selected))) (\<lambda>inputs.
      bind_act (on_wallet (reserve_inputs X snapshot root sighash (map input_ref inputs))) (\<lambda>auths.
      prove_and_submit env ''run_transfer''
        (transfer_args X (rs_auth_domain snapshot) root fee (zip inputs auths) ns recipient amount change
                     producer_address dal_fee)
        (\<lambda>pf. attempt (transfer_req_to_kernel (transfer_request root nullifiers fee ns pf)) (\<lambda>kernel_req. Inr (MTransfer kernel_req)))
        (register_pending_spend nullifiers (''transfer '' @ show_word amount))))))))"

definition cmd_transfer_rollup ::
  "'x ext_scheme \<Rightarrow> wallet_env \<Rightarrow> draw \<times> draw \<times> draw \<Rightarrow> u64 \<Rightarrow> u64 option \<Rightarrow> string option \<Rightarrow> unit res \<times> event list" where
  "cmd_transfer_rollup X env rngs amount fee memo =
     (case attempt (we_snapshot env) (\<lambda>snapshot.
           attempt (resolve_requested_tx_fee fee (rs_required_tx_fee snapshot)) (\<lambda>fee.
           attempt (ensure_positive_dal_fee (we_dal_fee env)) (\<lambda>_.
           attempt (we_wallet env) (\<lambda>w.
           attempt (we_recipient env) (\<lambda>recipient.
           Inr (snapshot, fee, w, recipient)))))) of
        Inl e \<Rightarrow> (Inl e, [])
      | Inr (snapshot, fee, w, recipient) \<Rightarrow>
          run_session (transfer_session X env rngs snapshot recipient amount fee memo) w)"

section \<open>Unshields\<close>

definition resolve_rollup_unshield_recipient :: "'x ext_scheme \<Rightarrow> wallet_env \<Rightarrow> string option \<Rightarrow> string res" where
  "resolve_rollup_unshield_recipient X env recipient =
     (case recipient of Some v \<Rightarrow> validate_l1_withdrawal_recipient X v | None \<Rightarrow> we_source_hash env)"

definition unshield_args ::
  "'x ext_scheme \<Rightarrow> felt \<Rightarrow> felt \<Rightarrow> u64 \<Rightarrow> u64 \<Rightarrow> felt \<Rightarrow> (wallet_note \<times> input_auth) list \<Rightarrow> UnshieldNotes
   \<Rightarrow> u64 \<Rightarrow> payment_address \<Rightarrow> u64 \<Rightarrow> string list" where
  "unshield_args X auth_domain root amount fee recipient_f inputs ns change producer_address dal_fee =
     (let n = length inputs; field_count = 6 + input_fields n + 15; has_change_val = (if 0 < change then 1 else 0) in
      [felt_u64_to_hex (word_of_nat field_count), felt_u64_to_hex (word_of_nat n), felt_to_hex X auth_domain,
       felt_to_hex X root, felt_u64_to_hex amount, felt_u64_to_hex fee, felt_to_hex X recipient_f]
      @ input_args X inputs
      @ [felt_u64_to_hex has_change_val]
      @ (case un_change_data ns of
           Some cd \<Rightarrow> [felt_to_hex X (cd_d_j cd), felt_u64_to_hex change, felt_to_hex X (cd_rseed cd),
                       felt_to_hex X (cd_auth_root cd), felt_to_hex X (cd_auth_pub_seed cd),
                       felt_to_hex X (cd_nk_tag cd), felt_to_hex X (cd_mh cd)]
         | None \<Rightarrow> replicate 7 ''0x0'')
      @ [felt_to_hex X (pa_d_j producer_address), felt_u64_to_hex dal_fee, felt_to_hex X (po_rseed (un_producer_note ns)),
         felt_to_hex X (pa_auth_root producer_address), felt_to_hex X (pa_auth_pub_seed producer_address),
         felt_to_hex X (pa_nk_tag producer_address), felt_to_hex X (po_mh (un_producer_note ns))])"

definition unshield_session ::
  "'x ext_scheme \<Rightarrow> wallet_env \<Rightarrow> draw \<times> draw \<Rightarrow> RollupStateSnapshot \<Rightarrow> u64 \<Rightarrow> u64 \<Rightarrow> string \<Rightarrow> (session, unit) action" where
  "unshield_session X env rngs snapshot amount fee recipient =
     (let root = current_root X snapshot; dal_fee = we_dal_fee env; producer_address = we_dal_fee_address env in
      bind_act (read_act (\<lambda>s. Inr (acc_outgoing_seed (wallet_account X (se_wallet s))))) (\<lambda>outgoing_seed.
      bind_act (read_act (\<lambda>s. spend_plan X (se_wallet s) ''unshield'' amount fee dal_fee)) (\<lambda>(selected, change, nullifiers).
      bind_act (on_wallet (unshield_notes X (we_ek_new env) (we_trap env) rngs change dal_fee producer_address
                  outgoing_seed)) (\<lambda>ns.
      let recipient_f = hash X (as_bytes recipient);
          mh_change_f = (case un_change_data ns of Some cd \<Rightarrow> cd_mh cd | None \<Rightarrow> ZERO);
          sighash = unshield_sighash X (rs_auth_domain snapshot) root nullifiers amount fee recipient_f
            (un_cm_change ns) mh_change_f (po_cm (un_producer_note ns)) (po_mh (un_producer_note ns)) in
      bind_act (read_act (\<lambda>s. Inr (map (\<lambda>i. wf_notes (se_wallet s) ! i) selected))) (\<lambda>inputs.
      bind_act (on_wallet (reserve_inputs X snapshot root sighash (map input_ref inputs))) (\<lambda>auths.
      prove_and_submit env ''run_unshield''
        (unshield_args X (rs_auth_domain snapshot) root amount fee recipient_f (zip inputs auths) ns change
                     producer_address dal_fee)
        (\<lambda>pf. attempt (unshield_req_to_kernel (unshield_request root nullifiers amount fee recipient ns pf)) (\<lambda>kernel_req. Inr (MUnshield kernel_req)))
        (register_pending_spend nullifiers (''unshield '' @ show_word amount))))))))"

definition cmd_unshield_rollup ::
  "'x ext_scheme \<Rightarrow> wallet_env \<Rightarrow> draw \<times> draw \<Rightarrow> u64 \<Rightarrow> u64 option \<Rightarrow> string option \<Rightarrow> unit res \<times> event list" where
  "cmd_unshield_rollup X env rngs amount fee recipient =
     (case attempt (resolve_rollup_unshield_recipient X env recipient) (\<lambda>recipient.
           attempt (we_snapshot env) (\<lambda>snapshot.
           attempt (resolve_requested_tx_fee fee (rs_required_tx_fee snapshot)) (\<lambda>fee.
           attempt (ensure_positive_dal_fee (we_dal_fee env)) (\<lambda>_.
           attempt (we_wallet env) (\<lambda>w.
           Inr (snapshot, fee, w, recipient)))))) of
        Inl e \<Rightarrow> (Inl e, [])
      | Inr (snapshot, fee, w, recipient) \<Rightarrow>
          run_session (unshield_session X env rngs snapshot amount fee recipient) w)"

section \<open>Shields\<close>

definition select_pending_deposit_by_pubkey_hash :: "'x ext_scheme \<Rightarrow> WalletFile \<Rightarrow> felt \<Rightarrow> PendingDeposit res" where
  "select_pending_deposit_by_pubkey_hash X w pubkey_hash =
     ok_or (find (\<lambda>p. pd_pubkey_hash p = pubkey_hash) (wf_pending_deposits w))
       (''deposit pool '' @ hex_encode X pubkey_hash @ '' is not tracked by this wallet'')"

text \<open>The amount a shield draws from a pool: as requested, or all that the fees leave.\<close>

definition shield_amount :: "'x ext_scheme \<Rightarrow> felt \<Rightarrow> u64 option \<Rightarrow> u64 \<Rightarrow> u64 \<Rightarrow> u64 option \<Rightarrow> u64 res" where
  "shield_amount X pubkey_hash pool fee producer_fee amount_arg =
     attempt (ok_or pool (''deposit pool '' @ pubkey_hash_hex X pubkey_hash @ '' not found or already drained'')) (\<lambda>pool_balance.
     attempt (ok_or (checked_add fee producer_fee) ''fee + producer_fee overflow'') (\<lambda>min_fees.
     attempt (guard (\<not> pool_balance < min_fees)
                (''deposit pool '' @ pubkey_hash_hex X pubkey_hash @ '' balance '' @ show_word pool_balance
                 @ '' < required fees '' @ show_word min_fees @ '' (tx_fee '' @ show_word fee
                 @ '' + producer_fee '' @ show_word producer_fee @ '')'')) (\<lambda>_.
     let amount = (case amount_arg of Some a \<Rightarrow> a | None \<Rightarrow> pool_balance - min_fees) in
     attempt (ok_or (checked_add amount min_fees) ''shield total draw overflow'') (\<lambda>total_drain.
     attempt (guard (\<not> pool_balance < total_drain)
                (''deposit pool '' @ pubkey_hash_hex X pubkey_hash @ '' balance '' @ show_word pool_balance
                 @ '' < requested draw '' @ show_word total_drain @ '' (amount '' @ show_word amount
                 @ '' + tx_fee '' @ show_word fee @ '' + producer_fee '' @ show_word producer_fee @ '')'')) (\<lambda>_.
     Inr amount)))))"

definition shield_args ::
  "'x ext_scheme \<Rightarrow> felt \<Rightarrow> felt \<Rightarrow> u64 \<Rightarrow> u64 \<Rightarrow> u64 \<Rightarrow> PreparedOutputNote \<Rightarrow> PreparedOutputNote \<Rightarrow> felt \<Rightarrow> felt
   \<Rightarrow> payment_address \<Rightarrow> felt \<Rightarrow> u32 \<Rightarrow> felt list \<Rightarrow> felt list \<Rightarrow> payment_address \<Rightarrow> string list" where
  "shield_args X auth_domain pubkey_hash amount fee producer_fee note_recipient note_producer auth_root auth_pub_seed
       recipient blind key_idx sig path producer_address =
     (let total_fields = 16 + WOTS_CHAINS + AUTH_DEPTH + 5 in
      [felt_u64_to_hex (word_of_nat total_fields), felt_to_hex X auth_domain, felt_to_hex X pubkey_hash,
       felt_u64_to_hex amount, felt_u64_to_hex fee, felt_u64_to_hex producer_fee,
       felt_to_hex X (po_cm note_recipient), felt_to_hex X (po_cm note_producer),
       felt_to_hex X (po_mh note_recipient), felt_to_hex X (po_mh note_producer),
       felt_to_hex X auth_root, felt_to_hex X auth_pub_seed, felt_to_hex X (pa_nk_tag recipient),
       felt_to_hex X (pa_d_j recipient), felt_to_hex X (po_rseed note_recipient), felt_to_hex X blind,
       felt_u64_to_hex (ucast key_idx)]
      @ map (felt_to_hex X) sig
      @ map (felt_to_hex X) path
      @ [felt_to_hex X (pa_auth_root producer_address), felt_to_hex X (pa_auth_pub_seed producer_address),
         felt_to_hex X (pa_nk_tag producer_address), felt_to_hex X (pa_d_j producer_address),
         felt_to_hex X (po_rseed note_producer)])"

definition shield_request ::
  "felt \<Rightarrow> u64 \<Rightarrow> u64 \<Rightarrow> u64 \<Rightarrow> PreparedOutputNote \<Rightarrow> PreparedOutputNote \<Rightarrow> tx_proof \<Rightarrow> shield_req" where
  "shield_request pubkey_hash fee amount producer_fee note_recipient note_producer pf =
     \<lparr>sr_pubkey_hash = pubkey_hash, sr_fee = fee, sr_v = amount, sr_producer_fee = producer_fee, sr_proof = pf,
      sr_client_cm = po_cm note_recipient, sr_client_enc = po_enc note_recipient,
      sr_producer_cm = po_cm note_producer, sr_producer_enc = po_enc note_producer\<rparr>"

text \<open>Every entry of the pool remembers the commitment of the latest shield.\<close>

definition mark_shielded :: "felt \<Rightarrow> felt \<Rightarrow> WalletFile \<Rightarrow> WalletFile" where
  "mark_shielded pubkey_hash cm w =
     w\<lparr>wf_pending_deposits := map (\<lambda>p. if pd_pubkey_hash p = pubkey_hash then p\<lparr>pd_shielded_cm := Some cm\<rparr> else p)
         (wf_pending_deposits w)\<rparr>"

definition shield_session ::
  "'x ext_scheme \<Rightarrow> wallet_env \<Rightarrow> draw \<times> draw \<Rightarrow> RollupStateSnapshot \<Rightarrow> felt \<Rightarrow> u64 \<Rightarrow> PendingDeposit \<Rightarrow> (session, unit) action" where
  "shield_session X env = (\<lambda>(rng_1, rng_2) snapshot pubkey_hash amount pending.
     let auth_domain = rs_auth_domain snapshot; fee = rs_required_tx_fee snapshot; producer_fee = we_dal_fee env;
         producer_address = we_dal_fee_address env; address_index = pd_address_index pending; blind = pd_blind pending in
     bind_act (read_act (\<lambda>s. guard (unat address_index < length (wf_addresses (se_wallet s)))
                 (''missing wallet address record '' @ show_word address_index))) (\<lambda>_.
     bind_act (read_act (\<lambda>s. case kem_keys X (se_wallet s) address_index of (ek_v, _, ek_d, _) \<Rightarrow>
                 Inr (address_payment_address (wf_addresses (se_wallet s) ! unat address_index) ek_v ek_d))) (\<lambda>recipient.
     bind_act (read_act (\<lambda>s. Inr (acc_outgoing_seed (wallet_account X (se_wallet s))))) (\<lambda>outgoing_seed.
     bind_act (read_act (\<lambda>_. build_output_note_with_outgoing X (we_ek_new env) rng_1 recipient amount None
                 outgoing_seed ShieldOutput)) (\<lambda>note_recipient.
     bind_act (read_act (\<lambda>_. build_output_note_with_outgoing X (we_ek_new env) rng_2 producer_address producer_fee
                 (Some (as_bytes ''dal'')) outgoing_seed ProducerFee)) (\<lambda>note_producer.
     let sighash = shield_sighash X auth_domain pubkey_hash amount fee producer_fee
           (po_cm note_recipient) (po_cm note_producer) (po_mh note_recipient) (po_mh note_producer) in
     bind_act (read_act (\<lambda>s. Inr (derive_ask X (acc_ask_base (wallet_account X (se_wallet s))) address_index))) (\<lambda>ask_j.
     bind_act (on_wallet (reserve_next_auth X address_index)) (\<lambda>(key_idx, auth_root, auth_pub_seed, path).
     bind_act (read_act (\<lambda>_. guard (auth_root = pa_auth_root recipient \<and> auth_pub_seed = pa_auth_pub_seed recipient)
                 (''auth tree mismatch for address '' @ show_word address_index @ '': reserved ('' @ short X auth_root
                  @ '', '' @ short X auth_pub_seed @ '') but recipient state has ('' @ short X (pa_auth_root recipient)
                  @ '', '' @ short X (pa_auth_pub_seed recipient) @ '')''))) (\<lambda>_.
     let recomputed_pkh = deposit_pubkey_hash X auth_domain auth_root auth_pub_seed blind in
     bind_act (read_act (\<lambda>_. guard (recomputed_pkh = pubkey_hash)
                 (''pubkey_hash mismatch: recomputed '' @ pubkey_hash_hex X recomputed_pkh @ '' != requested ''
                  @ pubkey_hash_hex X pubkey_hash))) (\<lambda>_.
     let sig = fst (wots_sign X ask_j key_idx sighash) in
     prove_and_submit env ''run_shield''
       (shield_args X auth_domain pubkey_hash amount fee producer_fee note_recipient note_producer auth_root
          auth_pub_seed recipient blind key_idx sig path producer_address)
       (\<lambda>pf. attempt (shield_req_to_kernel
            (shield_request pubkey_hash fee amount producer_fee note_recipient note_producer pf)) (\<lambda>kernel_req.
          Inr (MShield kernel_req)))
       (\<lambda>_. mark_shielded pubkey_hash (po_cm note_recipient))))))))))))"

definition cmd_shield_rollup ::
  "'x ext_scheme \<Rightarrow> wallet_env \<Rightarrow> draw \<times> draw \<Rightarrow> string \<Rightarrow> u64 option \<Rightarrow> unit res \<times> event list" where
  "cmd_shield_rollup X env rngs pubkey_hash_arg amount_arg =
     (case attempt (parse_pubkey_hash_hex X (we_hex_error env) pubkey_hash_arg) (\<lambda>pubkey_hash.
           attempt (we_snapshot env) (\<lambda>snapshot.
           attempt (ensure_positive_dal_fee (we_dal_fee env)) (\<lambda>_.
           attempt (we_deposit_balance env pubkey_hash) (\<lambda>pool.
           attempt (shield_amount X pubkey_hash pool (rs_required_tx_fee snapshot) (we_dal_fee env) amount_arg) (\<lambda>amount.
           attempt (we_wallet env) (\<lambda>w.
           attempt (select_pending_deposit_by_pubkey_hash X w pubkey_hash) (\<lambda>pending.
           attempt (guard (rs_auth_domain snapshot = pd_auth_domain pending)
                      (''auth_domain mismatch: kernel '' @ short X (rs_auth_domain snapshot) @ '' != local PendingDeposit ''
                       @ short X (pd_auth_domain pending) @ '' for pool '' @ pubkey_hash_hex X pubkey_hash)) (\<lambda>_.
           Inr (pubkey_hash, snapshot, amount, w, pending))))))))) of
        Inl e \<Rightarrow> (Inl e, [])
      | Inr (pubkey_hash, snapshot, amount, w, pending) \<Rightarrow>
          run_session (shield_session X env rngs snapshot pubkey_hash amount pending) w)"

end
