(* ===== verification/WalletPersist.thy ===== *)
theory WalletPersist
  imports WalletCommands
begin

text \<open>
  What the rollup commands guarantee whatever the prover and the operator answer: the one-time keys
  of a request are recorded on disk before the prover sees their signatures, the arguments of the
  prover open commitments, authenticate keys and conserve value, and are as many as announced.
\<close>

section \<open>The trace of a submission\<close>

definition full_trace :: "WalletFile \<Rightarrow> string \<Rightarrow> string list \<Rightarrow> kernel_inbox_message \<Rightarrow> WalletFile \<Rightarrow> event list" where
  "full_trace w circuit args msg w' = [Saved w, Proving circuit args, Saved w, Submitted msg, Saved w']"

lemma prove_and_submit_trace:
  assumes "prove_and_submit env circuit args to_kernel submitted s = (r, s')"
  obtains n msg h where
    "se_events s' = se_events s @ take n (full_trace (se_wallet s) circuit args msg (submitted h (se_wallet s)))"
    "n \<le> 5" "r = Inr () \<longleftrightarrow> n = 5"
    "4 \<le> n \<Longrightarrow> \<exists>pf. we_make_proof env circuit args = Inr pf \<and> to_kernel pf = Inr msg"
proof -
  let ?w = "se_wallet s"
  note defs = prove_and_submit_def persist_wallet_and_make_proof_def save_wallet_def make_proof_def
    submit_kernel_message_def on_wallet_def bind_act_def full_trace_def
  show thesis
  proof (cases "we_save env ?w")
    case (Inl e)
    then show thesis using assms by (intro that [of 0]) (auto simp: defs)
  next
    case (Inr u)
    note save = this
    show thesis
    proof (cases "we_make_proof env circuit args")
      case (Inl e)
      then show thesis using assms save by (intro that [of 2]) (auto simp: defs)
    next
      case (Inr pf)
      note pf = this
      show thesis
      proof (cases "to_kernel pf")
        case (Inl e)
        then show thesis using assms save pf by (intro that [of 3]) (auto simp: defs)
      next
        case (Inr msg)
        note msg = this
        show thesis
        proof (cases "we_submit env msg")
          case (Inl e)
          then show thesis using assms save pf msg by (intro that [of 4 msg]) (auto simp: defs)
        next
          case (Inr h)
          show thesis
          proof (cases "we_save env (submitted h ?w)")
            case (Inl e)
            then show thesis using assms save pf msg Inr by (intro that [of 4 msg]) (auto simp: defs)
          next
            case (Inr v)
            then show thesis
              using assms save pf msg \<open>we_submit env msg = Inr h\<close> by (intro that [of 5 msg h]) (auto simp: defs)
          qed
        qed
      qed
    qed
  qed
qed

section \<open>Reserved inputs\<close>

text \<open>The snapshot the commands load: a tree over the commitments of its notes.\<close>

definition snapshot_ok :: "'x ext_scheme \<Rightarrow> RollupStateSnapshot \<Rightarrow> bool" where
  "snapshot_ok X snapshot \<longleftrightarrow>
     mt_zero_hashes (rs_tree snapshot) = zero_hash_list X DEPTH
     \<and> mt_leaves (rs_tree snapshot) = map nm_cm (rs_notes snapshot) \<and> length (rs_notes snapshot) \<le> 2 ^ DEPTH"

text \<open>
  What the prover is given for one input: a path from the note's leaf to the root, a path from the
  key's leaf to the note's authorisation root, and a signature of the key that verifies.
\<close>

definition input_ok ::
  "'x ext_scheme \<Rightarrow> felt \<Rightarrow> RollupStateSnapshot \<Rightarrow> felt \<Rightarrow> wallet_note \<Rightarrow> input_auth \<Rightarrow> bool" where
  "input_ok X sk snapshot sighash n a \<longleftrightarrow>
     (let ask_j = address_ask X sk (nt_addr_index n); leaf = auth_leaf_hash X ask_j (ia_key_idx a) in
      length (ia_cm_path a) = DEPTH \<and> length (ia_auth_path a) = AUTH_DEPTH \<and> length (ia_sig a) = WOTS_CHAINS
      \<and> nt_index n < length (rs_notes snapshot)
      \<and> recompute_root_from_path X (nm_cm (rs_notes snapshot ! nt_index n)) (nt_index n) (ia_cm_path a)
        = current_root X snapshot
      \<and> ia_auth_pub_seed a = derive_auth_pub_seed X ask_j
      \<and> xmss_climb X (ia_auth_pub_seed a) 0 (unat (ia_key_idx a)) leaf (ia_auth_path a) = nt_auth_root n
      \<and> verify_wots_signature_against_leaf X sighash (ia_auth_pub_seed a) (ia_key_idx a) (ia_sig a) leaf = Inr ())"

definition input_key :: "wallet_note \<times> input_auth \<Rightarrow> nat \<times> nat" where
  "input_key = (\<lambda>(n, a). (unat (nt_addr_index n), unat (ia_key_idx a)))"

lemma snapshot_path:
  assumes "snapshot_ok X snapshot" "i < length (rs_notes snapshot)" "auth_path X (rs_tree snapshot) i = (siblings, root)"
  shows "length siblings = DEPTH" "root = current_root X snapshot"
    "recompute_root_from_path X (nm_cm (rs_notes snapshot ! i)) i siblings = current_root X snapshot"
proof -
  let ?ls = "mt_leaves (rs_tree snapshot)"
  have z: "mt_zero_hashes (rs_tree snapshot) = zero_hash_list X DEPTH" and ls: "?ls = map nm_cm (rs_notes snapshot)"
    and i: "i < 2 ^ DEPTH" using assms(1,2) by (simp_all add: snapshot_ok_def)
  have s: "siblings = map (sibling_at X (leaf_at ?ls) i) [0..<DEPTH]" and r: "root = tree_root X ?ls"
    using assms(3) auth_path_correct [OF z, of i] by simp_all
  then show "length siblings = DEPTH" "root = current_root X snapshot"
    using z by (simp_all add: current_root_def merkle_root_tree_root)
  have "leaf_at ?ls i = nm_cm (rs_notes snapshot ! i)" using assms(2) by (simp add: ls leaf_at_def)
  then show "recompute_root_from_path X (nm_cm (rs_notes snapshot ! i)) i siblings = current_root X snapshot"
    using recompute_siblings [of X "leaf_at ?ls" 0 i DEPTH] i z
    by (simp add: s current_root_def merkle_root_tree_root tree_root_def)
qed

lemma sign_verifies:
  assumes "is_felt m"
  shows "verify_wots_signature_against_leaf X m (derive_auth_pub_seed X ask_j) k (fst (wots_sign X ask_j k m))
           (auth_leaf_hash X ask_j k) = Inr ()"
  using assms recover_wots_sign [of m X ask_j k]
  by (simp add: verify_wots_signature_against_leaf_def wots_sign_nth(1) auth_leaf_hash_leaf is_felt_def)

lemma authentic_path:
  assumes "authentic X sk j (key_idx, auth_root, auth_pub_seed, path)"
  shows "length path = AUTH_DEPTH"
proof -
  have "unat key_idx < AUTH_TREE_SIZE" "auth_tree_path X False (address_ask X sk j) (unat key_idx) = Inr path"
    using assms by (simp_all add: authentic_def)
  then show ?thesis using auth_path_authenticates_leaf [of "unat key_idx" X "address_ask X sk j"] by auto
qed

lemma reserve_next_auth_notes: "reserve_next_auth X j w = (r, w') \<Longrightarrow> wf_notes w' = wf_notes w"
  by (auto simp: reserve_next_auth_def Let_def split: if_splits prod.splits sum.splits)

lemma reserve_input_at:
  assumes w: "wallet_at X sk ns w" and sh: "is_felt sighash" and snap: "snapshot_ok X snapshot"
    and run: "reserve_input X snapshot (current_root X snapshot) sighash (input_ref n) w = (r, w')"
  obtains ms where "wallet_at X sk ms w'" "length ms = length ns" "\<And>i. i < length ns \<Longrightarrow> ns ! i \<le> ms ! i"
    "wf_notes w' = wf_notes w"
    "\<And>a. r = Inr a \<Longrightarrow> input_ok X sk snapshot sighash n a \<and> fst (input_key (n, a)) < length ns
        \<and> snd (input_key (n, a)) = ns ! fst (input_key (n, a)) \<and> snd (input_key (n, a)) < ms ! fst (input_key (n, a))"
proof -
  let ?j = "nt_addr_index n" and ?i = "nt_index n"
  have sk: "derive_ask X (acc_ask_base (wallet_account X w)) ?j = address_ask X sk ?j"
    using w by (simp add: address_ask_def wallet_account_def wallet_at_def)
  note defs = reserve_input_def input_ref_def bind_act_def merkle_path_def ensure_path_matches_root_def
  show thesis
  proof (cases "?i < length (rs_notes snapshot)")
    case False
    then have "w' = w" "\<And>a. r \<noteq> Inr a" using run by (auto simp: defs guard_def)
    then show thesis using w by (intro that [of ns]) auto
  next
    case True
    obtain siblings root where path: "auth_path X (rs_tree snapshot) ?i = (siblings, root)"
      by (cases "auth_path X (rs_tree snapshot) ?i")
    note p = snapshot_path [OF snap True path]
    show thesis
    proof (cases "unat ?j < length ns \<and> ns ! unat ?j < AUTH_TREE_SIZE")
      case False
      obtain e where "reserve_next_auth X ?j w = (Inl (Err e), w)" by (rule reserve_refused [OF w False])
      then have "w' = w" "\<And>a. r \<noteq> Inr a" using run True path p(2) by (auto simp: defs guard_def)
      then show thesis using w by (intro that [of ns]) auto
    next
      case in_range: True
      then have jr: "unat ?j < length ns" "ns ! unat ?j < AUTH_TREE_SIZE" by simp_all
      obtain q w1 where q: "reserve_next_auth X ?j w = (Inr q, w1)" "fst q = word_of_nat (ns ! unat ?j)"
        "authentic X sk ?j q" "wallet_at X sk (ns[unat ?j := ns ! unat ?j + 1]) w1"
        by (rule reserve_at [OF w jr])
      obtain key_idx ar ps ap where q': "q = (key_idx, ar, ps, ap)" by (cases q)
      have key: "unat key_idx = ns ! unat ?j"
        using q(2) in_range size_fits by (simp add: q' unat_of_nat_small)
      have auth: "ps = derive_auth_pub_seed X (address_ask X sk ?j)"
        "xmss_climb X ps 0 (unat key_idx) (auth_leaf_hash X (address_ask X sk ?j) key_idx) ap = ar"
        using q(3) unfolding authentic_def q' by auto
      have ap: "length ap = AUTH_DEPTH" by (rule authentic_path [OF q(3) [unfolded q']])
      have w': "w' = w1" using run True path p(2) q(1) by (auto simp: defs guard_def q' split: if_splits)
      have ok: "input_ok X sk snapshot sighash n a \<and> unat (ia_key_idx a) = ns ! unat ?j" if "r = Inr a" for a
      proof -
        have "ar = nt_auth_root n" "a = \<lparr>ia_cm_path = siblings, ia_auth_path = ap, ia_auth_pub_seed = ps,
            ia_sig = fst (wots_sign X (address_ask X sk ?j) key_idx sighash), ia_key_idx = key_idx\<rparr>"
          using run that True path p(2) q(1) by (auto simp: defs guard_def q' sk split: if_splits)
        then show ?thesis
          using True p auth ap key sign_verifies [OF sh]
          by (simp add: input_ok_def Let_def wots_sign_nth(1))
      qed
      show thesis
      proof (rule that)
        show "wallet_at X sk (ns[unat ?j := ns ! unat ?j + 1]) w'" using q(4) w' by simp
        show "wf_notes w' = wf_notes w" using reserve_next_auth_notes [OF q(1)] w' by simp
      qed (use ok jr(1) in \<open>auto simp: nth_list_update input_key_def\<close>)
    qed
  qed
qed

text \<open>The loop over the inputs: distinct keys, all below the counters it leaves behind.\<close>

lemma reserve_inputs_at:
  assumes "wallet_at X sk ns w" "is_felt sighash" "snapshot_ok X snapshot"
    and "reserve_inputs X snapshot (current_root X snapshot) sighash (map input_ref inputs) w = (r, w')"
  shows "\<exists>ms. wallet_at X sk ms w' \<and> length ms = length ns \<and> (\<forall>i < length ns. ns ! i \<le> ms ! i)
    \<and> wf_notes w' = wf_notes w
    \<and> (\<forall>as. r = Inr as \<longrightarrow> length as = length inputs
         \<and> (\<forall>(n, a) \<in> set (zip inputs as). input_ok X sk snapshot sighash n a)
         \<and> (\<forall>k \<in> set (map input_key (zip inputs as)). fst k < length ns \<and> ns ! fst k \<le> snd k \<and> snd k < ms ! fst k)
         \<and> distinct (map input_key (zip inputs as)))"
  using assms(1,4)
proof (induction inputs arbitrary: ns w r w')
  case Nil
  then show ?case by auto
next
  case (Cons n inputs)
  let ?root = "current_root X snapshot"
  from Cons.prems(2) show ?case unfolding list.map reserve_inputs.simps
  proof (cases rule: bind_act_cases)
    case (fail e)
    then obtain ms where "wallet_at X sk ms w'" "length ms = length ns" "\<And>i. i < length ns \<Longrightarrow> ns ! i \<le> ms ! i"
      "wf_notes w' = wf_notes w"
      using reserve_input_at [OF Cons.prems(1) assms(2,3), of n "Inl e" w'] by metis
    then show ?thesis using fail(2) by auto
  next
    case (go a w1)
    obtain ms where ms: "wallet_at X sk ms w1" "length ms = length ns" "\<And>i. i < length ns \<Longrightarrow> ns ! i \<le> ms ! i"
      "wf_notes w1 = wf_notes w" and a: "input_ok X sk snapshot sighash n a" "fst (input_key (n, a)) < length ns"
      "snd (input_key (n, a)) = ns ! fst (input_key (n, a))" "snd (input_key (n, a)) < ms ! fst (input_key (n, a))"
      using reserve_input_at [OF Cons.prems(1) assms(2,3) go(1)] by (metis (no_types, lifting))
    obtain r1 w2 where r1: "reserve_inputs X snapshot ?root sighash (map input_ref inputs) w1 = (r1, w2)"
      by (cases "reserve_inputs X snapshot ?root sighash (map input_ref inputs) w1")
    have out: "w' = w2" "r = attempt r1 (\<lambda>as. Inr (a # as))"
      using go(2) r1 by (auto simp: bind_act_def split: sum.splits)
    obtain ks where ks: "wallet_at X sk ks w2" "length ks = length ms" "\<forall>i < length ms. ms ! i \<le> ks ! i"
      "wf_notes w2 = wf_notes w1"
      and as: "\<And>as. r1 = Inr as \<Longrightarrow> length as = length inputs
         \<and> (\<forall>(n, a) \<in> set (zip inputs as). input_ok X sk snapshot sighash n a)
         \<and> (\<forall>k \<in> set (map input_key (zip inputs as)). fst k < length ms \<and> ms ! fst k \<le> snd k \<and> snd k < ks ! fst k)
         \<and> distinct (map input_key (zip inputs as))"
      using Cons.IH [OF ms(1) r1] by blast
    have up: "ns ! i \<le> ks ! i" if "i < length ns" for i
      using ms(2,3) ks(3) that by (metis order_trans)
    have "length xs = length (n # inputs)
         \<and> (\<forall>(n, a) \<in> set (zip (n # inputs) xs). input_ok X sk snapshot sighash n a)
         \<and> (\<forall>k \<in> set (map input_key (zip (n # inputs) xs)). fst k < length ns \<and> ns ! fst k \<le> snd k \<and> snd k < ks ! fst k)
         \<and> distinct (map input_key (zip (n # inputs) xs))" if r: "r = Inr xs" for xs
    proof -
      obtain as where ok: "r1 = Inr as" "xs = a # as" using r out(2) by (cases r1) simp_all
      note asr = as [OF ok(1)]
      have "input_key (n, a) \<notin> set (map input_key (zip inputs as))"
        using asr a(2-4) ms(2) by (metis leD)
      moreover have "snd (input_key (n, a)) < ks ! fst (input_key (n, a))"
        using a(2,4) ks(3) ms(2) by (metis less_le_trans)
      moreover have "\<forall>k \<in> set (map input_key (zip inputs as)). fst k < length ns \<and> ns ! fst k \<le> snd k \<and> snd k < ks ! fst k"
        using asr ms(2,3) by (metis order_trans)
      ultimately show ?thesis using asr a ok(2) by auto
    qed
    then show ?thesis using ks ms(2,4) up out(1) by auto
  qed
qed


section \<open>Fresh inputs\<close>

text \<open>
  The inputs of a request: each is in order, and their one-time keys are distinct, not below the
  counters \<open>ns\<close> before the command and below the counters \<open>ms\<close> after it.
\<close>

definition inputs_fresh ::
  "'x ext_scheme \<Rightarrow> felt \<Rightarrow> RollupStateSnapshot \<Rightarrow> felt \<Rightarrow> nat list \<Rightarrow> nat list \<Rightarrow> (wallet_note \<times> input_auth) list \<Rightarrow> bool" where
  "inputs_fresh X sk snapshot sighash ns ms inputs \<longleftrightarrow>
     (\<forall>(n, a) \<in> set inputs. input_ok X sk snapshot sighash n a)
     \<and> (\<forall>k \<in> set (map input_key inputs). fst k < length ns \<and> ns ! fst k \<le> snd k \<and> snd k < ms ! fst k)
     \<and> distinct (map input_key inputs)"

lemma length_concat_const: "(\<And>x. x \<in> set xs \<Longrightarrow> length (f x) = k) \<Longrightarrow> length (concat (map f xs)) = length xs * k"
  by (induction xs) simp_all

lemma input_args_length:
  assumes "\<forall>(n, a) \<in> set inputs. input_ok X sk snapshot sighash n a"
  shows "length (input_args X inputs) = input_fields (length inputs)"
proof -
  have "length (ia_cm_path a) = DEPTH" "length (ia_auth_path a) = AUTH_DEPTH" "length (ia_sig a) = WOTS_CHAINS"
    if "(n, a) \<in> set inputs" for n a
    using assms that by (auto simp: input_ok_def Let_def)
  then show ?thesis
    unfolding input_args_def input_fields_def length_append length_map
    by (subst length_concat_const [where k = 9], force, subst length_concat_const [where k = DEPTH], force,
        subst length_concat_const [where k = AUTH_DEPTH], force, subst length_concat_const [where k = WOTS_CHAINS], force) simp
qed

text \<open>Any outcome of the construction of the notes leaves the keys as they are, up to a fresh address.\<close>

lemma change_address_at:
  assumes "blake_laws X" "wallet_at X sk ns w" "length ns + 1 < 2 ^ 32" "change_address X False w = (r, w')"
  shows "wallet_at X sk (ns @ [0]) w'" "wf_notes w' = wf_notes w"
  by (rule change_address_eq [OF assms(1-3)], use assms(4) in simp)+

lemma transfer_notes_at:
  assumes "blake_laws X" "wallet_at X sk ns w" "length ns + 1 < 2 ^ 32"
    and "transfer_notes X ek_new False (r1, r2, r3) recipient amount change dal_fee producer memo seed w = (Inr tn, w')"
  shows "wallet_at X sk (ns @ [0]) w'" "wf_notes w' = wf_notes w"
proof -
  obtain c where "change_address X False w = (Inr c, w')"
    using assms(4) by (auto simp: transfer_notes_def bind_act_def split: prod.splits sum.splits)
  then show "wallet_at X sk (ns @ [0]) w'" "wf_notes w' = wf_notes w" using change_address_at [OF assms(1-3)] by simp_all
qed

lemma unshield_notes_at:
  assumes "blake_laws X" "wallet_at X sk ns w" "length ns + 1 < 2 ^ 32"
    and "unshield_notes X ek_new False (r1, r2) change dal_fee producer seed w = (Inr un, w')"
  shows "wallet_at X sk (if 0 < change then ns @ [0] else ns) w'" "wf_notes w' = wf_notes w"
proof -
  have "if 0 < change then \<exists>c. change_address X False w = (Inr c, w') else w' = w"
    using assms(4) by (auto simp: unshield_notes_def change_note_def bind_act_def split: prod.splits sum.splits if_splits)
  then show "wallet_at X sk (if 0 < change then ns @ [0] else ns) w'" "wf_notes w' = wf_notes w"
    using change_address_at [OF assms(1-3)] assms(2) by (auto split: if_splits)
qed

section \<open>Sessions\<close>

lemma transfer_session_cases:
  assumes "transfer_session X env rngs snapshot recipient amount fee memo \<lparr>se_wallet = w, se_events = []\<rparr> = (r, s')"
  obtains (early) e where "r = Inl e" "se_events s' = []"
  | (submit) selected change nullifiers ns w1 sighash inputs auths w2 where
      "spend_plan X w ''transfer'' amount fee (we_dal_fee env) = Inr (selected, change, nullifiers)"
      "transfer_notes X (we_ek_new env) (we_trap env) rngs recipient amount change (we_dal_fee env) (we_dal_fee_address env)
         (map_option as_bytes memo) (acc_outgoing_seed (wallet_account X w)) w = (Inr ns, w1)"
      "sighash = transfer_sighash X (rs_auth_domain snapshot) (current_root X snapshot) nullifiers fee
            (po_cm (tn_note_1 ns)) (po_cm (tn_note_2 ns)) (po_cm (tn_note_3 ns))
            (po_mh (tn_note_1 ns)) (po_mh (tn_note_2 ns)) (po_mh (tn_note_3 ns))"
      "inputs = map (\<lambda>i. wf_notes w1 ! i) selected"
      "reserve_inputs X snapshot (current_root X snapshot) sighash (map input_ref inputs) w1 = (Inr auths, w2)"
      "prove_and_submit env ''run_transfer''
        (transfer_args X (rs_auth_domain snapshot) (current_root X snapshot) fee (zip inputs auths) ns recipient amount change
                     (we_dal_fee_address env) (we_dal_fee env))
        (\<lambda>pf. attempt (transfer_req_to_kernel (transfer_request (current_root X snapshot) nullifiers fee ns pf))
                (\<lambda>kernel_req. Inr (MTransfer kernel_req)))
        (register_pending_spend nullifiers (''transfer '' @ show_word amount)) \<lparr>se_wallet = w2, se_events = []\<rparr> = (r, s')"
proof -
  let ?dal = "we_dal_fee env" and ?root = "current_root X snapshot"
  show thesis
  proof (cases "spend_plan X w ''transfer'' amount fee ?dal")
    case (Inl e)
    then show thesis using assms by (intro early) (auto simp: transfer_session_def bind_act_def Let_def)
  next
    case (Inr plan)
    obtain selected change nullifiers where plan: "plan = (selected, change, nullifiers)" by (cases plan)
    obtain rn w1 where tn: "transfer_notes X (we_ek_new env) (we_trap env) rngs recipient amount change ?dal
        (we_dal_fee_address env) (map_option as_bytes memo) (acc_outgoing_seed (wallet_account X w)) w = (rn, w1)" by fastforce
    show thesis
    proof (cases rn)
      case (Inl e)
      then show thesis using assms tn \<open>spend_plan X w _ _ _ _ = _\<close> plan
        by (intro early) (auto simp: transfer_session_def bind_act_def Let_def on_wallet_def)
    next
      case rn: (Inr ns)
      define sighash where "sighash = transfer_sighash X (rs_auth_domain snapshot) ?root nullifiers fee
            (po_cm (tn_note_1 ns)) (po_cm (tn_note_2 ns)) (po_cm (tn_note_3 ns))
            (po_mh (tn_note_1 ns)) (po_mh (tn_note_2 ns)) (po_mh (tn_note_3 ns))"
      define inputs where "inputs = map (\<lambda>i. wf_notes w1 ! i) selected"
      obtain ra w2 where ra: "reserve_inputs X snapshot ?root sighash (map input_ref inputs) w1 = (ra, w2)" by fastforce
      note run = assms [unfolded transfer_session_def Let_def]
      show thesis
      proof (cases ra)
        case (Inl e)
        then show thesis using run tn \<open>spend_plan X w _ _ _ _ = _\<close> plan rn ra
          by (intro early) (auto simp: bind_act_def on_wallet_def sighash_def [symmetric] inputs_def [symmetric] simp del: map_map)
      next
        case (Inr auths)
        show thesis
          by (rule submit [OF _ _ sighash_def inputs_def])
            (use run tn \<open>spend_plan X w _ _ _ _ = _\<close> plan rn ra Inr in
             \<open>auto simp: bind_act_def on_wallet_def sighash_def [symmetric] inputs_def [symmetric] simp del: map_map\<close>)
      qed
    qed
  qed
qed


lemma unshield_session_cases:
  assumes "unshield_session X env rngs snapshot amount fee recipient \<lparr>se_wallet = w, se_events = []\<rparr> = (r, s')"
  obtains (early) e where "r = Inl e" "se_events s' = []"
  | (submit) selected change nullifiers ns w1 sighash inputs auths w2 where
      "spend_plan X w ''unshield'' amount fee (we_dal_fee env) = Inr (selected, change, nullifiers)"
      "unshield_notes X (we_ek_new env) (we_trap env) rngs change (we_dal_fee env) (we_dal_fee_address env)
         (acc_outgoing_seed (wallet_account X w)) w = (Inr ns, w1)"
      "sighash = unshield_sighash X (rs_auth_domain snapshot) (current_root X snapshot) nullifiers amount fee
            (hash X (as_bytes recipient)) (un_cm_change ns) (case un_change_data ns of Some cd \<Rightarrow> cd_mh cd | None \<Rightarrow> ZERO)
            (po_cm (un_producer_note ns)) (po_mh (un_producer_note ns))"
      "inputs = map (\<lambda>i. wf_notes w1 ! i) selected"
      "reserve_inputs X snapshot (current_root X snapshot) sighash (map input_ref inputs) w1 = (Inr auths, w2)"
      "prove_and_submit env ''run_unshield''
        (unshield_args X (rs_auth_domain snapshot) (current_root X snapshot) amount fee (hash X (as_bytes recipient))
           (zip inputs auths) ns change (we_dal_fee_address env) (we_dal_fee env))
        (\<lambda>pf. attempt (unshield_req_to_kernel
                 (unshield_request (current_root X snapshot) nullifiers amount fee recipient ns pf))
                (\<lambda>kernel_req. Inr (MUnshield kernel_req)))
        (register_pending_spend nullifiers (''unshield '' @ show_word amount)) \<lparr>se_wallet = w2, se_events = []\<rparr> = (r, s')"
proof -
  let ?dal = "we_dal_fee env" and ?root = "current_root X snapshot"
  note run = assms [unfolded unshield_session_def Let_def]
  show thesis
  proof (cases "spend_plan X w ''unshield'' amount fee ?dal")
    case (Inl e)
    then show thesis using run by (intro early) (auto simp: bind_act_def)
  next
    case (Inr plan)
    note pl = this
    obtain selected change nullifiers where plan: "plan = (selected, change, nullifiers)" by (cases plan)
    obtain rn w1 where un: "unshield_notes X (we_ek_new env) (we_trap env) rngs change ?dal
        (we_dal_fee_address env) (acc_outgoing_seed (wallet_account X w)) w = (rn, w1)" by fastforce
    show thesis
    proof (cases rn)
      case (Inl e)
      then show thesis using run un pl plan by (intro early) (auto simp: bind_act_def on_wallet_def)
    next
      case rn: (Inr ns)
      define sighash where "sighash = unshield_sighash X (rs_auth_domain snapshot) ?root nullifiers amount fee
            (hash X (as_bytes recipient)) (un_cm_change ns) (case un_change_data ns of Some cd \<Rightarrow> cd_mh cd | None \<Rightarrow> ZERO)
            (po_cm (un_producer_note ns)) (po_mh (un_producer_note ns))"
      define inputs where "inputs = map (\<lambda>i. wf_notes w1 ! i) selected"
      obtain ra w2 where ra: "reserve_inputs X snapshot ?root sighash (map input_ref inputs) w1 = (ra, w2)" by fastforce
      show thesis
      proof (cases ra)
        case (Inl e)
        then show thesis using run un pl plan rn ra
          by (intro early) (auto simp: bind_act_def on_wallet_def sighash_def [symmetric] inputs_def [symmetric] simp del: map_map)
      next
        case (Inr auths)
        show thesis
          by (rule submit [OF _ _ sighash_def inputs_def])
            (use run un pl plan rn ra Inr in
             \<open>auto simp: bind_act_def on_wallet_def sighash_def [symmetric] inputs_def [symmetric] simp del: map_map\<close>)
      qed
    qed
  qed
qed

lemma is_felt_sighash:
  assumes "blake_laws X"
  shows "is_felt (transfer_sighash X d root nfs fee c1 c2 c3 m1 m2 m3)"
    "is_felt (unshield_sighash X d root nfs v fee rcp cc mc cf mf)"
    "is_felt (shield_sighash X d pk v fee pf c1 c2 m1 m2)"
  using assms by (simp_all add: is_felt_def transfer_sighash_def unshield_sighash_def shield_sighash_def Let_def)

lemma wallet_at_funds: "wallet_at X sk ns (w\<lparr>wf_notes := x, wf_pending_spends := y\<rparr>) \<longleftrightarrow> wallet_at X sk ns w"
  by (simp add: wallet_at_def)

lemma wallet_at_pending: "wallet_at X sk ns (register_pending_spend nfs d h w) \<longleftrightarrow> wallet_at X sk ns w"
  by (simp add: wallet_at_def register_pending_spend_def)

text \<open>
  What a command does to the world once it has one-time keys to use: the events of a submission, up
  to the point where something fails, the request submitted being the one \<open>to_kernel\<close> makes of
  the proof.
\<close>

definition submission ::
  "wallet_env \<Rightarrow> unit res \<Rightarrow> event list \<Rightarrow> WalletFile \<Rightarrow> string \<Rightarrow> string list \<Rightarrow> (tx_proof \<Rightarrow> kernel_inbox_message res)
   \<Rightarrow> WalletFile \<Rightarrow> bool" where
  "submission env r evs w circuit args to_kernel w' \<longleftrightarrow>
     (\<exists>n msg. n \<le> 5 \<and> evs = take n (full_trace w circuit args msg w') \<and> (r = Inr () \<longleftrightarrow> n = 5)
        \<and> (4 \<le> n \<longrightarrow> (\<exists>pf. we_make_proof env circuit args = Inr pf \<and> to_kernel pf = Inr msg)))"

lemma prove_and_submit_submission:
  assumes "prove_and_submit env circuit args to_kernel submitted \<lparr>se_wallet = w, se_events = []\<rparr> = (r, s')"
  obtains h where "submission env r (se_events s') w circuit args to_kernel (submitted h w)"
proof (rule prove_and_submit_trace [OF assms])
  fix n msg h
  assume "se_events s' = se_events \<lparr>se_wallet = w, se_events = []\<rparr>
      @ take n (full_trace (se_wallet \<lparr>se_wallet = w, se_events = []\<rparr>) circuit args msg
          (submitted h (se_wallet \<lparr>se_wallet = w, se_events = []\<rparr>)))"
    and n: "n \<le> 5" "r = Inr () \<longleftrightarrow> n = 5"
    "4 \<le> n \<Longrightarrow> \<exists>pf. we_make_proof env circuit args = Inr pf \<and> to_kernel pf = Inr msg"
  then have "se_events s' = take n (full_trace w circuit args msg (submitted h w))" by simp
  with n show thesis by (intro that [of h]) (unfold submission_def, blast)
qed

section \<open>Reserved before proved\<close>

text \<open>The inputs of a spend, from the plan to the reserved keys.\<close>

lemma spend_inputs:
  assumes plan: "spend_plan X w what amount fee dal_fee = Inr (selected, change, nullifiers)"
    and w1: "wallet_at X sk ns w1" "wf_notes w1 = wf_notes w" "inputs = map (\<lambda>i. wf_notes w1 ! i) selected"
    and run: "reserve_inputs X snapshot (current_root X snapshot) sighash (map input_ref inputs) w1 = (Inr auths, w2)"
    and ok: "is_felt sighash" "snapshot_ok X snapshot"
  obtains ms where "wallet_at X sk ms w2" "inputs_fresh X sk snapshot sighash ns ms (zip inputs auths)"
    "nullifiers = map (\<lambda>(n, _). note_nullifier X n) (zip inputs auths)"
    "(\<Sum>(n, _) \<leftarrow> zip inputs auths. unat (nt_v n)) = unat amount + unat fee + unat dal_fee + unat change"
proof -
  obtain ms where ms: "wallet_at X sk ms w2" "length auths = length inputs"
    "inputs_fresh X sk snapshot sighash ns ms (zip inputs auths)"
    using reserve_inputs_at [OF w1(1) ok run] by (auto simp: inputs_fresh_def)
  have fst: "map (\<lambda>(n, _). f n) (zip inputs auths) = map f inputs" for f :: "wallet_note \<Rightarrow> 'b"
    using ms(2) by (induction inputs auths rule: list_induct2') simp_all
  note sound = spend_plan_sound [OF plan]
  show thesis
  proof (rule that [OF ms(1,3)])
    show "nullifiers = map (\<lambda>(n, _). note_nullifier X n) (zip inputs auths)"
      unfolding fst using sound(5) w1(2,3) by simp
    show "(\<Sum>(n, _) \<leftarrow> zip inputs auths. unat (nt_v n)) = unat amount + unat fee + unat dal_fee + unat change"
      unfolding fst using sound(4) w1(2,3) by (simp add: note_value_def [abs_def] comp_def)
  qed
qed


text \<open>
  A submission with recorded keys: the wallets written have counters past every key of the inputs,
  the inputs add up to \<open>out\<close>, and the first argument of the prover announces the number of the others.
\<close>

definition keys_recorded ::
  "'x ext_scheme \<Rightarrow> wallet_env \<Rightarrow> felt \<Rightarrow> RollupStateSnapshot \<Rightarrow> nat list \<Rightarrow> felt \<Rightarrow> (wallet_note \<times> input_auth) list
   \<Rightarrow> nat \<Rightarrow> string \<Rightarrow> string list \<Rightarrow> (tx_proof \<Rightarrow> kernel_inbox_message res) \<Rightarrow> unit res \<Rightarrow> event list \<Rightarrow> bool" where
  "keys_recorded X env sk snapshot ns sighash inputs out circuit args to_kernel r evs \<longleftrightarrow>
     (\<exists>ms w1 w2. submission env r evs w1 circuit args to_kernel w2 \<and> wallet_at X sk ms w1 \<and> wallet_at X sk ms w2
        \<and> inputs_fresh X sk snapshot sighash ns ms inputs)
     \<and> (\<Sum>(n, _) \<leftarrow> inputs. unat (nt_v n)) = out
     \<and> hd args = felt_u64_to_hex (word_of_nat (length args - 1))"

lemma spend_keys_recorded:
  assumes plan: "spend_plan X w what amount fee dal_fee = Inr (selected, change, nullifiers)"
    and w1: "wallet_at X sk ns w1" "wf_notes w1 = wf_notes w" "inputs = map (\<lambda>i. wf_notes w1 ! i) selected"
    and run: "reserve_inputs X snapshot (current_root X snapshot) sighash (map input_ref inputs) w1 = (Inr auths, w2)"
    and ok: "is_felt sighash" "snapshot_ok X snapshot"
    and sub: "prove_and_submit env circuit args to_kernel (register_pending_spend nullifiers d)
                \<lparr>se_wallet = w2, se_events = []\<rparr> = (r, s')"
    and args: "\<forall>(n, a) \<in> set (zip inputs auths). input_ok X sk snapshot sighash n a
                 \<Longrightarrow> hd args = felt_u64_to_hex (word_of_nat (length args - 1))"
  shows "keys_recorded X env sk snapshot ns sighash (zip inputs auths)
      (unat amount + unat fee + unat dal_fee + unat change) circuit args to_kernel r (se_events s')"
    "nullifiers = map (\<lambda>(n, _). note_nullifier X n) (zip inputs auths)"
proof -
  obtain ms where ms: "wallet_at X sk ms w2" "inputs_fresh X sk snapshot sighash ns ms (zip inputs auths)"
    "nullifiers = map (\<lambda>(n, _). note_nullifier X n) (zip inputs auths)"
    "(\<Sum>(n, _) \<leftarrow> zip inputs auths. unat (nt_v n)) = unat amount + unat fee + unat dal_fee + unat change"
    by (rule spend_inputs [OF plan w1 run ok])
  obtain h where "submission env r (se_events s') w2 circuit args to_kernel (register_pending_spend nullifiers d h w2)"
    by (rule prove_and_submit_submission [OF sub])
  moreover have "wallet_at X sk ms (register_pending_spend nullifiers d h w2)"
    using ms(1) by (simp add: wallet_at_pending)
  moreover have "hd args = felt_u64_to_hex (word_of_nat (length args - 1))"
    using args ms(2) by (simp add: inputs_fresh_def)
  ultimately show "keys_recorded X env sk snapshot ns sighash (zip inputs auths)
      (unat amount + unat fee + unat dal_fee + unat change) circuit args to_kernel r (se_events s')"
    unfolding keys_recorded_def using ms(1,2,4) by blast
qed (rule spend_inputs [OF plan w1 run ok])

text \<open>A wallet with one address and one note, and a world that answers.\<close>

definition live_snapshot :: RollupStateSnapshot where
  "live_snapshot = \<lparr>rs_auth_domain = ZERO, rs_required_tx_fee = 100,
     rs_tree = \<lparr>mt_leaves = [ZERO], mt_zero_hashes = zero_hash_list kem_ext DEPTH\<rparr>,
     rs_notes = [\<lparr>nm_index = 0, nm_cm = ZERO, nm_enc = sample_note\<rparr>]\<rparr>"

definition live_wallet :: WalletFile where
  "live_wallet = (snd (next_address kem_ext False (new_wallet kem_ext ZERO None)))\<lparr>
     wf_notes := [\<lparr>nt_nk_spend = ZERO, nt_nk_tag = ZERO,
       nt_auth_root = xmss_node kem_ext (address_ask kem_ext ZERO 0) AUTH_DEPTH 0, nt_d_j = ZERO, nt_v = 1000,
       nt_rseed = ZERO, nt_cm = ZERO, nt_index = 0, nt_addr_index = 0\<rparr>], wf_pending_spends := []\<rparr>"

definition live_env :: wallet_env where
  "live_env = \<lparr>we_snapshot = Inr live_snapshot, we_wallet = Inr live_wallet, we_recipient = Inr sample_address,
     we_source_hash = Inr ''tz1'', we_deposit_balance = (\<lambda>_. Inr (Some 1000)), we_save = (\<lambda>_. Inr ()),
     we_make_proof = (\<lambda>_ _. Inr (Stark [] [])), we_submit = (\<lambda>_. Inr None), we_ek_new = (\<lambda>_. True), we_trap = False,
     we_dal_fee = 1, we_dal_fee_address = sample_address, we_hex_error = id\<rparr>"

lemma live_snapshot_ok: "snapshot_ok kem_ext live_snapshot"
  by (simp add: snapshot_ok_def live_snapshot_def)

lemma live_wallet_facts:
  "wallet_at kem_ext ZERO [0] live_wallet" "spendable kem_ext live_wallet 0" "available_balance kem_ext live_wallet = 1000"
proof -
  have "wallet_at kem_ext ZERO ([] @ [0]) (snd (next_address kem_ext False (new_wallet kem_ext ZERO None)))"
    by (rule next_address_at(1) [OF new_wallet_at]) simp
  then show "wallet_at kem_ext ZERO [0] live_wallet" unfolding live_wallet_def wallet_at_funds by simp
qed (simp_all add: live_wallet_def spendable_def available_balance_def pending_nullifier_set_def)

text \<open>
  C16: a transfer records its one-time keys before anybody sees a signature made with them. Whatever
  the prover and the operator answer, the command either stops without any effect, or writes a
  wallet whose counters are past every key it used, only then calls the prover, and submits at most the
  request it proved. Every input has a path to the rollup's root, an authenticated key that was not
  used before, distinct from those of the other inputs, and a valid signature of the request; the
  inputs add up to the outputs and fees; and the prover gets as many arguments as the first announces.
\<close>

theorem transfer_reserves_before_proving:
  assumes "blake_laws X" "we_trap env = False"
    and "we_snapshot env = Inr snapshot" "snapshot_ok X snapshot"
    and "we_wallet env = Inr w" "wallet_at X sk ns w" "length ns + 1 < 2 ^ 32"
    and "cmd_transfer_rollup X env rngs amount fee memo = (r, evs)"
  shows "(\<exists>e. r = Inl e \<and> evs = [])
    \<or> (\<exists>recipient fee' change tn inputs.
        let root = current_root X snapshot; nullifiers = map (\<lambda>(n, _). note_nullifier X n) inputs in
        keys_recorded X env sk snapshot (ns @ [0])
          (transfer_sighash X (rs_auth_domain snapshot) root nullifiers fee'
              (po_cm (tn_note_1 tn)) (po_cm (tn_note_2 tn)) (po_cm (tn_note_3 tn))
              (po_mh (tn_note_1 tn)) (po_mh (tn_note_2 tn)) (po_mh (tn_note_3 tn)))
          inputs (unat amount + unat fee' + unat (we_dal_fee env) + unat change) ''run_transfer''
          (transfer_args X (rs_auth_domain snapshot) root fee' inputs tn recipient amount change
             (we_dal_fee_address env) (we_dal_fee env))
          (\<lambda>pf. attempt (transfer_req_to_kernel (transfer_request root nullifiers fee' tn pf)) (\<lambda>k. Inr (MTransfer k)))
          r evs)"
proof -
  obtain r1 r2 r3 where rngs: "rngs = (r1, r2, r3)" by (cases rngs)
  show ?thesis
  proof (cases "(\<exists>e. r = Inl e \<and> evs = [])")
    case True
    then show ?thesis by blast
  next
    case False
    then obtain fee' recipient s' where run: "transfer_session X env rngs snapshot recipient amount fee' memo
          \<lparr>se_wallet = w, se_events = []\<rparr> = (r, s')" "evs = se_events s'"
      using assms(3,5,8) unfolding cmd_transfer_rollup_def run_session_def
      by (auto simp: res_simps split: sum.splits prod.splits)
    from run(1) show ?thesis
    proof (cases rule: transfer_session_cases)
      case (early e)
      then show ?thesis using run(2) by blast
    next
      case (submit selected change nullifiers tn w1 sighash inputs auths w2)
      note tn = transfer_notes_at [OF assms(1,6,7) submit(2) [unfolded assms(2) rngs]]
      have felt: "is_felt sighash" unfolding submit(3) by (rule is_felt_sighash(1) [OF assms(1)])
      note rec = spend_keys_recorded [OF submit(1) tn submit(4,5) felt assms(4) submit(6)]
      have nfs: "nullifiers = map (\<lambda>(n, _). note_nullifier X n) (zip inputs auths)"
        by (rule rec(2)) (simp add: transfer_args_def transfer_output_args_def Let_def input_args_length add.commute)
      show ?thesis
        unfolding Let_def run(2) nfs [symmetric] submit(3) [symmetric]
        by (rule disjI2, rule exI [of _ recipient], rule exI [of _ fee'], rule exI [of _ change], rule exI [of _ tn],
            rule exI [of _ "zip inputs auths"], unfold nfs [symmetric] submit(3) [symmetric], rule rec(1))
          (simp add: transfer_args_def transfer_output_args_def Let_def input_args_length add.commute)
    qed
  qed
qed

theorem transfer_reserves_before_proving_witness:
  "case cmd_transfer_rollup kem_ext live_env ((ZERO, [], []), (ZERO, [], []), (ZERO, [], [])) 5 None None of (r, evs) \<Rightarrow>
     (\<exists>e. r = Inl e \<and> evs = [])
     \<or> (\<exists>sighash inputs out args to_kernel.
          keys_recorded kem_ext live_env ZERO live_snapshot [0, 0] sighash inputs out ''run_transfer'' args to_kernel r evs)"
proof -
  obtain r evs where run: "cmd_transfer_rollup kem_ext live_env ((ZERO, [], []), (ZERO, [], []), (ZERO, [], [])) 5 None None = (r, evs)"
    by fastforce
  have "we_trap live_env = False" "we_snapshot live_env = Inr live_snapshot" "we_wallet live_env = Inr live_wallet"
    by (simp_all add: live_env_def)
  from transfer_reserves_before_proving [OF note_lawsD(1) [OF kem_ext_laws] this(1,2) live_snapshot_ok this(3)
      live_wallet_facts(1) _ run]
  show ?thesis unfolding run Let_def by auto
qed

text \<open>
  C17: an unshield records its one-time keys before anybody sees a signature made with them, under
  the same conditions as a transfer; the fresh address of the change is there only when there is change.
\<close>

theorem unshield_reserves_before_proving:
  assumes "blake_laws X" "we_trap env = False"
    and "we_snapshot env = Inr snapshot" "snapshot_ok X snapshot"
    and "we_wallet env = Inr w" "wallet_at X sk ns w" "length ns + 1 < 2 ^ 32"
    and "cmd_unshield_rollup X env rngs amount fee recipient = (r, evs)"
  shows "(\<exists>e. r = Inl e \<and> evs = [])
    \<or> (\<exists>rcp fee' change un inputs.
        let root = current_root X snapshot; nullifiers = map (\<lambda>(n, _). note_nullifier X n) inputs;
            rcp_f = hash X (as_bytes rcp); mh = (case un_change_data un of Some cd \<Rightarrow> cd_mh cd | None \<Rightarrow> ZERO) in
        resolve_rollup_unshield_recipient X env recipient = Inr rcp
        \<and> keys_recorded X env sk snapshot (if 0 < change then ns @ [0] else ns)
            (unshield_sighash X (rs_auth_domain snapshot) root nullifiers amount fee' rcp_f (un_cm_change un) mh
               (po_cm (un_producer_note un)) (po_mh (un_producer_note un)))
            inputs (unat amount + unat fee' + unat (we_dal_fee env) + unat change) ''run_unshield''
            (unshield_args X (rs_auth_domain snapshot) root amount fee' rcp_f inputs un change
               (we_dal_fee_address env) (we_dal_fee env))
            (\<lambda>pf. attempt (unshield_req_to_kernel (unshield_request root nullifiers amount fee' rcp un pf))
                    (\<lambda>k. Inr (MUnshield k)))
            r evs)"
proof -
  obtain r1 r2 where rngs: "rngs = (r1, r2)" by (cases rngs)
  show ?thesis
  proof (cases "(\<exists>e. r = Inl e \<and> evs = [])")
    case True
    then show ?thesis by blast
  next
    case False
    then obtain fee' rcp s' where run: "unshield_session X env rngs snapshot amount fee' rcp
          \<lparr>se_wallet = w, se_events = []\<rparr> = (r, s')" "evs = se_events s'"
      and rcp: "resolve_rollup_unshield_recipient X env recipient = Inr rcp"
      using assms(3,5,8) unfolding cmd_unshield_rollup_def run_session_def
      by (auto simp: res_simps split: sum.splits prod.splits)
    from run(1) show ?thesis
    proof (cases rule: unshield_session_cases)
      case (early e)
      then show ?thesis using run(2) by blast
    next
      case (submit selected change nullifiers un w1 sighash inputs auths w2)
      note un = unshield_notes_at [OF assms(1,6,7) submit(2) [unfolded assms(2) rngs]]
      have felt: "is_felt sighash" unfolding submit(3) by (rule is_felt_sighash(2) [OF assms(1)])
      note rec = spend_keys_recorded [OF submit(1) un submit(4,5) felt assms(4) submit(6)]
      have nfs: "nullifiers = map (\<lambda>(n, _). note_nullifier X n) (zip inputs auths)"
        by (rule rec(2)) (simp add: unshield_args_def Let_def input_args_length add.commute split: option.splits)
      show ?thesis
        unfolding Let_def run(2)
        by (rule disjI2, rule exI [of _ rcp], rule exI [of _ fee'], rule exI [of _ change], rule exI [of _ un],
            rule exI [of _ "zip inputs auths"], unfold nfs [symmetric] submit(3) [symmetric], rule conjI [OF rcp], rule rec(1))
          (simp add: unshield_args_def Let_def input_args_length add.commute split: option.splits)
    qed
  qed
qed


theorem unshield_reserves_before_proving_witness:
  "case cmd_unshield_rollup kem_ext live_env ((ZERO, [], []), (ZERO, [], [])) 5 None None of (r, evs) \<Rightarrow>
     (\<exists>e. r = Inl e \<and> evs = [])
     \<or> (\<exists>ns sighash inputs out args to_kernel.
          keys_recorded kem_ext live_env ZERO live_snapshot ns sighash inputs out ''run_unshield'' args to_kernel r evs)"
proof -
  obtain r evs where run: "cmd_unshield_rollup kem_ext live_env ((ZERO, [], []), (ZERO, [], [])) 5 None None = (r, evs)"
    by fastforce
  have "we_trap live_env = False" "we_snapshot live_env = Inr live_snapshot" "we_wallet live_env = Inr live_wallet"
    by (simp_all add: live_env_def)
  from unshield_reserves_before_proving [OF note_lawsD(1) [OF kem_ext_laws] this(1,2) live_snapshot_ok this(3)
      live_wallet_facts(1) _ run]
  show ?thesis unfolding run Let_def by auto
qed

end
