(* ===== verification/WalletLive.thy ===== *)
theory WalletLive
  imports WalletPersist
begin

text \<open>
  When the rollup commands complete: a wallet whose notes are in the rollup's tree and belong to its
  addresses, with keys left for them, gets its transfer to the rollup in a world that answers.
\<close>

section \<open>Inputs that can be authorised\<close>

definition note_ready :: "'x ext_scheme \<Rightarrow> felt \<Rightarrow> RollupStateSnapshot \<Rightarrow> nat list \<Rightarrow> wallet_note \<Rightarrow> bool" where
  "note_ready X sk snapshot ns n \<longleftrightarrow>
     nt_index n < length (rs_notes snapshot) \<and> unat (nt_addr_index n) < length ns
     \<and> build_auth_tree X False (address_ask X sk (nt_addr_index n)) = Inr (nt_auth_root n)"

definition keys_left :: "nat list \<Rightarrow> wallet_note list \<Rightarrow> bool" where
  "keys_left ns inputs \<longleftrightarrow>
     (\<forall>j < length ns. ns ! j + length (filter (\<lambda>n. unat (nt_addr_index n) = j) inputs) \<le> AUTH_TREE_SIZE)"

lemma reserve_input_succeeds:
  assumes w: "wallet_at X sk ns w" and snap: "snapshot_ok X snapshot" and n: "note_ready X sk snapshot ns n"
    and k: "ns ! unat (nt_addr_index n) < AUTH_TREE_SIZE"
  obtains a w' where "reserve_input X snapshot (current_root X snapshot) sighash (input_ref n) w = (Inr a, w')"
    "wallet_at X sk (ns[unat (nt_addr_index n) := ns ! unat (nt_addr_index n) + 1]) w'"
proof -
  let ?j = "nt_addr_index n" and ?i = "nt_index n"
  have i: "?i < length (rs_notes snapshot)" and j: "unat ?j < length ns"
    and root: "build_auth_tree X False (address_ask X sk ?j) = Inr (nt_auth_root n)"
    using n by (simp_all add: note_ready_def)
  obtain siblings r where path: "auth_path X (rs_tree snapshot) ?i = (siblings, r)"
    by (cases "auth_path X (rs_tree snapshot) ?i")
  note p = snapshot_path [OF snap i path]
  obtain q w1 where q: "reserve_next_auth X ?j w = (Inr q, w1)" "authentic X sk ?j q"
    "wallet_at X sk (ns[unat ?j := ns ! unat ?j + 1]) w1"
    by (rule reserve_at [OF w j k])
  obtain key_idx ar ps ap where q': "q = (key_idx, ar, ps, ap)" by (cases q)
  have "ar = nt_auth_root n" using q(2) root unfolding authentic_def q' by simp
  then have "\<exists>a. reserve_input X snapshot (current_root X snapshot) sighash (input_ref n) w = (Inr a, w1)"
    using i path p(2) q(1)
    by (simp add: reserve_input_def input_ref_def bind_act_def merkle_path_def ensure_path_matches_root_def guard_def q')
  then show thesis using that q(3) by blast
qed

lemma keys_left_Cons:
  assumes "keys_left ns (n # inputs)" "unat (nt_addr_index n) < length ns"
  shows "ns ! unat (nt_addr_index n) < AUTH_TREE_SIZE"
    "keys_left (ns[unat (nt_addr_index n) := ns ! unat (nt_addr_index n) + 1]) inputs"
proof -
  note k = assms(1) [unfolded keys_left_def, rule_format]
  show "ns ! unat (nt_addr_index n) < AUTH_TREE_SIZE" using k [OF assms(2)] by simp
  show "keys_left (ns[unat (nt_addr_index n) := ns ! unat (nt_addr_index n) + 1]) inputs"
    unfolding keys_left_def
  proof (intro allI impI)
    fix j assume "j < length (ns[unat (nt_addr_index n) := ns ! unat (nt_addr_index n) + 1])"
    then show "ns[unat (nt_addr_index n) := ns ! unat (nt_addr_index n) + 1] ! j
        + length (filter (\<lambda>m. unat (nt_addr_index m) = j) inputs) \<le> AUTH_TREE_SIZE"
      using k [of j] by (auto simp: nth_list_update split: if_splits)
  qed
qed

lemma reserve_inputs_succeeds:
  assumes snap: "snapshot_ok X snapshot"
  shows "wallet_at X sk ns w \<Longrightarrow> \<forall>n \<in> set inputs. note_ready X sk snapshot ns n \<Longrightarrow> keys_left ns inputs
    \<Longrightarrow> \<exists>as w'. reserve_inputs X snapshot (current_root X snapshot) sighash (map input_ref inputs) w = (Inr as, w')"
proof (induction inputs arbitrary: ns w)
  case Nil
  then show ?case by simp
next
  case (Cons n inputs)
  let ?j = "unat (nt_addr_index n)"
  have n: "note_ready X sk snapshot ns n" using Cons.prems(2) by simp
  then have j: "?j < length ns" by (simp add: note_ready_def)
  note k = keys_left_Cons [OF Cons.prems(3) j]
  obtain a w1 where a: "reserve_input X snapshot (current_root X snapshot) sighash (input_ref n) w = (Inr a, w1)"
    "wallet_at X sk (ns[?j := ns ! ?j + 1]) w1"
    by (rule reserve_input_succeeds [OF Cons.prems(1) snap n k(1)])
  have "\<forall>m \<in> set inputs. note_ready X sk snapshot (ns[?j := ns ! ?j + 1]) m"
    using Cons.prems(2) by (simp add: note_ready_def)
  then obtain as w' where
    "reserve_inputs X snapshot (current_root X snapshot) sighash (map input_ref inputs) w1 = (Inr as, w')"
    using Cons.IH [OF a(2) _ k(2)] by blast
  then show ?case using a(1) by (simp add: bind_act_def)
qed

text \<open>A world in which every write succeeds, the prover proves and the operator takes messages.\<close>

definition world_answers :: "wallet_env \<Rightarrow> bool" where
  "world_answers env \<longleftrightarrow>
     (\<forall>w. we_save env w = Inr ()) \<and> (\<forall>c args. \<exists>p out. we_make_proof env c args = Inr (Stark p out))
     \<and> (\<forall>m. \<exists>h. we_submit env m = Inr h)"

lemma prove_and_submit_completes:
  assumes "world_answers env" "\<And>p out. \<exists>msg. to_kernel (Stark p out) = Inr msg"
  obtains msg h p out where "prove_and_submit env circuit args to_kernel submitted \<lparr>se_wallet = w, se_events = []\<rparr>
     = (Inr (), \<lparr>se_wallet = submitted h w, se_events = full_trace w circuit args msg (submitted h w)\<rparr>)"
    "to_kernel (Stark p out) = Inr msg"
proof -
  obtain p out where pf: "we_make_proof env circuit args = Inr (Stark p out)" using assms(1) unfolding world_answers_def by blast
  obtain msg where msg: "to_kernel (Stark p out) = Inr msg" using assms(2) by blast
  obtain h where h: "we_submit env msg = Inr h" using assms(1) unfolding world_answers_def by blast
  have "we_save env v = Inr ()" for v using assms(1) by (simp add: world_answers_def)
  then show thesis
    using that [of h msg p out] pf msg h
    by (simp add: prove_and_submit_def persist_wallet_and_make_proof_def save_wallet_def make_proof_def
        submit_kernel_message_def on_wallet_def bind_act_def full_trace_def)
qed

lemma keys_left_select:
  assumes "keys_left ns xs" "distinct is" "\<forall>i \<in> set is. i < length xs"
  shows "keys_left ns (map (\<lambda>i. xs ! i) is)"
proof -
  have "length (filter P (map (\<lambda>i. xs ! i) is)) \<le> length (filter P xs)" for P :: "wallet_note \<Rightarrow> bool"
  proof -
    have "length (filter P (map (\<lambda>i. xs ! i) is)) = card {i \<in> set is. P (xs ! i)}"
      using assms(2) by (simp add: filter_map comp_def distinct_card flip: set_filter)
    also have "\<dots> \<le> card {i. i < length xs \<and> P (xs ! i)}" using assms(3) by (intro card_mono) auto
    finally show ?thesis by (simp add: length_filter_conv_card)
  qed
  then show ?thesis using assms(1) unfolding keys_left_def by (meson add_left_mono order_trans)
qed


lemma keys_left_fresh:
  assumes "keys_left ns inputs" "\<forall>n \<in> set inputs. unat (nt_addr_index n) < length ns"
  shows "keys_left (ns @ [0]) inputs"
  unfolding keys_left_def
proof (intro allI impI)
  fix j assume "j < length (ns @ [0])"
  then consider "j < length ns" | "j = length ns" by fastforce
  then show "(ns @ [0]) ! j + length (filter (\<lambda>n. unat (nt_addr_index n) = j) inputs) \<le> AUTH_TREE_SIZE"
  proof cases
    case 1
    then show ?thesis using assms(1) by (simp add: keys_left_def nth_append)
  next
    case 2
    then have "filter (\<lambda>n. unat (nt_addr_index n) = j) inputs = []" using assms(2) by (auto simp: filter_empty_conv)
    then show ?thesis using 2 by simp
  qed
qed

section \<open>Transfers complete\<close>

lemma live_notes:
  "\<forall>n \<in> set (wf_notes live_wallet). note_ready kem_ext ZERO live_snapshot [0] n" "keys_left [0] (wf_notes live_wallet)"
  by (simp_all add: live_wallet_def note_ready_def live_snapshot_def build_auth_tree_node keys_left_def AUTH_TREE_SIZE_def AUTH_DEPTH_def)

text \<open>
  C19: a transfer completes: when the recipient and the fee are acceptable, the funds suffice, the
  notes of the wallet are in the rollup's tree under roots of its addresses with keys left for them, and
  the world answers, the command succeeds, having written the wallet, proved, written it again, submitted the
  message and written the wallet with the pending spend.
\<close>

theorem transfer_completes:
  assumes laws: "note_laws X (we_ek_new env)" and trap: "we_trap env = False" and world: "world_answers env"
    and snap: "we_snapshot env = Inr snapshot" "snapshot_ok X snapshot"
    and w: "we_wallet env = Inr w" "wallet_at X sk ns w" "length ns + 1 < 2 ^ 32"
    and rng: "length (fst r1) = 32" "length (fst r2) = 32" "length (fst r3) = 32"
    and rcp: "we_recipient env = Inr recipient" "address_sound X recipient dkr dkr'"
    and prod: "address_sound X (we_dal_fee_address env) dkp dkp'" "we_dal_fee env \<noteq> 0"
    and fee: "resolve_requested_tx_fee fee (rs_required_tx_fee snapshot) = Inr fee'"
    and funds: "unat amount + unat fee' + unat (we_dal_fee env) < 2 ^ 64"
      "unat amount + unat fee' + unat (we_dal_fee env) \<le> available_balance X w" "spendable X w i"
    and held: "\<forall>n \<in> set (wf_notes w). note_ready X sk snapshot ns n" "keys_left ns (wf_notes w)"
  shows "\<exists>w1 args req h nfs. cmd_transfer_rollup X env (r1, r2, r3) amount fee memo
      = (Inr (), full_trace w1 ''run_transfer'' args (MTransfer req)
                   (register_pending_spend nfs (''transfer '' @ show_word amount) h w1))"
proof -
  let ?root = "current_root X snapshot" and ?dal = "we_dal_fee env" and ?producer = "we_dal_fee_address env"
  let ?seed = "acc_outgoing_seed (wallet_account X w)"
  obtain p where "spend_plan X w ''transfer'' amount fee' ?dal = Inr p" by (rule spend_plan_succeeds [OF funds])
  then obtain selected change nfs where plan: "spend_plan X w ''transfer'' amount fee' ?dal = Inr (selected, change, nfs)"
    by (cases p) simp
  note sound = spend_plan_sound [OF plan]
  obtain tn w1 where tn: "transfer_notes X (we_ek_new env) False (r1, r2, r3) recipient amount change ?dal ?producer
      (map_option as_bytes memo) ?seed w = (Inr tn, w1)" "wallet_at X sk (ns @ [0]) w1" "wf_notes w1 = wf_notes w"
    by (rule transfer_notes_eq [OF laws w(2,3) rng rcp(2) prod(1)])
  define inputs where "inputs = map (\<lambda>i. wf_notes w1 ! i) selected"
  have range: "\<forall>i \<in> set selected. i < length (wf_notes w)" using sound(3) by (simp add: spendable_def)
  have ready: "\<forall>n \<in> set inputs. note_ready X sk snapshot (ns @ [0]) n"
    using held(1) range tn(3) by (auto simp: inputs_def note_ready_def intro: less_SucI)
  have left: "keys_left (ns @ [0]) inputs"
    using keys_left_select [OF held(2) sound(1) range] held(1) range tn(3)
    by (intro keys_left_fresh) (auto simp: inputs_def note_ready_def)
  define sighash where "sighash = transfer_sighash X (rs_auth_domain snapshot) ?root nfs fee'
            (po_cm (tn_note_1 tn)) (po_cm (tn_note_2 tn)) (po_cm (tn_note_3 tn))
            (po_mh (tn_note_1 tn)) (po_mh (tn_note_2 tn)) (po_mh (tn_note_3 tn))"
  obtain auths w2 where res: "reserve_inputs X snapshot ?root sighash (map input_ref inputs) w1 = (Inr auths, w2)"
    using reserve_inputs_succeeds [OF snap(2) tn(2) ready left] by blast
  let ?args = "transfer_args X (rs_auth_domain snapshot) ?root fee' (zip inputs auths) tn recipient amount change ?producer ?dal"
  let ?kernel = "\<lambda>pf. attempt (transfer_req_to_kernel (transfer_request ?root nfs fee' tn pf)) (\<lambda>kernel_req. Inr (MTransfer kernel_req))"
  have "\<exists>msg. ?kernel (Stark pf out) = Inr msg" for pf out
    by (simp add: transfer_req_to_kernel_def host_stark_proof_to_kernel_def transfer_request_def)
  then obtain msg h pf out where
    sub: "prove_and_submit env ''run_transfer'' ?args ?kernel (register_pending_spend nfs (''transfer '' @ show_word amount))
        \<lparr>se_wallet = w2, se_events = []\<rparr>
      = (Inr (), \<lparr>se_wallet = register_pending_spend nfs (''transfer '' @ show_word amount) h w2,
           se_events = full_trace w2 ''run_transfer'' ?args msg (register_pending_spend nfs (''transfer '' @ show_word amount) h w2)\<rparr>)"
    and "?kernel (Stark pf out) = Inr msg"
    by (rule prove_and_submit_completes [where to_kernel = ?kernel, OF world])
  then obtain req where msg: "msg = MTransfer req" by (auto simp: res_simps)
  have "transfer_session X env (r1, r2, r3) snapshot recipient amount fee' memo \<lparr>se_wallet = w, se_events = []\<rparr>
      = prove_and_submit env ''run_transfer'' ?args ?kernel (register_pending_spend nfs (''transfer '' @ show_word amount))
        \<lparr>se_wallet = w2, se_events = []\<rparr>"
    using plan tn(1) trap res unfolding transfer_session_def Let_def
    by (simp add: bind_act_def on_wallet_def sighash_def [symmetric] inputs_def [symmetric] del: map_map)
  then have "cmd_transfer_rollup X env (r1, r2, r3) amount fee memo
      = (Inr (), full_trace w2 ''run_transfer'' ?args msg (register_pending_spend nfs (''transfer '' @ show_word amount) h w2))"
    using snap(1) fee w(1) rcp(1) prod(2) sub
    by (simp add: cmd_transfer_rollup_def run_session_def ensure_positive_dal_fee_def guard_def)
  then show ?thesis unfolding msg by blast
qed


theorem transfer_completes_witness:
  "\<exists>w1 args req h nfs. cmd_transfer_rollup kem_ext live_env ((ZERO, [], []), (ZERO, [], []), (ZERO, [], [])) 5 None None
      = (Inr (), full_trace w1 ''run_transfer'' args (MTransfer req) (register_pending_spend nfs (''transfer '' @ show_word (5 :: u64)) h w1))"
proof (rule transfer_completes)
  show "note_laws kem_ext (we_ek_new live_env)" using kem_ext_laws by (simp add: live_env_def)
  show "wallet_at kem_ext ZERO [0] live_wallet" by (rule live_wallet_facts)
  show "snapshot_ok kem_ext live_snapshot" by (rule live_snapshot_ok)
  show "address_sound kem_ext sample_address [] []" by (rule sample_address_sound)
  show "spendable kem_ext live_wallet 0" by (rule live_wallet_facts)
  show "address_sound kem_ext (we_dal_fee_address live_env) [] []" by (simp add: live_env_def sample_address_sound)
  show "\<forall>n \<in> set (wf_notes live_wallet). note_ready kem_ext ZERO live_snapshot [0] n" by (rule live_notes)
  show "keys_left [0] (wf_notes live_wallet)" by (rule live_notes)
  show "resolve_requested_tx_fee None (rs_required_tx_fee live_snapshot) = Inr 100"
    by (simp add: resolve_requested_tx_fee_def ensure_required_tx_fee_def guard_def live_snapshot_def)
qed (simp_all add: live_env_def world_answers_def live_wallet_facts(3))

end
