(* ===== verification/WalletShield.thy ===== *)
theory WalletShield
  imports WalletPersist
begin

text \<open>
  What a shield guarantees: it never draws more than the pool holds, and the one-time key that
  authorises it, of the address the pool commits to, is recorded before the prover sees a signature.
\<close>

lemma wallet_at_mark_shielded: "wallet_at X sk ns (mark_shielded pkh cm w) \<longleftrightarrow> wallet_at X sk ns w"
  by (simp add: wallet_at_def mark_shielded_def)

lemma wallet_at_deposits: "wallet_at X sk ns (w\<lparr>wf_pending_deposits := ds\<rparr>) \<longleftrightarrow> wallet_at X sk ns w"
  by (simp add: wallet_at_def)

lemma shield_amount_bound:
  assumes "shield_amount X pkh pool fee producer_fee amount_arg = Inr amount"
  obtains b where "pool = Some b" "unat amount + unat fee + unat producer_fee \<le> unat b"
    "amount_arg = None \<Longrightarrow> unat amount + unat fee + unat producer_fee = unat b"
proof -
  obtain b f d where b: "pool = Some b" and f: "checked_add fee producer_fee = Some f" "\<not> b < f"
    and a: "amount = (case amount_arg of Some a \<Rightarrow> a | None \<Rightarrow> b - f)" "checked_add amount f = Some d" "\<not> b < d"
    using assms by (auto simp: shield_amount_def res_simps Let_def guard_def split: if_splits)
  have "unat f = unat fee + unat producer_fee" "unat d = unat amount + unat f"
    using f(1) a(2) by (simp_all add: checked_add_unat)
  moreover have "unat d \<le> unat b" "unat f \<le> unat b" using a(3) f(2) by (simp_all add: word_le_nat_alt not_less)
  moreover have "unat (b - f) = unat b - unat f" using f(2) by (simp add: unat_sub not_less)
  ultimately show thesis using b a(1) by (intro that [of b]) simp_all
qed

text \<open>The key of a shield: the next one of the pool's address, with its path and its signature.\<close>

definition shield_key_ok ::
  "'x ext_scheme \<Rightarrow> felt \<Rightarrow> felt \<Rightarrow> felt \<Rightarrow> PendingDeposit \<Rightarrow> nat list \<Rightarrow> felt \<Rightarrow> u32 \<times> felt \<times> felt \<times> felt list \<Rightarrow> felt list \<Rightarrow> bool" where
  "shield_key_ok X sk auth_domain pubkey_hash pending ns sighash = (\<lambda>(key_idx, auth_root, auth_pub_seed, path) sig.
     let j = pd_address_index pending; ask_j = address_ask X sk j in
     unat j < length ns \<and> unat key_idx = ns ! unat j \<and> authentic X sk j (key_idx, auth_root, auth_pub_seed, path)
     \<and> pubkey_hash = deposit_pubkey_hash X auth_domain auth_root auth_pub_seed (pd_blind pending)
     \<and> length sig = WOTS_CHAINS
     \<and> verify_wots_signature_against_leaf X sighash auth_pub_seed key_idx sig (auth_leaf_hash X ask_j key_idx) = Inr ())"

lemma reserved_key:
  assumes "wallet_at X sk ns w" "reserve_next_auth X j w = (Inr (key_idx, ar, ps, path), w')"
  shows "unat j < length ns" "unat key_idx = ns ! unat j" "authentic X sk j (key_idx, ar, ps, path)"
    "wallet_at X sk (ns[unat j := ns ! unat j + 1]) w'"
proof -
  have j: "unat j < length ns" "ns ! unat j < AUTH_TREE_SIZE"
    using reserve_refused [OF assms(1), of j] assms(2) by fastforce+
  obtain q w1 where "reserve_next_auth X j w = (Inr q, w1)" "fst q = word_of_nat (ns ! unat j)"
    "authentic X sk j q" "wallet_at X sk (ns[unat j := ns ! unat j + 1]) w1"
    by (rule reserve_at [OF assms(1) j])
  moreover from this(1) have "q = (key_idx, ar, ps, path)" "w1 = w'" using assms(2) by simp_all
  ultimately show "unat key_idx = ns ! unat j" "authentic X sk j (key_idx, ar, ps, path)"
    "wallet_at X sk (ns[unat j := ns ! unat j + 1]) w'"
    using j(2) size_fits by (simp_all add: unat_of_nat_small)
qed (use reserve_refused [OF assms(1), of j] assms(2) in fastforce)

lemma shield_session_cases:
  fixes snapshot env X defines "auth_domain \<equiv> rs_auth_domain snapshot" and "fee \<equiv> rs_required_tx_fee snapshot"
    and "producer_fee \<equiv> we_dal_fee env"
  assumes run: "shield_session X env rngs snapshot pkh amount pending \<lparr>se_wallet = w, se_events = []\<rparr> = (r, s')"
  obtains (early) e where "r = Inl e" "se_events s' = []"
  | (submit) recipient n1 n2 sighash key_idx auth_root auth_pub_seed path w1 where
      "sighash = shield_sighash X auth_domain pkh amount fee producer_fee (po_cm n1) (po_cm n2) (po_mh n1) (po_mh n2)"
      "unat (pd_address_index pending) < length (wf_addresses w)"
      "reserve_next_auth X (pd_address_index pending) w = (Inr (key_idx, auth_root, auth_pub_seed, path), w1)"
      "pa_auth_root recipient = auth_root" "pa_auth_pub_seed recipient = auth_pub_seed"
      "pkh = deposit_pubkey_hash X auth_domain auth_root auth_pub_seed (pd_blind pending)"
      "prove_and_submit env ''run_shield''
         (shield_args X auth_domain pkh amount fee producer_fee n1 n2 auth_root auth_pub_seed recipient (pd_blind pending)
            key_idx (fst (wots_sign X (derive_ask X (acc_ask_base (wallet_account X w)) (pd_address_index pending)) key_idx sighash))
            path (we_dal_fee_address env))
         (\<lambda>pf. attempt (shield_req_to_kernel (shield_request pkh fee amount producer_fee n1 n2 pf)) (\<lambda>k. Inr (MShield k)))
         (\<lambda>_. mark_shielded pkh (po_cm n1)) \<lparr>se_wallet = w1, se_events = []\<rparr> = (r, s')"
proof -
  let ?j = "pd_address_index pending" and ?seed = "acc_outgoing_seed (wallet_account X w)"
  obtain r1 r2 where rngs: "rngs = (r1, r2)" by (cases rngs)
  obtain ek_v dk_v ek_d dk_d where kem: "kem_keys X w ?j = (ek_v, dk_v, ek_d, dk_d)" by (cases "kem_keys X w ?j")
  define recipient where "recipient = address_payment_address (wf_addresses w ! unat ?j) ek_v ek_d"
  note folds = recipient_def [symmetric] auth_domain_def [symmetric] fee_def [symmetric] producer_fee_def [symmetric]
  note run' = run [unfolded shield_session_def rngs Let_def prod.case]
  show thesis
  proof (cases "unat ?j < length (wf_addresses w)")
    case False
    then show thesis using run' by (intro early) (auto simp: bind_act_def guard_def)
  next
    case j: True
    show thesis
    proof (cases "build_output_note_with_outgoing X (we_ek_new env) r1 recipient amount None ?seed ShieldOutput")
      case (Inl e)
      then show thesis using run' j kem by (intro early) (auto simp: bind_act_def guard_def recipient_def)
    next
      case n1: (Inr n1)
      show thesis
      proof (cases "build_output_note_with_outgoing X (we_ek_new env) r2 (we_dal_fee_address env) producer_fee
           (Some (as_bytes ''dal'')) ?seed ProducerFee")
        case (Inl e)
        then show thesis using run' j kem n1
          by (intro early) (auto simp: bind_act_def guard_def recipient_def producer_fee_def)
      next
        case n2: (Inr n2)
        obtain rk w1 where rk: "reserve_next_auth X ?j w = (rk, w1)" by fastforce
        show thesis
        proof (cases rk)
          case (Inl e)
          then show thesis using run' j kem n1 n2 rk
            by (intro early) (auto simp: bind_act_def guard_def recipient_def producer_fee_def on_wallet_def)
        next
          case (Inr q)
          obtain key_idx ar ps path where q: "q = (key_idx, ar, ps, path)" by (cases q)
          note facts = run' j kem n1 n2 rk Inr q
          show thesis
          proof (cases "ar = pa_auth_root recipient \<and> ps = pa_auth_pub_seed recipient")
            case False
            then have "(ar = pa_auth_root recipient \<and> ps = pa_auth_pub_seed recipient) = False" by blast
            note neq = this
            show thesis using facts
              by (intro early) (auto simp: bind_act_def guard_def folds on_wallet_def neq)
          next
            case True
            note roots = this
            show thesis
            proof (cases "deposit_pubkey_hash X auth_domain ar ps (pd_blind pending) = pkh")
              case False
              then show thesis using facts roots
                by (intro early) (auto simp: bind_act_def guard_def folds on_wallet_def)
            next
              case True
              then show thesis using facts roots
                by (intro submit [OF refl j, of key_idx ar ps path w1 recipient n1 n2])
                  (simp_all add: bind_act_def guard_def folds on_wallet_def)
            qed
          qed
        qed
      qed
    qed
  qed
qed


text \<open>
  C18: a shield draws no more than its pool holds and records its one-time key first. Whatever the prover
  and the operator answer, the command either stops without any effect, or the amount and the
  fees are within the balance of the pool (all of it when no amount is given), the pool is one of the wallet and
  commits to the address whose next key signs the request, and the wallet written before the prover is called,
  as every one written after, has this key behind its counter; the prover gets as many
  arguments as announced, and at most the request that was proved is submitted.
\<close>

theorem shield_within_pool:
  assumes "blake_laws X" "we_snapshot env = Inr snapshot" "we_wallet env = Inr w" "wallet_at X sk ns w"
    and "cmd_shield_rollup X env rngs pubkey_hash_arg amount_arg = (r, evs)"
  shows "(\<exists>e. r = Inl e \<and> evs = [])
    \<or> (\<exists>pkh b amount pending recipient n1 n2 key_idx auth_root auth_pub_seed path sig w1 w2.
        let auth_domain = rs_auth_domain snapshot; fee = rs_required_tx_fee snapshot; producer_fee = we_dal_fee env;
            j = unat (pd_address_index pending);
            sighash = shield_sighash X auth_domain pkh amount fee producer_fee (po_cm n1) (po_cm n2) (po_mh n1) (po_mh n2);
            args = shield_args X auth_domain pkh amount fee producer_fee n1 n2 auth_root auth_pub_seed recipient
                     (pd_blind pending) key_idx sig path (we_dal_fee_address env) in
        parse_pubkey_hash_hex X (we_hex_error env) pubkey_hash_arg = Inr pkh \<and> we_deposit_balance env pkh = Inr (Some b)
        \<and> (if amount_arg = None then unat amount + unat fee + unat producer_fee = unat b
            else amount_arg = Some amount \<and> unat amount + unat fee + unat producer_fee \<le> unat b)
        \<and> pending \<in> set (wf_pending_deposits w) \<and> pd_pubkey_hash pending = pkh
        \<and> shield_key_ok X sk auth_domain pkh pending ns sighash (key_idx, auth_root, auth_pub_seed, path) sig
        \<and> submission env r evs w1 ''run_shield'' args
             (\<lambda>pf. attempt (shield_req_to_kernel (shield_request pkh fee amount producer_fee n1 n2 pf)) (\<lambda>k. Inr (MShield k))) w2
        \<and> wallet_at X sk (ns[j := ns ! j + 1]) w1 \<and> wallet_at X sk (ns[j := ns ! j + 1]) w2
        \<and> hd args = felt_u64_to_hex (word_of_nat (length args - 1)))"
proof (cases "\<exists>e. r = Inl e \<and> evs = []")
  case True
  then show ?thesis by blast
next
  case False
  let ?dom = "rs_auth_domain snapshot" and ?fee = "rs_required_tx_fee snapshot" and ?dal = "we_dal_fee env"
  obtain pkh pool amount pending s' where
    run: "shield_session X env rngs snapshot pkh amount pending \<lparr>se_wallet = w, se_events = []\<rparr> = (r, s')" "evs = se_events s'"
    and pkh: "parse_pubkey_hash_hex X (we_hex_error env) pubkey_hash_arg = Inr pkh" "we_deposit_balance env pkh = Inr pool"
      "shield_amount X pkh pool ?fee ?dal amount_arg = Inr amount"
      "select_pending_deposit_by_pubkey_hash X w pkh = Inr pending"
    using assms(2,3,5) False unfolding cmd_shield_rollup_def run_session_def
    by (auto simp: res_simps split: sum.splits prod.splits)
  obtain b where b: "pool = Some b" "unat amount + unat ?fee + unat ?dal \<le> unat b"
    "amount_arg = None \<Longrightarrow> unat amount + unat ?fee + unat ?dal = unat b"
    using shield_amount_bound [OF pkh(3)] by metis
  have arg: "amount_arg = Some a \<Longrightarrow> a = amount" for a
    using pkh(3) by (auto simp: shield_amount_def res_simps Let_def guard_def split: if_splits)
  have pending: "pending \<in> set (wf_pending_deposits w)" "pd_pubkey_hash pending = pkh"
    using pkh(4) by (auto simp: select_pending_deposit_by_pubkey_hash_def res_simps find_Some_iff)
  from run(1) show ?thesis
  proof (cases rule: shield_session_cases)
    case (early e)
    then show ?thesis using False run(2) by blast
  next
    case (submit recipient n1 n2 sighash key_idx ar ps path w1)
    let ?j = "pd_address_index pending"
    note key = reserved_key [OF assms(4) submit(3)]
    let ?sig = "fst (wots_sign X (address_ask X sk ?j) key_idx sighash)"
    have ask: "derive_ask X (acc_ask_base (wallet_account X w)) ?j = address_ask X sk ?j"
      using assms(4) by (simp add: address_ask_def wallet_account_def wallet_at_def)
    have felt: "is_felt sighash" unfolding submit(1) by (rule is_felt_sighash(3) [OF assms(1)])
    have seed: "ps = derive_auth_pub_seed X (address_ask X sk ?j)" "length path = AUTH_DEPTH"
      using key(3) authentic_path [OF key(3)] unfolding authentic_def by auto
    have ok: "shield_key_ok X sk ?dom pkh pending ns sighash (key_idx, ar, ps, path) ?sig"
      using key(1-3) submit(6) sign_verifies [OF felt] seed(1) by (simp add: shield_key_ok_def Let_def wots_sign_nth(1))
    let ?args = "shield_args X ?dom pkh amount ?fee ?dal n1 n2 ar ps recipient (pd_blind pending) key_idx ?sig path (we_dal_fee_address env)"
    obtain h where sub: "submission env r (se_events s') w1 ''run_shield'' ?args
        (\<lambda>pf. attempt (shield_req_to_kernel (shield_request pkh ?fee amount ?dal n1 n2 pf)) (\<lambda>k. Inr (MShield k)))
        (mark_shielded pkh (po_cm n1) w1)"
      by (rule prove_and_submit_submission [OF submit(7) [unfolded ask]])
    have args: "hd ?args = felt_u64_to_hex (word_of_nat (length ?args - 1))"
      using seed(2) by (simp add: shield_args_def Let_def wots_sign_nth(1))
    show ?thesis
      apply (rule disjI2)
      apply (rule exI [of _ pkh], rule exI [of _ b], rule exI [of _ amount], rule exI [of _ pending], rule exI [of _ recipient],
          rule exI [of _ n1], rule exI [of _ n2], rule exI [of _ key_idx], rule exI [of _ ar], rule exI [of _ ps],
          rule exI [of _ path], rule exI [of _ ?sig], rule exI [of _ w1], rule exI [of _ "mark_shielded pkh (po_cm n1) w1"])
      unfolding Let_def submit(1) [symmetric] run(2) wallet_at_mark_shielded
      using pkh(1,2) b arg pending ok sub key(4) args by auto
  qed
qed


text \<open>A wallet with one address and the pool it deposited to.\<close>

definition pool_wallet :: "felt \<Rightarrow> WalletFile" where
  "pool_wallet pkh = live_wallet\<lparr>wf_pending_deposits :=
     [\<lparr>pd_pubkey_hash = pkh, pd_blind = ZERO, pd_address_index = 0, pd_auth_domain = ZERO, pd_amount = 1000,
       pd_operation_hash = None, pd_shielded_cm = None\<rparr>]\<rparr>"

theorem shield_within_pool_witness:
  "case cmd_shield_rollup kem_ext (live_env\<lparr>we_wallet := Inr (pool_wallet ZERO)\<rparr>) ((ZERO, [], []), (ZERO, [], []))
          (replicate 64 (CHR ''0'')) None of (r, evs) \<Rightarrow>
     (\<exists>e. r = Inl e \<and> evs = [])
     \<or> (\<exists>sig sighash key w1 w2 args to_kernel pending pkh.
          shield_key_ok kem_ext ZERO ZERO pkh pending [0] sighash key sig
          \<and> submission (live_env\<lparr>we_wallet := Inr (pool_wallet ZERO)\<rparr>) r evs w1 ''run_shield'' args to_kernel w2
          \<and> hd args = felt_u64_to_hex (word_of_nat (length args - 1)))"
proof -
  let ?env = "live_env\<lparr>we_wallet := Inr (pool_wallet ZERO)\<rparr>"
  obtain r evs where run: "cmd_shield_rollup kem_ext ?env ((ZERO, [], []), (ZERO, [], [])) (replicate 64 (CHR ''0'')) None = (r, evs)"
    by (metis surj_pair)
  have w: "wallet_at kem_ext ZERO [0] (pool_wallet ZERO)"
    using live_wallet_facts(1) unfolding pool_wallet_def wallet_at_deposits .
  have env: "we_snapshot ?env = Inr live_snapshot" "we_wallet ?env = Inr (pool_wallet ZERO)" by (simp_all add: live_env_def)
  have dom: "rs_auth_domain live_snapshot = ZERO" by (simp add: live_snapshot_def)
  from shield_within_pool [OF note_lawsD(1) [OF kem_ext_laws] env w run]
  show ?thesis unfolding run prod.case Let_def dom by (elim disjE exE conjE) (rule disjI1, blast, rule disjI2, blast)
qed

end
