(* ===== verification/Operator.thy ===== *)
theory Operator
  imports Kernel WalletSpend
begin

text \<open>
  The operator (\<open>services/tzel/src/bin/tzel_operator.rs\<close> with the types of
  \<open>core/src/operator_api.rs\<close>): it takes kernel messages over HTTP, injects small ones into the rollup inbox
  and publishes large ones in chunks to the data-availability layer, follows their attestation,
  republishes chunks that were not attested, and finally injects a pointer to them.
  What the nodes, the client program and the file system answer may differ from call to
  call: the answers are functions of the number of calls made before. HTTP routing,
  bearer tokens and logging are left out.
\<close>

section \<open>Submissions\<close>

datatype RollupSubmissionKind = SubConfigureVerifier | SubConfigureBridge | SubShield | SubTransfer | SubUnshield

datatype RollupSubmissionTransport = DirectInbox | Dal

datatype RollupSubmissionStatus = PendingDal | CommitmentIncluded | Attested | SubmittedToL1 | Failed

record RollupDalChunk =
  rc_slot_index :: u16
  rc_published_level :: i32
  rc_payload_len :: nat
  rc_commitment :: string
  rc_operation_hash :: "string option"

record SubmitRollupMessageReq =
  sq_kind :: RollupSubmissionKind
  sq_rollup_address :: string
  sq_payload :: bytes

record RollupSubmission =
  sb_id :: string
  sb_kind :: RollupSubmissionKind
  sb_rollup_address :: string
  sb_status :: RollupSubmissionStatus
  sb_transport :: RollupSubmissionTransport
  sb_operation_hash :: "string option"
  sb_dal_chunks :: "RollupDalChunk list"
  sb_commitment :: "string option"
  sb_published_level :: "i32 option"
  sb_slot_index :: "u16 option"
  sb_payload_hash :: "string option"
  sb_payload_len :: nat
  sb_detail :: "string option"

record StoredSubmission =
  st_submission :: RollupSubmission
  st_payload :: "bytes option"
  st_chunk_attempts :: "u32 list"

record OperatorDalFeePolicy =
  fp_amount :: u64
  fp_incoming_seed :: felt
  fp_address_index :: u32
  fp_address :: payment_address

record OperatorConfig =
  oc_direct_max_message_bytes :: nat
  oc_dal_max_chunk_bytes :: "nat option"
  oc_octez_node_endpoint :: "string option"
  oc_dal_node_endpoint :: "string option"
  oc_dal_fee_policy :: "OperatorDalFeePolicy option"

definition MAX_DAL_CHUNK_ATTEMPTS :: u32 where "MAX_DAL_CHUNK_ATTEMPTS = 8"

definition MAX_WAITING_ATTESTATION_LEVEL_AGE :: int where "MAX_WAITING_ATTESTATION_LEVEL_AGE = 12"

section \<open>The world\<close>

datatype operator_event =
    Posted u16 bytes
  | Published u16 i32 bytes
  | Status i32 u16 string
  | Injected bytes

record operator_state =
  os_time :: nat
  os_slot_counter :: u64
  os_id_counter :: u64
  os_files :: "string \<rightharpoonup> StoredSubmission"
  os_events :: "operator_event list"

record operator_world =
  ow_now :: "nat \<Rightarrow> nat"
  ow_parameters :: "nat \<Rightarrow> (u64 \<times> nat) res"
  ow_post_slot :: "nat \<Rightarrow> u16 \<Rightarrow> bytes \<Rightarrow> (string \<times> string) res"
  ow_publish_commitment :: "nat \<Rightarrow> string \<Rightarrow> u16 \<Rightarrow> string \<Rightarrow> string res"
  ow_block_level :: "nat \<Rightarrow> string \<Rightarrow> i32 res"
  ow_head_level :: "nat \<Rightarrow> i32 res"
  ow_slot_status :: "nat \<Rightarrow> i32 \<Rightarrow> u16 \<Rightarrow> string res"
  ow_inject :: "nat \<Rightarrow> bytes \<Rightarrow> string res"
  ow_write :: "nat \<Rightarrow> unit res"
  ow_targeted :: "string \<Rightarrow> bytes \<Rightarrow> bytes res"
  ow_admin_pub_seed :: "string option"
  ow_verifier_leaf :: "string option"
  ow_bridge_leaf :: "string option"
  ow_debug_build :: bool
  ow_hex_error :: "string \<Rightarrow> string"

definition ask :: "(nat \<Rightarrow> 'a res) \<Rightarrow> (operator_state, 'a) action" where
  "ask f s = (f (os_time s), s\<lparr>os_time := os_time s + 1\<rparr>)"

definition emit :: "operator_event \<Rightarrow> (operator_state, unit) action" where
  "emit e s = (Inr (), s\<lparr>os_events := os_events s @ [e]\<rparr>)"

text \<open>A \<open>match\<close> on the result of a call: a panic goes on, an error and a value are handled.\<close>

definition handle_act :: "('s, 'a) action \<Rightarrow> (string \<Rightarrow> ('s, 'b) action) \<Rightarrow> ('a \<Rightarrow> ('s, 'b) action) \<Rightarrow> ('s, 'b) action" where
  "handle_act m f g s =
     (case m s of (Inl (Panic p), s) \<Rightarrow> (Inl (Panic p), s) | (Inl (Err e), s) \<Rightarrow> f e s | (Inr x, s) \<Rightarrow> g x s)"

abbreviation fail_act :: "string \<Rightarrow> ('s, 'a) action" where
  "fail_act e \<equiv> read_act (\<lambda>_. Inl (Err e))"

definition post_dal_slot :: "operator_world \<Rightarrow> u16 \<Rightarrow> bytes \<Rightarrow> (operator_state, string \<times> string) action" where
  "post_dal_slot W slot_index payload =
     bind_act (emit (Posted slot_index payload)) (\<lambda>_. ask (\<lambda>t. ow_post_slot W t slot_index payload))"

definition fetch_dal_slot_status :: "operator_world \<Rightarrow> i32 \<Rightarrow> u16 \<Rightarrow> (operator_state, string) action" where
  "fetch_dal_slot_status W published_level slot_index =
     bind_act (ask (\<lambda>t. ow_slot_status W t published_level slot_index)) (\<lambda>status.
     bind_act (emit (Status published_level slot_index status)) (\<lambda>_. ret_act status))"

definition inject_direct_message :: "operator_world \<Rightarrow> bytes \<Rightarrow> (operator_state, string) action" where
  "inject_direct_message W bs =
     bind_act (emit (Injected bs)) (\<lambda>_. ask (\<lambda>t. ow_inject W t bs))"

section \<open>Output of the client program\<close>

text \<open>\<open>str::split\<close> on white space, quotes, commas, semicolons and parentheses.\<close>

definition separators :: "string list" where
  "separators = map bytes_str whitespace @ [[CHR 0x22], [CHR 0x27], '','', '';'', ''('', '')'']"

function split_tokens :: "string \<Rightarrow> string \<Rightarrow> string list" where
  "split_tokens token s =
     (case strip_any separators s of
        Some rest \<Rightarrow> if length rest < length s then token # split_tokens [] rest else [token]
      | None \<Rightarrow> (case s of [] \<Rightarrow> [token] | c # s' \<Rightarrow> split_tokens (token @ [c]) s'))"
  by pat_completeness auto
termination
  by (relation "measure (\<lambda>(token, s). length s)") auto

declare split_tokens.simps [simp del]

definition is_ascii_alphanumeric :: "char \<Rightarrow> bool" where
  "is_ascii_alphanumeric c \<longleftrightarrow>
     (let n = of_char c :: nat in (48 \<le> n \<and> n \<le> 57) \<or> (65 \<le> n \<and> n \<le> 90) \<or> (97 \<le> n \<and> n \<le> 122))"

definition extract_token_with_prefix :: "string \<Rightarrow> char \<Rightarrow> string option" where
  "extract_token_with_prefix out prefix =
     find (\<lambda>token. take 1 token = [prefix] \<and> 20 \<le> length token \<and> list_all is_ascii_alphanumeric token)
       (split_tokens [] out)"

definition extract_operation_hash :: "string \<Rightarrow> string option" where
  "extract_operation_hash out = extract_token_with_prefix out (CHR ''o'')"

definition extract_block_hash :: "string \<Rightarrow> string option" where
  "extract_block_hash out = extract_token_with_prefix out (CHR ''B'')"

definition to_ascii_lowercase :: "string \<Rightarrow> string" where
  "to_ascii_lowercase s =
     map (\<lambda>c. let n = of_char c :: nat in if 65 \<le> n \<and> n \<le> 90 then char_of (n + 32) else c) s"

fun contains :: "string \<Rightarrow> string \<Rightarrow> bool" where
  "contains p [] \<longleftrightarrow> p = []"
| "contains p (c # s) \<longleftrightarrow> take (length p) (c # s) = p \<or> contains p s"

definition is_slot_header_collision :: "string \<Rightarrow> bool" where
  "is_slot_header_collision err \<longleftrightarrow> contains ''already proposed'' (to_ascii_lowercase err)"

section \<open>Files\<close>

definition align_chunk_attempts :: "StoredSubmission \<Rightarrow> StoredSubmission" where
  "align_chunk_attempts stored =
     (let n = length (sb_dal_chunks (st_submission stored)); as = st_chunk_attempts stored in
      if length as < n then stored\<lparr>st_chunk_attempts := as @ replicate (n - length as) 1\<rparr>
      else if n < length as then stored\<lparr>st_chunk_attempts := take n as\<rparr>
      else stored)"

definition persist_submission :: "operator_world \<Rightarrow> StoredSubmission \<Rightarrow> (operator_state, unit) action" where
  "persist_submission W stored =
     (let stored = align_chunk_attempts stored;
          stored = (if sb_status (st_submission stored) = SubmittedToL1 then stored\<lparr>st_payload := None\<rparr> else stored) in
      bind_act (ask (ow_write W)) (\<lambda>_.
      write_act (\<lambda>s. s\<lparr>os_files := (os_files s)(sb_id (st_submission stored) \<mapsto> stored)\<rparr>)))"

definition load_stored_submission :: "string \<Rightarrow> (operator_state, StoredSubmission) action" where
  "load_stored_submission sid = read_act (\<lambda>s.
     case os_files s sid of
       None \<Rightarrow> Inl (Err (''read submission '' @ sid @ '': No such file or directory''))
     | Some stored \<Rightarrow> Inr (align_chunk_attempts stored))"

definition next_submission_id :: "operator_world \<Rightarrow> (operator_state, string) action" where
  "next_submission_id W s =
     (let seq = show_word (os_id_counter s) in
      (Inr (''sub-'' @ show_nat (ow_now W (os_time s)) @ ''-'' @ replicate (4 - length seq) (CHR ''0'') @ seq),
       s\<lparr>os_time := os_time s + 1, os_id_counter := os_id_counter s + 1\<rparr>))"

section \<open>Validation\<close>

record OperatorViewAddressRecord =
  vr_index :: u32
  vr_d_j :: felt
  vr_auth_root :: felt
  vr_auth_pub_seed :: felt
  vr_nk_tag :: felt

datatype OperatorViewMaterial =
    OpView u16 felt "OperatorViewAddressRecord list"
  | OpDetect u16 felt u32

text \<open>The fee policy of the parsed viewing material.\<close>

definition load_dal_fee_policy ::
  "'x ext_scheme \<Rightarrow> u64 \<Rightarrow> OperatorViewMaterial res \<Rightarrow> u32 \<Rightarrow> OperatorDalFeePolicy res" where
  "load_dal_fee_policy X amount parsed address_index =
     attempt (guard (amount \<noteq> 0) ''required DAL fee must be greater than zero'') (\<lambda>_.
     attempt parsed (\<lambda>material.
     attempt (case material of
                OpView _ incoming_seed addresses \<Rightarrow> Inr (incoming_seed, addresses)
              | OpDetect _ _ _ \<Rightarrow> Inl (Err ''DAL fee policy requires view material, not detect-only material'')) (\<lambda>(incoming_seed, addresses).
     attempt (ok_or (find (\<lambda>r. vr_index r = address_index) addresses)
                (''DAL fee view material does not contain address index '' @ show_word address_index)) (\<lambda>address.
     case derive_kem_keys X incoming_seed address_index of (ek_v, _, ek_d, _) \<Rightarrow>
     Inr \<lparr>fp_amount = amount, fp_incoming_seed = incoming_seed, fp_address_index = address_index,
          fp_address = \<lparr>pa_d_j = vr_d_j address, pa_auth_root = vr_auth_root address,
            pa_auth_pub_seed = vr_auth_pub_seed address, pa_nk_tag = vr_nk_tag address, pa_ek_v = ek_v, pa_ek_d = ek_d\<rparr>\<rparr>))))"

fun kernel_message_matches_submission_kind :: "RollupSubmissionKind \<Rightarrow> kernel_inbox_message \<Rightarrow> bool" where
  "kernel_message_matches_submission_kind SubConfigureVerifier (MConfigureVerifier _) = True"
| "kernel_message_matches_submission_kind SubConfigureBridge (MConfigureBridge _) = True"
| "kernel_message_matches_submission_kind SubShield (MShield _) = True"
| "kernel_message_matches_submission_kind SubTransfer (MTransfer _) = True"
| "kernel_message_matches_submission_kind SubUnshield (MUnshield _) = True"
| "kernel_message_matches_submission_kind _ _ = False"

fun submission_kind_requires_dal_fee_policy :: "RollupSubmissionKind \<Rightarrow> bool" where
  "submission_kind_requires_dal_fee_policy SubShield = True"
| "submission_kind_requires_dal_fee_policy SubTransfer = True"
| "submission_kind_requires_dal_fee_policy SubUnshield = True"
| "submission_kind_requires_dal_fee_policy _ = False"

definition parse_runtime_felt_hex :: "'x ext_scheme \<Rightarrow> operator_world \<Rightarrow> string \<Rightarrow> string option \<Rightarrow> felt res" where
  "parse_runtime_felt_hex X W var v =
     attempt (ok_or v (''missing required env var: '' @ var)) (\<lambda>v.
     attempt (ok_or (hex_decode X v) (var @ '' is not valid hex: '' @ ow_hex_error W v)) (\<lambda>bs.
     attempt (guard (length bs = 32) (var @ '' must decode to exactly 32 bytes, got '' @ show_nat (length bs))) (\<lambda>_.
     Inr bs)))"

definition runtime_felt ::
  "'x ext_scheme \<Rightarrow> operator_world \<Rightarrow> string \<Rightarrow> string option \<Rightarrow> felt \<Rightarrow> felt res" where
  "runtime_felt X W var v dflt =
     (case v of
        Some _ \<Rightarrow> parse_runtime_felt_hex X W var v
      | None \<Rightarrow> if ow_debug_build W then Inr dflt else Inl (Err (''operator missing '' @ var)))"

definition operator_config_admin_pub_seed :: "'x ext_scheme \<Rightarrow> operator_world \<Rightarrow> felt res" where
  "operator_config_admin_pub_seed X W =
     runtime_felt X W ''TZEL_ROLLUP_CONFIG_ADMIN_PUB_SEED_HEX'' (ow_admin_pub_seed W)
       (derive_auth_pub_seed X (dev_config_admin_ask X))"

definition operator_verifier_config_leaf :: "'x ext_scheme \<Rightarrow> operator_world \<Rightarrow> felt res" where
  "operator_verifier_config_leaf X W =
     runtime_felt X W ''TZEL_ROLLUP_VERIFIER_CONFIG_ADMIN_LEAF_HEX'' (ow_verifier_leaf W)
       (auth_leaf_hash X (dev_config_admin_ask X) KERNEL_VERIFIER_CONFIG_KEY_INDEX)"

definition operator_bridge_config_leaf :: "'x ext_scheme \<Rightarrow> operator_world \<Rightarrow> felt res" where
  "operator_bridge_config_leaf X W =
     runtime_felt X W ''TZEL_ROLLUP_BRIDGE_CONFIG_ADMIN_LEAF_HEX'' (ow_bridge_leaf W)
       (auth_leaf_hash X (dev_config_admin_ask X) KERNEL_BRIDGE_CONFIG_KEY_INDEX)"

fun authenticate_config_submission :: "'x ext_scheme \<Rightarrow> operator_world \<Rightarrow> kernel_inbox_message \<Rightarrow> unit res" where
  "authenticate_config_submission X W (MConfigureVerifier config) =
     attempt (operator_config_admin_pub_seed X W) (\<lambda>pub_seed.
     attempt (operator_verifier_config_leaf X W) (\<lambda>expected_leaf.
     attempt (kernel_verifier_config_sighash X (sv_config config)) (\<lambda>sighash.
     verify_wots_signature_against_leaf X sighash pub_seed KERNEL_VERIFIER_CONFIG_KEY_INDEX
       (sv_signature config) expected_leaf)))"
| "authenticate_config_submission X W (MConfigureBridge config) =
     attempt (operator_config_admin_pub_seed X W) (\<lambda>pub_seed.
     attempt (operator_bridge_config_leaf X W) (\<lambda>expected_leaf.
     attempt (kernel_bridge_config_sighash X (sb_config config)) (\<lambda>sighash.
     verify_wots_signature_against_leaf X sighash pub_seed KERNEL_BRIDGE_CONFIG_KEY_INDEX
       (sb_signature config) expected_leaf)))"
| "authenticate_config_submission X W _ = Inr ()"

definition decode_and_validate_submission_payload ::
  "'x ext_scheme \<Rightarrow> operator_world \<Rightarrow> RollupSubmissionKind \<Rightarrow> bytes \<Rightarrow> kernel_inbox_message res" where
  "decode_and_validate_submission_payload X W kind payload =
     attempt (map_err (\<lambda>e. ''decode kernel payload: '' @ e) (decode_kernel_inbox_message X payload)) (\<lambda>msg.
     attempt (guard (kernel_message_matches_submission_kind kind msg)
                ''submission kind does not match kernel payload'') (\<lambda>_.
     attempt (authenticate_config_submission X W msg) (\<lambda>_.
     Inr msg)))"

definition validate_fee_note_against_policy ::
  "'x ext_scheme \<Rightarrow> OperatorDalFeePolicy \<Rightarrow> felt \<Rightarrow> encrypted_note \<Rightarrow> u64 \<Rightarrow> unit res" where
  "validate_fee_note_against_policy X policy commitment enc claimed_fee =
     attempt (guard (claimed_fee = fp_amount policy)
                (''DAL fee mismatch: expected '' @ show_word (fp_amount policy) @ '', got '' @ show_word claimed_fee)) (\<lambda>_.
     case derive_kem_keys X (fp_incoming_seed policy) (fp_address_index policy) of (_, dk_v, _, dk_d) \<Rightarrow>
     attempt (detect X enc dk_d) (\<lambda>found.
     attempt (guard found ''DAL fee note is not detectable by the configured operator fee address'') (\<lambda>_.
     attempt (decrypt_memo X enc dk_v) (\<lambda>opened.
     attempt (ok_or opened ''DAL fee note is not decryptable by the configured operator fee address'') (\<lambda>(v, rseed, _).
     attempt (guard (v = fp_amount policy)
                (''DAL fee note decrypts to '' @ show_word v @ '', expected '' @ show_word (fp_amount policy))) (\<lambda>_.
     let rcm = derive_rcm X rseed; a = fp_address policy;
         otag = owner_tag X (pa_auth_root a) (pa_auth_pub_seed a) (pa_nk_tag a);
         expected = commit X (pa_d_j a) v rcm otag in
     guard (expected = commitment) ''DAL fee note commitment does not match the configured operator fee address''))))))"

definition enforce_dal_fee_policy :: "'x ext_scheme \<Rightarrow> OperatorConfig \<Rightarrow> kernel_inbox_message \<Rightarrow> unit res" where
  "enforce_dal_fee_policy X config msg =
     attempt (ok_or (oc_dal_fee_policy config) ''operator is missing DAL fee policy'') (\<lambda>policy.
     case msg of
       MShield req \<Rightarrow> validate_fee_note_against_policy X policy (ks_producer_cm req) (ks_producer_enc req) (ks_producer_fee req)
     | MTransfer req \<Rightarrow> validate_fee_note_against_policy X policy (kt_cm_3 req) (kt_enc_3 req) (fp_amount policy)
     | MUnshield req \<Rightarrow> validate_fee_note_against_policy X policy (ku_cm_fee req) (ku_enc_fee req) (fp_amount policy)
     | _ \<Rightarrow> Inl (Err ''operator only publishes shield, transfer, and unshield payloads to DAL''))"


section \<open>Publication of chunks\<close>

text \<open>The counter is an atomic 64-bit integer and wraps; the remainder is taken of its old value.\<close>

definition select_slot_index :: "u64 \<Rightarrow> (operator_state, u16) action" where
  "select_slot_index number_of_slots s =
     (let slot = os_slot_counter s mod number_of_slots; s = s\<lparr>os_slot_counter := os_slot_counter s + 1\<rparr> in
      (if number_of_slots = 0 then Inl (Panic ''attempt to calculate the remainder with a divisor of zero'')
       else if unat slot < 2 ^ 16 then Inr (ucast slot)
       else Inl (Err (''slot index '' @ show_word slot @ '' does not fit in u16'')), s))"

text \<open>The loop of \<open>publish_dal_chunk_with_protocol\<close>, with the attempts that are left and the last collision.\<close>

fun publish_attempts ::
  "operator_world \<Rightarrow> u64 \<Rightarrow> bytes \<Rightarrow> nat \<Rightarrow> string option \<Rightarrow> (operator_state, RollupDalChunk) action" where
  "publish_attempts W number_of_slots payload 0 last_slot_error =
     fail_act (case last_slot_error of Some e \<Rightarrow> e | None \<Rightarrow> ''failed to publish DAL chunk: no free slot index available'')"
| "publish_attempts W number_of_slots payload (Suc n) last_slot_error =
     bind_act (select_slot_index number_of_slots) (\<lambda>slot_index.
     bind_act (post_dal_slot W slot_index payload) (\<lambda>(commitment, commitment_proof).
     handle_act (ask (\<lambda>t. ow_publish_commitment W t commitment slot_index commitment_proof))
       (\<lambda>e. if is_slot_header_collision e then publish_attempts W number_of_slots payload n (Some e) else fail_act e)
       (\<lambda>out.
         bind_act (read_act (\<lambda>_. ok_or (extract_block_hash out)
                     (''missing block hash in dal commitment output: '' @ out))) (\<lambda>block_hash.
         bind_act (ask (\<lambda>t. ow_block_level W t block_hash)) (\<lambda>published_level.
         bind_act (emit (Published slot_index published_level payload)) (\<lambda>_.
         ret_act \<lparr>rc_slot_index = slot_index, rc_published_level = published_level, rc_payload_len = length payload,
                  rc_commitment = commitment, rc_operation_hash = extract_operation_hash out\<rparr>))))))"

definition publish_dal_chunk_with_protocol ::
  "operator_world \<Rightarrow> u64 \<Rightarrow> bytes \<Rightarrow> (operator_state, RollupDalChunk) action" where
  "publish_dal_chunk_with_protocol W number_of_slots payload =
     publish_attempts W number_of_slots payload (unat number_of_slots) None"

definition no_octez_endpoint :: string where
  "no_octez_endpoint = ''octez node endpoint is required for DAL submissions''"

definition publish_dal_chunk :: "operator_world \<Rightarrow> OperatorConfig \<Rightarrow> bytes \<Rightarrow> (operator_state, RollupDalChunk) action" where
  "publish_dal_chunk W config payload =
     bind_act (read_act (\<lambda>_. ok_or (oc_dal_node_endpoint config) ''DAL node endpoint is not configured'')) (\<lambda>_.
     bind_act (ask (ow_parameters W)) (\<lambda>(number_of_slots, _).
     bind_act (read_act (\<lambda>_. guard (number_of_slots \<noteq> 0) ''DAL protocol reported zero slots'')) (\<lambda>_.
     bind_act (read_act (\<lambda>_. ok_or (oc_octez_node_endpoint config) no_octez_endpoint)) (\<lambda>_.
     publish_dal_chunk_with_protocol W number_of_slots payload))))"

definition submission_chunk_bytes :: "'x ext_scheme \<Rightarrow> bytes \<Rightarrow> RollupSubmission \<Rightarrow> nat \<Rightarrow> bytes res" where
  "submission_chunk_bytes X payload submission index =
     (let chs = sb_dal_chunks submission in
      attempt (guard (index < length chs) (''chunk index '' @ show_nat index @ '' out of range'')) (\<lambda>_.
      let start = sum_list (map rc_payload_len (take index chs)); e = start + rc_payload_len (chs ! index) in
      attempt (guard (e < 2 ^ usize_bits X) ''chunk range overflowed'') (\<lambda>_.
      attempt (guard (\<not> length payload < e)
                 (''chunk '' @ show_nat index @ '' exceeds payload length: end='' @ show_nat e @ '' payload=''
                  @ show_nat (length payload))) (\<lambda>_.
      Inr (slice start e payload)))))"

definition update_submission_commitment_summary :: "RollupSubmission \<Rightarrow> RollupSubmission res" where
  "update_submission_commitment_summary submission =
     (case sb_dal_chunks submission of
        [] \<Rightarrow> Inl (Err ''DAL submission unexpectedly produced zero chunks'')
      | c # _ \<Rightarrow> Inr (submission\<lparr>sb_commitment := Some (rc_commitment c), sb_published_level := Some (rc_published_level c),
                          sb_slot_index := Some (rc_slot_index c)\<rparr>))"

text \<open>Every published chunk is recorded on disk before the next one.\<close>

fun publish_rest ::
  "operator_world \<Rightarrow> u64 \<Rightarrow> nat \<Rightarrow> bytes list \<Rightarrow> StoredSubmission \<Rightarrow> (operator_state, StoredSubmission) action" where
  "publish_rest W number_of_slots total_chunks [] stored = ret_act stored"
| "publish_rest W number_of_slots total_chunks (chunk # later) stored =
     bind_act (publish_dal_chunk_with_protocol W number_of_slots chunk) (\<lambda>published_chunk.
     let sub = st_submission stored; chs = sb_dal_chunks sub @ [published_chunk];
         stored = stored\<lparr>st_submission := sub\<lparr>sb_dal_chunks := chs,
                      sb_detail := Some (''Published '' @ show_nat (length chs) @ '' / '' @ show_nat total_chunks @ '' DAL chunk(s)'')\<rparr>,
                    st_chunk_attempts := st_chunk_attempts stored @ [1]\<rparr> in
     bind_act (persist_submission W stored) (\<lambda>_.
     publish_rest W number_of_slots total_chunks later stored))"

definition resume_pending_dal_submission ::
  "operator_world \<Rightarrow> OperatorConfig \<Rightarrow> StoredSubmission \<Rightarrow> (operator_state, StoredSubmission) action" where
  "resume_pending_dal_submission W config stored =
     (if sb_transport (st_submission stored) \<noteq> Dal then ret_act stored else
      bind_act (read_act (\<lambda>_. ok_or (oc_dal_node_endpoint config) ''DAL node endpoint is not configured'')) (\<lambda>_.
      bind_act (read_act (\<lambda>_. ok_or (st_payload stored) ''DAL submission payload is unavailable for publication'')) (\<lambda>payload.
      bind_act (ask (ow_parameters W)) (\<lambda>(number_of_slots, slot_size).
      bind_act (read_act (\<lambda>_. guard (number_of_slots \<noteq> 0) ''DAL protocol reported zero slots'')) (\<lambda>_.
      bind_act (read_act (\<lambda>_. guard (slot_size \<noteq> 0) ''DAL protocol reported zero slot size'')) (\<lambda>_.
      bind_act (read_act (\<lambda>_. ok_or (oc_octez_node_endpoint config) no_octez_endpoint)) (\<lambda>_.
      let chunk_size = (case oc_dal_max_chunk_bytes config of Some v \<Rightarrow> min v slot_size | None \<Rightarrow> slot_size) in
      bind_act (read_act (\<lambda>_. guard (chunk_size \<noteq> 0) ''DAL chunk size must be greater than zero'')) (\<lambda>_.
      let already_published = sum_list (map rc_payload_len (sb_dal_chunks (st_submission stored))) in
      bind_act (read_act (\<lambda>_. guard (\<not> length payload < already_published)
                  (''persisted DAL chunks exceed payload length: '' @ show_nat already_published @ '' > ''
                   @ show_nat (length payload)))) (\<lambda>_.
      bind_act (publish_rest W number_of_slots (div_ceil (length payload) chunk_size)
                  (chunks chunk_size (drop already_published payload)) stored) (\<lambda>stored.
      bind_act (read_act (\<lambda>_. update_submission_commitment_summary (st_submission stored))) (\<lambda>sub.
      let chs = sb_dal_chunks sub in
      ret_act (stored\<lparr>st_submission := sub\<lparr>
        sb_operation_hash := (if chs = [] then None else rc_operation_hash (last chs)),
        sb_status := CommitmentIncluded,
        sb_detail := Some (''Published '' @ show_nat (length chs) @ '' DAL chunk(s); waiting for attestation'')\<rparr>\<rparr>))))))))))))"

section \<open>Pointers\<close>

fun dal_payload_kind :: "RollupSubmissionKind \<Rightarrow> kernel_dal_payload_kind" where
  "dal_payload_kind SubConfigureVerifier = DalConfigureVerifier"
| "dal_payload_kind SubConfigureBridge = DalConfigureBridge"
| "dal_payload_kind SubShield = DalShield"
| "dal_payload_kind SubTransfer = DalTransfer"
| "dal_payload_kind SubUnshield = DalUnshield"

definition decode_felt_hex :: "'x ext_scheme \<Rightarrow> operator_world \<Rightarrow> string \<Rightarrow> felt res" where
  "decode_felt_hex X W v =
     attempt (ok_or (hex_decode X v) (''invalid payload hash hex: '' @ ow_hex_error W v)) (\<lambda>bs.
     attempt (guard (length bs = 32) (''payload hash must be 32 bytes, got '' @ show_nat (length bs))) (\<lambda>_.
     Inr bs))"

definition dal_chunk_pointer :: "RollupDalChunk \<Rightarrow> kernel_dal_chunk_pointer res" where
  "dal_chunk_pointer chunk =
     attempt (guard (0 \<le> sint (rc_published_level chunk)) ''published_level must be non-negative'') (\<lambda>_.
     attempt (guard (unat (rc_slot_index chunk) < 2 ^ 8) ''slot_index does not fit in u8'') (\<lambda>_.
     attempt (guard (rc_payload_len chunk < 2 ^ 64) ''payload_len does not fit in u64'') (\<lambda>_.
     Inr \<lparr>dc_published_level = ucast (rc_published_level chunk), dc_slot_index = ucast (rc_slot_index chunk),
          dc_payload_len = word_of_nat (rc_payload_len chunk)\<rparr>)))"

definition dal_pointer_from_submission ::
  "'x ext_scheme \<Rightarrow> operator_world \<Rightarrow> RollupSubmission \<Rightarrow> kernel_dal_payload_pointer res" where
  "dal_pointer_from_submission X W submission =
     attempt (ok_or (sb_payload_hash submission) ''submission is missing payload_hash'') (\<lambda>payload_hash_hex.
     attempt (decode_felt_hex X W payload_hash_hex) (\<lambda>payload_hash.
     attempt (map_res dal_chunk_pointer (sb_dal_chunks submission)) (\<lambda>cs.
     attempt (guard (sb_payload_len submission < 2 ^ 64) ''payload_len does not fit in u64'') (\<lambda>_.
     Inr \<lparr>dl_kind = dal_payload_kind (sb_kind submission), dl_chunks = cs,
          dl_payload_len = word_of_nat (sb_payload_len submission), dl_payload_hash = payload_hash\<rparr>))))"

section \<open>Advancing a submission\<close>

fun chunk_statuses :: "operator_world \<Rightarrow> RollupDalChunk list \<Rightarrow> (operator_state, string list) action" where
  "chunk_statuses W [] = ret_act []"
| "chunk_statuses W (chunk # later) =
     bind_act (fetch_dal_slot_status W (rc_published_level chunk) (rc_slot_index chunk)) (\<lambda>status.
     bind_act (chunk_statuses W later) (\<lambda>statuses. ret_act (status # statuses)))"

definition status_line :: "nat \<times> RollupDalChunk \<times> string \<Rightarrow> string" where
  "status_line = (\<lambda>(idx, chunk, status).
     ''chunk['' @ show_nat idx @ ''] slot '' @ show_word (rc_slot_index chunk) @ '' at level ''
     @ show_i32 (rc_published_level chunk) @ '' => '' @ status)"

fun join :: "string \<Rightarrow> string list \<Rightarrow> string" where
  "join sep [] = []"
| "join sep [x] = x"
| "join sep (x # y # xs) = x @ sep @ join sep (y # xs)"

abbreviation newline :: string where "newline \<equiv> [CHR 0x0A]"

text \<open>\<open>i32::saturating_sub\<close>\<close>

definition level_age :: "i32 \<Rightarrow> i32 \<Rightarrow> int" where
  "level_age head_level published_level = max (- (2 ^ 31)) (min (2 ^ 31 - 1) (sint head_level - sint published_level))"

text \<open>
  What to do with the chunks whose slots are neither attested nor unattested: those that have been waiting
  for too long are retried, the others keep the submission waiting.
\<close>

definition waiting_chunks ::
  "operator_world \<Rightarrow> OperatorConfig \<Rightarrow> RollupDalChunk list \<Rightarrow> nat list \<Rightarrow> (operator_state, (nat \<times> string) list \<times> bool) action" where
  "waiting_chunks W config chs waiting =
     (if waiting = [] then ret_act ([], False)
      else case oc_octez_node_endpoint config of
        None \<Rightarrow> ret_act ([], True)
      | Some _ \<Rightarrow>
          handle_act (ask (ow_head_level W)) (\<lambda>_. ret_act ([], True)) (\<lambda>head_level.
            let age = (\<lambda>idx. level_age head_level (rc_published_level (chs ! idx)));
                stale = filter (\<lambda>idx. MAX_WAITING_ATTESTATION_LEVEL_AGE \<le> age idx) waiting in
            ret_act (map (\<lambda>idx. (idx, ''stale waiting_attestation after '' @ show_nat (nat (age idx)) @ '' levels'')) stale,
                     \<exists>idx \<in> set waiting. age idx < MAX_WAITING_ATTESTATION_LEVEL_AGE)))"

text \<open>
  The loop over the chunks to publish again: it stops with a failed submission when a chunk has
  used up its attempts, and otherwise yields the lines it reports.
\<close>

fun retry_chunks ::
  "'x ext_scheme \<Rightarrow> operator_world \<Rightarrow> OperatorConfig \<Rightarrow> bytes \<Rightarrow> string list \<Rightarrow> (nat \<times> string) list \<Rightarrow> string list
   \<Rightarrow> StoredSubmission \<Rightarrow> (operator_state, StoredSubmission + (string list \<times> StoredSubmission)) action" where
  "retry_chunks X W config payload status_lines [] republished stored = ret_act (Inr (republished, stored))"
| "retry_chunks X W config payload status_lines ((idx, reason) # later) republished stored =
     (let attempts = (if idx < length (st_chunk_attempts stored) then st_chunk_attempts stored ! idx else 1);
          sub = st_submission stored in
      if MAX_DAL_CHUNK_ATTEMPTS \<le> attempts
      then ret_act (Inl (stored\<lparr>st_submission := sub\<lparr>sb_status := Failed,
             sb_detail := Some (''DAL attestation failed after '' @ show_word attempts @ '' attempts'' @ newline
                                @ join newline status_lines)\<rparr>\<rparr>))
      else
      bind_act (read_act (\<lambda>_. submission_chunk_bytes X payload sub idx)) (\<lambda>chunk_bytes.
      bind_act (publish_dal_chunk W config chunk_bytes) (\<lambda>published_chunk.
      retry_chunks X W config payload status_lines later
        (republished @ [''republished chunk['' @ show_nat idx @ ''] attempt '' @ show_word (attempts + 1) @ '' -> slot ''
           @ show_word (rc_slot_index published_chunk) @ '' level '' @ show_i32 (rc_published_level published_chunk)
           @ '' ('' @ reason @ '')''])
        (stored\<lparr>st_submission := sub\<lparr>sb_dal_chunks := (sb_dal_chunks sub)[idx := published_chunk]\<rparr>,
                st_chunk_attempts := (st_chunk_attempts stored)[idx := attempts + 1]\<rparr>))))"

definition submit_pointer ::
  "'x ext_scheme \<Rightarrow> operator_world \<Rightarrow> string list \<Rightarrow> StoredSubmission \<Rightarrow> (operator_state, StoredSubmission) action" where
  "submit_pointer X W status_lines stored =
     (let sub = (st_submission stored)\<lparr>sb_status := Attested\<rparr> in
      bind_act (read_act (\<lambda>_. dal_pointer_from_submission X W sub)) (\<lambda>pointer.
      bind_act (read_act (\<lambda>_. encode_kernel_inbox_message X (MDalPointer pointer))) (\<lambda>pointer_payload.
      bind_act (read_act (\<lambda>_. ow_targeted W (sb_rollup_address sub) pointer_payload)) (\<lambda>targeted_bytes.
      bind_act (inject_direct_message W targeted_bytes) (\<lambda>out.
      ret_act (stored\<lparr>st_submission := sub\<lparr>sb_status := SubmittedToL1, sb_operation_hash := extract_operation_hash out,
        sb_detail := Some (''All DAL chunks attested'' @ newline @ join newline status_lines @ newline @ out)\<rparr>\<rparr>))))))"

definition maybe_advance_submission ::
  "'x ext_scheme \<Rightarrow> operator_world \<Rightarrow> OperatorConfig \<Rightarrow> StoredSubmission \<Rightarrow> (operator_state, StoredSubmission) action" where
  "maybe_advance_submission X W config stored =
     (if sb_status (st_submission stored) = PendingDal then resume_pending_dal_submission W config stored
      else if sb_status (st_submission stored) \<notin> {CommitmentIncluded, Attested} then ret_act stored
      else if sb_dal_chunks (st_submission stored) = [] then ret_act stored
      else if oc_dal_node_endpoint config = None then ret_act stored
      else
      let stored = align_chunk_attempts stored; chs = sb_dal_chunks (st_submission stored) in
      bind_act (chunk_statuses W chs) (\<lambda>statuses.
      let indexed = enumerate 0 (zip chs statuses); status_lines = map status_line indexed;
          unattested = map (\<lambda>(idx, _). (idx, ''unattested'')) (filter (\<lambda>(_, _, st). st = ''unattested'') indexed);
          waiting = map fst (filter (\<lambda>(_, _, st). st \<noteq> ''unattested'' \<and> st \<noteq> ''attested'') indexed) in
      bind_act (waiting_chunks W config chs waiting) (\<lambda>(stale, waiting_for_attestation).
      let retry = unattested @ stale in
      if retry \<noteq> [] then
        bind_act (read_act (\<lambda>_. ok_or (st_payload stored) ''DAL submission payload is unavailable for retry'')) (\<lambda>payload.
        bind_act (retry_chunks X W config payload status_lines retry [] stored) (\<lambda>retried.
        case retried of
          Inl failed \<Rightarrow> ret_act failed
        | Inr (republished, stored) \<Rightarrow>
            bind_act (read_act (\<lambda>_. update_submission_commitment_summary (st_submission stored))) (\<lambda>sub.
            ret_act (stored\<lparr>st_submission := sub\<lparr>sb_status := CommitmentIncluded,
              sb_detail := Some (''Republished '' @ show_nat (length republished) @ '' DAL chunk(s)'' @ newline
                @ join newline republished @ newline @ join newline status_lines)\<rparr>\<rparr>))))
      else if waiting_for_attestation then
        ret_act (stored\<lparr>st_submission := (st_submission stored)\<lparr>sb_status := CommitmentIncluded,
          sb_detail := Some (''Waiting for DAL attestation'' @ newline @ join newline status_lines)\<rparr>\<rparr>)
      else submit_pointer X W status_lines stored)))"

section \<open>Requests and reconciliation\<close>

definition new_submission :: "'x ext_scheme \<Rightarrow> string \<Rightarrow> SubmitRollupMessageReq \<Rightarrow> StoredSubmission" where
  "new_submission X sid req =
     \<lparr>st_submission = \<lparr>sb_id = sid, sb_kind = sq_kind req, sb_rollup_address = sq_rollup_address req,
        sb_status = PendingDal, sb_transport = Dal, sb_operation_hash = None, sb_dal_chunks = [], sb_commitment = None,
        sb_published_level = None, sb_slot_index = None, sb_payload_hash = Some (hex_encode X (hash X (sq_payload req))),
        sb_payload_len = length (sq_payload req), sb_detail = None\<rparr>,
      st_payload = Some (sq_payload req), st_chunk_attempts = []\<rparr>"

definition set_outcome :: "RollupSubmissionStatus \<Rightarrow> string \<Rightarrow> StoredSubmission \<Rightarrow> StoredSubmission" where
  "set_outcome status detail stored =
     stored\<lparr>st_submission := (st_submission stored)\<lparr>sb_status := status, sb_detail := Some detail\<rparr>\<rparr>"

definition submit_direct ::
  "operator_world \<Rightarrow> bytes \<Rightarrow> StoredSubmission \<Rightarrow> (operator_state, RollupSubmission) action" where
  "submit_direct W targeted_bytes stored =
     (let stored = stored\<lparr>st_submission := (st_submission stored)\<lparr>sb_transport := DirectInbox\<rparr>\<rparr> in
      handle_act (inject_direct_message W targeted_bytes)
        (\<lambda>e. bind_act (persist_submission W (set_outcome Failed e stored)) (\<lambda>_. fail_act e))
        (\<lambda>out. let stored = set_outcome SubmittedToL1 out
                 (stored\<lparr>st_submission := (st_submission stored)\<lparr>sb_operation_hash := extract_operation_hash out\<rparr>\<rparr>) in
             bind_act (persist_submission W stored) (\<lambda>_. ret_act (st_submission stored))))"

text \<open>A failed first advance marks what is on disk by then as failed; the outcome of that write is ignored.\<close>

definition advance_new ::
  "'x ext_scheme \<Rightarrow> operator_world \<Rightarrow> OperatorConfig \<Rightarrow> StoredSubmission \<Rightarrow> (operator_state, RollupSubmission) action" where
  "advance_new X W config stored =
     handle_act (maybe_advance_submission X W config stored)
       (\<lambda>e s. let failed = (case load_stored_submission (sb_id (st_submission stored)) s of
                             (Inr loaded, _) \<Rightarrow> loaded | (Inl _, _) \<Rightarrow> stored) in
             (Inl (Err e), snd (persist_submission W (set_outcome Failed e failed) s)))
       (\<lambda>stored. bind_act (persist_submission W stored) (\<lambda>_. ret_act (st_submission stored)))"

definition process_submission ::
  "'x ext_scheme \<Rightarrow> operator_world \<Rightarrow> OperatorConfig \<Rightarrow> SubmitRollupMessageReq \<Rightarrow> (operator_state, RollupSubmission) action" where
  "process_submission X W config req =
     bind_act (next_submission_id W) (\<lambda>sid.
     bind_act (read_act (\<lambda>_. ow_targeted W (sq_rollup_address req) (sq_payload req))) (\<lambda>targeted_bytes.
     let stored = new_submission X sid req in
     if length targeted_bytes \<le> oc_direct_max_message_bytes config then submit_direct W targeted_bytes stored
     else if oc_dal_node_endpoint config = None then
       let stored = set_outcome Failed (''message is '' @ show_nat (length targeted_bytes)
             @ '' bytes after framing, above direct inbox limit '' @ show_nat (oc_direct_max_message_bytes config)
             @ ''; DAL node endpoint is not configured'') stored in
       bind_act (persist_submission W stored) (\<lambda>_. ret_act (st_submission stored))
     else
     bind_act (read_act (\<lambda>_. decode_and_validate_submission_payload X W (sq_kind req) (sq_payload req))) (\<lambda>msg.
     bind_act (read_act (\<lambda>_. if submission_kind_requires_dal_fee_policy (sq_kind req)
                           then enforce_dal_fee_policy X config msg else Inr ())) (\<lambda>_.
     let stored = set_outcome PendingDal ''Accepted for DAL publication'' stored in
     bind_act (persist_submission W stored) (\<lambda>_. advance_new X W config stored)))))"

record ReconcileSummary =
  rm_visited :: nat
  rm_updated :: nat
  rm_errors :: nat

text \<open>The loop over the files of the directory, in the order of their paths.\<close>

fun reconcile_paths ::
  "'x ext_scheme \<Rightarrow> operator_world \<Rightarrow> OperatorConfig \<Rightarrow> string list \<Rightarrow> ReconcileSummary \<Rightarrow> (operator_state, ReconcileSummary) action" where
  "reconcile_paths X W config [] summary = ret_act summary"
| "reconcile_paths X W config (sid # later) summary =
     (let failed = summary\<lparr>rm_errors := rm_errors summary + 1\<rparr> in
      handle_act (load_stored_submission sid)
        (\<lambda>_. reconcile_paths X W config later failed)
        (\<lambda>stored.
         if sb_status (st_submission stored) \<notin> {PendingDal, CommitmentIncluded, Attested}
         then reconcile_paths X W config later summary
         else handle_act (maybe_advance_submission X W config stored)
           (\<lambda>_. reconcile_paths X W config later
                 (summary\<lparr>rm_visited := rm_visited summary + 1, rm_errors := rm_errors summary + 1\<rparr>))
           (\<lambda>updated.
            if updated \<noteq> stored
            then bind_act (persist_submission W updated) (\<lambda>_.
                 reconcile_paths X W config later
                   (summary\<lparr>rm_visited := rm_visited summary + 1, rm_updated := rm_updated summary + 1\<rparr>))
            else reconcile_paths X W config later (summary\<lparr>rm_visited := rm_visited summary + 1\<rparr>))))"

definition reconcile_pending_submissions ::
  "'x ext_scheme \<Rightarrow> operator_world \<Rightarrow> OperatorConfig \<Rightarrow> string list res \<Rightarrow> (operator_state, ReconcileSummary) action" where
  "reconcile_pending_submissions X W config paths =
     bind_act (read_act (\<lambda>_. paths)) (\<lambda>sids.
     reconcile_paths X W config sids \<lparr>rm_visited = 0, rm_updated = 0, rm_errors = 0\<rparr>)"

end
