(* ===== verification/OperatorSafety.thy ===== *)
theory OperatorSafety
  imports Operator
begin

text \<open>
  What the operator guarantees over any sequence of requests, reconciliations and restarts, whatever
  the nodes, the client program and the file system answer, an answer \<open>Panic\<close> standing for a crash
  at that call: what it publishes to the data-availability layer is a valid
  message that pays its fee, and a pointer is injected only for attested chunks from which the kernel
  reassembles that message.
\<close>

section \<open>Chunks that carry a payload\<close>

fun carries :: "operator_event set \<Rightarrow> bytes \<Rightarrow> RollupDalChunk list \<Rightarrow> bool" where
  "carries A p [] \<longleftrightarrow> True"
| "carries A p (c # cs) \<longleftrightarrow>
     0 < rc_payload_len c \<and> rc_payload_len c \<le> length p
     \<and> Published (rc_slot_index c) (rc_published_level c) (take (rc_payload_len c) p) \<in> A
     \<and> carries A (drop (rc_payload_len c) p) cs"

abbreviation published_len :: "RollupDalChunk list \<Rightarrow> nat" where
  "published_len cs \<equiv> sum_list (map rc_payload_len cs)"

lemma carries_mono: "carries A p cs \<Longrightarrow> A \<subseteq> B \<Longrightarrow> carries B p cs"
  by (induction cs arbitrary: p) auto

lemma carries_len: "carries A p cs \<Longrightarrow> published_len cs \<le> length p"
proof (induction cs arbitrary: p)
  case (Cons c cs)
  then have "published_len cs \<le> length p - rc_payload_len c" "rc_payload_len c \<le> length p"
    using Cons.IH [of "drop (rc_payload_len c) p"] by simp_all
  then show ?case by simp
qed simp

lemma carries_snoc:
  assumes "carries A p cs" "published_len cs + rc_payload_len c \<le> length p" "0 < rc_payload_len c"
    and "Published (rc_slot_index c) (rc_published_level c) (take (rc_payload_len c) (drop (published_len cs) p)) \<in> A"
  shows "carries A p (cs @ [c])"
  using assms
proof (induction cs arbitrary: p)
  case (Cons d cs)
  then show ?case using Cons.IH [of "drop (rc_payload_len d) p"] by (simp add: add.commute)
qed simp

lemma carries_update:
  assumes "carries A p cs" "i < length cs" "rc_payload_len c = rc_payload_len (cs ! i)"
    and "Published (rc_slot_index c) (rc_published_level c)
           (slice (published_len (take i cs)) (published_len (take i cs) + rc_payload_len c) p) \<in> A"
  shows "carries A p (cs[i := c])" "published_len (cs[i := c]) = published_len cs"
proof -
  show "carries A p (cs[i := c])"
    using assms
  proof (induction cs arbitrary: p i)
    case (Cons d cs)
    show ?case
    proof (cases i)
      case 0
      then show ?thesis using Cons.prems by (simp add: slice_def)
    next
      case (Suc j)
      then show ?thesis
        using Cons.prems Cons.IH [of "drop (rc_payload_len d) p" j]
        by (simp add: slice_def add.commute add.left_commute)
    qed
  qed simp
  show "published_len (cs[i := c]) = published_len cs"
    using assms(2,3) list_update_id [of "map rc_payload_len cs" i] by (simp add: map_update)
qed

section \<open>Runs\<close>

text \<open>
  An action run from a state: the invariant holds afterwards, events are only added, and a result
  satisfies its condition on the events so far.
\<close>

definition runs ::
  "(operator_state \<Rightarrow> bool) \<Rightarrow> (operator_state, 'a) action \<Rightarrow> operator_state \<Rightarrow> ('a \<Rightarrow> operator_event set \<Rightarrow> bool) \<Rightarrow> bool" where
  "runs I m s Q \<longleftrightarrow>
     (case m s of (r, s') \<Rightarrow> I s' \<and> set (os_events s) \<subseteq> set (os_events s') \<and> (\<forall>x. r = Inr x \<longrightarrow> Q x (set (os_events s'))))"

lemma runs_handle:
  assumes "runs I m s Q"
    and "\<And>e s1. I s1 \<Longrightarrow> set (os_events s) \<subseteq> set (os_events s1) \<Longrightarrow> runs I (f e) s1 R"
    and "\<And>x s1. I s1 \<Longrightarrow> set (os_events s) \<subseteq> set (os_events s1) \<Longrightarrow> Q x (set (os_events s1)) \<Longrightarrow> runs I (g x) s1 R"
  shows "runs I (handle_act m f g) s R"
proof -
  obtain r s1 where m: "m s = (r, s1)" by (cases "m s")
  then have s1: "I s1" "set (os_events s) \<subseteq> set (os_events s1)" and r: "\<And>x. r = Inr x \<Longrightarrow> Q x (set (os_events s1))"
    using assms(1) by (simp_all add: runs_def)
  consider e where "r = Inl (Err e)" | p where "r = Inl (Panic p)" | x where "r = Inr x"
    by (metis error.exhaust sumE)
  then show ?thesis
  proof cases
    case 1
    then show ?thesis using assms(2) [OF s1, of e] m s1(2) by (auto simp: runs_def handle_act_def split: prod.splits)
  next
    case 2
    then show ?thesis using m s1 by (simp add: runs_def handle_act_def)
  next
    case 3
    then show ?thesis using assms(3) [OF s1 r, of x] m s1(2) by (auto simp: runs_def handle_act_def split: prod.splits)
  qed
qed

lemma runs_bind:
  assumes "runs I m s Q"
    and "\<And>x s1. I s1 \<Longrightarrow> set (os_events s) \<subseteq> set (os_events s1) \<Longrightarrow> Q x (set (os_events s1)) \<Longrightarrow> runs I (k x) s1 R"
  shows "runs I (bind_act m k) s R"
proof -
  obtain r s1 where m: "m s = (r, s1)" by (cases "m s")
  then have s1: "I s1" "set (os_events s) \<subseteq> set (os_events s1)" and r: "\<And>x. r = Inr x \<Longrightarrow> Q x (set (os_events s1))"
    using assms(1) by (simp_all add: runs_def)
  show ?thesis
  proof (cases r)
    case (Inl e)
    then show ?thesis using m s1 by (simp add: runs_def bind_act_def)
  next
    case (Inr x)
    then show ?thesis using assms(2) [OF s1 r, of x] m s1(2) by (auto simp: runs_def bind_act_def split: prod.splits)
  qed
qed

lemma runs_weaken:
  assumes "runs I m s Q" "\<And>x A. Q x A \<Longrightarrow> set (os_events s) \<subseteq> A \<Longrightarrow> R x A"
  shows "runs I m s R"
  using assms by (auto simp: runs_def)

lemma runs_ret: "I s \<Longrightarrow> Q x (set (os_events s)) \<Longrightarrow> runs I (ret_act x) s Q"
  by (simp add: runs_def)

lemma runs_read: "I s \<Longrightarrow> (\<And>x. f s = Inr x \<Longrightarrow> Q x (set (os_events s))) \<Longrightarrow> runs I (read_act f) s Q"
  by (simp add: runs_def)

text \<open>Reading keeps the value that was read, and failing needs nothing.\<close>

lemma runs_value: "I s \<Longrightarrow> runs I (read_act (\<lambda>_. v)) s (\<lambda>x _. v = Inr x)"
  by (simp add: runs_def)

lemma runs_fail: "I s \<Longrightarrow> runs I (fail_act e) s Q"
  by (simp add: runs_def)

section \<open>The invariant\<close>

definition accepted_payload ::
  "'x ext_scheme \<Rightarrow> operator_world \<Rightarrow> OperatorConfig \<Rightarrow> RollupSubmissionKind \<Rightarrow> bytes \<Rightarrow> kernel_inbox_message \<Rightarrow> bool" where
  "accepted_payload X W config kind p m \<longleftrightarrow>
     decode_and_validate_submission_payload X W kind p = Inr m
     \<and> (submission_kind_requires_dal_fee_policy kind \<longrightarrow> enforce_dal_fee_policy X config m = Inr ())"

definition attempts_ok :: "StoredSubmission \<Rightarrow> bool" where
  "attempts_ok stored \<longleftrightarrow>
     length (st_chunk_attempts stored) = length (sb_dal_chunks (st_submission stored))
     \<and> (\<forall>a \<in> set (st_chunk_attempts stored). 1 \<le> a \<and> a \<le> MAX_DAL_CHUNK_ATTEMPTS)"

text \<open>A submission on its way: its chunks carry a prefix of an accepted payload.\<close>

definition carried ::
  "'x ext_scheme \<Rightarrow> operator_world \<Rightarrow> OperatorConfig \<Rightarrow> operator_event set \<Rightarrow> bytes \<Rightarrow> StoredSubmission \<Rightarrow> bool" where
  "carried X W config A p stored \<longleftrightarrow>
     (let sub = st_submission stored in
      st_payload stored = Some p \<and> (\<exists>m. accepted_payload X W config (sb_kind sub) p m)
      \<and> sb_payload_hash sub = Some (hex_encode X (hash X p)) \<and> sb_payload_len sub = length p
      \<and> carries A p (sb_dal_chunks sub) \<and> attempts_ok stored)"

definition complete :: "bytes \<Rightarrow> StoredSubmission \<Rightarrow> bool" where
  "complete p stored \<longleftrightarrow>
     (let cs = sb_dal_chunks (st_submission stored) in cs \<noteq> [] \<and> published_len cs = length p)"

definition file_sound ::
  "'x ext_scheme \<Rightarrow> operator_world \<Rightarrow> OperatorConfig \<Rightarrow> operator_event set \<Rightarrow> StoredSubmission \<Rightarrow> bool" where
  "file_sound X W config A stored \<longleftrightarrow>
     attempts_ok stored
     \<and> (sb_status (st_submission stored) \<in> {SubmittedToL1, Failed}
        \<or> (\<exists>p. carried X W config A p stored
                \<and> (sb_status (st_submission stored) = PendingDal \<or> complete p stored)))"

text \<open>An injected message is one small enough for the inbox, or a pointer to attested chunks of an accepted payload.\<close>

definition pointer_sound ::
  "'x ext_scheme \<Rightarrow> operator_world \<Rightarrow> OperatorConfig \<Rightarrow> operator_event set \<Rightarrow> bytes \<Rightarrow> bool" where
  "pointer_sound X W config A b \<longleftrightarrow>
     (\<exists>kind p m cs pointer pp addr.
        accepted_payload X W config kind p m \<and> carries A p cs \<and> cs \<noteq> [] \<and> published_len cs = length p
        \<and> (\<forall>c \<in> set cs. Status (rc_published_level c) (rc_slot_index c) ''attested'' \<in> A)
        \<and> map_res dal_chunk_pointer cs = Inr (dl_chunks pointer) \<and> dl_kind pointer = dal_payload_kind kind
        \<and> length p < 2 ^ 64 \<and> dl_payload_len pointer = word_of_nat (length p) \<and> dl_payload_hash pointer = hash X p
        \<and> encode_kernel_inbox_message X (MDalPointer pointer) = Inr pp \<and> ow_targeted W addr pp = Inr b)"

definition direct_message :: "operator_world \<Rightarrow> OperatorConfig \<Rightarrow> bytes \<Rightarrow> bool" where
  "direct_message W config b \<longleftrightarrow>
     (\<exists>addr p. ow_targeted W addr p = Inr b) \<and> length b \<le> oc_direct_max_message_bytes config"

definition op_inv :: "'x ext_scheme \<Rightarrow> operator_world \<Rightarrow> OperatorConfig \<Rightarrow> operator_state \<Rightarrow> bool" where
  "op_inv X W config s \<longleftrightarrow>
     (\<forall>sid stored. os_files s sid = Some stored \<longrightarrow> file_sound X W config (set (os_events s)) stored)
     \<and> (\<forall>b. Injected b \<in> set (os_events s) \<longrightarrow>
          direct_message W config b \<or> pointer_sound X W config (set (os_events s)) b)"

lemma carried_mono: "carried X W config A p stored \<Longrightarrow> A \<subseteq> B \<Longrightarrow> carried X W config B p stored"
  by (auto simp: carried_def Let_def intro: carries_mono)

lemma file_sound_mono: "file_sound X W config A stored \<Longrightarrow> A \<subseteq> B \<Longrightarrow> file_sound X W config B stored"
  unfolding file_sound_def using carried_mono by blast

lemma pointer_sound_mono: "pointer_sound X W config A b \<Longrightarrow> A \<subseteq> B \<Longrightarrow> pointer_sound X W config B b"
  unfolding pointer_sound_def using carries_mono by (meson subsetD)

lemma op_inv_counters:
  "op_inv X W config (s\<lparr>os_time := t\<rparr>) \<longleftrightarrow> op_inv X W config s"
  "op_inv X W config (s\<lparr>os_slot_counter := c\<rparr>) \<longleftrightarrow> op_inv X W config s"
  "op_inv X W config (s\<lparr>os_time := t, os_id_counter := i\<rparr>) \<longleftrightarrow> op_inv X W config s"
  by (simp_all add: op_inv_def)

lemma op_inv_event:
  assumes "op_inv X W config s"
    and "\<And>b. e = Injected b \<Longrightarrow> direct_message W config b \<or> pointer_sound X W config (set (os_events s)) b"
  shows "op_inv X W config (s\<lparr>os_events := os_events s @ [e]\<rparr>)"
proof -
  have sub: "set (os_events s) \<subseteq> set (os_events s @ [e])" by auto
  have "file_sound X W config (set (os_events s @ [e])) stored" if "os_files s sid = Some stored" for sid stored
    using assms(1) that file_sound_mono [OF _ sub] unfolding op_inv_def by blast
  moreover have "direct_message W config b \<or> pointer_sound X W config (set (os_events s @ [e])) b"
    if b: "Injected b \<in> set (os_events s @ [e])" for b
  proof -
    consider "e = Injected b" | "Injected b \<in> set (os_events s)" using b by auto
    then have "direct_message W config b \<or> pointer_sound X W config (set (os_events s)) b"
      using assms unfolding op_inv_def by cases blast+
    then show ?thesis using pointer_sound_mono [of X W config _ b, OF _ sub] by blast
  qed
  ultimately show ?thesis by (simp add: op_inv_def)
qed


section \<open>The operations keep the invariant\<close>

lemma runs_ask: "op_inv X W config s \<Longrightarrow> runs (op_inv X W config) (ask f) s (\<lambda>_ _. True)"
  by (simp add: runs_def ask_def op_inv_counters)

lemma runs_emit:
  assumes "op_inv X W config s"
    and "\<And>b. e = Injected b \<Longrightarrow> direct_message W config b \<or> pointer_sound X W config (set (os_events s)) b"
  shows "runs (op_inv X W config) (emit e) s (\<lambda>_ A. e \<in> A)"
  using op_inv_event [OF assms] by (auto simp: runs_def emit_def)

lemma runs_post: "op_inv X W config s \<Longrightarrow> runs (op_inv X W config) (post_dal_slot W slot p) s (\<lambda>_ _. True)"
  unfolding post_dal_slot_def by (rule runs_bind, erule runs_emit) (simp_all add: runs_ask)

lemma runs_status:
  "op_inv X W config s \<Longrightarrow> runs (op_inv X W config) (fetch_dal_slot_status W l i) s (\<lambda>st A. Status l i st \<in> A)"
  unfolding fetch_dal_slot_status_def
  by (rule runs_bind, erule runs_ask, rule runs_bind, erule runs_emit, simp, rule runs_ret)

lemma runs_inject:
  assumes "op_inv X W config s" "direct_message W config b \<or> pointer_sound X W config (set (os_events s)) b"
  shows "runs (op_inv X W config) (inject_direct_message W b) s (\<lambda>_ _. True)"
  unfolding inject_direct_message_def using assms by (intro runs_bind [OF runs_emit]) (auto intro: runs_ask)

lemma runs_slot: "op_inv X W config s \<Longrightarrow> runs (op_inv X W config) (select_slot_index n) s (\<lambda>_ _. True)"
  by (simp add: runs_def select_slot_index_def Let_def op_inv_counters)

text \<open>A file written is sound, so the files stay sound.\<close>

lemma align_ok:
  "length (st_chunk_attempts stored) = length (sb_dal_chunks (st_submission stored)) \<Longrightarrow> align_chunk_attempts stored = stored"
  by (simp add: align_chunk_attempts_def Let_def)

lemma runs_persist:
  assumes inv: "op_inv X W config s" and ok: "file_sound X W config (set (os_events s)) stored"
  shows "runs (op_inv X W config) (persist_submission W stored) s (\<lambda>_ _. True)"
proof -
  have len: "align_chunk_attempts stored = stored" using ok by (intro align_ok) (simp add: file_sound_def attempts_ok_def)
  define st where "st = (if sb_status (st_submission stored) = SubmittedToL1 then stored\<lparr>st_payload := None\<rparr> else stored)"
  have st: "file_sound X W config (set (os_events s)) st"
    using ok by (auto simp: st_def file_sound_def attempts_ok_def)
  have "op_inv X W config (s'\<lparr>os_files := (os_files s')(sid \<mapsto> st)\<rparr>)"
    if "op_inv X W config s'" "set (os_events s) \<subseteq> set (os_events s')" for s' sid
    using that(1) file_sound_mono [OF st that(2)] by (auto simp: op_inv_def)
  then show ?thesis
    unfolding persist_submission_def len Let_def st_def [symmetric]
    by (intro runs_bind [OF runs_ask [OF inv]]) (auto simp: runs_def write_act_def)
qed

section \<open>Publication\<close>

definition published :: "bytes \<Rightarrow> RollupDalChunk \<Rightarrow> operator_event set \<Rightarrow> bool" where
  "published b c A \<longleftrightarrow> Published (rc_slot_index c) (rc_published_level c) b \<in> A \<and> rc_payload_len c = length b"

lemma runs_publish_attempts:
  "op_inv X W config s \<Longrightarrow> runs (op_inv X W config) (publish_attempts W slots b n err) s (published b)"
proof (induction n arbitrary: err s)
  case 0
  then show ?case by (simp add: runs_def)
next
  case (Suc n)
  show ?case
    unfolding publish_attempts.simps
    apply (rule runs_bind [OF runs_slot [OF Suc.prems]], rule runs_bind, erule runs_post)
    apply (unfold case_prod_beta)
    apply (rule runs_handle, erule runs_ask)
    subgoal using Suc.IH by (auto intro: runs_fail)
    subgoal
      by (rule runs_bind, erule runs_value, rule runs_bind, erule runs_ask, rule runs_bind, erule runs_emit, simp, rule runs_ret)
        (simp_all add: published_def)
    done
qed

lemma runs_publish:
  "op_inv X W config s \<Longrightarrow> runs (op_inv X W config) (publish_dal_chunk_with_protocol W slots b) s (published b)"
  "op_inv X W config s \<Longrightarrow> runs (op_inv X W config) (publish_dal_chunk W config' b) s (published b)"
proof -
  show P: "op_inv X W config s \<Longrightarrow> runs (op_inv X W config) (publish_dal_chunk_with_protocol W slots b) s (published b)" for s slots
    unfolding publish_dal_chunk_with_protocol_def by (rule runs_publish_attempts)
  show "op_inv X W config s \<Longrightarrow> runs (op_inv X W config) (publish_dal_chunk W config' b) s (published b)"
    unfolding publish_dal_chunk_def case_prod_beta
    by (rule runs_bind, erule runs_value, rule runs_bind, erule runs_ask, rule runs_bind, erule runs_value,
        rule runs_bind, erule runs_value, erule P)
qed


lemma push_chunk:
  assumes "carried X W config A p stored" "published b c A" "b \<noteq> []"
    and "b @ rest = drop (published_len (sb_dal_chunks (st_submission stored))) p"
  shows "carried X W config A p (stored\<lparr>st_submission := (st_submission stored)\<lparr>
           sb_dal_chunks := sb_dal_chunks (st_submission stored) @ [c], sb_detail := d\<rparr>,
           st_chunk_attempts := st_chunk_attempts stored @ [1]\<rparr>)"
    "rest = drop (published_len (sb_dal_chunks (st_submission stored) @ [c])) p"
proof -
  let ?cs = "sb_dal_chunks (st_submission stored)"
  have len: "length b + length rest = length p - published_len ?cs"
    using arg_cong [OF assms(4), of length] by simp
  then have le: "published_len ?cs + length b \<le> length p" using assms(3) by (cases b) auto
  have b: "take (length b) (drop (published_len ?cs) p) = b" using assms(4) [symmetric] by simp
  have "carries A p (?cs @ [c])"
    using assms(1-3) le b by (intro carries_snoc) (auto simp: carried_def Let_def published_def)
  then show "carried X W config A p (stored\<lparr>st_submission := (st_submission stored)\<lparr>
           sb_dal_chunks := ?cs @ [c], sb_detail := d\<rparr>, st_chunk_attempts := st_chunk_attempts stored @ [1]\<rparr>)"
    using assms(1) by (auto simp: carried_def Let_def attempts_ok_def MAX_DAL_CHUNK_ATTEMPTS_def)
  show "rest = drop (published_len (?cs @ [c])) p"
    using assms(2,4) by (simp add: published_def add.commute flip: drop_drop) (metis append_eq_conv_conj)
qed

lemma runs_publish_rest:
  assumes "op_inv X W config s" "carried X W config (set (os_events s)) p stored" "sb_status (st_submission stored) = PendingDal"
    and "\<forall>b \<in> set bs. b \<noteq> []" "concat bs = drop (published_len (sb_dal_chunks (st_submission stored))) p"
  shows "runs (op_inv X W config) (publish_rest W slots n bs stored) s (\<lambda>st A. carried X W config A p st
           \<and> published_len (sb_dal_chunks (st_submission st)) = length p)"
  using assms
proof (induction bs arbitrary: stored s)
  case Nil
  have "published_len (sb_dal_chunks (st_submission stored)) \<le> length p"
    using Nil.prems(2) by (intro carries_len) (auto simp: carried_def Let_def)
  then show ?case unfolding publish_rest.simps using Nil.prems by (intro runs_ret) simp_all
next
  case (Cons b bs)
  let ?cs = "sb_dal_chunks (st_submission stored)"
  define next_st where "next_st = (\<lambda>c. stored\<lparr>st_submission := (st_submission stored)\<lparr>sb_dal_chunks := ?cs @ [c],
      sb_detail := Some (''Published '' @ show_nat (length (?cs @ [c])) @ '' / '' @ show_nat n @ '' DAL chunk(s)'')\<rparr>,
      st_chunk_attempts := st_chunk_attempts stored @ [1]\<rparr>)"
  have step: "publish_rest W slots n (b # bs) stored
      = bind_act (publish_dal_chunk_with_protocol W slots b) (\<lambda>c.
        bind_act (persist_submission W (next_st c)) (\<lambda>_. publish_rest W slots n bs (next_st c)))"
    by (simp only: publish_rest.simps Let_def next_st_def)
  show ?case
    unfolding step
  proof (rule runs_bind [OF runs_publish(1) [OF Cons.prems(1)]])
    fix c s1
    assume s1: "op_inv X W config s1" "set (os_events s) \<subseteq> set (os_events s1)" "published b c (set (os_events s1))"
    have old: "carried X W config (set (os_events s1)) p stored" by (rule carried_mono [OF Cons.prems(2) s1(2)])
    have b: "b \<noteq> []" "b @ concat bs = drop (published_len ?cs) p" using Cons.prems(4,5) by simp_all
    have new1: "carried X W config (set (os_events s1)) p (next_st c)"
      unfolding next_st_def by (rule push_chunk(1) [OF old s1(3) b])
    have st: "sb_status (st_submission (next_st c)) = PendingDal" "sb_dal_chunks (st_submission (next_st c)) = ?cs @ [c]"
      using Cons.prems(3) by (simp_all add: next_st_def)
    have fs: "file_sound X W config (set (os_events s1)) (next_st c)"
      using new1 st(1) unfolding file_sound_def by (auto simp: carried_def Let_def)
    show "runs (op_inv X W config) (bind_act (persist_submission W (next_st c)) (\<lambda>_. publish_rest W slots n bs (next_st c))) s1
       (\<lambda>st A. carried X W config A p st \<and> published_len (sb_dal_chunks (st_submission st)) = length p)"
    proof (rule runs_bind [OF runs_persist [OF s1(1) fs]])
      fix u s2
      assume s2: "op_inv X W config s2" "set (os_events s1) \<subseteq> set (os_events s2)"
      show "runs (op_inv X W config) (publish_rest W slots n bs (next_st c)) s2
       (\<lambda>st A. carried X W config A p st \<and> published_len (sb_dal_chunks (st_submission st)) = length p)"
        using Cons.IH [OF s2(1) carried_mono [OF new1 s2(2)] st(1)] Cons.prems(4) push_chunk(2) [OF old s1(3) b] st(2) by simp
    qed
  qed
qed

lemma concat_payload_chunks: "0 < n \<Longrightarrow> concat (chunks n xs) = xs \<and> (\<forall>b \<in> set (chunks n xs). b \<noteq> [])"
  by (induction n xs rule: chunks.induct) (subst (1 2) chunks.simps, auto)

lemma summary_sound:
  assumes "carried X W config A p st" "published_len (sb_dal_chunks (st_submission st)) = length p"
    and "update_submission_commitment_summary (st_submission st) = Inr sub"
  shows "file_sound X W config A (st\<lparr>st_submission := sub\<lparr>sb_operation_hash := h, sb_status := CommitmentIncluded, sb_detail := d\<rparr>\<rparr>)"
    "file_sound X W config A (st\<lparr>st_submission := sub\<lparr>sb_status := CommitmentIncluded, sb_detail := d\<rparr>\<rparr>)"
proof -
  obtain c cs where c: "sb_dal_chunks (st_submission st) = c # cs" "sub = (st_submission st)\<lparr>sb_commitment := Some (rc_commitment c),
      sb_published_level := Some (rc_published_level c), sb_slot_index := Some (rc_slot_index c)\<rparr>"
    using assms(3) by (auto simp: update_submission_commitment_summary_def split: list.splits)
  show "file_sound X W config A (st\<lparr>st_submission := sub\<lparr>sb_operation_hash := h, sb_status := CommitmentIncluded, sb_detail := d\<rparr>\<rparr>)"
    "file_sound X W config A (st\<lparr>st_submission := sub\<lparr>sb_status := CommitmentIncluded, sb_detail := d\<rparr>\<rparr>)"
    using assms(1,2) by (auto simp: c file_sound_def carried_def complete_def attempts_ok_def Let_def)
qed

text \<open>Resuming publishes what is left, and the submission is then complete.\<close>

lemma runs_resume:
  assumes "op_inv X W config s" "carried X W config (set (os_events s)) p stored" "sb_status (st_submission stored) = PendingDal"
  shows "runs (op_inv X W config) (resume_pending_dal_submission W config' stored) s (\<lambda>st A. file_sound X W config A st)"
proof (cases "sb_transport (st_submission stored) = Dal")
  case False
  then show ?thesis
    using assms unfolding resume_pending_dal_submission_def by (auto intro!: runs_ret simp: file_sound_def carried_def Let_def)
next
  case True
  have pl: "st_payload stored = Some p" using assms(2) by (simp add: carried_def Let_def)
  let ?done = "\<lambda>st A. carried X W config A p st \<and> published_len (sb_dal_chunks (st_submission st)) = length p"
  have rest: "runs (op_inv X W config) (publish_rest W slots n (chunks k (drop m q)) stored) s1 ?done"
    if "op_inv X W config s1" "set (os_events s) \<subseteq> set (os_events s1)" "k \<noteq> 0"
      "m = published_len (sb_dal_chunks (st_submission stored))" "q = p" for slots n k m q s1
    using concat_payload_chunks [of k "drop m p"] that
    by (intro runs_publish_rest [OF that(1) carried_mono [OF assms(2) that(2)] assms(3)]) auto
  show ?thesis
    using True unfolding resume_pending_dal_submission_def pl Let_def case_prod_beta
    apply (simp only: not_True_eq_False if_False simp_thms)
    apply (rule runs_bind, rule runs_value, rule assms(1))
    apply (rule runs_bind, erule runs_value)
    apply (rule runs_bind, erule runs_ask)
    apply (rule runs_bind, erule runs_value)
    apply (rule runs_bind, erule runs_value)
    apply (rule runs_bind, erule runs_value)
    apply (rule runs_bind, erule runs_value)
    apply (rule runs_bind, erule runs_value)
    apply (rule runs_bind [where Q = ?done])
    subgoal by (rule rest) (auto simp: res_simps)
    apply (rule runs_bind, erule runs_value)
    apply (rule runs_ret, assumption)
    apply (rule summary_sound(1) [where p = p])
    apply (blast intro: carried_mono)
    apply blast
    apply assumption
    done
qed


section \<open>Attestation\<close>

lemma runs_statuses:
  "op_inv X W config s \<Longrightarrow> runs (op_inv X W config) (chunk_statuses W cs) s
     (\<lambda>sts A. list_all2 (\<lambda>c st. Status (rc_published_level c) (rc_slot_index c) st \<in> A) cs sts)"
proof (induction cs arbitrary: s)
  case Nil
  then show ?case unfolding chunk_statuses.simps by (intro runs_ret) simp_all
next
  case (Cons c cs)
  show ?case
    unfolding chunk_statuses.simps
  proof (rule runs_bind [OF runs_status [OF Cons.prems]], rule runs_bind [OF Cons.IH])
    fix st s1 sts s2
    assume "Status (rc_published_level c) (rc_slot_index c) st \<in> set (os_events s1)" "set (os_events s1) \<subseteq> set (os_events s2)"
      "list_all2 (\<lambda>c st. Status (rc_published_level c) (rc_slot_index c) st \<in> set (os_events s2)) cs sts" "op_inv X W config s2"
    then show "runs (op_inv X W config) (ret_act (st # sts)) s2
        (\<lambda>sts A. list_all2 (\<lambda>c st. Status (rc_published_level c) (rc_slot_index c) st \<in> A) (c # cs) sts)"
      by (intro runs_ret) auto
  qed
qed

lemma runs_waiting:
  assumes "op_inv X W config s"
  shows "runs (op_inv X W config) (waiting_chunks W config' cs waiting) s
     (\<lambda>(stale, wait) _. set (map fst stale) \<subseteq> set waiting \<and> (waiting \<noteq> [] \<longrightarrow> stale \<noteq> [] \<or> wait))"
proof (cases "waiting = []")
  case True
  then show ?thesis using assms unfolding waiting_chunks_def by (auto intro: runs_ret)
next
  case False
  show ?thesis
  proof (cases "oc_octez_node_endpoint config'")
    case None
    then show ?thesis using assms False unfolding waiting_chunks_def by (auto intro: runs_ret)
  next
    case (Some u)
    have "runs (op_inv X W config) (handle_act (ask (ow_head_level W)) (\<lambda>_. ret_act ([], True)) (\<lambda>head_level.
            let age = (\<lambda>idx. level_age head_level (rc_published_level (cs ! idx)));
                stale = filter (\<lambda>idx. MAX_WAITING_ATTESTATION_LEVEL_AGE \<le> age idx) waiting in
            ret_act (map (\<lambda>idx. (idx, ''stale waiting_attestation after '' @ show_nat (nat (age idx)) @ '' levels'')) stale,
                     \<exists>idx \<in> set waiting. age idx < MAX_WAITING_ATTESTATION_LEVEL_AGE))) s
     (\<lambda>(stale, wait) _. set (map fst stale) \<subseteq> set waiting \<and> (waiting \<noteq> [] \<longrightarrow> stale \<noteq> [] \<or> wait))"
    proof (rule runs_handle [OF runs_ask [OF assms]])
      fix e s1 assume "op_inv X W config s1"
      then show "runs (op_inv X W config) (ret_act ([], True)) s1
          (\<lambda>(stale, wait) _. set (map fst stale) \<subseteq> set waiting \<and> (waiting \<noteq> [] \<longrightarrow> stale \<noteq> [] \<or> wait))"
        by (rule runs_ret) simp
    next
      fix head_level s1 assume "op_inv X W config s1"
      moreover have "\<exists>i \<in> set waiting. level_age head_level (rc_published_level (cs ! i)) < MAX_WAITING_ATTESTATION_LEVEL_AGE"
        if "\<forall>i \<in> set waiting. \<not> MAX_WAITING_ATTESTATION_LEVEL_AGE \<le> level_age head_level (rc_published_level (cs ! i))"
        using that False by (cases waiting) (auto simp: not_le)
      ultimately show "runs (op_inv X W config) (let age = (\<lambda>idx. level_age head_level (rc_published_level (cs ! idx)));
                stale = filter (\<lambda>idx. MAX_WAITING_ATTESTATION_LEVEL_AGE \<le> age idx) waiting in
            ret_act (map (\<lambda>idx. (idx, ''stale waiting_attestation after '' @ show_nat (nat (age idx)) @ '' levels'')) stale,
                     \<exists>idx \<in> set waiting. age idx < MAX_WAITING_ATTESTATION_LEVEL_AGE)) s1
          (\<lambda>(stale, wait) _. set (map fst stale) \<subseteq> set waiting \<and> (waiting \<noteq> [] \<longrightarrow> stale \<noteq> [] \<or> wait))"
        unfolding Let_def by (intro runs_ret) (auto simp: filter_empty_conv comp_def)
    qed
    then show ?thesis using False Some unfolding waiting_chunks_def by simp
  qed
qed

text \<open>A chunk published again replaces the old one and carries the same bytes.\<close>

lemma replace_chunk:
  assumes st: "carried X W config A p stored" and i: "i < length (sb_dal_chunks (st_submission stored))"
    and b: "submission_chunk_bytes X p (st_submission stored) i = Inr b" "published b c A"
    and a: "1 \<le> a" "a < MAX_DAL_CHUNK_ATTEMPTS"
  shows "carried X W config A p (stored\<lparr>st_submission := (st_submission stored)\<lparr>sb_dal_chunks := (sb_dal_chunks (st_submission stored))[i := c]\<rparr>,
           st_chunk_attempts := (st_chunk_attempts stored)[i := a + 1]\<rparr>)"
    "published_len ((sb_dal_chunks (st_submission stored))[i := c]) = published_len (sb_dal_chunks (st_submission stored))"
proof -
  let ?cs = "sb_dal_chunks (st_submission stored)"
  let ?start = "published_len (take i ?cs)"
  have bytes: "b = slice ?start (?start + rc_payload_len (?cs ! i)) p" "?start + rc_payload_len (?cs ! i) \<le> length p"
    using b(1) by (auto simp: submission_chunk_bytes_def Let_def res_simps)
  then have len: "rc_payload_len c = rc_payload_len (?cs ! i)" using b(2) by (simp add: published_def slice_def)
  have car: "carries A p ?cs" using st by (simp add: carried_def Let_def)
  have pub: "Published (rc_slot_index c) (rc_published_level c) (slice ?start (?start + rc_payload_len c) p) \<in> A"
    using b(2) bytes(1) len by (simp add: published_def)
  note up = carries_update [OF car i len pub]
  have att: "1 \<le> a + 1" "a + 1 \<le> MAX_DAL_CHUNK_ATTEMPTS"
  proof -
    have "unat (a + 1) = unat a + 1" using a(2) unat_add_no_wrap [of a 1] by (simp add: MAX_DAL_CHUNK_ATTEMPTS_def word_less_nat_alt)
    then show "1 \<le> a + 1" "a + 1 \<le> MAX_DAL_CHUNK_ATTEMPTS" using a(2) by (simp_all add: word_le_nat_alt word_less_nat_alt)
  qed
  have "attempts_ok (stored\<lparr>st_submission := (st_submission stored)\<lparr>sb_dal_chunks := ?cs[i := c]\<rparr>,
           st_chunk_attempts := (st_chunk_attempts stored)[i := a + 1]\<rparr>)"
    using st att by (auto simp: carried_def Let_def attempts_ok_def dest!: set_update_subset_insert [THEN subsetD])
  then show "carried X W config A p (stored\<lparr>st_submission := (st_submission stored)\<lparr>sb_dal_chunks := ?cs[i := c]\<rparr>,
           st_chunk_attempts := (st_chunk_attempts stored)[i := a + 1]\<rparr>)"
    using st up(1) by (simp add: carried_def Let_def)
  show "published_len (?cs[i := c]) = published_len ?cs" by (rule up(2))
qed


lemma runs_retry:
  assumes "op_inv X W config s" "carried X W config (set (os_events s)) p stored"
    and "published_len (sb_dal_chunks (st_submission stored)) = length p"
    and "\<forall>i \<in> set (map fst retry). i < length (sb_dal_chunks (st_submission stored))"
  shows "runs (op_inv X W config) (retry_chunks X W config' p lines retry out stored) s (\<lambda>res A.
     case res of Inl st \<Rightarrow> file_sound X W config A st
     | Inr (_, st) \<Rightarrow> carried X W config A p st \<and> published_len (sb_dal_chunks (st_submission st)) = length p)"
  using assms
proof (induction retry arbitrary: s stored out)
  case Nil
  then show ?case unfolding retry_chunks.simps by (intro runs_ret) simp_all
next
  case (Cons r retry)
  obtain i reason where r: "r = (i, reason)" by (cases r)
  define a where "a = st_chunk_attempts stored ! i"
  have i: "i < length (sb_dal_chunks (st_submission stored))" using Cons.prems(4) r by simp
  have att: "attempts_ok stored" using Cons.prems(2) by (simp add: carried_def Let_def)
  then have len: "i < length (st_chunk_attempts stored)" and a1: "1 \<le> a" using i by (simp_all add: attempts_ok_def a_def)
  show ?case
  proof (cases "MAX_DAL_CHUNK_ATTEMPTS \<le> a")
    case True
    have fl: "attempts_ok (stored\<lparr>st_submission := (st_submission stored)\<lparr>sb_status := Failed, sb_detail := d\<rparr>\<rparr>)" for d
      using att by (simp add: attempts_ok_def)
    show ?thesis
      unfolding r retry_chunks.simps Let_def a_def [symmetric] if_P [OF len] if_P [OF True]
      by (rule runs_ret, rule Cons.prems(1)) (simp add: file_sound_def fl)
  next
    case False
    show ?thesis
      unfolding r retry_chunks.simps Let_def a_def [symmetric] if_P [OF len] if_not_P [OF False]
    proof (rule runs_bind, rule runs_value, rule Cons.prems(1), rule runs_bind, erule runs_publish(2))
      fix b s1 c s2
      assume "set (os_events s) \<subseteq> set (os_events s1)" "set (os_events s1) \<subseteq> set (os_events s2)"
        and b: "submission_chunk_bytes X p (st_submission stored) i = Inr b" and s2: "op_inv X W config s2" "published b c (set (os_events s2))"
      then have car: "carried X W config (set (os_events s2)) p stored" using carried_mono [OF Cons.prems(2)] by blast
      note up = replace_chunk [OF car i b s2(2) a1 not_le_imp_less [OF False]]
      show "runs (op_inv X W config) (retry_chunks X W config' p lines retry
            (out @ [''republished chunk['' @ show_nat i @ ''] attempt '' @ show_word (a + 1) @ '' -> slot ''
               @ show_word (rc_slot_index c) @ '' level '' @ show_i32 (rc_published_level c) @ '' ('' @ reason @ '')''])
            (stored\<lparr>st_submission := (st_submission stored)\<lparr>sb_dal_chunks := (sb_dal_chunks (st_submission stored))[i := c]\<rparr>,
                    st_chunk_attempts := (st_chunk_attempts stored)[i := a + 1]\<rparr>)) s2
          (\<lambda>res A. case res of Inl st \<Rightarrow> file_sound X W config A st
             | Inr (_, st) \<Rightarrow> carried X W config A p st \<and> published_len (sb_dal_chunks (st_submission st)) = length p)"
        by (rule Cons.IH [OF s2(1) up(1)]) (use up(2) Cons.prems(3,4) in simp_all)
    qed
  qed
qed

section \<open>Pointers\<close>

lemma runs_submit_pointer:
  assumes laws: "hex_laws X" "blake_laws X" and inv: "op_inv X W config s"
    and car: "carried X W config (set (os_events s)) p stored" and full: "complete p stored"
    and att: "\<forall>c \<in> set (sb_dal_chunks (st_submission stored)). Status (rc_published_level c) (rc_slot_index c) ''attested'' \<in> set (os_events s)"
  shows "runs (op_inv X W config) (submit_pointer X W lines stored) s (\<lambda>st A. file_sound X W config A st)"
proof -
  let ?sub = "st_submission stored"
  obtain m where acc: "accepted_payload X W config (sb_kind ?sub) p m" using car unfolding carried_def Let_def by blast
  have "hex_decode X (hex_encode X (hash X p)) = Some (hash X p)" using laws(1) unfolding hex_laws_def by blast
  moreover have "length (hash X p) = 32" using laws(2) by simp
  ultimately have hash: "decode_felt_hex X W (hex_encode X (hash X p)) = Inr (hash X p)" by (simp add: decode_felt_hex_def)
  have ptr_ok: "pointer_sound X W config A b"
    if A: "set (os_events s) \<subseteq> A" and ptr: "dal_pointer_from_submission X W (?sub\<lparr>sb_status := Attested\<rparr>) = Inr pointer"
      and enc: "encode_kernel_inbox_message X (MDalPointer pointer) = Inr pp" "ow_targeted W (sb_rollup_address ?sub) pp = Inr b"
    for A pointer pp b
  proof -
    have 1: "carries A p (sb_dal_chunks ?sub)" using carried_mono [OF car A] by (simp add: carried_def Let_def)
    have 2: "sb_dal_chunks ?sub \<noteq> []" "published_len (sb_dal_chunks ?sub) = length p" using full by (simp_all add: complete_def Let_def)
    have 3: "\<forall>c \<in> set (sb_dal_chunks ?sub). Status (rc_published_level c) (rc_slot_index c) ''attested'' \<in> A" using att A by blast
    have 4: "map_res dal_chunk_pointer (sb_dal_chunks ?sub) = Inr (dl_chunks pointer)"
      "dl_kind pointer = dal_payload_kind (sb_kind ?sub)" "length p < 2 ^ 64" "dl_payload_len pointer = word_of_nat (length p)"
      "dl_payload_hash pointer = hash X p"
      using ptr car hash by (auto simp: dal_pointer_from_submission_def carried_def Let_def res_simps)
    show ?thesis
      unfolding pointer_sound_def
      by (rule exI [of _ "sb_kind ?sub"], rule exI [of _ p], rule exI [of _ m], rule exI [of _ "sb_dal_chunks ?sub"],
          rule exI [of _ pointer], rule exI [of _ pp], rule exI [of _ "sb_rollup_address ?sub"])
        (intro conjI acc 1 2 3 4 enc)
  qed
  have fin: "file_sound X W config A (stored\<lparr>st_submission := (?sub\<lparr>sb_status := Attested\<rparr>)\<lparr>sb_status := SubmittedToL1,
      sb_operation_hash := h, sb_detail := d\<rparr>\<rparr>)" for A h d
    using car by (simp add: file_sound_def carried_def Let_def attempts_ok_def)
  show ?thesis
    unfolding submit_pointer_def Let_def
    apply (rule runs_bind, rule runs_value, rule inv, rule runs_bind, erule runs_value, rule runs_bind, erule runs_value,
        rule runs_bind, erule runs_inject)
    subgoal by (rule disjI2, rule ptr_ok) auto
    by (rule runs_ret, assumption, rule fin)
qed


section \<open>The operator's operations\<close>

lemma advance_indices:
  assumes "list_all2 P chs sts"
  defines "indexed \<equiv> enumerate 0 (zip chs sts)"
  shows "set (map fst (filter Q indexed)) \<subseteq> {..< length chs}"
    "filter (\<lambda>(_, _, st). st = ''unattested'') indexed = [] \<Longrightarrow> filter (\<lambda>(_, _, st). st \<noteq> ''unattested'' \<and> st \<noteq> ''attested'') indexed = []
     \<Longrightarrow> \<forall>c \<in> set chs. P c ''attested''"
proof -
  have len: "length sts = length chs" using assms(1) by (simp add: list_all2_lengthD)
  then show "set (map fst (filter Q indexed)) \<subseteq> {..< length chs}"
    by (auto simp: indexed_def in_set_enumerate_eq)
  assume none: "filter (\<lambda>(_, _, st). st = ''unattested'') indexed = []"
    "filter (\<lambda>(_, _, st). st \<noteq> ''unattested'' \<and> st \<noteq> ''attested'') indexed = []"
  show "\<forall>c \<in> set chs. P c ''attested''"
  proof
    fix c assume "c \<in> set chs"
    then obtain i where i: "i < length chs" "c = chs ! i" by (auto simp: in_set_conv_nth)
    have "(i, chs ! i, sts ! i) \<in> set indexed" using i(1) len by (simp add: indexed_def in_set_enumerate_eq)
    then have "sts ! i = ''attested''" using none by (auto simp: filter_empty_conv)
    then show "P c ''attested''" using assms(1) i by (metis list_all2_nthD)
  qed
qed

lemma runs_advance:
  assumes laws: "hex_laws X" "blake_laws X" and inv: "op_inv X W config s" and ok: "file_sound X W config (set (os_events s)) stored"
  shows "runs (op_inv X W config) (maybe_advance_submission X W config stored) s (\<lambda>st A. file_sound X W config A st)"
proof -
  let ?sub = "st_submission stored"
  consider (pending) "sb_status ?sub = PendingDal"
    | (idle) "sb_status ?sub \<notin> {PendingDal, CommitmentIncluded, Attested} \<or> (sb_status ?sub \<noteq> PendingDal \<and> (sb_dal_chunks ?sub = [] \<or> oc_dal_node_endpoint config = None))"
    | (busy) "sb_status ?sub \<in> {CommitmentIncluded, Attested}" "sb_dal_chunks ?sub \<noteq> []" "oc_dal_node_endpoint config \<noteq> None"
    by blast
  then show ?thesis
  proof cases
    case pending
    then obtain p where "carried X W config (set (os_events s)) p stored" using ok by (auto simp: file_sound_def)
    then show ?thesis using runs_resume [OF inv _ pending] pending by (simp add: maybe_advance_submission_def)
  next
    case idle
    then have "maybe_advance_submission X W config stored = ret_act stored"
      by (auto simp: maybe_advance_submission_def)
    then show ?thesis using runs_ret [of "op_inv X W config" s "\<lambda>st A. file_sound X W config A st" stored] inv ok by simp
  next
    case busy
    then obtain p where p: "carried X W config (set (os_events s)) p stored" "complete p stored"
      using ok by (auto simp: file_sound_def)
    have al: "align_chunk_attempts stored = stored"
      using p(1) by (intro align_ok) (simp add: carried_def Let_def attempts_ok_def)
    have pl: "st_payload stored = Some p" using p(1) by (simp add: carried_def Let_def)
    have plen: "published_len (sb_dal_chunks ?sub) = length p" using p(2) by (simp add: complete_def Let_def)
    have conds: "\<not> sb_status ?sub = PendingDal" "\<not> sb_status ?sub \<notin> {CommitmentIncluded, Attested}"
      "\<not> sb_dal_chunks ?sub = []" "\<not> oc_dal_node_endpoint config = None" using busy by auto
    show ?thesis
      unfolding maybe_advance_submission_def Let_def al if_not_P [OF conds(1)] if_not_P [OF conds(2)] if_not_P [OF conds(3)]
        if_not_P [OF conds(4)]
    proof (rule runs_bind [OF runs_statuses [OF inv]], rule runs_bind, erule runs_waiting, unfold case_prod_beta, goal_cases)
      case (1 sts s1 w s2)
      let ?chs = "sb_dal_chunks ?sub" and ?ix = "enumerate 0 (zip (sb_dal_chunks ?sub) sts)"
      let ?un = "filter (\<lambda>x. snd (snd x) = ''unattested'') ?ix"
      let ?wait = "filter (\<lambda>x. snd (snd x) \<noteq> ''unattested'' \<and> snd (snd x) \<noteq> ''attested'') ?ix"
      have car: "carried X W config (set (os_events s2)) p stored" by (rule carried_mono [OF p(1)]) (use 1 in blast)
      have sts: "list_all2 (\<lambda>c st. Status (rc_published_level c) (rc_slot_index c) st \<in> set (os_events s2)) ?chs sts"
        by (rule list_all2_mono [OF 1(3)]) (use 1(5) in blast)
      note ix = advance_indices [OF sts, unfolded case_prod_beta]
      have w: "set (map fst (fst w)) \<subseteq> set (map fst ?wait)" "map fst ?wait \<noteq> [] \<Longrightarrow> fst w \<noteq> [] \<or> snd w"
        using 1(6) by blast+
      let ?retry = "map (\<lambda>p. (fst p, ''unattested'')) ?un @ fst w"
      show ?case
      proof (cases "?retry = []")
        case False
        have "set (map fst ?retry) \<subseteq> {..< length ?chs}"
          using ix(1) [of "\<lambda>x. snd (snd x) = ''unattested''"]
            ix(1) [of "\<lambda>x. snd (snd x) \<noteq> ''unattested'' \<and> snd (snd x) \<noteq> ''attested''"] w(1)
          by (auto simp: image_image)
        then have range: "\<forall>i \<in> set (map fst ?retry). i < length ?chs" by blast
        let ?R = "\<lambda>res A. case res of Inl st \<Rightarrow> file_sound X W config A st
           | Inr (_, st) \<Rightarrow> carried X W config A p st \<and> published_len (sb_dal_chunks (st_submission st)) = length p"
        have retry: "runs (op_inv X W config) (retry_chunks X W config q lines ?retry [] stored) s3 ?R"
          if "op_inv X W config s3" "set (os_events s2) \<subseteq> set (os_events s3)" "ok_or (Some p) e = Inr q" for s3 q e lines
          using runs_retry [OF that(1) carried_mono [OF car that(2)] plen range] that(3) by (simp add: res_simps)
        have ret: "runs (op_inv X W config) (ret_act st) s3 (\<lambda>st A. file_sound X W config A st)"
          if "op_inv X W config s3" "file_sound X W config (set (os_events s3)) st" for s3 st
          by (rule runs_ret) (use that in simp_all)
        show ?thesis
          unfolding if_P [OF False] pl
          apply (rule runs_bind, rule runs_value, rule 1(4))
          apply (rule runs_bind [where Q = ?R], erule (2) retry)
          subgoal for u s3 res s4
            apply (cases res)
            subgoal by (simp only: sum.case) (rule ret)
            subgoal for x
              apply (simp only: sum.case case_prod_beta)
              apply (rule runs_bind, erule runs_value)
              apply (rule ret, assumption)
              apply (rule summary_sound(2) [where p = p])
              apply (blast intro: carried_mono)
              apply blast
              apply assumption
              done
            done
          done
      next
        case True
        then have none: "?un = []" "fst w = []" by simp_all
        show ?thesis
        proof (cases "snd w")
          case wait: True
          have fs: "file_sound X W config (set (os_events s2)) (stored\<lparr>st_submission := ?sub\<lparr>sb_status := CommitmentIncluded, sb_detail := d\<rparr>\<rparr>)" for d
            using car p(2) by (auto simp: file_sound_def carried_def complete_def Let_def attempts_ok_def)
          have nil: "\<not> ?retry \<noteq> []" using True by simp
          show ?thesis unfolding if_not_P [OF nil] if_P [OF wait] by (rule runs_ret, rule 1(4), rule fs)
        next
          case go: False
          have "?wait = []" using w(2) none(2) go by auto
          then have att: "\<forall>c \<in> set ?chs. Status (rc_published_level c) (rc_slot_index c) ''attested'' \<in> set (os_events s2)"
            by (rule ix(2) [OF none(1)])
          have nil: "\<not> ?retry \<noteq> []" using True by simp
          show ?thesis
            unfolding if_not_P [OF nil] if_not_P [OF go] by (rule runs_submit_pointer [OF laws 1(4) car p(2) att])
        qed
      qed
    qed
  qed
qed


lemma failed_sound: "attempts_ok stored \<Longrightarrow> file_sound X W config A (set_outcome Failed d stored)"
  by (simp add: file_sound_def set_outcome_def attempts_ok_def)

lemma runs_persist_ret:
  assumes "op_inv X W config s" "file_sound X W config (set (os_events s)) stored"
  shows "runs (op_inv X W config) (bind_act (persist_submission W stored) (\<lambda>_. ret_act x)) s (\<lambda>_ _. True)"
  by (rule runs_bind [OF runs_persist [OF assms]]) (rule runs_ret, simp_all)

lemma runs_advance_new:
  assumes laws: "hex_laws X" "blake_laws X" and inv: "op_inv X W config s" and ok: "file_sound X W config (set (os_events s)) stored"
  shows "runs (op_inv X W config) (advance_new X W config stored) s (\<lambda>_ _. True)"
  unfolding advance_new_def
proof (rule runs_handle [OF runs_advance [OF laws inv ok]])
  fix e s1 assume s1: "op_inv X W config s1"
  define failed where "failed = (case load_stored_submission (sb_id (st_submission stored)) s1 of
                             (Inr loaded, _) \<Rightarrow> loaded | (Inl _, _) \<Rightarrow> stored)"
  have "attempts_ok failed"
  proof (cases "os_files s1 (sb_id (st_submission stored))")
    case None
    then show ?thesis using ok by (simp add: failed_def load_stored_submission_def file_sound_def)
  next
    case (Some st)
    then have "attempts_ok st" using s1 by (auto simp: op_inv_def file_sound_def)
    then show ?thesis using Some by (simp add: failed_def load_stored_submission_def align_ok attempts_ok_def)
  qed
  then have "runs (op_inv X W config) (persist_submission W (set_outcome Failed e failed)) s1 (\<lambda>_ _. True)"
    by (intro runs_persist [OF s1] failed_sound)
  then show "runs (op_inv X W config) (\<lambda>s. let failed = (case load_stored_submission (sb_id (st_submission stored)) s of
                             (Inr loaded, _) \<Rightarrow> loaded | (Inl _, _) \<Rightarrow> stored) in
             (Inl (Err e), snd (persist_submission W (set_outcome Failed e failed) s))) s1 (\<lambda>_ _. True)"
    unfolding runs_def Let_def failed_def [symmetric] by (auto split: prod.splits)
qed (rule runs_persist_ret)

lemma runs_process:
  assumes laws: "hex_laws X" "blake_laws X" and inv: "op_inv X W config s"
  shows "runs (op_inv X W config) (process_submission X W config req) s (\<lambda>_ _. True)"
proof -
  have id: "runs (op_inv X W config) (next_submission_id W) s (\<lambda>_ _. True)"
    using inv by (simp add: runs_def next_submission_id_def Let_def op_inv_counters)
  have att: "attempts_ok (new_submission X sid req)" for sid by (simp add: attempts_ok_def new_submission_def)
  have direct: "runs (op_inv X W config) (submit_direct W b (new_submission X sid req)) s1 (\<lambda>_ _. True)"
    if s1: "op_inv X W config s1" and b: "direct_message W config b" for b sid s1
    unfolding submit_direct_def Let_def
  proof (rule runs_handle [OF runs_inject [OF s1 disjI1 [OF b]]])
    fix e s2 assume s2: "op_inv X W config s2"
    show "runs (op_inv X W config) (bind_act (persist_submission W (set_outcome Failed e ((new_submission X sid req)\<lparr>st_submission :=
        (st_submission (new_submission X sid req))\<lparr>sb_transport := DirectInbox\<rparr>\<rparr>))) (\<lambda>_. fail_act e)) s2 (\<lambda>_ _. True)"
      by (rule runs_bind [OF runs_persist [OF s2 failed_sound]], simp add: attempts_ok_def new_submission_def, rule runs_fail)
  next
    fix out s2 assume s2: "op_inv X W config s2"
    show "runs (op_inv X W config) (bind_act (persist_submission W (set_outcome SubmittedToL1 out
          ((new_submission X sid req)\<lparr>st_submission := (st_submission (new_submission X sid req))\<lparr>sb_transport := DirectInbox\<rparr>\<rparr>
           \<lparr>st_submission := (st_submission ((new_submission X sid req)\<lparr>st_submission :=
               (st_submission (new_submission X sid req))\<lparr>sb_transport := DirectInbox\<rparr>\<rparr>))\<lparr>sb_operation_hash := extract_operation_hash out\<rparr>\<rparr>)))
        (\<lambda>_. ret_act (st_submission (set_outcome SubmittedToL1 out
          ((new_submission X sid req)\<lparr>st_submission := (st_submission (new_submission X sid req))\<lparr>sb_transport := DirectInbox\<rparr>\<rparr>
           \<lparr>st_submission := (st_submission ((new_submission X sid req)\<lparr>st_submission :=
               (st_submission (new_submission X sid req))\<lparr>sb_transport := DirectInbox\<rparr>\<rparr>))\<lparr>sb_operation_hash := extract_operation_hash out\<rparr>\<rparr>))))) s2 (\<lambda>_ _. True)"
      by (rule runs_persist_ret [OF s2]) (simp add: file_sound_def set_outcome_def attempts_ok_def new_submission_def)
  qed
  have new: "file_sound X W config A (set_outcome PendingDal d (new_submission X sid req))"
    if "accepted_payload X W config (sq_kind req) (sq_payload req) m" for A d sid m
    using that by (auto simp: file_sound_def set_outcome_def new_submission_def carried_def attempts_ok_def Let_def)
  show ?thesis
    unfolding process_submission_def
  proof (rule runs_bind [OF id], rule runs_bind, erule runs_value, unfold Let_def, goal_cases)
    case (1 sid s1 b s2)
    have s2: "op_inv X W config s2" by (rule 1(4))
    consider (small) "length b \<le> oc_direct_max_message_bytes config"
      | (off) "\<not> length b \<le> oc_direct_max_message_bytes config" "oc_dal_node_endpoint config = None"
      | (dal) "\<not> length b \<le> oc_direct_max_message_bytes config" "\<not> oc_dal_node_endpoint config = None" by blast
    then show ?case
    proof cases
      case small
      have "direct_message W config b" using small 1(6) unfolding direct_message_def by blast
      then show ?thesis unfolding if_P [OF small] by (rule direct [OF s2])
    next
      case off
      show ?thesis
        unfolding if_not_P [OF off(1)] if_P [OF off(2)] by (rule runs_persist_ret [OF s2 failed_sound [OF att]])
    next
      case dal
      show ?thesis
        unfolding if_not_P [OF dal(1)] if_not_P [OF dal(2)]
      proof (rule runs_bind, rule runs_value, rule s2, rule runs_bind, erule runs_value, goal_cases)
        case (1 m s3 u s4)
        then have "accepted_payload X W config (sq_kind req) (sq_payload req) m" by (simp add: accepted_payload_def split: if_splits)
        note fs = new [OF this]
        show ?case
          by (rule runs_bind [OF runs_persist [OF 1(4) fs]]) (rule runs_advance_new [OF laws _ fs])
      qed
    qed
  qed
qed

lemma runs_reconcile_paths:
  assumes laws: "hex_laws X" "blake_laws X"
  shows "op_inv X W config s \<Longrightarrow> runs (op_inv X W config) (reconcile_paths X W config sids summary) s (\<lambda>_ _. True)"
proof (induction sids arbitrary: s summary)
  case Nil
  then show ?case unfolding reconcile_paths.simps by (intro runs_ret) simp_all
next
  case (Cons sid sids)
  have load: "runs (op_inv X W config) (load_stored_submission sid) s (\<lambda>st A. file_sound X W config A st)"
  proof (cases "os_files s sid")
    case (Some st)
    then have "file_sound X W config (set (os_events s)) st" using Cons.prems by (auto simp: op_inv_def)
    moreover from this have "align_chunk_attempts st = st" by (intro align_ok) (simp add: file_sound_def attempts_ok_def)
    ultimately show ?thesis using Some Cons.prems by (simp add: runs_def load_stored_submission_def)
  qed (simp add: runs_def load_stored_submission_def Cons.prems)
  show ?case
    unfolding reconcile_paths.simps Let_def
  proof (rule runs_handle [OF load], erule Cons.IH)
    fix stored s1 assume s1: "op_inv X W config s1" "file_sound X W config (set (os_events s1)) stored"
    let ?count = "summary\<lparr>rm_visited := rm_visited summary + 1\<rparr>"
    have adv: "runs (op_inv X W config) (handle_act (maybe_advance_submission X W config stored)
           (\<lambda>_. reconcile_paths X W config sids (summary\<lparr>rm_visited := rm_visited summary + 1, rm_errors := rm_errors summary + 1\<rparr>))
           (\<lambda>updated. if updated \<noteq> stored
            then bind_act (persist_submission W updated) (\<lambda>_. reconcile_paths X W config sids
                   (summary\<lparr>rm_visited := rm_visited summary + 1, rm_updated := rm_updated summary + 1\<rparr>))
            else reconcile_paths X W config sids ?count)) s1 (\<lambda>_ _. True)"
    proof (rule runs_handle [OF runs_advance [OF laws s1]], erule Cons.IH)
      fix updated s2 assume s2: "op_inv X W config s2" "file_sound X W config (set (os_events s2)) updated"
      show "runs (op_inv X W config) (if updated \<noteq> stored
            then bind_act (persist_submission W updated) (\<lambda>_. reconcile_paths X W config sids
                   (summary\<lparr>rm_visited := rm_visited summary + 1, rm_updated := rm_updated summary + 1\<rparr>))
            else reconcile_paths X W config sids ?count) s2 (\<lambda>_ _. True)"
      proof (cases "updated = stored")
        case False
        then show ?thesis by (simp only: not_False_eq_True if_True) (rule runs_bind [OF runs_persist [OF s2]], erule Cons.IH)
      qed (simp add: Cons.IH [OF s2(1)])
    qed
    show "runs (op_inv X W config) (if sb_status (st_submission stored) \<notin> {PendingDal, CommitmentIncluded, Attested}
         then reconcile_paths X W config sids summary
         else handle_act (maybe_advance_submission X W config stored)
           (\<lambda>_. reconcile_paths X W config sids (summary\<lparr>rm_visited := rm_visited summary + 1, rm_errors := rm_errors summary + 1\<rparr>))
           (\<lambda>updated. if updated \<noteq> stored
            then bind_act (persist_submission W updated) (\<lambda>_. reconcile_paths X W config sids
                   (summary\<lparr>rm_visited := rm_visited summary + 1, rm_updated := rm_updated summary + 1\<rparr>))
            else reconcile_paths X W config sids ?count)) s1 (\<lambda>_ _. True)"
      using adv Cons.IH [OF s1(1)] by (simp only: simp_thms split: if_splits)
  qed
qed


section \<open>Sessions of the operator\<close>

text \<open>
  The states of an operator that starts with an empty directory, takes requests, reconciles and is
  restarted, which resets the counters it keeps in memory.
\<close>

inductive operator_reaches :: "'x ext_scheme \<Rightarrow> operator_world \<Rightarrow> OperatorConfig \<Rightarrow> operator_state \<Rightarrow> bool"
  for X W config where
  start: "operator_reaches X W config \<lparr>os_time = t, os_slot_counter = 0, os_id_counter = 0, os_files = Map.empty, os_events = []\<rparr>"
| request: "operator_reaches X W config s \<Longrightarrow> operator_reaches X W config (snd (process_submission X W config req s))"
| reconcile: "operator_reaches X W config s \<Longrightarrow> operator_reaches X W config (snd (reconcile_pending_submissions X W config paths s))"
| restart: "operator_reaches X W config s \<Longrightarrow> operator_reaches X W config (s\<lparr>os_slot_counter := 0, os_id_counter := 0\<rparr>)"

lemma operator_reaches_inv:
  assumes "hex_laws X" "blake_laws X" "operator_reaches X W config s"
  shows "op_inv X W config s"
  using assms(3)
proof induction
  case (start t)
  then show ?case by (simp add: op_inv_def)
next
  case (request s req)
  then show ?case using runs_process [OF assms(1,2), of W config s req] by (auto simp: runs_def split: prod.splits)
next
  case (reconcile s paths)
  have "runs (op_inv X W config) (reconcile_pending_submissions X W config paths) s (\<lambda>_ _. True)"
    unfolding reconcile_pending_submissions_def
    by (rule runs_bind, rule runs_value, rule reconcile.IH, erule runs_reconcile_paths [OF assms(1,2)])
  then show ?case by (auto simp: runs_def split: prod.splits)
next
  case (restart s)
  then show ?case by (simp add: op_inv_def)
qed

end
