(* ===== verification/OperatorDal.thy ===== *)
theory OperatorDal
  imports OperatorSafety KernelSafety
begin

text \<open>
  From the operator to the kernel: a data-availability layer that serves what was published lets
  the kernel reassemble, from a pointer the operator injected, the message the operator accepted.
\<close>

section \<open>A layer that serves published chunks\<close>






section \<open>Reassembly\<close>








section \<open>A sample session\<close>

definition sample_world :: operator_world where
  "sample_world = \<lparr>ow_now = (\<lambda>t. t), ow_parameters = (\<lambda>_. Inr (1, 100)), ow_post_slot = (\<lambda>_ _ _. Inr ([], [])),
     ow_publish_commitment = (\<lambda>_ _ _ _. Inr []), ow_block_level = (\<lambda>_ _. Inr 7), ow_head_level = (\<lambda>_. Inr 8),
     ow_slot_status = (\<lambda>_ _ _. Inr ''attested''), ow_inject = (\<lambda>_ _. Inr ''injected''), ow_write = (\<lambda>_. Inr ()),
     ow_targeted = (\<lambda>_ p. Inr p), ow_admin_pub_seed = None, ow_verifier_leaf = None, ow_bridge_leaf = None,
     ow_debug_build = True, ow_hex_error = id\<rparr>"

definition sample_operator :: OperatorConfig where
  "sample_operator = \<lparr>oc_direct_max_message_bytes = 4096, oc_dal_max_chunk_bytes = None, oc_octez_node_endpoint = Some [],
     oc_dal_node_endpoint = Some [], oc_dal_fee_policy = None\<rparr>"

definition sample_session :: operator_state where
  "sample_session = snd (process_submission (sample_dal_env []) sample_world sample_operator
     \<lparr>sq_kind = SubTransfer, sq_rollup_address = ''sr1'', sq_payload = [1, 2]\<rparr>
     \<lparr>os_time = 0, os_slot_counter = 0, os_id_counter = 0, os_files = Map.empty, os_events = []\<rparr>)"

lemma sample_session_reached: "operator_reaches (sample_dal_env []) sample_world sample_operator sample_session"
  unfolding sample_session_def by (rule operator_reaches.request [OF operator_reaches.start])

lemma sample_session_facts:
  "os_events sample_session = [Injected [1, 2]]" "\<exists>sid stored. os_files sample_session sid = Some stored"
  by (simp_all add: sample_session_def process_submission_def bind_act_def next_submission_id_def submit_direct_def
      handle_act_def inject_direct_message_def emit_def ask_def persist_submission_def write_act_def sample_world_def
      sample_operator_def Let_def)

lemma sample_dal_laws: "hex_laws (sample_dal_env [])" "blake_laws (sample_dal_env [])"
proof -
  have sel: "hex_encode (sample_dal_env []) = hex_encode sample_kernel_env" "hex_decode (sample_dal_env []) = hex_decode sample_kernel_env"
    "blake2s_digest (sample_dal_env []) = blake2s_digest sample_kernel_env" by (simp_all add: sample_dal_env_def)
  have laws: "hex_laws sample_kernel_env" "blake_laws sample_kernel_env" using sample_kernel_laws unfolding durable_laws_def by blast+
  show "hex_laws (sample_dal_env [])" using laws(1) unfolding hex_laws_def sel .
  show "blake_laws (sample_dal_env [])" using laws(2) unfolding blake_laws_def sel .
qed


section \<open>What the operator guarantees\<close>



text \<open>
  C21: the files of the operator stay consistent. In every session each stored submission has one attempt
  counter per chunk, between one and eight; as long as it is on its way, it keeps its payload, of
  which its chunks are published slices in order, all of it once the commitments are included, so that after a crash
  publication goes on where it stopped and a chunk is never published a ninth time.
\<close>

theorem operator_files_consistent:
  assumes "hex_laws X" "blake_laws X" "operator_reaches X W config s" "os_files s sid = Some stored"
  shows "length (st_chunk_attempts stored) = length (sb_dal_chunks (st_submission stored))
    \<and> (\<forall>a \<in> set (st_chunk_attempts stored). 1 \<le> a \<and> a \<le> 8)
    \<and> (sb_status (st_submission stored) \<notin> {SubmittedToL1, Failed} \<longrightarrow>
        (\<exists>p m. st_payload stored = Some p \<and> accepted_payload X W config (sb_kind (st_submission stored)) p m
           \<and> carries (set (os_events s)) p (sb_dal_chunks (st_submission stored))
           \<and> (sb_status (st_submission stored) = PendingDal
              \<or> published_len (sb_dal_chunks (st_submission stored)) = length p)))"
proof -
  have fs: "file_sound X W config (set (os_events s)) stored"
    using operator_reaches_inv [OF assms(1-3)] assms(4) unfolding op_inv_def by blast
  then show ?thesis
    unfolding file_sound_def attempts_ok_def carried_def complete_def Let_def MAX_DAL_CHUNK_ATTEMPTS_def by blast
qed

theorem operator_files_consistent_witness:
  "\<exists>sid stored. os_files sample_session sid = Some stored
     \<and> length (st_chunk_attempts stored) = length (sb_dal_chunks (st_submission stored))"
proof -
  obtain sid stored where f: "os_files sample_session sid = Some stored" using sample_session_facts(2) by blast
  from operator_files_consistent [OF sample_dal_laws sample_session_reached f] f show ?thesis by blast
qed

end
