(* ===== verification/OperatorFees.thy ===== *)
theory OperatorFees
  imports Operator
begin

text \<open>
  The wallet and the operator agree on fees: the requests a wallet builds for the operator's
  address and amount pass the operator's policy, and no others it builds for that address do.
\<close>

lemma loaded_policy_sound:
  assumes "load_dal_fee_policy X amount (Inr (OpView v seed rs)) j = Inr policy"
    and "\<forall>r \<in> set rs. is_felt (vr_d_j r) \<and> is_felt (vr_auth_root r) \<and> is_felt (vr_auth_pub_seed r) \<and> is_felt (vr_nk_tag r)"
  obtains ek_v dk_v ek_d dk_d where "fp_amount policy = amount" "amount \<noteq> 0"
    "derive_kem_keys X (fp_incoming_seed policy) (fp_address_index policy) = (ek_v, dk_v, ek_d, dk_d)"
    "address_sound X (fp_address policy) dk_v dk_d"
proof -
  obtain ek_v dk_v ek_d dk_d where k: "derive_kem_keys X seed j = (ek_v, dk_v, ek_d, dk_d)" by (cases "derive_kem_keys X seed j")
  obtain r where r: "find (\<lambda>r. vr_index r = j) rs = Some r" and am: "amount \<noteq> 0"
    and policy: "policy = \<lparr>fp_amount = amount, fp_incoming_seed = seed, fp_address_index = j,
          fp_address = \<lparr>pa_d_j = vr_d_j r, pa_auth_root = vr_auth_root r,
            pa_auth_pub_seed = vr_auth_pub_seed r, pa_nk_tag = vr_nk_tag r, pa_ek_v = ek_v, pa_ek_d = ek_d\<rparr>\<rparr>"
    using assms(1) k by (auto simp: load_dal_fee_policy_def res_simps)
  have "r \<in> set rs" using r by (auto simp: find_Some_iff)
  moreover have "\<exists>s. kem_keygen X s = (ek_v, dk_v)" "\<exists>s. kem_keygen X s = (ek_d, dk_d)"
    using k by (auto simp: derive_kem_keys_def kem_keygen_from_seed_def Let_def split: prod.splits)
  ultimately have "address_sound X (fp_address policy) dk_v dk_d" using assms(2) by (simp add: address_sound_def policy)
  then show thesis using that [of ek_v dk_v ek_d dk_d] k am by (simp add: policy)
qed

lemma fee_note_checked:
  assumes laws: "note_laws X ek_new" and rng: "length (fst rng) = 32"
    and k: "derive_kem_keys X (fp_incoming_seed policy) (fp_address_index policy) = (ek_v, dk_v, ek_d, dk_d)"
    and a: "address_sound X (fp_address policy) dk_v dk_d"
    and n: "build_output_note_with_outgoing X ek_new rng (fp_address policy) v memo seed role = Inr n"
  shows "validate_fee_note_against_policy X policy (po_cm n) (po_enc n) claimed = Inr ()
    \<longleftrightarrow> v = fp_amount policy \<and> claimed = fp_amount policy"
proof -
  obtain n' where n': "build_output_note_with_outgoing X ek_new rng (fp_address policy) v memo seed role = Inr n'"
    "po_cm n' = commit X (pa_d_j (fp_address policy)) v (derive_rcm X (po_rseed n'))
       (owner_tag X (pa_auth_root (fp_address policy)) (pa_auth_pub_seed (fp_address policy)) (pa_nk_tag (fp_address policy)))"
    "detect X (po_enc n') dk_d = Inr True" "decrypt_memo X (po_enc n') dk_v = Inr (Some (v, po_rseed n', pad_memo memo))"
    by (rule build_output_note [OF laws rng a]) blast
  then have "n' = n" using n by simp
  then show ?thesis
    using n'(2-4) by (auto simp: validate_fee_note_against_policy_def k Let_def guard_def)
qed

lemma wallet_fee_requests:
  assumes laws: "note_laws X ek_new"
    and policy: "load_dal_fee_policy X amount (Inr (OpView v seed rs)) j = Inr policy" "oc_dal_fee_policy config = Some policy"
      "\<forall>r \<in> set rs. is_felt (vr_d_j r) \<and> is_felt (vr_auth_root r) \<and> is_felt (vr_auth_pub_seed r) \<and> is_felt (vr_nk_tag r)"
    and rng: "length (fst r1) = 32" "length (fst r2) = 32" "length (fst r3) = 32"
  shows "transfer_notes X ek_new trap (r1, r2, r3) recipient x change fee (fp_address policy) memo out_seed w = (Inr tn, w')
      \<Longrightarrow> transfer_req_to_kernel (transfer_request root nfs tx_fee tn pf) = Inr treq
      \<Longrightarrow> enforce_dal_fee_policy X config (MTransfer treq) = Inr () \<longleftrightarrow> fee = amount"
    and "unshield_notes X ek_new trap (r1, r2) change fee (fp_address policy) out_seed w = (Inr un, w')
      \<Longrightarrow> unshield_req_to_kernel (unshield_request root nfs x tx_fee rcp un pf) = Inr ureq
      \<Longrightarrow> enforce_dal_fee_policy X config (MUnshield ureq) = Inr () \<longleftrightarrow> fee = amount"
    and "build_output_note_with_outgoing X ek_new r2 (fp_address policy) fee memo' out_seed ProducerFee = Inr n2
      \<Longrightarrow> shield_req_to_kernel sreq = Inr kreq \<Longrightarrow> sr_producer_cm sreq = po_cm n2 \<Longrightarrow> sr_producer_enc sreq = po_enc n2
      \<Longrightarrow> sr_producer_fee sreq = fee
      \<Longrightarrow> enforce_dal_fee_policy X config (MShield kreq) = Inr () \<longleftrightarrow> fee = amount"
proof -
  obtain ek_v dk_v ek_d dk_d where p: "fp_amount policy = amount"
    "derive_kem_keys X (fp_incoming_seed policy) (fp_address_index policy) = (ek_v, dk_v, ek_d, dk_d)"
    "address_sound X (fp_address policy) dk_v dk_d"
    by (rule loaded_policy_sound [OF policy(1,3)])
  note checked = fee_note_checked [OF laws _ p(2,3)]
  { assume tn: "transfer_notes X ek_new trap (r1, r2, r3) recipient x change fee (fp_address policy) memo out_seed w = (Inr tn, w')"
      and req: "transfer_req_to_kernel (transfer_request root nfs tx_fee tn pf) = Inr treq"
    have "build_output_note_with_outgoing X ek_new r3 (fp_address policy) fee (Some (as_bytes ''dal'')) out_seed ProducerFee = Inr (tn_note_3 tn)"
      using tn by (auto simp: transfer_notes_def bind_act_def split: prod.splits sum.splits)
    moreover have "kt_cm_3 treq = po_cm (tn_note_3 tn)" "kt_enc_3 treq = po_enc (tn_note_3 tn)"
      using req by (auto simp: transfer_req_to_kernel_def transfer_request_def res_simps)
    ultimately show "enforce_dal_fee_policy X config (MTransfer treq) = Inr () \<longleftrightarrow> fee = amount"
      using checked [OF rng(3)] p(1) by (simp add: enforce_dal_fee_policy_def policy(2)) }
  { assume un: "unshield_notes X ek_new trap (r1, r2) change fee (fp_address policy) out_seed w = (Inr un, w')"
      and req: "unshield_req_to_kernel (unshield_request root nfs x tx_fee rcp un pf) = Inr ureq"
    have "build_output_note_with_outgoing X ek_new r2 (fp_address policy) fee (Some (as_bytes ''dal'')) out_seed ProducerFee = Inr (un_producer_note un)"
      using un by (auto simp: unshield_notes_def bind_act_def split: prod.splits sum.splits)
    moreover have "ku_cm_fee ureq = po_cm (un_producer_note un)" "ku_enc_fee ureq = po_enc (un_producer_note un)"
      using req by (auto simp: unshield_req_to_kernel_def unshield_request_def res_simps)
    ultimately show "enforce_dal_fee_policy X config (MUnshield ureq) = Inr () \<longleftrightarrow> fee = amount"
      using checked [OF rng(2)] p(1) by (simp add: enforce_dal_fee_policy_def policy(2)) }
  { assume n: "build_output_note_with_outgoing X ek_new r2 (fp_address policy) fee memo' out_seed ProducerFee = Inr n2"
      and req: "shield_req_to_kernel sreq = Inr kreq" "sr_producer_cm sreq = po_cm n2" "sr_producer_enc sreq = po_enc n2" "sr_producer_fee sreq = fee"
    have "ks_producer_cm kreq = po_cm n2" "ks_producer_enc kreq = po_enc n2" "ks_producer_fee kreq = fee"
      using req by (auto simp: shield_req_to_kernel_def res_simps)
    then show "enforce_dal_fee_policy X config (MShield kreq) = Inr () \<longleftrightarrow> fee = amount"
      using checked [OF rng(2) n, of fee] p(1) by (simp add: enforce_dal_fee_policy_def policy(2)) }
qed

text \<open>
  C22: the operator's fee policy accepts exactly the wallet requests that pay its fee. For a policy
  loaded from viewing material, a shield, transfer or unshield the wallet builds with the policy's address as
  producer passes if and only if the fee of the request is the policy's amount.
\<close>

theorem wallet_requests_pay_operator:
  assumes "note_laws X ek_new"
    and "load_dal_fee_policy X amount (Inr (OpView v seed rs)) j = Inr policy" "oc_dal_fee_policy config = Some policy"
      "\<forall>r \<in> set rs. is_felt (vr_d_j r) \<and> is_felt (vr_auth_root r) \<and> is_felt (vr_auth_pub_seed r) \<and> is_felt (vr_nk_tag r)"
    and "length (fst r1) = 32" "length (fst r2) = 32" "length (fst r3) = 32"
  shows "(transfer_notes X ek_new trap (r1, r2, r3) recipient x change fee (fp_address policy) memo out_seed w = (Inr tn, w')
        \<and> transfer_req_to_kernel (transfer_request root nfs tx_fee tn pf) = Inr treq
      \<longrightarrow> (enforce_dal_fee_policy X config (MTransfer treq) = Inr () \<longleftrightarrow> fee = amount))
    \<and> (unshield_notes X ek_new trap (r1, r2) change fee (fp_address policy) out_seed w = (Inr un, w')
        \<and> unshield_req_to_kernel (unshield_request root nfs x tx_fee rcp un pf) = Inr ureq
      \<longrightarrow> (enforce_dal_fee_policy X config (MUnshield ureq) = Inr () \<longleftrightarrow> fee = amount))
    \<and> (build_output_note_with_outgoing X ek_new r2 (fp_address policy) fee memo' out_seed ProducerFee = Inr n2
        \<and> shield_req_to_kernel sreq = Inr kreq \<and> sr_producer_cm sreq = po_cm n2 \<and> sr_producer_enc sreq = po_enc n2
        \<and> sr_producer_fee sreq = fee
      \<longrightarrow> (enforce_dal_fee_policy X config (MShield kreq) = Inr () \<longleftrightarrow> fee = amount))"
  by (intro conjI impI; elim conjE; rule wallet_fee_requests [OF assms]; assumption)

definition fee_policy_of :: "OperatorDalFeePolicy res \<Rightarrow> OperatorConfig" where
  "fee_policy_of policy = \<lparr>oc_direct_max_message_bytes = 4096, oc_dal_max_chunk_bytes = None, oc_octez_node_endpoint = Some [],
     oc_dal_node_endpoint = Some [], oc_dal_fee_policy = (case policy of Inr p \<Rightarrow> Some p | Inl _ \<Rightarrow> None)\<rparr>"

theorem wallet_requests_pay_operator_witness:
  "\<exists>policy tn w' treq. load_dal_fee_policy kem_ext 1 (Inr (OpView 1 ZERO [\<lparr>vr_index = 0, vr_d_j = ZERO, vr_auth_root = ZERO,
        vr_auth_pub_seed = ZERO, vr_nk_tag = ZERO\<rparr>])) 0 = Inr policy
     \<and> transfer_notes kem_ext (\<lambda>_. True) False ((ZERO, [], []), (ZERO, [], []), (ZERO, [], [])) sample_address 5 7 1
         (fp_address policy) None ZERO rich_wallet = (Inr tn, w')
     \<and> transfer_req_to_kernel (transfer_request ZERO [] 0 tn (Stark [] [])) = Inr treq
     \<and> enforce_dal_fee_policy kem_ext (fee_policy_of (Inr policy)) (MTransfer treq) = Inr ()"
proof -
  let ?rs = "[\<lparr>vr_index = 0, vr_d_j = ZERO, vr_auth_root = ZERO, vr_auth_pub_seed = ZERO, vr_nk_tag = ZERO\<rparr>]"
  obtain policy where p: "load_dal_fee_policy kem_ext 1 (Inr (OpView 1 ZERO ?rs)) 0 = Inr policy"
    by (cases "derive_kem_keys kem_ext ZERO 0") (simp add: load_dal_fee_policy_def)
  have felts: "\<forall>r \<in> set ?rs. is_felt (vr_d_j r) \<and> is_felt (vr_auth_root r) \<and> is_felt (vr_auth_pub_seed r) \<and> is_felt (vr_nk_tag r)"
    by (simp add: is_felt_def)
  have z: "length (fst (ZERO, [] :: bytes, [] :: bytes)) = 32" and one: "length ([] :: nat list) + 1 < 2 ^ 32" by simp_all
  obtain ek_v dk_v ek_d dk_d where a: "address_sound kem_ext (fp_address policy) dk_v dk_d"
    by (rule loaded_policy_sound [OF p felts])
  obtain tn w' where tn: "transfer_notes kem_ext (\<lambda>_. True) False ((ZERO, [], []), (ZERO, [], []), (ZERO, [], [])) sample_address 5 7 1
         (fp_address policy) None ZERO rich_wallet = (Inr tn, w')"
    by (rule transfer_notes_eq [OF kem_ext_laws rich_wallet_facts(1) one z z z sample_address_sound a])
  obtain treq where req: "transfer_req_to_kernel (transfer_request ZERO [] 0 tn (Stark [] [])) = Inr treq"
    by (simp add: transfer_req_to_kernel_def host_stark_proof_to_kernel_def transfer_request_def)
  have "oc_dal_fee_policy (fee_policy_of (Inr policy)) = Some policy" by (simp add: fee_policy_of_def)
  from conjunct1 [OF wallet_requests_pay_operator [OF kem_ext_laws p this felts z z z]] tn req
  have "enforce_dal_fee_policy kem_ext (fee_policy_of (Inr policy)) (MTransfer treq) = Inr ()" by blast
  then show ?thesis using p tn req by blast
qed

end
