(* ===== verification/Spec2Isabelle.thy ===== *)
theory Spec2Isabelle
  imports Prelude Strings Codec External Hashing Merkle Wots Notes Outputs LedgerState LedgerSpec Ledger
    Wire Host Durable KernelWire Verifier Staged Frame Kernel KernelSpec KernelSafety
    Bds BdsStack BdsBuild BdsSchedule BdsTraversal Wallet WalletKeys WalletFunds WalletSync WalletNotes WalletSpend
    WalletCommands WalletPersist WalletLive WalletShield
    Operator OperatorSafety OperatorDal OperatorFees
begin

text \<open>
  A verification library for TzEL, a shielded-payment rollup on Tezos.

  \<^bold>\<open>The program.\<close> Users hold notes, commitments in an append-only Merkle tree. Value enters
  through deposits to pools, becomes notes by \<^emph>\<open>shield\<close>, moves between notes by \<^emph>\<open>transfer\<close> and
  leaves by \<^emph>\<open>unshield\<close>; each request carries a STARK proof whose public outputs the ledger
  compares with the request, and reveals the nullifiers of the notes it spends. The core crate
  (\<open>core/src/lib.rs\<close>) holds the hashing, the keys, the notes, the tree and the ledger
  transitions, generic in a \<open>LedgerState\<close>; \<open>core/src/canonical_wire.rs\<close> and
  \<open>core/src/kernel_wire.rs\<close> hold the byte formats. The rollup kernel
  (\<open>tezos/rollup-kernel/src/lib.rs\<close>) reads inbox messages, checks their proofs with
  \<open>verifier/src/lib.rs\<close>, runs the transitions on a durable store and emits withdrawals to the
  outbox. The wallet (\<open>apps/wallet/src/lib.rs\<close>) derives addresses, each with an XMSS tree of
  one-time keys it walks with the BDS traversal, finds its notes in the rollup's feed, selects
  notes, signs with fresh keys, has requests proved and submits them. The operator
  (\<open>services/tzel/src/bin/tzel_operator.rs\<close>) takes such messages, injects small ones into the
  inbox and publishes large ones in chunks to the data-availability layer, from which the kernel
  fetches them by a pointer.

  \<^bold>\<open>Theories and sources.\<close>
  \<^item> \<open>Prelude\<close>, \<open>Strings\<close>: machine integers as words, \<open>Result\<close> and panics as values of \<open>'a res\<close>,
    \<open>&mut self\<close> methods as functions \<open>('s, 'a) action\<close> from a state to a result and the state
    left behind, byte layouts, decimal and hexadecimal text, UTF-8.
  \<^item> \<open>External\<close>: the code the repository only calls, as the fields of one record \<open>ext\<close>
    (BLAKE2s, hexadecimal text, Tezos addresses, ML-KEM, ChaCha20-Poly1305) that every definition
    takes as its argument \<open>X\<close>. \<open>Codec\<close>: the structures deriving \<open>BinWriter\<close> and \<open>NomReader\<close> as
    layouts; the third-party encoder is a parameter.
  \<^item> \<open>Hashing\<close>, \<open>Wots\<close>, \<open>Notes\<close>, \<open>Outputs\<close>, \<open>Merkle\<close>: \<open>core/src/lib.rs\<close> in its order. The
    kernel's frontier routines stand beside the in-memory tree they must agree with.
  \<^item> \<open>LedgerState\<close>: the requests, the \<open>LedgerState\<close> trait as a record of operations on an
    arbitrary state, the fee schedule and \<open>apply_deposit\<close>, \<open>apply_shield\<close>, \<open>apply_transfer\<close>,
    \<open>apply_unshield\<close>. \<open>LedgerSpec\<close>: the abstract ledger and the locale \<open>ledger_state\<close>, whose
    assumptions are what the trait's methods promise and whose lemmas are the refinement of each
    transition and the trace invariants. \<open>Ledger\<close> interprets it on the in-memory ledger
    (\<open>mem\<close>), \<open>Durable\<close> on the kernel's durable ledger (\<open>dur\<close>).
  \<^item> \<open>Wire\<close>, \<open>KernelWire\<close>: the canonical formats, one layout and one pair of conversions per
    structure.
  \<^item> \<open>Host\<close>, \<open>Durable\<close>, \<open>Staged\<close>: the \<open>Host\<close> trait, the paths, typed reads and writes and the
    prepared commits of the kernel. A host is a map from paths to bytes, the inputs, the outbox
    and the log; how a write treats bytes beyond the written ones, and when the outbox refuses,
    are parameters.
  \<^item> \<open>Verifier\<close>, \<open>Kernel\<close>: proof verification, message decoding, dispatch, bridge deposits,
    configuration, results and the main loop \<open>run_with_host\<close>.
  \<^item> \<open>Frame\<close>, \<open>KernelSpec\<close>, \<open>KernelSafety\<close>: what each operation leaves alone (the locale
    \<open>host_frame\<close>, interpreted for three relations), the step relation \<open>kernel_run\<close> the main
    loop implements, and the properties of whole runs.
  \<^item> \<open>Bds\<close>: the traversal state of a one-time tree, its construction and its advance.
    \<open>BdsStack\<close>, \<open>BdsBuild\<close>, \<open>BdsSchedule\<close>, \<open>BdsTraversal\<close>: what a treehash instance on the
    shared stack holds, what the construction leaves, why the bounded budget of updates finishes
    every node in time, and the invariant of the whole traversal.
  \<^item> \<open>Wallet\<close>: the wallet file, addresses, reservation of keys, the XMSS floor, loading, pending
    spends and note selection. \<open>WalletKeys\<close> holds the locale \<open>one_time_keys\<close>, what a
    signer promises and why it never reuses a key, interpreted on the wallet (\<open>wk\<close>).
    \<open>WalletFunds\<close>: selection. \<open>WalletSync\<close>: note recovery, the scans and the watch-only
    wallets. \<open>WalletNotes\<close>: output notes. \<open>WalletSpend\<close>: fees, plans, requests and their
    conversion to kernel messages.
  \<^item> \<open>WalletCommands\<close>: \<open>cmd_shield_rollup\<close>, \<open>cmd_transfer_rollup\<close>, \<open>cmd_unshield_rollup\<close>, with
    the answers of the world in a record \<open>wallet_env\<close> and their effects as a list of events.
    \<open>WalletPersist\<close>, \<open>WalletShield\<close>, \<open>WalletLive\<close>: what they guarantee and when they complete.
  \<^item> \<open>Operator\<close>: submissions, their validation, publication, attestation, republication and
    reconciliation, on a state of files and events and a world whose answers depend on the number of
    calls made before. \<open>OperatorSafety\<close>: the invariant of every session, by a small calculus of runs
    (\<open>runs\<close>). \<open>OperatorDal\<close>: reassembly by the kernel. \<open>OperatorFees\<close>: agreement of wallet and
    operator on fees.

  \<^bold>\<open>What is shown.\<close> \<^emph>\<open>Ledger\<close>: a transition is accepted exactly when its abstract guard holds;
  no nullifier is spent twice, no shield replayed, deposits are conserved, every accepted root is
  the root of an earlier tree. \<^emph>\<open>Kernel\<close>: the same for every run of the kernel from an empty
  store, with each accepted transaction backed by an accepted proof; outbox messages and recorded
  withdrawals correspond; a refused message leaves the state unchanged; the configuration is
  installed once; the main loop consumes its inputs. \<^emph>\<open>Cryptographic glue\<close>: sighashes and memo
  hashes bind their fields unless BLAKE2s collides on the two strings named in the statement;
  signatures and encrypted notes made by the code are accepted by the code; paths and frontiers
  compute the root of the tree. \<^emph>\<open>Formats\<close>: bytes decode to a message exactly when they are its
  encoding. \<^emph>\<open>Wallet\<close>: the BDS traversal gives the path of the full rebuild for every key and
  never misses a node; no session hands out a key twice, and a wallet file older than the saved
  floor is refused; selection is minimal; scanning in batches equals scanning at once, and viewing
  material finds exactly the notes the wallet finds; a prepared request is accepted by the ledger
  unless it has more than seven inputs; every command records its keys on disk before the prover
  sees a signature, conserves value, and completes when the world answers. \<^emph>\<open>Operator\<close>: only validated messages that pay the fee are
  published, chunks are retried at most eight times, and a pointer that is injected lets the kernel
  fetch exactly the accepted message; the fee policy accepts a wallet's request exactly when it
  pays the policy's amount.

  \<^bold>\<open>Hypotheses.\<close> Laws on a parameter are predicates: \<open>hex_laws\<close>, \<open>blake_laws\<close>, \<open>tze_laws\<close> and
  their kind state the documented behaviour of the third-party code, and \<open>durable_laws\<close> that a
  write replaces the value at its path, which the test hosts do; \<open>note_laws\<close> and \<open>kem_key_laws\<close> state what ML-KEM and the authenticated cipher
  promise for honestly made keys; \<open>snapshot_ok\<close> that a loaded tree is over the loaded notes; \<open>dal_serves\<close> that
  the data-availability layer returns published bytes padded with zeros; \<open>drained_pool_survives_splicing\<close>
  shows what happens on a host that does not. Each is shown to hold of a concrete instance by the witnesses.
  \<open>index_room\<close> bounds the counters of the durable store below their 64-bit limit, so that an
  index increment does not wrap; a store grows by at most one withdrawal and four notes per input. The wallet theorems assume fewer than
  \<open>2 ^ 32\<close> addresses; the traversal theorems a depth of at most 30 with an even number of treehash
  levels, which the constants \<open>AUTH_DEPTH\<close> and \<open>XMSS_BDS_K\<close> satisfy; the debugging trap that makes a
  rebuild panic is an argument, off in these statements.

  \<^bold>\<open>Bounds.\<close> No definition uses fuel: loops recurse on the data they consume, and the main loop on
  the number of inputs. A \<open>usize\<close> is a \<open>nat\<close>; where the code converts a 64-bit value to
  one, the width \<open>usize_bits\<close> of the target decides whether it fits.

  \<^bold>\<open>Not modelled.\<close> Circuits (Cairo) and the STARK prover: a proof is what the verifier accepts.
  The raw WebAssembly imports; test-only and sandbox-only code. Of the wallet: JSON, file
  system and locks (parsed files are arguments), HTTP and \<open>octez-client\<close> calls (their answers are
  arguments), argument parsing and printing, the commands against a ledger service, and the
  deposit, withdrawal and balance-listing commands. The HTTP ledger service, routing and authentication of the operator, the reprover,
  the demo and process orchestration: they move bytes between programs that are modelled. The
  OCaml reimplementation.
\<close>

end
